(* ===== verification/Prelude.thy ===== *)
theory Prelude
  imports Main "HOL-Library.Sublist"
begin

text \<open>
  What every theory of the development shares: the names of the program's string and
  container types, the operations of QString, QByteArray, QStringView and QList that the
  sources call on them, and the generic lemmas the component proofs rest on.

  A \<^verbatim>\<open>QByteArray\<close> is a list of bytes and a \<^verbatim>\<open>QString\<close> a list of
  characters; both are \<^typ>\<open>char list\<close>, so a text is modelled up to Latin-1, which is the
  range the network-facing parsers produce (\<^verbatim>\<open>QString::fromLatin1\<close>). Conversions that leave
  this range (UTF-8 decoding, regular expressions, URL and address parsing) are parameters of the
  definitions that use them.

  Collections of facts: \<open>view_simps\<close> (substring search), \<open>step_defs\<close> (the one-step
  operations of a component), \<open>inv_defs\<close> (its invariant).
\<close>

named_theorems view_simps \<open>facts on substring search and splitting\<close>
named_theorems step_defs \<open>definitions of a component's operations\<close>
named_theorems inv_defs \<open>definitions of a component's invariant\<close>

section \<open>Types\<close>

type_synonym qbytearray = "char list"
type_synonym qstring = "char list"
type_synonym ('e, 'a) result = "'e + 'a"

section \<open>Characters\<close>

text \<open>\<^verbatim>\<open>QChar::isSpace\<close> on Latin-1: the five ASCII controls, space, NEL and NBSP.\<close>

definition qchar_is_space :: "char \<Rightarrow> bool" where
  "qchar_is_space c \<longleftrightarrow>
     c \<in> {CHR 0x09, CHR 0x0A, CHR 0x0B, CHR 0x0C, CHR 0x0D, CHR 0x20, CHR 0x85, CHR 0xA0}"

text \<open>\<^verbatim>\<open>isspace\<close> of the C library in the default locale.\<close>

definition c_isspace :: "char \<Rightarrow> bool" where
  "c_isspace c \<longleftrightarrow> c \<in> {CHR 0x09, CHR 0x0A, CHR 0x0B, CHR 0x0C, CHR 0x0D, CHR 0x20}"

definition is_digit :: "char \<Rightarrow> bool" where
  "is_digit c \<longleftrightarrow> 48 \<le> (of_char c :: nat) \<and> (of_char c :: nat) \<le> 57"

text \<open>
  \<^verbatim>\<open>QChar::toLower\<close> on Latin-1: \<^verbatim>\<open>A-Z\<close> and the accented capitals
  (0xC0 to 0xDE but the multiplication sign 0xD7) move up by 32.
\<close>

definition is_upper :: "char \<Rightarrow> bool" where
  "is_upper c \<longleftrightarrow>
     (let n = (of_char c :: nat)
      in (65 \<le> n \<and> n \<le> 90) \<or> (192 \<le> n \<and> n \<le> 222 \<and> n \<noteq> 215))"

definition char_to_lower :: "char \<Rightarrow> char" where
  "char_to_lower c = (if is_upper c then char_of ((of_char c :: nat) + 32) else c)"

definition to_lower :: "qstring \<Rightarrow> qstring" where
  "to_lower s = map char_to_lower s"

text \<open>Equality under \<^verbatim>\<open>Qt::CaseInsensitive\<close>.\<close>

definition equal_ci :: "qstring \<Rightarrow> qstring \<Rightarrow> bool" where
  "equal_ci a b \<longleftrightarrow> to_lower a = to_lower b"

definition starts_with_ci :: "qstring \<Rightarrow> qstring \<Rightarrow> bool" where
  "starts_with_ci s p \<longleftrightarrow> prefix (to_lower p) (to_lower s)"

definition ends_with_ci :: "qstring \<Rightarrow> qstring \<Rightarrow> bool" where
  "ends_with_ci s p \<longleftrightarrow> suffix (to_lower p) (to_lower s)"

section \<open>Substrings\<close>

text \<open>\<^verbatim>\<open>indexOf(sep)\<close>: the first position where \<open>sep\<close> occurs (\<open>None\<close> for \<open>-1\<close>).\<close>

fun find_sub :: "'a list \<Rightarrow> 'a list \<Rightarrow> nat option" where
  "find_sub sep [] = (if sep = [] then Some 0 else None)"
| "find_sub sep (x # xs) =
     (if prefix sep (x # xs) then Some 0 else map_option Suc (find_sub sep xs))"

text \<open>\<^verbatim>\<open>indexOf(c)\<close> and \<^verbatim>\<open>lastIndexOf(c)\<close> for one character.\<close>

fun index_of :: "'a \<Rightarrow> 'a list \<Rightarrow> nat option" where
  "index_of c [] = None"
| "index_of c (x # xs) = (if x = c then Some 0 else map_option Suc (index_of c xs))"

fun last_index_of :: "'a \<Rightarrow> 'a list \<Rightarrow> nat option" where
  "last_index_of c [] = None"
| "last_index_of c (x # xs) =
     (case last_index_of c xs of
        Some i \<Rightarrow> Some (Suc i)
      | None \<Rightarrow> (if x = c then Some 0 else None))"

text \<open>\<^verbatim>\<open>mid(pos, n)\<close> for a position that is not negative.\<close>

definition mid :: "nat \<Rightarrow> nat \<Rightarrow> 'a list \<Rightarrow> 'a list" where
  "mid pos n xs = take n (drop pos xs)"

definition trimmed :: "qstring \<Rightarrow> qstring" where
  "trimmed s = rev (dropWhile qchar_is_space (rev (dropWhile qchar_is_space s)))"

definition replace_char :: "char \<Rightarrow> char \<Rightarrow> char list \<Rightarrow> char list" where
  "replace_char a b s = map (\<lambda>c. if c = a then b else c) s"

text \<open>\<^verbatim>\<open>split(c, Qt::KeepEmptyParts)\<close> for a one-character separator: never empty.\<close>

fun split_char :: "'a \<Rightarrow> 'a list \<Rightarrow> 'a list list" where
  "split_char c [] = [[]]"
| "split_char c (x # xs) =
     (if x = c then [] # split_char c xs
      else (case split_char c xs of
              [] \<Rightarrow> [[x]]
            | p # ps \<Rightarrow> (x # p) # ps))"

text \<open>\<^verbatim>\<open>split(sep, Qt::KeepEmptyParts)\<close> for a longer separator.\<close>

function split_str :: "'a list \<Rightarrow> 'a list \<Rightarrow> 'a list list" where
  "split_str sep xs =
     (if sep = [] then [xs]
      else (case find_sub sep xs of
              None \<Rightarrow> [xs]
            | Some i \<Rightarrow> take i xs # split_str sep (drop (i + length sep) xs)))"
  by pat_completeness auto

lemma find_sub_bound: "find_sub sep xs = Some i \<Longrightarrow> i + length sep \<le> length xs"
proof (induction xs arbitrary: i)
  case Nil
  then show ?case by (auto split: if_splits)
next
  case (Cons x xs)
  then show ?case
    by (auto split: if_splits dest: prefix_length_le)
qed

termination split_str
proof (relation "measure (\<lambda>(sep, xs). length xs)", goal_cases)
  case 1
  show ?case by simp
next
  case (2 sep xs i)
  then have "i + length sep \<le> length xs" by (simp add: find_sub_bound)
  with 2 show ?case by (cases sep) auto
qed

declare split_str.simps [simp del]

definition skip_empty :: "'a list list \<Rightarrow> 'a list list" where
  "skip_empty ps = filter (\<lambda>p. p \<noteq> []) ps"

text \<open>\<^verbatim>\<open>join(sep)\<close>.\<close>

fun join :: "'a list \<Rightarrow> 'a list list \<Rightarrow> 'a list" where
  "join sep [] = []"
| "join sep [p] = p"
| "join sep (p # q # ps) = p @ sep @ join sep (q # ps)"

section \<open>Lemmas on characters\<close>

lemma of_char_less_256 [simp]: "(of_char c :: nat) < 256"
  by (metis of_char_mod_256 mod_less_divisor zero_less_numeral)

lemma char_to_lower_not_upper [simp]: "\<not> is_upper (char_to_lower c)"
proof (cases "is_upper c")
  case True
  then have "(of_char c :: nat) + 32 < 256"
    by (auto simp: is_upper_def Let_def)
  with True show ?thesis
    by (auto simp: char_to_lower_def is_upper_def Let_def)
next
  case False
  then show ?thesis by (simp add: char_to_lower_def)
qed

lemma char_to_lower_idem [simp]: "char_to_lower (char_to_lower c) = char_to_lower c"
  using char_to_lower_not_upper [of c] by (simp add: char_to_lower_def [of "char_to_lower c"])

lemma to_lower_idem [simp]: "to_lower (to_lower s) = to_lower s"
  by (simp add: to_lower_def)

lemma length_to_lower [simp]: "length (to_lower s) = length s"
  by (simp add: to_lower_def)

lemma to_lower_append [simp]: "to_lower (a @ b) = to_lower a @ to_lower b"
  by (simp add: to_lower_def)

lemma to_lower_Nil [simp]: "to_lower [] = []"
  by (simp add: to_lower_def)

lemma length_replace_char [simp]: "length (replace_char a b s) = length s"
  by (simp add: replace_char_def)

section \<open>Lemmas on substring search\<close>

lemma find_sub_Some: "find_sub sep xs = Some i \<Longrightarrow> prefix sep (drop i xs)"
proof (induction xs arbitrary: i)
  case Nil
  then show ?case by (auto split: if_splits)
next
  case (Cons x xs)
  then show ?case by (auto split: if_splits)
qed

lemma find_sub_first: "find_sub sep xs = Some i \<Longrightarrow> j < i \<Longrightarrow> \<not> prefix sep (drop j xs)"
proof (induction xs arbitrary: i j)
  case Nil
  then show ?case by (auto split: if_splits)
next
  case (Cons x xs)
  then show ?case by (cases j) (auto split: if_splits)
qed

lemma find_sub_None: "find_sub sep xs = None \<Longrightarrow> \<not> prefix sep (drop j xs)"
proof (induction xs arbitrary: j)
  case Nil
  then show ?case by (auto split: if_splits)
next
  case (Cons x xs)
  then show ?case by (cases j) (auto split: if_splits)
qed

lemma find_sub_eqI:
  assumes "prefix sep (drop i xs)" and "i \<le> length xs"
    and "\<And>j. j < i \<Longrightarrow> \<not> prefix sep (drop j xs)"
  shows "find_sub sep xs = Some i"
proof (cases "find_sub sep xs")
  case None
  then show ?thesis using assms(1) find_sub_None by blast
next
  case (Some k)
  have "\<not> k < i" using Some assms(3) find_sub_Some by blast
  moreover have "\<not> i < k" using Some assms(1) find_sub_first by blast
  ultimately show ?thesis using Some by simp
qed

lemma prefix_drop_append:
  assumes "prefix sep (drop j (xs @ ys))" and "j + length sep \<le> length xs"
  shows "prefix sep (drop j xs)"
proof -
  from assms(2) have "length sep \<le> length (drop j xs)" by simp
  with assms show ?thesis
    by (auto intro: prefix_length_prefix)
qed

text \<open>A match survives any extension of the text: what makes framing stable.\<close>

lemma find_sub_append [view_simps]:
  assumes "find_sub sep xs = Some i"
  shows "find_sub sep (xs @ ys) = Some i"
proof (rule find_sub_eqI)
  have bnd: "i + length sep \<le> length xs" using assms by (rule find_sub_bound)
  show "prefix sep (drop i (xs @ ys))"
    using find_sub_Some [OF assms] bnd by (simp add: prefix_prefix)
  show "i \<le> length (xs @ ys)" using bnd by simp
  show "\<not> prefix sep (drop j (xs @ ys))" if "j < i" for j
  proof
    assume "prefix sep (drop j (xs @ ys))"
    moreover have "j + length sep \<le> length xs" using that bnd by simp
    ultimately have "prefix sep (drop j xs)" by (rule prefix_drop_append)
    with assms that show False using find_sub_first by blast
  qed
qed

lemma find_sub_split:
  assumes "find_sub sep xs = Some i"
  shows "xs = take i xs @ sep @ drop (i + length sep) xs"
proof -
  obtain zs where zs: "drop i xs = sep @ zs"
    using find_sub_Some [OF assms] by (auto simp: prefix_def)
  have "drop (length sep) (drop i xs) = zs" by (simp only: zs) simp
  with zs have "drop i xs = sep @ drop (length sep) (drop i xs)" by (simp only:)
  then have "take i xs @ drop i xs = take i xs @ sep @ drop (length sep) (drop i xs)"
    by simp
  then show ?thesis by (simp add: add.commute)
qed

text \<open>The text before a first match does not hold the separator.\<close>

lemma find_sub_take [view_simps]:
  assumes "find_sub sep xs = Some i" and "sep \<noteq> []"
  shows "find_sub sep (take i xs) = None"
proof (rule ccontr)
  assume "find_sub sep (take i xs) \<noteq> None"
  then obtain k where k: "find_sub sep (take i xs) = Some k" by auto
  have kb: "k + length sep \<le> length (take i xs)" using k by (rule find_sub_bound)
  have "find_sub sep (take i xs @ drop i xs) = Some k" using k by (rule find_sub_append)
  with assms(1) have "k = i" by simp
  with kb assms(2) show False by simp
qed

text \<open>In a prefix of the text the first match is found once it is complete.\<close>

lemma find_sub_take_iff:
  assumes "find_sub sep xs = Some i" and "sep \<noteq> []"
  shows "find_sub sep (take m xs) = (if m < i + length sep then None else Some i)"
proof (cases "find_sub sep (take m xs)")
  case None
  have "m < i + length sep"
  proof (rule ccontr)
    assume m: "\<not> m < i + length sep"
    have "take m xs = take i xs @ sep @ take (m - (i + length sep)) (drop (i + length sep) xs)"
    proof -
      obtain k where k: "m = i + (length sep + k)" using m by (metis add.assoc le_add_diff_inverse not_less)
      have "length (take i xs) = i" using find_sub_bound [OF assms(1)] by simp
      then have "take m (take i xs @ sep @ drop (i + length sep) xs)
          = take i xs @ sep @ take (m - (i + length sep)) (drop (i + length sep) xs)"
        by (simp add: k)
      then show ?thesis using find_sub_split [OF assms(1)] by metis
    qed
    then have "prefix sep (drop i (take m xs))"
      using find_sub_bound [OF assms(1)] by simp
    then show False using find_sub_None [OF None] by blast
  qed
  with None show ?thesis by simp
next
  case (Some k)
  then have "find_sub sep (take m xs @ drop m xs) = Some k" by (rule find_sub_append)
  with assms(1) have "k = i" by simp
  moreover have "k + length sep \<le> m" using find_sub_bound [OF Some] by simp
  ultimately show ?thesis using Some by simp
qed

lemma find_sub_skip:
  "c \<notin> set l \<Longrightarrow> find_sub (c # sep) (l @ xs) = map_option (\<lambda>i. length l + i) (find_sub (c # sep) xs)"
  by (induction l) (cases "find_sub (c # sep) xs"; auto)+

lemma mid_append: "n \<le> length (mid p n xs) \<Longrightarrow> mid p n (xs @ ys) = mid p n xs"
  by (auto simp: mid_def)

lemma mid_take: "p + n \<le> m \<Longrightarrow> mid p n (take m xs) = mid p n xs"
  by (simp add: mid_def drop_take min_def)

lemma index_of_find_sub: "index_of c xs = find_sub [c] xs"
  by (induction xs) auto

lemma index_of_Some: "index_of c xs = Some i \<Longrightarrow> i < length xs \<and> xs ! i = c \<and> c \<notin> set (take i xs)"
  by (induction xs arbitrary: i) (auto split: if_splits simp: nth_Cons' take_Cons')

lemma index_of_None [simp]: "index_of c xs = None \<longleftrightarrow> c \<notin> set xs"
  by (induction xs) auto

lemma index_of_append [simp]:
  "c \<notin> set xs \<Longrightarrow> index_of c (xs @ c # ys) = Some (length xs)"
  by (induction xs) auto

lemma last_index_of_None [simp]: "last_index_of c xs = None \<longleftrightarrow> c \<notin> set xs"
  by (induction xs) (auto split: option.splits)

lemma last_index_of_Some:
  "last_index_of c xs = Some i \<Longrightarrow> i < length xs \<and> xs ! i = c \<and> c \<notin> set (drop (Suc i) xs)"
proof (induction xs arbitrary: i)
  case Nil
  then show ?case by simp
next
  case (Cons x xs)
  show ?case
  proof (cases "last_index_of c xs")
    case None
    with Cons.prems show ?thesis by (auto split: if_splits)
  next
    case (Some j)
    with Cons.prems Cons.IH [OF Some] show ?thesis by auto
  qed
qed

lemma last_index_of_append [simp]:
  "c \<notin> set ys \<Longrightarrow> last_index_of c (xs @ c # ys) = Some (length xs)"
proof (induction xs)
  case Nil
  then show ?case by (auto split: option.splits)
next
  case (Cons x xs)
  then show ?case by simp
qed

section \<open>Lemmas on splitting and joining\<close>

lemma split_char_not_Nil [simp]: "split_char c xs \<noteq> []"
  by (cases xs) (auto split: list.splits)

lemma join_Cons: "ps \<noteq> [] \<Longrightarrow> join sep (p # ps) = p @ sep @ join sep ps"
  by (cases ps) auto

lemma join_split_char [simp]: "join [c] (split_char c xs) = xs"
proof (induction xs)
  case Nil
  show ?case by simp
next
  case (Cons x xs)
  show ?case
  proof (cases "split_char c xs")
    case Nil
    then show ?thesis by simp
  next
    case (Cons p ps)
    have "join [c] (p # ps) = xs" using Cons Cons.IH by simp
    then show ?thesis using Cons by (cases ps) auto
  qed
qed

lemma split_char_no_sep: "p \<in> set (split_char c xs) \<Longrightarrow> c \<notin> set p"
proof (induction xs arbitrary: p)
  case Nil
  then show ?case by simp
next
  case (Cons x xs)
  show ?case
  proof (cases "split_char c xs")
    case Nil
    then show ?thesis by simp
  next
    case (Cons q qs)
    with Cons.prems Cons.IH show ?thesis
      by (auto split: if_splits)
  qed
qed

lemma split_char_id: "c \<notin> set xs \<Longrightarrow> split_char c xs = [xs]"
  by (induction xs) auto

lemma split_char_append: "c \<notin> set p \<Longrightarrow> split_char c (p @ c # xs) = p # split_char c xs"
  by (induction p) auto

lemma split_char_join:
  "ps \<noteq> [] \<Longrightarrow> (\<forall>p \<in> set ps. c \<notin> set p) \<Longrightarrow> split_char c (join [c] ps) = ps"
proof (induction ps)
  case Nil
  then show ?case by simp
next
  case (Cons p ps)
  then show ?case
    by (cases ps) (auto simp: split_char_id split_char_append)
qed

lemma length_split_char: "length (split_char c xs) = Suc (count_list xs c)"
  by (induction xs) (auto split: list.splits)

section \<open>Lemmas on take and drop while\<close>

lemma set_trimmed: "set (trimmed s) \<subseteq> set s"
  by (auto simp: trimmed_def dest!: set_dropWhileD)

lemma trimmed_id:
  assumes "s = [] \<or> (\<not> qchar_is_space (hd s) \<and> \<not> qchar_is_space (last s))"
  shows "trimmed s = s"
proof (cases s rule: rev_cases)
  case Nil
  then show ?thesis by (simp add: trimmed_def)
next
  case (snoc ys y)
  then have "\<not> qchar_is_space y" using assms by simp
  moreover have "dropWhile qchar_is_space s = s"
    using snoc assms by (cases ys) auto
  ultimately show ?thesis using snoc by (simp add: trimmed_def)
qed

lemma trimmed_not_Nil: "s \<noteq> [] \<Longrightarrow> \<not> qchar_is_space (hd s) \<Longrightarrow> trimmed s \<noteq> []"
  by (cases s) (auto simp: trimmed_def dropWhile_eq_Nil_conv)

lemma trimmed_Cons_space: "qchar_is_space c \<Longrightarrow> trimmed (c # s) = trimmed s"
  by (simp add: trimmed_def)

lemma char_to_lower_ascii:
  "of_char c < (65::nat) \<Longrightarrow> char_to_lower d = c \<longleftrightarrow> d = c"
proof
  assume c: "of_char c < (65::nat)" and l: "char_to_lower d = c"
  have "\<not> is_upper d"
  proof
    assume u: "is_upper d"
    then have "(of_char d :: nat) + 32 < 256" "65 \<le> (of_char d :: nat)"
      by (auto simp: is_upper_def Let_def)
    with u l c show False by (auto simp: char_to_lower_def)
  qed
  with l show "d = c" by (simp add: char_to_lower_def)
next
  assume "of_char c < (65::nat)" and "d = c"
  then show "char_to_lower d = c" by (auto simp: char_to_lower_def is_upper_def Let_def)
qed

end
