(* ===== verification/Utils_ByteArray.thy ===== *)
theory Utils_ByteArray
  imports Prelude "HOL-Library.Word"
begin

unbundle bit_operations_syntax

text \<open>
  \<^verbatim>\<open>src/src/base/utils/bytearray.cpp\<close>: splitting a byte array into views and the
  RFC 4648 base-32 encoder. The lemmas show that splitting loses nothing but one trailing
  separator, that \<^verbatim>\<open>SkipEmptyParts\<close> is the filtered \<^verbatim>\<open>KeepEmptyParts\<close>
  result, and that the encoder is inverted by an independent decoder.
\<close>

section \<open>splitToViews\<close>

datatype split_behavior = KeepEmptyParts | SkipEmptyParts

text \<open>
  The loop over \<open>head\<close>. The caller has already returned for an empty separator; the test is
  repeated here only because the function is total.
\<close>

function splitToViews_loop ::
  "qbytearray \<Rightarrow> qbytearray \<Rightarrow> split_behavior \<Rightarrow> nat \<Rightarrow> qbytearray list" where
  "splitToViews_loop input sep behavior head =
     (if sep \<noteq> [] \<and> head < length input then
        let end_pos = (case find_sub sep (drop head input) of
                         None \<Rightarrow> length input
                       | Some i \<Rightarrow> head + i);
            part = mid head (end_pos - head) input;
            rest = splitToViews_loop input sep behavior (end_pos + length sep)
        in if part \<noteq> [] \<or> behavior = KeepEmptyParts then part # rest else rest
      else [])"
  by pat_completeness auto
termination
proof (relation "measure (\<lambda>(input, sep, behavior, head). length input - head)", goal_cases)
  case 1
  show ?case by simp
next
  case (2 input sep behavior head end_pos part)
  then show ?case by (cases sep) (auto split: option.splits)
qed

declare splitToViews_loop.simps [simp del]

definition splitToViews :: "qbytearray \<Rightarrow> qbytearray \<Rightarrow> split_behavior \<Rightarrow> qbytearray list" where
  "splitToViews input sep behavior =
     (if sep = [] then [input] else splitToViews_loop input sep behavior 0)"

section \<open>toBase32\<close>

definition base32_alphabet :: "char list" where
  "base32_alphabet = ''ABCDEFGHIJKLMNOPQRSTUVWXYZ234567''"

text \<open>The inner loop: at most five bytes enter the 40-bit chunk, most significant first.\<close>

fun base32_fill :: "qbytearray \<Rightarrow> nat \<Rightarrow> 64 word \<Rightarrow> 64 word \<times> nat \<times> qbytearray" where
  "base32_fill [] inPadLen chunk = (chunk, inPadLen, [])"
| "base32_fill (b # bs) inPadLen chunk =
     (if 0 < inPadLen then
        let inPadLen' = inPadLen - 1;
            chunk' = chunk OR push_bit (inPadLen' * 8) (of_nat (of_char b))
        in if bs = [] then (chunk', inPadLen', []) else base32_fill bs inPadLen' chunk'
      else (chunk, inPadLen, b # bs))"

definition outCharCounts :: "nat list" where
  "outCharCounts = [8, 7, 5, 4, 2]"

definition base32_char :: "64 word \<Rightarrow> nat \<Rightarrow> nat \<Rightarrow> char" where
  "base32_char chunk inPadLen i =
     (if i \<ge> 8 - outCharCounts ! inPadLen then
        let shift = i * 5;
            mask = push_bit shift (0x1f :: 64 word);
            charIndex = drop_bit shift (chunk AND mask)
        in base32_alphabet ! unat charIndex
      else CHR ''='')"

definition base32_emit :: "64 word \<Rightarrow> nat \<Rightarrow> char list" where
  "base32_emit chunk inPadLen = map (base32_char chunk inPadLen) (rev [0..<8])"

lemma base32_fill_shorter:
  "0 < p \<Longrightarrow> base32_fill (b # bs) p c = (c', p', rest) \<Longrightarrow> length rest \<le> length bs"
proof (induction bs arbitrary: b p c)
  case Nil
  then show ?case by (simp add: Let_def)
next
  case (Cons d ds)
  show ?case
  proof (cases "0 < p - 1")
    case True
    with Cons.prems Cons.IH [of "p - 1" d] show ?thesis
      by (fastforce simp: Let_def simp del: base32_fill.simps(2) simp: base32_fill.simps(2) [of b])
  next
    case False
    with Cons.prems show ?thesis by (auto simp: Let_def)
  qed
qed

function toBase32 :: "qbytearray \<Rightarrow> qbytearray" where
  "toBase32 [] = []"
| "toBase32 (b # bs) =
     (case base32_fill (b # bs) 5 0 of
        (chunk, inPadLen, rest) \<Rightarrow> base32_emit chunk inPadLen @ toBase32 rest)"
  by pat_completeness auto
termination
proof (relation "measure length", goal_cases)
  case 1
  show ?case by simp
next
  case (2 b bs x chunk y rest)
  then have "base32_fill (b # bs) 5 0 = (x, y, rest)" by simp
  from base32_fill_shorter [OF _ this] show ?case by simp
qed

declare toBase32.simps(2) [simp del]

text \<open>
  The reference decoder of RFC 4648: eight characters give \<open>n\<close> bytes, where the number of
  padding characters (0, 1, 3, 4 or 6) fixes \<open>n\<close>.
\<close>

definition base32_value :: "char \<Rightarrow> nat" where
  "base32_value c = (case index_of c base32_alphabet of Some v \<Rightarrow> v | None \<Rightarrow> 0)"

definition base32_bytes :: "nat \<Rightarrow> nat" where
  "base32_bytes pad = (if pad = 0 then 5 else if pad = 1 then 4 else if pad = 3 then 3
                       else if pad = 4 then 2 else if pad = 6 then 1 else 0)"

definition base32_group :: "char list \<Rightarrow> qbytearray" where
  "base32_group g =
     (let v = foldl (\<lambda>a c. 32 * a + base32_value c) 0 g
      in map (\<lambda>k. char_of (v div 256 ^ (4 - k))) [0..<base32_bytes (count_list g (CHR ''=''))])"

fun fromBase32 :: "char list \<Rightarrow> qbytearray" where
  "fromBase32 cs =
     (if length cs < 8 then [] else base32_group (take 8 cs) @ fromBase32 (drop 8 cs))"

declare fromBase32.simps [simp del]

section \<open>Lemmas on splitting\<close>

lemma splitToViews_loop_skip:
  "splitToViews_loop input sep SkipEmptyParts head
     = skip_empty (splitToViews_loop input sep KeepEmptyParts head)"
proof (induction "length input - head" arbitrary: head rule: less_induct)
  case less
  show ?case
  proof (cases "sep \<noteq> [] \<and> head < length input")
    case True
    define e where "e = (case find_sub sep (drop head input) of
                           None \<Rightarrow> length input | Some i \<Rightarrow> head + i)"
    define p where "p = mid head (e - head) input"
    have IH: "splitToViews_loop input sep SkipEmptyParts (e + length sep)
        = skip_empty (splitToViews_loop input sep KeepEmptyParts (e + length sep))"
      using True by (intro less.hyps) (cases sep; auto simp: e_def split: option.splits)
    have unf: "splitToViews_loop input sep b head =
        (if p \<noteq> [] \<or> b = KeepEmptyParts
         then p # splitToViews_loop input sep b (e + length sep)
         else splitToViews_loop input sep b (e + length sep))" for b
      using True by (subst splitToViews_loop.simps) (simp add: Let_def e_def [symmetric] p_def [symmetric])
    show ?thesis by (simp add: unf IH) (simp add: skip_empty_def)
  next
    case False
    then have "splitToViews_loop input sep b head = []" for b
      by (subst splitToViews_loop.simps) (metis (full_types))
    then show ?thesis by (simp add: skip_empty_def)
  qed
qed

text \<open>One turn of the loop, on the text that is left.\<close>

lemma splitToViews_loop_step:
  assumes "sep \<noteq> []" and "head < length input"
  shows "splitToViews_loop input sep KeepEmptyParts head =
    (case find_sub sep (drop head input) of
       None \<Rightarrow> [drop head input]
     | Some i \<Rightarrow> take i (drop head input)
                 # splitToViews_loop input sep KeepEmptyParts (head + i + length sep))"
proof (cases "find_sub sep (drop head input)")
  case None
  moreover have "splitToViews_loop input sep KeepEmptyParts (length input + length sep) = []"
    by (subst splitToViews_loop.simps) simp
  ultimately show ?thesis
    using assms by (subst splitToViews_loop.simps) (simp add: Let_def mid_def)
next
  case (Some i)
  then show ?thesis
    using assms by (subst splitToViews_loop.simps) (simp add: Let_def mid_def)
qed

lemma splitToViews_loop_end:
  "length input \<le> head \<Longrightarrow> splitToViews_loop input sep behavior head = []"
  by (subst splitToViews_loop.simps) simp

lemma splitToViews_loop_join:
  assumes "sep \<noteq> []" and "head \<le> length input"
  shows "drop head input \<in>
    {join sep (splitToViews_loop input sep KeepEmptyParts head),
     join sep (splitToViews_loop input sep KeepEmptyParts head) @ sep}"
  using assms(2)
proof (induction "length input - head" arbitrary: head rule: less_induct)
  case less
  show ?case
  proof (cases "head < length input")
    case False
    with less.prems show ?thesis by (simp add: splitToViews_loop_end)
  next
    case True
    show ?thesis
    proof (cases "find_sub sep (drop head input)")
      case None
      with True assms(1) show ?thesis by (simp add: splitToViews_loop_step)
    next
      case (Some i)
      let ?h = "head + i + length sep"
      let ?ps = "splitToViews_loop input sep KeepEmptyParts ?h"
      have bnd: "?h \<le> length input" using find_sub_bound [OF Some] True by simp
      have eq: "drop head input = take i (drop head input) @ sep @ drop ?h input"
        using find_sub_split [OF Some] by (simp add: add.commute add.left_commute)
      have "length input - ?h < length input - head"
        using bnd True assms(1) by (cases sep) auto
      then have IH: "drop ?h input \<in> {join sep ?ps, join sep ?ps @ sep}"
        using less.hyps bnd by blast
      have step: "splitToViews_loop input sep KeepEmptyParts head = take i (drop head input) # ?ps"
        using True assms(1) Some by (simp add: splitToViews_loop_step)
      show ?thesis
      proof (cases "?ps = []")
        case True
        with bnd have "drop ?h input = []"
          by (cases "?h < length input")
             (auto simp: splitToViews_loop_step [OF assms(1)] split: option.splits)
        with eq step True show ?thesis by simp
      next
        case False
        with IH eq step show ?thesis by (auto simp: join_Cons)
      qed
    qed
  qed
qed

lemma splitToViews_loop_no_sep:
  "p \<in> set (splitToViews_loop input sep KeepEmptyParts head) \<Longrightarrow> sep \<noteq> [] \<Longrightarrow> find_sub sep p = None"
proof (induction "length input - head" arbitrary: head rule: less_induct)
  case less
  show ?case
  proof (cases "head < length input")
    case False
    with less.prems show ?thesis by (simp add: splitToViews_loop_end)
  next
    case True
    show ?thesis
    proof (cases "find_sub sep (drop head input)")
      case None
      with True less.prems show ?thesis by (simp add: splitToViews_loop_step)
    next
      case (Some i)
      have "length input - (head + i + length sep) < length input - head"
        using True less.prems(2) by (cases sep) auto
      with less Some True show ?thesis
        by (auto simp: splitToViews_loop_step find_sub_take)
    qed
  qed
qed

text \<open>
  Splitting a byte array by a separator that is not empty loses nothing: the parts joined
  by the separator are the input, or the input less one trailing separator; no part holds the
  separator; and skipping empty parts is dropping the empty ones from the full result.
\<close>

theorem splitToViews_correct:
  assumes "sep \<noteq> []"
  shows "(input = join sep (splitToViews input sep KeepEmptyParts)
          \<or> input = join sep (splitToViews input sep KeepEmptyParts) @ sep)
       \<and> (\<forall>p \<in> set (splitToViews input sep KeepEmptyParts). find_sub sep p = None)
       \<and> splitToViews input sep SkipEmptyParts
           = skip_empty (splitToViews input sep KeepEmptyParts)"
  using splitToViews_loop_join [OF assms, of 0 input] assms
  by (auto simp: splitToViews_def splitToViews_loop_skip dest: splitToViews_loop_no_sep)

theorem splitToViews_correct_witness:
  "''&'' \<noteq> ''''
   \<and> (''a=1&&b=2&'' = join ''&'' (splitToViews ''a=1&&b=2&'' ''&'' KeepEmptyParts)
      \<or> ''a=1&&b=2&'' = join ''&'' (splitToViews ''a=1&&b=2&'' ''&'' KeepEmptyParts) @ ''&'')
   \<and> splitToViews ''a=1&&b=2&'' ''&'' KeepEmptyParts = [''a=1'', '''', ''b=2'']"
  using splitToViews_correct [of "''&''" "''a=1&&b=2&''"]
  by (simp add: splitToViews_def splitToViews_loop.simps mid_def)

section \<open>Lemmas on base 32\<close>

lemma index_of_nth: "distinct xs \<Longrightarrow> i < length xs \<Longrightarrow> index_of (xs ! i) xs = Some i"
proof (induction xs arbitrary: i)
  case Nil
  then show ?case by simp
next
  case (Cons x xs)
  then show ?case by (cases i) auto
qed

lemma base32_alphabet_facts:
  "distinct base32_alphabet" "length base32_alphabet = 32" "CHR ''='' \<notin> set base32_alphabet"
  by (simp_all add: base32_alphabet_def)

lemma base32_value_nth: "i < 32 \<Longrightarrow> base32_value (base32_alphabet ! i) = i"
  by (simp add: base32_value_def index_of_nth base32_alphabet_facts)

lemma base32_value_pad: "base32_value (CHR ''='') = 0"
  using base32_alphabet_facts(3) by (simp add: base32_value_def split: option.split)
     (metis index_of_None option.distinct(1))

text \<open>A byte or-ed into the free low end of the chunk is a sum.\<close>

lemma nat_or_disjoint:
  fixes k b m :: nat
  assumes "b < 2 ^ m"
  shows "(k * 2 ^ m) OR b = k * 2 ^ m + b"
proof -
  have "push_bit m k AND take_bit m b = 0"
    by (rule bit_eqI) (auto simp: bit_simps)
  then have "push_bit m k + take_bit m b = push_bit m k OR take_bit m b"
    by (rule disjunctive_add_eq_or)
  with assms show ?thesis
    by (simp add: push_bit_eq_mult take_bit_nat_eq_self)
qed

lemma or_push_byte:
  fixes c :: "64 word"
  assumes c: "unat c = V * 256 ^ Suc n" and b: "b < 256" and V: "V * 256 ^ Suc n < 2 ^ 40"
    and n: "n \<le> 4"
  shows "unat (c OR push_bit (n * 8) (of_nat b)) = (256 * V + b) * 256 ^ n"
proof -
  have pw: "(256::nat) ^ k = 2 ^ (k * 8)" for k
    by (simp add: power_mult power_mult [symmetric] mult.commute [of k] flip: power_mult)
       (simp add: power_mult)
  have lt: "b * 2 ^ (n * 8) < 2 ^ (Suc n * 8)"
    using b by (simp add: power_add)
  have "(2::nat) ^ (Suc n * 8) \<le> 2 ^ 40" using n by (intro power_increasing) auto
  with lt have lt64: "b * 2 ^ (n * 8) < 2 ^ 64" by simp
  have "unat (push_bit (n * 8) (of_nat b :: 64 word)) = b * 2 ^ (n * 8)"
  proof -
    have "unat (of_nat b :: 64 word) = b"
      using b by (simp add: unsigned_of_nat take_bit_nat_eq_self)
    moreover have "unat (push_bit (n * 8) (of_nat b :: 64 word))
        = take_bit 64 (push_bit (n * 8) (unat (of_nat b :: 64 word)))"
      by (simp only: unsigned_push_bit_eq) simp
    ultimately have "unat (push_bit (n * 8) (of_nat b :: 64 word)) = take_bit 64 (b * 2 ^ (n * 8))"
      by (simp only: push_bit_eq_mult)
    with lt64 show ?thesis by (simp only: take_bit_nat_eq_self)
  qed
  then have "unat (c OR push_bit (n * 8) (of_nat b)) = (V * 2 ^ (Suc n * 8)) OR (b * 2 ^ (n * 8))"
    by (simp add: unsigned_or_eq c pw del: power_Suc mult_Suc)
  also have "\<dots> = V * 2 ^ (Suc n * 8) + b * 2 ^ (n * 8)"
    by (rule nat_or_disjoint [OF lt])
  also have "\<dots> = (256 * V + b) * 256 ^ n"
    by (simp add: pw algebra_simps power_add)
  finally show ?thesis .
qed

definition base256 :: "nat \<Rightarrow> qbytearray \<Rightarrow> nat" where
  "base256 V bs = foldl (\<lambda>a b. 256 * a + of_char b) V bs"

lemma base256_bound: "base256 V bs < (V + 1) * 256 ^ length bs"
proof (induction bs rule: rev_induct)
  case Nil
  show ?case by (simp add: base256_def)
next
  case (snoc b bs)
  have "base256 V (bs @ [b]) = 256 * base256 V bs + of_char b"
    by (simp add: base256_def)
  also have "\<dots> < 256 * (base256 V bs + 1)"
    by (simp add: less_le_trans [OF of_char_less_256])
  also have "\<dots> \<le> 256 * ((V + 1) * 256 ^ length bs)"
    using snoc by (intro mult_le_mono2) simp
  finally show ?case by (simp add: algebra_simps)
qed

lemma base32_fill_value:
  assumes "bs \<noteq> []" and "0 < p" and "p \<le> 5"
    and "unat c = V * 256 ^ p" and "V < 256 ^ (5 - p)"
    and "base32_fill bs p c = (c', p', rest)"
  shows "p' = p - length (take p bs) \<and> rest = drop p bs
       \<and> unat c' = base256 V (take p bs) * 256 ^ p'"
  using assms
proof (induction bs arbitrary: p c V)
  case Nil
  then show ?case by simp
next
  case (Cons b bs)
  obtain q where q: "p = Suc q" using Cons.prems(2) by (cases p) auto
  let ?c = "c OR push_bit (q * 8) (of_nat (of_char b))"
  let ?V = "256 * V + of_char b"
  have "V * 256 ^ Suc q < 256 ^ (5 - p) * 256 ^ Suc q" using Cons.prems(5) by simp
  also have "\<dots> = (2::nat) ^ 40" using Cons.prems(3) q
    by (simp flip: power_add)
  finally have "V * 256 ^ Suc q < (2::nat) ^ 40" .
  then have uc: "unat ?c = ?V * 256 ^ q"
    using Cons.prems(3,4) q by (intro or_push_byte) auto
  have V': "?V < 256 ^ (5 - q)"
  proof -
    have "256 * (V + 1) \<le> 256 * 256 ^ (5 - p)" using Cons.prems(5) by (intro mult_le_mono2) simp
    moreover have "(256::nat) * 256 ^ (5 - p) = 256 ^ (5 - q)"
      using Cons.prems(3) q by (simp add: Suc_diff_le flip: power_Suc)
    moreover have "?V < 256 * (V + 1)" by simp
    ultimately show ?thesis by linarith
  qed
  show ?case
  proof (cases "bs = [] \<or> q = 0")
    case True
    with Cons.prems q uc show ?thesis
      by (cases bs) (auto simp: Let_def base256_def)
  next
    case False
    with Cons.prems(6) q have "base32_fill bs q ?c = (c', p', rest)"
      by (simp add: Let_def)
    from Cons.IH [OF _ _ _ uc V' this] False Cons.prems(3) q show ?thesis
      by (auto simp: base256_def)
  qed
qed

lemma base32_digit:
  fixes c :: "64 word"
  shows "unat (drop_bit s (c AND push_bit s 0x1f)) = (unat c div 2 ^ s) mod 32"
proof -
  have mask: "(0x1f :: 64 word) = mask 5"
    by (simp add: mask_eq_exp_minus_1)
  have "drop_bit s (c AND push_bit s 0x1f) = take_bit 5 (drop_bit s c)"
    unfolding mask by (rule bit_word_eqI) (auto simp: bit_simps dest: bit_imp_le_length)
  then have "unat (drop_bit s (c AND push_bit s 0x1f)) = take_bit 5 (drop_bit s (unat c))"
    by (simp only: unsigned_take_bit_eq unsigned_drop_bit_eq)
       (rule bit_eqI, use bit_imp_le_length [of c] in \<open>auto simp: bit_simps\<close>)
  then show ?thesis by (simp add: take_bit_eq_mod drop_bit_eq_div)
qed

text \<open>The eight output characters spell the chunk in base 32, padding counting as zero.\<close>

lemma base32_char_value:
  assumes "unat c = V * 256 ^ p" and "p \<le> 4" and "i < 8"
  shows "base32_value (base32_char c p i) = (unat c div 32 ^ i) mod 32"
proof -
  have pw: "(32::nat) ^ i = 2 ^ (i * 5)"
    by (simp only: mult.commute [of i] power_mult) simp
  show ?thesis
  proof (cases "i \<ge> 8 - outCharCounts ! p")
    case True
    then show ?thesis
      by (simp only: base32_char_def Let_def base32_digit pw if_True)
         (simp add: base32_value_nth)
  next
    case False
    have "p \<in> {0, 1, 2, 3, 4}" using assms(2) by auto
    with False have "5 * Suc i \<le> 8 * p"
      by (auto simp: outCharCounts_def)
    then have "(2::nat) ^ (5 * Suc i) dvd 2 ^ (8 * p)" by (rule le_imp_power_dvd)
    then have "(32::nat) ^ Suc i dvd 256 ^ p"
      by (simp only: power_mult) simp
    then have "32 ^ Suc i dvd unat c" using assms(1) by simp
    then obtain k where "unat c = 32 ^ Suc i * k" by (auto simp: dvd_def)
    then have "(unat c div 32 ^ i) mod 32 = 0" by (simp add: mult.assoc mult.left_commute)
    with False show ?thesis by (simp add: base32_char_def base32_value_pad)
  qed
qed

lemma base32_digits_sum:
  "foldl (\<lambda>a i. 32 * a + (v div 32 ^ i) mod 32) acc (rev [0..<n]) = acc * 32 ^ n + v mod (32::nat) ^ n"
proof (induction n arbitrary: acc)
  case 0
  show ?case by simp
next
  case (Suc n)
  have "v mod 32 ^ Suc n = 32 ^ n * (v div 32 ^ n mod 32) + v mod 32 ^ n"
    by (simp only: power_Suc2 mod_mult2_eq)
  then show ?case by (simp add: Suc.IH) (simp add: algebra_simps)
qed

lemma foldl_map: "foldl f a (map g xs) = foldl (\<lambda>a x. f a (g x)) a xs"
  by (induction xs arbitrary: a) auto

lemma foldl_cong_set: "(\<And>a x. x \<in> set xs \<Longrightarrow> f a x = g a x) \<Longrightarrow> foldl f a xs = foldl g a xs"
  by (induction xs arbitrary: a) auto

lemma base32_emit_value:
  assumes "unat c = V * 256 ^ p" and "p \<le> 4" and "unat c < 2 ^ 40"
  shows "foldl (\<lambda>a ch. 32 * a + base32_value ch) 0 (base32_emit c p) = unat c"
proof -
  have "foldl (\<lambda>a ch. 32 * a + base32_value ch) 0 (base32_emit c p)
      = foldl (\<lambda>a i. 32 * a + (unat c div 32 ^ i) mod 32) 0 (rev [0..<8])"
    unfolding base32_emit_def foldl_map
    by (rule foldl_cong_set) (simp add: base32_char_value [OF assms(1,2)])
  also have "\<dots> = unat c" using assms(3) by (simp only: base32_digits_sum) simp
  finally show ?thesis .
qed

lemma base32_char_pad: "i < 8 \<Longrightarrow> p \<le> 4 \<Longrightarrow>
    base32_char c p i = CHR ''='' \<longleftrightarrow> i < 8 - outCharCounts ! p"
proof (cases "i \<ge> 8 - outCharCounts ! p")
  case True
  have "base32_alphabet ! unat (drop_bit (i * 5) (c AND push_bit (i * 5) 0x1f)) \<in> set base32_alphabet"
    by (rule nth_mem) (simp only: base32_digit base32_alphabet_facts mod_less_divisor zero_less_numeral)
  with True base32_alphabet_facts(3) show ?thesis
    by (auto simp: base32_char_def Let_def)
next
  case False
  then show ?thesis by (simp add: base32_char_def)
qed

lemma count_list_map_filter: "count_list (map f xs) y = length (filter (\<lambda>x. f x = y) xs)"
  by (induction xs) auto

lemma filter_upt_less: "filter (\<lambda>i. i < n) [0..<m] = [0..<min n m]"
proof (induction m)
  case 0
  show ?case by simp
next
  case (Suc m)
  then show ?case by (cases "n \<le> m"; cases "n = Suc m") (auto simp: min_def not_le)
qed

lemma base32_emit_pads:
  assumes "p \<le> 4"
  shows "base32_bytes (count_list (base32_emit c p) (CHR ''='')) = 5 - p"
proof -
  have "filter (\<lambda>i. base32_char c p i = CHR ''='') (rev [0..<8])
      = filter (\<lambda>i. i < 8 - outCharCounts ! p) (rev [0..<8])"
    by (rule filter_cong) (use assms in \<open>auto simp: base32_char_pad\<close>)
  then have cnt: "count_list (base32_emit c p) (CHR ''='')
      = length (filter (\<lambda>i. i < 8 - outCharCounts ! p) (rev [0..<8]))"
    by (simp only: base32_emit_def count_list_map_filter)
  have pads: "length (filter (\<lambda>i. i < n) (rev [0..<8])) = n" if "n \<le> 8" for n :: nat
  proof -
    have "filter (\<lambda>i. i < n) [0..<8] = [0..<n]"
      using that filter_upt_less [of n 8] by simp
    then show ?thesis by (simp flip: rev_filter)
  qed
  have n: "count_list (base32_emit c p) (CHR ''='') = 8 - outCharCounts ! p"
    by (simp only: cnt) (simp add: pads)
  consider "p = 0" | "p = 1" | "p = 2" | "p = 3" | "p = 4" using assms by linarith
  then show ?thesis unfolding n
    by cases (simp_all add: outCharCounts_def base32_bytes_def)
qed

lemma base256_bytes:
  "map (\<lambda>j. char_of (base256 0 bs div 256 ^ (length bs - 1 - j))) [0..<length bs] = bs"
proof (induction bs rule: rev_induct)
  case Nil
  show ?case by simp
next
  case (snoc b bs)
  let ?V = "base256 0 bs"
  have v: "base256 0 (bs @ [b]) = 256 * ?V + of_char b" by (simp add: base256_def)
  have "map (\<lambda>j. char_of ((256 * ?V + of_char b) div 256 ^ (length bs - j))) [0..<length bs]
      = map (\<lambda>j. char_of (?V div 256 ^ (length bs - 1 - j))) [0..<length bs]"
  proof (rule map_cong [OF refl])
    fix j assume "j \<in> set [0..<length bs]"
    then have "length bs - j = Suc (length bs - 1 - j)" by auto
    then have "(256 * ?V + of_char b) div 256 ^ (length bs - j)
        = (256 * ?V + of_char b) div 256 div 256 ^ (length bs - 1 - j)"
      by (simp add: div_mult2_eq)
    also have "(256 * ?V + of_char b) div 256 = ?V" by simp
    finally show "char_of ((256 * ?V + of_char b) div 256 ^ (length bs - j))
        = (char_of (?V div 256 ^ (length bs - 1 - j)) :: char)" by simp
  qed
  moreover have "char_of (256 * ?V + of_char b) = b"
  proof -
    have "(256 * ?V + of_char b) mod 256 = of_char b" by simp
    then show ?thesis by (metis char_of_mod_256 char_of_char)
  qed
  ultimately show ?case using snoc by (simp add: v del: map_eq_conv)
qed

lemma base32_group_emit:
  assumes "unat c = base256 0 bs * 256 ^ p" and "p \<le> 4" and "length bs = 5 - p"
  shows "base32_group (base32_emit c p) = bs"
proof -
  have "unat c < 256 ^ length bs * 256 ^ p"
    using base256_bound [of 0 bs] by (simp add: assms(1))
  also have "\<dots> = 2 ^ 40" using assms(2,3) by (simp flip: power_add)
  finally have lt: "unat c < 2 ^ 40" .
  have len: "length bs - 1 - j = 4 - p - j" for j using assms(2,3) by simp
  have idx: "unat c div 256 ^ (4 - j) = base256 0 bs div 256 ^ (length bs - 1 - j)"
    if "j < 5 - p" for j
  proof -
    have "4 - j = p + (4 - p - j)" using that assms(2) by auto
    then have "(256::nat) ^ (4 - j) = 256 ^ p * 256 ^ (4 - p - j)" by (simp flip: power_add)
    then show ?thesis by (simp only: assms(1) len div_mult2_eq) simp
  qed
  have "base32_group (base32_emit c p) = map (\<lambda>k. char_of (unat c div 256 ^ (4 - k))) [0..<5 - p]"
    using base32_emit_value [OF assms(1,2) lt] base32_emit_pads [OF assms(2)]
    by (simp add: base32_group_def Let_def)
  also have "\<dots> = map (\<lambda>j. char_of (base256 0 bs div 256 ^ (length bs - 1 - j))) [0..<length bs]"
    using assms(3) by (intro map_cong) (auto simp: idx)
  finally show ?thesis by (simp only: base256_bytes)
qed

lemma length_base32_emit [simp]: "length (base32_emit c p) = 8"
  by (simp add: base32_emit_def)

lemma fromBase32_append: "length g = 8 \<Longrightarrow> fromBase32 (g @ rest) = base32_group g @ fromBase32 rest"
  by (subst fromBase32.simps) simp

text \<open>One turn of the encoder: at most five bytes become eight characters.\<close>

lemma toBase32_step:
  assumes "bs \<noteq> []"
  obtains c p where "toBase32 bs = base32_emit c p @ toBase32 (drop 5 bs)"
    and "p \<le> 4" and "length (take 5 bs) = 5 - p"
    and "unat c = base256 0 (take 5 bs) * 256 ^ p"
proof -
  obtain b bs' where b: "bs = b # bs'" using assms by (cases bs) auto
  obtain c p rest where f: "base32_fill bs 5 0 = (c, p, rest)" by (cases "base32_fill bs 5 0") auto
  have "p = 5 - length (take 5 bs)" "rest = drop 5 bs" "unat c = base256 0 (take 5 bs) * 256 ^ p"
    using base32_fill_value [OF assms _ _ _ _ f, of 0] by auto
  moreover have "0 < length (take 5 bs)" using assms by simp
  ultimately show ?thesis
    using f that [of c p] by (simp add: b toBase32.simps(2) del: base32_fill.simps) 
qed

text \<open>
  The base-32 encoder is inverted by the RFC 4648 decoder on every byte array, whatever its
  length modulo five, and its output has exactly the length the code reserves for it.
\<close>

theorem toBase32_roundtrip:
  "fromBase32 (toBase32 bs) = bs \<and> length (toBase32 bs) = (length bs + 4) div 5 * 8"
proof (induction bs rule: length_induct)
  case (1 bs)
  show ?case
  proof (cases "bs = []")
    case True
    then show ?thesis by (simp add: fromBase32.simps)
  next
    case False
    obtain c p where st: "toBase32 bs = base32_emit c p @ toBase32 (drop 5 bs)"
      "p \<le> 4" "length (take 5 bs) = 5 - p" "unat c = base256 0 (take 5 bs) * 256 ^ p"
      using toBase32_step [OF False] .
    have IH: "fromBase32 (toBase32 (drop 5 bs)) = drop 5 bs"
      "length (toBase32 (drop 5 bs)) = (length bs - 5 + 4) div 5 * 8"
      using "1" False by auto
    have "fromBase32 (toBase32 bs) = take 5 bs @ drop 5 bs"
      by (simp only: st(1) fromBase32_append length_base32_emit IH(1)
          base32_group_emit [OF st(4,2,3)])
    moreover have "length (toBase32 bs) = (length bs + 4) div 5 * 8"
      using False st(3) by (cases "5 \<le> length bs") (auto simp: st(1) IH(2) div_if)
    ultimately show ?thesis by simp
  qed
qed

end
