(* ===== verification/Utils_String.thy ===== *)
theory Utils_String
  imports Prelude
begin

text \<open>
  \<^verbatim>\<open>src/src/base/utils/string.cpp\<close>, \<^verbatim>\<open>string.h\<close>, \<^verbatim>\<open>compare.cpp\<close>
  and \<^verbatim>\<open>version.h\<close>: unquoting, command-line splitting, Boolean parsing, joining, the natural
  string order and version numbers. Unicode tables and the locale (case folding,
  \<^verbatim>\<open>localeAwareCompare\<close>) and the number parser \<^verbatim>\<open>toInt\<close> are parameters.
\<close>

section \<open>Quotes, booleans, joining\<close>

abbreviation dquote :: char where
  "dquote \<equiv> CHR 0x22"

text \<open>\<^verbatim>\<open>unquote(str, quotes)\<close>: the first quote character that brackets the text is removed.\<close>

fun unquote_with :: "qstring \<Rightarrow> qstring \<Rightarrow> qstring" where
  "unquote_with [] str = str"
| "unquote_with (quote # quotes) str =
     (if length str < 2 then str
      else if prefix [quote] str \<and> suffix [quote] str then mid 1 (length str - 2) str
      else unquote_with quotes str)"

definition unquote :: "qstring \<Rightarrow> qstring" where
  "unquote str = unquote_with [dquote] str"

definition parseBool :: "qstring \<Rightarrow> bool option" where
  "parseBool s =
     (if equal_ci s ''true'' then Some True
      else if equal_ci s ''false'' then Some False
      else None)"

text \<open>\<^verbatim>\<open>joinIntoString\<close>: the first element, then separator and element in turn.\<close>

definition joinIntoString :: "qstring list \<Rightarrow> qstring \<Rightarrow> qstring" where
  "joinIntoString container separator =
     (case container of
        [] \<Rightarrow> []
      | x # xs \<Rightarrow> foldl (\<lambda>ret y. ret @ (separator @ y)) x xs)"

section \<open>splitCommand\<close>

text \<open>State of the loop: the finished arguments, the argument being read, the quote flag.\<close>

type_synonym split_state = "qstring list \<times> qstring \<times> bool"

fun splitCommand_step :: "split_state \<Rightarrow> char \<Rightarrow> split_state" where
  "splitCommand_step (ret, tmp, inQuotes) c =
     (if c = CHR '' '' then
        (if \<not> inQuotes then
           (if tmp \<noteq> [] then (ret @ [tmp], [], inQuotes) else (ret, tmp, inQuotes))
         else (ret, tmp @ [c], inQuotes))
      else if c = dquote then (ret, tmp @ [c], \<not> inQuotes)
      else (ret, tmp @ [c], inQuotes))"

definition splitCommand :: "qstring \<Rightarrow> qstring list" where
  "splitCommand command =
     (case foldl splitCommand_step ([], [], False) command of
        (ret, tmp, _) \<Rightarrow> if tmp \<noteq> [] then ret @ [tmp] else ret)"

text \<open>The quote flag after reading a text; \<open>None\<close> when a space stands outside quotes.\<close>

fun quote_scan :: "bool \<Rightarrow> qstring \<Rightarrow> bool option" where
  "quote_scan q [] = Some q"
| "quote_scan q (c # cs) =
     (if c = CHR '' '' \<and> \<not> q then None
      else quote_scan (if c = dquote then \<not> q else q) cs)"

section \<open>Natural string order\<close>

datatype case_sensitivity = CaseInsensitive | CaseSensitive

text \<open>\<open>qfold\<close> is \<^verbatim>\<open>QChar::toCaseFolded\<close>, \<open>qcmp\<close> is \<^verbatim>\<open>QString::localeAwareCompare\<close>.\<close>

record collation =
  qfold :: "char \<Rightarrow> char"
  qcmp :: "char \<Rightarrow> char \<Rightarrow> int"

definition numberView :: "qstring \<Rightarrow> nat \<Rightarrow> qstring" where
  "numberView str pos = takeWhile is_digit (drop pos str)"

text \<open>The loop over two digit strings of one length: the first difference decides.\<close>

fun digits_diff :: "qstring \<Rightarrow> qstring \<Rightarrow> int" where
  "digits_diff (a # as) (b # bs) =
     (if a \<noteq> b then int (of_char a) - int (of_char b) else digits_diff as bs)"
| "digits_diff _ _ = 0"

definition compare_char :: "collation \<Rightarrow> case_sensitivity \<Rightarrow> char \<Rightarrow> char" where
  "compare_char coll cs c = (if cs = CaseSensitive then c else qfold coll c)"

text \<open>
  The loop of \<^verbatim>\<open>naturalCompare\<close>. It stops making progress only if folding turned a character that
  is no digit into one; then the C++ loop never returns, which is the value \<open>None\<close>.
\<close>

function naturalCompare_loop ::
  "collation \<Rightarrow> case_sensitivity \<Rightarrow> qstring \<Rightarrow> qstring \<Rightarrow> nat \<Rightarrow> nat \<Rightarrow> int option" where
  "naturalCompare_loop coll cs left right posL posR =
     (if posL \<ge> length left \<or> posR \<ge> length right then Some (int (length left) - int (length right))
      else
        let leftChar = compare_char coll cs (left ! posL);
            rightChar = compare_char coll cs (right ! posR)
        in if leftChar = rightChar \<and> \<not> is_digit leftChar then
             naturalCompare_loop coll cs left right (Suc posL) (Suc posR)
           else if is_digit leftChar \<and> is_digit rightChar then
             let numL = numberView left posL;
                 numR = numberView right posR
             in if length numL \<noteq> length numR then Some (int (length numL) - int (length numR))
                else if digits_diff numL numR \<noteq> 0 then Some (digits_diff numL numR)
                else if numL = [] then None
                else naturalCompare_loop coll cs left right
                       (posL + length numL) (posR + length numR)
           else Some (qcmp coll leftChar rightChar))"
  by pat_completeness auto
termination
proof (relation "measure (\<lambda>(coll, cs, left, right, posL, posR). length left - posL)", goal_cases)
  case 1
  show ?case by simp
next
  case (2 coll cs left right posL posR)
  then show ?case by auto
next
  case (3 coll cs left right posL posR lc rc numL numR)
  have "numL \<noteq> []" using 3(10) by simp
  then have "0 < length numL" by (cases numL) auto
  moreover have "posL < length left" using 3(1) by simp
  ultimately have "length left - (posL + length numL) < length left - posL" by linarith
  then show ?case by simp
qed

declare naturalCompare_loop.simps [simp del]

definition naturalCompare ::
  "collation \<Rightarrow> case_sensitivity \<Rightarrow> qstring \<Rightarrow> qstring \<Rightarrow> int option" where
  "naturalCompare coll cs left right = naturalCompare_loop coll cs left right 0 0"

definition NaturalLessThan ::
  "collation \<Rightarrow> case_sensitivity \<Rightarrow> qstring \<Rightarrow> qstring \<Rightarrow> bool option" where
  "NaturalLessThan coll cs left right = map_option (\<lambda>d. d < 0) (naturalCompare coll cs left right)"

section \<open>Version numbers\<close>

text \<open>
  \<^verbatim>\<open>Version<N, Mandatory>\<close>: the component array is a list of \<open>N\<close> integers. \<open>toInt\<close>
  and \<open>number\<close> are Qt's conversions between integers and decimal text.
\<close>

type_synonym version = "int list"

fun version_isValid_loop :: "version \<Rightarrow> bool \<Rightarrow> bool" where
  "version_isValid_loop [] hasValid = hasValid"
| "version_isValid_loop (i # is) hasValid =
     (if i < 0 then False
      else if i > 0 then version_isValid_loop is True
      else version_isValid_loop is hasValid)"

definition version_isValid :: "version \<Rightarrow> bool" where
  "version_isValid v = version_isValid_loop v False"

fun lastSignificant :: "version \<Rightarrow> nat \<Rightarrow> nat" where
  "lastSignificant v 0 = 0"
| "lastSignificant v (Suc i) = (if v ! Suc i = 0 then lastSignificant v i else Suc i)"

definition version_toString :: "(int \<Rightarrow> qstring) \<Rightarrow> nat \<Rightarrow> nat \<Rightarrow> version \<Rightarrow> qstring" where
  "version_toString number N Mandatory v =
     (let lastSignificantIndex = lastSignificant v (N - 1);
          lastSignificantIndex' =
            (if lastSignificantIndex + 1 < Mandatory then Mandatory - 1 else lastSignificantIndex)
      in foldl (\<lambda>res i. res @ (CHR ''.'' # number (v ! i))) (number (v ! 0))
           [1..<lastSignificantIndex' + 1])"

text \<open>The conversion loop: \<open>None\<close> as soon as one component is not a number.\<close>

fun version_components :: "(qstring \<Rightarrow> int option) \<Rightarrow> qstring list \<Rightarrow> version option" where
  "version_components toInt [] = Some []"
| "version_components toInt (p # ps) =
     (case toInt p of
        None \<Rightarrow> None
      | Some n \<Rightarrow> map_option (\<lambda>ns. n # ns) (version_components toInt ps))"

definition version_fromString ::
  "(qstring \<Rightarrow> int option) \<Rightarrow> nat \<Rightarrow> nat \<Rightarrow> version \<Rightarrow> qstring \<Rightarrow> version" where
  "version_fromString toInt N Mandatory defaultVersion s =
     (let stringParts = split_char (CHR ''.'') s;
          cnt = length stringParts
      in if cnt > N \<or> cnt < Mandatory then defaultVersion
         else (case version_components toInt stringParts of
                 None \<Rightarrow> defaultVersion
               | Some ns \<Rightarrow> ns @ replicate (N - cnt) 0))"

text \<open>\<^verbatim>\<open>operator<\<close> on \<^verbatim>\<open>std::array\<close>: lexicographic.\<close>

fun version_less :: "version \<Rightarrow> version \<Rightarrow> bool" where
  "version_less [] [] = False"
| "version_less [] (y # ys) = True"
| "version_less (x # xs) [] = False"
| "version_less (x # xs) (y # ys) = (if x < y then True else if y < x then False else version_less xs ys)"

definition version_greater :: "version \<Rightarrow> version \<Rightarrow> bool" where
  "version_greater l r \<longleftrightarrow> version_less r l"

definition version_leq :: "version \<Rightarrow> version \<Rightarrow> bool" where
  "version_leq l r \<longleftrightarrow> \<not> version_greater l r"

definition version_geq :: "version \<Rightarrow> version \<Rightarrow> bool" where
  "version_geq l r \<longleftrightarrow> \<not> version_less l r"

section \<open>Lemmas on splitCommand\<close>

lemma splitCommand_scan:
  "quote_scan q a = Some q' \<Longrightarrow> foldl splitCommand_step (ret, tmp, q) a = (ret, tmp @ a, q')"
  by (induction a arbitrary: q tmp) (auto split: if_splits)

lemma splitCommand_join:
  assumes "\<forall>a \<in> set args. a \<noteq> [] \<and> quote_scan False a = Some False" and "args \<noteq> []"
  shows "foldl splitCommand_step (ret, [], False) (join '' '' args)
       = (ret @ butlast args, last args, False)"
  using assms
proof (induction args arbitrary: ret)
  case Nil
  then show ?case by simp
next
  case (Cons a args)
  show ?case
  proof (cases args)
    case Nil
    then show ?thesis using Cons.prems splitCommand_scan [of False a False ret "[]"] by simp
  next
    case (Cons b bs)
    have "foldl splitCommand_step (ret, [], False) a = (ret, a, False)"
      using Cons.prems splitCommand_scan [of False a False ret "[]"] by simp
    moreover have "a \<noteq> []" using Cons.prems by simp
    ultimately show ?thesis
      using Cons Cons.IH [of "ret @ [a]"] Cons.prems by simp
  qed
qed

text \<open>The loop's invariant: what is finished or being read never holds an unquoted space.\<close>

definition split_inv :: "split_state \<Rightarrow> bool" where
  "split_inv s = (case s of (ret, tmp, q) \<Rightarrow>
     (\<forall>a \<in> set ret. a \<noteq> [] \<and> quote_scan False a = Some False) \<and> quote_scan False tmp = Some q)"

lemma quote_scan_append:
  "quote_scan q (a @ b) = (case quote_scan q a of None \<Rightarrow> None | Some q' \<Rightarrow> quote_scan q' b)"
  by (induction a arbitrary: q) auto

lemma split_inv_step: "split_inv s \<Longrightarrow> split_inv (splitCommand_step s c)"
  by (cases s) (auto simp: split_inv_def quote_scan_append)

lemma split_inv_run: "split_inv s \<Longrightarrow> split_inv (foldl splitCommand_step s cs)"
proof (induction cs arbitrary: s)
  case Nil
  then show ?case by simp
next
  case (Cons c cs)
  from Cons.IH [OF split_inv_step [OF Cons.prems]] show ?case by (simp only: foldl.simps)
qed

text \<open>
  Splitting a command line inverts joining: arguments that are not empty, have balanced
  quotes and hold no space outside them come back exactly as they went in.
\<close>

theorem splitCommand_inverts_join:
  assumes "\<forall>a \<in> set args. a \<noteq> [] \<and> quote_scan False a = Some False"
  shows "splitCommand (joinIntoString args '' '') = args"
proof -
  have acc: "foldl (\<lambda>ret y. ret @ ('' '' @ y)) x xs = join '' '' (x # xs)" for x xs
  proof (induction xs arbitrary: x)
    case Nil
    then show ?case by simp
  next
    case (Cons y ys)
    have "foldl (\<lambda>ret z. ret @ ('' '' @ z)) x (y # ys) = join '' '' ((x @ '' '' @ y) # ys)"
      by (simp only: foldl.simps Cons.IH)
    then show ?case by (cases ys) simp_all
  qed
  have eq: "joinIntoString args '' '' = join '' '' args"
    by (cases args) (simp_all only: joinIntoString_def list.case acc join.simps)
  show ?thesis
  proof (cases "args = []")
    case True
    then show ?thesis by (simp add: joinIntoString_def splitCommand_def)
  next
    case False
    then have "last args \<noteq> []" using assms last_in_set by blast
    with False show ?thesis
      by (simp add: eq splitCommand_def splitCommand_join [OF assms])
  qed
qed

theorem splitCommand_inverts_join_witness:
  "splitCommand (joinIntoString [''prog'', [dquote] @ ''a b'' @ [dquote], ''--x''] '' '')
     = [''prog'', [dquote] @ ''a b'' @ [dquote], ''--x'']"
  by (rule splitCommand_inverts_join) simp

section \<open>Lemmas on the natural order\<close>

lemma digits_diff_swap: "digits_diff b a = - digits_diff a b"
  by (induction a b rule: digits_diff.induct) auto

lemma digits_diff_0: "length a = length b \<Longrightarrow> digits_diff a b = 0 \<Longrightarrow> a = b"
proof (induction a b rule: digits_diff.induct)
  case (1 a as b bs)
  then show ?case by (auto split: if_splits)
qed auto

lemma numberView_digit: "pos < length s \<Longrightarrow> is_digit (s ! pos) \<Longrightarrow> numberView s pos \<noteq> []"
  by (simp add: numberView_def takeWhile_eq_Nil_iff hd_drop_conv_nth)

definition fold_keeps_digits :: "collation \<Rightarrow> bool" where
  "fold_keeps_digits coll \<longleftrightarrow> (\<forall>c. is_digit (qfold coll c) \<longleftrightarrow> is_digit c)"

lemma compare_char_digit:
  "fold_keeps_digits coll \<Longrightarrow> is_digit (compare_char coll cs c) \<longleftrightarrow> is_digit c"
  by (simp add: compare_char_def fold_keeps_digits_def)

lemma naturalCompare_loop_returns:
  assumes "fold_keeps_digits coll"
  shows "\<exists>d. naturalCompare_loop coll cs left right posL posR = Some d"
  using assms
proof (induction coll cs left right posL posR rule: naturalCompare_loop.induct)
  case (1 coll cs left right posL posR)
  then show ?case
    by (subst naturalCompare_loop.simps)
       (auto simp: Let_def compare_char_digit numberView_digit)
qed

text \<open>The four exits of one turn of the loop.\<close>

lemma naturalCompare_end:
  "posL \<ge> length left \<or> posR \<ge> length right \<Longrightarrow>
     naturalCompare_loop coll cs left right posL posR = Some (int (length left) - int (length right))"
  by (simp add: naturalCompare_loop.simps)

lemma naturalCompare_same:
  assumes "posL < length left" and "posR < length right"
    and "compare_char coll cs (left ! posL) = lc" and "compare_char coll cs (right ! posR) = rc"
    and "lc = rc" and "\<not> is_digit lc"
  shows "naturalCompare_loop coll cs left right posL posR
       = naturalCompare_loop coll cs left right (Suc posL) (Suc posR)"
  using assms by (subst naturalCompare_loop.simps) (simp add: Let_def)

lemma naturalCompare_digits:
  assumes "posL < length left" and "posR < length right"
    and "compare_char coll cs (left ! posL) = lc" and "compare_char coll cs (right ! posR) = rc"
    and "is_digit lc" and "is_digit rc"
  shows "naturalCompare_loop coll cs left right posL posR =
    (let numL = numberView left posL; numR = numberView right posR
     in if length numL \<noteq> length numR then Some (int (length numL) - int (length numR))
        else if digits_diff numL numR \<noteq> 0 then Some (digits_diff numL numR)
        else if numL = [] then None
        else naturalCompare_loop coll cs left right (posL + length numL) (posR + length numR))"
  using assms by (subst naturalCompare_loop.simps) (simp add: Let_def)

lemma naturalCompare_other:
  assumes "posL < length left" and "posR < length right"
    and "compare_char coll cs (left ! posL) = lc" and "compare_char coll cs (right ! posR) = rc"
    and "lc \<noteq> rc" and "\<not> (is_digit lc \<and> is_digit rc)"
  shows "naturalCompare_loop coll cs left right posL posR = Some (qcmp coll lc rc)"
  using assms by (subst naturalCompare_loop.simps) (auto simp: Let_def)

lemma naturalCompare_loop_swap:
  assumes "\<And>a b. sgn (qcmp coll b a) = - sgn (qcmp coll a b)"
  shows "map_option sgn (naturalCompare_loop coll cs right left posR posL)
       = map_option (\<lambda>d. - sgn d) (naturalCompare_loop coll cs left right posL posR)"
  using assms
proof (induction coll cs left right posL posR rule: naturalCompare_loop.induct)
  case (1 coll cs left right posL posR)
  let ?l = "compare_char coll cs (left ! posL)" and ?r = "compare_char coll cs (right ! posR)"
  let ?nl = "numberView left posL" and ?nr = "numberView right posR"
  consider (ended) "posL \<ge> length left \<or> posR \<ge> length right"
    | (same) "posL < length left" "posR < length right" "?l = ?r" "\<not> is_digit ?l"
    | (num) "posL < length left" "posR < length right" "is_digit ?l" "is_digit ?r"
    | (other) "posL < length left" "posR < length right" "?l \<noteq> ?r" "\<not> (is_digit ?l \<and> is_digit ?r)"
    by (metis leI)
  then show ?case
  proof cases
    case ended
    then have "posR \<ge> length right \<or> posL \<ge> length left" by blast
    with ended show ?thesis
      by (simp only: naturalCompare_end) (simp add: sgn_if)
  next
    case same
    then have "map_option sgn (naturalCompare_loop coll cs right left (Suc posR) (Suc posL))
        = map_option (\<lambda>d. - sgn d) (naturalCompare_loop coll cs left right (Suc posL) (Suc posR))"
      by (intro 1(1) [OF _ refl refl _ 1(3)]) auto
    moreover have nd: "\<not> is_digit ?r" using same(3,4) by simp
    ultimately show ?thesis
      by (simp only: naturalCompare_same [OF same(1,2) refl refl same(3,4)]
          naturalCompare_same [OF same(2,1) refl refl same(3) [symmetric] nd])
  next
    case num
    note unf = naturalCompare_digits [OF num(1,2) refl refl num(3,4)]
      naturalCompare_digits [OF num(2,1) refl refl num(4,3)]
    show ?thesis
    proof (cases "length ?nl = length ?nr \<and> digits_diff ?nl ?nr = 0 \<and> ?nl \<noteq> []")
      case True
      then have "digits_diff ?nr ?nl = 0" "?nr \<noteq> []"
        using digits_diff_swap [of ?nr ?nl] digits_diff_0 [of ?nl ?nr] by auto
      moreover have "map_option sgn (naturalCompare_loop coll cs right left
            (posR + length ?nr) (posL + length ?nl))
          = map_option (\<lambda>d. - sgn d) (naturalCompare_loop coll cs left right
            (posL + length ?nl) (posR + length ?nr))"
        using num True by (intro 1(2) [OF _ refl refl _ _ refl refl _ _ _ 1(3)]) auto
      ultimately show ?thesis using True
        by (simp add: unf Let_def)
    next
      case False
      then consider (len) "length ?nl \<noteq> length ?nr"
        | (dig) "length ?nl = length ?nr" "digits_diff ?nl ?nr \<noteq> 0"
        | (nil) "?nl = []" "?nr = []" by force
      then show ?thesis
      proof cases
        case len
        then have "length ?nr \<noteq> length ?nl" by simp
        with len show ?thesis by (simp only: unf Let_def if_True) (simp add: sgn_if)
      next
        case dig
        then have "digits_diff ?nr ?nl \<noteq> 0" "length ?nr = length ?nl"
          and eq: "sgn (digits_diff ?nr ?nl) = - sgn (digits_diff ?nl ?nr)"
          using digits_diff_swap [of ?nr ?nl] by (simp_all add: sgn_minus)
        with dig show ?thesis by (simp add: unf Let_def)
      next
        case nil
        then show ?thesis by (simp add: unf Let_def)
      qed
    qed
  next
    case other
    then have "?r \<noteq> ?l" "\<not> (is_digit ?r \<and> is_digit ?l)" by auto
    with other show ?thesis
      by (simp add: naturalCompare_other [OF other(1,2) refl refl]
          naturalCompare_other [OF other(2,1) refl refl] 1(3) [of ?l ?r])
  qed
qed

lemma splitCommand_parts:
  "a \<in> set (splitCommand command) \<Longrightarrow> a \<noteq> [] \<and> quote_scan False a \<noteq> None"
  using split_inv_run [of "([], [], False)" command]
  by (auto simp: splitCommand_def split_inv_def split: prod.splits if_splits)

text \<open>
  \<^verbatim>\<open>naturalCompare\<close> returns on every pair of strings and is antisymmetric: exchanging
  the arguments exchanges the sign, and a string compares equal to itself. Of the Unicode tables it is used
  that folding keeps digits apart from other characters, of the locale that its character comparison is antisymmetric.
\<close>

theorem naturalCompare_antisymmetric:
  assumes "fold_keeps_digits coll" and "\<And>a b. sgn (qcmp coll b a) = - sgn (qcmp coll a b)"
  shows "(\<exists>d e. naturalCompare coll cs left right = Some d
              \<and> naturalCompare coll cs right left = Some e \<and> sgn e = - sgn d)
       \<and> naturalCompare coll cs left left = Some 0"
proof -
  have sw: "map_option sgn (naturalCompare coll cs r l) = map_option (\<lambda>d. - sgn d) (naturalCompare coll cs l r)"
    for l r
    unfolding naturalCompare_def by (rule naturalCompare_loop_swap [OF assms(2)])
  have ret: "\<exists>d. naturalCompare coll cs l r = Some d" for l r
    unfolding naturalCompare_def by (rule naturalCompare_loop_returns [OF assms(1)])
  obtain d where d: "naturalCompare coll cs left left = Some d" using ret by blast
  then have "d = 0" using sw [of left left] by (simp add: sgn_if split: if_splits)
  with d ret [of left right] ret [of right left] sw [of right left] show ?thesis by auto
qed

theorem naturalCompare_antisymmetric_witness:
  "(\<exists>d e. naturalCompare \<lparr>qfold = char_to_lower, qcmp = \<lambda>a b. int (of_char a) - int (of_char b)\<rparr>
       CaseInsensitive ''File9'' ''file10'' = Some d
     \<and> naturalCompare \<lparr>qfold = char_to_lower, qcmp = \<lambda>a b. int (of_char a) - int (of_char b)\<rparr>
       CaseInsensitive ''file10'' ''File9'' = Some e \<and> sgn e = - sgn d)
   \<and> naturalCompare \<lparr>qfold = char_to_lower, qcmp = \<lambda>a b. int (of_char a) - int (of_char b)\<rparr>
       CaseInsensitive ''File9'' ''File9'' = Some 0"
proof (rule naturalCompare_antisymmetric)
  have "is_digit (char_to_lower c) = is_digit c" for c
    by (auto simp: char_to_lower_def is_digit_def is_upper_def Let_def)
  then show "fold_keeps_digits \<lparr>qfold = char_to_lower, qcmp = \<lambda>a b. int (of_char a) - int (of_char b)\<rparr>"
    by (simp add: fold_keeps_digits_def)
qed (simp add: sgn_if)

section \<open>Lemmas on versions\<close>

lemma lastSignificant_le: "lastSignificant v n \<le> n"
  by (induction n) auto

lemma lastSignificant_zero: "lastSignificant v n < i \<Longrightarrow> i \<le> n \<Longrightarrow> v ! i = 0"
  by (induction n) (auto simp: le_Suc_eq split: if_splits)

lemma foldl_join:
  "foldl (\<lambda>res i. res @ (c # f i)) r is = join [c] (r # map f is)"
proof (induction "is" arbitrary: r)
  case Nil
  show ?case by simp
next
  case (Cons i "is")
  have "join [c] ((r @ c # f i) # map f is) = r @ c # join [c] (f i # map f is)"
    by (cases "is") simp_all
  then show ?case by (simp add: Cons.IH)
qed

lemma version_toString_join:
  assumes "length v = N" and "1 \<le> N" and "1 \<le> Mandatory" and "Mandatory \<le> N"
  obtains k where "version_toString number N Mandatory v = join ''.'' (map number (take k v))"
    and "Mandatory \<le> k" and "k \<le> N" and "1 \<le> k" and "\<And>i. k \<le> i \<Longrightarrow> i < N \<Longrightarrow> v ! i = 0"
proof -
  let ?L = "lastSignificant v (N - 1)"
  let ?L' = "if ?L + 1 < Mandatory then Mandatory - 1 else ?L"
  have L: "?L' < N" "?L \<le> ?L'" using lastSignificant_le [of v "N - 1"] assms by auto
  have "[0..<?L' + 1] = 0 # [1..<?L' + 1]" by (simp add: upt_conv_Cons)
  moreover have "take (?L' + 1) v = map (nth v) [0..<?L' + 1]"
    using L assms by (intro nth_equalityI) (auto simp del: upt_Suc)
  ultimately have tk: "take (?L' + 1) v = v ! 0 # map (nth v) [1..<?L' + 1]" by simp
  have "version_toString number N Mandatory v
      = join ''.'' (number (v ! 0) # map (\<lambda>i. number (v ! i)) [1..<?L' + 1])"
    unfolding version_toString_def Let_def by (rule foldl_join)
  then have "version_toString number N Mandatory v = join ''.'' (map number (take (?L' + 1) v))"
    by (simp only: tk list.map map_map o_def)
  moreover have "v ! i = 0" if "?L' + 1 \<le> i" "i < N" for i
    using that L by (intro lastSignificant_zero [of v "N - 1"]) auto
  ultimately show ?thesis using that [of "?L' + 1"] L assms by auto
qed

lemma version_components_map:
  "(\<And>n. toInt (number n) = Some n) \<Longrightarrow> version_components toInt (map number ns) = Some ns"
  by (induction ns) auto

text \<open>
  Printing a version and reading it back gives the version, for every number of components and of
  mandatory components, although trailing zero components are not printed. Of the decimal conversion
  it is used that it can be read back and writes no dot.
\<close>

theorem version_string_roundtrip:
  assumes "length v = N" and "1 \<le> Mandatory" and "Mandatory \<le> N"
    and "\<And>n. toInt (number n) = Some n" and "\<And>n. CHR ''.'' \<notin> set (number n)"
  shows "version_fromString toInt N Mandatory defaultVersion (version_toString number N Mandatory v) = v"
proof -
  obtain k where k: "version_toString number N Mandatory v = join ''.'' (map number (take k v))"
    "Mandatory \<le> k" "k \<le> N" "1 \<le> k" "\<And>i. k \<le> i \<Longrightarrow> i < N \<Longrightarrow> v ! i = 0"
    using version_toString_join [OF assms(1) le_trans [OF assms(2,3)] assms(2,3)] by blast
  have "map number (take k v) \<noteq> []" using k assms by auto
  then have "split_char (CHR ''.'') (join ''.'' (map number (take k v))) = map number (take k v)"
    by (rule split_char_join) (use assms(5) in auto)
  moreover have "replicate (N - k) 0 = drop k v"
    using k(3,5) assms(1) by (intro nth_equalityI) auto
  ultimately show ?thesis
    using k(2,3) assms(1)
    by (simp add: version_fromString_def k(1) Let_def min_def version_components_map [OF assms(4)])
qed

theorem version_string_roundtrip_witness:
  "version_fromString
     (\<lambda>s. case s of [] \<Rightarrow> None | c # r \<Rightarrow> Some (if c = CHR ''-'' then - int (length r) else int (length r)))
     4 2 [0, 0, 0, 0]
     (version_toString (\<lambda>n. (if n < 0 then CHR ''-'' else CHR ''+'') # replicate (nat \<bar>n\<bar>) (CHR ''1''))
        4 2 [5, 1, 4, 0]) = [5, 1, 4, 0]"
  by (rule version_string_roundtrip) auto

end
