(* ===== verification/Digest32.thy ===== *)
theory Digest32
  imports Prelude
begin

text \<open>
  \<^verbatim>\<open>src/src/base/digest32.h\<close>: digests as they are read from and written in hexadecimal. A
  valid digest is the list of its bytes; an invalid one is \<open>None\<close>.
\<close>

definition hex_digit :: "nat \<Rightarrow> char" where
  "hex_digit n = (if n < 10 then char_of (48 + n) else char_of (87 + n))"

definition hex_value :: "char \<Rightarrow> nat option" where
  "hex_value c =
     (let n = of_char c in
      if 48 \<le> n \<and> n \<le> 57 then Some (n - 48)
      else if 97 \<le> n \<and> n \<le> 102 then Some (n - 87)
      else if 65 \<le> n \<and> n \<le> 70 then Some (n - 55)
      else None)"

text \<open>\<^verbatim>\<open>QByteArray::toHex\<close>.\<close>

definition to_hex :: "qbytearray \<Rightarrow> qstring" where
  "to_hex bs = concat (map (\<lambda>b. [hex_digit (of_char b div 16), hex_digit (of_char b mod 16)]) bs)"

text \<open>
  \<^verbatim>\<open>QByteArray::fromHex\<close>: reads from the end, skipping what is no digit; an odd digit in front is a
  byte of its own.
\<close>

fun from_hex_rev :: "nat list \<Rightarrow> qbytearray \<Rightarrow> qbytearray" where
  "from_hex_rev [] acc = acc"
| "from_hex_rev [lo] acc = char_of lo # acc"
| "from_hex_rev (lo # hi # ds) acc = from_hex_rev ds (char_of (16 * hi + lo) # acc)"

definition from_hex :: "qstring \<Rightarrow> qbytearray" where
  "from_hex s = from_hex_rev (List.map_filter hex_value (rev s)) []"

definition digest_fromString :: "nat \<Rightarrow> qstring \<Rightarrow> qbytearray option" where
  "digest_fromString len digestString =
     (if length digestString \<noteq> 2 * len then None
      else let raw = from_hex digestString
           in if length raw \<noteq> len then None else Some raw)"

text \<open>\<^verbatim>\<open>toString\<close> of a digest built from its bytes.\<close>

definition digest_toString :: "qbytearray option \<Rightarrow> qstring" where
  "digest_toString d = (case d of None \<Rightarrow> [] | Some raw \<Rightarrow> to_hex raw)"

lemma hex_value_digit: "n < 16 \<Longrightarrow> hex_value (hex_digit n) = Some n"
  by (auto simp: hex_value_def hex_digit_def Let_def)

lemma from_hex_rev_to_hex:
  "from_hex_rev (List.map_filter hex_value (rev (to_hex bs))) acc = bs @ acc"
proof (induction bs arbitrary: acc rule: rev_induct)
  case Nil
  show ?case by (simp add: to_hex_def map_filter_def)
next
  case (snoc b bs)
  have "(of_char b :: nat) div 16 < 16" by (simp add: less_mult_imp_div_less)
  then have v: "hex_value (hex_digit (of_char b div 16)) = Some (of_char b div 16)"
    "hex_value (hex_digit (of_char b mod 16)) = Some (of_char b mod 16)"
    by (simp_all add: hex_value_digit)
  have "rev (to_hex (bs @ [b]))
      = hex_digit (of_char b mod 16) # hex_digit (of_char b div 16) # rev (to_hex bs)"
    by (simp add: to_hex_def)
  then have "List.map_filter hex_value (rev (to_hex (bs @ [b])))
      = of_char b mod 16 # of_char b div 16 # List.map_filter hex_value (rev (to_hex bs))"
    by (simp add: map_filter_simps v)
  then show ?case using snoc [of "b # acc"] by simp
qed

lemma from_hex_to_hex [simp]: "from_hex (to_hex bs) = bs"
  using from_hex_rev_to_hex [of bs "[]"] by (simp add: from_hex_def)

lemma length_to_hex [simp]: "length (to_hex bs) = 2 * length bs"
  by (induction bs) (auto simp: to_hex_def)

lemma digest_of_hex:
  "digest_fromString len (to_hex bs) = (if length bs = len then Some bs else None)"
  by (simp add: digest_fromString_def Let_def)

end
