(* ===== verification/Qt_Containers.thy ===== *)
theory Qt_Containers
  imports Prelude "HOL-Library.List_Lexorder" "HOL-Library.Char_ord"
begin

text \<open>
  The ordered dictionary of the sources, \<^verbatim>\<open>QMap\<close>: an association list kept sorted by key
  (QString's \<^verbatim>\<open>operator<\<close> is the lexicographic order of code units, the order of
  \<^verbatim>\<open>List_Lexorder\<close> on characters). The interface the components rely on is the locale
  \<open>dictionary\<close>; \<^verbatim>\<open>QMap\<close> provides it. A \<^verbatim>\<open>QHash\<close>, whose order is never
  relied on, is a HOL map.
\<close>

section \<open>QMap\<close>

type_synonym ('k, 'v) qmap = "('k \<times> 'v) list"

text \<open>\<^verbatim>\<open>m[k] = v\<close>.\<close>

fun qmap_insert :: "'k::linorder \<Rightarrow> 'v \<Rightarrow> ('k, 'v) qmap \<Rightarrow> ('k, 'v) qmap" where
  "qmap_insert k v [] = [(k, v)]"
| "qmap_insert k v ((a, b) # m) =
     (if k < a then (k, v) # (a, b) # m
      else if k = a then (k, v) # m
      else (a, b) # qmap_insert k v m)"

definition qmap_lookup :: "('k, 'v) qmap \<Rightarrow> 'k \<Rightarrow> 'v option" where
  "qmap_lookup m k = map_of m k"

definition qmap_contains :: "('k, 'v) qmap \<Rightarrow> 'k \<Rightarrow> bool" where
  "qmap_contains m k \<longleftrightarrow> qmap_lookup m k \<noteq> None"

text \<open>\<^verbatim>\<open>m.value(k, d)\<close>.\<close>

definition qmap_value :: "('k, 'v) qmap \<Rightarrow> 'k \<Rightarrow> 'v \<Rightarrow> 'v" where
  "qmap_value m k d = (case qmap_lookup m k of None \<Rightarrow> d | Some v \<Rightarrow> v)"

definition qmap_remove :: "'k \<Rightarrow> ('k, 'v) qmap \<Rightarrow> ('k, 'v) qmap" where
  "qmap_remove k m = filter (\<lambda>(a, b). a \<noteq> k) m"

text \<open>\<^verbatim>\<open>m[k]\<close> on a map that is not const: an absent key is inserted with the default value.\<close>

definition qmap_subscript :: "'k::linorder \<Rightarrow> 'v \<Rightarrow> ('k, 'v) qmap \<Rightarrow> 'v \<times> ('k, 'v) qmap" where
  "qmap_subscript k d m =
     (case qmap_lookup m k of
        Some v \<Rightarrow> (v, m)
      | None \<Rightarrow> (d, qmap_insert k d m))"

definition qmap_inv :: "('k::linorder, 'v) qmap \<Rightarrow> bool" where
  "qmap_inv m \<longleftrightarrow> sorted_wrt (<) (map fst m)"

section \<open>The dictionary interface\<close>

locale dictionary =
  fixes lookup :: "'m \<Rightarrow> 'k \<Rightarrow> 'v option"
    and insert :: "'k \<Rightarrow> 'v \<Rightarrow> 'm \<Rightarrow> 'm"
    and remove :: "'k \<Rightarrow> 'm \<Rightarrow> 'm"
    and empty :: 'm
    and inv :: "'m \<Rightarrow> bool"
  assumes lookup_empty: "lookup empty k = None"
    and lookup_insert: "inv m \<Longrightarrow> lookup (insert k v m) j = (if j = k then Some v else lookup m j)"
    and lookup_remove: "inv m \<Longrightarrow> lookup (remove k m) j = (if j = k then None else lookup m j)"
    and inv_empty: "inv empty"
    and inv_insert: "inv m \<Longrightarrow> inv (insert k v m)"
    and inv_remove: "inv m \<Longrightarrow> inv (remove k m)"
    and ext: "inv m \<Longrightarrow> inv m' \<Longrightarrow> (\<And>k. lookup m k = lookup m' k) \<Longrightarrow> m = m'"
begin

lemma insert_overwrite:
  "inv m \<Longrightarrow> insert k v (insert k w m) = insert k v m"
  by (rule ext) (simp_all add: inv_insert lookup_insert)

lemma insert_commute:
  "inv m \<Longrightarrow> j \<noteq> k \<Longrightarrow> insert j v (insert k w m) = insert k w (insert j v m)"
  by (rule ext) (auto simp add: inv_insert lookup_insert)

lemma insert_same: "inv m \<Longrightarrow> lookup m k = Some v \<Longrightarrow> insert k v m = m"
  by (rule ext) (auto simp add: inv_insert lookup_insert)

lemma remove_insert: "inv m \<Longrightarrow> lookup m k = None \<Longrightarrow> remove k (insert k v m) = m"
  by (rule ext) (auto simp add: inv_insert inv_remove lookup_insert lookup_remove)

lemma remove_absent: "inv m \<Longrightarrow> lookup m k = None \<Longrightarrow> remove k m = m"
  by (rule ext) (auto simp add: inv_remove lookup_remove)

lemma inv_fold_insert: "inv m \<Longrightarrow> inv (fold (\<lambda>(k, v). insert k v) kvs m)"
  by (induction kvs arbitrary: m) (auto simp: inv_insert)

end

section \<open>QMap provides it\<close>

lemma qmap_lookup_simps [simp]:
  "qmap_lookup [] k = None"
  "qmap_lookup ((a, b) # m) k = (if k = a then Some b else qmap_lookup m k)"
  by (simp_all add: qmap_lookup_def)

lemma qmap_inv_Nil [simp]: "qmap_inv []"
  by (simp add: qmap_inv_def)

lemma qmap_inv_Cons: "qmap_inv ((a, b) # m) \<longleftrightarrow> qmap_inv m \<and> (\<forall>k \<in> fst ` set m. a < k)"
  by (auto simp: qmap_inv_def)

lemma qmap_lookup_dom: "qmap_lookup m k = Some v \<Longrightarrow> (k, v) \<in> set m"
  by (simp add: qmap_lookup_def map_of_SomeD)

lemma qmap_lookup_None: "qmap_lookup m k = None \<longleftrightarrow> k \<notin> fst ` set m"
  by (simp add: qmap_lookup_def map_of_eq_None_iff)

lemma qmap_lookup_insert [simp]:
  "qmap_lookup (qmap_insert k v m) j = (if j = k then Some v else qmap_lookup m j)"
  by (induction k v m rule: qmap_insert.induct) auto

lemma set_qmap_insert: "fst ` set (qmap_insert k v m) = insert k (fst ` set m)"
  by (induction k v m rule: qmap_insert.induct) auto

lemma qmap_inv_insert [simp]: "qmap_inv m \<Longrightarrow> qmap_inv (qmap_insert k v m)"
proof (induction k v m rule: qmap_insert.induct)
  case (1 k v)
  show ?case by (simp add: qmap_inv_def)
next
  case (2 k v a b m)
  then show ?case
    by (auto simp: qmap_inv_Cons set_qmap_insert dest: order.strict_trans)
qed

lemma qmap_lookup_remove [simp]:
  "qmap_lookup (qmap_remove k m) j = (if j = k then None else qmap_lookup m j)"
  by (induction m) (auto simp: qmap_remove_def)

lemma qmap_inv_remove [simp]: "qmap_inv m \<Longrightarrow> qmap_inv (qmap_remove k m)"
  by (induction m) (auto simp: qmap_remove_def qmap_inv_Cons)

lemma qmap_ext:
  assumes "qmap_inv m" and "qmap_inv m'" and "\<And>k. qmap_lookup m k = qmap_lookup m' k"
  shows "m = m'"
proof -
  have "sorted_wrt (<) (map fst m)" "sorted_wrt (<) (map fst m')"
    using assms(1,2) by (auto simp: qmap_inv_def)
  then have d: "distinct (map fst m)" "distinct (map fst m')" "sorted (map fst m)" "sorted (map fst m')"
    by (auto simp: strict_sorted_iff)
  have "map_of m = map_of m'" using assms(3) by (auto simp: qmap_lookup_def)
  then have "set m = set m'" using d by (simp add: map_of_inject_set)
  moreover have "inj_on fst (set m \<union> set m')"
    using d \<open>set m = set m'\<close> by (auto simp: distinct_map)
  ultimately show ?thesis using d by (intro map_sorted_distinct_set_unique [of fst]) auto
qed

interpretation qmap: dictionary qmap_lookup qmap_insert qmap_remove "[]" qmap_inv
  by unfold_locales (auto intro: qmap_ext)

lemma qmap_subscript_lookup:
  "qmap_subscript k d m = (v, m') \<Longrightarrow>
     v = qmap_value m k d \<and> qmap_lookup m' j = (if j = k then Some v else qmap_lookup m j)"
  by (auto simp: qmap_subscript_def qmap_value_def split: option.splits)

lemma qmap_subscript_inv: "qmap_inv m \<Longrightarrow> qmap_inv (snd (qmap_subscript k d m))"
  by (auto simp: qmap_subscript_def split: option.splits)

section \<open>Counting entries\<close>

definition qmap_count :: "('v \<Rightarrow> bool) \<Rightarrow> ('k, 'v) qmap \<Rightarrow> nat" where
  "qmap_count P m = length (filter (\<lambda>(k, v). P v) m)"

lemma qmap_count_le: "qmap_count P m \<le> length m"
  by (simp add: qmap_count_def)

lemma length_qmap_insert:
  "qmap_inv m \<Longrightarrow> length (qmap_insert k v m) = (if qmap_lookup m k = None then Suc (length m) else length m)"
proof (induction k v m rule: qmap_insert.induct)
  case (1 k v)
  show ?case by simp
next
  case (2 k v a b m)
  then have "k < a \<Longrightarrow> qmap_lookup m k = None"
    by (auto simp: qmap_inv_Cons qmap_lookup_None)
  with 2 show ?case by (auto simp: qmap_inv_Cons)
qed

lemma qmap_count_insert:
  "qmap_inv m \<Longrightarrow> qmap_lookup m k = None \<Longrightarrow>
     qmap_count P (qmap_insert k v m) = (if P v then Suc (qmap_count P m) else qmap_count P m)"
proof (induction k v m rule: qmap_insert.induct)
  case (1 k v)
  show ?case by (simp add: qmap_count_def)
next
  case (2 k v a b m)
  then show ?case by (auto simp: qmap_count_def qmap_inv_Cons split: if_splits)
qed

lemma qmap_remove_Cons:
  "qmap_remove k ((a, b) # m) = (if a = k then qmap_remove k m else (a, b) # qmap_remove k m)"
  by (simp add: qmap_remove_def)

lemma qmap_remove_id: "qmap_lookup m k = None \<Longrightarrow> qmap_remove k m = m"
  by (induction m) (auto simp: qmap_remove_def split: if_splits)

lemma qmap_head_absent: "qmap_inv ((k, b) # m) \<Longrightarrow> qmap_lookup m k = None"
  by (auto simp: qmap_inv_Cons qmap_lookup_None)

lemma length_qmap_remove:
  "qmap_inv m \<Longrightarrow> qmap_lookup m k = Some v \<Longrightarrow> Suc (length (qmap_remove k m)) = length m"
proof (induction m)
  case Nil
  then show ?case by simp
next
  case (Cons x m)
  obtain a b where x: "x = (a, b)" by (cases x)
  show ?case
  proof (cases "a = k")
    case True
    then show ?thesis using Cons.prems x qmap_head_absent [of k b m]
      by (simp add: qmap_remove_Cons qmap_remove_id)
  next
    case False
    then show ?thesis using Cons x by (simp add: qmap_remove_Cons qmap_inv_Cons)
  qed
qed

lemma qmap_count_remove:
  "qmap_inv m \<Longrightarrow> qmap_lookup m k = Some v \<Longrightarrow>
     qmap_count P (qmap_remove k m) + (if P v then 1 else 0) = qmap_count P m"
proof (induction m)
  case Nil
  then show ?case by simp
next
  case (Cons x m)
  obtain a b where x: "x = (a, b)" by (cases x)
  show ?case
  proof (cases "a = k")
    case True
    then show ?thesis using Cons.prems x qmap_head_absent [of k b m]
      by (auto simp add: qmap_remove_Cons qmap_remove_id qmap_count_def)
  next
    case False
    then show ?thesis using Cons x by (auto simp: qmap_remove_Cons qmap_inv_Cons qmap_count_def)
  qed
qed

lemma set_qmap_remove: "set (qmap_remove k m) = {x \<in> set m. fst x \<noteq> k}"
  by (auto simp: qmap_remove_def)

lemma qmap_lookup_set: "qmap_inv m \<Longrightarrow> qmap_lookup m k = Some v \<longleftrightarrow> (k, v) \<in> set m"
proof -
  assume "qmap_inv m"
  then have "distinct (map fst m)" by (simp add: qmap_inv_def strict_sorted_iff)
  then show ?thesis by (simp add: qmap_lookup_def)
qed

lemma set_qmap_insert_sub: "set (qmap_insert k v m) \<subseteq> insert (k, v) (set m)"
  by (induction k v m rule: qmap_insert.induct) auto

text \<open>A key beyond all others goes to the end.\<close>

lemma qmap_insert_last:
  "\<forall>j \<in> fst ` set m. j < k \<Longrightarrow> qmap_insert k v m = m @ [(k, v)]"
  by (induction m) auto

lemma inv_filter: "qmap_inv m \<Longrightarrow> qmap_inv (filter P m)"
  by (induction m) (auto simp: qmap_inv_Cons split: prod.splits)

end
