(* ===== verification/Http_Request.thy ===== *)
theory Http_Request
  imports Prelude Qt_Containers Utils_ByteArray Utils_String
begin

text \<open>
  The HTTP request parser of the embedded server: \<^verbatim>\<open>src/src/base/http/requestparser.cpp\<close> on the
  types of \<^verbatim>\<open>types.h\<close>. The receive buffer is cut into frames here, so the central fact is
  that the verdict on a buffer is settled by its first frame: no later byte changes it, and no
  proper prefix of a frame is taken for a frame. This is the contract \<open>frame_parser\<close> the
  connection is proved against.
\<close>

section \<open>Data\<close>

abbreviation CR :: char where "CR \<equiv> CHR 0x0D"
abbreviation LF :: char where "LF \<equiv> CHR 0x0A"

definition CRLF :: qbytearray where
  "CRLF = [CR, LF]"

definition EOH :: qbytearray where
  "EOH = [CR, LF, CR, LF]"

text \<open>
  The Qt functions the parser calls and that are not elementary: UTF-8 and percent decoding,
  \<^verbatim>\<open>QUrlQuery(s).queryItems(FullyDecoded)\<close> and \<^verbatim>\<open>QString::toInt\<close>.
\<close>

record qt_codec =
  fromUtf8 :: "qbytearray \<Rightarrow> qstring"
  fromPercentEncoding :: "qbytearray \<Rightarrow> qbytearray"
  queryItems :: "qstring \<Rightarrow> (qstring \<times> qstring) list"
  toInt :: "qstring \<Rightarrow> int option"

record uploaded_file =
  file_name :: qstring
  file_type :: qstring
  file_data :: qbytearray

record request =
  req_version :: qstring
  req_method :: qstring
  req_path :: qstring
  req_headers :: "(qstring, qstring) qmap"
  req_query :: "qstring \<rightharpoonup> qbytearray"
  req_posts :: "qstring \<rightharpoonup> qstring"
  req_files :: "uploaded_file list"

definition empty_request :: request where
  "empty_request =
     \<lparr>req_version = [], req_method = [], req_path = [], req_headers = [],
      req_query = Map.empty, req_posts = Map.empty, req_files = []\<rparr>"

datatype parse_status = StatusOK | Incomplete | BadMethod | BadRequest

record parse_result =
  res_status :: parse_status
  res_request :: request
  res_frameSize :: nat

definition MAX_CONTENT_SIZE :: int where
  "MAX_CONTENT_SIZE = 64 * 1024 * 1024"

definition failed :: "parse_status \<Rightarrow> parse_result" where
  "failed st = \<lparr>res_status = st, res_request = empty_request, res_frameSize = 0\<rparr>"

section \<open>Lines and headers\<close>

definition viewWithoutEndingWith :: "qbytearray \<Rightarrow> qbytearray \<Rightarrow> qbytearray" where
  "viewWithoutEndingWith input str =
     (if suffix str input then take (length input - length str) input else input)"

definition parseHeaderLine ::
  "qstring \<Rightarrow> (qstring, qstring) qmap \<Rightarrow> (qstring, qstring) qmap option" where
  "parseHeaderLine line out =
     (case index_of (CHR '':'') line of
        None \<Rightarrow> None
      | Some i \<Rightarrow>
          (if i = 0 then None
           else
             let name = to_lower (trimmed (take i line));
                 v = trimmed (drop (i + 1) line)
             in Some (qmap_insert name v out)))"

fun parseHeaderLines ::
  "qstring list \<Rightarrow> (qstring, qstring) qmap \<Rightarrow> (qstring, qstring) qmap option" where
  "parseHeaderLines [] out = Some out"
| "parseHeaderLines (line # lines) out =
     (case parseHeaderLine line out of
        None \<Rightarrow> None
      | Some out' \<Rightarrow> parseHeaderLines lines out')"

text \<open>Continuation lines are appended to the line before them.\<close>

definition unfold_line :: "qstring list \<Rightarrow> qstring \<Rightarrow> qstring list" where
  "unfold_line requestLines line =
     (if qchar_is_space (hd line) \<and> requestLines \<noteq> []
      then butlast requestLines @ [last requestLines @ line]
      else requestLines @ [line])"

definition header_lines :: "qstring \<Rightarrow> qstring list" where
  "header_lines data = foldl unfold_line [] (skip_empty (split_str CRLF data))"

section \<open>The request line\<close>

definition is_AZ :: "char \<Rightarrow> bool" where
  "is_AZ c \<longleftrightarrow> 65 \<le> (of_char c :: nat) \<and> (of_char c :: nat) \<le> 90"

text \<open>
  The expression \<^verbatim>\<open>^([A-Z]+)\s+(\S+)\s+HTTP\/(\d\.\d)$\<close>. Consecutive groups match
  disjoint character classes, so each must take a longest run; \<^verbatim>\<open>$\<close> also matches before a
  line feed that ends the text. The result is the three captured groups.
\<close>

definition match_request_line :: "qstring \<Rightarrow> (qstring \<times> qstring \<times> qstring) option" where
  "match_request_line line =
     (let m = takeWhile is_AZ line;
          r1 = dropWhile is_AZ line;
          s1 = takeWhile c_isspace r1;
          r2 = dropWhile c_isspace r1;
          t = takeWhile (\<lambda>c. \<not> c_isspace c) r2;
          r3 = dropWhile (\<lambda>c. \<not> c_isspace c) r2;
          s2 = takeWhile c_isspace r3;
          r4 = dropWhile c_isspace r3;
          v = drop 5 r4
      in if m \<noteq> [] \<and> s1 \<noteq> [] \<and> t \<noteq> [] \<and> s2 \<noteq> [] \<and> prefix ''HTTP/'' r4
            \<and> (length v = 3 \<or> length v = 4 \<and> v ! 3 = LF)
            \<and> is_digit (v ! 0) \<and> v ! 1 = CHR ''.'' \<and> is_digit (v ! 2)
         then Some (m, t, take 3 v)
         else None)"

definition parse_query_param ::
  "qt_codec \<Rightarrow> qbytearray \<Rightarrow> (qstring \<rightharpoonup> qbytearray) \<Rightarrow> (qstring \<rightharpoonup> qbytearray)" where
  "parse_query_param q param query =
     (case index_of (CHR ''='') param of
        None \<Rightarrow> query
      | Some eqCharPos \<Rightarrow>
          (if eqCharPos = 0 then query
           else
             let nameComponent = take eqCharPos param;
                 valueComponent = drop (eqCharPos + 1) param;
                 paramName = fromUtf8 q
                   (replace_char (CHR ''+'') (CHR '' '') (fromPercentEncoding q nameComponent));
                 paramValue =
                   replace_char (CHR ''+'') (CHR '' '') (fromPercentEncoding q valueComponent)
             in query(paramName \<mapsto> paramValue)))"

definition parseRequestLine :: "qt_codec \<Rightarrow> request \<Rightarrow> qstring \<Rightarrow> request option" where
  "parseRequestLine q req line =
     (case match_request_line line of
        None \<Rightarrow> None
      | Some (captured1, url, captured3) \<Rightarrow>
          let sepPos = index_of (CHR ''?'') url;
              pathComponent = (case sepPos of None \<Rightarrow> url | Some p \<Rightarrow> take p url);
              req1 = req\<lparr>req_method := captured1,
                         req_path := fromUtf8 q (fromPercentEncoding q pathComponent)\<rparr>;
              req2 = (case sepPos of
                        None \<Rightarrow> req1
                      | Some p \<Rightarrow>
                          req1\<lparr>req_query :=
                            fold (parse_query_param q)
                              (splitToViews (drop (p + 1) url) ''&'' KeepEmptyParts)
                              (req_query req1)\<rparr>)
          in Some (req2\<lparr>req_version := captured3\<rparr>))"

definition parseStartLines :: "qt_codec \<Rightarrow> request \<Rightarrow> qstring \<Rightarrow> request option" where
  "parseStartLines q req data =
     (case header_lines data of
        [] \<Rightarrow> None
      | requestLine # headers \<Rightarrow>
          (case parseRequestLine q req requestLine of
             None \<Rightarrow> None
           | Some req1 \<Rightarrow>
               (case parseHeaderLines headers (req_headers req1) of
                  None \<Rightarrow> None
                | Some hs \<Rightarrow> Some (req1\<lparr>req_headers := hs\<rparr>))))"

section \<open>The message body\<close>

text \<open>\<^verbatim>\<open>name="value"\<close> pairs of a Content-Disposition line.\<close>

definition parse_directive ::
  "qstring \<Rightarrow> (qstring, qstring) qmap \<Rightarrow> (qstring, qstring) qmap" where
  "parse_directive directive headersMap =
     (case index_of (CHR ''='') directive of
        None \<Rightarrow> headersMap
      | Some idx \<Rightarrow>
          qmap_insert (to_lower (trimmed (take idx directive)))
            (unquote (trimmed (drop (idx + 1) directive))) headersMap)"

fun parse_part_headers ::
  "qstring list \<Rightarrow> (qstring, qstring) qmap \<Rightarrow> (qstring, qstring) qmap option" where
  "parse_part_headers [] headersMap = Some headersMap"
| "parse_part_headers (line # lines) headersMap =
     (if starts_with_ci (trimmed line) ''content-disposition''
      then parse_part_headers lines
             (fold parse_directive (skip_empty (split_char (CHR '';'') line)) headersMap)
      else (case parseHeaderLine line headersMap of
              None \<Rightarrow> None
            | Some headersMap' \<Rightarrow> parse_part_headers lines headersMap'))"

definition parseFormData :: "qt_codec \<Rightarrow> request \<Rightarrow> qbytearray \<Rightarrow> request option" where
  "parseFormData q req data =
     (case find_sub EOH data of
        None \<Rightarrow> None
      | Some eohPos \<Rightarrow>
          let headers = take eohPos data;
              payload = viewWithoutEndingWith (drop (eohPos + length EOH) data) CRLF
          in (case parse_part_headers (skip_empty (split_str CRLF headers)) [] of
                None \<Rightarrow> None
              | Some headersMap \<Rightarrow>
                  (case qmap_lookup headersMap ''filename'' of
                     Some fname \<Rightarrow>
                       Some (req\<lparr>req_files := req_files req @
                         [\<lparr>file_name = fname,
                           file_type = qmap_value headersMap ''content-type'' [],
                           file_data = payload\<rparr>]\<rparr>)
                   | None \<Rightarrow>
                       (case qmap_lookup headersMap ''name'' of
                          Some name \<Rightarrow>
                            Some (req\<lparr>req_posts := (req_posts req)(name \<mapsto> fromUtf8 q payload)\<rparr>)
                        | None \<Rightarrow> None))))"

fun parse_parts :: "qt_codec \<Rightarrow> request \<Rightarrow> qbytearray list \<Rightarrow> request option" where
  "parse_parts q req [] = Some req"
| "parse_parts q req (part # parts) =
     (case parseFormData q req part of
        None \<Rightarrow> None
      | Some req' \<Rightarrow> parse_parts q req' parts)"

definition parse_multipart :: "qt_codec \<Rightarrow> request \<Rightarrow> qstring \<Rightarrow> qbytearray \<Rightarrow> request option" where
  "parse_multipart q req contentType data =
     (case find_sub ''boundary='' contentType of
        None \<Rightarrow> None
      | Some idx \<Rightarrow>
          let delimiter = unquote (drop (idx + length ''boundary='') contentType)
          in if delimiter = [] then None
             else
               let dashDelimiter = ''--'' @ delimiter @ CRLF;
                   multipart = splitToViews data dashDelimiter SkipEmptyParts
               in if multipart = [] then None
                  else
                    let endDelimiter = ''--'' @ delimiter @ ''--'' @ CRLF
                    in parse_parts q req
                         (butlast multipart @ [viewWithoutEndingWith (last multipart) endDelimiter]))"

definition parsePostMessage :: "qt_codec \<Rightarrow> request \<Rightarrow> qbytearray \<Rightarrow> request option" where
  "parsePostMessage q req0 data =
     (case qmap_subscript ''content-type'' [] (req_headers req0) of
        (contentType, headers) \<Rightarrow>
          let req = req0\<lparr>req_headers := headers\<rparr>;
              contentTypeLower = to_lower contentType
          in if prefix ''application/x-www-form-urlencoded'' contentTypeLower then
               let processedData = replace_char (CHR ''+'') (CHR '' '') data
               in Some (req\<lparr>req_posts :=
                    fold (\<lambda>(k, v) m. m(k \<mapsto> v)) (queryItems q (fromUtf8 q processedData))
                      (req_posts req)\<rparr>)
             else if prefix ''multipart/form-data'' contentTypeLower then
               parse_multipart q req contentType data
             else None)"

section \<open>doParse\<close>

definition parseInt :: "qt_codec \<Rightarrow> qstring \<Rightarrow> int option" where
  "parseInt q s = toInt q s"

definition parseContentLength :: "qt_codec \<Rightarrow> request \<Rightarrow> int" where
  "parseContentLength q req =
     (case qmap_lookup (req_headers req) ''content-length'' of
        None \<Rightarrow> 0
      | Some rawValue \<Rightarrow> (case parseInt q rawValue of None \<Rightarrow> -1 | Some n \<Rightarrow> n))"

definition doParse :: "qt_codec \<Rightarrow> qbytearray \<Rightarrow> parse_result" where
  "doParse q data =
     (case find_sub EOH data of
        None \<Rightarrow> failed Incomplete
      | Some headerEnd \<Rightarrow>
          (case parseStartLines q empty_request (take headerEnd data) of
             None \<Rightarrow> failed BadRequest
           | Some req \<Rightarrow>
               let headerLength = headerEnd + length EOH
               in if req_method req = ''GET'' \<or> req_method req = ''HEAD'' then
                    \<lparr>res_status = StatusOK, res_request = req, res_frameSize = headerLength\<rparr>
                  else if req_method req = ''POST'' then
                    let contentLength = parseContentLength q req
                    in if contentLength < 0 then failed BadRequest
                       else if contentLength > MAX_CONTENT_SIZE then failed BadRequest
                       else if contentLength > 0 then
                         let httpBodyView = mid headerLength (nat contentLength) data
                         in if int (length httpBodyView) < contentLength then failed Incomplete
                            else (case parsePostMessage q req httpBodyView of
                                    None \<Rightarrow> failed BadRequest
                                  | Some req' \<Rightarrow>
                                      \<lparr>res_status = StatusOK, res_request = req',
                                       res_frameSize = headerLength + nat contentLength\<rparr>)
                       else \<lparr>res_status = StatusOK, res_request = req,
                             res_frameSize = headerLength + nat contentLength\<rparr>
                  else \<lparr>res_status = BadMethod, res_request = req, res_frameSize = 0\<rparr>))"

definition parse :: "qt_codec \<Rightarrow> qbytearray \<Rightarrow> parse_result" where
  "parse q data = doParse q data"

section \<open>Framing\<close>

text \<open>
  What a connection needs of a parser: a verdict other than \<open>pending\<close> is final, and an accepted
  frame is exactly its own bytes.
\<close>

locale frame_parser =
  fixes frame :: "'a list \<Rightarrow> 'r"
    and pending :: "'r \<Rightarrow> bool"
    and accepted :: "'r \<Rightarrow> bool"
    and size_of :: "'r \<Rightarrow> nat"
  assumes final: "\<not> pending (frame d) \<Longrightarrow> frame (d @ e) = frame d"
    and accepted_final: "accepted r \<Longrightarrow> \<not> pending r"
    and size_pos: "accepted (frame d) \<Longrightarrow> 0 < size_of (frame d)"
    and size_le: "accepted (frame d) \<Longrightarrow> size_of (frame d) \<le> length d"
    and exact: "accepted (frame d) \<Longrightarrow> frame (take (size_of (frame d)) d) = frame d"
    and minimal: "accepted (frame d) \<Longrightarrow> n < size_of (frame d) \<Longrightarrow> pending (frame (take n d))"
begin

lemma frame_take:
  assumes "accepted (frame d)" and "size_of (frame d) \<le> n"
  shows "frame (take n d) = frame d"
proof -
  let ?k = "size_of (frame d)"
  have "take n d = take ?k d @ take (n - ?k) (drop ?k d)"
    using assms(2) by (metis le_add_diff_inverse take_add)
  moreover have "\<not> pending (frame (take ?k d))"
    by (simp add: exact [OF assms(1)] accepted_final [OF assms(1)])
  ultimately show ?thesis using final [of "take ?k d"] exact [OF assms(1)] by simp
qed

text \<open>Frames sent one after the other are taken apart at the right place.\<close>

lemma frame_append:
  assumes "accepted (frame d)" and "size_of (frame d) = length d"
  shows "frame (d @ e) = frame d"
  by (rule final) (rule accepted_final [OF assms(1)])

lemma prefix_free:
  assumes "accepted (frame d)" and "size_of (frame d) = length d"
    and "accepted (frame e)" and "size_of (frame e) = length e" and "prefix d e"
  shows "d = e"
proof -
  obtain z where z: "e = d @ z" using assms(5) by (auto simp: prefix_def)
  then have "frame e = frame d" using frame_append [OF assms(1,2)] by simp
  with assms z show ?thesis by simp
qed

end

lemma EOH_facts [simp]: "EOH \<noteq> []" "length EOH = 4"
  by (simp_all add: EOH_def)

lemma failed_simps [simp]:
  "res_status (failed st) = st" "res_frameSize (failed st) = 0" "res_request (failed st) = empty_request"
  by (simp_all add: failed_def)

lemma failed_inject [simp]: "failed a = failed b \<longleftrightarrow> a = b"
  by (auto simp: failed_def)

text \<open>The verdict as a function of the header text and of what follows it.\<close>

definition doParse_at :: "qt_codec \<Rightarrow> nat \<Rightarrow> qbytearray \<Rightarrow> qbytearray \<Rightarrow> parse_result" where
  "doParse_at q h header data = 
     (case parseStartLines q empty_request header of
        None \<Rightarrow> failed BadRequest
      | Some req \<Rightarrow>
          let n = parseContentLength q req; body = mid (h + 4) (nat n) data
          in if req_method req = ''GET'' \<or> req_method req = ''HEAD'' then
               \<lparr>res_status = StatusOK, res_request = req, res_frameSize = h + 4\<rparr>
             else if req_method req \<noteq> ''POST'' then
               \<lparr>res_status = BadMethod, res_request = req, res_frameSize = 0\<rparr>
             else if n < 0 \<or> n > MAX_CONTENT_SIZE then failed BadRequest
             else if n = 0 then
               \<lparr>res_status = StatusOK, res_request = req, res_frameSize = h + 4\<rparr>
             else if length body < nat n then failed Incomplete
             else (case parsePostMessage q req body of
                     None \<Rightarrow> failed BadRequest
                   | Some req' \<Rightarrow>
                       \<lparr>res_status = StatusOK, res_request = req', res_frameSize = h + 4 + nat n\<rparr>))"

lemma doParse_eq:
  "doParse q data = (case find_sub EOH data of
     None \<Rightarrow> failed Incomplete | Some h \<Rightarrow> doParse_at q h (take h data) data)"
proof (cases "find_sub EOH data")
  case None
  then show ?thesis by (simp add: doParse_def)
next
  case (Some h)
  have *: "int (length b) < n \<longleftrightarrow> length b < nat n" for b :: qbytearray and n by linarith
  show ?thesis
    unfolding doParse_def doParse_at_def Some Let_def option.case
    by (rule option.case_cong [OF refl refl]) (auto simp: * split: option.split)
qed

lemma doParse_at_append:
  assumes "res_status (doParse_at q h header data) \<noteq> Incomplete"
  shows "doParse_at q h header (data @ rest) = doParse_at q h header data"
proof (cases "parseStartLines q empty_request header")
  case None
  then show ?thesis by (simp add: doParse_at_def)
next
  case (Some req)
  let ?n = "nat (parseContentLength q req)"
  show ?thesis
  proof (cases "length (mid (h + 4) ?n data) < ?n")
    case True
    with assms Some show ?thesis by (auto simp: doParse_at_def Let_def split: if_splits)
  next
    case False
    then have "mid (h + 4) ?n (data @ rest) = mid (h + 4) ?n data" by (intro mid_append) simp
    with Some show ?thesis by (simp add: doParse_at_def Let_def)
  qed
qed

lemma doParse_final:
  assumes "res_status (doParse q data) \<noteq> Incomplete"
  shows "doParse q (data @ rest) = doParse q data"
proof (cases "find_sub EOH data")
  case None
  with assms show ?thesis by (simp add: doParse_eq)
next
  case (Some h)
  then have "h \<le> length data" using find_sub_bound by fastforce
  with Some assms show ?thesis
    by (simp add: doParse_eq find_sub_append [OF Some] doParse_at_append)
qed

lemma doParse_at_OK:
  assumes "res_status (doParse_at q h header data) = StatusOK"
  shows "h + 4 \<le> res_frameSize (doParse_at q h header data)"
    and "h + 4 \<le> length data \<Longrightarrow> res_frameSize (doParse_at q h header data) \<le> length data"
    and "h + 4 \<le> m \<Longrightarrow> doParse_at q h header (take m data) =
           (if m < res_frameSize (doParse_at q h header data) then failed Incomplete
            else doParse_at q h header data)"
proof -
  obtain req where req: "parseStartLines q empty_request header = Some req"
    using assms by (auto simp: doParse_at_def split: option.splits)
  let ?n = "nat (parseContentLength q req)"
  show "h + 4 \<le> res_frameSize (doParse_at q h header data)"
    using assms req by (auto simp: doParse_at_def Let_def split: if_splits option.splits)
  show "res_frameSize (doParse_at q h header data) \<le> length data" if "h + 4 \<le> length data"
    using assms req that
    by (auto simp: doParse_at_def Let_def mid_def split: if_splits option.splits)
  show "doParse_at q h header (take m data) =
           (if m < res_frameSize (doParse_at q h header data) then failed Incomplete
            else doParse_at q h header data)" if m: "h + 4 \<le> m"
  proof (cases "?n = 0 \<or> req_method req \<noteq> ''POST''")
    case True
    then have "doParse_at q h header (take m data) = doParse_at q h header data"
      and "res_frameSize (doParse_at q h header data) = h + 4"
      using assms req by (auto simp: doParse_at_def Let_def split: if_splits)
    with m show ?thesis by simp
  next
    case False
    then have fs: "res_frameSize (doParse_at q h header data) = h + 4 + ?n"
      using assms req by (auto simp: doParse_at_def Let_def split: if_splits option.splits)
    show ?thesis
    proof (cases "m < h + 4 + ?n")
      case True
      then have "length (mid (h + 4) ?n (take m data)) < ?n" using m by (auto simp: mid_def)
      with True False assms req fs show ?thesis
        by (auto simp: doParse_at_def Let_def split: if_splits option.splits)
    next
      case ge: False
      then have "mid (h + 4) ?n (take m data) = mid (h + 4) ?n data" by (intro mid_take) simp
      with ge fs req show ?thesis by (simp add: doParse_at_def Let_def)
    qed
  qed
qed

lemma doParse_OK:
  assumes "res_status (doParse q data) = StatusOK"
  shows "0 < res_frameSize (doParse q data)"
    and "res_frameSize (doParse q data) \<le> length data"
    and "doParse q (take m data) =
           (if m < res_frameSize (doParse q data) then failed Incomplete else doParse q data)"
proof -
  obtain h where h: "find_sub EOH data = Some h"
    using assms by (auto simp: doParse_eq split: option.splits)
  have len: "h + 4 \<le> length data" using find_sub_bound [OF h] by simp
  have ok: "res_status (doParse_at q h (take h data) data) = StatusOK"
    using assms h by (simp add: doParse_eq)
  note at = doParse_at_OK [OF ok]
  show "0 < res_frameSize (doParse q data)" "res_frameSize (doParse q data) \<le> length data"
    using at(1) at(2) [OF len] h by (auto simp: doParse_eq)
  show "doParse q (take m data) =
           (if m < res_frameSize (doParse q data) then failed Incomplete else doParse q data)"
  proof (cases "m < h + 4")
    case True
    then show ?thesis
      using at(1) h by (simp add: doParse_eq find_sub_take_iff [OF h])
  next
    case False
    then have "take h (take m data) = take h data" by (simp add: min_def)
    with False show ?thesis
      using at(3) [of m] h by (simp add: doParse_eq find_sub_take_iff [OF h])
  qed
qed

interpretation http: frame_parser "parse q" "\<lambda>r. res_status r = Incomplete"
    "\<lambda>r. res_status r = StatusOK" res_frameSize for q
  by unfold_locales (simp_all add: parse_def doParse_final doParse_OK)

text \<open>
  C1. Framing of the request stream. When a buffer is parsed successfully, the frame is a
  non-empty part of the buffer, every shorter prefix of it is reported incomplete, every
  longer prefix and every extension of the buffer gives the very same request.
\<close>

theorem parse_framing:
  assumes "res_status (parse q data) = StatusOK"
  shows "0 < res_frameSize (parse q data) \<and> res_frameSize (parse q data) \<le> length data
    \<and> (\<forall>m. parse q (take m data) =
           (if m < res_frameSize (parse q data) then failed Incomplete else parse q data))
    \<and> (\<forall>rest. parse q (data @ rest) = parse q data)"
  using assms by (simp add: parse_def doParse_OK doParse_final)

definition ascii_codec :: qt_codec where
  "ascii_codec = \<lparr>fromUtf8 = (\<lambda>s. s), fromPercentEncoding = (\<lambda>s. s),
     queryItems = (\<lambda>s. [(s, [])]),
     toInt = (\<lambda>s. if s \<noteq> [] \<and> list_all is_digit s
                  then Some (foldl (\<lambda>a c. 10 * a + (int (of_char c) - 48)) 0 s) else None)\<rparr>"

definition sample_post :: qbytearray where
  "sample_post = ''POST /l?a=1 HTTP/1.1'' @ CRLF @ ''Content-Length: 3'' @ CRLF
     @ ''Content-Type: application/x-www-form-urlencoded'' @ EOH @ ''x=1''"

theorem parse_framing_witness:
  "0 < res_frameSize (parse ascii_codec sample_post)
    \<and> res_frameSize (parse ascii_codec sample_post) \<le> length sample_post
    \<and> (\<forall>m. parse ascii_codec (take m sample_post) =
           (if m < res_frameSize (parse ascii_codec sample_post)
            then failed Incomplete else parse ascii_codec sample_post))
    \<and> (\<forall>rest. parse ascii_codec (sample_post @ rest) = parse ascii_codec sample_post)"
  by (rule parse_framing) code_simp

section \<open>Header names\<close>

definition header_name_ok :: "qstring \<Rightarrow> bool" where
  "header_name_ok n \<longleftrightarrow> n \<noteq> [] \<and> to_lower n = n \<and> CHR '':'' \<notin> set n"

definition headers_ok :: "(qstring, qstring) qmap \<Rightarrow> bool" where
  "headers_ok m \<longleftrightarrow> qmap_inv m \<and> (\<forall>n \<in> fst ` set m. header_name_ok n)"

lemma colon_to_lower: "CHR '':'' \<in> set (to_lower s) \<longleftrightarrow> CHR '':'' \<in> set s"
proof -
  have "char_to_lower d = CHR '':'' \<longleftrightarrow> d = CHR '':''" for d
    by (rule char_to_lower_ascii) simp
  then show ?thesis by (simp add: to_lower_def image_iff eq_commute [of "CHR '':''"])
qed

lemma headers_ok_insert: "headers_ok m \<Longrightarrow> header_name_ok n \<Longrightarrow> headers_ok (qmap_insert n v m)"
  by (auto simp: headers_ok_def set_qmap_insert)

lemma parseHeaderLine_ok:
  assumes "headers_ok m" and "\<not> qchar_is_space (hd line)" and "parseHeaderLine line m = Some m'"
  shows "headers_ok m'"
proof -
  obtain i where i: "index_of (CHR '':'') line = Some i" "i \<noteq> 0"
      and m': "m' = qmap_insert (to_lower (trimmed (take i line))) (trimmed (drop (i + 1) line)) m"
    using assms(3) by (auto simp: parseHeaderLine_def Let_def split: option.splits if_splits)
  have nc: "CHR '':'' \<notin> set (take i line)" and len: "i < length line"
    using index_of_Some [OF i(1)] by auto
  have "hd (take i line) = hd line" "take i line \<noteq> []" using i(2) len by (cases line; cases i; simp)+
  then have "trimmed (take i line) \<noteq> []" using assms(2) by (intro trimmed_not_Nil) auto
  moreover have "CHR '':'' \<notin> set (trimmed (take i line))" using nc set_trimmed by blast
  ultimately have "header_name_ok (to_lower (trimmed (take i line)))"
    by (simp add: header_name_ok_def colon_to_lower) (simp add: to_lower_def)
  then show ?thesis using assms(1) m' by (simp add: headers_ok_insert)
qed

lemma parseHeaderLines_ok:
  "headers_ok m \<Longrightarrow> \<forall>l \<in> set lines. \<not> qchar_is_space (hd l) \<Longrightarrow>
     parseHeaderLines lines m = Some m' \<Longrightarrow> headers_ok m'"
  by (induction lines m rule: parseHeaderLines.induct)
     (auto split: option.splits dest: parseHeaderLine_ok)

lemma unfold_line_heads:
  assumes "\<forall>l \<in> set (tl ls). \<not> qchar_is_space (hd l)" and "\<forall>l \<in> set ls. l \<noteq> []" and "line \<noteq> []"
  shows "(\<forall>l \<in> set (tl (unfold_line ls line)). \<not> qchar_is_space (hd l))
       \<and> (\<forall>l \<in> set (unfold_line ls line). l \<noteq> [])"
proof (cases "qchar_is_space (hd line) \<and> ls \<noteq> []")
  case True
  obtain ls' l where ls: "ls = ls' @ [l]" using True by (metis rev_exhaust)
  then have "unfold_line ls line = ls' @ [l @ line]" using True by (simp add: unfold_line_def)
  with ls assms show ?thesis by (cases ls') auto
next
  case False
  then show ?thesis using assms by (cases ls) (auto simp: unfold_line_def)
qed

lemma foldl_unfold_line_heads:
  assumes "\<forall>l \<in> set (tl acc). \<not> qchar_is_space (hd l)" and "\<forall>l \<in> set acc. l \<noteq> []"
    and "\<forall>p \<in> set ps. p \<noteq> []"
  shows "\<forall>l \<in> set (tl (foldl unfold_line acc ps)). \<not> qchar_is_space (hd l)"
  using assms
proof (induction ps arbitrary: acc)
  case Nil
  then show ?case by simp
next
  case (Cons p ps)
  have "p \<noteq> []" "\<forall>p \<in> set ps. p \<noteq> []" using Cons.prems(3) by auto
  then have "\<forall>l \<in> set (tl (foldl unfold_line (unfold_line acc p) ps)). \<not> qchar_is_space (hd l)"
    using unfold_line_heads [OF Cons.prems(1,2), of p] by (intro Cons.IH) blast+
  then show ?case by (simp only: foldl.simps)
qed

lemma header_lines_heads: "\<forall>l \<in> set (tl (header_lines data)). \<not> qchar_is_space (hd l)"
  unfolding header_lines_def by (rule foldl_unfold_line_heads) (auto simp: skip_empty_def)

lemma parseRequestLine_headers:
  "parseRequestLine q req line = Some req' \<Longrightarrow> req_headers req' = req_headers req"
  by (cases "match_request_line line")
     (auto simp: parseRequestLine_def Let_def split_beta split: option.splits)

lemma parseStartLines_ok:
  assumes "parseStartLines q empty_request data = Some req"
  shows "headers_ok (req_headers req)"
proof -
  obtain l ls req1 hs where ls: "header_lines data = l # ls"
    and r: "parseRequestLine q empty_request l = Some req1"
    and hs: "parseHeaderLines ls (req_headers req1) = Some hs" and "req = req1\<lparr>req_headers := hs\<rparr>"
    using assms by (auto simp: parseStartLines_def split: list.splits option.splits)
  moreover have "headers_ok (req_headers req1)"
    by (simp add: parseRequestLine_headers [OF r] empty_request_def headers_ok_def)
  moreover have "\<forall>x \<in> set ls. \<not> qchar_is_space (hd x)" using header_lines_heads [of data] ls by simp
  ultimately show ?thesis using parseHeaderLines_ok by auto
qed

lemma parseFormData_headers: "parseFormData q req d = Some req' \<Longrightarrow> req_headers req' = req_headers req"
  by (auto simp: parseFormData_def Let_def split: option.splits)

lemma parse_parts_headers: "parse_parts q req ps = Some req' \<Longrightarrow> req_headers req' = req_headers req"
  by (induction q req ps rule: parse_parts.induct)
     (auto split: option.splits dest: parseFormData_headers)

lemma parsePostMessage_ok:
  assumes "headers_ok (req_headers req)" and "parsePostMessage q req d = Some req'"
  shows "headers_ok (req_headers req')"
proof -
  obtain ct hs where s: "qmap_subscript ''content-type'' [] (req_headers req) = (ct, hs)"
    by (cases "qmap_subscript ''content-type'' [] (req_headers req)") auto
  have "header_name_ok ''content-type''" by code_simp
  then have "headers_ok hs"
    using s assms(1) by (auto simp: qmap_subscript_def headers_ok_insert split: option.splits)
  moreover have "req_headers req' = hs"
    using assms(2) s
    by (auto simp: parsePostMessage_def parse_multipart_def Let_def
        split: if_splits option.splits dest!: parse_parts_headers)
  ultimately show ?thesis by simp
qed

text \<open>
  The header table of every accepted request is well formed: the map is sorted and without duplicate
  names, each name is in lower case, not empty and without a colon, so that the look-ups the
  application makes under lower-case names see every header. Continuation lines
  do not break this.
\<close>

theorem parse_headers_ok:
  assumes "res_status (parse q data) = StatusOK"
  shows "headers_ok (req_headers (res_request (parse q data)))"
proof -
  obtain h where h: "doParse q data = doParse_at q h (take h data) data"
    using assms by (auto simp: parse_def doParse_eq split: option.splits)
  obtain req where req: "parseStartLines q empty_request (take h data) = Some req"
    using assms h by (auto simp: parse_def doParse_at_def split: option.splits)
  then have "headers_ok (req_headers req)" by (rule parseStartLines_ok)
  then show ?thesis using assms h req
    by (auto simp: parse_def doParse_at_def Let_def
        split: option.splits if_splits intro: parsePostMessage_ok)
qed

theorem parse_headers_ok_witness:
  "headers_ok (req_headers (res_request (parse ascii_codec sample_post)))"
  by (rule parse_headers_ok) code_simp

section \<open>Reading back what a client writes\<close>

text \<open>A GET request as a client sends it.\<close>

definition request_lines :: "qstring \<Rightarrow> (qstring \<times> qstring) list \<Rightarrow> qstring list" where
  "request_lines target hs =
     (''GET '' @ target @ '' HTTP/1.1'') # map (\<lambda>(n, v). n @ '': '' @ v) hs"

definition print_get :: "qstring \<Rightarrow> (qstring \<times> qstring) list \<Rightarrow> qbytearray" where
  "print_get target hs = join CRLF (request_lines target hs) @ EOH"

definition get_request :: "qt_codec \<Rightarrow> qstring \<Rightarrow> (qstring \<times> qstring) list \<Rightarrow> request" where
  "get_request q t hs =
     \<lparr>req_version = ''1.1'', req_method = ''GET'', req_path = fromUtf8 q (fromPercentEncoding q t),
      req_headers = fold (\<lambda>(n, v). qmap_insert (to_lower n) v) hs [],
      req_query = Map.empty, req_posts = Map.empty, req_files = []\<rparr>"

definition target_ok :: "qstring \<Rightarrow> bool" where
  "target_ok t \<longleftrightarrow> t \<noteq> [] \<and> list_all (\<lambda>c. \<not> c_isspace c) t"

definition field_ok :: "qstring \<times> qstring \<Rightarrow> bool" where
  "field_ok f = (case f of (n, v) \<Rightarrow>
     n \<noteq> [] \<and> list_all (\<lambda>c. \<not> qchar_is_space c \<and> c \<noteq> CHR '':'') n
     \<and> trimmed v = v \<and> CR \<notin> set v)"

lemma CR_space: "c_isspace CR" "qchar_is_space CR"
  by (simp_all add: c_isspace_def qchar_is_space_def)

lemma find_EOH_lines:
  assumes "ls \<noteq> []" and "\<forall>l \<in> set ls. l \<noteq> [] \<and> CR \<notin> set l"
  shows "find_sub EOH (join CRLF ls @ EOH @ rest) = Some (length (join CRLF ls))"
  using assms
proof (induction ls)
  case Nil
  then show ?case by simp
next
  case (Cons l ls)
  have skip: "find_sub EOH (l @ xs) = map_option (\<lambda>i. length l + i) (find_sub EOH xs)" for xs
    unfolding EOH_def using Cons.prems(2) by (intro find_sub_skip) simp
  show ?case
  proof (cases ls)
    case Nil
    have "find_sub EOH (EOH @ rest) = Some 0" by (simp add: EOH_def)
    with Nil skip show ?thesis by simp
  next
    case (Cons k ks)
    let ?tail = "join CRLF ls @ EOH @ rest"
    obtain y ys where "k = y # ys" "y \<noteq> CR" using Cons Cons.prems(2) by (cases k) auto
    then obtain x xs where x: "?tail = x # xs" "x \<noteq> CR"
      using Cons by (cases ks) auto
    have "find_sub EOH (CRLF @ x # xs) = map_option (\<lambda>i. 2 + i) (find_sub EOH (x # xs))"
      using x(2) by (cases "find_sub EOH xs") (auto simp add: EOH_def CRLF_def)
    moreover have "find_sub EOH ?tail = Some (length (join CRLF ls))"
      using Cons by (intro Cons.IH) (use Cons.prems(2) in auto)
    ultimately have "find_sub EOH (CRLF @ ?tail) = Some (2 + length (join CRLF ls))"
      by (simp only: x(1) option.map)
    then show ?thesis using skip [of "CRLF @ ?tail"] Cons by (simp add: CRLF_def)
  qed
qed

lemma split_str_line: "CR \<notin> set l \<Longrightarrow> split_str CRLF (l @ CRLF @ xs) = l # split_str CRLF xs"
  by (subst split_str.simps) (simp add: CRLF_def find_sub_skip)

lemma split_str_last: "CR \<notin> set l \<Longrightarrow> split_str CRLF l = [l]"
  using find_sub_skip [of CR l "[LF]" "[]"] by (subst split_str.simps) (simp add: CRLF_def)

lemma split_str_lines:
  "ls \<noteq> [] \<Longrightarrow> \<forall>l \<in> set ls. CR \<notin> set l \<Longrightarrow> split_str CRLF (join CRLF ls) = ls"
proof (induction ls)
  case Nil
  then show ?case by simp
next
  case (Cons l ls)
  then show ?case by (cases ls) (simp_all add: split_str_last split_str_line)
qed

lemma foldl_unfold_lines:
  "\<forall>l \<in> set ls. \<not> qchar_is_space (hd l) \<Longrightarrow> foldl unfold_line acc ls = acc @ ls"
  by (induction ls arbitrary: acc) (auto simp: unfold_line_def)

lemma header_lines_join:
  assumes "ls \<noteq> []" and "\<forall>l \<in> set ls. l \<noteq> [] \<and> CR \<notin> set l \<and> \<not> qchar_is_space (hd l)"
  shows "header_lines (join CRLF ls) = ls"
proof -
  have "skip_empty ls = ls" using assms(2) by (simp add: skip_empty_def)
  moreover have "split_str CRLF (join CRLF ls) = ls" using assms by (intro split_str_lines) auto
  ultimately show ?thesis using assms(2) foldl_unfold_lines [of ls "[]"]
    by (simp add: header_lines_def)
qed

lemma match_get_line:
  assumes "target_ok t"
  shows "match_request_line (''GET '' @ t @ '' HTTP/1.1'') = Some (''GET'', t, ''1.1'')"
proof -
  obtain a b where t: "t = a # b" "\<not> c_isspace a" "list_all (\<lambda>c. \<not> c_isspace c) b"
    using assms by (cases t) (auto simp: target_ok_def)
  have sp: "c_isspace (CHR '' '')" "\<not> c_isspace (CHR ''H'')" by (simp_all add: c_isspace_def)
  have "takeWhile (\<lambda>c. \<not> c_isspace c) (t @ '' HTTP/1.1'') = t"
    "dropWhile (\<lambda>c. \<not> c_isspace c) (t @ '' HTTP/1.1'') = '' HTTP/1.1''"
    using assms sp by (auto simp: target_ok_def takeWhile_append dropWhile_append list_all_iff takeWhile_eq_all_conv)
  with t sp show ?thesis
    by (simp add: match_request_line_def Let_def is_AZ_def is_digit_def)
qed

lemma parseHeaderLine_field:
  assumes "field_ok (n, v)"
  shows "parseHeaderLine (n @ '': '' @ v) m = Some (qmap_insert (to_lower n) v m)"
proof -
  have n: "n \<noteq> []" "CHR '':'' \<notin> set n" "\<forall>c \<in> set n. \<not> qchar_is_space c" and v: "trimmed v = v"
    using assms by (auto simp: field_ok_def list_all_iff)
  moreover have "trimmed n = n" by (rule trimmed_id) (use n in auto)
  moreover have "qchar_is_space (CHR '' '')" by (simp add: qchar_is_space_def)
  ultimately show ?thesis
    using index_of_append [of "CHR '':''" n "CHR '' '' # v"]
    by (simp add: parseHeaderLine_def Let_def trimmed_Cons_space)
qed

lemma parseHeaderLines_fields:
  "list_all field_ok hs \<Longrightarrow>
     parseHeaderLines (map (\<lambda>(n, v). n @ '': '' @ v) hs) m
       = Some (fold (\<lambda>(n, v). qmap_insert (to_lower n) v) hs m)"
  by (induction hs arbitrary: m) (auto simp del: append_Cons simp add: parseHeaderLine_field)

lemma request_lines_wf:
  assumes "target_ok t" and "list_all field_ok hs" and "l \<in> set (request_lines t hs)"
  shows "l \<noteq> [] \<and> CR \<notin> set l \<and> \<not> qchar_is_space (hd l)"
proof -
  consider "l = ''GET '' @ t @ '' HTTP/1.1''" | n v where "l = n @ '': '' @ v" "field_ok (n, v)"
    using assms(2,3) by (auto simp: request_lines_def list_all_iff)
  then show ?thesis
  proof cases
    case 1
    have "CR \<notin> set t" using assms(1) CR_space by (auto simp: target_ok_def list_all_iff)
    with 1 show ?thesis by (simp add: qchar_is_space_def)
  next
    case (2 n v)
    then have "n \<noteq> []" "\<forall>c \<in> set n. \<not> qchar_is_space c" "CR \<notin> set v"
      by (auto simp: field_ok_def list_all_iff)
    moreover have "CR \<notin> set n" using calculation(2) CR_space(2) by blast
    ultimately show ?thesis using 2(1) by (cases n) auto
  qed
qed

lemma doParse_print_get:
  assumes "target_ok t" and "CHR ''?'' \<notin> set t" and "list_all field_ok hs"
  shows "doParse q (print_get t hs) =
    \<lparr>res_status = StatusOK, res_request = get_request q t hs, res_frameSize = length (print_get t hs)\<rparr>"
proof -
  let ?ls = "request_lines t hs"
  note wf = request_lines_wf [OF assms(1,3)]
  have ne: "?ls \<noteq> []" by (simp add: request_lines_def)
  have eoh: "find_sub EOH (print_get t hs) = Some (length (join CRLF ?ls))"
    using find_EOH_lines [OF ne, of "[]"] wf by (simp add: print_get_def)
  have hl: "header_lines (join CRLF ?ls) = ?ls" using wf by (intro header_lines_join [OF ne]) auto
  have url: "index_of (CHR ''?'') t = None" using assms(2) by simp
  have "parseRequestLine q empty_request (''GET '' @ t @ '' HTTP/1.1'')
      = Some (empty_request\<lparr>req_method := ''GET'', req_path := fromUtf8 q (fromPercentEncoding q t),
                req_version := ''1.1''\<rparr>)"
    by (simp only: parseRequestLine_def match_get_line [OF assms(1)] option.case prod.case url Let_def)
  then have "parseStartLines q empty_request (join CRLF ?ls)
      = Some (empty_request\<lparr>req_method := ''GET'', req_path := fromUtf8 q (fromPercentEncoding q t),
                req_version := ''1.1'',
                req_headers := fold (\<lambda>(n, v). qmap_insert (to_lower n) v) hs []\<rparr>)"
    by (simp only: parseStartLines_def hl) 
       (simp add: request_lines_def parseHeaderLines_fields [OF assms(3)] empty_request_def del: append_Cons)
  then show ?thesis
    by (simp add: doParse_def eoh)
       (simp add: print_get_def empty_request_def get_request_def)
qed

text \<open>
  C21. A GET request written by a client is read back: the parser accepts exactly its bytes as one frame and
  reports the target's path, no form data, and every header field under its lower-case name, the
  last one winning where a name occurs twice.
\<close>

theorem parse_print_get:
  assumes "target_ok t" and "CHR ''?'' \<notin> set t" and "list_all field_ok hs"
  shows "parse q (print_get t hs) =
    \<lparr>res_status = StatusOK, res_request = get_request q t hs, res_frameSize = length (print_get t hs)\<rparr>"
  using assms by (simp add: parse_def doParse_print_get)

theorem parse_print_get_witness:
  "parse ascii_codec (print_get ''/a'' [(''Host'', ''h''), (''X-A'', ''1 2'')]) =
    \<lparr>res_status = StatusOK,
     res_request = get_request ascii_codec ''/a'' [(''Host'', ''h''), (''X-A'', ''1 2'')],
     res_frameSize = length (print_get ''/a'' [(''Host'', ''h''), (''X-A'', ''1 2'')])\<rparr>"
  by (rule parse_print_get) code_simp+

end

