(* ===== verification/Http_Connection.thy ===== *)
theory Http_Connection
  imports Http_Request
begin

text \<open>
  One client connection of the embedded server: \<^verbatim>\<open>src/src/base/http/connection.cpp\<close>, with
  the response writer \<^verbatim>\<open>responsegenerator.cpp\<close>, \<^verbatim>\<open>responsebuilder.cpp\<close> and the
  error classes \<^verbatim>\<open>httperror.cpp\<close>. The request handler is a parameter that may keep a state of its
  own; so are gzip, the clock and the printing of numbers.
\<close>

section \<open>Responses\<close>

record response =
  resp_code :: nat
  resp_text :: qstring
  resp_headers :: "(qstring, qstring) qmap"
  resp_content :: qbytearray

definition new_response :: "nat \<Rightarrow> qstring \<Rightarrow> response" where
  "new_response code t =
     \<lparr>resp_code = code, resp_text = t, resp_headers = [], resp_content = []\<rparr>"

text \<open>
  The library calls of the response writer: \<^verbatim>\<open>Gzip::compress\<close> (\<open>None\<close> when it reports
  failure), \<^verbatim>\<open>httpDate()\<close>, decimal printing, and \<^verbatim>\<open>QStringView::toDouble\<close>, of
  which the code only uses whether it succeeds and gives a positive number.
\<close>

record http_env =
  env_compress :: "qbytearray \<Rightarrow> qbytearray option"
  env_date :: qstring
  env_number :: "nat \<Rightarrow> qstring"
  env_qvalue_positive :: "qstring \<Rightarrow> bool"

definition compressContent :: "http_env \<Rightarrow> response \<Rightarrow> response" where
  "compressContent env r =
     (if qmap_lookup (resp_headers r) ''content-encoding'' \<noteq> Some ''gzip'' then r
      else
        let r1 = r\<lparr>resp_headers := qmap_remove ''content-encoding'' (resp_headers r)\<rparr>;
            contentSize = length (resp_content r1)
        in if contentSize \<le> 1024 then r1
           else (case qmap_subscript ''content-type'' [] (resp_headers r1) of
                   (contentType, hs) \<Rightarrow>
                     let r2 = r1\<lparr>resp_headers := hs\<rparr>
                     in if contentType = ''image/gif'' \<or> contentType = ''image/png'' then r2
                        else (case env_compress env (resp_content r2) of
                                None \<Rightarrow> r2
                              | Some compressedData \<Rightarrow>
                                  if length compressedData + 24 \<ge> contentSize then r2
                                  else r2\<lparr>resp_content := compressedData,
                                          resp_headers := qmap_insert ''content-encoding'' ''gzip''
                                                            (resp_headers r2)\<rparr>)))"

text \<open>The headers of the message as sent: date and content length are filled in.\<close>

definition finalHeaders :: "http_env \<Rightarrow> response \<Rightarrow> (qstring, qstring) qmap" where
  "finalHeaders env r =
     (let hs = qmap_insert ''date'' (env_date env) (resp_headers r)
      in if qmap_value hs ''content-length'' [] = []
         then qmap_insert ''content-length'' (env_number env (length (resp_content r))) hs
         else hs)"

definition toByteArray :: "http_env \<Rightarrow> response \<Rightarrow> qbytearray" where
  "toByteArray env response0 =
     (let r = compressContent env response0;
          hs = finalHeaders env r
      in ''HTTP/1.1 '' @ env_number env (resp_code r) @ '' '' @ resp_text r @ CRLF
         @ concat (map (\<lambda>(k, v). k @ '': '' @ v @ CRLF) hs)
         @ CRLF @ resp_content r)"

section \<open>The response builder\<close>

definition builder_status :: "nat \<Rightarrow> qstring \<Rightarrow> response \<Rightarrow> response" where
  "builder_status code t r = r\<lparr>resp_code := code, resp_text := t\<rparr>"

definition builder_setHeader :: "qstring \<Rightarrow> qstring \<Rightarrow> response \<Rightarrow> response" where
  "builder_setHeader name v r = r\<lparr>resp_headers := qmap_insert name v (resp_headers r)\<rparr>"

definition builder_print :: "qbytearray \<Rightarrow> qstring \<Rightarrow> response \<Rightarrow> response" where
  "builder_print data ty r =
     (let r1 = (if \<not> qmap_contains (resp_headers r) ''content-type''
                then r\<lparr>resp_headers := qmap_insert ''content-type'' ty (resp_headers r)\<rparr>
                else r)
      in r1\<lparr>resp_content := resp_content r1 @ data\<rparr>)"

definition builder_clear :: "response \<Rightarrow> response" where
  "builder_clear r = new_response 200 ''OK''"

text \<open>The exception classes a handler may throw, with the status they carry.\<close>

datatype http_error =
    BadRequestHTTPError qstring
  | UnauthorizedHTTPError qstring
  | ForbiddenHTTPError qstring
  | NotFoundHTTPError qstring
  | MethodNotAllowedHTTPError qstring
  | ConflictHTTPError qstring
  | UnsupportedMediaTypeHTTPError qstring
  | InternalServerErrorHTTPError qstring

fun http_error_status :: "http_error \<Rightarrow> nat \<times> qstring" where
  "http_error_status (BadRequestHTTPError m) = (400, ''Bad Request'')"
| "http_error_status (UnauthorizedHTTPError m) = (401, ''Unauthorized'')"
| "http_error_status (ForbiddenHTTPError m) = (403, ''Forbidden'')"
| "http_error_status (NotFoundHTTPError m) = (404, ''Not Found'')"
| "http_error_status (MethodNotAllowedHTTPError m) = (405, ''Method Not Allowed'')"
| "http_error_status (ConflictHTTPError m) = (409, ''Conflict'')"
| "http_error_status (UnsupportedMediaTypeHTTPError m) = (415, ''Unsupported Media Type'')"
| "http_error_status (InternalServerErrorHTTPError m) = (500, ''Internal Server Error'')"

section \<open>Content negotiation\<close>

fun isCodingAvailable :: "http_env \<Rightarrow> qstring list \<Rightarrow> qstring \<Rightarrow> bool" where
  "isCodingAvailable env [] encoding = False"
| "isCodingAvailable env (str # strs) encoding =
     (if \<not> prefix encoding str then isCodingAvailable env strs encoding
      else if str = encoding then True
      else env_qvalue_positive env (drop (length encoding + 3) str))"

definition acceptsGzipEncoding :: "http_env \<Rightarrow> qstring \<Rightarrow> bool" where
  "acceptsGzipEncoding env codings =
     (let codings' = filter (\<lambda>c. c \<noteq> CHR '' '' \<and> c \<noteq> CHR 0x09) codings;
          list = skip_empty (split_char (CHR '','') codings')
      in if list = [] then False
         else isCodingAvailable env list ''gzip'' \<or> isCodingAvailable env list ''*'')"

section \<open>The connection\<close>

text \<open>
  \<open>'s\<close> is the state of the request handler. \<open>conn_written\<close> is what has been written to the
  socket, one entry per response.
\<close>

record 's connection =
  conn_receivedData :: qbytearray
  conn_open :: bool
  conn_written :: "qbytearray list"
  conn_handler :: 's

type_synonym 's request_handler = "'s \<Rightarrow> request \<Rightarrow> response \<times> 's"

definition sendResponse :: "http_env \<Rightarrow> response \<Rightarrow> 's connection \<Rightarrow> 's connection" where
  "sendResponse env resp c = c\<lparr>conn_written := conn_written c @ [toByteArray env resp]\<rparr>"

definition close_with :: "http_env \<Rightarrow> nat \<Rightarrow> qstring \<Rightarrow> 's connection \<Rightarrow> 's connection" where
  "close_with env code t c =
     (let resp = builder_setHeader ''connection'' ''close'' (new_response code t)
      in (sendResponse env resp c)\<lparr>conn_open := False\<rparr>)"

text \<open>\<^verbatim>\<open>MAX_CONTENT_SIZE * 1.1\<close> truncated to an integer.\<close>

definition bufferLimit :: nat where
  "bufferLimit = 73819750"

text \<open>One accepted request: the handler is called and the response is written.\<close>

definition serve :: "http_env \<Rightarrow> 's request_handler \<Rightarrow> request \<Rightarrow> 's connection \<Rightarrow> 's connection" where
  "serve env handler req c =
     (if req_method req = ''HEAD'' then
        (case handler (conn_handler c) (req\<lparr>req_method := ''GET''\<rparr>) of
           (resp, h) \<Rightarrow>
             let resp1 = builder_setHeader ''connection'' ''keep-alive'' resp;
                 resp2 = builder_setHeader ''content-length''
                           (env_number env (length (resp_content resp1))) resp1;
                 resp3 = resp2\<lparr>resp_content := []\<rparr>
             in sendResponse env resp3 (c\<lparr>conn_handler := h\<rparr>))
      else
        (case handler (conn_handler c) req of
           (resp, h) \<Rightarrow>
             let resp1 = (if acceptsGzipEncoding env
                               (qmap_value (req_headers req) ''accept-encoding'' [])
                          then builder_setHeader ''content-encoding'' ''gzip'' resp else resp);
                 resp2 = builder_setHeader ''connection'' ''keep-alive'' resp1
             in sendResponse env resp2 (c\<lparr>conn_handler := h\<rparr>)))"

function read_loop ::
  "qt_codec \<Rightarrow> http_env \<Rightarrow> 's request_handler \<Rightarrow> 's connection \<Rightarrow> 's connection" where
  "read_loop q env handler c =
     (if conn_receivedData c = [] then c
      else
        let result = parse q (conn_receivedData c)
        in (case res_status result of
              Incomplete \<Rightarrow>
                if length (conn_receivedData c) > bufferLimit
                then close_with env 413 ''Payload Too Large'' c else c
            | BadMethod \<Rightarrow> close_with env 501 ''Not Implemented'' c
            | BadRequest \<Rightarrow> close_with env 400 ''Bad Request'' c
            | StatusOK \<Rightarrow>
                read_loop q env handler
                  ((serve env handler (res_request result) c)
                     \<lparr>conn_receivedData := drop (res_frameSize result) (conn_receivedData c)\<rparr>)))"
  by pat_completeness auto
termination
proof (relation "measure (\<lambda>(q, env, handler, c). length (conn_receivedData c))", goal_cases)
  case 1
  show ?case by simp
next
  case (2 q env handler c result)
  then have "0 < res_frameSize result" by (simp add: http.size_pos)
  moreover have "0 < length (conn_receivedData c)" using 2(1) by simp
  ultimately show ?case by simp
qed

declare read_loop.simps [simp del]

text \<open>
  \<^verbatim>\<open>Connection::read\<close> on the bytes the socket delivers; \<open>None\<close> is a failed
  \<^verbatim>\<open>QTcpSocket::read\<close>; the bytes by which the buffer was then grown are undefined and never
  read again, since the socket is closed, and are left out.
\<close>

definition read_data ::
  "qt_codec \<Rightarrow> http_env \<Rightarrow> 's request_handler \<Rightarrow> qbytearray option \<Rightarrow> 's connection \<Rightarrow> 's connection" where
  "read_data q env handler received c =
     (case received of
        None \<Rightarrow> c\<lparr>conn_open := False\<rparr>
      | Some bytes \<Rightarrow>
          read_loop q env handler (c\<lparr>conn_receivedData := conn_receivedData c @ bytes\<rparr>))"

definition hasExpired :: "nat \<Rightarrow> nat \<Rightarrow> nat \<Rightarrow> nat \<Rightarrow> bool" where
  "hasExpired bytesAvailable bytesToWrite idleTime timeout \<longleftrightarrow>
     bytesAvailable = 0 \<and> bytesToWrite = 0 \<and> idleTime > timeout"

definition sample_env :: http_env where
  "sample_env = \<lparr>env_compress = (\<lambda>d. Some (take 1 d)), env_date = ''now'', env_number = (\<lambda>n. replicate (Suc n) (CHR ''1'')),
     env_qvalue_positive = (\<lambda>s. s = ''1'')\<rparr>"

definition sample_handler :: "nat request_handler" where
  "sample_handler n req = ((new_response 200 ''OK'')\<lparr>resp_content := req_path req\<rparr>, Suc n)"

definition sample_connection :: "nat connection" where
  "sample_connection = \<lparr>conn_receivedData = [], conn_open = True, conn_written = [], conn_handler = 0\<rparr>"

section \<open>Lemmas on the read loop\<close>

lemma serve_data: "serve env handler req (c\<lparr>conn_receivedData := d\<rparr>)
    = (serve env handler req c)\<lparr>conn_receivedData := d\<rparr>"
  by (simp add: serve_def sendResponse_def Let_def split_beta)

lemma serve_simps [simp]:
  "conn_receivedData (serve env handler req c) = conn_receivedData c"
  "conn_open (serve env handler req c) = conn_open c"
  by (simp_all add: serve_def sendResponse_def Let_def split_beta)

lemma close_with_open [simp]: "\<not> conn_open (close_with env code t c)"
  by (simp add: close_with_def Let_def)

lemma read_loop_OK:
  assumes "res_status (parse q (conn_receivedData c)) = StatusOK"
  shows "read_loop q env handler c =
    read_loop q env handler
      ((serve env handler (res_request (parse q (conn_receivedData c))) c)
         \<lparr>conn_receivedData := drop (res_frameSize (parse q (conn_receivedData c))) (conn_receivedData c)\<rparr>)"
proof -
  have "conn_receivedData c \<noteq> []" using http.size_pos [OF assms] http.size_le [OF assms] by auto
  with assms show ?thesis by (subst read_loop.simps) (simp add: Let_def)
qed

lemma read_loop_stop:
  assumes "res_status (parse q (conn_receivedData c)) \<noteq> StatusOK \<or> conn_receivedData c = []"
    and "conn_open (read_loop q env handler c)"
  shows "read_loop q env handler c = c"
  using assms by (subst (asm) read_loop.simps, subst read_loop.simps)
    (auto simp: Let_def split: parse_status.splits if_splits)

lemma read_loop_append:
  assumes "conn_open (read_loop q env handler c)"
  shows "read_loop q env handler ((read_loop q env handler c)
           \<lparr>conn_receivedData := conn_receivedData (read_loop q env handler c) @ b\<rparr>)
       = read_loop q env handler (c\<lparr>conn_receivedData := conn_receivedData c @ b\<rparr>)"
  using assms
proof (induction q env handler c rule: read_loop.induct)
  case (1 q env handler c)
  let ?d = "conn_receivedData c" and ?r = "parse q (conn_receivedData c)"
  show ?case
  proof (cases "res_status ?r = StatusOK \<and> ?d \<noteq> []")
    case False
    then have "read_loop q env handler c = c" using 1(2) by (intro read_loop_stop) auto
    then show ?thesis by simp
  next
    case True
    let ?c1 = "(serve env handler (res_request ?r) c)\<lparr>conn_receivedData := drop (res_frameSize ?r) ?d\<rparr>"
    have st: "read_loop q env handler c = read_loop q env handler ?c1"
      using True by (intro read_loop_OK) simp
    have ext: "parse q (?d @ b) = ?r" using True by (intro http.final) simp
    have len: "res_frameSize ?r \<le> length ?d" using True by (intro http.size_le) simp
    have "read_loop q env handler (c\<lparr>conn_receivedData := ?d @ b\<rparr>)
        = read_loop q env handler (?c1\<lparr>conn_receivedData := drop (res_frameSize ?r) ?d @ b\<rparr>)"
      using True len by (subst read_loop_OK) (simp_all add: ext serve_data)
    moreover have "read_loop q env handler ((read_loop q env handler ?c1)
           \<lparr>conn_receivedData := conn_receivedData (read_loop q env handler ?c1) @ b\<rparr>)
       = read_loop q env handler (?c1\<lparr>conn_receivedData := conn_receivedData ?c1 @ b\<rparr>)"
      using True 1(2) st by (intro 1(1) [OF _ refl]) auto
    ultimately show ?thesis by (simp add: st)
  qed
qed

text \<open>
  C3. The responses do not depend on how the network cuts the stream into segments: as long as the connection
  stays open, reading two pieces one after the other leaves the connection, its buffer, the
  handler and everything written exactly as reading the two pieces at once.
\<close>

theorem read_data_segments:
  assumes "conn_open (read_data q env handler (Some a) c)"
  shows "read_data q env handler (Some b) (read_data q env handler (Some a) c)
       = read_data q env handler (Some (a @ b)) c"
  using read_loop_append [of q env handler "c\<lparr>conn_receivedData := conn_receivedData c @ a\<rparr>" b] assms
  by (simp add: read_data_def)

theorem read_data_segments_witness:
  "read_data ascii_codec sample_env sample_handler (Some (drop 10 sample_post))
     (read_data ascii_codec sample_env sample_handler (Some (take 10 sample_post)) sample_connection)
   = read_data ascii_codec sample_env sample_handler (Some (take 10 sample_post @ drop 10 sample_post))
       sample_connection"
proof (rule read_data_segments)
  have "res_status (parse ascii_codec (take 10 sample_post)) = Incomplete" by code_simp
  moreover have "length (take 10 sample_post) \<le> bufferLimit" "take 10 sample_post \<noteq> []"
    by (simp_all add: bufferLimit_def sample_post_def CRLF_def)
  ultimately show
    "conn_open (read_data ascii_codec sample_env sample_handler (Some (take 10 sample_post)) sample_connection)"
    by (simp add: read_data_def read_loop.simps sample_connection_def Let_def bufferLimit_def)
qed

lemma read_loop_pipeline:
  assumes "\<forall>(t, hs) \<in> set rs. target_ok t \<and> CHR ''?'' \<notin> set t \<and> list_all field_ok hs"
    and "conn_receivedData c = concat (map (\<lambda>(t, hs). print_get t hs) rs)"
  shows "read_loop q env handler c
    = fold (\<lambda>(t, hs). serve env handler (get_request q t hs)) rs (c\<lparr>conn_receivedData := []\<rparr>)"
  using assms
proof (induction rs arbitrary: c)
  case Nil
  then show ?case by (simp add: read_loop.simps)
next
  case (Cons r rs)
  obtain t hs where r: "r = (t, hs)" by (cases r)
  have p: "parse q (print_get t hs) =
    \<lparr>res_status = StatusOK, res_request = get_request q t hs, res_frameSize = length (print_get t hs)\<rparr>"
    using Cons.prems(1) r by (simp add: parse_def doParse_print_get)
  have d: "conn_receivedData c = print_get t hs @ concat (map (\<lambda>(t, hs). print_get t hs) rs)"
    using Cons.prems(2) r by simp
  have "parse q (conn_receivedData c) = parse q (print_get t hs)"
    unfolding d by (rule http.frame_append) (simp_all add: p)
  then have "read_loop q env handler c = read_loop q env handler
      ((serve env handler (get_request q t hs) c)
        \<lparr>conn_receivedData := concat (map (\<lambda>(t, hs). print_get t hs) rs)\<rparr>)"
    by (subst read_loop_OK) (simp_all add: p, simp add: d)
  then show ?case using Cons.prems(1) r by (simp add: Cons.IH serve_data)
qed

text \<open>
  C26. Pipelining: a stream of GET requests written back to back is answered request by request, in order,
  with nothing left in the buffer and the connection open.
\<close>

theorem read_data_pipeline:
  assumes "\<forall>(t, hs) \<in> set rs. target_ok t \<and> CHR ''?'' \<notin> set t \<and> list_all field_ok hs"
    and "conn_receivedData c = []"
  shows "read_data q env handler (Some (concat (map (\<lambda>(t, hs). print_get t hs) rs))) c
    = fold (\<lambda>(t, hs). serve env handler (get_request q t hs)) rs c"
proof -
  let ?d = "concat (map (\<lambda>(t, hs). print_get t hs) rs)"
  have "read_loop q env handler (c\<lparr>conn_receivedData := ?d\<rparr>)
      = fold (\<lambda>(t, hs). serve env handler (get_request q t hs)) rs (c\<lparr>conn_receivedData := []\<rparr>)"
    using read_loop_pipeline [OF assms(1), of "c\<lparr>conn_receivedData := ?d\<rparr>"] by simp
  moreover have "c\<lparr>conn_receivedData := []\<rparr> = c" using assms(2) by (cases c) simp
  ultimately show ?thesis using assms(2) by (simp add: read_data_def)
qed

theorem read_data_pipeline_witness:
  "read_data ascii_codec sample_env sample_handler
     (Some (concat (map (\<lambda>(t, hs). print_get t hs) [(''/a'', [(''Host'', ''h'')]), (''/b'', [])]))) sample_connection
   = fold (\<lambda>(t, hs). serve sample_env sample_handler (get_request ascii_codec t hs))
       [(''/a'', [(''Host'', ''h'')]), (''/b'', [])] sample_connection"
  by (rule read_data_pipeline) code_simp+

section \<open>Handlers that keep an invariant\<close>

text \<open>The contract of a request handler: its answer to any request keeps its invariant.\<close>

locale invariant_handler =
  fixes handler :: "'s request_handler"
    and inv :: "'s \<Rightarrow> bool"
  assumes handler_inv: "inv h \<Longrightarrow> inv (snd (handler h req))"
begin

lemma serve_inv: "inv (conn_handler c) \<Longrightarrow> inv (conn_handler (serve env handler req c))"
  using handler_inv
  by (auto simp: serve_def sendResponse_def Let_def split: prod.split) (metis snd_conv)+

lemma read_loop_inv: "inv (conn_handler c) \<Longrightarrow> inv (conn_handler (read_loop q env handler c))"
proof (induction "length (conn_receivedData c)" arbitrary: c rule: less_induct)
  case less
  let ?r = "parse q (conn_receivedData c)"
  let ?c = "(serve env handler (res_request ?r) c)\<lparr>conn_receivedData := drop (res_frameSize ?r) (conn_receivedData c)\<rparr>"
  show ?case
  proof (cases "res_status ?r = StatusOK")
    case True
    have "length (conn_receivedData ?c) < length (conn_receivedData c)"
      using http.size_pos [OF True] http.size_le [OF True] by simp
    then have "inv (conn_handler (read_loop q env handler ?c))"
      using less.prems by (intro less.hyps) (simp_all add: serve_inv)
    then show ?thesis by (simp only: read_loop_OK [OF True])
  next
    case False
    then have "conn_handler (read_loop q env handler c) = conn_handler c"
      by (subst read_loop.simps)
         (auto simp: Let_def close_with_def sendResponse_def split: parse_status.splits)
    with less.prems show ?thesis by simp
  qed
qed

lemma read_data_inv:
  "inv (conn_handler c) \<Longrightarrow> inv (conn_handler (read_data q env handler received c))"
  by (auto simp: read_data_def read_loop_inv split: option.split)

lemma read_stream_inv:
  "inv (conn_handler c) \<Longrightarrow> inv (conn_handler (fold (read_data q env handler) segments c))"
  by (induction segments arbitrary: c) (auto simp: read_data_inv)

end

section \<open>Lemmas on the response writer\<close>

definition decoded_content :: "(qbytearray \<Rightarrow> qbytearray) \<Rightarrow> response \<Rightarrow> qbytearray" where
  "decoded_content decompress r =
     (if qmap_lookup (resp_headers r) ''content-encoding'' = Some ''gzip''
      then decompress (resp_content r) else resp_content r)"

lemma compressContent_cases:
  obtains (off) "qmap_lookup (resp_headers r) ''content-encoding'' \<noteq> Some ''gzip''"
      "compressContent env r = r"
  | (plain) "resp_content (compressContent env r) = resp_content r"
      "qmap_lookup (resp_headers (compressContent env r)) ''content-encoding'' = None"
  | (packed) z where "env_compress env (resp_content r) = Some z" "length z + 24 < length (resp_content r)"
      "resp_content (compressContent env r) = z"
      "qmap_lookup (resp_headers (compressContent env r)) ''content-encoding'' = Some ''gzip''"
proof -
  obtain ct hs where s: "qmap_subscript ''content-type'' []
      (qmap_remove ''content-encoding'' (resp_headers r)) = (ct, hs)"
    by (cases "qmap_subscript ''content-type'' [] (qmap_remove ''content-encoding'' (resp_headers r))") auto
  have ce: "qmap_lookup hs ''content-encoding'' = None"
    using qmap_subscript_lookup [OF s, of "''content-encoding''"] by simp
  show ?thesis
  proof (cases "qmap_lookup (resp_headers r) ''content-encoding'' = Some ''gzip''")
    case False
    then show ?thesis using off by (simp add: compressContent_def)
  next
    case True
    show ?thesis
    proof (cases "env_compress env (resp_content r)")
      case None
      with True ce show ?thesis
        by (intro plain) (simp_all add: compressContent_def Let_def s)
    next
      case (Some z)
      show ?thesis
      proof (cases "length (resp_content r) > 1024 \<and> ct \<noteq> ''image/gif'' \<and> ct \<noteq> ''image/png''
          \<and> length z + 24 < length (resp_content r)")
        case p: True
        with Some True ce show ?thesis
          by (intro packed [of z]) (simp_all add: compressContent_def Let_def s)
      next
        case False
        then have "resp_content (compressContent env r) = resp_content r"
          and "qmap_lookup (resp_headers (compressContent env r)) ''content-encoding'' = None"
          using Some True ce by (auto simp add: compressContent_def Let_def s)
        then show ?thesis by (rule plain)
      qed
    qed
  qed
qed

lemma compressContent_other:
  assumes "k \<noteq> ''content-encoding''" and "k \<noteq> ''content-type''"
  shows "qmap_lookup (resp_headers (compressContent env r)) k = qmap_lookup (resp_headers r) k"
proof -
  obtain ct hs where s: "qmap_subscript ''content-type'' []
      (qmap_remove ''content-encoding'' (resp_headers r)) = (ct, hs)"
    by (cases "qmap_subscript ''content-type'' [] (qmap_remove ''content-encoding'' (resp_headers r))") auto
  have "qmap_lookup hs k = qmap_lookup (resp_headers r) k"
    using qmap_subscript_lookup [OF s, of k] assms by simp
  then show ?thesis using assms
    by (auto simp: compressContent_def Let_def s split: option.split)
qed

text \<open>
  Compression is transparent: a client that undoes the announced encoding gets the handler's
  content back, the body never grows, it shrinks by at least the cost of the
  announcement when it is compressed, and no header other than the encoding and an
  absent content type is touched.
\<close>

theorem compressContent_transparent:
  assumes "\<And>d z. env_compress env d = Some z \<Longrightarrow> decompress z = d"
    and "k \<noteq> ''content-encoding''" and "k \<noteq> ''content-type''"
  shows "decoded_content decompress (compressContent env r) = resp_content r
       \<and> length (resp_content (compressContent env r)) \<le> length (resp_content r)
       \<and> (resp_content (compressContent env r) \<noteq> resp_content r \<longrightarrow>
            length (resp_content (compressContent env r)) + 24 < length (resp_content r))
       \<and> qmap_lookup (resp_headers (compressContent env r)) k = qmap_lookup (resp_headers r) k"
proof -
  note other = compressContent_other [OF assms(2,3)]
  show ?thesis
  proof (cases rule: compressContent_cases [of r env])
    case off
    then show ?thesis by (simp add: decoded_content_def)
  next
    case plain
    then show ?thesis using other by (simp add: decoded_content_def)
  next
    case (packed z)
    then show ?thesis using other assms(1) [OF packed(1)] by (simp add: decoded_content_def)
  qed
qed

definition packing_env :: http_env where
  "packing_env = sample_env\<lparr>env_compress := \<lambda>d. if d = replicate 2000 (CHR ''a'') then Some ''a'' else None\<rparr>"

definition sample_response :: response where
  "sample_response = builder_setHeader ''content-encoding'' ''gzip''
     ((new_response 200 ''OK'')\<lparr>resp_content := replicate 2000 (CHR ''a'')\<rparr>)"

theorem compressContent_transparent_witness:
  "decoded_content (\<lambda>z. replicate 2000 (CHR ''a'')) (compressContent packing_env sample_response)
     = resp_content sample_response"
proof -
  have "replicate 2000 (CHR ''a'') = d" if "env_compress packing_env d = Some z" for d z
    using that by (auto simp: packing_env_def split: if_splits)
  moreover have "''date'' \<noteq> ''content-encoding''" "''date'' \<noteq> ''content-type''" by simp_all
  ultimately show ?thesis
    using compressContent_transparent [of packing_env "\<lambda>z. replicate 2000 (CHR ''a'')" "''date''" sample_response]
    by blast
qed

lemma finalHeaders_length:
  assumes "qmap_value (resp_headers r) ''content-length'' [] = []"
  shows "qmap_lookup (finalHeaders env r) ''content-length'' = Some (env_number env (length (resp_content r)))"
  using assms by (simp add: finalHeaders_def Let_def qmap_value_def)

lemma finalHeaders_keep:
  assumes "qmap_lookup (resp_headers r) ''content-length'' = Some v" and "v \<noteq> []"
  shows "qmap_lookup (finalHeaders env r) ''content-length'' = Some v"
  using assms by (simp add: finalHeaders_def Let_def qmap_value_def)

text \<open>What goes over the wire for a response: status line, header fields, empty line, body.\<close>

definition http_message :: "http_env \<Rightarrow> nat \<Rightarrow> qstring \<Rightarrow> (qstring, qstring) qmap \<Rightarrow> qbytearray \<Rightarrow> qbytearray" where
  "http_message env code t hs body =
     ''HTTP/1.1 '' @ env_number env code @ '' '' @ t @ CRLF
       @ concat (map (\<lambda>(k, v). k @ '': '' @ v @ CRLF) hs) @ CRLF @ body"

lemma toByteArray_message:
  "toByteArray env r = http_message env (resp_code (compressContent env r)) (resp_text (compressContent env r))
     (finalHeaders env (compressContent env r)) (resp_content (compressContent env r))"
  by (simp add: toByteArray_def http_message_def Let_def)

text \<open>
  The announced length is right. For every request whose handler leaves the
  length to the server, the message written carries a Content-Length equal to the
  number of body bytes that follow, compressed or not; the answer to HEAD has no body and
  announces the length of the content a GET would have had.
\<close>

theorem serve_content_length:
  assumes "handler (conn_handler c) (if req_method req = ''HEAD'' then req\<lparr>req_method := ''GET''\<rparr> else req) = (resp, h)"
    and "qmap_lookup (resp_headers resp) ''content-length'' = None"
    and "\<And>n. env_number env n \<noteq> []"
  shows "\<exists>code t hs body. conn_written (serve env handler req c) = conn_written c @ [http_message env code t hs body]
    \<and> qmap_lookup hs ''content-length'' =
        Some (env_number env (if req_method req = ''HEAD'' then length (resp_content resp) else length body))
    \<and> (req_method req = ''HEAD'' \<longrightarrow> body = [])"
proof (cases "req_method req = ''HEAD''")
  case True
  let ?r = "(builder_setHeader ''content-length'' (env_number env (length (resp_content resp)))
      (builder_setHeader ''connection'' ''keep-alive'' resp))\<lparr>resp_content := []\<rparr>"
  have w: "conn_written (serve env handler req c) = conn_written c @ [toByteArray env ?r]"
    using True assms(1) by (simp add: serve_def sendResponse_def Let_def builder_setHeader_def)
  have "resp_content (compressContent env ?r) = []"
    by (cases rule: compressContent_cases [of ?r env]) auto
  moreover have "qmap_lookup (resp_headers (compressContent env ?r)) ''content-length''
      = Some (env_number env (length (resp_content resp)))"
    by (subst compressContent_other) (simp_all add: builder_setHeader_def)
  then have "qmap_lookup (finalHeaders env (compressContent env ?r)) ''content-length''
      = Some (env_number env (length (resp_content resp)))"
    using assms(3) by (rule finalHeaders_keep)
  ultimately show ?thesis using True unfolding w toByteArray_message
    by (intro exI conjI) (auto intro!: refl)
next
  case False
  define r where "r = builder_setHeader ''connection'' ''keep-alive''
     (if acceptsGzipEncoding env (qmap_value (req_headers req) ''accept-encoding'' [])
      then builder_setHeader ''content-encoding'' ''gzip'' resp else resp)"
  have w: "conn_written (serve env handler req c) = conn_written c @ [toByteArray env r]"
    using False assms(1) by (simp add: serve_def sendResponse_def Let_def r_def)
  have "qmap_lookup (resp_headers (compressContent env r)) ''content-length'' = None"
    using assms(2) by (subst compressContent_other) (simp_all add: r_def builder_setHeader_def)
  then have "qmap_lookup (finalHeaders env (compressContent env r)) ''content-length''
      = Some (env_number env (length (resp_content (compressContent env r))))"
    by (intro finalHeaders_length) (simp add: qmap_value_def)
  then show ?thesis using False unfolding w toByteArray_message by auto
qed

theorem serve_content_length_witness:
  "\<exists>code t hs body. conn_written (serve sample_env
        sample_handler (get_request ascii_codec ''/a'' []) sample_connection)
      = [http_message sample_env code t hs body]
    \<and> qmap_lookup hs ''content-length'' = Some (replicate (Suc (length body)) (CHR ''1''))"
  using serve_content_length
    [of sample_handler sample_connection "get_request ascii_codec ''/a'' []"
       "fst (sample_handler 0 (get_request ascii_codec ''/a'' []))" "Suc 0" sample_env]
  by (simp add: get_request_def sample_handler_def new_response_def sample_connection_def sample_env_def)

end
