(* ===== verification/Filter_Parser.thy ===== *)
theory Filter_Parser
  imports Prelude "HOL-Library.Word"
begin

text \<open>
  The IP filter reader \<^verbatim>\<open>src/src/base/bittorrent/filterparserthread.cpp\<close>: the dotted-quad
  parser, the in-place scanning of text lines (DAT and P2P formats), the block reader that both
  text formats use, and the binary P2B format. \<^verbatim>\<open>lt::make_address\<close> and
  \<^verbatim>\<open>lt::ip_filter\<close> are parameters.

  A line is the list of its bytes with the NUL the code writes over the newline; all
  scanning functions stay within these bytes, so positions are counted from the start of the line.
\<close>

section \<open>C strings\<close>

abbreviation NUL :: char where "NUL \<equiv> CHR 0x00"

definition cstr :: "char list \<Rightarrow> nat \<Rightarrow> char list" where
  "cstr data p = takeWhile (\<lambda>c. c \<noteq> NUL) (drop p data)"

definition digit_value :: "char \<Rightarrow> int" where
  "digit_value c = int (of_char c) - 48"

definition digits_value :: "char list \<Rightarrow> int" where
  "digits_value ds = foldl (\<lambda>a c. 10 * a + digit_value c) 0 ds"

definition LONG_MAX :: int where "LONG_MAX = 2 ^ 63 - 1"
definition LONG_MIN :: int where "LONG_MIN = - (2 ^ 63)"

text \<open>
  \<^verbatim>\<open>strtol(s, &endptr, 10)\<close>: the value, clamped to \<^verbatim>\<open>long\<close>, and the number of
  characters used, which is zero when there is no number.
\<close>

definition strtol :: "char list \<Rightarrow> int \<times> nat" where
  "strtol s =
     (let sp = takeWhile c_isspace s;
          r = dropWhile c_isspace s;
          hasSign = (r \<noteq> [] \<and> (hd r = CHR ''+'' \<or> hd r = CHR ''-''));
          neg = (r \<noteq> [] \<and> hd r = CHR ''-'');
          r' = (if hasSign then tl r else r);
          ds = takeWhile is_digit r';
          v = (if neg then - digits_value ds else digits_value ds)
      in if ds = [] then (0, 0)
         else (max LONG_MIN (min LONG_MAX v),
               length sp + (if hasSign then 1 else 0) + length ds))"

section \<open>IPv4Parser\<close>

text \<open>
  \<^verbatim>\<open>tryParse\<close>: \<open>pos\<close> is the running pointer, \<open>octetStart\<close> where the current octet
  began, \<open>buf\<close> the octets stored so far (so \<^verbatim>\<open>octetIndex\<close> is its length).
\<close>

function tryParse_loop :: "char list \<Rightarrow> nat \<Rightarrow> nat \<Rightarrow> int list \<Rightarrow> int list option" where
  "tryParse_loop str pos octetStart buf =
     (if pos < length str then
        (if str ! pos = CHR ''.'' then
           (case strtol (drop octetStart str) of
              (extractedNum, used) \<Rightarrow>
                if 0 \<le> extractedNum \<and> extractedNum \<le> 255 then
                  let buf' = buf @ [extractedNum]
                  in if octetStart + used \<noteq> pos then None
                     else if length buf' = 4 then Some buf'
                     else tryParse_loop str (Suc pos) (Suc pos) buf'
                else None)
         else tryParse_loop str (Suc pos) octetStart buf)
      else if pos \<noteq> octetStart then
        (case strtol (drop octetStart str) of
           (extractedNum, used) \<Rightarrow>
             if 0 \<le> extractedNum \<and> extractedNum \<le> 255 then
               (if octetStart + used = pos \<and> length buf = 3 then Some (buf @ [extractedNum]) else None)
             else None)
      else None)"
  by pat_completeness auto
termination
  by (relation "measure (\<lambda>(str, pos, octetStart, buf). length str - pos)") auto

declare tryParse_loop.simps [simp del]

definition tryParse :: "char list \<Rightarrow> int list option" where
  "tryParse str = tryParse_loop str 0 0 []"

datatype ip_address = IPv4 "32 word" | IPv6 "128 word"

definition address_v4_of_bytes :: "int list \<Rightarrow> 32 word" where
  "address_v4_of_bytes bs = of_int (foldl (\<lambda>a b. 256 * a + b) 0 bs)"

definition parseIPAddress :: "(char list \<Rightarrow> ip_address option) \<Rightarrow> char list \<Rightarrow> ip_address option" where
  "parseIPAddress make_address data =
     (case tryParse data of
        Some bs \<Rightarrow> Some (IPv4 (address_v4_of_bytes bs))
      | None \<Rightarrow> make_address data)"

fun is_v4 :: "ip_address \<Rightarrow> bool" where
  "is_v4 (IPv4 a) = True"
| "is_v4 (IPv6 a) = False"

section \<open>Scanning a line in place\<close>

function find_forward :: "char list \<Rightarrow> char \<Rightarrow> int \<Rightarrow> int \<Rightarrow> char list \<times> int" where
  "find_forward data delimiter i hi =
     (if i \<le> hi then
        (if data ! nat i = delimiter then (data[nat i := NUL], i)
         else find_forward data delimiter (i + 1) hi)
      else (data, -1))"
  by pat_completeness auto
termination
  by (relation "measure (\<lambda>(data, delimiter, i, hi). nat (hi + 1 - i))") auto

function find_backward :: "char list \<Rightarrow> char \<Rightarrow> int \<Rightarrow> int \<Rightarrow> char list \<times> int" where
  "find_backward data delimiter lo i =
     (if i \<ge> lo then
        (if data ! nat i = delimiter then (data[nat i := NUL], i)
         else find_backward data delimiter lo (i - 1))
      else (data, -1))"
  by pat_completeness auto
termination
  by (relation "measure (\<lambda>(data, delimiter, lo, i). nat (i + 1 - lo))") auto

declare find_forward.simps [simp del] find_backward.simps [simp del]

definition findAndNullDelimiter ::
  "char list \<Rightarrow> char \<Rightarrow> int \<Rightarrow> int \<Rightarrow> bool \<Rightarrow> char list \<times> int" where
  "findAndNullDelimiter data delimiter start fin backwards =
     (if \<not> backwards then find_forward data delimiter start fin
      else find_backward data delimiter start fin)"

function trim_forward :: "char list \<Rightarrow> int \<Rightarrow> int \<Rightarrow> int \<Rightarrow> char list \<times> int" where
  "trim_forward data i fin newStart =
     (if i \<le> fin then
        (if c_isspace (data ! nat i) then trim_forward (data[nat i := NUL]) (i + 1) fin newStart
         else (data, i))
      else (data, newStart))"
  by pat_completeness auto
termination
  by (relation "measure (\<lambda>(data, i, fin, newStart). nat (fin + 1 - i))") auto

function trim_backward :: "char list \<Rightarrow> int \<Rightarrow> int \<Rightarrow> char list" where
  "trim_backward data start i =
     (if i \<ge> start then
        (if c_isspace (data ! nat i) then trim_backward (data[nat i := NUL]) start (i - 1) else data)
      else data)"
  by pat_completeness auto
termination
  by (relation "measure (\<lambda>(data, start, i). nat (i + 1 - start))") auto

declare trim_forward.simps [simp del] trim_backward.simps [simp del]

definition trim :: "char list \<Rightarrow> int \<Rightarrow> int \<Rightarrow> char list \<times> int" where
  "trim data start fin =
     (if start \<ge> fin then (data, start)
      else (case trim_forward data start fin start of
              (data', newStart) \<Rightarrow> (trim_backward data' start fin, newStart)))"

section \<open>Line parsers\<close>

text \<open>
  What the parser keeps: the filter built so far, and the counters. \<open>fs_logged\<close> collects the
  lines for which \<^verbatim>\<open>addLog\<close> wrote a message.
\<close>

record 'f filter_state =
  fs_filter :: 'f
  fs_ruleCount :: nat
  fs_nbLine :: nat
  fs_parseErrorCount :: nat
  fs_logged :: "nat list"

text \<open>
  \<open>make_address\<close> parses the textual forms the quick parser rejects; \<open>add_rule\<close> extends the
  filter, \<open>None\<close> being an exception.
\<close>

record 'f filter_env =
  make_address :: "char list \<Rightarrow> ip_address option"
  add_rule :: "ip_address \<Rightarrow> ip_address \<Rightarrow> 'f \<Rightarrow> 'f option"

definition MAX_LOGGED_ERRORS :: nat where "MAX_LOGGED_ERRORS = 5"

definition parse_error :: "'f filter_state \<Rightarrow> 'f filter_state" where
  "parse_error st =
     (let n = fs_parseErrorCount st + 1
      in st\<lparr>fs_parseErrorCount := n,
            fs_logged := (if n \<le> MAX_LOGGED_ERRORS then fs_logged st @ [fs_nbLine st] else fs_logged st)\<rparr>)"

definition is_comment :: "char list \<Rightarrow> bool" where
  "is_comment line \<longleftrightarrow>
     line ! 0 = CHR ''#''
     \<or> (line ! 0 = CHR ''/'' \<and> 1 < length line \<and> line ! 1 = CHR ''/'')"

text \<open>The end of both line parsers: two addresses at given positions become a rule.\<close>

definition add_range ::
  "'f filter_env \<Rightarrow> char list \<Rightarrow> int \<Rightarrow> int \<Rightarrow> int \<Rightarrow> 'f filter_state \<Rightarrow> 'f filter_state" where
  "add_range env data fromPos delimIP endOfIPRange st =
     (case trim data fromPos (delimIP - 1) of
        (data1, newStart1) \<Rightarrow>
          (case parseIPAddress (make_address env) (cstr data1 (nat newStart1)) of
             None \<Rightarrow> parse_error st
           | Some startAddr \<Rightarrow>
               (case trim data1 (delimIP + 1) endOfIPRange of
                  (data2, newStart2) \<Rightarrow>
                    (case parseIPAddress (make_address env) (cstr data2 (nat newStart2)) of
                       None \<Rightarrow> parse_error st
                     | Some endAddr \<Rightarrow>
                         if is_v4 startAddr \<noteq> is_v4 endAddr then parse_error st
                         else (case add_rule env startAddr endAddr (fs_filter st) of
                                 None \<Rightarrow> parse_error st
                               | Some f \<Rightarrow>
                                   st\<lparr>fs_filter := f, fs_ruleCount := fs_ruleCount st + 1\<rparr>)))))"

text \<open>
  One line of a DAT file. \<open>line\<close> holds the bytes and the terminating NUL, so \<^verbatim>\<open>endOfLine\<close> is the
  index of its last element.
\<close>

definition parse_dat_line :: "'f filter_env \<Rightarrow> 'f filter_state \<Rightarrow> char list \<Rightarrow> 'f filter_state" where
  "parse_dat_line env st0 line =
     (let st = st0\<lparr>fs_nbLine := fs_nbLine st0 + 1\<rparr>;
          endOfLine = int (length line) - 1
      in if is_comment line then st
         else
           (case findAndNullDelimiter line (CHR '','') 0 endOfLine False of
              (data1, firstComma) \<Rightarrow>
                let data2 = (if firstComma \<noteq> -1
                             then fst (findAndNullDelimiter data1 (CHR '','') (firstComma + 1) endOfLine False)
                             else data1)
                in if firstComma \<noteq> -1 \<and> fst (strtol (cstr data2 (nat (firstComma + 1)))) > 127 then st
                   else
                     let endOfIPRange = (if firstComma = -1 then endOfLine - 1 else firstComma - 1)
                     in (case findAndNullDelimiter data2 (CHR ''-'') 0 endOfIPRange False of
                           (data3, delimIP) \<Rightarrow>
                             if delimIP = -1 then parse_error st
                             else add_range env data3 0 delimIP endOfIPRange st)))"

definition parse_p2p_line :: "'f filter_env \<Rightarrow> 'f filter_state \<Rightarrow> char list \<Rightarrow> 'f filter_state" where
  "parse_p2p_line env st0 line =
     (let st = st0\<lparr>fs_nbLine := fs_nbLine st0 + 1\<rparr>;
          endOfLine = int (length line) - 1
      in if is_comment line then st
         else
           (case findAndNullDelimiter line (CHR '':'') 0 endOfLine True of
              (data1, partsDelimiter) \<Rightarrow>
                if partsDelimiter = -1 then parse_error st
                else (case findAndNullDelimiter data1 (CHR ''-'') (partsDelimiter + 1) endOfLine False of
                        (data2, delimIP) \<Rightarrow>
                          if delimIP = -1 then parse_error st
                          else add_range env data2 (partsDelimiter + 1) delimIP endOfLine st)))"

section \<open>The block reader\<close>

definition BUFFER_SIZE :: nat where "BUFFER_SIZE = 2 * 1024 * 1024"

text \<open>
  The inner loop over one buffer: complete lines are handed to the line parser, what is left
  after the last newline is returned to be moved to the front. \<open>at_end\<close> is
  \<^verbatim>\<open>bytesRead == 0\<close>, where the rest counts as a line.
\<close>

function scan_lines :: "('s \<Rightarrow> char list \<Rightarrow> 's) \<Rightarrow> bool \<Rightarrow> 's \<Rightarrow> char list \<Rightarrow> 's \<times> char list" where
  "scan_lines parse_line at_end st data =
     (if data = [] then (st, [])
      else if at_end then (parse_line st (data @ [NUL]), [])
      else (case index_of (CHR 0x0A) data of
              None \<Rightarrow> (st, data)
            | Some i \<Rightarrow>
                scan_lines parse_line at_end (parse_line st (take i data @ [NUL])) (drop (i + 1) data)))"
  by pat_completeness auto
termination
  by (relation "measure (\<lambda>(p, e, st, data). length data)") auto

declare scan_lines.simps [simp del]

lemma scan_lines_rest:
  "length (snd (scan_lines parse_line at_end st data)) \<le> length data
   \<and> (at_end \<longrightarrow> snd (scan_lines parse_line at_end st data) = [])"
proof (induction parse_line at_end st data rule: scan_lines.induct)
  case (1 p e st data)
  show ?case
  proof (cases "data = [] \<or> e")
    case True
    then show ?thesis by (subst (1 2) scan_lines.simps) auto
  next
    case False
    then show ?thesis
      using 1 by (subst (1 2) scan_lines.simps) (auto split: option.splits intro: le_trans)
  qed
qed

text \<open>
  The outer loop, for a buffer of \<open>bufSize\<close> bytes (the program's is \<^verbatim>\<open>BUFFER_SIZE\<close>):
  \<open>file\<close> is what is left to read, \<open>left\<close> what was moved to the front.
\<close>

function filter_loop ::
  "nat \<Rightarrow> ('s \<Rightarrow> char list \<Rightarrow> 's) \<Rightarrow> char list \<Rightarrow> char list \<Rightarrow> 's \<Rightarrow> 's" where
  "filter_loop bufSize parse_line file left st =
     (let bytes = take (bufSize - length left - 1) file
      in if bytes = [] \<and> left = [] then st
         else (case scan_lines parse_line (bytes = []) st (left @ bytes) of
                 (st', left') \<Rightarrow>
                   filter_loop bufSize parse_line (drop (length bytes) file) left' st'))"
  by pat_completeness auto
termination
proof (relation "measure (\<lambda>(bufSize, p, file, left, st). 2 * length file + length left)", goal_cases)
  case 1
  show ?case by simp
next
  case (2 bufSize p rest left st bytes st' left')
  have "left' = snd (scan_lines p (bytes = []) st (left @ bytes))" using 2(3) by (metis snd_conv)
  then have l: "length left' \<le> length left + length bytes" "bytes = [] \<longrightarrow> left' = []"
    using scan_lines_rest [of p "bytes = []" st "left @ bytes"] by auto
  have b: "length bytes \<le> length rest" using 2(1) by simp
  show ?case
  proof (cases "bytes = []")
    case True
    with 2(2) l show ?thesis by (cases left) auto
  next
    case False
    then have "0 < length bytes" by (cases bytes) auto
    then have "2 * (length rest - length bytes) + length left' < 2 * length rest + length left"
      using l(1) b by linarith
    then show ?thesis by simp
  qed
qed

declare filter_loop.simps [simp del]

definition initial_state :: "'f \<Rightarrow> 'f filter_state" where
  "initial_state f = \<lparr>fs_filter = f, fs_ruleCount = 0, fs_nbLine = 0, fs_parseErrorCount = 0, fs_logged = []\<rparr>"

text \<open>
  The two text readers. A file that does not exist or cannot be opened is \<open>None\<close>. The
  bytes are those of a file opened in text mode.
\<close>

definition parseDATFilterFile :: "nat \<Rightarrow> 'f filter_env \<Rightarrow> 'f \<Rightarrow> char list option \<Rightarrow> 'f filter_state" where
  "parseDATFilterFile bufSize env f file =
     (case file of
        None \<Rightarrow> initial_state f
      | Some bytes \<Rightarrow> filter_loop bufSize (parse_dat_line env) bytes [] (initial_state f))"

definition parseP2PFilterFile :: "nat \<Rightarrow> 'f filter_env \<Rightarrow> 'f \<Rightarrow> char list option \<Rightarrow> 'f filter_state" where
  "parseP2PFilterFile bufSize env f file =
     (case file of
        None \<Rightarrow> initial_state f
      | Some bytes \<Rightarrow> filter_loop bufSize (parse_p2p_line env) bytes [] (initial_state f))"

section \<open>P2B: the binary format\<close>

text \<open>
  \<^verbatim>\<open>getlineInStream\<close>: the name, the number of bytes read (the delimiter included) and the
  rest of the stream.
\<close>

fun getlineInStream :: "char list \<Rightarrow> char \<Rightarrow> char list \<times> nat \<times> char list" where
  "getlineInStream [] delim = ([], 0, [])"
| "getlineInStream (c # cs) delim =
     (if c = delim then ([], 1, cs)
      else (case getlineInStream cs delim of (name, n, rest) \<Rightarrow> (c # name, n + 1, rest)))"

text \<open>
  \<^verbatim>\<open>stream.readRawData(&x, n)\<close> where \<open>x\<close> holds the bytes \<open>old\<close>: as many bytes as are
  left, up to \<open>n\<close>, replace the first bytes of \<open>x\<close>; the others keep what they were.
\<close>

definition readRawData :: "nat \<Rightarrow> char list \<Rightarrow> char list \<Rightarrow> nat \<times> char list \<times> char list" where
  "readRawData n old stream =
     (let got = take n stream
      in (length got, got @ drop (length got) old, drop n stream))"

definition ntohl :: "char list \<Rightarrow> 32 word" where
  "ntohl bs = of_nat (foldl (\<lambda>a b. 256 * a + of_char b) 0 bs)"

text \<open>The loop of versions 1 and 2; \<open>start\<close> and \<open>end\<close> live outside it.\<close>

lemma getline_rest: "getlineInStream s delim = (name, n, rest) \<Longrightarrow> length rest + n = length s"
  by (induction s arbitrary: name n rest) (auto split: if_splits prod.splits)

definition p2b_add ::
  "(32 word \<Rightarrow> 32 word \<Rightarrow> 'f \<Rightarrow> 'f option) \<Rightarrow> char list \<Rightarrow> char list \<Rightarrow> 'f \<times> nat \<Rightarrow> 'f \<times> nat" where
  "p2b_add add start fin acc =
     (case acc of (f, ruleCount) \<Rightarrow>
        (case add (ntohl start) (ntohl fin) f of
           None \<Rightarrow> (f, ruleCount)
         | Some f' \<Rightarrow> (f', ruleCount + 1)))"

function p2b_loop12 ::
  "(32 word \<Rightarrow> 32 word \<Rightarrow> 'f \<Rightarrow> 'f option) \<Rightarrow> (nat \<Rightarrow> bool) \<Rightarrow> nat \<Rightarrow>
     char list \<Rightarrow> char list \<Rightarrow> char list \<Rightarrow> 'f \<times> nat \<Rightarrow> 'f \<times> nat" where
  "p2b_loop12 add aborted i start fin stream acc =
     (case getlineInStream stream NUL of
        (name, n, stream1) \<Rightarrow>
          if n = 0 \<or> aborted i then acc
          else (case readRawData 4 start stream1 of
                  (n1, start1, stream2) \<Rightarrow>
                    if n1 = 0 then acc
                    else (case readRawData 4 fin stream2 of
                            (n2, fin1, stream3) \<Rightarrow>
                              if n2 = 0 then acc
                              else p2b_loop12 add aborted (i + 1) start1 fin1 stream3
                                     (p2b_add add start1 fin1 acc))))"
  by pat_completeness auto
termination
  by (relation "measure (\<lambda>(add, ab, i, s, e, stream, acc). length stream)")
     (auto simp: readRawData_def Let_def dest!: getline_rest [OF sym])

declare p2b_loop12.simps [simp del]

text \<open>Version 3: a table of names, then the ranges.\<close>

fun p2b_skip_names :: "(nat \<Rightarrow> bool) \<Rightarrow> nat \<Rightarrow> char list \<Rightarrow> char list option" where
  "p2b_skip_names aborted 0 stream = Some stream"
| "p2b_skip_names aborted (Suc k) stream =
     (case getlineInStream stream NUL of
        (name, n, stream1) \<Rightarrow>
          if n = 0 then None
          else if aborted k then None
          else p2b_skip_names aborted k stream1)"

fun p2b_loop3 ::
  "(32 word \<Rightarrow> 32 word \<Rightarrow> 'f \<Rightarrow> 'f option) \<Rightarrow> (nat \<Rightarrow> bool) \<Rightarrow> nat \<Rightarrow>
     char list \<Rightarrow> char list \<Rightarrow> char list \<Rightarrow> char list \<Rightarrow> 'f \<times> nat \<Rightarrow> 'f \<times> nat" where
  "p2b_loop3 add aborted 0 name start fin stream acc = acc"
| "p2b_loop3 add aborted (Suc k) name start fin stream acc =
     (case readRawData 4 name stream of
        (n0, name1, stream1) \<Rightarrow>
          if n0 = 0 then acc
          else (case readRawData 4 start stream1 of
                  (n1, start1, stream2) \<Rightarrow>
                    if n1 = 0 then acc
                    else (case readRawData 4 fin stream2 of
                            (n2, fin1, stream3) \<Rightarrow>
                              if n2 = 0 then acc
                              else
                                let acc' = p2b_add add start1 fin1 acc
                                in if aborted k then acc'
                                   else p2b_loop3 add aborted k name1 start1 fin1 stream3 acc')))"

text \<open>
  \<^verbatim>\<open>parseP2BFilterFile\<close> on the bytes of the file (\<open>None\<close> when it is missing or cannot be opened).
  \<open>junk\<close> is what uninitialised variables hold; \<open>aborted1\<close> and \<open>aborted2\<close> tell when the
  thread is asked to stop.
\<close>

definition p2b_magic :: "char list" where
  "p2b_magic = [CHR 0xFF, CHR 0xFF, CHR 0xFF, CHR 0xFF, CHR ''P'', CHR ''2'', CHR ''B'']"

definition parseP2BFilterFile ::
  "(32 word \<Rightarrow> 32 word \<Rightarrow> 'f \<Rightarrow> 'f option) \<Rightarrow> (nat \<Rightarrow> bool) \<Rightarrow> (nat \<Rightarrow> bool) \<Rightarrow> char list \<Rightarrow>
     'f \<Rightarrow> char list option \<Rightarrow> 'f \<times> nat" where
  "parseP2BFilterFile add aborted1 aborted2 junk f file =
     (case file of
        None \<Rightarrow> (f, 0)
      | Some stream \<Rightarrow>
          (case readRawData 7 (take 7 junk) stream of
             (n, buf, stream1) \<Rightarrow>
               if n = 0 \<or> buf \<noteq> p2b_magic then (f, 0)
               else (case readRawData 1 (take 1 junk) stream1 of
                       (nv, version, stream2) \<Rightarrow>
                         if nv = 0 then (f, 0)
                         else if version = [CHR 0x01] \<or> version = [CHR 0x02] then
                           p2b_loop12 add aborted1 0 (take 4 junk) (take 4 junk) stream2 (f, 0)
                         else if version = [CHR 0x03] then
                           (case readRawData 4 (take 4 junk) stream2 of
                              (nc, namecount, stream3) \<Rightarrow>
                                if nc = 0 then (f, 0)
                                else (case p2b_skip_names aborted1 (unat (ntohl namecount)) stream3 of
                                        None \<Rightarrow> (f, 0)
                                      | Some stream4 \<Rightarrow>
                                          (case readRawData 4 (take 4 junk) stream4 of
                                             (nr, rangecount, stream5) \<Rightarrow>
                                               if nr = 0 then (f, 0)
                                               else p2b_loop3 add aborted2 (unat (ntohl rangecount))
                                                      (take 4 junk) (take 4 junk) (take 4 junk)
                                                      stream5 (f, 0))))
                         else (f, 0))))"

section \<open>Choosing the format\<close>

datatype filter_format = FormatP2P | FormatP2B | FormatDAT | FormatUnknown

definition filter_format :: "qstring \<Rightarrow> filter_format" where
  "filter_format fileName =
     (if ends_with_ci fileName ''.p2p'' then FormatP2P
      else if ends_with_ci fileName ''.p2b'' then FormatP2B
      else if ends_with_ci fileName ''.dat'' then FormatDAT
      else FormatUnknown)"

section \<open>Lemmas on the block reader\<close>

definition file_lines :: "char list \<Rightarrow> char list list" where
  "file_lines bytes =
     (let ps = split_char (CHR 0x0A) bytes in if last ps = [] then butlast ps else ps)"

definition feed_line :: "('s \<Rightarrow> char list \<Rightarrow> 's) \<Rightarrow> 's \<Rightarrow> char list \<Rightarrow> 's" where
  "feed_line parse_line st l = parse_line st (l @ [NUL])"

lemma split_char_prefix:
  "split_char c (a @ b) = butlast (split_char c a) @ split_char c (last (split_char c a) @ b)"
proof (induction a)
  case Nil
  show ?case by simp
next
  case (Cons x a)
  show ?case
  proof (cases "split_char c a")
    case Nil
    then show ?thesis by simp
  next
    case (Cons p ps)
    note Cons' = Cons
    show ?thesis
    proof (cases ps)
      case Nil
      with Cons' Cons.IH show ?thesis by auto
    next
      case (Cons q qs)
      with Cons' Cons.IH show ?thesis by auto
    qed
  qed
qed

lemma last_split_char: "c \<notin> set (last (split_char c xs))"
  by (rule split_char_no_sep [of _ c xs]) simp

lemma split_char_index:
  "index_of c xs = Some i \<Longrightarrow> split_char c xs = take i xs # split_char c (drop (i + 1) xs)"
proof -
  assume i: "index_of c xs = Some i"
  then have "c \<notin> set (take i xs)" "xs = take i xs @ c # drop (i + 1) xs"
    using index_of_Some [OF i] id_take_nth_drop [of i xs] by auto
  then show ?thesis using split_char_append [of c "take i xs" "drop (i + 1) xs"] by metis
qed

lemma scan_lines_spec:
  "scan_lines parse_line False st data =
     (foldl (feed_line parse_line) st (butlast (split_char (CHR 0x0A) data)), last (split_char (CHR 0x0A) data))"
proof (induction parse_line False st data rule: scan_lines.induct)
  case (1 p st data)
  show ?case
  proof (cases "index_of (CHR 0x0A) data")
    case None
    then have "split_char (CHR 0x0A) data = [data]" by (simp add: split_char_id)
    moreover have "scan_lines p False st data = (st, data)"
      by (subst scan_lines.simps) (simp only: None option.case if_False, simp)
    ultimately show ?thesis by simp
  next
    case (Some i)
    then have "data \<noteq> []" by auto
    moreover note split_char_index [OF Some]
    ultimately show ?thesis
      using 1 [OF _ _ Some] Some by (subst scan_lines.simps) (simp add: feed_line_def)
  qed
qed

lemma split_char_head:
  "c \<notin> set a \<Longrightarrow> \<exists>p ps. split_char c (a @ b) = (a @ p) # ps"
proof (induction a)
  case Nil
  obtain p ps where "split_char c b = p # ps" using split_char_not_Nil [of c b] by (cases "split_char c b") auto
  then show ?case by auto
next
  case (Cons x a)
  then show ?case by auto
qed

lemma filter_loop_lines:
  assumes "\<forall>p \<in> set (split_char (CHR 0x0A) (left @ rest)). length p + 2 \<le> bufSize"
    and "CHR 0x0A \<notin> set left"
  shows "filter_loop bufSize parse_line rest left st
       = foldl (feed_line parse_line) st (file_lines (left @ rest))"
  using assms
proof (induction bufSize parse_line rest left st rule: filter_loop.induct)
  case (1 bs pl rest left st)
  let ?b = "take (bs - length left - 1) rest"
  obtain p ps where "split_char (CHR 0x0A) (left @ rest) = (left @ p) # ps"
    using split_char_head [OF 1(3), of rest] by auto
  then have room: "length left + 2 \<le> bs" using 1(2) by simp
  show ?case
  proof (cases "?b = []")
    case True
    then have r: "rest = []" using room by (cases rest) auto
    show ?thesis
    proof (cases "left = []")
      case True
      with r show ?thesis by (simp add: filter_loop.simps file_lines_def)
    next
      case False
      have "filter_loop bs pl [] [] (feed_line pl st left) = feed_line pl st left"
        by (simp add: filter_loop.simps)
      with False r show ?thesis using split_char_id [OF 1(3)]
        by (subst filter_loop.simps) (simp add: scan_lines.simps feed_line_def file_lines_def)
    qed
  next
    case False
    let ?ps = "split_char (CHR 0x0A) (left @ ?b)"
    let ?rest = "drop (length ?b) rest"
    let ?st = "foldl (feed_line pl) st (butlast ?ps)"
    have scan: "scan_lines pl (?b = []) st (left @ ?b) = (?st, last ?ps)"
      using False by (simp add: scan_lines_spec)
    have parts: "split_char (CHR 0x0A) (left @ rest) = butlast ?ps @ split_char (CHR 0x0A) (last ?ps @ ?rest)"
    proof -
      have "?b @ ?rest = rest" by (simp add: min_def)
      then show ?thesis using split_char_prefix [of "CHR 0x0A" "left @ ?b" ?rest] by (simp only: append_assoc)
    qed
    have "filter_loop bs pl ?rest (last ?ps) ?st
        = foldl (feed_line pl) ?st (file_lines (last ?ps @ ?rest))"
      using 1(2) parts False
      by (intro 1(1) [OF refl _ scan [symmetric] _ last_split_char]) auto
    moreover have "filter_loop bs pl rest left st = filter_loop bs pl ?rest (last ?ps) ?st"
      using False by (subst filter_loop.simps) (simp add: scan_lines_spec Let_def)
    moreover have "file_lines (left @ rest) = butlast ?ps @ file_lines (last ?ps @ ?rest)"
      unfolding file_lines_def parts by (simp add: Let_def butlast_append)
    ultimately show ?thesis by simp
  qed
qed

text \<open>
  C29. The block reader is invisible: for both text formats, whatever the size of the buffer, a file whose lines fit into it
  is parsed as the sequence of its lines, each exactly once and in order, with or without a
  final newline, however block boundaries cut the lines.
\<close>

theorem filter_blocks_invisible:
  assumes "\<forall>p \<in> set (split_char (CHR 0x0A) bytes). length p + 2 \<le> bufSize"
  shows "parseDATFilterFile bufSize env f (Some bytes)
         = foldl (feed_line (parse_dat_line env)) (initial_state f) (file_lines bytes)
       \<and> parseP2PFilterFile bufSize env f (Some bytes)
         = foldl (feed_line (parse_p2p_line env)) (initial_state f) (file_lines bytes)"
  using assms filter_loop_lines [of "[]" bytes bufSize "parse_dat_line env"]
    filter_loop_lines [of "[]" bytes bufSize "parse_p2p_line env"]
  by (simp add: parseDATFilterFile_def parseP2PFilterFile_def)

section \<open>Lemmas on the quick address parser\<close>

definition is_octet :: "char list \<Rightarrow> bool" where
  "is_octet ds \<longleftrightarrow> ds \<noteq> [] \<and> list_all is_digit ds \<and> digits_value ds \<le> 255"

lemma digit_value_nonneg: "is_digit c \<Longrightarrow> 0 \<le> digit_value c"
  by (simp add: is_digit_def digit_value_def)

lemma digits_value_nonneg: "list_all is_digit ds \<Longrightarrow> 0 \<le> digits_value ds"
proof (induction ds rule: rev_induct)
  case Nil
  show ?case by (simp add: digits_value_def)
next
  case (snoc d ds)
  then show ?case using digit_value_nonneg [of d] by (simp add: digits_value_def)
qed

lemma digit_not_special:
  "is_digit c \<Longrightarrow> \<not> c_isspace c \<and> c \<noteq> CHR ''+'' \<and> c \<noteq> CHR ''-'' \<and> c \<noteq> CHR ''.'' \<and> c \<noteq> NUL
     \<and> c \<noteq> CHR '','' \<and> c \<noteq> CHR '':'' \<and> c \<noteq> CHR ''#'' \<and> c \<noteq> CHR ''/''"
  by (auto simp: is_digit_def c_isspace_def)

lemma strtol_octet:
  assumes "is_octet ds" and "rest = [] \<or> \<not> is_digit (hd rest)"
  shows "strtol (ds @ rest) = (digits_value ds, length ds)"
proof -
  obtain d ds' where ds: "ds = d # ds'" and dig: "is_digit d"
    using assms(1) by (cases ds) (auto simp: is_octet_def)
  note sp = digit_not_special [OF dig]
  have tw: "takeWhile is_digit (ds @ rest) = ds"
    using assms by (cases rest) (auto simp: is_octet_def list_all_iff takeWhile_append)
  have b: "0 \<le> digits_value ds" "digits_value ds \<le> 255"
    using assms(1) digits_value_nonneg by (auto simp: is_octet_def)
  have "max LONG_MIN (min LONG_MAX (digits_value ds)) = digits_value ds"
    using b by (simp add: LONG_MIN_def LONG_MAX_def)
  with tw sp ds show ?thesis by (simp add: strtol_def Let_def)
qed

lemma tryParse_skip:
  assumes "CHR ''.'' \<notin> set oc"
  shows "tryParse_loop (pre @ oc @ rest) (length pre) st buf
       = tryParse_loop (pre @ oc @ rest) (length pre + length oc) st buf"
  using assms
proof (induction oc arbitrary: pre)
  case Nil
  show ?case by simp
next
  case (Cons c cs)
  have "tryParse_loop (pre @ (c # cs) @ rest) (length pre) st buf
      = tryParse_loop (pre @ (c # cs) @ rest) (Suc (length pre)) st buf"
    by (subst tryParse_loop.simps) (use Cons.prems in \<open>auto simp: nth_append\<close>)
  then show ?case using Cons.IH [of "pre @ [c]"] Cons.prems by simp
qed

lemma octet_no_dot: "is_octet oc \<Longrightarrow> CHR ''.'' \<notin> set oc"
  using digit_not_special by (auto simp: is_octet_def list_all_iff)

lemma tryParse_octet:
  assumes "is_octet oc" and "length buf < 3"
  shows "tryParse_loop (pre @ oc @ CHR ''.'' # rest) (length pre) (length pre) buf
       = tryParse_loop (pre @ oc @ CHR ''.'' # rest) (Suc (length pre + length oc)) (Suc (length pre + length oc))
           (buf @ [digits_value oc])"
proof -
  have "\<not> is_digit (CHR ''.'')" by (simp add: is_digit_def)
  then have "strtol (oc @ CHR ''.'' # rest) = (digits_value oc, length oc)"
    using assms(1) by (intro strtol_octet) auto
  moreover have "0 \<le> digits_value oc" "digits_value oc \<le> 255"
    using assms(1) digits_value_nonneg by (auto simp: is_octet_def)
  ultimately show ?thesis
    using assms(2) unfolding tryParse_skip [OF octet_no_dot [OF assms(1)]]
    by (subst tryParse_loop.simps) (simp add: nth_append Let_def)
qed

lemma tryParse_last:
  assumes "is_octet oc" and "length buf = 3"
  shows "tryParse_loop (pre @ oc) (length pre) (length pre) buf = Some (buf @ [digits_value oc])"
proof -
  have "strtol oc = (digits_value oc, length oc)" using strtol_octet [OF assms(1), of "[]"] by simp
  moreover have "0 \<le> digits_value oc" "digits_value oc \<le> 255" "oc \<noteq> []"
    using assms(1) digits_value_nonneg by (auto simp: is_octet_def)
  ultimately show ?thesis
    using assms(2) tryParse_skip [OF octet_no_dot [OF assms(1)], of pre "[]"]
    by (simp, subst tryParse_loop.simps) simp
qed

definition dotted :: "char list \<Rightarrow> char list \<Rightarrow> char list \<Rightarrow> char list \<Rightarrow> char list" where
  "dotted a b c d = a @ ''.'' @ b @ ''.'' @ c @ ''.'' @ d"

lemma tryParse_dotted:
  assumes "is_octet a" and "is_octet b" and "is_octet c" and "is_octet d"
  shows "tryParse (dotted a b c d) = Some (map digits_value [a, b, c, d])"
proof -
  let ?s = "dotted a b c d"
  have 1: "tryParse_loop ?s 0 0 [] = tryParse_loop ?s (Suc (length a)) (Suc (length a)) [digits_value a]"
    using tryParse_octet [OF assms(1), of "[]" "[]"] by (simp add: dotted_def)
  have 2: "tryParse_loop ?s (Suc (length a)) (Suc (length a)) [digits_value a]
      = tryParse_loop ?s (Suc (Suc (length a) + length b)) (Suc (Suc (length a) + length b))
          [digits_value a, digits_value b]"
    using tryParse_octet [OF assms(2), of "[digits_value a]" "a @ ''.''"] by (simp add: dotted_def)
  have 3: "tryParse_loop ?s (Suc (Suc (length a) + length b)) (Suc (Suc (length a) + length b))
          [digits_value a, digits_value b]
      = tryParse_loop ?s (Suc (Suc (Suc (length a) + length b) + length c))
          (Suc (Suc (Suc (length a) + length b) + length c))
          [digits_value a, digits_value b, digits_value c]"
    using tryParse_octet [OF assms(3), of "[digits_value a, digits_value b]" "a @ ''.'' @ b @ ''.''"]
    by (simp add: dotted_def)
  have "tryParse_loop ?s (Suc (Suc (Suc (length a) + length b) + length c))
          (Suc (Suc (Suc (length a) + length b) + length c))
          [digits_value a, digits_value b, digits_value c]
      = Some [digits_value a, digits_value b, digits_value c, digits_value d]"
    using tryParse_last [OF assms(4), of "[digits_value a, digits_value b, digits_value c]"
        "a @ ''.'' @ b @ ''.'' @ c @ ''.''"]
    by (simp add: dotted_def add.assoc)
  then show ?thesis unfolding tryParse_def 1 2 3 by simp
qed

section \<open>Lemmas on the line scanners\<close>

lemma find_forward_hit:
  assumes "d \<notin> set xs" and "int (length pre + length xs) \<le> hi"
  shows "find_forward (pre @ xs @ d # ys) d (int (length pre)) hi
       = (pre @ xs @ NUL # ys, int (length pre + length xs))"
  using assms
proof (induction xs arbitrary: pre)
  case Nil
  then show ?case by (subst find_forward.simps) (simp add: nth_append list_update_append)
next
  case (Cons x xs)
  have "find_forward (pre @ (x # xs) @ d # ys) d (int (length pre)) hi
      = find_forward (pre @ (x # xs) @ d # ys) d (int (length pre) + 1) hi"
    by (subst find_forward.simps) (use Cons.prems in \<open>auto simp: nth_append\<close>)
  then show ?case using Cons.IH [of "pre @ [x]"] Cons.prems by (simp add: add.commute)
qed

lemma find_backward_hit:
  assumes "d \<notin> set ys" and "lo \<le> int (length pre)"
  shows "find_backward (pre @ d # ys) d lo (int (length pre + length ys))
       = (pre @ NUL # ys, int (length pre))"
proof -
  have "find_backward (pre @ d # ys @ zs) d lo (int (length pre + length ys))
       = (pre @ NUL # ys @ zs, int (length pre))" for zs
    using assms(1)
  proof (induction ys arbitrary: zs rule: rev_induct)
    case Nil
    then show ?case using assms(2)
      by (subst find_backward.simps) (simp add: nth_append list_update_append)
  next
    case (snoc y ys)
    have "(pre @ d # (ys @ [y]) @ zs) ! (Suc (length pre + length ys)) = y"
      by (simp add: nth_append)
    then have "find_backward (pre @ d # (ys @ [y]) @ zs) d lo (int (length pre + length (ys @ [y])))
        = find_backward (pre @ d # (ys @ [y]) @ zs) d lo (int (length pre + length ys))"
      using snoc.prems assms(2) by (subst find_backward.simps) (auto simp: nat_add_distrib)
    then show ?case using snoc.IH [of "y # zs"] snoc.prems by simp
  qed
  from this [of "[]"] show ?thesis by simp
qed

definition is_word :: "char list \<Rightarrow> bool" where
  "is_word w \<longleftrightarrow> w \<noteq> [] \<and> list_all (\<lambda>c. \<not> c_isspace c \<and> c \<noteq> NUL) w"

lemma trim_forward_word:
  assumes "list_all c_isspace sp" and "w \<noteq> []" and "\<not> c_isspace (hd w)"
    and "int (length pre + length sp) \<le> fin"
  shows "trim_forward (pre @ sp @ w @ post) (int (length pre)) fin ns
       = (pre @ replicate (length sp) NUL @ w @ post, int (length pre + length sp))"
  using assms
proof (induction sp arbitrary: pre)
  case Nil
  then show ?case by (cases w) (auto simp: trim_forward.simps nth_append)
next
  case (Cons c sp)
  have "trim_forward (pre @ (c # sp) @ w @ post) (int (length pre)) fin ns
      = trim_forward ((pre @ [NUL]) @ sp @ w @ post) (int (length (pre @ [NUL]))) fin ns"
    by (subst trim_forward.simps) (use Cons.prems in \<open>auto simp: nth_append list_update_append add.commute\<close>)
  then show ?case using Cons.IH [of "pre @ [NUL]"] Cons.prems by simp
qed

lemma trim_backward_step:
  "c_isspace c \<Longrightarrow> start \<le> int (length xs) \<Longrightarrow>
     trim_backward (xs @ c # ys) start (int (length xs)) = trim_backward (xs @ NUL # ys) start (int (length xs) - 1)"
  by (subst trim_backward.simps) simp

lemma trim_backward_stop:
  "\<not> c_isspace c \<Longrightarrow> trim_backward (xs @ c # ys) start (int (length xs)) = xs @ c # ys"
  by (subst trim_backward.simps) simp

lemma trim_backward_word:
  assumes "list_all c_isspace sp" and "w \<noteq> []" and "\<not> c_isspace (last w)"
    and "start \<le> int (length pre)"
  shows "trim_backward (pre @ w @ sp @ post) start (int (length pre + length w + length sp) - 1)
       = pre @ w @ replicate (length sp) NUL @ post"
  using assms
proof (induction sp arbitrary: post rule: rev_induct)
  case Nil
  obtain u l where w: "w = u @ [l]" using assms(2) by (metis rev_exhaust)
  with Nil have "\<not> c_isspace l" by simp
  then show ?case using w trim_backward_stop [of l "pre @ u" post start] by simp
next
  case (snoc c sp)
  have "start \<le> int (length (pre @ w @ sp))" using snoc.prems by simp
  then have "trim_backward (pre @ w @ (sp @ [c]) @ post) start (int (length pre + length w + length (sp @ [c])) - 1)
      = trim_backward (pre @ w @ sp @ NUL # post) start (int (length pre + length w + length sp) - 1)"
    using snoc.prems trim_backward_step [of c start "pre @ w @ sp" post] by (simp add: add.assoc)
  then show ?case using snoc.IH [of "NUL # post"] snoc.prems
    by (simp add: replicate_append_same [symmetric])
qed

lemma is_word_ends: "is_word w \<Longrightarrow> w \<noteq> [] \<and> \<not> c_isspace (hd w) \<and> \<not> c_isspace (last w) \<and> NUL \<notin> set w"
  by (auto simp: is_word_def list_all_iff)

lemma trim_word:
  assumes "list_all c_isspace sp1" and "list_all c_isspace sp2"
    and w: "w \<noteq> []" "\<not> c_isspace (hd w)" "\<not> c_isspace (last w)"
  shows "trim (pre @ sp1 @ w @ sp2 @ post) (int (length pre))
           (int (length pre + length sp1 + length w + length sp2) - 1)
       = (pre @ replicate (length sp1) NUL @ w @ replicate (length sp2) NUL @ post,
          int (length pre + length sp1))"
proof (cases "length sp1 + length w + length sp2 = 1")
  case True
  moreover have "0 < length w" using w by (cases w) auto
  ultimately have "length sp1 = 0 \<and> length sp2 = 0 \<and> length w = 1" by linarith
  then show ?thesis by (simp add: trim_def)
next
  case False
  have pos: "0 < length w" using w by (cases w) auto
  with False have lt: "\<not> int (length pre) \<ge> int (length pre + length sp1 + length w + length sp2) - 1"
    and le: "int (length pre + length sp1) \<le> int (length pre + length sp1 + length w + length sp2) - 1"
    by linarith+
  have f: "trim_forward (pre @ sp1 @ w @ sp2 @ post) (int (length pre))
      (int (length pre + length sp1 + length w + length sp2) - 1) (int (length pre))
      = (pre @ replicate (length sp1) NUL @ w @ sp2 @ post, int (length pre + length sp1))"
    by (rule trim_forward_word [OF assms(1) w(1,2) le])
  have "trim_backward ((pre @ replicate (length sp1) NUL) @ w @ sp2 @ post) (int (length pre))
      (int (length (pre @ replicate (length sp1) NUL) + length w + length sp2) - 1)
      = (pre @ replicate (length sp1) NUL) @ w @ replicate (length sp2) NUL @ post"
    using w by (intro trim_backward_word [OF assms(2)]) auto
  with lt f show ?thesis by (simp add: trim_def)
qed

lemma cstr_word: "NUL \<notin> set w \<Longrightarrow> cstr (pre @ w @ NUL # post) (length pre) = w"
proof -
  assume "NUL \<notin> set w"
  then have "takeWhile (\<lambda>c. c \<noteq> NUL) (w @ NUL # post) = w @ takeWhile (\<lambda>c. c \<noteq> NUL) (NUL # post)"
    by (intro takeWhile_append2) auto
  then show ?thesis by (simp add: cstr_def)
qed

lemma cstr_word_gap:
  "NUL \<notin> set w \<Longrightarrow> cstr (pre @ w @ replicate k NUL @ NUL # post) (length pre) = w"
  using cstr_word [of w pre "replicate k NUL @ post"]
  by (cases k) (simp_all add: cstr_word)

text \<open>What a line amounts to once its two addresses are known.\<close>

definition range_outcome ::
  "'f filter_env \<Rightarrow> ip_address option \<Rightarrow> ip_address option \<Rightarrow> 'f filter_state \<Rightarrow> 'f filter_state" where
  "range_outcome env a b st =
     (case (a, b) of
        (Some x, Some y) \<Rightarrow>
          if is_v4 x \<noteq> is_v4 y then parse_error st
          else (case add_rule env x y (fs_filter st) of
                  None \<Rightarrow> parse_error st
                | Some f \<Rightarrow> st\<lparr>fs_filter := f, fs_ruleCount := fs_ruleCount st + 1\<rparr>)
      | _ \<Rightarrow> parse_error st)"

lemma add_range_words:
  assumes sp: "list_all c_isspace s1" "list_all c_isspace s2" "list_all c_isspace s3" "list_all c_isspace s4"
    and A: "is_word A" and W: "W \<noteq> []" "\<not> c_isspace (hd W)" "\<not> c_isspace (last W)"
    and frm: "i = int (length pre)"
    and delim: "delim = int (length pre + length s1 + length A + length s2)"
    and fin: "fin = delim + int (length s3 + length W + length s4)"
  shows "add_range env (pre @ s1 @ A @ s2 @ NUL # s3 @ W @ s4 @ post) i delim fin st
    = range_outcome env (parseIPAddress (make_address env) A)
        (parseIPAddress (make_address env) (takeWhile (\<lambda>c. c \<noteq> NUL) (W @ replicate (length s4) NUL @ post))) st"
proof -
  note a = is_word_ends [OF A]
  let ?pre1 = "pre @ replicate (length s1) NUL"
  let ?pre2 = "?pre1 @ A @ replicate (length s2) NUL @ [NUL]"
  have t1: "trim (pre @ s1 @ A @ s2 @ NUL # s3 @ W @ s4 @ post) i (delim - 1)
      = (?pre2 @ s3 @ W @ s4 @ post, int (length ?pre1))"
    using trim_word [OF sp(1,2), of A pre "NUL # s3 @ W @ s4 @ post"] a by (simp add: frm delim)
  have c1: "cstr (?pre2 @ s3 @ W @ s4 @ post) (nat (int (length ?pre1))) = A"
    using cstr_word_gap [of A ?pre1 "length s2" "s3 @ W @ s4 @ post"] conjunct2 [OF conjunct2 [OF conjunct2 [OF a]]]
    by (simp only: nat_int append_assoc append_Cons append_Nil not_False_eq_True True_implies_equals)
  have t2: "trim (?pre2 @ s3 @ W @ s4 @ post) (delim + 1) fin
      = (?pre2 @ replicate (length s3) NUL @ W @ replicate (length s4) NUL @ post,
         int (length ?pre2 + length s3))"
  proof -
    have "delim + 1 = int (length ?pre2)" "fin = int (length ?pre2 + length s3 + length W + length s4) - 1"
      by (simp_all add: delim fin)
    then show ?thesis by (simp only: trim_word [OF sp(3,4) W])
  qed
  have c2: "cstr (?pre2 @ replicate (length s3) NUL @ W @ replicate (length s4) NUL @ post)
        (nat (int (length ?pre2 + length s3)))
      = takeWhile (\<lambda>c. c \<noteq> NUL) (W @ replicate (length s4) NUL @ post)"
  proof -
    have "drop (length ?pre2 + length s3) (?pre2 @ replicate (length s3) NUL @ W @ replicate (length s4) NUL @ post)
        = W @ replicate (length s4) NUL @ post"
      by simp
    then show ?thesis by (simp only: cstr_def nat_int)
  qed
  show ?thesis
    by (simp only: add_range_def t1 t2 c1 c2 prod.case range_outcome_def)
qed

lemma spaces_no:
  "list_all c_isspace sp \<Longrightarrow> CHR '','' \<notin> set sp \<and> CHR ''-'' \<notin> set sp \<and> CHR '':'' \<notin> set sp \<and> NUL \<notin> set sp"
  by (induction sp) (simp_all add: c_isspace_def, blast)

lemma takeWhile_word: "NUL \<notin> set w \<Longrightarrow> takeWhile (\<lambda>c. c \<noteq> NUL) (w @ replicate k NUL @ NUL # post) = w"
  using cstr_word_gap [of w "[]" k post] by (simp add: cstr_def)

lemma not_comment:
  assumes "list_all c_isspace sp" and "w \<noteq> []" and "hd w \<noteq> CHR ''#''" and "hd w \<noteq> CHR ''/''"
  shows "\<not> is_comment (sp @ w @ rest)"
  using assms by (cases sp; cases w) (auto simp: is_comment_def c_isspace_def)

lemma parse_dat_line_words:
  assumes sp: "list_all c_isspace s1" "list_all c_isspace s2" "list_all c_isspace s3" "list_all c_isspace s4"
    and A: "is_word A" "CHR '','' \<notin> set A" "CHR ''-'' \<notin> set A" "hd A \<noteq> CHR ''#''" "hd A \<noteq> CHR ''/''"
    and B: "is_word B" "CHR '','' \<notin> set B"
    and acc: "CHR '','' \<notin> set acc" "NUL \<notin> set acc"
  shows "parse_dat_line env st (s1 @ A @ s2 @ CHR ''-'' # s3 @ B @ s4 @ CHR '','' # acc @ CHR '','' # txt @ [NUL]) =
    (if fst (strtol acc) > 127 then st\<lparr>fs_nbLine := fs_nbLine st + 1\<rparr>
     else range_outcome env (parseIPAddress (make_address env) A) (parseIPAddress (make_address env) B)
            (st\<lparr>fs_nbLine := fs_nbLine st + 1\<rparr>))"
proof -
  define pre where "pre = s1 @ A @ s2"
  define ips where "ips = pre @ CHR ''-'' # s3 @ B @ s4"
  define line where "line = ips @ CHR '','' # acc @ CHR '','' # txt @ [NUL]"
  have line: "s1 @ A @ s2 @ CHR ''-'' # s3 @ B @ s4 @ CHR '','' # acc @ CHR '','' # txt @ [NUL] = line"
    by (simp add: line_def ips_def pre_def)
  have nc: "\<not> is_comment line"
    unfolding line [symmetric] using is_word_ends [OF A(1)] by (intro not_comment [OF sp(1) _ A(4,5)]) auto
  have "CHR '','' \<notin> set ips" using sp A(2) B(2) spaces_no by (auto simp: ips_def pre_def)
  then have f1: "findAndNullDelimiter line (CHR '','') 0 (int (length line) - 1) False
      = (ips @ NUL # acc @ CHR '','' # txt @ [NUL], int (length ips))"
    using find_forward_hit [of "CHR '',''" ips "[]"] by (simp add: findAndNullDelimiter_def line_def)
  have f2: "findAndNullDelimiter (ips @ NUL # acc @ CHR '','' # txt @ [NUL]) (CHR '','') (int (length ips) + 1)
        (int (length line) - 1) False
      = (ips @ NUL # acc @ NUL # txt @ [NUL], int (length ips + 1 + length acc))"
    using find_forward_hit [OF acc(1), of "ips @ [NUL]"]
    by (simp add: findAndNullDelimiter_def line_def add.commute)
  have c: "cstr (ips @ NUL # acc @ NUL # txt @ [NUL]) (nat (int (length ips) + 1)) = acc"
    using cstr_word [OF acc(2), of "ips @ [NUL]"] by (simp add: nat_add_distrib)
  have "CHR ''-'' \<notin> set pre" using sp A(3) spaces_no by (auto simp: pre_def)
  then have f3: "findAndNullDelimiter (ips @ NUL # acc @ NUL # txt @ [NUL]) (CHR ''-'') 0 (int (length ips) - 1) False
      = (pre @ NUL # s3 @ B @ s4 @ NUL # acc @ NUL # txt @ [NUL], int (length pre))"
    using find_forward_hit [of "CHR ''-''" pre "[]" "int (length ips) - 1"]
    by (simp add: findAndNullDelimiter_def ips_def)
  have r: "add_range env (pre @ NUL # s3 @ B @ s4 @ NUL # acc @ NUL # txt @ [NUL]) 0 (int (length pre))
        (int (length ips) - 1) st'
      = range_outcome env (parseIPAddress (make_address env) A) (parseIPAddress (make_address env) B) st'" for st'
    using add_range_words [OF sp A(1), of B 0 "[]" "int (length pre)" "int (length ips) - 1" env
        "NUL # acc @ NUL # txt @ [NUL]" st'] is_word_ends [OF B(1)] takeWhile_word [of B]
    by (simp add: pre_def ips_def)
  show ?thesis unfolding line
    by (simp add: parse_dat_line_def Let_def nc f1 f2 f3 c r)
qed

lemma dotted_word:
  assumes "is_octet a" and "is_octet b" and "is_octet c" and "is_octet d"
  shows "is_word (dotted a b c d)" and "x \<in> {CHR '','', CHR ''-'', CHR '':''} \<Longrightarrow> x \<notin> set (dotted a b c d)"
    and "hd (dotted a b c d) \<noteq> CHR ''#''" and "hd (dotted a b c d) \<noteq> CHR ''/''"
proof -
  have all: "\<forall>x \<in> set (dotted a b c d). is_digit x \<or> x = CHR ''.''"
    using assms by (auto simp: dotted_def is_octet_def list_all_iff)
  have ne: "dotted a b c d \<noteq> []" using assms by (auto simp: dotted_def)
  have dot: "\<not> c_isspace (CHR ''.'')" by (simp add: c_isspace_def)
  show "is_word (dotted a b c d)"
    using all ne dot digit_not_special by (fastforce simp: is_word_def list_all_iff)
  show "x \<notin> set (dotted a b c d)" if "x \<in> {CHR '','', CHR ''-'', CHR '':''}"
    using all that digit_not_special by fastforce
  have "hd (dotted a b c d) \<in> set (dotted a b c d)" using ne by simp
  then have "is_digit (hd (dotted a b c d)) \<or> hd (dotted a b c d) = CHR ''.''" using all by blast
  then show "hd (dotted a b c d) \<noteq> CHR ''#''" "hd (dotted a b c d) \<noteq> CHR ''/''"
    using digit_not_special by auto
qed

definition quad :: "char list \<Rightarrow> char list \<Rightarrow> char list \<Rightarrow> char list \<Rightarrow> ip_address" where
  "quad a b c d = IPv4 (address_v4_of_bytes (map digits_value [a, b, c, d]))"

lemma parseIPAddress_dotted:
  "is_octet a \<Longrightarrow> is_octet b \<Longrightarrow> is_octet c \<Longrightarrow> is_octet d \<Longrightarrow>
     parseIPAddress mk (dotted a b c d) = Some (quad a b c d)"
  by (simp add: parseIPAddress_def tryParse_dotted quad_def)

text \<open>
  A DAT line with two dotted quads, however padded with blanks and with leading zeros in the octets, blocks
  exactly the range it names when its access level is at most 127, and is ignored when the level
  is higher; in both cases only the line counter changes besides.
\<close>

theorem parse_dat_line_correct:
  assumes "list_all c_isspace (s1 @ s2 @ s3 @ s4)"
    and "list_all is_octet [a, b, c, d, a', b', c', d']"
    and "CHR '','' \<notin> set acc" and "NUL \<notin> set acc"
    and "add_rule env (quad a b c d) (quad a' b' c' d') (fs_filter st) = Some f"
  shows "parse_dat_line env st
      (s1 @ dotted a b c d @ s2 @ ''-'' @ s3 @ dotted a' b' c' d' @ s4 @ '','' @ acc @ '','' @ txt @ [NUL]) =
    (if fst (strtol acc) > 127 then st\<lparr>fs_nbLine := fs_nbLine st + 1\<rparr>
     else st\<lparr>fs_nbLine := fs_nbLine st + 1, fs_filter := f, fs_ruleCount := fs_ruleCount st + 1\<rparr>)"
proof -
  have oct: "is_octet a" "is_octet b" "is_octet c" "is_octet d" "is_octet a'" "is_octet b'" "is_octet c'" "is_octet d'"
    using assms(2) by auto
  have "parse_dat_line env st
      (s1 @ dotted a b c d @ s2 @ CHR ''-'' # s3 @ dotted a' b' c' d' @ s4 @ CHR '','' # acc @ CHR '','' # txt @ [NUL]) =
    (if fst (strtol acc) > 127 then st\<lparr>fs_nbLine := fs_nbLine st + 1\<rparr>
     else range_outcome env (Some (quad a b c d)) (Some (quad a' b' c' d')) (st\<lparr>fs_nbLine := fs_nbLine st + 1\<rparr>))"
    using assms(1,3,4) dotted_word [OF oct(1-4)] dotted_word [OF oct(5-8)]
    by (subst parse_dat_line_words) (simp_all add: parseIPAddress_dotted oct)
  with assms(5) show ?thesis by (simp add: range_outcome_def quad_def)
qed

definition sample_filter_env :: "(ip_address \<times> ip_address) list filter_env" where
  "sample_filter_env = \<lparr>make_address = (\<lambda>s. None), add_rule = (\<lambda>a b f. Some (f @ [(a, b)]))\<rparr>"

theorem parse_dat_line_correct_witness:
  "parse_dat_line sample_filter_env (initial_state [])
     ([] @ dotted ''001'' ''009'' ''096'' ''105'' @ '' '' @ ''-'' @ '' '' @ dotted ''001'' ''009'' ''096'' ''200'' @ '' ''
       @ '','' @ '' 000 '' @ '','' @ '' Some organization'' @ [NUL]) =
   (initial_state [])\<lparr>fs_nbLine := 1,
       fs_filter := [(quad ''001'' ''009'' ''096'' ''105'', quad ''001'' ''009'' ''096'' ''200'')],
       fs_ruleCount := 1\<rparr>"
proof -
  have sp: "list_all c_isspace ([] @ '' '' @ '' '' @ '' '')" by (simp add: c_isspace_def)
  have oct: "list_all is_octet [''001'', ''009'', ''096'', ''105'', ''001'', ''009'', ''096'', ''200'']"
    by (simp add: is_octet_def is_digit_def digits_value_def digit_value_def)
  have acc: "CHR '','' \<notin> set '' 000 ''" "NUL \<notin> set '' 000 ''" by simp_all
  have add: "add_rule sample_filter_env (quad ''001'' ''009'' ''096'' ''105'') (quad ''001'' ''009'' ''096'' ''200'')
      (fs_filter (initial_state [])) = Some [(quad ''001'' ''009'' ''096'' ''105'', quad ''001'' ''009'' ''096'' ''200'')]"
    by (simp add: sample_filter_env_def initial_state_def)
  show ?thesis using parse_dat_line_correct [OF sp oct acc add, of "'' Some organization''"]
    by (simp add: strtol_def Let_def c_isspace_def is_digit_def digits_value_def digit_value_def
        LONG_MAX_def LONG_MIN_def initial_state_def del: append.simps)
qed

theorem filter_blocks_invisible_witness:
  "parseDATFilterFile 8 sample_filter_env [] (Some (''a-b'' @ [CHR 0x0A] @ ''#c'' @ [CHR 0x0A, CHR 0x0A] @ ''e''))
     = foldl (feed_line (parse_dat_line sample_filter_env)) (initial_state [])
         (file_lines (''a-b'' @ [CHR 0x0A] @ ''#c'' @ [CHR 0x0A, CHR 0x0A] @ ''e''))
   \<and> parseP2PFilterFile 8 sample_filter_env [] (Some (''a-b'' @ [CHR 0x0A] @ ''#c'' @ [CHR 0x0A, CHR 0x0A] @ ''e''))
     = foldl (feed_line (parse_p2p_line sample_filter_env)) (initial_state [])
         (file_lines (''a-b'' @ [CHR 0x0A] @ ''#c'' @ [CHR 0x0A, CHR 0x0A] @ ''e''))"
  by (rule filter_blocks_invisible) simp

text \<open>
  A P2P line whose last colon separates a name (which may hold colons itself) from two dotted quads blocks exactly the range
  it names.
\<close>

theorem parse_p2p_line_correct:
  assumes "list_all c_isspace (s1 @ s2 @ s3)"
    and "list_all is_octet [a, b, c, d, a', b', c', d']"
    and "\<not> is_comment (name @ '':'' @ s1 @ dotted a b c d @ s2 @ ''-'' @ s3 @ dotted a' b' c' d' @ [NUL])"
    and "add_rule env (quad a b c d) (quad a' b' c' d') (fs_filter st) = Some f"
  shows "parse_p2p_line env st (name @ '':'' @ s1 @ dotted a b c d @ s2 @ ''-'' @ s3 @ dotted a' b' c' d' @ [NUL])
    = st\<lparr>fs_nbLine := fs_nbLine st + 1, fs_filter := f, fs_ruleCount := fs_ruleCount st + 1\<rparr>"
proof -
  have oct: "is_octet a" "is_octet b" "is_octet c" "is_octet d" "is_octet a'" "is_octet b'" "is_octet c'" "is_octet d'"
    using assms(2) by auto
  define A where "A = dotted a b c d"
  define B where "B = dotted a' b' c' d'"
  note wA = dotted_word [OF oct(1-4), folded A_def] and wB = dotted_word [OF oct(5-8), folded B_def]
  have sp: "list_all c_isspace s1" "list_all c_isspace s2" "list_all c_isspace s3" using assms(1) by auto
  define ips where "ips = s1 @ A @ s2 @ CHR ''-'' # s3 @ B @ [NUL]"
  let ?line = "name @ CHR '':'' # ips"
  have len: "int (length ?line) - 1 = int (length name + length ips)" by simp
  have "CHR '':'' \<notin> set ips" using sp spaces_no wA(2) wB(2) by (auto simp: ips_def)
  then have f1: "findAndNullDelimiter ?line (CHR '':'') 0 (int (length ?line) - 1) True
      = (name @ NUL # ips, int (length name))"
    using find_backward_hit [of "CHR '':''" ips 0 name] by (simp only: len findAndNullDelimiter_def) simp
  have "CHR ''-'' \<notin> set (s1 @ A @ s2)" using sp spaces_no wA(2) by auto
  then have f2: "findAndNullDelimiter (name @ NUL # ips) (CHR ''-'') (int (length name) + 1) (int (length ?line) - 1) False
      = ((name @ [NUL]) @ s1 @ A @ s2 @ NUL # s3 @ (B @ [NUL]) @ [] @ [],
         int (length (name @ [NUL]) + length s1 + length A + length s2))"
    using find_forward_hit [of "CHR ''-''" "s1 @ A @ s2" "name @ [NUL]" "int (length ?line) - 1" "s3 @ B @ [NUL]"]
    by (simp add: findAndNullDelimiter_def ips_def add.commute add.left_commute)
  have "\<not> c_isspace NUL" by (simp add: c_isspace_def)
  then have r: "add_range env ((name @ [NUL]) @ s1 @ A @ s2 @ NUL # s3 @ (B @ [NUL]) @ [] @ [])
        (int (length name) + 1) (int (length (name @ [NUL]) + length s1 + length A + length s2))
        (int (length ?line) - 1) st'
      = range_outcome env (Some (quad a b c d)) (Some (quad a' b' c' d')) st'" for st'
    using is_word_ends [OF wA(1)] is_word_ends [OF wB(1)] takeWhile_word [of B 0 "[]"]
    by (subst add_range_words [OF sp _ wA(1)])
       (simp_all add: ips_def A_def B_def parseIPAddress_dotted oct)
  show ?thesis
    using assms(3,4) f1 f2 r
    by (simp add: parse_p2p_line_def Let_def ips_def A_def B_def range_outcome_def quad_def)
qed

theorem parse_p2p_line_correct_witness:
  "parse_p2p_line sample_filter_env (initial_state [])
     (''a:b'' @ '':'' @ [] @ dotted ''1'' ''0'' ''0'' ''0'' @ '' '' @ ''-'' @ '' '' @ dotted ''1'' ''255'' ''255'' ''255'' @ [NUL])
   = (initial_state [])\<lparr>fs_nbLine := 1,
       fs_filter := [(quad ''1'' ''0'' ''0'' ''0'', quad ''1'' ''255'' ''255'' ''255'')], fs_ruleCount := 1\<rparr>"
proof -
  have sp: "list_all c_isspace ([] @ '' '' @ '' '')" by (simp add: c_isspace_def)
  have oct: "list_all is_octet [''1'', ''0'', ''0'', ''0'', ''1'', ''255'', ''255'', ''255'']"
    by (simp add: is_octet_def is_digit_def digits_value_def digit_value_def)
  have nc: "\<not> is_comment (''a:b'' @ '':'' @ [] @ dotted ''1'' ''0'' ''0'' ''0'' @ '' '' @ ''-'' @ '' ''
      @ dotted ''1'' ''255'' ''255'' ''255'' @ [NUL])"
    by (simp add: is_comment_def)
  have add: "add_rule sample_filter_env (quad ''1'' ''0'' ''0'' ''0'') (quad ''1'' ''255'' ''255'' ''255'')
      (fs_filter (initial_state [])) = Some [(quad ''1'' ''0'' ''0'' ''0'', quad ''1'' ''255'' ''255'' ''255'')]"
    by (simp add: sample_filter_env_def initial_state_def)
  show ?thesis using parse_p2p_line_correct [OF sp oct nc add]
    by (simp add: initial_state_def del: append.simps)
qed

section \<open>Lemmas on the binary format\<close>

text \<open>Writers for the two layouts of the format.\<close>

definition be32 :: "32 word \<Rightarrow> char list" where
  "be32 w = (let n = unat w in
     [char_of (n div 2 ^ 24), char_of (n div 2 ^ 16), char_of (n div 2 ^ 8), char_of n])"

definition p2b_entry :: "char list \<times> 32 word \<times> 32 word \<Rightarrow> char list" where
  "p2b_entry x = (case x of (name, a, b) \<Rightarrow> name @ [NUL] @ be32 a @ be32 b)"

definition p2b_range :: "32 word \<times> 32 word \<times> 32 word \<Rightarrow> char list" where
  "p2b_range x = (case x of (i, a, b) \<Rightarrow> be32 i @ be32 a @ be32 b)"

definition p2b_file12 :: "char \<Rightarrow> (char list \<times> 32 word \<times> 32 word) list \<Rightarrow> char list" where
  "p2b_file12 version entries =
     p2b_magic @ [version] @ concat (map p2b_entry entries)"

definition p2b_file3 :: "char list list \<Rightarrow> (32 word \<times> 32 word \<times> 32 word) list \<Rightarrow> char list" where
  "p2b_file3 names ranges =
     p2b_magic @ [CHR 0x03] @ be32 (of_nat (length names)) @ concat (map (\<lambda>n. n @ [NUL]) names)
       @ be32 (of_nat (length ranges)) @ concat (map p2b_range ranges)"

lemma length_be32 [simp]: "length (be32 w) = 4"
  by (simp add: be32_def Let_def)

lemma ntohl_be32 [simp]: "ntohl (be32 w) = w"
proof -
  let ?n = "unat w"
  have lt: "?n < 2 ^ 32" using unsigned_less [of w] by simp
  have d: "?n div 2 ^ 24 mod 256 = ?n div 2 ^ 24" using lt by (simp add: div_less_iff_less_mult)
  have "256 * (256 * (256 * (?n div 2 ^ 24) + ?n div 2 ^ 16 mod 256) + ?n div 2 ^ 8 mod 256) + ?n mod 256 = ?n"
  proof -
    have "?n div 2 ^ 16 = 256 * (?n div 2 ^ 24) + ?n div 2 ^ 16 mod 256"
      using mult_div_mod_eq [of 256 "?n div 2 ^ 16"] by (simp flip: div_mult2_eq)
    moreover have "?n div 2 ^ 8 = 256 * (?n div 2 ^ 16) + ?n div 2 ^ 8 mod 256"
      using mult_div_mod_eq [of 256 "?n div 2 ^ 8"] by (simp flip: div_mult2_eq)
    moreover have "?n = 256 * (?n div 2 ^ 8) + ?n mod 256" by simp
    ultimately show ?thesis by presburger
  qed
  then have "foldl (\<lambda>a b. 256 * a + of_char b) 0 (be32 w) = ?n"
    by (simp add: be32_def Let_def d [simplified])
  then show ?thesis by (simp add: ntohl_def)
qed

lemma readRawData_full: "length bs = n \<Longrightarrow> length old = n \<Longrightarrow> readRawData n old (bs @ rest) = (n, bs, rest)"
  by (simp add: readRawData_def Let_def)

lemma getline_name: "NUL \<notin> set name \<Longrightarrow> getlineInStream (name @ NUL # rest) NUL = (name, length name + 1, rest)"
  by (induction name) auto

lemma p2b_loop12_entries:
  assumes "\<forall>(name, a, b) \<in> set entries. NUL \<notin> set name" and "\<And>k. \<not> aborted k"
    and "length s = 4" and "length e = 4"
  shows "p2b_loop12 add aborted i s e (concat (map p2b_entry entries)) acc
    = fold (\<lambda>(name, a, b). p2b_add add (be32 a) (be32 b)) entries acc"
  using assms(1,3,4)
proof (induction entries arbitrary: i s e acc)
  case Nil
  then show ?case by (simp add: p2b_loop12.simps)
next
  case (Cons x xs)
  obtain name a b where x: "x = (name, a, b)" by (cases x)
  have "NUL \<notin> set name" using Cons.prems(1) x by simp
  then have g: "getlineInStream (p2b_entry x @ rest) NUL = (name, length name + 1, be32 a @ be32 b @ rest)" for rest
    using getline_name [of name "be32 a @ be32 b @ rest"] by (simp add: p2b_entry_def x)
  have IH: "p2b_loop12 add aborted (Suc i) (be32 a) (be32 b) (concat (map p2b_entry xs)) acc'
      = fold (\<lambda>(name, a, b). p2b_add add (be32 a) (be32 b)) xs acc'" for acc'
    using Cons.prems(1) by (intro Cons.IH) auto
  show ?case using Cons.prems
    by (subst p2b_loop12.simps) (simp add: g [unfolded x] readRawData_full IH x assms(2) [of i])
qed

lemma p2b_skip_names_all:
  assumes "\<forall>n \<in> set names. NUL \<notin> set n" and "\<And>k. \<not> aborted k"
  shows "p2b_skip_names aborted (length names) (concat (map (\<lambda>n. n @ [NUL]) names) @ rest) = Some rest"
  using assms(1) by (induction names) (simp_all add: getline_name assms(2))

lemma p2b_loop3_ranges:
  assumes "\<And>k. \<not> aborted k" and "length n = 4" and "length s = 4" and "length e = 4"
  shows "p2b_loop3 add aborted (length ranges) n s e (concat (map p2b_range ranges)) acc
    = fold (\<lambda>(i, a, b). p2b_add add (be32 a) (be32 b)) ranges acc"
  using assms(2-4)
proof (induction ranges arbitrary: n s e acc)
  case Nil
  then show ?case by simp
next
  case (Cons x xs)
  obtain i a b where x: "x = (i, a, b)" by (cases x)
  have IH: "p2b_loop3 add aborted (length xs) (be32 i) (be32 a) (be32 b) (concat (map p2b_range xs)) acc'
      = fold (\<lambda>(i, a, b). p2b_add add (be32 a) (be32 b)) xs acc'" for acc'
    by (rule Cons.IH) simp_all
  have "p2b_range x @ rest = be32 i @ be32 a @ be32 b @ rest" for rest by (simp add: p2b_range_def x)
  then show ?case using Cons.prems
    by (simp add: readRawData_full Let_def IH assms(1) [of "length xs"]) (simp add: x)
qed

lemma fold_p2b_add:
  assumes "\<And>x y g. add x y g = Some (g @ [(x, y)])"
  shows "fold (\<lambda>(u, a, b). p2b_add add (be32 a) (be32 b)) zs (f, n) = (f @ map snd zs, n + length zs)"
  using assms by (induction zs arbitrary: f n) (auto simp: p2b_add_def)

text \<open>
  The binary reader recovers what a writer of the format put in, for both layouts: every range, in order
  and in host byte order, with the number of rules added.
\<close>

theorem parseP2B_roundtrip:
  assumes "\<And>x y g. add x y g = Some (g @ [(x, y)])" and "\<And>k. \<not> aborted1 k" and "\<And>k. \<not> aborted2 k"
    and "7 \<le> length junk"
    and "\<forall>n \<in> set names. NUL \<notin> set n" and "length names < 2 ^ 32" and "length ranges < 2 ^ 32"
    and "\<forall>(name, a, b) \<in> set entries. NUL \<notin> set name" and "version \<in> {CHR 0x01, CHR 0x02}"
  shows "parseP2BFilterFile add aborted1 aborted2 junk [] (Some (p2b_file3 names ranges))
         = (map snd ranges, length ranges)
       \<and> parseP2BFilterFile add aborted1 aborted2 junk [] (Some (p2b_file12 version entries))
         = (map snd entries, length entries)"
proof -
  have m7: "readRawData 7 (take 7 junk) (p2b_magic @ rest) = (7, p2b_magic, rest)" for rest
    using assms(4) by (intro readRawData_full) (auto simp: p2b_magic_def)
  have m1: "readRawData (Suc 0) (take (Suc 0) junk) (v # rest) = (Suc 0, [v], rest)" for v rest
    using readRawData_full [of "[v]" "Suc 0" "take (Suc 0) junk" rest] assms(4) by simp
  have m4: "readRawData 4 (take 4 junk) (be32 w @ rest) = (4, be32 w, rest)" for w rest
    using assms(4) by (intro readRawData_full) auto
  have u: "unat (of_nat n :: 32 word) = n" if "n < 2 ^ 32" for n
    using that by (simp add: unsigned_of_nat take_bit_nat_eq_self)
  have j4: "length (take 4 junk) = 4" using assms(4) by simp
  have "fold (\<lambda>(i, a, b). p2b_add add (be32 a) (be32 b)) ranges ([], 0) = (map snd ranges, length ranges)"
    using fold_p2b_add [where zs = ranges and f = "[]" and n = 0, OF assms(1)] by simp
  then have 3: "parseP2BFilterFile add aborted1 aborted2 junk [] (Some (p2b_file3 names ranges))
      = (map snd ranges, length ranges)"
    using p2b_skip_names_all [of names aborted1, OF assms(5,2)]
      p2b_loop3_ranges [of aborted2 "take 4 junk" "take 4 junk" "take 4 junk" add ranges "([], 0)", OF assms(3) j4 j4 j4]
    by (simp add: parseP2BFilterFile_def p2b_file3_def m7 m1 m4 u [OF assms(6)] u [OF assms(7)])
  have "fold (\<lambda>(name, a, b). p2b_add add (be32 a) (be32 b)) entries ([], 0) = (map snd entries, length entries)"
    using fold_p2b_add [where zs = entries and f = "[]" and n = 0, OF assms(1)] by simp
  then have "parseP2BFilterFile add aborted1 aborted2 junk [] (Some (p2b_file12 version entries))
      = (map snd entries, length entries)"
    using p2b_loop12_entries [of entries aborted1 "take 4 junk" "take 4 junk" add 0 "([], 0)", OF assms(8,2) j4 j4] assms(9)
    by (simp add: parseP2BFilterFile_def p2b_file12_def m7 m1)
  with 3 show ?thesis by blast
qed

theorem parseP2B_roundtrip_witness:
  "parseP2BFilterFile (\<lambda>x y g. Some (g @ [(x, y)])) (\<lambda>k. False) (\<lambda>k. False) (replicate 7 NUL) []
       (Some (p2b_file3 [''org''] [(0, 0x01000000, 0x01FFFFFF)])) = ([(0x01000000, 0x01FFFFFF)], 1)
   \<and> parseP2BFilterFile (\<lambda>x y g. Some (g @ [(x, y)])) (\<lambda>k. False) (\<lambda>k. False) (replicate 7 NUL) []
       (Some (p2b_file12 (CHR 0x02) [(''org'', 7, 9)])) = ([(7, 9)], 1)"
  using parseP2B_roundtrip [of "\<lambda>x y g. Some (g @ [(x, y)])" "\<lambda>k. False" "\<lambda>k. False" "replicate 7 NUL"
      "[''org'']" "[(0, 0x01000000, 0x01FFFFFF)]" "[(''org'', 7, 9)]" "CHR 0x02"]
  by simp

end
