(* ===== verification/Tracker.thy ===== *)
theory Tracker
  imports Http_Connection Digest32 "HOL-Library.Multiset" "HOL-Library.Word"
begin

text \<open>
  The embedded tracker, \<^verbatim>\<open>src/src/base/bittorrent/tracker.cpp\<close>: a request handler whose state
  is the table of torrents, each with its peers and a cached count of seeders. Hash containers
  are dictionaries; the order in which they are iterated (and so the element their
  \<^verbatim>\<open>begin()\<close> names) is a parameter. Bencoding and the conversions of numbers and addresses are
  parameters too.
\<close>

section \<open>Data\<close>

text \<open>\<^verbatim>\<open>QHostAddress\<close>: null, an IPv4 or IPv6 address, or the any-address.\<close>

datatype host_address =
    NullAddress
  | IPv4Address "32 word"
  | IPv6Address "8 word list"
  | AnyAddress

record peer =
  peer_id :: qbytearray
  peer_port :: nat
  peer_isSeeder :: bool
  peer_address :: qbytearray
  peer_endpoint :: qbytearray

text \<open>\<^verbatim>\<open>lt::entry\<close>.\<close>

datatype entry =
    EInt int
  | EString qbytearray
  | EList "entry list"
  | EDict "(qbytearray \<times> entry) list"

record tracker_env =
  te_number :: "nat \<Rightarrow> qbytearray"
  te_toUShort :: "qbytearray \<Rightarrow> nat"
  te_toInt :: "qbytearray \<Rightarrow> int"
  te_parseHost :: "qstring \<Rightarrow> host_address"
  te_toIPv4 :: "host_address \<Rightarrow> 32 word option"
  te_hostString :: "host_address \<Rightarrow> qstring"
  te_order :: "qbytearray list \<Rightarrow> qbytearray list"
  te_bencode :: "entry \<Rightarrow> qbytearray"

definition MAX_TORRENTS :: nat where "MAX_TORRENTS = 10000"
definition MAX_PEERS_PER_TORRENT :: nat where "MAX_PEERS_PER_TORRENT = 200"
definition ANNOUNCE_INTERVAL :: int where "ANNOUNCE_INTERVAL = 1800"
definition PEER_ID_SIZE :: nat where "PEER_ID_SIZE = 20"

text \<open>A set of peers is keyed by what equality and hashing use, \<^verbatim>\<open>uniqueID()\<close>.\<close>

record torrent_stats =
  ts_seeders :: int
  ts_peers :: "(qbytearray, peer) qmap"

type_synonym torrents = "(qbytearray, torrent_stats) qmap"

record announce_request =
  ar_socketAddress :: host_address
  ar_claimedAddress :: qbytearray
  ar_torrentID :: qbytearray
  ar_event :: qstring
  ar_peer :: peer
  ar_numwant :: int
  ar_compact :: bool
  ar_noPeerId :: bool

text \<open>What an announce may throw.\<close>

datatype tracker_error = TrackerError qstring

section \<open>Peers\<close>

definition uniqueID :: "tracker_env \<Rightarrow> peer \<Rightarrow> qbytearray" where
  "uniqueID env p = peer_address p @ '':'' @ te_number env (peer_port p)"

definition empty_stats :: torrent_stats where
  "empty_stats = \<lparr>ts_seeders = 0, ts_peers = []\<rparr>"

text \<open>\<^verbatim>\<open>removePeer\<close>: whether a peer was removed, and the new table.\<close>

definition removePeer :: "tracker_env \<Rightarrow> peer \<Rightarrow> torrent_stats \<Rightarrow> bool \<times> torrent_stats" where
  "removePeer env p st =
     (case qmap_lookup (ts_peers st) (uniqueID env p) of
        None \<Rightarrow> (False, st)
      | Some found \<Rightarrow>
          (True, st\<lparr>ts_seeders := (if peer_isSeeder found then ts_seeders st - 1 else ts_seeders st),
                   ts_peers := qmap_remove (uniqueID env p) (ts_peers st)\<rparr>))"

text \<open>\<^verbatim>\<open>*peers.begin()\<close>.\<close>

definition first_peer :: "tracker_env \<Rightarrow> torrent_stats \<Rightarrow> peer option" where
  "first_peer env st =
     (case te_order env (map fst (ts_peers st)) of
        [] \<Rightarrow> None
      | k # ks \<Rightarrow> qmap_lookup (ts_peers st) k)"

definition setPeer :: "tracker_env \<Rightarrow> peer \<Rightarrow> torrent_stats \<Rightarrow> torrent_stats" where
  "setPeer env p st0 =
     (let st1 = (case removePeer env p st0 of
                   (True, st) \<Rightarrow> st
                 | (False, st) \<Rightarrow>
                     if length (ts_peers st) \<ge> MAX_PEERS_PER_TORRENT
                     then (case first_peer env st of
                             None \<Rightarrow> st
                           | Some old \<Rightarrow> snd (removePeer env old st))
                     else st);
          st2 = (if peer_isSeeder p then st1\<lparr>ts_seeders := ts_seeders st1 + 1\<rparr> else st1)
      in if qmap_contains (ts_peers st2) (uniqueID env p) then st2
         else st2\<lparr>ts_peers := qmap_insert (uniqueID env p) p (ts_peers st2)\<rparr>)"

section \<open>The announce request\<close>

definition toBigEndianByteArray :: "host_address \<Rightarrow> qbytearray" where
  "toBigEndianByteArray addr =
     (case addr of
        IPv4Address ipv4 \<Rightarrow>
          [char_of (unat (drop_bit 24 ipv4 AND 0xFF)), char_of (unat (drop_bit 16 ipv4 AND 0xFF)),
           char_of (unat (drop_bit 8 ipv4 AND 0xFF)), char_of (unat (ipv4 AND 0xFF))]
      | AnyAddress \<Rightarrow> replicate 4 (CHR 0x00)
      | IPv6Address bs \<Rightarrow> map (\<lambda>b. char_of (unat b)) bs
      | NullAddress \<Rightarrow> [])"

definition c_string :: "qbytearray \<Rightarrow> qbytearray" where
  "c_string s = takeWhile (\<lambda>c. c \<noteq> CHR 0x00) s"

definition parseAnnounce ::
  "tracker_env \<Rightarrow> host_address \<Rightarrow> (qstring \<rightharpoonup> qbytearray) \<Rightarrow> tracker_error + announce_request" where
  "parseAnnounce env clientAddress query =
     (let getv = (\<lambda>k. case query k of None \<Rightarrow> [] | Some v \<Rightarrow> v);
          claimedAddress = getv ''ip'';
          socketAddress = (case te_toIPv4 env clientAddress of
                             Some a \<Rightarrow> IPv4Address a
                           | None \<Rightarrow> clientAddress)
      in case query ''info_hash'' of
           None \<Rightarrow> Inl (TrackerError ''Missing \"info_hash\" parameter'')
         | Some infoHash \<Rightarrow>
      (case digest_fromString 20 (to_hex infoHash) of
           None \<Rightarrow> Inl (TrackerError ''Invalid \"info_hash\" parameter'')
         | Some torrentID \<Rightarrow>
      (case query ''peer_id'' of
           None \<Rightarrow> Inl (TrackerError ''Missing \"peer_id\" parameter'')
         | Some peerId \<Rightarrow>
      if length peerId > PEER_ID_SIZE then Inl (TrackerError ''Invalid \"peer_id\" parameter'')
      else (case query ''port'' of
           None \<Rightarrow> Inl (TrackerError ''Missing \"port\" parameter'')
         | Some portText \<Rightarrow>
      (let portNum = te_toUShort env portText
      in if portNum = 0 then Inl (TrackerError ''Invalid \"port\" parameter'')
      else (let num = (case query ''numwant'' of None \<Rightarrow> 50 | Some n \<Rightarrow> te_toInt env n)
      in if num < 0 then Inl (TrackerError ''Invalid \"numwant\" parameter'')
      else (let claimedIPAddress = te_parseHost env claimedAddress;
                endpoint = toBigEndianByteArray
                             (if claimedIPAddress \<noteq> NullAddress then claimedIPAddress else socketAddress)
                           @ [char_of ((portNum div 256) mod 256), char_of (portNum mod 256)];
                address = c_string (if claimedAddress \<noteq> [] then claimedAddress
                                    else te_hostString env socketAddress)
      in Inr \<lparr>ar_socketAddress = socketAddress,
              ar_claimedAddress = claimedAddress,
              ar_torrentID = torrentID,
              ar_event = getv ''event'',
              ar_peer = \<lparr>peer_id = peerId, peer_port = portNum,
                         peer_isSeeder = (getv ''left'' = ''0''),
                         peer_address = address, peer_endpoint = endpoint\<rparr>,
              ar_numwant = num,
              ar_compact = (getv ''compact'' \<noteq> ''0''),
              ar_noPeerId = (getv ''no_peer_id'' = ''1'')\<rparr>)))))))"

section \<open>The torrent table\<close>

text \<open>\<^verbatim>\<open>m_torrents[id]\<close>: creates an entry when there is none.\<close>

definition torrent_at :: "qbytearray \<Rightarrow> torrents \<Rightarrow> torrent_stats \<times> torrents" where
  "torrent_at tid t = qmap_subscript tid empty_stats t"

definition registerPeer :: "tracker_env \<Rightarrow> announce_request \<Rightarrow> torrents \<Rightarrow> torrents" where
  "registerPeer env req t0 =
     (let t = (if \<not> qmap_contains t0 (ar_torrentID req) \<and> length t0 \<ge> MAX_TORRENTS
               then (case te_order env (map fst t0) of
                       [] \<Rightarrow> t0
                     | k # ks \<Rightarrow> qmap_remove k t0)
               else t0)
      in case torrent_at (ar_torrentID req) t of
           (st, t') \<Rightarrow> qmap_insert (ar_torrentID req) (setPeer env (ar_peer req) st) t')"

definition unregisterPeer :: "tracker_env \<Rightarrow> announce_request \<Rightarrow> torrents \<Rightarrow> torrents" where
  "unregisterPeer env req t =
     (case qmap_lookup t (ar_torrentID req) of
        None \<Rightarrow> t
      | Some st \<Rightarrow>
          let st' = snd (removePeer env (ar_peer req) st)
          in if ts_peers st' = [] then qmap_remove (ar_torrentID req) t
             else qmap_insert (ar_torrentID req) st' t)"

text \<open>The peers of a torrent in the order the set is iterated.\<close>

definition peers_in_order :: "tracker_env \<Rightarrow> torrent_stats \<Rightarrow> peer list" where
  "peers_in_order env st =
     List.map_filter (qmap_lookup (ts_peers st)) (te_order env (map fst (ts_peers st)))"

definition listed_peers :: "tracker_env \<Rightarrow> announce_request \<Rightarrow> torrent_stats \<Rightarrow> peer list" where
  "listed_peers env req st =
     (if ar_event req = ''stopped'' then []
      else take (nat (ar_numwant req)) (peers_in_order env st))"

definition peer_dict :: "announce_request \<Rightarrow> peer \<Rightarrow> entry" where
  "peer_dict req p =
     EDict ([(''ip'', EString (peer_address p))]
        @ (if \<not> ar_noPeerId req then [(''peer id'', EString (c_string (peer_id p)))] else [])
        @ [(''port'', EInt (int (peer_port p)))])"

definition reply_dict :: "tracker_env \<Rightarrow> announce_request \<Rightarrow> torrent_stats \<Rightarrow> (qbytearray, entry) qmap" where
  "reply_dict env req st =
     (let base = qmap_insert ''external ip'' (EString (toBigEndianByteArray (ar_socketAddress req)))
                (qmap_insert ''incomplete'' (EInt (int (length (ts_peers st)) - ts_seeders st))
                (qmap_insert ''complete'' (EInt (ts_seeders st))
                (qmap_insert ''interval'' (EInt ANNOUNCE_INTERVAL) [])));
          ps = listed_peers env req st
      in if ar_compact req then
           let peers = concat (map peer_endpoint (filter (\<lambda>p. length (peer_endpoint p) = 6) ps));
               peers6 = concat (map peer_endpoint (filter (\<lambda>p. length (peer_endpoint p) = 18) ps));
               r = qmap_insert ''peers'' (EString peers) base
           in if peers6 \<noteq> [] then qmap_insert ''peers6'' (EString peers6) r else r
         else qmap_insert ''peers'' (EList (map (peer_dict req) ps)) base)"

text \<open>\<^verbatim>\<open>prepareAnnounceResponse\<close>: the look-up of the torrent may create it.\<close>

definition prepareAnnounceResponse ::
  "tracker_env \<Rightarrow> announce_request \<Rightarrow> torrents \<Rightarrow> response \<Rightarrow> response \<times> torrents" where
  "prepareAnnounceResponse env req t resp =
     (case torrent_at (ar_torrentID req) t of
        (st, t') \<Rightarrow>
          (builder_print (te_bencode env (EDict (reply_dict env req st))) ''text/plain; charset=UTF-8'' resp, t'))"

definition processAnnounceRequest ::
  "tracker_env \<Rightarrow> host_address \<Rightarrow> request \<Rightarrow> torrents \<Rightarrow> response \<Rightarrow> (tracker_error + response) \<times> torrents" where
  "processAnnounceRequest env clientAddress req t resp =
     (case parseAnnounce env clientAddress (req_query req) of
        Inl err \<Rightarrow> (Inl err, t)
      | Inr ann \<Rightarrow>
          if ar_event ann \<in> {[], ''empty'', ''completed'', ''started'', ''paused''} then
            (case prepareAnnounceResponse env ann (registerPeer env ann t) resp of
               (r, t') \<Rightarrow> (Inr r, t'))
          else if ar_event ann = ''stopped'' then
            (case prepareAnnounceResponse env ann (unregisterPeer env ann t) resp of
               (r, t') \<Rightarrow> (Inr r, t'))
          else (Inl (TrackerError ''Invalid \"event\" parameter''), t))"

text \<open>The whole handler, with the two kinds of exceptions turned into responses.\<close>

definition http_error_response :: "http_error \<Rightarrow> response \<Rightarrow> response" where
  "http_error_response err resp = builder_status (fst (http_error_status err)) (snd (http_error_status err)) resp"

definition processRequest :: "tracker_env \<Rightarrow> host_address \<Rightarrow> torrents \<Rightarrow> request \<Rightarrow> response \<times> torrents" where
  "processRequest env clientAddress t req =
     (let resp = builder_status 200 ''OK'' (new_response 200 ''OK'')
      in if req_method req \<noteq> ''GET'' then
           (http_error_response (MethodNotAllowedHTTPError []) resp, t)
         else if \<not> starts_with_ci (req_path req) ''/announce'' then
           (http_error_response (NotFoundHTTPError []) resp, t)
         else (case processAnnounceRequest env clientAddress req t resp of
                 (Inr r, t') \<Rightarrow> (r, t')
               | (Inl (TrackerError m), t') \<Rightarrow>
                   (builder_print (te_bencode env (EDict [(''failure reason'', EString m)]))
                      ''text/plain; charset=UTF-8'' (builder_status 200 ''OK'' (builder_clear resp)), t')))"

section \<open>The invariant\<close>

text \<open>
  Per torrent: the peers are keyed by their own ID, at most \<open>MAX_PEERS_PER_TORRENT\<close> of them, and the
  cached count of seeders is the number of seeders among them.
\<close>

definition stats_inv :: "tracker_env \<Rightarrow> torrent_stats \<Rightarrow> bool" where
  "stats_inv env st \<longleftrightarrow>
     qmap_inv (ts_peers st) \<and> (\<forall>(k, p) \<in> set (ts_peers st). k = uniqueID env p)
     \<and> ts_seeders st = int (qmap_count peer_isSeeder (ts_peers st))
     \<and> length (ts_peers st) \<le> MAX_PEERS_PER_TORRENT"

definition tracker_inv :: "tracker_env \<Rightarrow> torrents \<Rightarrow> bool" where
  "tracker_inv env t \<longleftrightarrow> qmap_inv t \<and> (\<forall>(k, st) \<in> set t. stats_inv env st)"

text \<open>Iterating a hash container visits each of its elements once.\<close>

definition order_ok :: "tracker_env \<Rightarrow> bool" where
  "order_ok env \<longleftrightarrow> (\<forall>ks. mset (te_order env ks) = mset ks)"

lemma order_set: "order_ok env \<Longrightarrow> set (te_order env ks) = set ks"
  unfolding order_ok_def by (metis set_mset_mset)

lemma order_length: "order_ok env \<Longrightarrow> length (te_order env ks) = length ks"
  unfolding order_ok_def by (metis size_mset)

lemma order_distinct: "order_ok env \<Longrightarrow> distinct (te_order env ks) = distinct ks"
  unfolding order_ok_def by (metis mset_eq_imp_distinct_iff)

lemma stats_inv_empty [simp]: "stats_inv env empty_stats"
  by (simp add: stats_inv_def empty_stats_def qmap_count_def MAX_PEERS_PER_TORRENT_def)

lemma removePeer_absent:
  "fst (removePeer env p st) = False \<Longrightarrow>
     removePeer env p st = (False, st) \<and> qmap_lookup (ts_peers st) (uniqueID env p) = None"
  by (auto simp: removePeer_def split: option.splits)

lemma removePeer_peers: "ts_peers (snd (removePeer env p st)) = qmap_remove (uniqueID env p) (ts_peers st)"
  by (auto simp: removePeer_def qmap_remove_id split: option.splits)

lemma removePeer_inv:
  assumes "stats_inv env st"
  shows "stats_inv env (snd (removePeer env p st))"
proof (cases "qmap_lookup (ts_peers st) (uniqueID env p)")
  case None
  with assms show ?thesis by (simp add: removePeer_def)
next
  case (Some found)
  let ?m = "qmap_remove (uniqueID env p) (ts_peers st)"
  have m: "qmap_inv (ts_peers st)" using assms by (simp add: stats_inv_def)
  have "qmap_count peer_isSeeder ?m + (if peer_isSeeder found then 1 else 0)
      = qmap_count peer_isSeeder (ts_peers st)"
    by (rule qmap_count_remove [OF m Some])
  moreover have "length ?m \<le> MAX_PEERS_PER_TORRENT"
    using length_qmap_remove [OF m Some] assms by (simp add: stats_inv_def)
  ultimately show ?thesis using assms Some
    by (auto simp: removePeer_def stats_inv_def set_qmap_remove split: if_splits)
qed

lemma removePeer_length:
  assumes "stats_inv env st" and "fst (removePeer env p st)"
  shows "length (ts_peers (snd (removePeer env p st))) < length (ts_peers st)"
proof -
  obtain found where "qmap_lookup (ts_peers st) (uniqueID env p) = Some found"
    using assms(2) by (auto simp: removePeer_def split: option.splits)
  then show ?thesis
    using length_qmap_remove [of "ts_peers st" "uniqueID env p" found] assms(1)
    by (simp add: removePeer_peers stats_inv_def)
qed

lemma first_peer_some:
  assumes "stats_inv env st" and "order_ok env" and "ts_peers st \<noteq> []"
  obtains p where "first_peer env st = Some p" and "qmap_lookup (ts_peers st) (uniqueID env p) = Some p"
proof -
  let ?ks = "te_order env (map fst (ts_peers st))"
  have set: "set ?ks = fst ` set (ts_peers st)" using order_set [OF assms(2)] by simp
  with assms(3) obtain k ks where k: "?ks = k # ks" by (cases ?ks) auto
  then have "k \<in> fst ` set (ts_peers st)" using set by auto
  then obtain p where p: "(k, p) \<in> set (ts_peers st)" by auto
  then have "qmap_lookup (ts_peers st) k = Some p" "k = uniqueID env p"
    using assms(1) by (auto simp: stats_inv_def qmap_lookup_set)
  with k that [of p] show ?thesis by (simp add: first_peer_def)
qed

text \<open>The table \<open>setPeer\<close> inserts into: without the peer, and with room for it.\<close>

definition room_for :: "tracker_env \<Rightarrow> peer \<Rightarrow> torrent_stats \<Rightarrow> torrent_stats" where
  "room_for env p st0 =
     (case removePeer env p st0 of
        (True, st) \<Rightarrow> st
      | (False, st) \<Rightarrow>
          if length (ts_peers st) \<ge> MAX_PEERS_PER_TORRENT
          then (case first_peer env st of None \<Rightarrow> st | Some old \<Rightarrow> snd (removePeer env old st))
          else st)"

lemma room_for_ok:
  assumes "stats_inv env st" and "order_ok env"
  shows "stats_inv env (room_for env p st)"
    and "qmap_lookup (ts_peers (room_for env p st)) (uniqueID env p) = None"
    and "length (ts_peers (room_for env p st)) < MAX_PEERS_PER_TORRENT"
proof -
  have "stats_inv env (room_for env p st)
    \<and> qmap_lookup (ts_peers (room_for env p st)) (uniqueID env p) = None
    \<and> length (ts_peers (room_for env p st)) < MAX_PEERS_PER_TORRENT"
  proof (cases "fst (removePeer env p st)")
    case True
    then obtain st' where st': "removePeer env p st = (True, st')" by (cases "removePeer env p st") auto
    then have "stats_inv env st'" "length (ts_peers st') < length (ts_peers st)"
      "ts_peers st' = qmap_remove (uniqueID env p) (ts_peers st)"
      using removePeer_inv [OF assms(1), of p] removePeer_length [OF assms(1) True]
        removePeer_peers [of env p st] by auto
    moreover have "length (ts_peers st) \<le> MAX_PEERS_PER_TORRENT" using assms(1) by (simp add: stats_inv_def)
    ultimately show ?thesis by (simp add: room_for_def st')
  next
    case False
    then have n: "removePeer env p st = (False, st)"
      "qmap_lookup (ts_peers st) (uniqueID env p) = None" using removePeer_absent by blast+
    show ?thesis
    proof (cases "length (ts_peers st) \<ge> MAX_PEERS_PER_TORRENT")
      case True
      then have "ts_peers st \<noteq> []" by (auto simp: MAX_PEERS_PER_TORRENT_def)
      then obtain old where old: "first_peer env st = Some old"
          "qmap_lookup (ts_peers st) (uniqueID env old) = Some old"
        using first_peer_some [OF assms] by blast
      then have rm: "fst (removePeer env old st)" by (simp add: removePeer_def)
      have "length (ts_peers (snd (removePeer env old st))) < MAX_PEERS_PER_TORRENT"
        using removePeer_length [OF assms(1) rm] assms(1) by (simp add: stats_inv_def)
      then show ?thesis using n True old(1) removePeer_inv [OF assms(1)]
        by (simp add: room_for_def removePeer_peers)
    next
      case False
      with n assms(1) show ?thesis by (simp add: room_for_def)
    qed
  qed
  then show "stats_inv env (room_for env p st)"
    and "qmap_lookup (ts_peers (room_for env p st)) (uniqueID env p) = None"
    and "length (ts_peers (room_for env p st)) < MAX_PEERS_PER_TORRENT" by blast+
qed

lemma setPeer_eq:
  assumes "stats_inv env st" and "order_ok env"
  shows "setPeer env p st =
    \<lparr>ts_seeders = ts_seeders (room_for env p st) + (if peer_isSeeder p then 1 else 0),
     ts_peers = qmap_insert (uniqueID env p) p (ts_peers (room_for env p st))\<rparr>"
  using room_for_ok(2) [OF assms, of p]
  unfolding setPeer_def room_for_def [symmetric]
  by (simp add: Let_def qmap_contains_def)

lemma setPeer_inv:
  assumes "stats_inv env st" and "order_ok env"
  shows "stats_inv env (setPeer env p st)"
proof -
  note r = room_for_ok [OF assms, of p]
  have m: "qmap_inv (ts_peers (room_for env p st))" using r(1) by (simp add: stats_inv_def)
  show ?thesis
    using r m set_qmap_insert_sub [of "uniqueID env p" p "ts_peers (room_for env p st)"]
    unfolding setPeer_eq [OF assms]
    by (auto simp add: stats_inv_def qmap_count_insert length_qmap_insert)
qed

lemma setPeer_lookup:
  assumes "stats_inv env st" and "order_ok env"
  shows "qmap_lookup (ts_peers (setPeer env p st)) (uniqueID env p) = Some p"
  by (simp add: setPeer_eq [OF assms])

lemma setPeer_keeps:
  assumes "stats_inv env st" and "order_ok env" and "k \<noteq> uniqueID env p"
    and "qmap_contains (ts_peers st) (uniqueID env p) \<or> length (ts_peers st) < MAX_PEERS_PER_TORRENT"
  shows "qmap_lookup (ts_peers (setPeer env p st)) k = qmap_lookup (ts_peers st) k"
  using assms(3,4) unfolding setPeer_eq [OF assms(1,2)]
  by (auto simp: room_for_def removePeer_def qmap_contains_def split: option.splits)

section \<open>Every request keeps it\<close>

lemma tracker_inv_lookup: "tracker_inv env t \<Longrightarrow> qmap_lookup t k = Some st \<Longrightarrow> stats_inv env st"
  by (auto simp: tracker_inv_def dest: qmap_lookup_dom)

lemma tracker_inv_insert: "tracker_inv env t \<Longrightarrow> stats_inv env st \<Longrightarrow> tracker_inv env (qmap_insert k st t)"
  using set_qmap_insert_sub [of k st t] by (auto simp: tracker_inv_def)

lemma tracker_inv_remove: "tracker_inv env t \<Longrightarrow> tracker_inv env (qmap_remove k t)"
  by (auto simp: tracker_inv_def set_qmap_remove)

lemma torrent_at_inv:
  assumes "tracker_inv env t" and "torrent_at k t = (st, t')"
  shows "stats_inv env st" and "tracker_inv env t'"
proof -
  have "stats_inv env st \<and> tracker_inv env t'"
  proof (cases "qmap_lookup t k")
    case None
    then have "st = empty_stats" "t' = qmap_insert k empty_stats t"
      using assms(2) by (simp_all add: torrent_at_def qmap_subscript_def)
    then show ?thesis using assms(1) by (simp add: tracker_inv_insert)
  next
    case (Some st1)
    then have "st = st1" "t' = t" using assms(2) by (simp_all add: torrent_at_def qmap_subscript_def)
    then show ?thesis using assms(1) tracker_inv_lookup [OF assms(1) Some] by simp
  qed
  then show "stats_inv env st" "tracker_inv env t'" by blast+
qed

text \<open>The table after a possible eviction.\<close>

definition evicted :: "tracker_env \<Rightarrow> announce_request \<Rightarrow> torrents \<Rightarrow> torrents" where
  "evicted env req t0 =
     (if \<not> qmap_contains t0 (ar_torrentID req) \<and> length t0 \<ge> MAX_TORRENTS
      then (case te_order env (map fst t0) of [] \<Rightarrow> t0 | k # ks \<Rightarrow> qmap_remove k t0)
      else t0)"

lemma evicted_inv: "tracker_inv env t \<Longrightarrow> tracker_inv env (evicted env req t)"
  by (auto simp: evicted_def tracker_inv_remove split: list.split)

lemma evicted_lookup:
  "qmap_lookup (evicted env req t) j \<in> {qmap_lookup t j, None}"
  "qmap_contains t (ar_torrentID req) \<or> length t < MAX_TORRENTS \<Longrightarrow> evicted env req t = t"
  by (auto simp: evicted_def split: list.split)

lemma registerPeer_eq:
  "registerPeer env req t =
     (case torrent_at (ar_torrentID req) (evicted env req t) of
        (st, t') \<Rightarrow> qmap_insert (ar_torrentID req) (setPeer env (ar_peer req) st) t')"
  by (simp add: registerPeer_def evicted_def Let_def)

lemma registerPeer_inv:
  assumes "tracker_inv env t" and "order_ok env"
  shows "tracker_inv env (registerPeer env req t)"
proof -
  obtain st t' where at: "torrent_at (ar_torrentID req) (evicted env req t) = (st, t')"
    by (cases "torrent_at (ar_torrentID req) (evicted env req t)")
  show ?thesis unfolding registerPeer_eq at
    using torrent_at_inv [OF evicted_inv [OF assms(1)] at] assms(2)
    by (simp add: tracker_inv_insert setPeer_inv)
qed

lemma unregisterPeer_inv:
  assumes "tracker_inv env t"
  shows "tracker_inv env (unregisterPeer env req t)"
  using assms
  by (auto simp: unregisterPeer_def Let_def tracker_inv_remove
      intro!: tracker_inv_insert removePeer_inv dest: tracker_inv_lookup split: option.split)

lemma prepare_inv:
  "tracker_inv env t \<Longrightarrow> tracker_inv env (snd (prepareAnnounceResponse env req t resp))"
  using torrent_at_inv(2) by (fastforce simp: prepareAnnounceResponse_def split: prod.split)

lemma prepare_lookup:
  "qmap_lookup (snd (prepareAnnounceResponse env req t resp)) j =
     (if j = ar_torrentID req \<and> qmap_lookup t j = None then Some empty_stats else qmap_lookup t j)"
  by (auto simp: prepareAnnounceResponse_def torrent_at_def qmap_subscript_def split: option.split)

lemma process_table:
  assumes "processAnnounceRequest env client req t resp = (r, t')"
  shows "t' = t \<or> (\<exists>ann. t' = snd (prepareAnnounceResponse env ann (registerPeer env ann t) resp))
     \<or> (\<exists>ann. t' = snd (prepareAnnounceResponse env ann (unregisterPeer env ann t) resp))"
proof (cases "parseAnnounce env client (req_query req)")
  case (Inl err)
  with assms show ?thesis by (simp add: processAnnounceRequest_def)
next
  case (Inr ann)
  with assms show ?thesis
    by (auto simp: processAnnounceRequest_def split: if_splits prod.splits) (metis snd_conv)+
qed

lemma processRequest_inv:
  assumes "tracker_inv env t" and "order_ok env"
  shows "tracker_inv env (snd (processRequest env client t req))"
proof -
  let ?resp = "builder_status 200 ''OK'' (new_response 200 ''OK'')"
  obtain r t' where p: "processAnnounceRequest env client req t ?resp = (r, t')"
    by (cases "processAnnounceRequest env client req t ?resp")
  have "tracker_inv env t'"
    using process_table [OF p] assms
    by (auto simp: prepare_inv registerPeer_inv unregisterPeer_inv)
  with p assms(1) show ?thesis
    by (auto simp: processRequest_def Let_def split: sum.split tracker_error.split)
qed

interpretation tracker: invariant_handler "processRequest env client"
    "\<lambda>t. order_ok env \<longrightarrow> tracker_inv env t" for env client
  by unfold_locales (simp add: processRequest_inv)

text \<open>
  C6. Whatever bytes a client sends, in whatever segments, to a tracker listening on a connection, every torrent
  in the table keeps a seeder count equal to the number of its seeders, peers under their own IDs, each once,
  and no more of them than the limit.
\<close>

theorem tracker_stream_invariant:
  assumes "order_ok env" and "tracker_inv env (conn_handler c)"
  shows "tracker_inv env (conn_handler (fold (read_data q henv (processRequest env client)) segments c))"
  using tracker.read_stream_inv [of env c q henv client segments] assms by simp

definition sample_tracker_env :: tracker_env where
  "sample_tracker_env = \<lparr>te_number = (\<lambda>n. ''1''), te_toUShort = (\<lambda>s. length s), te_toInt = (\<lambda>s. int (length s)),
     te_parseHost = (\<lambda>s. NullAddress), te_toIPv4 = (\<lambda>h. None), te_hostString = (\<lambda>h. ''host''),
     te_order = (\<lambda>ks. ks), te_bencode = (\<lambda>e. ''d'')\<rparr>"

lemma sample_order_ok [simp]: "order_ok sample_tracker_env"
  by (simp add: order_ok_def sample_tracker_env_def)

lemma tracker_inv_Nil [simp]: "tracker_inv env []"
  by (simp add: tracker_inv_def)

theorem tracker_stream_invariant_witness:
  "tracker_inv sample_tracker_env (conn_handler
     (fold (read_data ascii_codec sample_env (processRequest sample_tracker_env NullAddress))
        [Some (print_get ''/announce'' [])]
        \<lparr>conn_receivedData = [], conn_open = True, conn_written = [], conn_handler = []\<rparr>))"
  by (rule tracker_stream_invariant) simp_all

section \<open>What an announce does\<close>

definition is_announce :: "tracker_env \<Rightarrow> host_address \<Rightarrow> request \<Rightarrow> announce_request \<Rightarrow> bool" where
  "is_announce env client req ann \<longleftrightarrow>
     req_method req = ''GET'' \<and> starts_with_ci (req_path req) ''/announce''
     \<and> parseAnnounce env client (req_query req) = Inr ann"

definition announce_events :: "qstring set" where
  "announce_events = {[], ''empty'', ''completed'', ''started'', ''paused''}"

lemma processRequest_register:
  assumes "is_announce env client req ann" and "ar_event ann \<in> announce_events"
  shows "processRequest env client t req
    = prepareAnnounceResponse env ann (registerPeer env ann t) (builder_status 200 ''OK'' (new_response 200 ''OK''))"
proof -
  have "processAnnounceRequest env client req t r
      = (case prepareAnnounceResponse env ann (registerPeer env ann t) r of (r', t') \<Rightarrow> (Inr r', t'))" for r
    using assms unfolding processAnnounceRequest_def is_announce_def announce_events_def
    by (simp only: sum.case if_True)
  with assms(1) show ?thesis
    by (simp add: processRequest_def is_announce_def Let_def split: prod.split)
qed

lemma processRequest_unregister:
  assumes "is_announce env client req ann" and "ar_event ann = ''stopped''"
  shows "processRequest env client t req
    = prepareAnnounceResponse env ann (unregisterPeer env ann t) (builder_status 200 ''OK'' (new_response 200 ''OK''))"
  using assms
  by (simp add: processRequest_def processAnnounceRequest_def is_announce_def Let_def split: prod.split)

text \<open>
  C8. A valid announce whose event is started, completed, paused, empty or missing - not stopped - puts the peer in
  its torrent exactly as announced. A torrent other than that one is either untouched or, only if a new torrent did not fit, the one that made room; and
  the other peers of the torrent are kept unless the torrent was full and the peer new.
\<close>

theorem announce_registers:
  assumes "is_announce env client req ann" and "ar_event ann \<in> announce_events"
    and "order_ok env" and "tracker_inv env t"
  shows "\<exists>st. qmap_lookup (snd (processRequest env client t req)) (ar_torrentID ann) = Some st
      \<and> qmap_lookup (ts_peers st) (uniqueID env (ar_peer ann)) = Some (ar_peer ann)
      \<and> (\<forall>j. j \<noteq> ar_torrentID ann \<longrightarrow>
           qmap_lookup (snd (processRequest env client t req)) j \<in> {qmap_lookup t j, None})
      \<and> (qmap_contains t (ar_torrentID ann) \<or> length t < MAX_TORRENTS \<longrightarrow>
           (\<forall>j. j \<noteq> ar_torrentID ann \<longrightarrow>
              qmap_lookup (snd (processRequest env client t req)) j = qmap_lookup t j))
      \<and> (\<forall>old. qmap_lookup t (ar_torrentID ann) = Some old
              \<and> (qmap_contains (ts_peers old) (uniqueID env (ar_peer ann))
                  \<or> length (ts_peers old) < MAX_PEERS_PER_TORRENT) \<longrightarrow>
           (\<forall>k. k \<noteq> uniqueID env (ar_peer ann) \<longrightarrow>
              qmap_lookup (ts_peers st) k = qmap_lookup (ts_peers old) k))"
proof -
  let ?id = "ar_torrentID ann"
  obtain st0 t' where at: "torrent_at ?id (evicted env ann t) = (st0, t')"
    by (cases "torrent_at ?id (evicted env ann t)")
  note ev = evicted_inv [OF assms(4), of ann]
  have st0: "stats_inv env st0" using torrent_at_inv [OF ev at] by blast
  have t': "qmap_lookup t' j = (if j = ?id then Some st0 else qmap_lookup (evicted env ann t) j)" for j
    using qmap_subscript_lookup [OF at [unfolded torrent_at_def], of j] by simp
  have reg: "registerPeer env ann t = qmap_insert ?id (setPeer env (ar_peer ann) st0) t'"
    by (simp add: registerPeer_eq at)
  have res: "qmap_lookup (snd (processRequest env client t req)) j =
      (if j = ?id then Some (setPeer env (ar_peer ann) st0) else qmap_lookup (evicted env ann t) j)" for j
    by (simp add: processRequest_register [OF assms(1,2)] prepare_lookup reg t')
  have old: "st0 = old" if "qmap_lookup t ?id = Some old" for old
  proof -
    have "evicted env ann t = t" using that by (simp add: evicted_lookup(2) qmap_contains_def)
    with that at show ?thesis by (simp add: torrent_at_def qmap_subscript_def)
  qed
  show ?thesis
    using setPeer_lookup [OF st0 assms(3)] evicted_lookup [where env = env and req = ann and t = t] old
      setPeer_keeps [OF st0 assms(3)]
    by (intro exI [of _ "setPeer env (ar_peer ann) st0"]) (auto simp: res)
qed

definition sample_announce :: request where
  "sample_announce = empty_request\<lparr>req_method := ''GET'', req_path := ''/announce'',
     req_query := [''info_hash'' \<mapsto> replicate 20 (CHR ''h''), ''peer_id'' \<mapsto> ''me'', ''port'' \<mapsto> ''8'']\<rparr>"

definition sample_announced :: announce_request where
  "sample_announced = \<lparr>ar_socketAddress = NullAddress, ar_claimedAddress = [],
     ar_torrentID = replicate 20 (CHR ''h''), ar_event = [],
     ar_peer = \<lparr>peer_id = ''me'', peer_port = 1, peer_isSeeder = False, peer_address = ''host'',
                peer_endpoint = [CHR 0x00, CHR 0x01]\<rparr>,
     ar_numwant = 50, ar_compact = True, ar_noPeerId = False\<rparr>"

lemma sample_port: "char_of (0::nat) = CHR 0x00 \<and> char_of (Suc 0) = CHR 0x01"
  by code_simp

lemma sample_is_announce: "is_announce sample_tracker_env NullAddress sample_announce sample_announced"
proof -
  have q: "req_query sample_announce = [''info_hash'' \<mapsto> replicate 20 (CHR ''h''), ''peer_id'' \<mapsto> ''me'', ''port'' \<mapsto> ''8'']"
    by (simp add: sample_announce_def)
  have d: "digest_fromString 20 (to_hex (replicate 20 (CHR ''h''))) = Some (replicate 20 (CHR ''h''))"
    by (simp add: digest_of_hex)
  have p: "starts_with_ci (req_path sample_announce) ''/announce''" "req_method sample_announce = ''GET''"
    by (simp_all add: starts_with_ci_def sample_announce_def)
  show ?thesis
    unfolding is_announce_def parseAnnounce_def q Let_def
    by (simp add: p d sample_tracker_env_def sample_announced_def PEER_ID_SIZE_def
        toBigEndianByteArray_def c_string_def sample_port)
qed

theorem announce_registers_witness:
  "\<exists>st. qmap_lookup (snd (processRequest sample_tracker_env NullAddress [] sample_announce))
        (ar_torrentID sample_announced) = Some st
     \<and> qmap_lookup (ts_peers st) (uniqueID sample_tracker_env (ar_peer sample_announced))
        = Some (ar_peer sample_announced)"
  using announce_registers [OF sample_is_announce _ sample_order_ok tracker_inv_Nil]
  by (auto simp: sample_announced_def announce_events_def)

text \<open>
  An announce that stops a torrent the tracker does not know leaves an empty entry behind, and the
  table grows by one however large it is already: its limit is not enforced on this path.
\<close>

theorem stopped_unknown_grows:
  assumes "is_announce env client req ann" and "ar_event ann = ''stopped''"
    and "tracker_inv env t" and "qmap_lookup t (ar_torrentID ann) = None"
  shows "length (snd (processRequest env client t req)) = Suc (length t)
       \<and> qmap_lookup (snd (processRequest env client t req)) (ar_torrentID ann) = Some empty_stats"
proof -
  have "unregisterPeer env ann t = t" by (simp add: unregisterPeer_def assms(4))
  then have "snd (processRequest env client t req) = qmap_insert (ar_torrentID ann) empty_stats t"
    by (simp add: processRequest_unregister [OF assms(1,2)] prepareAnnounceResponse_def torrent_at_def
        qmap_subscript_def assms(4))
  moreover have "qmap_inv t" using assms(3) by (simp add: tracker_inv_def)
  ultimately show ?thesis using assms(4) by (simp add: length_qmap_insert)
qed

definition sample_stop :: request where
  "sample_stop = sample_announce\<lparr>req_query := (req_query sample_announce)(''event'' \<mapsto> ''stopped'')\<rparr>"

lemma sample_is_stop:
  "is_announce sample_tracker_env NullAddress sample_stop (sample_announced\<lparr>ar_event := ''stopped''\<rparr>)"
proof -
  have q: "req_query sample_stop = [''info_hash'' \<mapsto> replicate 20 (CHR ''h''), ''peer_id'' \<mapsto> ''me'',
      ''port'' \<mapsto> ''8'', ''event'' \<mapsto> ''stopped'']"
    by (simp add: sample_stop_def sample_announce_def)
  have d: "digest_fromString 20 (to_hex (replicate 20 (CHR ''h''))) = Some (replicate 20 (CHR ''h''))"
    by (simp add: digest_of_hex)
  have p: "starts_with_ci (req_path sample_stop) ''/announce''" "req_method sample_stop = ''GET''"
    by (simp_all add: starts_with_ci_def sample_stop_def sample_announce_def)
  show ?thesis
    unfolding is_announce_def parseAnnounce_def q Let_def
    by (simp add: p d sample_tracker_env_def sample_announced_def PEER_ID_SIZE_def
        toBigEndianByteArray_def c_string_def sample_port)
qed

theorem stopped_unknown_grows_witness:
  "length (snd (processRequest sample_tracker_env NullAddress [] sample_stop)) = 1
   \<and> qmap_lookup (snd (processRequest sample_tracker_env NullAddress [] sample_stop)) (replicate 20 (CHR ''h''))
      = Some empty_stats"
  using stopped_unknown_grows [OF sample_is_stop _ tracker_inv_Nil] by (simp add: sample_announced_def)

section \<open>What is reported\<close>

lemma map_filter_lookup:
  assumes "qmap_inv m" and "\<forall>(k, p) \<in> set m. k = f p" and "set ks \<subseteq> fst ` set m" and "distinct ks"
  shows "map f (List.map_filter (qmap_lookup m) ks) = ks
       \<and> set (List.map_filter (qmap_lookup m) ks) \<subseteq> snd ` set m"
  using assms(3,4)
proof (induction ks)
  case Nil
  show ?case by (simp add: map_filter_def)
next
  case (Cons k ks)
  then obtain p where p: "(k, p) \<in> set m" by auto
  then have "qmap_lookup m k = Some p" "f p = k" using assms(1,2) by (auto simp: qmap_lookup_set)
  then have "List.map_filter (qmap_lookup m) (k # ks) = p # List.map_filter (qmap_lookup m) ks"
    by (simp add: map_filter_simps)
  with Cons p \<open>f p = k\<close> show ?case by (auto intro: rev_image_eqI)
qed

lemma peers_in_order_keys:
  assumes "stats_inv env st" and "order_ok env"
  shows "map (uniqueID env) (peers_in_order env st) = te_order env (map fst (ts_peers st))"
    and "set (peers_in_order env st) \<subseteq> snd ` set (ts_peers st)"
proof -
  have m: "qmap_inv (ts_peers st)" and k: "\<forall>(k, p) \<in> set (ts_peers st). k = uniqueID env p"
    using assms(1) by (auto simp: stats_inv_def)
  have "distinct (map fst (ts_peers st))" using m by (simp add: qmap_inv_def strict_sorted_iff)
  then have d: "distinct (te_order env (map fst (ts_peers st)))" by (simp add: order_distinct [OF assms(2)])
  have "set (te_order env (map fst (ts_peers st))) \<subseteq> fst ` set (ts_peers st)"
    by (simp add: order_set [OF assms(2)])
  from map_filter_lookup [OF m k this d]
  show "map (uniqueID env) (peers_in_order env st) = te_order env (map fst (ts_peers st))"
    and "set (peers_in_order env st) \<subseteq> snd ` set (ts_peers st)"
    by (simp_all add: peers_in_order_def)
qed

lemma qmap_count_not: "qmap_count P m + qmap_count (\<lambda>v. \<not> P v) m = length m"
  using sum_length_filter_compl [of "\<lambda>(k, v). P v" m]
  by (simp add: qmap_count_def case_prod_unfold)

text \<open>
  What a reply lists: registered peers only, none twice, as many as there are or were asked for, and nobody when
  the client leaves. A compact reply has their endpoints one behind the other, those of six bytes under
  \<^verbatim>\<open>peers\<close> and those of eighteen, if any, under \<^verbatim>\<open>peers6\<close>; any other reply has a dictionary
  for each.
\<close>

definition endpoints :: "nat \<Rightarrow> peer list \<Rightarrow> qbytearray" where
  "endpoints n ps = concat (map peer_endpoint (filter (\<lambda>p. length (peer_endpoint p) = n) ps))"

definition tells_of :: "tracker_env \<Rightarrow> announce_request \<Rightarrow> torrent_stats \<Rightarrow> (qbytearray, entry) qmap \<Rightarrow> peer list \<Rightarrow> bool" where
  "tells_of env req st d ps \<longleftrightarrow>
     qmap_lookup d ''complete'' = Some (EInt (int (qmap_count peer_isSeeder (ts_peers st))))
     \<and> qmap_lookup d ''incomplete'' = Some (EInt (int (qmap_count (\<lambda>p. \<not> peer_isSeeder p) (ts_peers st))))
     \<and> set ps \<subseteq> snd ` set (ts_peers st) \<and> distinct (map (uniqueID env) ps)
     \<and> length ps = (if ar_event req = ''stopped'' then 0 else min (nat (ar_numwant req)) (length (ts_peers st)))
     \<and> (if ar_compact req
        then qmap_lookup d ''peers'' = Some (EString (endpoints 6 ps))
             \<and> qmap_lookup d ''peers6'' = (if endpoints 18 ps = [] then None else Some (EString (endpoints 18 ps)))
        else qmap_lookup d ''peers'' = Some (EList (map (peer_dict req) ps))
             \<and> qmap_lookup d ''peers6'' = None)"

lemma listed_truthful:
  assumes "stats_inv env st" and "order_ok env"
  shows "set (listed_peers env req st) \<subseteq> snd ` set (ts_peers st)"
    and "distinct (map (uniqueID env) (listed_peers env req st))"
    and "length (listed_peers env req st) =
        (if ar_event req = ''stopped'' then 0 else min (nat (ar_numwant req)) (length (ts_peers st)))"
proof -
  note pk = peers_in_order_keys [OF assms]
  have len: "length (peers_in_order env st) = length (ts_peers st)"
    using arg_cong [OF pk(1), of length] by (simp add: order_length [OF assms(2)])
  have "distinct (map fst (ts_peers st))"
    using assms(1) by (simp add: stats_inv_def qmap_inv_def strict_sorted_iff)
  then have "distinct (map (uniqueID env) (peers_in_order env st))"
    unfolding pk(1) by (simp add: order_distinct [OF assms(2)])
  then show "distinct (map (uniqueID env) (listed_peers env req st))"
    by (simp add: listed_peers_def flip: take_map)
  show "set (listed_peers env req st) \<subseteq> snd ` set (ts_peers st)"
    using pk(2) set_take_subset [of "nat (ar_numwant req)" "peers_in_order env st"]
    by (auto simp: listed_peers_def)
  show "length (listed_peers env req st) =
        (if ar_event req = ''stopped'' then 0 else min (nat (ar_numwant req)) (length (ts_peers st)))"
    using len by (simp add: listed_peers_def min.commute)
qed

lemma reply_dict_truthful:
  assumes "stats_inv env st" and "order_ok env"
  shows "tells_of env req st (reply_dict env req st) (listed_peers env req st)"
proof -
  have "ts_seeders st = int (qmap_count peer_isSeeder (ts_peers st))" using assms(1) by (simp add: stats_inv_def)
  moreover have "int (length (ts_peers st)) - int (qmap_count peer_isSeeder (ts_peers st))
      = int (qmap_count (\<lambda>p. \<not> peer_isSeeder p) (ts_peers st))"
    using qmap_count_not [of peer_isSeeder "ts_peers st"] by linarith
  ultimately show ?thesis
    using listed_truthful [OF assms, of req]
    by (auto simp: tells_of_def reply_dict_def Let_def endpoints_def)
qed

lemma prepare_truthful:
  assumes "tracker_inv env t" and "order_ok env" and "prepareAnnounceResponse env req t resp = (r, t')"
  shows "\<exists>st d ps. qmap_lookup t' (ar_torrentID req) = Some st \<and> tells_of env req st d ps
     \<and> r = builder_print (te_bencode env (EDict d)) ''text/plain; charset=UTF-8'' resp"
proof -
  obtain st t1 where at: "torrent_at (ar_torrentID req) t = (st, t1)" by fastforce
  have "stats_inv env st" using torrent_at_inv [OF assms(1) at] by blast
  then have "tells_of env req st (reply_dict env req st) (listed_peers env req st)"
    using assms(2) by (rule reply_dict_truthful)
  moreover have "qmap_lookup t1 (ar_torrentID req) = Some st"
    using qmap_subscript_lookup [OF at [unfolded torrent_at_def], of "ar_torrentID req"] by simp
  ultimately show ?thesis using assms(3) at by (auto simp: prepareAnnounceResponse_def)
qed

text \<open>
  C33. The reply to a valid announce tells the truth about the torrent as it is when the announce has been handled: it is
  the bencoded dictionary with the exact numbers of its seeders and of its other peers, and the peers it lists are
  registered, none twice, as many as there are or were asked for, and nobody when the client leaves.
\<close>

theorem reply_truthful:
  assumes "is_announce env client req ann" and "ar_event ann \<in> insert ''stopped'' announce_events"
    and "tracker_inv env t" and "order_ok env"
  shows "case processRequest env client t req of (r, t') \<Rightarrow>
     \<exists>st d ps. qmap_lookup t' (ar_torrentID ann) = Some st \<and> tells_of env ann st d ps
       \<and> r = builder_print (te_bencode env (EDict d)) ''text/plain; charset=UTF-8''
               (builder_status 200 ''OK'' (new_response 200 ''OK''))"
proof (cases "ar_event ann = ''stopped''")
  case True
  then show ?thesis
    using prepare_truthful [OF unregisterPeer_inv [OF assms(3)] assms(4)]
    by (simp add: processRequest_unregister [OF assms(1)] split: prod.split)
next
  case False
  then have "ar_event ann \<in> announce_events" using assms(2) by simp
  then show ?thesis
    using prepare_truthful [OF registerPeer_inv [OF assms(3,4)] assms(4)]
    by (simp add: processRequest_register [OF assms(1)] split: prod.split)
qed

theorem reply_truthful_witness:
  "case processRequest sample_tracker_env NullAddress [] sample_announce of (r, t') \<Rightarrow>
     \<exists>st d ps. qmap_lookup t' (ar_torrentID sample_announced) = Some st
       \<and> tells_of sample_tracker_env sample_announced st d ps
       \<and> r = builder_print (te_bencode sample_tracker_env (EDict d)) ''text/plain; charset=UTF-8''
               (builder_status 200 ''OK'' (new_response 200 ''OK''))"
  by (rule reply_truthful [OF sample_is_announce _ tracker_inv_Nil sample_order_ok])
    (simp add: sample_announced_def announce_events_def)

end
