(* ===== verification/Path.thy ===== *)
theory Path
  imports Prelude
begin

text \<open>
  \<^verbatim>\<open>src/src/base/path.cpp\<close> for a case-sensitive file system (the build for Linux): a path is the
  text it stores. \<^verbatim>\<open>QDir::cleanPath\<close> and the MIME database are parameters; of the former the
  theorems use that it leaves a path of plain components alone.
\<close>

section \<open>Paths\<close>

type_synonym path = qstring

abbreviation slash :: char where "slash \<equiv> CHR ''/''"

definition cleanPath :: "(qstring \<Rightarrow> qstring) \<Rightarrow> qstring \<Rightarrow> qstring" where
  "cleanPath qdirClean s =
     (if list_ex (\<lambda>c. c = slash \<or> c = CHR 0x5C) s then qdirClean s else s)"

definition path_of_string :: "(qstring \<Rightarrow> qstring) \<Rightarrow> qstring \<Rightarrow> path" where
  "path_of_string qdirClean s = cleanPath qdirClean s"

definition path_isEmpty :: "path \<Rightarrow> bool" where
  "path_isEmpty p \<longleftrightarrow> p = []"

definition path_isValid :: "path \<Rightarrow> bool" where
  "path_isValid p \<longleftrightarrow> \<not> path_isEmpty p \<and> \<not> list_ex (\<lambda>c. c = CHR 0x00) p"

definition path_isAbsolute :: "path \<Rightarrow> bool" where
  "path_isAbsolute p \<longleftrightarrow> (if prefix '':'' p then False else prefix [slash] p)"

definition path_isRelative :: "path \<Rightarrow> bool" where
  "path_isRelative p \<longleftrightarrow> (if prefix '':'' p then True else \<not> prefix [slash] p)"

definition rootItem :: "path \<Rightarrow> path" where
  "rootItem p =
     (case index_of slash p of
        None \<Rightarrow> p
      | Some slashIndex \<Rightarrow> if slashIndex = 0 then [slash] else take slashIndex p)"

definition parentPath :: "path \<Rightarrow> path" where
  "parentPath p =
     (case last_index_of slash p of
        None \<Rightarrow> []
      | Some slashIndex \<Rightarrow>
          if slashIndex = 0 then (if length p = 1 then [] else [slash])
          else take slashIndex p)"

definition filename :: "path \<Rightarrow> qstring" where
  "filename p = (case last_index_of slash p of None \<Rightarrow> p | Some slashIndex \<Rightarrow> drop (slashIndex + 1) p)"

text \<open>
  \<^verbatim>\<open>extension()\<close>: the MIME database's suffix, or else what follows the last dot, the last
  character not being considered (\<^verbatim>\<open>lastIndexOf('.', -2)\<close>).
\<close>

definition extension :: "(qstring \<Rightarrow> qstring) \<Rightarrow> path \<Rightarrow> qstring" where
  "extension suffixForFileName p =
     (let suf = suffixForFileName p
      in if suf \<noteq> [] then CHR ''.'' # suf
         else let name = filename p
              in (case last_index_of (CHR ''.'') (butlast name) of
                    None \<Rightarrow> []
                  | Some dotIndex \<Rightarrow> drop dotIndex name))"

definition hasExtension :: "path \<Rightarrow> qstring \<Rightarrow> bool" where
  "hasExtension p ext = ends_with_ci p ext"

definition hasAncestor :: "path \<Rightarrow> path \<Rightarrow> bool" where
  "hasAncestor p other =
     (if path_isEmpty other \<or> length p \<le> length other then False
      else p ! length other = slash \<and> prefix other p)"

definition removedExtension :: "(qstring \<Rightarrow> qstring) \<Rightarrow> path \<Rightarrow> path" where
  "removedExtension suffixForFileName p = take (length p - length (extension suffixForFileName p)) p"

definition removedExtension_of :: "path \<Rightarrow> qstring \<Rightarrow> path" where
  "removedExtension_of p ext = (if hasExtension p ext then take (length p - length ext) p else p)"

definition path_append :: "(qstring \<Rightarrow> qstring) \<Rightarrow> path \<Rightarrow> path \<Rightarrow> path" where
  "path_append qdirClean lhs rhs =
     (if path_isEmpty rhs then lhs
      else if path_isEmpty lhs then rhs
      else path_of_string qdirClean (lhs @ [slash] @ rhs))"

definition path_concat :: "(qstring \<Rightarrow> qstring) \<Rightarrow> path \<Rightarrow> qstring \<Rightarrow> path" where
  "path_concat qdirClean lhs rhs = path_of_string qdirClean (lhs @ rhs)"

section \<open>Common parts\<close>

text \<open>The loop of \<^verbatim>\<open>commonPath\<close>: how many components agree and how long they are together.\<close>

fun common_items :: "qstring list \<Rightarrow> qstring list \<Rightarrow> nat \<Rightarrow> nat \<Rightarrow> nat \<times> nat" where
  "common_items (l # ls) (r # rs) cnt len =
     (if l \<noteq> r then (cnt, len) else common_items ls rs (cnt + 1) (len + length l))"
| "common_items _ _ cnt len = (cnt, len)"

definition commonPath :: "path \<Rightarrow> path \<Rightarrow> path" where
  "commonPath left right =
     (if path_isEmpty left \<or> path_isEmpty right then []
      else (case common_items (split_char slash left) (split_char slash right) 0 0 of
              (commonItemsCount, commonPathSize) \<Rightarrow>
                take (if commonItemsCount > 0 then commonPathSize + (commonItemsCount - 1)
                      else commonPathSize) left))"

fun findRootFolder_loop :: "path \<Rightarrow> path list \<Rightarrow> path" where
  "findRootFolder_loop rootFolder [] = rootFolder"
| "findRootFolder_loop rootFolder (filePath # rest) =
     (let elements = split_char slash filePath
      in if length elements \<le> 1 then []
         else if rootFolder = [] then findRootFolder_loop (elements ! 0) rest
         else if rootFolder \<noteq> elements ! 0 then []
         else findRootFolder_loop rootFolder rest)"

definition findRootFolder :: "path list \<Rightarrow> path" where
  "findRootFolder filePaths = findRootFolder_loop [] filePaths"

definition stripRootFolder :: "path list \<Rightarrow> path list" where
  "stripRootFolder filePaths =
     (let commonRootFolder = findRootFolder filePaths
      in if path_isEmpty commonRootFolder then filePaths
         else map (drop (length commonRootFolder + 1)) filePaths)"

definition addRootFolder :: "(qstring \<Rightarrow> qstring) \<Rightarrow> path list \<Rightarrow> path \<Rightarrow> path list" where
  "addRootFolder qdirClean filePaths rootFolder = map (path_append qdirClean rootFolder) filePaths"

section \<open>Components\<close>

text \<open>A plain component, and the relative paths built of them.\<close>

definition plain_item :: "qstring \<Rightarrow> bool" where
  "plain_item c \<longleftrightarrow> c \<noteq> [] \<and> slash \<notin> set c \<and> c \<noteq> ''.'' \<and> c \<noteq> ''..'' \<and> CHR 0x5C \<notin> set c"

definition plain_path :: "path \<Rightarrow> bool" where
  "plain_path p \<longleftrightarrow> (\<exists>cs. cs \<noteq> [] \<and> list_all plain_item cs \<and> p = join [slash] cs)"

text \<open>What is assumed of \<^verbatim>\<open>QDir::cleanPath\<close>.\<close>

definition keeps_plain :: "(qstring \<Rightarrow> qstring) \<Rightarrow> bool" where
  "keeps_plain qdirClean \<longleftrightarrow> (\<forall>p. plain_path p \<longrightarrow> qdirClean p = p)"

lemma plain_no_slash: "list_all plain_item cs \<Longrightarrow> \<forall>p \<in> set cs. slash \<notin> set p"
  by (auto simp: list_all_iff plain_item_def)

lemma split_plain: "cs \<noteq> [] \<Longrightarrow> list_all plain_item cs \<Longrightarrow> split_char slash (join [slash] cs) = cs"
  by (rule split_char_join) (auto dest: plain_no_slash)

lemma join_not_Nil: "cs \<noteq> [] \<Longrightarrow> list_all plain_item cs \<Longrightarrow> join [slash] cs \<noteq> []"
  by (cases cs; cases "tl cs") (auto simp: plain_item_def)

lemma join_append:
  "as \<noteq> [] \<Longrightarrow> bs \<noteq> [] \<Longrightarrow> join sep (as @ bs) = join sep as @ sep @ join sep bs"
proof (induction as)
  case Nil
  then show ?case by simp
next
  case (Cons a as)
  then show ?case by (cases as) (auto simp: join_Cons)
qed

lemma path_append_plain:
  assumes "keeps_plain cl" and "as \<noteq> []" "list_all plain_item as" and "bs \<noteq> []" "list_all plain_item bs"
  shows "path_append cl (join [slash] as) (join [slash] bs) = join [slash] (as @ bs)"
proof -
  have j: "join [slash] as @ [slash] @ join [slash] bs = join [slash] (as @ bs)"
    by (simp only: join_append [OF assms(2,4)])
  have "plain_path (join [slash] (as @ bs))"
    unfolding plain_path_def using assms by (intro exI [of _ "as @ bs"]) auto
  then have "cl (join [slash] (as @ bs)) = join [slash] (as @ bs)" using assms(1) by (simp add: keeps_plain_def)
  then show ?thesis
    using join_not_Nil [OF assms(2,3)] join_not_Nil [OF assms(4,5)]
    by (simp only: path_append_def path_isEmpty_def if_False path_of_string_def j cleanPath_def)
       simp
qed

section \<open>Ancestors\<close>

lemma hasAncestor_iff: "hasAncestor p q \<longleftrightarrow> q \<noteq> [] \<and> (\<exists>r. p = q @ slash # r)"
proof
  assume h: "hasAncestor p q"
  then have q: "q \<noteq> []" "length q < length p" "p ! length q = slash" "prefix q p"
    by (auto simp: hasAncestor_def path_isEmpty_def split: if_splits)
  then obtain z where z: "p = q @ z" by (auto simp: prefix_def)
  with q(2,3) have "z = slash # tl z" by (cases z) auto
  with z q(1) show "q \<noteq> [] \<and> (\<exists>r. p = q @ slash # r)" by auto
next
  assume "q \<noteq> [] \<and> (\<exists>r. p = q @ slash # r)"
  then show "hasAncestor p q" by (auto simp: hasAncestor_def path_isEmpty_def)
qed

lemma hasAncestor_trans: "hasAncestor p q \<Longrightarrow> hasAncestor q r \<Longrightarrow> hasAncestor p r"
  by (auto simp: hasAncestor_iff)

lemma parent_filename:
  assumes "slash \<notin> set f"
  shows "filename (d @ slash # f) = f"
    and "d \<noteq> [] \<Longrightarrow> parentPath (d @ slash # f) = d"
  using last_index_of_append [OF assms, of d] by (simp_all add: filename_def parentPath_def)

lemma common_items_spec:
  "common_items ls rs n k =
     (n + length (longest_common_prefix ls rs), k + length (concat (longest_common_prefix ls rs)))"
  by (induction ls rs n k rule: common_items.induct) auto

lemma length_join: "cs \<noteq> [] \<Longrightarrow> length (join [c] cs) = length (concat cs) + (length cs - 1)"
proof (induction cs)
  case Nil
  then show ?case by simp
next
  case (Cons a cs)
  then show ?case by (cases cs) (auto simp: join_Cons)
qed

lemma take_join:
  "ps \<noteq> [] \<Longrightarrow> prefix ps cs \<Longrightarrow> take (length (join [c] ps)) (join [c] cs) = join [c] ps"
proof -
  assume ps: "ps \<noteq> []" and "prefix ps cs"
  then obtain qs where "cs = ps @ qs" by (auto simp: prefix_def)
  then show ?thesis by (cases "qs = []") (simp_all add: join_append [OF ps])
qed

text \<open>
  The common path of two relative paths consists of exactly the components they have in common from the
  start, and is empty when the first ones differ: never part of a component.
\<close>

theorem commonPath_components:
  assumes "as \<noteq> []" and "list_all plain_item as" and "bs \<noteq> []" and "list_all plain_item bs"
  shows "commonPath (join [slash] as) (join [slash] bs) = join [slash] (longest_common_prefix as bs)"
proof -
  let ?l = "longest_common_prefix as bs"
  have c: "commonPath (join [slash] as) (join [slash] bs)
      = take (if 0 < length ?l then length (concat ?l) + (length ?l - 1) else length (concat ?l)) (join [slash] as)"
    using join_not_Nil [OF assms(1,2)] join_not_Nil [OF assms(3,4)]
    by (simp add: commonPath_def path_isEmpty_def split_plain assms common_items_spec)
  show ?thesis
  proof (cases "?l = []")
    case True
    then show ?thesis by (simp add: c)
  next
    case False
    then have "length (concat ?l) + (length ?l - 1) = length (join [slash] ?l)"
      by (simp add: length_join)
    then show ?thesis using take_join [OF False longest_common_prefix_prefix1] False
      by (simp add: c)
  qed
qed

theorem commonPath_components_witness:
  "commonPath (join [slash] [''a'', ''bc'', ''d'']) (join [slash] [''a'', ''bcd''])
     = join [slash] (longest_common_prefix [''a'', ''bc'', ''d''] [''a'', ''bcd''])"
  by (rule commonPath_components) (simp_all add: plain_item_def)

lemma findRootFolder_added:
  assumes "plain_item r" and "\<forall>p \<in> set ps. plain_path p"
  shows "findRootFolder_loop r (map (\<lambda>p. r @ [slash] @ p) ps) = r"
  using assms(2)
proof (induction ps)
  case Nil
  show ?case by simp
next
  case (Cons p ps)
  have "slash \<notin> set r" "r \<noteq> []" using assms(1) by (auto simp: plain_item_def)
  then have "split_char slash (r @ [slash] @ p) = r # split_char slash p"
    using split_char_append [of slash r p] by simp
  moreover have "0 < length (split_char slash p)" by (cases "split_char slash p") auto
  ultimately show ?case using Cons \<open>r \<noteq> []\<close> by (simp del: append_Cons)
qed

text \<open>
  Putting files under a root folder is undone by stripping it: for a folder that is one plain component the
  files found afterwards have exactly that root folder, and stripping it gives back the
  list. Nothing is taken from a list whose files do not share it.
\<close>

theorem root_folder_roundtrip:
  assumes "keeps_plain cl" and "plain_item r" and "ps \<noteq> []" and "\<forall>p \<in> set ps. plain_path p"
  shows "findRootFolder (addRootFolder cl ps r) = r \<and> stripRootFolder (addRootFolder cl ps r) = ps"
proof -
  have add: "addRootFolder cl ps r = map (\<lambda>p. r @ [slash] @ p) ps"
    unfolding addRootFolder_def
  proof (rule map_cong [OF refl])
    fix p assume "p \<in> set ps"
    then obtain cs where cs: "cs \<noteq> []" "list_all plain_item cs" "p = join [slash] cs"
      using assms(4) by (auto simp: plain_path_def)
    then show "path_append cl r p = r @ [slash] @ p"
      using path_append_plain [OF assms(1), of "[r]" cs] assms(2) by (simp add: join_Cons)
  qed
  have r: "slash \<notin> set r" "r \<noteq> []" using assms(2) by (auto simp: plain_item_def)
  obtain p ps' where ps: "ps = p # ps'" using assms(3) by (cases ps) auto
  have "split_char slash (r @ [slash] @ p) = r # split_char slash p"
    using split_char_append [OF r(1), of p] by simp
  moreover have "0 < length (split_char slash p)" by (cases "split_char slash p") auto
  ultimately have f: "findRootFolder (addRootFolder cl ps r) = r"
    unfolding findRootFolder_def add
    using findRootFolder_added [OF assms(2), of ps'] assms(4) by (simp add: ps del: append_Cons)
  have "drop (length r + 1) (r @ [slash] @ p) = p" for p by simp
  then have "map (drop (length r + 1)) (map (\<lambda>p. r @ [slash] @ p) ps) = ps"
    by (simp add: o_def)
  with f r(2) show ?thesis by (simp only: stripRootFolder_def f Let_def path_isEmpty_def if_False add simp_thms)
qed

theorem root_folder_roundtrip_witness:
  "findRootFolder (addRootFolder (\<lambda>s. s) [''x'', ''y'' @ [slash] @ ''z''] ''top'') = ''top''
   \<and> stripRootFolder (addRootFolder (\<lambda>s. s) [''x'', ''y'' @ [slash] @ ''z''] ''top'') = [''x'', ''y'' @ [slash] @ ''z'']"
proof (rule root_folder_roundtrip)
  show "\<forall>p \<in> set [''x'', ''y'' @ [slash] @ ''z'']. plain_path p"
  proof -
    have "plain_path ''x''"
      unfolding plain_path_def by (rule exI [of _ "[''x'']"]) (simp add: plain_item_def)
    moreover have "plain_path (''y'' @ [slash] @ ''z'')"
      unfolding plain_path_def by (rule exI [of _ "[''y'', ''z'']"]) (simp add: plain_item_def)
    ultimately show ?thesis by simp
  qed
qed (simp_all add: keeps_plain_def plain_item_def)

end
