(* ===== verification/Monitors.thy ===== *)
theory Monitors
  imports Complex_Main Prelude
begin

text \<open>
  Three small components with a state that must stay consistent over long runs: the logger
  \<^verbatim>\<open>src/src/base/logger.cpp\<close>, the speed monitor
  \<^verbatim>\<open>src/src/base/bittorrent/speedmonitor.cpp\<close> and the bandwidth scheduler
  \<^verbatim>\<open>src/src/base/bittorrent/bandwidthscheduler.cpp\<close>. Counters and sums are unbounded integers
  (the code's are 32 and 64 bits wide and would overflow after two thousand million messages).
\<close>

section \<open>The bounded buffer\<close>

text \<open>\<^verbatim>\<open>boost::circular_buffer::push_back\<close>: a full buffer loses its first element.\<close>

definition ring_push :: "nat \<Rightarrow> 'a \<Rightarrow> 'a list \<Rightarrow> 'a list" where
  "ring_push capacity x xs =
     (if capacity = 0 then [] else if length xs < capacity then xs @ [x] else tl xs @ [x])"

section \<open>Logger\<close>

datatype msg_type = MsgALL | MsgNORMAL | MsgINFO | MsgWARNING | MsgCRITICAL

record log_msg =
  msg_id :: int
  msg_type_of :: msg_type
  msg_timestamp :: int
  msg_message :: qstring

record log_peer =
  lpeer_id :: int
  lpeer_blocked :: bool
  lpeer_timestamp :: int
  lpeer_ip :: qstring
  lpeer_reason :: qstring

record logger =
  log_messages :: "log_msg list"
  log_peers :: "log_peer list"
  log_msgCounter :: int
  log_peerCounter :: int

definition MAX_LOG_MESSAGES :: nat where "MAX_LOG_MESSAGES = 20000"

definition new_logger :: logger where
  "new_logger = \<lparr>log_messages = [], log_peers = [], log_msgCounter = 0, log_peerCounter = 0\<rparr>"

definition addMessage :: "int \<Rightarrow> qstring \<Rightarrow> msg_type \<Rightarrow> logger \<Rightarrow> logger" where
  "addMessage now message ty l =
     l\<lparr>log_msgCounter := log_msgCounter l + 1,
       log_messages := ring_push MAX_LOG_MESSAGES
         \<lparr>msg_id = log_msgCounter l, msg_type_of = ty, msg_timestamp = now, msg_message = message\<rparr>
         (log_messages l)\<rparr>"

definition addPeer :: "int \<Rightarrow> qstring \<Rightarrow> bool \<Rightarrow> qstring \<Rightarrow> logger \<Rightarrow> logger" where
  "addPeer now ip blocked reason l =
     l\<lparr>log_peerCounter := log_peerCounter l + 1,
       log_peers := ring_push MAX_LOG_MESSAGES
         \<lparr>lpeer_id = log_peerCounter l, lpeer_blocked = blocked, lpeer_timestamp = now,
          lpeer_ip = ip, lpeer_reason = reason\<rparr>
         (log_peers l)\<rparr>"

definition loadFromBuffer :: "'a list \<Rightarrow> int \<Rightarrow> 'a list" where
  "loadFromBuffer src offset = drop (nat offset) src"

definition getMessages :: "int \<Rightarrow> logger \<Rightarrow> log_msg list" where
  "getMessages lastKnownId l =
     (let diff = log_msgCounter l - lastKnownId - 1;
          sz = int (length (log_messages l))
      in if lastKnownId = -1 \<or> diff \<ge> sz then loadFromBuffer (log_messages l) 0
         else if diff \<le> 0 then []
         else loadFromBuffer (log_messages l) (sz - diff))"

definition getPeers :: "int \<Rightarrow> logger \<Rightarrow> log_peer list" where
  "getPeers lastKnownId l =
     (let diff = log_peerCounter l - lastKnownId - 1;
          sz = int (length (log_peers l))
      in if lastKnownId = -1 \<or> diff \<ge> sz then loadFromBuffer (log_peers l) 0
         else if diff \<le> 0 then []
         else loadFromBuffer (log_peers l) (sz - diff))"

datatype log_event = LogMessage int qstring msg_type | LogPeer int qstring bool qstring

fun log_event_step :: "log_event \<Rightarrow> logger \<Rightarrow> logger" where
  "log_event_step (LogMessage now m ty) l = addMessage now m ty l"
| "log_event_step (LogPeer now ip b r) l = addPeer now ip b r l"

section \<open>SpeedMonitor\<close>

record speed_sample =
  sample_download :: int
  sample_upload :: int

definition sample_add :: "speed_sample \<Rightarrow> speed_sample \<Rightarrow> speed_sample" where
  "sample_add a b = \<lparr>sample_download = sample_download a + sample_download b,
                     sample_upload = sample_upload a + sample_upload b\<rparr>"

definition sample_sub :: "speed_sample \<Rightarrow> speed_sample \<Rightarrow> speed_sample" where
  "sample_sub a b = \<lparr>sample_download = sample_download a - sample_download b,
                     sample_upload = sample_upload a - sample_upload b\<rparr>"

definition zero_sample :: speed_sample where
  "zero_sample = \<lparr>sample_download = 0, sample_upload = 0\<rparr>"

definition MAX_SAMPLES :: nat where "MAX_SAMPLES = 30"

record speed_monitor =
  mon_samples :: "speed_sample list"
  mon_sum :: speed_sample

definition new_monitor :: speed_monitor where
  "new_monitor = \<lparr>mon_samples = [], mon_sum = zero_sample\<rparr>"

definition addSample :: "speed_sample \<Rightarrow> speed_monitor \<Rightarrow> speed_monitor" where
  "addSample s m =
     (let sum1 = (if length (mon_samples m) \<ge> MAX_SAMPLES
                  then sample_sub (mon_sum m) (hd (mon_samples m)) else mon_sum m)
      in m\<lparr>mon_samples := ring_push MAX_SAMPLES s (mon_samples m), mon_sum := sample_add sum1 s\<rparr>)"

text \<open>\<^verbatim>\<open>average()\<close>, the division being exact here.\<close>

definition average :: "speed_monitor \<Rightarrow> real \<times> real" where
  "average m =
     (if mon_samples m = [] then (0, 0)
      else let k = 1 / real (length (mon_samples m))
           in (of_int (sample_download (mon_sum m)) * k, of_int (sample_upload (mon_sum m)) * k))"

definition monitor_reset :: "speed_monitor \<Rightarrow> speed_monitor" where
  "monitor_reset m = m\<lparr>mon_sum := zero_sample, mon_samples := []\<rparr>"

inductive monitor_reach :: "speed_sample list \<Rightarrow> speed_monitor \<Rightarrow> bool" where
  start: "monitor_reach [] new_monitor"
| sample: "monitor_reach xs m \<Longrightarrow> monitor_reach (xs @ [s]) (addSample s m)"
| reset: "monitor_reach xs m \<Longrightarrow> monitor_reach [] (monitor_reset m)"

section \<open>BandwidthScheduler\<close>

datatype scheduler_days =
    EveryDay | Weekday | Weekend | Monday | Tuesday | Wednesday | Thursday | Friday | Saturday | Sunday

fun days_value :: "scheduler_days \<Rightarrow> int" where
  "days_value EveryDay = 0"
| "days_value Weekday = 1"
| "days_value Weekend = 2"
| "days_value Monday = 3"
| "days_value Tuesday = 4"
| "days_value Wednesday = 5"
| "days_value Thursday = 6"
| "days_value Friday = 7"
| "days_value Saturday = 8"
| "days_value Sunday = 9"

text \<open>The body of the switch: whether this day flips the answer.\<close>

definition day_flips :: "scheduler_days \<Rightarrow> int \<Rightarrow> bool" where
  "day_flips schedulerDays day =
     (case schedulerDays of
        EveryDay \<Rightarrow> True
      | Weekday \<Rightarrow> day \<ge> 1 \<and> day \<le> 5
      | Weekend \<Rightarrow> day = 6 \<or> day = 7
      | _ \<Rightarrow> (let offset = days_value Monday - 1;
                  dayOfWeek = days_value schedulerDays - offset
              in day = dayOfWeek))"

text \<open>Times are seconds of the day.\<close>

definition isTimeForAlternative :: "nat \<Rightarrow> nat \<Rightarrow> scheduler_days \<Rightarrow> nat \<Rightarrow> int \<Rightarrow> bool" where
  "isTimeForAlternative start0 fin0 schedulerDays now day =
     (let swapped = start0 > fin0;
          start = (if swapped then fin0 else start0);
          fin = (if swapped then start0 else fin0);
          alternative = swapped
      in if start \<le> now \<and> fin \<ge> now \<and> day_flips schedulerDays day then \<not> alternative else alternative)"

record scheduler =
  sched_lastAlternative :: bool
  sched_requests :: "bool list"

definition scheduler_start :: "bool \<Rightarrow> scheduler \<Rightarrow> scheduler" where
  "scheduler_start alternative s =
     s\<lparr>sched_lastAlternative := alternative, sched_requests := sched_requests s @ [alternative]\<rparr>"

definition scheduler_onTimeout :: "bool \<Rightarrow> scheduler \<Rightarrow> scheduler" where
  "scheduler_onTimeout alternative s =
     (if alternative \<noteq> sched_lastAlternative s
      then s\<lparr>sched_lastAlternative := alternative, sched_requests := sched_requests s @ [alternative]\<rparr>
      else s)"

section \<open>Numbered buffers\<close>

text \<open>
  What both logs rely on: entries are made with consecutive numbers and pushed to a bounded buffer, so the
  position of an entry follows from its number.
\<close>

locale numbered_log =
  fixes ident :: "'m \<Rightarrow> int"
    and make :: "int \<Rightarrow> 'x \<Rightarrow> 'm"
    and capacity :: nat
  assumes ident_make: "ident (make i x) = i"
    and capacity_pos: "0 < capacity"
begin

lemma push_numbers:
  assumes "map ident ms = [counter - int (length ms)..counter - 1]" and "length ms \<le> capacity"
  shows "map ident (ring_push capacity (make counter x) ms)
       = [counter + 1 - int (length (ring_push capacity (make counter x) ms))..counter]"
    and "length (ring_push capacity (make counter x) ms) \<le> capacity"
proof -
  have up: "[a..counter] = [a..counter - 1] @ [counter]" if "a \<le> counter" for a
    using upto_split2 [of a "counter - 1" counter] that by (cases "a = counter") auto
  show "map ident (ring_push capacity (make counter x) ms)
       = [counter + 1 - int (length (ring_push capacity (make counter x) ms))..counter]"
  proof (cases "length ms < capacity")
    case True
    then show ?thesis using assms(1) capacity_pos up
      by (simp add: ring_push_def ident_make)
  next
    case False
    then have len: "length ms = capacity" using assms(2) by simp
    then obtain y ys where ms: "ms = y # ys" using capacity_pos by (cases ms) auto
    have "map ident ys = tl [counter - int (length ms)..counter - 1]"
      using arg_cong [OF assms(1), of tl] ms by simp
    also have "\<dots> = [counter - int (length ys)..counter - 1]"
      using ms by (subst upto.simps) simp
    finally have "map ident ys = [counter - int (length ys)..counter - 1]" .
    moreover have "counter + 1 - int capacity = counter - int (length ys)" using ms len by simp
    ultimately show ?thesis using False ms len up [of "counter - int (length ys)"] capacity_pos
      by (simp add: ring_push_def ident_make)
  qed
  show "length (ring_push capacity (make counter x) ms) \<le> capacity"
    using assms(2) capacity_pos by (auto simp: ring_push_def)
qed

lemma drop_numbers:
  assumes "map ident ms = [counter - int (length ms)..counter - 1]"
  shows "drop n ms = filter (\<lambda>m. counter - int (length ms) + int n \<le> ident m) ms"
  using assms
proof (induction ms arbitrary: n)
  case Nil
  then show ?case by simp
next
  case (Cons m ms)
  have c: "map ident (m # ms) = (counter - int (length (m # ms))) # [counter - int (length ms)..counter - 1]"
  proof -
    have "[counter - int (length (m # ms))..counter - 1]
        = (counter - int (length (m # ms))) # [counter - int (length (m # ms)) + 1..counter - 1]"
      by (rule upto_rec1) simp
    moreover have "counter - int (length (m # ms)) + 1 = counter - int (length ms)" by simp
    ultimately show ?thesis using Cons.prems by (simp only:)
  qed
  then have m: "ident m = counter - int (length ms) - 1"
    and ms: "map ident ms = [counter - int (length ms)..counter - 1]" by simp_all
  show ?case
  proof (cases n)
    case 0
    have "\<forall>x \<in> set ms. ident x \<ge> counter - int (length ms)"
      using ms by (metis atLeastAtMost_iff image_eqI list.set_map set_upto)
    then have "filter (\<lambda>x. counter - int (length (m # ms)) \<le> ident x) ms = ms"
      by (auto simp: filter_id_conv)
    with 0 m show ?thesis by simp
  next
    case (Suc k)
    then show ?thesis using Cons.IH [OF ms, of k] m by (simp add: algebra_simps)
  qed
qed

lemma query_numbers:
  assumes "map ident ms = [counter - int (length ms)..counter - 1]" and "int (length ms) \<le> counter"
  shows "(let diff = counter - k - 1; sz = int (length ms)
          in if k = -1 \<or> diff \<ge> sz then loadFromBuffer ms 0
             else if diff \<le> 0 then [] else loadFromBuffer ms (sz - diff))
       = filter (\<lambda>m. k < ident m) ms"
proof -
  have range: "\<forall>m \<in> set ms. counter - int (length ms) \<le> ident m \<and> ident m < counter"
    using assms(1) by (metis atLeastAtMost_iff image_eqI list.set_map set_upto zle_diff1_eq)
  consider "k < counter - int (length ms)" | "counter - 1 \<le> k"
    | "counter - int (length ms) \<le> k" "k < counter - 1" by linarith
  then show ?thesis
  proof cases
    case 1
    then have "filter (\<lambda>m. k < ident m) ms = ms" using range by (auto simp: filter_id_conv)
    with 1 show ?thesis by (simp add: loadFromBuffer_def)
  next
    case 2
    then have "filter (\<lambda>m. k < ident m) ms = []" using range by (auto simp: filter_empty_conv)
    moreover have "ms = []" if "k = -1 \<or> counter - k - 1 \<ge> int (length ms)"
      using that 2 assms(2) by (cases ms) auto
    ultimately show ?thesis using 2 by (auto simp: Let_def loadFromBuffer_def)
  next
    case 3
    have "k \<noteq> -1" using 3 assms(2) by linarith
    moreover have "loadFromBuffer ms (int (length ms) - (counter - k - 1)) = filter (\<lambda>m. k < ident m) ms"
      using 3 unfolding loadFromBuffer_def drop_numbers [OF assms(1)] by (intro filter_cong) auto
    ultimately show ?thesis using 3 by (simp add: Let_def)
  qed
qed

end

interpretation msg_log: numbered_log msg_id
    "\<lambda>i (now, ty, m). \<lparr>msg_id = i, msg_type_of = ty, msg_timestamp = now, msg_message = m\<rparr>" MAX_LOG_MESSAGES
  by unfold_locales (auto simp: MAX_LOG_MESSAGES_def split: prod.split)

interpretation peer_log: numbered_log lpeer_id
    "\<lambda>i (now, b, ip, r). \<lparr>lpeer_id = i, lpeer_blocked = b, lpeer_timestamp = now, lpeer_ip = ip, lpeer_reason = r\<rparr>"
    MAX_LOG_MESSAGES
  by unfold_locales (auto simp: MAX_LOG_MESSAGES_def split: prod.split)

section \<open>Lemmas on the logger\<close>

definition logger_inv :: "logger \<Rightarrow> bool" where
  "logger_inv l \<longleftrightarrow>
     map msg_id (log_messages l) = [log_msgCounter l - int (length (log_messages l))..log_msgCounter l - 1]
     \<and> length (log_messages l) \<le> MAX_LOG_MESSAGES \<and> int (length (log_messages l)) \<le> log_msgCounter l
     \<and> map lpeer_id (log_peers l) = [log_peerCounter l - int (length (log_peers l))..log_peerCounter l - 1]
     \<and> length (log_peers l) \<le> MAX_LOG_MESSAGES \<and> int (length (log_peers l)) \<le> log_peerCounter l"

lemma length_ring_push: "int (length xs) \<le> c \<Longrightarrow> int (length (ring_push n x xs)) \<le> c + 1"
  by (simp add: ring_push_def)

lemma addMessage_inv: "logger_inv l \<Longrightarrow> logger_inv (addMessage now m ty l)"
  using msg_log.push_numbers [of "log_messages l" "log_msgCounter l" "(now, ty, m)"]
  by (simp add: logger_inv_def addMessage_def length_ring_push)

lemma addPeer_inv: "logger_inv l \<Longrightarrow> logger_inv (addPeer now ip b r l)"
  using peer_log.push_numbers [of "log_peers l" "log_peerCounter l" "(now, b, ip, r)"]
  by (simp add: logger_inv_def addPeer_def length_ring_push)

lemma logger_reach_inv: "logger_inv (fold log_event_step evs new_logger)"
proof -
  have "logger_inv l \<Longrightarrow> logger_inv (fold log_event_step evs l)" for l
  proof (induction evs arbitrary: l)
    case Nil
    then show ?case by simp
  next
    case (Cons e evs)
    then show ?case by (cases e) (simp_all add: addMessage_inv addPeer_inv)
  qed
  then show ?thesis by (simp add: logger_inv_def new_logger_def)
qed

text \<open>
  Polling the logs never loses and never repeats an entry that is still kept: whatever was logged and whatever number a client last
  saw, the query returns exactly the kept entries with greater numbers, oldest first, and at most
  \<open>MAX_LOG_MESSAGES\<close> entries, the newest, are kept.
\<close>

theorem logger_queries:
  "let l = fold log_event_step evs new_logger in
     getMessages k l = filter (\<lambda>m. k < msg_id m) (log_messages l)
     \<and> getPeers k l = filter (\<lambda>p. k < lpeer_id p) (log_peers l)
     \<and> map msg_id (log_messages l) = [log_msgCounter l - int (length (log_messages l))..log_msgCounter l - 1]
     \<and> length (log_messages l) \<le> MAX_LOG_MESSAGES"
proof -
  define l where "l = fold log_event_step evs new_logger"
  have "logger_inv l" unfolding l_def by (rule logger_reach_inv)
  then have "getMessages k l = filter (\<lambda>m. k < msg_id m) (log_messages l)"
    and "getPeers k l = filter (\<lambda>p. k < lpeer_id p) (log_peers l)"
    using msg_log.query_numbers [of "log_messages l" "log_msgCounter l" k]
      peer_log.query_numbers [of "log_peers l" "log_peerCounter l" k]
    by (simp_all add: logger_inv_def getMessages_def getPeers_def)
  with \<open>logger_inv l\<close> show ?thesis by (simp add: Let_def l_def [symmetric] logger_inv_def)
qed

section \<open>Lemmas on the speed monitor\<close>

definition sample_sum :: "speed_sample list \<Rightarrow> speed_sample" where
  "sample_sum xs = \<lparr>sample_download = sum_list (map sample_download xs), sample_upload = sum_list (map sample_upload xs)\<rparr>"

text \<open>The last samples a buffer of this capacity keeps.\<close>

definition last_samples :: "nat \<Rightarrow> 'a list \<Rightarrow> 'a list" where
  "last_samples n xs = drop (length xs - n) xs"

lemma ring_push_last:
  assumes "0 < n"
  shows "ring_push n x (last_samples n xs) = last_samples n (xs @ [x])"
proof (cases "length xs < n")
  case True
  then show ?thesis by (simp add: ring_push_def last_samples_def)
next
  case False
  then have "tl (drop (length xs - n) xs) = drop (Suc (length xs - n)) xs"
    by (simp add: drop_Suc tl_drop)
  moreover have "Suc (length xs) - n = Suc (length xs - n)" using False by simp
  ultimately show ?thesis using False assms by (simp add: ring_push_def last_samples_def)
qed

lemma monitor_reach_inv:
  "monitor_reach xs m \<Longrightarrow> mon_samples m = last_samples MAX_SAMPLES xs \<and> mon_sum m = sample_sum (mon_samples m)"
proof (induction rule: monitor_reach.induct)
  case start
  then show ?case
    by (simp add: new_monitor_def last_samples_def sample_sum_def zero_sample_def)
next
  case (sample xs m s)
  have samples: "mon_samples (addSample s m) = ring_push MAX_SAMPLES s (mon_samples m)"
    by (simp add: addSample_def Let_def)
  have pos: "0 < MAX_SAMPLES" by (simp add: MAX_SAMPLES_def)
  have "mon_sum (addSample s m) = sample_sum (ring_push MAX_SAMPLES s (mon_samples m))"
  proof (cases "length (mon_samples m) < MAX_SAMPLES")
    case True
    then show ?thesis using sample.IH pos
      by (simp add: addSample_def Let_def ring_push_def sample_sum_def sample_add_def)
  next
    case False
    then obtain y ys where "mon_samples m = y # ys" using pos by (cases "mon_samples m") auto
    then show ?thesis using False sample.IH pos
      by (simp add: addSample_def Let_def ring_push_def sample_sum_def sample_add_def sample_sub_def)
  qed
  then show ?case using sample.IH samples ring_push_last [OF pos] by simp
next
  case (reset xs m)
  then show ?case
    by (simp add: monitor_reset_def last_samples_def sample_sum_def zero_sample_def)
qed

text \<open>
  The running sum of the speed monitor never drifts: in every reachable state the average is that of the last samples since the
  last reset, at most \<open>MAX_SAMPLES\<close> of them, although the sum is only ever updated.
\<close>

theorem speed_average_exact:
  assumes "monitor_reach xs m" and "xs \<noteq> []"
  shows "average m =
    (let ys = last_samples MAX_SAMPLES xs
     in (of_int (sum_list (map sample_download ys)) / real (length ys),
         of_int (sum_list (map sample_upload ys)) / real (length ys)))"
proof -
  have "mon_samples m = last_samples MAX_SAMPLES xs" "mon_sum m = sample_sum (mon_samples m)"
    using monitor_reach_inv [OF assms(1)] by auto
  moreover have "last_samples MAX_SAMPLES xs \<noteq> []"
    using assms(2) by (cases xs) (auto simp: last_samples_def MAX_SAMPLES_def)
  ultimately show ?thesis by (simp add: average_def sample_sum_def Let_def)
qed

theorem speed_average_exact_witness:
  "average (addSample \<lparr>sample_download = 6, sample_upload = 2\<rparr>
      (addSample \<lparr>sample_download = 4, sample_upload = 0\<rparr> new_monitor)) = (5, 1)"
proof -
  have "monitor_reach (([] @ [\<lparr>sample_download = 4, sample_upload = 0\<rparr>]) @ [\<lparr>sample_download = 6, sample_upload = 2\<rparr>])
     (addSample \<lparr>sample_download = 6, sample_upload = 2\<rparr>
      (addSample \<lparr>sample_download = 4, sample_upload = 0\<rparr> new_monitor))"
    by (intro monitor_reach.intros)
  from speed_average_exact [OF this] show ?thesis
    by (simp add: last_samples_def MAX_SAMPLES_def Let_def)
qed

section \<open>Lemmas on the scheduler\<close>

text \<open>
  When the alternative limits apply: for a span within a day, on the chosen days between the two
  times; for a span over midnight, at all times but the chosen days' gap between the end and
  the start, so on a day that is not chosen they apply around the clock.
\<close>

theorem scheduler_spans:
  "isTimeForAlternative start fin days now day \<longleftrightarrow>
     (if start \<le> fin then day_flips days day \<and> start \<le> now \<and> now \<le> fin
      else \<not> (day_flips days day \<and> fin \<le> now \<and> now \<le> start))"
  by (auto simp: isTimeForAlternative_def Let_def)

end
