(* ===== verification/Torrent_State.thy ===== *)
theory Torrent_State
  imports Prelude
begin

text \<open>
  The state a torrent shows and the filters over it: \<^verbatim>\<open>TorrentImpl::updateState\<close>, the
  predicates on the state, \<^verbatim>\<open>start\<close> and \<^verbatim>\<open>stop\<close>
  (\<^verbatim>\<open>src/src/base/bittorrent/torrentimpl.cpp\<close>), \<^verbatim>\<open>TorrentFilter\<close>
  (\<^verbatim>\<open>src/src/base/torrentfilter.cpp\<close>), tags (\<^verbatim>\<open>tag.cpp\<close>) and the share limits
  of \<^verbatim>\<open>SessionImpl::processTorrentShareLimits\<close>. What libtorrent reports is a value of type
  \<open>native_status\<close>; a native handle is a number;
  what is asked of libtorrent is the list of \<open>native_command\<close>s an
  operation returns. A tag set is ordered for presentation only and is a HOL set here.
\<close>

section \<open>The torrent\<close>

datatype torrent_state =
    Unknown
  | ForcedDownloading | Downloading | ForcedDownloadingMetadata | DownloadingMetadata
  | StalledDownloading
  | ForcedUploading | Uploading | StalledUploading
  | CheckingResumeData | QueuedDownloading | QueuedUploading
  | CheckingUploading | CheckingDownloading
  | StoppedDownloading | StoppedUploading
  | Moving | MissingFiles | Error

text \<open>\<^verbatim>\<open>lt::torrent_status::state_t\<close> and the fields of the status that are read.\<close>

datatype lt_state =
    Lt_checking_files | Lt_downloading_metadata | Lt_downloading | Lt_finished | Lt_seeding
  | Lt_checking_resume_data

record native_status =
  ns_state :: lt_state
  ns_auto_managed :: bool
  ns_paused :: bool
  ns_upload_mode :: bool
  ns_errc :: bool
  ns_upload_payload_rate :: int
  ns_download_payload_rate :: int
  ns_save_path :: qstring

datatype operating_mode = AutoManaged | Forced
datatype maintenance_job = NoJob | HandleMetadata
datatype stop_condition = StopNone | MetadataReceived | FilesChecked

type_synonym tag = qstring

record torrent =
  torrent_id :: qbytearray
  m_nativeHandle :: nat
  m_nativeStatus :: native_status
  m_state :: torrent_state
  m_isStopped :: bool
  m_operatingMode :: operating_mode
  m_hasMissingFiles :: bool
  m_hasFinishedStatus :: bool
  m_storageIsMoving :: bool
  m_maintenanceJob :: maintenance_job
  m_stopCondition :: stop_condition
  m_hasMetadata :: bool
  m_isPrivate :: bool
  m_category :: qstring
  m_tags :: "tag set"
  m_useAutoTMM :: bool
  m_savePath :: qstring
  m_downloadPath :: qstring

section \<open>Predicates\<close>

definition isStopped :: "torrent \<Rightarrow> bool" where
  "isStopped t = m_isStopped t"

definition isRunning :: "torrent \<Rightarrow> bool" where
  "isRunning t = (\<not> isStopped t)"

definition isQueued :: "bool \<Rightarrow> torrent \<Rightarrow> bool" where
  "isQueued queueingEnabled t =
     (if \<not> queueingEnabled then False
      else \<not> isStopped t \<and> ns_auto_managed (m_nativeStatus t) \<and> ns_paused (m_nativeStatus t))"

definition isChecking :: "torrent \<Rightarrow> bool" where
  "isChecking t \<longleftrightarrow>
     ns_state (m_nativeStatus t) = Lt_checking_files \<or>
     ns_state (m_nativeStatus t) = Lt_checking_resume_data"

definition isDownloading :: "torrent \<Rightarrow> bool" where
  "isDownloading t =
     (case m_state t of
        Downloading \<Rightarrow> True
      | DownloadingMetadata \<Rightarrow> True
      | ForcedDownloadingMetadata \<Rightarrow> True
      | StalledDownloading \<Rightarrow> True
      | CheckingDownloading \<Rightarrow> True
      | StoppedDownloading \<Rightarrow> True
      | QueuedDownloading \<Rightarrow> True
      | ForcedDownloading \<Rightarrow> True
      | _ \<Rightarrow> False)"

definition isMoving :: "torrent \<Rightarrow> bool" where
  "isMoving t \<longleftrightarrow> m_state t = Moving"

definition isUploading :: "torrent \<Rightarrow> bool" where
  "isUploading t =
     (case m_state t of
        Uploading \<Rightarrow> True
      | StalledUploading \<Rightarrow> True
      | CheckingUploading \<Rightarrow> True
      | QueuedUploading \<Rightarrow> True
      | ForcedUploading \<Rightarrow> True
      | _ \<Rightarrow> False)"

definition isCompleted :: "torrent \<Rightarrow> bool" where
  "isCompleted t =
     (case m_state t of
        Uploading \<Rightarrow> True
      | StalledUploading \<Rightarrow> True
      | CheckingUploading \<Rightarrow> True
      | StoppedUploading \<Rightarrow> True
      | QueuedUploading \<Rightarrow> True
      | ForcedUploading \<Rightarrow> True
      | _ \<Rightarrow> False)"

definition uploadPayloadRate :: "torrent \<Rightarrow> int" where
  "uploadPayloadRate t = (if isStopped t then 0 else ns_upload_payload_rate (m_nativeStatus t))"

definition downloadPayloadRate :: "torrent \<Rightarrow> int" where
  "downloadPayloadRate t = (if isStopped t then 0 else ns_download_payload_rate (m_nativeStatus t))"

definition isActive :: "torrent \<Rightarrow> bool" where
  "isActive t =
     (case m_state t of
        StalledDownloading \<Rightarrow> uploadPayloadRate t > 0
      | DownloadingMetadata \<Rightarrow> True
      | ForcedDownloadingMetadata \<Rightarrow> True
      | Downloading \<Rightarrow> True
      | ForcedDownloading \<Rightarrow> True
      | Uploading \<Rightarrow> True
      | ForcedUploading \<Rightarrow> True
      | Moving \<Rightarrow> True
      | _ \<Rightarrow> False)"

definition isInactive :: "torrent \<Rightarrow> bool" where
  "isInactive t = (\<not> isActive t)"

definition isErrored :: "torrent \<Rightarrow> bool" where
  "isErrored t \<longleftrightarrow> m_state t = MissingFiles \<or> m_state t = Error"

definition isFinished :: "torrent \<Rightarrow> bool" where
  "isFinished t \<longleftrightarrow>
     ns_state (m_nativeStatus t) = Lt_finished \<or> ns_state (m_nativeStatus t) = Lt_seeding"

definition isForced :: "torrent \<Rightarrow> bool" where
  "isForced t \<longleftrightarrow> \<not> isStopped t \<and> m_operatingMode t = Forced"

definition isMoveInProgress :: "torrent \<Rightarrow> bool" where
  "isMoveInProgress t = m_storageIsMoving t"

definition hasMetadata :: "torrent \<Rightarrow> bool" where
  "hasMetadata t = m_hasMetadata t"

definition hasMissingFiles :: "torrent \<Rightarrow> bool" where
  "hasMissingFiles t = m_hasMissingFiles t"

definition hasError :: "torrent \<Rightarrow> bool" where
  "hasError t \<longleftrightarrow> ns_errc (m_nativeStatus t) \<or> ns_upload_mode (m_nativeStatus t)"

lemmas predicate_defs =
  isStopped_def isRunning_def isQueued_def isChecking_def isDownloading_def isMoving_def
  isUploading_def isCompleted_def isActive_def isInactive_def isErrored_def isFinished_def
  isForced_def isMoveInProgress_def hasMetadata_def hasMissingFiles_def hasError_def
  uploadPayloadRate_def downloadPayloadRate_def

section \<open>The shown state\<close>

definition updateState :: "bool \<Rightarrow> torrent \<Rightarrow> torrent" where
  "updateState queueingEnabled t =
     t\<lparr>m_state :=
       (if ns_state (m_nativeStatus t) = Lt_checking_resume_data then CheckingResumeData
        else if isMoveInProgress t then Moving
        else if hasMissingFiles t then MissingFiles
        else if hasError t then Error
        else if \<not> hasMetadata t then
          (if isStopped t then StoppedDownloading
           else if isQueued queueingEnabled t then QueuedDownloading
           else if isForced t then ForcedDownloadingMetadata else DownloadingMetadata)
        else if ns_state (m_nativeStatus t) = Lt_checking_files \<and> \<not> isStopped t then
          (if m_hasFinishedStatus t then CheckingUploading else CheckingDownloading)
        else if isFinished t then
          (if isStopped t then StoppedUploading
           else if isQueued queueingEnabled t then QueuedUploading
           else if isForced t then ForcedUploading
           else if ns_upload_payload_rate (m_nativeStatus t) > 0 then Uploading
           else StalledUploading)
        else
          (if isStopped t then StoppedDownloading
           else if isQueued queueingEnabled t then QueuedDownloading
           else if isForced t then ForcedDownloading
           else if ns_download_payload_rate (m_nativeStatus t) > 0 then Downloading
           else StalledDownloading))\<rparr>"

section \<open>Starting and stopping\<close>

datatype native_command =
    Lt_pause | Lt_resume | Lt_set_auto_managed bool | Lt_clear_error | Lt_unset_upload_mode
  | Session_reload | Session_stopped | Session_started | Save_resume_data | Reset_rates

definition torrent_stop :: "torrent \<Rightarrow> torrent \<times> native_command list" where
  "torrent_stop t =
     (let (t1, cs1) =
            (if \<not> m_isStopped t
             then (t\<lparr>m_stopCondition := StopNone, m_isStopped := True\<rparr>, [Save_resume_data, Session_stopped])
             else (t, []));
          cs2 = (if m_maintenanceJob t1 = NoJob then [Lt_set_auto_managed False, Lt_pause, Reset_rates]
                 else [])
      in (t1, cs1 @ cs2))"

definition torrent_start :: "operating_mode \<Rightarrow> torrent \<Rightarrow> torrent \<times> native_command list" where
  "torrent_start mode t =
     (let cs0 = (if hasError t then [Lt_clear_error, Lt_unset_upload_mode] else []);
          t0 = t\<lparr>m_operatingMode := mode\<rparr>
      in if m_hasMissingFiles t0
         then (t0\<lparr>m_hasMissingFiles := False, m_isStopped := False\<rparr>, cs0 @ [Session_reload])
         else
           (let (t1, cs1) =
                  (if m_isStopped t0
                   then (t0\<lparr>m_isStopped := False\<rparr>, [Save_resume_data, Session_started])
                   else (t0, []));
                cs2 = (if m_maintenanceJob t1 = NoJob
                       then Lt_set_auto_managed (m_operatingMode t1 = AutoManaged)
                            # (if m_operatingMode t1 = Forced then [Lt_resume] else [])
                       else [])
            in (t1, cs0 @ cs1 @ cs2)))"

text \<open>What libtorrent's two flags become under a list of commands (documented behaviour).\<close>

fun native_exec :: "native_command list \<Rightarrow> native_status \<Rightarrow> native_status" where
  "native_exec [] s = s"
| "native_exec (Lt_pause # cs) s = native_exec cs (s\<lparr>ns_paused := True\<rparr>)"
| "native_exec (Lt_resume # cs) s = native_exec cs (s\<lparr>ns_paused := False\<rparr>)"
| "native_exec (Lt_set_auto_managed b # cs) s = native_exec cs (s\<lparr>ns_auto_managed := b\<rparr>)"
| "native_exec (Lt_clear_error # cs) s = native_exec cs (s\<lparr>ns_errc := False\<rparr>)"
| "native_exec (Lt_unset_upload_mode # cs) s = native_exec cs (s\<lparr>ns_upload_mode := False\<rparr>)"
| "native_exec (_ # cs) s = native_exec cs s"

section \<open>Tags\<close>

definition mkTag :: "qstring \<Rightarrow> tag" where
  "mkTag tagStr = trimmed tagStr"

definition tag_isEmpty :: "tag \<Rightarrow> bool" where
  "tag_isEmpty t \<longleftrightarrow> t = []"

definition tag_isValid :: "tag \<Rightarrow> bool" where
  "tag_isValid t = (if tag_isEmpty t then False else \<not> list_ex (\<lambda>c. c = CHR '','') t)"

section \<open>Filters\<close>

datatype filter_type =
    FAll | FDownloading | FSeeding | FCompleted | FRunning | FStopped | FActive | FInactive
  | FStalled | FStalledUploading | FStalledDownloading | FChecking | FMoving | FErrored

record torrent_filter =
  m_type :: filter_type
  f_category :: "qstring option"
  f_tag :: "tag option"
  f_idSet :: "qbytearray set option"
  f_private :: "bool option"

definition setType :: "filter_type \<Rightarrow> torrent_filter \<Rightarrow> bool \<times> torrent_filter" where
  "setType ty f = (if m_type f \<noteq> ty then (True, f\<lparr>m_type := ty\<rparr>) else (False, f))"

definition typeByName :: "qstring \<Rightarrow> filter_type" where
  "typeByName filterName =
     (if filterName = ''downloading'' then FDownloading
      else if filterName = ''seeding'' then FSeeding
      else if filterName = ''completed'' then FCompleted
      else if filterName = ''stopped'' then FStopped
      else if filterName = ''running'' then FRunning
      else if filterName = ''active'' then FActive
      else if filterName = ''inactive'' then FInactive
      else if filterName = ''stalled'' then FStalled
      else if filterName = ''stalled_uploading'' then FStalledUploading
      else if filterName = ''stalled_downloading'' then FStalledDownloading
      else if filterName = ''checking'' then FChecking
      else if filterName = ''moving'' then FMoving
      else if filterName = ''errored'' then FErrored
      else FAll)"

definition setTypeByName :: "qstring \<Rightarrow> torrent_filter \<Rightarrow> bool \<times> torrent_filter" where
  "setTypeByName filterName f = setType (typeByName filterName) f"

definition setTorrentIDSet :: "qbytearray set option \<Rightarrow> torrent_filter \<Rightarrow> bool \<times> torrent_filter" where
  "setTorrentIDSet ids f = (if f_idSet f \<noteq> ids then (True, f\<lparr>f_idSet := ids\<rparr>) else (False, f))"

definition filter_setCategory :: "qstring option \<Rightarrow> torrent_filter \<Rightarrow> bool \<times> torrent_filter" where
  "filter_setCategory c f = (if f_category f \<noteq> c then (True, f\<lparr>f_category := c\<rparr>) else (False, f))"

definition filter_setTag :: "tag option \<Rightarrow> torrent_filter \<Rightarrow> bool \<times> torrent_filter" where
  "filter_setTag tg f = (if f_tag f \<noteq> tg then (True, f\<lparr>f_tag := tg\<rparr>) else (False, f))"

definition setPrivate :: "bool option \<Rightarrow> torrent_filter \<Rightarrow> bool \<times> torrent_filter" where
  "setPrivate p f = (if f_private f \<noteq> p then (True, f\<lparr>f_private := p\<rparr>) else (False, f))"

text \<open>The constructor from a name: the type starts as \<open>All\<close> and is then set.\<close>

definition mkFilter ::
  "filter_type \<Rightarrow> qbytearray set option \<Rightarrow> qstring option \<Rightarrow> tag option \<Rightarrow> bool option \<Rightarrow> torrent_filter" where
  "mkFilter ty ids c tg p =
     \<lparr>m_type = ty, f_category = c, f_tag = tg, f_idSet = ids, f_private = p\<rparr>"

definition mkFilterByName ::
  "qstring \<Rightarrow> qbytearray set option \<Rightarrow> qstring option \<Rightarrow> tag option \<Rightarrow> bool option \<Rightarrow> torrent_filter" where
  "mkFilterByName name ids c tg p = snd (setTypeByName name (mkFilter FAll ids c tg p))"

definition matchState :: "torrent_filter \<Rightarrow> torrent \<Rightarrow> bool" where
  "matchState f t =
     (case m_type f of
        FAll \<Rightarrow> True
      | FDownloading \<Rightarrow> isDownloading t
      | FSeeding \<Rightarrow> isUploading t
      | FCompleted \<Rightarrow> isCompleted t
      | FStopped \<Rightarrow> isStopped t
      | FRunning \<Rightarrow> isRunning t
      | FActive \<Rightarrow> isActive t
      | FInactive \<Rightarrow> isInactive t
      | FStalled \<Rightarrow> m_state t = StalledUploading \<or> m_state t = StalledDownloading
      | FStalledUploading \<Rightarrow> m_state t = StalledUploading
      | FStalledDownloading \<Rightarrow> m_state t = StalledDownloading
      | FChecking \<Rightarrow> m_state t = CheckingUploading \<or> m_state t = CheckingDownloading
                       \<or> m_state t = CheckingResumeData
      | FMoving \<Rightarrow> isMoving t
      | FErrored \<Rightarrow> isErrored t)"

definition matchHash :: "torrent_filter \<Rightarrow> torrent \<Rightarrow> bool" where
  "matchHash f t = (case f_idSet f of None \<Rightarrow> True | Some ids \<Rightarrow> torrent_id t \<in> ids)"

definition belongsToCategory :: "bool \<Rightarrow> qstring \<Rightarrow> torrent \<Rightarrow> bool" where
  "belongsToCategory subcategories category t =
     (if m_category t = [] then category = []
      else if m_category t = category then True
      else subcategories \<and> prefix (category @ ''/'') (m_category t))"

definition matchCategory :: "bool \<Rightarrow> torrent_filter \<Rightarrow> torrent \<Rightarrow> bool" where
  "matchCategory subcategories f t =
     (case f_category f of None \<Rightarrow> True | Some c \<Rightarrow> belongsToCategory subcategories c t)"

definition hasTag :: "tag \<Rightarrow> torrent \<Rightarrow> bool" where
  "hasTag tg t \<longleftrightarrow> tg \<in> m_tags t"

definition matchTag :: "torrent_filter \<Rightarrow> torrent \<Rightarrow> bool" where
  "matchTag f t =
     (case f_tag f of
        None \<Rightarrow> True
      | Some tg \<Rightarrow> if tag_isEmpty tg then m_tags t = {} else hasTag tg t)"

definition matchPrivate :: "torrent_filter \<Rightarrow> torrent \<Rightarrow> bool" where
  "matchPrivate f t = (case f_private f of None \<Rightarrow> True | Some p \<Rightarrow> p = m_isPrivate t)"

definition match :: "bool \<Rightarrow> torrent_filter \<Rightarrow> torrent option \<Rightarrow> bool" where
  "match subcategories f torrent =
     (case torrent of
        None \<Rightarrow> False
      | Some t \<Rightarrow> matchState f t \<and> matchHash f t \<and> matchCategory subcategories f t
                    \<and> matchTag f t \<and> matchPrivate f t)"

section \<open>Share limits\<close>

text \<open>
  Ratios are values of any linear order with a zero (\<^verbatim>\<open>qreal\<close>, infinity included); the
  ratio itself (\<^verbatim>\<open>realRatio\<close>), the times in seconds and the limits are what the torrent
  reports.
\<close>

datatype share_limit_action = Default | Stop | Remove | EnableSuperSeeding | RemoveWithContent

record 'r share_limits =
  ratioLimit :: 'r
  seedingTimeLimit :: int
  inactiveSeedingTimeLimit :: int
  shareLimitAction :: share_limit_action

record 'r share_status =
  realRatio :: 'r
  finishedTime :: int
  timeSinceActivity :: int
  superSeeding :: bool

datatype share_effect =
    NoEffect | RemoveTorrent | RemoveTorrentAndContent | StopTorrent | SetSuperSeeding

definition USE_GLOBAL_TIME :: int where
  "USE_GLOBAL_TIME = -2"

definition effectiveLimit :: "'a \<Rightarrow> 'a \<Rightarrow> 'a \<Rightarrow> 'a" where
  "effectiveLimit limit useGlobalLimit globalLimit =
     (if limit = useGlobalLimit then globalLimit else limit)"

text \<open>
  \<^verbatim>\<open>finishedTime() / 60\<close> is C++ division of a count of seconds; \<open>timeSinceActivity\<close>
  is \<open>-1\<close> for a torrent without activity and C++ division rounds that to zero.
\<close>

definition cdiv :: "int \<Rightarrow> int \<Rightarrow> int" where
  "cdiv a b = (if a < 0 then - (- a div b) else a div b)"

definition share_limit_reached ::
  "'r::{linorder,zero} \<Rightarrow> 'r share_limits \<Rightarrow> 'r share_limits \<Rightarrow> 'r share_status \<Rightarrow> bool" where
  "share_limit_reached useGlobalRatio global limits st =
     (let ratioLim = effectiveLimit (ratioLimit limits) useGlobalRatio (ratioLimit global);
          seedingTimeLim = effectiveLimit (seedingTimeLimit limits) USE_GLOBAL_TIME (seedingTimeLimit global);
          inactiveLim = effectiveLimit (inactiveSeedingTimeLimit limits) USE_GLOBAL_TIME
                          (inactiveSeedingTimeLimit global)
      in if ratioLim \<ge> 0 \<and> realRatio st \<ge> ratioLim then True
         else if seedingTimeLim \<ge> 0 \<and> cdiv (finishedTime st) 60 \<ge> seedingTimeLim then True
         else if inactiveLim \<ge> 0 \<and> cdiv (timeSinceActivity st) 60 \<ge> inactiveLim then True
         else False)"

definition processTorrentShareLimits ::
  "'r::{linorder,zero} \<Rightarrow> 'r share_limits \<Rightarrow> 'r share_limits \<Rightarrow> 'r share_status \<Rightarrow> torrent \<Rightarrow> share_effect" where
  "processTorrentShareLimits useGlobalRatio global limits st t =
     (if \<not> isFinished t \<or> isForced t then NoEffect
      else if share_limit_reached useGlobalRatio global limits st then
        (let action = (if shareLimitAction limits = Default then shareLimitAction global
                       else shareLimitAction limits)
         in if action = Remove then RemoveTorrent
            else if action = RemoveWithContent then RemoveTorrentAndContent
            else if action = Stop \<and> \<not> isStopped t then StopTorrent
            else if action = EnableSuperSeeding \<and> \<not> isStopped t \<and> \<not> superSeeding st then SetSuperSeeding
            else NoEffect)
      else NoEffect)"

section \<open>What the shown state promises\<close>

abbreviation shown_as :: "filter_type \<Rightarrow> torrent \<Rightarrow> bool" where
  "shown_as ty t \<equiv> matchState (mkFilter ty None None None None) t"

lemma matchState_mkFilter [simp]:
  "shown_as FAll t"
  "shown_as FDownloading t = isDownloading t"
  "shown_as FSeeding t = isUploading t"
  "shown_as FCompleted t = isCompleted t"
  "shown_as FStopped t = isStopped t"
  "shown_as FRunning t = isRunning t"
  "shown_as FActive t = isActive t"
  "shown_as FInactive t = isInactive t"
  "shown_as FMoving t = isMoving t"
  "shown_as FErrored t = isErrored t"
  by (simp_all add: matchState_def mkFilter_def)

lemma updateState_fields [simp]:
  "m_nativeStatus (updateState q t) = m_nativeStatus t"
  "m_isStopped (updateState q t) = m_isStopped t"
  "m_operatingMode (updateState q t) = m_operatingMode t"
  "m_category (updateState q t) = m_category t"
  "m_tags (updateState q t) = m_tags t"
  "m_hasMissingFiles (updateState q t) = m_hasMissingFiles t"
  "m_storageIsMoving (updateState q t) = m_storageIsMoving t"
  "m_hasMetadata (updateState q t) = m_hasMetadata t"
  "m_maintenanceJob (updateState q t) = m_maintenanceJob t"
  "m_nativeHandle (updateState q t) = m_nativeHandle t"
  "torrent_id (updateState q t) = torrent_id t"
  "m_useAutoTMM (updateState q t) = m_useAutoTMM t"
  by (simp_all add: updateState_def)

text \<open>A torrent's state agrees with what it was computed from.\<close>

lemma updateState_completed:
  "isCompleted (updateState q t) \<Longrightarrow>
     isStopped t = (m_state (updateState q t) = StoppedUploading)"
  by (auto simp: updateState_def predicate_defs split: if_splits)

lemma updateState_stopped_active:
  "isStopped t \<Longrightarrow> isActive (updateState q t) \<Longrightarrow> isMoving (updateState q t)"
  by (auto simp: updateState_def predicate_defs split: if_splits)

lemma updateState_idem: "updateState q (updateState q t) = updateState q t"
  by (simp add: updateState_def predicate_defs)

lemma seeding_iff: "isUploading (updateState q t) \<longleftrightarrow> isCompleted (updateState q t) \<and> \<not> isStopped t"
proof -
  have "isUploading t' \<longleftrightarrow> isCompleted t' \<and> m_state t' \<noteq> StoppedUploading" for t'
    by (cases "m_state t'") (simp_all add: isUploading_def isCompleted_def)
  then show ?thesis using updateState_completed by blast
qed

lemma five_classes:
  "m_state t \<noteq> Unknown \<Longrightarrow>
     length (filter (\<lambda>ty. shown_as ty t) [FDownloading, FCompleted, FMoving, FErrored])
       = (if m_state t = CheckingResumeData then 0 else 1)"
  by (cases "m_state t") (simp_all add: isDownloading_def isCompleted_def isMoving_def isErrored_def)

lemma updateState_not_Unknown: "m_state (updateState q t) \<noteq> Unknown"
  by (simp add: updateState_def)

text \<open>
  C27. The state a torrent shows puts it under exactly one of the filters \<open>downloading\<close>,
  \<open>completed\<close>, \<open>moving\<close> and \<open>errored\<close>, or under none while its resume data is
  checked; it is \<open>seeding\<close> exactly when it is completed and running; a stopped torrent is
  active only while it is being moved; and computing the state again changes nothing.
\<close>
theorem shown_state_classes:
  "let t' = updateState q t
   in length (filter (\<lambda>ty. shown_as ty t') [FDownloading, FCompleted, FMoving, FErrored])
        = (if ns_state (m_nativeStatus t) = Lt_checking_resume_data then 0 else 1)
      \<and> shown_as FSeeding t' = (shown_as FCompleted t' \<and> shown_as FRunning t')
      \<and> (shown_as FActive t' \<and> shown_as FStopped t' \<longrightarrow> shown_as FMoving t')
      \<and> shown_as FInactive t' = (\<not> shown_as FActive t')
      \<and> updateState q t' = t'"
proof -
  have cr: "m_state (updateState q t) = CheckingResumeData
      \<longleftrightarrow> ns_state (m_nativeStatus t) = Lt_checking_resume_data"
    by (simp add: updateState_def)
  show ?thesis
    unfolding Let_def five_classes [OF updateState_not_Unknown] cr
    using seeding_iff [of q t] updateState_stopped_active [of t q] updateState_idem [of q t]
    by (simp add: isRunning_def isStopped_def isInactive_def)
qed

definition sample_status :: native_status where
  "sample_status =
     \<lparr>ns_state = Lt_seeding, ns_auto_managed = True, ns_paused = False, ns_upload_mode = False,
      ns_errc = False, ns_upload_payload_rate = 5, ns_download_payload_rate = 0,
      ns_save_path = ''/d''\<rparr>"

definition sample_torrent :: torrent where
  "sample_torrent =
     \<lparr>torrent_id = ''i'', m_nativeHandle = 0, m_nativeStatus = sample_status, m_state = Unknown, m_isStopped = True,
      m_operatingMode = AutoManaged, m_hasMissingFiles = False, m_hasFinishedStatus = True,
      m_storageIsMoving = True, m_maintenanceJob = NoJob, m_stopCondition = StopNone,
      m_hasMetadata = True, m_isPrivate = False, m_category = ''a/b'', m_tags = {''x''},
      m_useAutoTMM = False, m_savePath = ''/d'', m_downloadPath = []\<rparr>"

lemmas sample_defs = sample_torrent_def sample_status_def

theorem shown_state_classes_witness:
  "shown_as FActive (updateState True sample_torrent) \<and> shown_as FStopped (updateState True sample_torrent)
   \<and> shown_as FMoving (updateState True sample_torrent)"
proof -
  have a: "shown_as FActive (updateState True sample_torrent)"
      "shown_as FStopped (updateState True sample_torrent)"
    by (simp_all add: sample_defs updateState_def predicate_defs)
  show ?thesis using a shown_state_classes [of True sample_torrent] unfolding Let_def by blast
qed

section \<open>What stopping and starting does\<close>

text \<open>The next status update after an operation: libtorrent has carried out its commands.\<close>

definition settled :: "bool \<Rightarrow> torrent \<times> native_command list \<Rightarrow> torrent" where
  "settled q r =
     updateState q ((fst r)\<lparr>m_nativeStatus := native_exec (snd r) (m_nativeStatus (fst r))\<rparr>)"

text \<open>A torrent that is neither checked nor moved and has its metadata and files.\<close>

definition plain_torrent :: "torrent \<Rightarrow> bool" where
  "plain_torrent t \<longleftrightarrow>
     ns_state (m_nativeStatus t) \<noteq> Lt_checking_resume_data
     \<and> ns_state (m_nativeStatus t) \<noteq> Lt_checking_files
     \<and> \<not> m_storageIsMoving t \<and> \<not> m_hasMissingFiles t \<and> m_hasMetadata t
     \<and> m_maintenanceJob t = NoJob"

lemma updateState_plain:
  assumes "plain_torrent t" and "\<not> hasError t"
  shows "m_state (updateState q t) =
     (if isFinished t then
        (if isStopped t then StoppedUploading else if isQueued q t then QueuedUploading
         else if isForced t then ForcedUploading
         else if ns_upload_payload_rate (m_nativeStatus t) > 0 then Uploading else StalledUploading)
      else
        (if isStopped t then StoppedDownloading else if isQueued q t then QueuedDownloading
         else if isForced t then ForcedDownloading
         else if ns_download_payload_rate (m_nativeStatus t) > 0 then Downloading
         else StalledDownloading))"
  using assms
  by (simp add: updateState_def plain_torrent_def isMoveInProgress_def hasMissingFiles_def hasMetadata_def)

text \<open>The torrent after the commands of an operation have been carried out.\<close>

definition executed :: "torrent \<times> native_command list \<Rightarrow> torrent" where
  "executed r = (fst r)\<lparr>m_nativeStatus := native_exec (snd r) (m_nativeStatus (fst r))\<rparr>"

lemma settled_executed: "settled q r = updateState q (executed r)"
  by (simp add: settled_def executed_def)

lemma executed_stop:
  assumes "plain_torrent t"
  shows "plain_torrent (executed (torrent_stop t))"
    and "hasError (executed (torrent_stop t)) = hasError t"
    and "isFinished (executed (torrent_stop t)) = isFinished t"
    and "isStopped (executed (torrent_stop t))"
    and "ns_paused (m_nativeStatus (executed (torrent_stop t)))"
  using assms
  by (simp_all add: executed_def torrent_stop_def plain_torrent_def hasError_def isFinished_def
      isStopped_def Let_def)

lemma executed_start:
  assumes "plain_torrent t"
  shows "plain_torrent (executed (torrent_start mode t))"
    and "\<not> hasError (executed (torrent_start mode t))"
    and "isFinished (executed (torrent_start mode t)) = isFinished t"
    and "\<not> isStopped (executed (torrent_start mode t))"
    and "m_operatingMode (executed (torrent_start mode t)) = mode"
    and "ns_auto_managed (m_nativeStatus (executed (torrent_start mode t))) = (mode = AutoManaged)"
    and "ns_paused (m_nativeStatus (executed (torrent_start mode t)))
           = (ns_paused (m_nativeStatus t) \<and> mode \<noteq> Forced)"
  using assms
  by (cases mode; simp add: executed_def torrent_start_def plain_torrent_def hasError_def
      isFinished_def isStopped_def Let_def)+

lemma stop_settled:
  assumes "plain_torrent t" and "\<not> hasError t"
  shows "m_state (settled q (torrent_stop t)) = (if isFinished t then StoppedUploading else StoppedDownloading)"
  using assms by (simp add: settled_executed updateState_plain executed_stop)

lemma start_forced_settled:
  assumes "plain_torrent t"
  shows "m_state (settled q (torrent_start Forced t)) = (if isFinished t then ForcedUploading else ForcedDownloading)"
  using assms
  by (simp add: settled_executed updateState_plain executed_start isQueued_def isForced_def)

lemma start_managed_paused:
  assumes "plain_torrent t" and "ns_paused (m_nativeStatus t)"
  shows "m_state (settled True (torrent_start AutoManaged t)) = (if isFinished t then QueuedUploading else QueuedDownloading)"
  using assms
  by (simp add: settled_executed updateState_plain executed_start isQueued_def)

lemma settled_fields:
  "plain_torrent (settled q r) = plain_torrent (executed r)"
  "isFinished (settled q r) = isFinished (executed r)"
  "isStopped (settled q r) = isStopped (executed r)"
  "m_nativeStatus (settled q r) = m_nativeStatus (executed r)"
  by (simp_all add: settled_executed plain_torrent_def isFinished_def isStopped_def)

text \<open>
  Stopping a torrent and starting it again, each seen at the next status update: after the
  stop it shows as stopped, on the side (uploading or downloading) it was on, and is inactive;
  started in automatic mode with queueing enabled it is queued until libtorrent resumes it, and
  started by force it runs as forced whatever the queue, any error it had being cleared.
\<close>
theorem stop_then_start:
  assumes "plain_torrent t" and "\<not> hasError t"
  shows "let stopped = settled True (torrent_stop t)
         in m_state stopped = (if isFinished t then StoppedUploading else StoppedDownloading)
            \<and> isInactive stopped \<and> isStopped stopped
            \<and> m_state (settled True (torrent_start AutoManaged stopped))
                = (if isFinished t then QueuedUploading else QueuedDownloading)
            \<and> m_state (settled True (torrent_start Forced stopped))
                = (if isFinished t then ForcedUploading else ForcedDownloading)"
proof -
  let ?s = "settled True (torrent_stop t)"
  have s: "m_state ?s = (if isFinished t then StoppedUploading else StoppedDownloading)"
    using assms by (rule stop_settled)
  have p: "plain_torrent ?s" "ns_paused (m_nativeStatus ?s)"
    using assms(1) by (simp_all add: settled_fields executed_stop)
  have "isStopped ?s" using assms(1) by (simp add: settled_fields executed_stop)
  moreover have "isInactive ?s" using s by (simp add: isInactive_def isActive_def)
  ultimately show ?thesis
    using s start_managed_paused [OF p] start_forced_settled [OF p(1), of True]
    by (simp add: Let_def settled_fields executed_stop assms(1))
qed

theorem stop_then_start_witness:
  "m_state (settled True (torrent_stop (sample_torrent\<lparr>m_storageIsMoving := False\<rparr>))) = StoppedUploading"
proof -
  let ?t = "sample_torrent\<lparr>m_storageIsMoving := False\<rparr>"
  have "plain_torrent ?t" "\<not> hasError ?t" "isFinished ?t"
    by (simp_all add: plain_torrent_def hasError_def isFinished_def sample_defs)
  then show ?thesis using stop_then_start [of ?t] by (simp add: Let_def)
qed

section \<open>What the share limits do\<close>

text \<open>The action has been carried out.\<close>

definition carry_out :: "share_effect \<Rightarrow> 'r share_status \<Rightarrow> torrent \<Rightarrow> 'r share_status \<times> torrent" where
  "carry_out e st t =
     (if e = StopTorrent then (st, fst (torrent_stop t))
      else if e = SetSuperSeeding then (st\<lparr>superSeeding := True\<rparr>, t)
      else (st, t))"

lemma cdiv_mono: "a \<le> b \<Longrightarrow> 0 < n \<Longrightarrow> cdiv a n \<le> cdiv b n"
proof -
  assume ab: "a \<le> b" and n: "0 < n"
  show ?thesis
  proof (cases "b < 0")
    case True
    then show ?thesis using ab n by (simp add: cdiv_def zdiv_mono1)
  next
    case False
    have "0 \<le> b div n" using False n by (simp add: pos_imp_zdiv_nonneg_iff)
    moreover have "a < 0 \<Longrightarrow> 0 \<le> - a div n" using n by (simp add: pos_imp_zdiv_nonneg_iff)
    ultimately show ?thesis using False ab n by (auto simp: cdiv_def zdiv_mono1)
  qed
qed

lemma reached_mono:
  assumes "share_limit_reached g glob lim st"
    and "realRatio st \<le> realRatio st'" and "finishedTime st \<le> finishedTime st'"
    and "timeSinceActivity st \<le> timeSinceActivity st'"
  shows "share_limit_reached g glob lim st'"
  using assms cdiv_mono [of "finishedTime st" "finishedTime st'" 60]
    cdiv_mono [of "timeSinceActivity st" "timeSinceActivity st'" 60]
  unfolding share_limit_reached_def Let_def
  by (auto split: if_splits intro: order_trans)

text \<open>
  The share limits act at most once and never too early: a forced or unfinished torrent and
  a torrent whose limits, the global ones included, are all negative are left alone; once the
  torrent has been stopped or super seeding been enabled, processing it again does nothing; and a
  limit that is reached stays reached as the ratio and the times grow.
\<close>
theorem share_limits_once:
  fixes glob lim :: "'r::{linorder,zero} share_limits"
  shows "(isForced t \<or> \<not> isFinished t \<longrightarrow> processTorrentShareLimits g glob lim st t = NoEffect)
     \<and> (effectiveLimit (ratioLimit lim) g (ratioLimit glob) < 0
         \<and> effectiveLimit (seedingTimeLimit lim) USE_GLOBAL_TIME (seedingTimeLimit glob) < 0
         \<and> effectiveLimit (inactiveSeedingTimeLimit lim) USE_GLOBAL_TIME (inactiveSeedingTimeLimit glob) < 0
         \<longrightarrow> processTorrentShareLimits g glob lim st t = NoEffect)
     \<and> (let e = processTorrentShareLimits g glob lim st t; (st', t') = carry_out e st t
        in e \<in> {StopTorrent, SetSuperSeeding} \<longrightarrow> processTorrentShareLimits g glob lim st' t' = NoEffect)
     \<and> (processTorrentShareLimits g glob lim st t \<noteq> NoEffect \<and> realRatio st \<le> realRatio st' \<and> finishedTime st \<le> finishedTime st'
         \<and> timeSinceActivity st \<le> timeSinceActivity st' \<and> superSeeding st' = superSeeding st
         \<longrightarrow> processTorrentShareLimits g glob lim st' t = processTorrentShareLimits g glob lim st t)"
proof (intro conjI impI)
  show "processTorrentShareLimits g glob lim st t = NoEffect" if "isForced t \<or> \<not> isFinished t"
    using that by (auto simp: processTorrentShareLimits_def)
next
  assume "effectiveLimit (ratioLimit lim) g (ratioLimit glob) < 0
         \<and> effectiveLimit (seedingTimeLimit lim) USE_GLOBAL_TIME (seedingTimeLimit glob) < 0
         \<and> effectiveLimit (inactiveSeedingTimeLimit lim) USE_GLOBAL_TIME (inactiveSeedingTimeLimit glob) < 0"
  then have "\<not> share_limit_reached g glob lim st"
    by (auto simp: share_limit_reached_def Let_def)
  then show "processTorrentShareLimits g glob lim st t = NoEffect" by (simp add: processTorrentShareLimits_def)
next
  show "let e = processTorrentShareLimits g glob lim st t; (st', t') = carry_out e st t
        in e \<in> {StopTorrent, SetSuperSeeding} \<longrightarrow> processTorrentShareLimits g glob lim st' t' = NoEffect"
    by (auto simp: carry_out_def Let_def processTorrentShareLimits_def torrent_stop_def
        isStopped_def isForced_def share_limit_reached_def split: if_splits)
next
  assume a: "processTorrentShareLimits g glob lim st t \<noteq> NoEffect \<and> realRatio st \<le> realRatio st' \<and> finishedTime st \<le> finishedTime st'
         \<and> timeSinceActivity st \<le> timeSinceActivity st' \<and> superSeeding st' = superSeeding st"
  then have "share_limit_reached g glob lim st"
    by (auto simp: processTorrentShareLimits_def split: if_splits)
  then have "share_limit_reached g glob lim st'" using a reached_mono by blast
  with a show "processTorrentShareLimits g glob lim st' t = processTorrentShareLimits g glob lim st t"
    by (auto simp: processTorrentShareLimits_def Let_def split: if_splits)
qed

theorem share_limits_once_witness:
  "let glob = \<lparr>ratioLimit = 2, seedingTimeLimit = -1, inactiveSeedingTimeLimit = -1, shareLimitAction = Stop\<rparr>;
       lim = \<lparr>ratioLimit = -2, seedingTimeLimit = -2, inactiveSeedingTimeLimit = -2, shareLimitAction = Default\<rparr>;
       st = \<lparr>realRatio = 3, finishedTime = 0, timeSinceActivity = -1, superSeeding = False\<rparr>;
       t = sample_torrent\<lparr>m_isStopped := False\<rparr>;
       st2 = \<lparr>realRatio = 4, finishedTime = 60, timeSinceActivity = 5, superSeeding = False\<rparr>
   in processTorrentShareLimits (-2 :: int) glob lim st t = StopTorrent
      \<and> processTorrentShareLimits (-2) glob lim st (fst (torrent_stop t)) = NoEffect
      \<and> processTorrentShareLimits (-2) glob lim st2 t = StopTorrent"
proof -
  let ?glob = "\<lparr>ratioLimit = 2, seedingTimeLimit = -1, inactiveSeedingTimeLimit = -1, shareLimitAction = Stop\<rparr> :: int share_limits"
  let ?lim = "\<lparr>ratioLimit = -2, seedingTimeLimit = -2, inactiveSeedingTimeLimit = -2, shareLimitAction = Default\<rparr> :: int share_limits"
  let ?st = "\<lparr>realRatio = 3, finishedTime = 0, timeSinceActivity = -1, superSeeding = False\<rparr> :: int share_status"
  let ?st2 = "\<lparr>realRatio = 4, finishedTime = 60, timeSinceActivity = 5, superSeeding = False\<rparr> :: int share_status"
  let ?t = "sample_torrent\<lparr>m_isStopped := False\<rparr>"
  have a: "processTorrentShareLimits (-2) ?glob ?lim ?st ?t = StopTorrent"
    by (simp add: processTorrentShareLimits_def share_limit_reached_def effectiveLimit_def
        isFinished_def isForced_def isStopped_def sample_defs)
  show ?thesis
    using a share_limits_once [of ?t "-2" ?glob ?lim ?st ?st2]
    by (simp add: Let_def carry_out_def)
qed

end
