(* ===== verification/Move_Storage.thy ===== *)
theory Move_Storage
  imports Torrent_State Path
begin

text \<open>
  The queue of storage moves (\<^verbatim>\<open>SessionImpl::addMoveTorrentStorageJob\<close>,
  \<^verbatim>\<open>handleMoveTorrentStorageJobFinished\<close>, \<^verbatim>\<open>removeTorrent\<close>, and the
  torrent's side of it: \<^verbatim>\<open>moveStorage\<close>, \<^verbatim>\<open>handleMoveStorageJobFinished\<close>,
  \<^verbatim>\<open>reload\<close>). libtorrent is the part of the state that says which handles are valid,
  which torrent each stands for, and which move it is busy with (it is asked for one at a time);
  the status it gives a torrent that is added again is the parameter \<open>rs\<close>.
\<close>

section \<open>State\<close>

datatype move_mode = FailIfExist | KeepExistingFiles | Overwrite
datatype move_context = AdjustCurrentLocation | ChangeSavePath | ChangeDownloadPath
datatype remove_option = KeepContent | RemoveContent

record move_job =
  job_handle :: nat
  job_path :: path
  job_mode :: move_mode
  job_context :: move_context

record removing_torrent =
  contentStoragePath :: path
  removeOption :: remove_option

record move_session =
  s_torrents :: "qbytearray \<rightharpoonup> torrent"
  s_moveQueue :: "move_job list"
  s_removing :: "qbytearray \<rightharpoonup> removing_torrent"
  s_queueing :: bool
  s_native :: "nat \<rightharpoonup> qbytearray"
  s_nextHandle :: nat
  s_outstanding :: "(nat \<times> path) option"

text \<open>The info hash of a handle; that of a handle no longer valid is the null hash.\<close>

definition null_hash :: qbytearray where
  "null_hash = []"

definition handle_info_hash :: "('a) move_session_scheme \<Rightarrow> nat \<Rightarrow> qbytearray" where
  "handle_info_hash s h = (case s_native s h of Some i \<Rightarrow> i | None \<Rightarrow> null_hash)"

definition actualStorageLocation :: "torrent \<Rightarrow> path" where
  "actualStorageLocation t = (if \<not> hasMetadata t then [] else ns_save_path (m_nativeStatus t))"

section \<open>Operations\<close>

definition put_torrent :: "qbytearray \<Rightarrow> torrent \<Rightarrow> 'a move_session_scheme \<Rightarrow> 'a move_session_scheme" where
  "put_torrent i t s = s\<lparr>s_torrents := (s_torrents s)(i \<mapsto> t)\<rparr>"

definition torrent_reload ::
  "(torrent \<Rightarrow> native_status) \<Rightarrow> qbytearray \<Rightarrow> torrent \<Rightarrow> 'a move_session_scheme \<Rightarrow> 'a move_session_scheme" where
  "torrent_reload rs i t s =
     (let h = s_nextHandle s
      in put_torrent i
           (updateState (s_queueing s) (t\<lparr>m_nativeHandle := h, m_nativeStatus := rs t\<rparr>))
           (s\<lparr>s_native := (s_native s)(m_nativeHandle t := None, h \<mapsto> i), s_nextHandle := Suc h\<rparr>))"

definition handleMoveStorageJobFinished ::
  "(torrent \<Rightarrow> native_status) \<Rightarrow> qbytearray \<Rightarrow> torrent \<Rightarrow> path \<Rightarrow> move_context \<Rightarrow> bool
     \<Rightarrow> 'a move_session_scheme \<Rightarrow> 'a move_session_scheme" where
  "handleMoveStorageJobFinished rs i t p ctx hasOutstandingJob s =
     (let t1 = (if ctx = ChangeSavePath then t\<lparr>m_savePath := p\<rparr>
                else if ctx = ChangeDownloadPath then t\<lparr>m_downloadPath := p\<rparr> else t);
          t2 = t1\<lparr>m_storageIsMoving := hasOutstandingJob,
                  m_nativeStatus := (m_nativeStatus t1)\<lparr>ns_save_path := p\<rparr>\<rparr>
      in if m_storageIsMoving t2 then put_torrent i t2 s
         else (let t3 = updateState (s_queueing s) t2
               in if m_hasMissingFiles t3
                  then torrent_reload rs i (t3\<lparr>m_hasMissingFiles := False\<rparr>) s
                  else put_torrent i t3 s))"

text \<open>
  \<^verbatim>\<open>move_storage\<close> throws on a handle whose torrent libtorrent has let go of
  (\<^verbatim>\<open>lt::errors::invalid_torrent_handle\<close>); \<open>None\<close> is the exception. Nothing has been changed
  by then.
\<close>

definition moveTorrentStorage ::
  "move_job \<Rightarrow> 'a move_session_scheme \<Rightarrow> ('a move_session_scheme) option" where
  "moveTorrentStorage job s =
     (if s_native s (job_handle job) = None then None
      else Some (s\<lparr>s_outstanding := Some (job_handle job, job_path job)\<rparr>))"

fun erase_first :: "('a \<Rightarrow> bool) \<Rightarrow> 'a list \<Rightarrow> 'a list" where
  "erase_first P [] = []"
| "erase_first P (x # xs) = (if P x then xs else x # erase_first P xs)"

text \<open>
  The result is what the function returns and the state it leaves; \<open>None\<close> when the exception of
  \<^verbatim>\<open>moveTorrentStorage\<close> leaves it, the job then queued but not started.
\<close>

definition addMoveTorrentStorageJob ::
  "(torrent \<Rightarrow> native_status) \<Rightarrow> qbytearray \<Rightarrow> torrent \<Rightarrow> path \<Rightarrow> move_mode \<Rightarrow> move_context
     \<Rightarrow> 'a move_session_scheme \<Rightarrow> bool option \<times> 'a move_session_scheme" where
  "addMoveTorrentStorageJob rs i t newPath mode ctx s =
     (let torrentHandle = m_nativeHandle t;
          currentLocation = actualStorageLocation t;
          q = s_moveQueue s;
          torrentHasActiveJob = (q \<noteq> [] \<and> job_handle (hd q) = torrentHandle);
          s1 = (if length q > 1 then
                  (case find (\<lambda>j. job_handle j = torrentHandle) (tl q) of
                     Some job \<Rightarrow>
                       (handleMoveStorageJobFinished rs i t currentLocation (job_context job)
                          torrentHasActiveJob s)
                       \<lparr>s_moveQueue := hd q # erase_first (\<lambda>j. job_handle j = torrentHandle) (tl q)\<rparr>
                   | None \<Rightarrow> s)
                else s)
      in if (if torrentHasActiveJob then job_path (hd (s_moveQueue s1)) = newPath
             else currentLocation = newPath)
         then (Some False, s1)
         else
           (let job = \<lparr>job_handle = torrentHandle, job_path = newPath, job_mode = mode, job_context = ctx\<rparr>;
                s2 = s1\<lparr>s_moveQueue := s_moveQueue s1 @ [job]\<rparr>
            in case (if length (s_moveQueue s2) = 1 then moveTorrentStorage job s2 else Some s2) of
                 None \<Rightarrow> (None, s2)
               | Some s3 \<Rightarrow> (Some True, s3)))"

text \<open>
  \<^verbatim>\<open>TorrentImpl::moveStorage\<close>. An exception skips the rest of it; in a state that keeps the
  invariant below there is none (\<open>moveStorage_returns\<close>).
\<close>

definition moveStorage ::
  "(torrent \<Rightarrow> native_status) \<Rightarrow> qbytearray \<Rightarrow> path \<Rightarrow> move_context
     \<Rightarrow> 'a move_session_scheme \<Rightarrow> 'a move_session_scheme" where
  "moveStorage rs i newPath ctx s =
     (case s_torrents s i of
        None \<Rightarrow> s
      | Some t \<Rightarrow>
          if \<not> hasMetadata t then
            (if ctx = ChangeSavePath then put_torrent i (t\<lparr>m_savePath := newPath\<rparr>) s
             else if ctx = ChangeDownloadPath then put_torrent i (t\<lparr>m_downloadPath := newPath\<rparr>) s
             else s)
          else
            (let mode = (if ctx = AdjustCurrentLocation then Overwrite else KeepExistingFiles)
             in case addMoveTorrentStorageJob rs i t newPath mode ctx s of
                  (None, s1) \<Rightarrow> s1
                | (Some False, s1) \<Rightarrow> s1
                | (Some True, s1) \<Rightarrow>
                    (case s_torrents s1 i of
                       None \<Rightarrow> s1
                     | Some t1 \<Rightarrow>
                         if \<not> m_storageIsMoving t1
                         then put_torrent i (updateState (s_queueing s1) (t1\<lparr>m_storageIsMoving := True\<rparr>)) s1
                         else s1)))"

definition remove_native :: "nat \<Rightarrow> 'a move_session_scheme \<Rightarrow> 'a move_session_scheme" where
  "remove_native h s = s\<lparr>s_native := (s_native s)(h := None)\<rparr>"

text \<open>\<^verbatim>\<open>m_removingTorrents[hash]\<close>: an absent entry is created, its option
  \<^verbatim>\<open>KeepContent\<close>.\<close>

definition removing_subscript ::
  "qbytearray \<Rightarrow> 'a move_session_scheme \<Rightarrow> removing_torrent \<times> 'a move_session_scheme" where
  "removing_subscript i s =
     (case s_removing s i of
        Some d \<Rightarrow> (d, s)
      | None \<Rightarrow> (let d = \<lparr>contentStoragePath = [], removeOption = KeepContent\<rparr>
                 in (d, s\<lparr>s_removing := (s_removing s)(i \<mapsto> d)\<rparr>)))"

text \<open>
  An exception of \<^verbatim>\<open>moveTorrentStorage\<close> leaves the handler, the finished job already taken
  out; \<^verbatim>\<open>SessionImpl::handleAlert\<close> catches and logs it.
\<close>

definition handleMoveTorrentStorageJobFinished ::
  "(torrent \<Rightarrow> native_status) \<Rightarrow> path \<Rightarrow> 'a move_session_scheme \<Rightarrow> 'a move_session_scheme" where
  "handleMoveTorrentStorageJobFinished rs newPath s =
     (case s_moveQueue s of
        [] \<Rightarrow> s
      | finishedJob # rest \<Rightarrow>
          (let s1 = s\<lparr>s_moveQueue := rest\<rparr>
           in case (if rest \<noteq> [] then moveTorrentStorage (hd rest) s1 else Some s1) of
                None \<Rightarrow> s1
              | Some s2 \<Rightarrow>
                  (let torrentHasOutstandingJob =
                         list_ex (\<lambda>j. job_handle j = job_handle finishedJob) rest;
                       i = handle_info_hash s2 (job_handle finishedJob)
                   in case s_torrents s2 i of
                        Some t \<Rightarrow>
                          handleMoveStorageJobFinished rs i t newPath (job_context finishedJob)
                            torrentHasOutstandingJob s2
                      | None \<Rightarrow>
                          if \<not> torrentHasOutstandingJob then
                            (case removing_subscript i s2 of
                               (d, s3) \<Rightarrow> if removeOption d = KeepContent
                                          then remove_native (job_handle finishedJob) s3 else s3)
                          else s2)))"

text \<open>The alerts: the move libtorrent is busy with has ended, at its target or where it was.\<close>

definition handleStorageMovedAlert ::
  "(torrent \<Rightarrow> native_status) \<Rightarrow> 'a move_session_scheme \<Rightarrow> 'a move_session_scheme" where
  "handleStorageMovedAlert rs s =
     (case s_outstanding s of
        None \<Rightarrow> s
      | Some (h, p) \<Rightarrow> handleMoveTorrentStorageJobFinished rs p (s\<lparr>s_outstanding := None\<rparr>))"

text \<open>A torrent no longer in the session has its location from the alert's handle (\<open>loc\<close>).\<close>

definition handleStorageMovedFailedAlert ::
  "(torrent \<Rightarrow> native_status) \<Rightarrow> path \<Rightarrow> 'a move_session_scheme \<Rightarrow> 'a move_session_scheme" where
  "handleStorageMovedFailedAlert rs loc s =
     (case s_outstanding s of
        None \<Rightarrow> s
      | Some (h, p) \<Rightarrow>
          (let currentLocation = (case s_torrents s (handle_info_hash s h) of
                                    Some t \<Rightarrow> actualStorageLocation t
                                  | None \<Rightarrow> loc)
           in handleMoveTorrentStorageJobFinished rs currentLocation (s\<lparr>s_outstanding := None\<rparr>)))"

definition removeTorrent :: "qbytearray \<Rightarrow> remove_option \<Rightarrow> 'a move_session_scheme \<Rightarrow> bool \<times> 'a move_session_scheme" where
  "removeTorrent i deleteOption s =
     (case s_torrents s i of
        None \<Rightarrow> (False, s)
      | Some t \<Rightarrow>
          (let s1 = s\<lparr>s_torrents := (s_torrents s)(i := None),
                      s_removing := (s_removing s)(i \<mapsto>
                        \<lparr>contentStoragePath = actualStorageLocation t, removeOption = deleteOption\<rparr>)\<rparr>;
               q = s_moveQueue s1
           in (True,
               if deleteOption = KeepContent then
                 (if list_ex (\<lambda>j. job_handle j = m_nativeHandle t) q then s1
                  else remove_native (m_nativeHandle t) s1)
               else
                 remove_native (m_nativeHandle t)
                   (if length q > 1
                    then s1\<lparr>s_moveQueue := hd q # erase_first (\<lambda>j. job_handle j = m_nativeHandle t) (tl q)\<rparr>
                    else s1))))"

text \<open>libtorrent tells that a torrent is gone: its contents are removed elsewhere.\<close>

definition handleRemovedTorrent :: "qbytearray \<Rightarrow> 'a move_session_scheme \<Rightarrow> 'a move_session_scheme" where
  "handleRemovedTorrent i s =
     (case s_removing s i of None \<Rightarrow> s | Some _ \<Rightarrow> s\<lparr>s_removing := (s_removing s)(i := None)\<rparr>)"

section \<open>What can happen\<close>

text \<open>
  The steps of a session. A torrent that is added is new to libtorrent and gets a fresh handle;
  what the program does to a torrent keeps its handle and its moving state (\<open>change\<close>: its files
  may turn out to be missing) or reloads it under a new handle (\<open>reload\<close>: it is started with
  missing files, or its metadata has come); an alert comes for the move libtorrent is busy with;
  a torrent is reported gone when libtorrent no longer has it. Two courses are left out, in which
  a job is queued under a handle that is reloaded: a torrent with missing files is not moved
  while its only job waits behind others (\<open>waits_missing\<close>), and a torrent that is being moved is not
  reloaded by anything but the end of the move. The first is \<open>missing_files_wedge_queue\<close>, the
  second would leave every queued job of the torrent under a handle that is no longer its own.
\<close>

definition waits_missing :: "'a move_session_scheme \<Rightarrow> torrent \<Rightarrow> bool" where
  "waits_missing s t \<longleftrightarrow> m_hasMissingFiles t
     \<and> m_nativeHandle t \<in> job_handle ` set (tl (s_moveQueue s))
     \<and> job_handle (hd (s_moveQueue s)) \<noteq> m_nativeHandle t"

inductive move_step :: "(torrent \<Rightarrow> native_status) \<Rightarrow> move_session \<Rightarrow> move_session \<Rightarrow> bool"
  for rs :: "torrent \<Rightarrow> native_status" where
  add: "s_torrents s i = None \<Longrightarrow> i \<notin> ran (s_native s) \<Longrightarrow> i \<noteq> null_hash \<Longrightarrow>
        \<not> m_storageIsMoving t \<Longrightarrow>
        move_step rs s (put_torrent i (t\<lparr>m_nativeHandle := s_nextHandle s\<rparr>)
          (s\<lparr>s_native := (s_native s)(s_nextHandle s \<mapsto> i), s_nextHandle := Suc (s_nextHandle s)\<rparr>))"
| change: "s_torrents s i = Some t \<Longrightarrow> m_nativeHandle t' = m_nativeHandle t \<Longrightarrow>
        m_storageIsMoving t' = m_storageIsMoving t \<Longrightarrow> move_step rs s (put_torrent i t' s)"
| reload: "s_torrents s i = Some t \<Longrightarrow> m_nativeHandle t' = m_nativeHandle t \<Longrightarrow>
        \<not> m_storageIsMoving t \<Longrightarrow> \<not> m_storageIsMoving t' \<Longrightarrow> move_step rs s (torrent_reload rs i t' s)"
| move: "\<forall>t. s_torrents s i = Some t \<longrightarrow> \<not> waits_missing s t \<Longrightarrow>
        move_step rs s (moveStorage rs i p ctx s)"
| moved: "s_outstanding s \<noteq> None \<Longrightarrow> move_step rs s (handleStorageMovedAlert rs s)"
| failed: "s_outstanding s \<noteq> None \<Longrightarrow> move_step rs s (handleStorageMovedFailedAlert rs loc s)"
| remove: "move_step rs s (snd (removeTorrent i opt s))"
| gone: "i \<notin> ran (s_native s) \<Longrightarrow> move_step rs s (handleRemovedTorrent i s)"

definition empty_session :: "bool \<Rightarrow> move_session" where
  "empty_session q =
     \<lparr>s_torrents = (\<lambda>_. None), s_moveQueue = [], s_removing = (\<lambda>_. None), s_queueing = q,
      s_native = (\<lambda>_. None), s_nextHandle = 0, s_outstanding = None\<rparr>"

inductive move_reachable :: "(torrent \<Rightarrow> native_status) \<Rightarrow> move_session \<Rightarrow> bool"
  for rs :: "torrent \<Rightarrow> native_status" where
  start: "move_reachable rs (empty_session q)"
| step: "move_reachable rs s \<Longrightarrow> move_step rs s s' \<Longrightarrow> move_reachable rs s'"

section \<open>The invariant\<close>

definition queued_handles :: "'a move_session_scheme \<Rightarrow> nat set" where
  "queued_handles s = job_handle ` set (s_moveQueue s)"

definition inv_queue :: "'a move_session_scheme \<Rightarrow> bool" where
  "inv_queue s \<longleftrightarrow>
     s_outstanding s = (case s_moveQueue s of [] \<Rightarrow> None | j # _ \<Rightarrow> Some (job_handle j, job_path j))
     \<and> distinct (map job_handle (tl (s_moveQueue s)))
     \<and> (\<forall>j \<in> set (tl (s_moveQueue s)). s_native s (job_handle j) \<noteq> None
          \<and> (job_handle j = job_handle (hd (s_moveQueue s)) \<longrightarrow> job_path j \<noteq> job_path (hd (s_moveQueue s))))
     \<and> (\<forall>j \<in> set (s_moveQueue s). job_handle j < s_nextHandle s)"

definition inv_torrents :: "'a move_session_scheme \<Rightarrow> bool" where
  "inv_torrents s \<longleftrightarrow>
     (\<forall>i t. s_torrents s i = Some t \<longrightarrow>
        s_native s (m_nativeHandle t) = Some i
        \<and> m_storageIsMoving t = (m_nativeHandle t \<in> queued_handles s))"

definition inv_native :: "'a move_session_scheme \<Rightarrow> bool" where
  "inv_native s \<longleftrightarrow>
     (\<forall>h i. s_native s h = Some i \<longrightarrow>
        i \<noteq> null_hash \<and> h < s_nextHandle s
        \<and> (case s_torrents s i of
             Some t \<Rightarrow> m_nativeHandle t = h
           | None \<Rightarrow> h \<in> queued_handles s
                      \<and> (\<exists>d. s_removing s i = Some d \<and> removeOption d = KeepContent)))"

definition move_inv :: "'a move_session_scheme \<Rightarrow> bool" where
  "move_inv s \<longleftrightarrow> inv_queue s \<and> inv_torrents s \<and> inv_native s"

lemma move_invE:
  assumes "move_inv s"
  obtains "inv_queue s" "inv_torrents s" "inv_native s"
  using assms by (simp add: move_inv_def)

lemma inv_torrentsD:
  assumes "inv_torrents s" and "s_torrents s i = Some t"
  shows "s_native s (m_nativeHandle t) = Some i"
    "m_storageIsMoving t = (m_nativeHandle t \<in> queued_handles s)"
  using assms by (auto simp: inv_torrents_def)

lemma inv_nativeD:
  assumes "inv_native s" and "s_native s h = Some i"
  shows "i \<noteq> null_hash" "h < s_nextHandle s"
    "s_torrents s i = Some t \<Longrightarrow> m_nativeHandle t = h"
    "s_torrents s i = None \<Longrightarrow> h \<in> queued_handles s"
    "s_torrents s i = None \<Longrightarrow> \<exists>d. s_removing s i = Some d \<and> removeOption d = KeepContent"
proof -
  have *: "i \<noteq> null_hash \<and> h < s_nextHandle s
      \<and> (case s_torrents s i of
           Some t \<Rightarrow> m_nativeHandle t = h
         | None \<Rightarrow> h \<in> queued_handles s \<and> (\<exists>d. s_removing s i = Some d \<and> removeOption d = KeepContent))"
    using assms unfolding inv_native_def by blast
  show "i \<noteq> null_hash" "h < s_nextHandle s" using * by simp_all
  show "s_torrents s i = Some t \<Longrightarrow> m_nativeHandle t = h"
    "s_torrents s i = None \<Longrightarrow> h \<in> queued_handles s"
    "s_torrents s i = None \<Longrightarrow> \<exists>d. s_removing s i = Some d \<and> removeOption d = KeepContent"
    using * by simp_all
qed

lemma put_torrent_simps [simp]:
  "s_torrents (put_torrent i t s) = (s_torrents s)(i \<mapsto> t)"
  "s_moveQueue (put_torrent i t s) = s_moveQueue s"
  "s_removing (put_torrent i t s) = s_removing s"
  "s_queueing (put_torrent i t s) = s_queueing s"
  "s_native (put_torrent i t s) = s_native s"
  "s_nextHandle (put_torrent i t s) = s_nextHandle s"
  "s_outstanding (put_torrent i t s) = s_outstanding s"
  "queued_handles (put_torrent i t s) = queued_handles s"
  by (simp_all add: put_torrent_def queued_handles_def)

lemma put_torrent_queue:
  "(put_torrent i t s)\<lparr>s_moveQueue := q\<rparr> = put_torrent i t (s\<lparr>s_moveQueue := q\<rparr>)"
  by (cases s) (simp add: put_torrent_def)

lemma put_torrent_same: "s_torrents s i = Some t \<Longrightarrow> put_torrent i t s = s"
  by (cases s) (auto simp: put_torrent_def)

lemma put_torrent_twice [simp]:
  "put_torrent i t' (put_torrent i t s) = put_torrent i t' s"
  by (cases s) (simp add: put_torrent_def)

lemma erase_first_filter:
  "distinct (map f xs) \<Longrightarrow> erase_first (\<lambda>x. f x = h) xs = filter (\<lambda>x. f x \<noteq> h) xs"
proof (induction xs)
  case Nil
  show ?case by simp
next
  case (Cons x xs)
  have "filter (\<lambda>y. f y \<noteq> f x) xs = xs"
    using Cons.prems by (intro filter_True) (auto simp: rev_image_eqI)
  with Cons show ?case by auto
qed

lemma erase_first_absent: "\<forall>x \<in> set xs. \<not> P x \<Longrightarrow> erase_first P xs = xs"
  by (induction xs) auto

text \<open>What the torrent's own handler does when no reload is due.\<close>

definition moved_torrent :: "bool \<Rightarrow> path \<Rightarrow> move_context \<Rightarrow> bool \<Rightarrow> torrent \<Rightarrow> torrent" where
  "moved_torrent q p ctx b t =
     (let t1 = (if ctx = ChangeSavePath then t\<lparr>m_savePath := p\<rparr>
                else if ctx = ChangeDownloadPath then t\<lparr>m_downloadPath := p\<rparr> else t);
          t2 = t1\<lparr>m_storageIsMoving := b, m_nativeStatus := (m_nativeStatus t1)\<lparr>ns_save_path := p\<rparr>\<rparr>
      in if b then t2 else updateState q t2)"

lemma moved_torrent_simps [simp]:
  "m_nativeHandle (moved_torrent q p ctx b t) = m_nativeHandle t"
  "m_storageIsMoving (moved_torrent q p ctx b t) = b"
  "m_hasMissingFiles (moved_torrent q p ctx b t) = m_hasMissingFiles t"
  "m_hasMetadata (moved_torrent q p ctx b t) = m_hasMetadata t"
  "ns_save_path (m_nativeStatus (moved_torrent q p ctx b t)) = p"
  by (simp_all add: moved_torrent_def Let_def)

lemma finished_no_reload:
  "b \<or> \<not> m_hasMissingFiles t \<Longrightarrow>
   handleMoveStorageJobFinished rs i t p ctx b s = put_torrent i (moved_torrent (s_queueing s) p ctx b t) s"
  by (auto simp: handleMoveStorageJobFinished_def moved_torrent_def Let_def)

lemma finished_reload:
  "m_hasMissingFiles t \<Longrightarrow>
   handleMoveStorageJobFinished rs i t p ctx False s =
     torrent_reload rs i ((moved_torrent (s_queueing s) p ctx False t)\<lparr>m_hasMissingFiles := False\<rparr>) s"
  by (simp add: handleMoveStorageJobFinished_def moved_torrent_def Let_def)

section \<open>Each step keeps the invariant\<close>

lemma same_handle:
  assumes "move_inv s" and "s_torrents s i = Some t" and "s_torrents s j = Some u"
    and "m_nativeHandle u = m_nativeHandle t"
  shows "j = i"
proof -
  have "inv_torrents s" using assms(1) by (simp add: move_inv_def)
  note inv_torrentsD(1) [OF this assms(2)] inv_torrentsD(1) [OF this assms(3)]
  with assms(4) show ?thesis by simp
qed

text \<open>Replacing a torrent by one whose moving state is that of a new queue.\<close>

lemma inv_requeue:
  assumes inv: "move_inv s" and t: "s_torrents s i = Some t"
    and t': "m_nativeHandle t' = m_nativeHandle t"
      "m_storageIsMoving t' = (m_nativeHandle t \<in> job_handle ` set q)"
    and q: "job_handle ` set q - {m_nativeHandle t} = queued_handles s - {m_nativeHandle t}"
    and iq: "inv_queue (s\<lparr>s_moveQueue := q, s_outstanding := out\<rparr>)"
  shows "move_inv (put_torrent i t' (s\<lparr>s_moveQueue := q, s_outstanding := out\<rparr>))"
    (is "move_inv ?s'")
proof -
  have qh: "queued_handles ?s' = job_handle ` set q" by (simp add: queued_handles_def)
  have h: "h \<in> job_handle ` set q \<longleftrightarrow> h \<in> queued_handles s" if "h \<noteq> m_nativeHandle t" for h
    using q that by blast
  have "inv_queue ?s'" using iq by (simp add: inv_queue_def)
  moreover have "inv_torrents ?s'"
    unfolding inv_torrents_def qh
  proof (intro allI impI)
    fix j u
    assume u: "s_torrents ?s' j = Some u"
    show "s_native ?s' (m_nativeHandle u) = Some j \<and>
       m_storageIsMoving u = (m_nativeHandle u \<in> job_handle ` set q)"
    proof (cases "j = i")
      case True
      then have "u = t'" using u by simp
      moreover have "s_native s (m_nativeHandle t) = Some i"
        using inv t by (simp add: move_inv_def inv_torrentsD)
      ultimately show ?thesis using True t' by simp
    next
      case False
      then have u': "s_torrents s j = Some u" using u by simp
      have it: "inv_torrents s" using inv by (simp add: move_inv_def)
      have "m_nativeHandle u \<noteq> m_nativeHandle t"
        using same_handle [OF inv t u'] False by blast
      then show ?thesis using inv_torrentsD [OF it u'] h by simp
    qed
  qed
  moreover have "inv_native ?s'"
    unfolding inv_native_def qh
  proof (intro allI impI)
    fix h k
    assume "s_native ?s' h = Some k"
    then have k: "s_native s h = Some k" by simp
    have inn: "inv_native s" using inv by (simp add: move_inv_def)
    note n = inv_nativeD [OF inn k]
    show "k \<noteq> null_hash \<and> h < s_nextHandle ?s' \<and>
      (case s_torrents ?s' k of
         Some t \<Rightarrow> m_nativeHandle t = h
       | None \<Rightarrow> h \<in> job_handle ` set q \<and> (\<exists>d. s_removing ?s' k = Some d \<and> removeOption d = KeepContent))"
    proof (cases "s_torrents s k")
      case None
      then have "k \<noteq> i" using t by auto
      have "h \<noteq> m_nativeHandle t"
      proof
        assume "h = m_nativeHandle t"
        then have "s_native s h = Some i"
          using inv t by (simp add: move_inv_def inv_torrentsD)
        with k \<open>k \<noteq> i\<close> show False by simp
      qed
      with n None \<open>k \<noteq> i\<close> show ?thesis by (simp add: h)
    next
      case (Some u)
      with n(3) [OF Some] have "m_nativeHandle u = h" by simp
      then show ?thesis using n(1,2) Some t t'(1) by (cases "k = i") simp_all
    qed
  qed
  ultimately show ?thesis by (simp add: move_inv_def)
qed

lemma inv_change:
  assumes "move_inv s" and "s_torrents s i = Some t" and "m_nativeHandle t' = m_nativeHandle t"
    and "m_storageIsMoving t' = m_storageIsMoving t"
  shows "move_inv (put_torrent i t' s)"
proof -
  have "move_inv (put_torrent i t' (s\<lparr>s_moveQueue := s_moveQueue s, s_outstanding := s_outstanding s\<rparr>))"
    using assms
    by (intro inv_requeue) (auto simp: move_inv_def inv_torrentsD queued_handles_def)
  then show ?thesis by simp
qed

text \<open>The waiting job of a torrent is dropped.\<close>

definition drop_waiting :: "nat \<Rightarrow> move_job list \<Rightarrow> move_job list" where
  "drop_waiting h q = (case q of [] \<Rightarrow> [] | j # rest \<Rightarrow> j # filter (\<lambda>j. job_handle j \<noteq> h) rest)"

lemma drop_waiting_simps:
  "drop_waiting h q = [] \<longleftrightarrow> q = []"
  "q \<noteq> [] \<Longrightarrow> hd (drop_waiting h q) = hd q"
  "tl (drop_waiting h q) = filter (\<lambda>j. job_handle j \<noteq> h) (tl q)"
  "job_handle ` set (drop_waiting h q) - {h} = job_handle ` set q - {h}"
  "h \<in> job_handle ` set (drop_waiting h q) \<longleftrightarrow> q \<noteq> [] \<and> job_handle (hd q) = h"
  "set (drop_waiting h q) \<subseteq> set q"
  by (cases q; force simp: drop_waiting_def)+

lemma drop_waiting_erase:
  assumes "distinct (map job_handle (tl q))"
  shows "q \<noteq> [] \<Longrightarrow> hd q # erase_first (\<lambda>j. job_handle j = h) (tl q) = drop_waiting h q"
    and "h \<notin> job_handle ` set (tl q) \<Longrightarrow> drop_waiting h q = q"
    and "\<not> length q > 1 \<Longrightarrow> drop_waiting h q = q"
  using assms
  by (cases q; auto simp: drop_waiting_def erase_first_filter intro!: filter_True)+

lemma inv_queue_drop:
  assumes "inv_queue s"
  shows "inv_queue (s\<lparr>s_moveQueue := drop_waiting h (s_moveQueue s)\<rparr>)"
proof (cases "s_moveQueue s")
  case Nil
  with assms show ?thesis by (simp add: inv_queue_def drop_waiting_def)
next
  case (Cons j rest)
  with assms show ?thesis
    by (auto simp: inv_queue_def drop_waiting_def distinct_map intro: inj_on_subset)
qed

lemma inv_drop_waiting:
  assumes inv: "move_inv s" and t: "s_torrents s i = Some t"
    and t': "m_nativeHandle t' = m_nativeHandle t"
      "m_storageIsMoving t' = (s_moveQueue s \<noteq> [] \<and> job_handle (hd (s_moveQueue s)) = m_nativeHandle t)"
  shows "move_inv ((put_torrent i t' s)\<lparr>s_moveQueue := drop_waiting (m_nativeHandle t) (s_moveQueue s)\<rparr>)"
proof -
  let ?q = "drop_waiting (m_nativeHandle t) (s_moveQueue s)"
  have iq: "inv_queue (s\<lparr>s_moveQueue := ?q, s_outstanding := s_outstanding s\<rparr>)"
    using inv inv_queue_drop [of s] by (simp add: move_inv_def)
  have mi: "move_inv (put_torrent i t' (s\<lparr>s_moveQueue := ?q, s_outstanding := s_outstanding s\<rparr>))"
  proof (rule inv_requeue [OF inv t t'(1) _ _ iq])
    show "m_storageIsMoving t' = (m_nativeHandle t \<in> job_handle ` set ?q)"
      using t'(2) drop_waiting_simps(5) by blast
    show "job_handle ` set ?q - {m_nativeHandle t} = queued_handles s - {m_nativeHandle t}"
      unfolding queued_handles_def by (rule drop_waiting_simps(4))
  qed
  from mi show ?thesis by (simp add: put_torrent_queue)
qed

lemma inv_enqueue:
  assumes inv: "move_inv s" and t: "s_torrents s i = Some t"
    and h: "job_handle job = m_nativeHandle t" "m_nativeHandle t \<notin> job_handle ` set (tl (s_moveQueue s))"
    and other: "s_moveQueue s \<noteq> [] \<Longrightarrow> job_handle (hd (s_moveQueue s)) = m_nativeHandle t
      \<Longrightarrow> job_path job \<noteq> job_path (hd (s_moveQueue s))"
    and t': "m_nativeHandle t' = m_nativeHandle t" "m_storageIsMoving t'"
    and out: "out = (if s_moveQueue s = [] then Some (job_handle job, job_path job) else s_outstanding s)"
  shows "move_inv (put_torrent i t' (s\<lparr>s_moveQueue := s_moveQueue s @ [job], s_outstanding := out\<rparr>))"
proof (rule inv_requeue [OF inv t t'(1)])
  have nat: "s_native s (m_nativeHandle t) = Some i" and lt: "m_nativeHandle t < s_nextHandle s"
    using inv t by (auto simp: move_inv_def dest: inv_torrentsD(1) inv_nativeD(2))
  show "m_storageIsMoving t' = (m_nativeHandle t \<in> job_handle ` set (s_moveQueue s @ [job]))"
    using t'(2) h(1) by simp
  show "job_handle ` set (s_moveQueue s @ [job]) - {m_nativeHandle t} = queued_handles s - {m_nativeHandle t}"
    using h(1) by (auto simp: queued_handles_def)
  show "inv_queue (s\<lparr>s_moveQueue := s_moveQueue s @ [job], s_outstanding := out\<rparr>)"
    using inv nat lt h other out
    by (cases "s_moveQueue s") (auto simp: move_inv_def inv_queue_def)
qed

text \<open>Queueing a move, as the torrent does it.\<close>

lemma find_waiting:
  "find (\<lambda>j. job_handle j = h) xs = None \<longleftrightarrow> h \<notin> job_handle ` set xs"
  by (auto simp: find_None_iff)

lemma drop_waiting_idem_handle:
  "h \<notin> job_handle ` set (tl (drop_waiting h q))"
  by (auto simp: drop_waiting_simps)

lemma moveTorrentStorage_valid:
  "s_native s (job_handle job) = Some i \<Longrightarrow>
   moveTorrentStorage job s = Some (s\<lparr>s_outstanding := Some (job_handle job, job_path job)\<rparr>)"
  by (simp add: moveTorrentStorage_def)

text \<open>The first half of \<open>addMoveTorrentStorageJob\<close>: the torrent's waiting job is gone.\<close>

definition cancel_waiting ::
  "(torrent \<Rightarrow> native_status) \<Rightarrow> qbytearray \<Rightarrow> torrent \<Rightarrow> 'a move_session_scheme \<Rightarrow> 'a move_session_scheme" where
  "cancel_waiting rs i t s =
     (let q = s_moveQueue s; h = m_nativeHandle t
      in if length q > 1 then
           (case find (\<lambda>j. job_handle j = h) (tl q) of
              Some job \<Rightarrow>
                (handleMoveStorageJobFinished rs i t (actualStorageLocation t) (job_context job)
                   (q \<noteq> [] \<and> job_handle (hd q) = h) s)
                \<lparr>s_moveQueue := hd q # erase_first (\<lambda>j. job_handle j = h) (tl q)\<rparr>
            | None \<Rightarrow> s)
         else s)"

lemma cancel_waiting_inv:
  assumes inv: "move_inv s" and t: "s_torrents s i = Some t" and nw: "\<not> waits_missing s t"
  obtains t' where "move_inv (cancel_waiting rs i t s)"
    and "s_torrents (cancel_waiting rs i t s) i = Some t'"
    and "m_nativeHandle t' = m_nativeHandle t"
    and "s_moveQueue (cancel_waiting rs i t s) = drop_waiting (m_nativeHandle t) (s_moveQueue s)"
    and "s_native (cancel_waiting rs i t s) = s_native s"
    and "s_queueing (cancel_waiting rs i t s) = s_queueing s"
proof (cases "length (s_moveQueue s) > 1 \<and> m_nativeHandle t \<in> job_handle ` set (tl (s_moveQueue s))")
  case True
  then obtain job where job: "find (\<lambda>j. job_handle j = m_nativeHandle t) (tl (s_moveQueue s)) = Some job"
    using find_waiting [of "m_nativeHandle t" "tl (s_moveQueue s)"] by auto
  let ?b = "s_moveQueue s \<noteq> [] \<and> job_handle (hd (s_moveQueue s)) = m_nativeHandle t"
  let ?t = "moved_torrent (s_queueing s) (actualStorageLocation t) (job_context job) ?b t"
  have nm: "?b \<or> \<not> m_hasMissingFiles t" using nw True by (auto simp: waits_missing_def)
  have d: "distinct (map job_handle (tl (s_moveQueue s)))" using inv by (simp add: move_inv_def inv_queue_def)
  have ne: "s_moveQueue s \<noteq> []" using True by auto
  have e: "cancel_waiting rs i t s =
      (put_torrent i ?t s)\<lparr>s_moveQueue := drop_waiting (m_nativeHandle t) (s_moveQueue s)\<rparr>"
    using True job by (simp add: cancel_waiting_def Let_def finished_no_reload [OF nm] drop_waiting_erase(1) [OF d ne])
  have "move_inv (cancel_waiting rs i t s)"
    unfolding e using inv t by (intro inv_drop_waiting) simp_all
  then show ?thesis by (intro that [of ?t]) (simp_all add: e)
next
  case False
  have d: "distinct (map job_handle (tl (s_moveQueue s)))" using inv by (simp add: move_inv_def inv_queue_def)
  have e: "cancel_waiting rs i t s = s"
    using False find_waiting [of "m_nativeHandle t" "tl (s_moveQueue s)"]
    by (auto simp: cancel_waiting_def Let_def)
  have "drop_waiting (m_nativeHandle t) (s_moveQueue s) = s_moveQueue s"
    using False drop_waiting_erase(2,3) [OF d] by blast
  then show ?thesis using inv t e by (intro that [of t]) simp_all
qed

lemma addMove_unfold:
  "addMoveTorrentStorageJob rs i t newPath mode ctx s =
     (let s1 = cancel_waiting rs i t s;
          q = s_moveQueue s;
          job = \<lparr>job_handle = m_nativeHandle t, job_path = newPath, job_mode = mode, job_context = ctx\<rparr>
      in if (if q \<noteq> [] \<and> job_handle (hd q) = m_nativeHandle t
             then job_path (hd (s_moveQueue s1)) = newPath
             else actualStorageLocation t = newPath)
         then (Some False, s1)
         else (let s2 = s1\<lparr>s_moveQueue := s_moveQueue s1 @ [job]\<rparr>
               in case (if length (s_moveQueue s2) = 1 then moveTorrentStorage job s2 else Some s2) of
                    None \<Rightarrow> (None, s2)
                  | Some s3 \<Rightarrow> (Some True, s3)))"
  by (simp add: addMoveTorrentStorageJob_def cancel_waiting_def Let_def)

lemma moveStorage_returns:
  assumes inv: "move_inv s" and t: "s_torrents s i = Some t" and calm: "\<not> waits_missing s t"
  shows "fst (addMoveTorrentStorageJob rs i t newPath mode ctx s) \<noteq> None"
proof -
  have "s_native (cancel_waiting rs i t s) (m_nativeHandle t) = Some i"
    using cancel_waiting_inv [OF inv t calm, of rs] inv t by (metis inv_torrentsD(1) move_inv_def)
  then show ?thesis by (auto simp: addMove_unfold moveTorrentStorage_def Let_def)
qed

lemma inv_moveStorage:
  assumes inv: "move_inv s" and calm: "\<forall>t. s_torrents s i = Some t \<longrightarrow> \<not> waits_missing s t"
  shows "move_inv (moveStorage rs i newPath ctx s)"
proof (cases "s_torrents s i")
  case None
  then show ?thesis using inv by (simp add: moveStorage_def)
next
  case (Some t)
  show ?thesis
  proof (cases "hasMetadata t")
    case False
    then show ?thesis using inv Some
      by (auto simp: moveStorage_def intro!: inv_change)
  next
    case True
    let ?mode = "if ctx = AdjustCurrentLocation then Overwrite else KeepExistingFiles"
    let ?job = "\<lparr>job_handle = m_nativeHandle t, job_path = newPath, job_mode = ?mode, job_context = ctx\<rparr>"
    let ?s1 = "cancel_waiting rs i t s"
    let ?q = "drop_waiting (m_nativeHandle t) (s_moveQueue s)"
    let ?same = "if s_moveQueue s \<noteq> [] \<and> job_handle (hd (s_moveQueue s)) = m_nativeHandle t
             then job_path (hd ?q) = newPath else actualStorageLocation t = newPath"
    obtain t1 where s1: "move_inv ?s1" "s_torrents ?s1 i = Some t1" "m_nativeHandle t1 = m_nativeHandle t"
        "s_moveQueue ?s1 = ?q" "s_native ?s1 = s_native s"
      using cancel_waiting_inv [OF inv Some] calm Some by metis
    show ?thesis
    proof (cases ?same)
      case same: True
      then show ?thesis using True Some s1(1,4)
        by (simp add: moveStorage_def addMove_unfold Let_def)
    next
      case False
      let ?out = "if ?q = [] then Some (m_nativeHandle t, newPath) else s_outstanding ?s1"
      let ?s2 = "?s1\<lparr>s_moveQueue := ?q @ [?job], s_outstanding := ?out\<rparr>"
      let ?t2 = "if m_storageIsMoving t1 then t1
                 else updateState (s_queueing ?s1) (t1\<lparr>m_storageIsMoving := True\<rparr>)"
      have v: "s_native ?s1 (m_nativeHandle t) = Some i"
        using inv Some s1(5) by (simp add: move_inv_def inv_torrentsD)
      have "addMoveTorrentStorageJob rs i t newPath ?mode ctx s = (Some True, ?s2)"
        unfolding addMove_unfold Let_def s1(4) if_not_P [OF False] using v
        by (simp add: s1(4) moveTorrentStorage_def)
      then have "moveStorage rs i newPath ctx s = put_torrent i ?t2 ?s2"
        using Some True s1(2) put_torrent_same [of ?s2 i t1] by (simp add: moveStorage_def)
      moreover have "move_inv (put_torrent i ?t2 ?s2)"
      proof -
        have "move_inv (put_torrent i ?t2
            (?s1\<lparr>s_moveQueue := s_moveQueue ?s1 @ [?job], s_outstanding := ?out\<rparr>))"
          using s1 False drop_waiting_simps(1,2) drop_waiting_idem_handle [of "m_nativeHandle t" "s_moveQueue s"]
          by (intro inv_enqueue [OF s1(1,2)]) (auto split: if_splits)
        then show ?thesis using s1(4) by simp
      qed
      ultimately show ?thesis by simp
    qed
  qed
qed

text \<open>A torrent no move of which is queued is reloaded under a new handle.\<close>

lemma torrent_reload_put:
  "torrent_reload rs i t (put_torrent i u s) = torrent_reload rs i t s"
  by (cases s) (simp add: torrent_reload_def put_torrent_def Let_def)

lemma inv_reload:
  assumes inv: "move_inv s" and t: "s_torrents s i = Some t" "\<not> m_storageIsMoving t"
    and t': "m_nativeHandle t' = m_nativeHandle t" "\<not> m_storageIsMoving t'"
  shows "move_inv (torrent_reload rs i t' s)" (is "move_inv ?s'")
proof -
  have iq: "inv_queue s" and it: "inv_torrents s" and inn: "inv_native s"
    using inv by (simp_all add: move_inv_def)
  let ?h = "m_nativeHandle t" and ?n = "s_nextHandle s"
  have nq: "?h \<notin> queued_handles s" using inv_torrentsD(2) [OF it t(1)] t(2) by simp
  have fresh: "?n \<notin> queued_handles s" using iq by (auto simp: inv_queue_def queued_handles_def)
  obtain u where u: "s_torrents ?s' = (s_torrents s)(i \<mapsto> u)" "m_nativeHandle u = ?n" "\<not> m_storageIsMoving u"
    using t' by (simp add: torrent_reload_def Let_def)
  have f: "s_moveQueue ?s' = s_moveQueue s" "s_outstanding ?s' = s_outstanding s"
    "s_native ?s' = (s_native s)(?h := None, ?n \<mapsto> i)" "s_nextHandle ?s' = Suc ?n" "s_removing ?s' = s_removing s"
    using t'(1) by (simp_all add: torrent_reload_def Let_def)
  have qh: "queued_handles ?s' = queued_handles s" by (simp add: queued_handles_def f)
  have other: "m_nativeHandle v \<noteq> ?h" "m_nativeHandle v \<noteq> ?n" if "s_torrents s j = Some v" "j \<noteq> i" for j v
    using same_handle [OF inv t(1) that(1)] that(2)
      inv_nativeD(2) [OF inn inv_torrentsD(1) [OF it that(1)]] by auto
  have tlq: "job_handle j \<in> queued_handles s" if "j \<in> set (tl (s_moveQueue s))" for j
    using that by (cases "s_moveQueue s") (auto simp: queued_handles_def)
  have "inv_queue ?s'"
    using iq nq tlq by (fastforce simp: inv_queue_def f less_Suc_eq)
  moreover have "inv_torrents ?s'"
    unfolding inv_torrents_def qh
  proof (intro allI impI)
    fix j v assume v: "s_torrents ?s' j = Some v"
    show "s_native ?s' (m_nativeHandle v) = Some j
      \<and> m_storageIsMoving v = (m_nativeHandle v \<in> queued_handles s)"
    proof (cases "j = i")
      case True
      then show ?thesis using v u fresh by (simp add: f)
    next
      case False
      then have "s_torrents s j = Some v" using v u by simp
      with False other inv_torrentsD [OF it] show ?thesis by (simp add: f)
    qed
  qed
  moreover have "inv_native ?s'"
    unfolding inv_native_def qh
  proof (intro allI impI)
    fix h k assume k: "s_native ?s' h = Some k"
    show "k \<noteq> null_hash \<and> h < s_nextHandle ?s' \<and>
      (case s_torrents ?s' k of
         Some t \<Rightarrow> m_nativeHandle t = h
       | None \<Rightarrow> h \<in> queued_handles s \<and> (\<exists>d. s_removing ?s' k = Some d \<and> removeOption d = KeepContent))"
    proof (cases "h = ?n")
      case True
      then have "k = i" using k by (simp add: f)
      then show ?thesis
        using True u inv_nativeD(1) [OF inn inv_torrentsD(1) [OF it t(1)]] by (simp add: f)
    next
      case False
      then have "h \<noteq> ?h" and k': "s_native s h = Some k" using k by (auto simp: f split: if_splits)
      then have "k \<noteq> i" using inv_nativeD(3) [OF inn k'] t(1) by auto
      with inv_nativeD [OF inn k'] show ?thesis by (cases "s_torrents s k") (simp_all add: f u)
    qed
  qed
  ultimately show ?thesis by (simp add: move_inv_def)
qed

text \<open>The first job is popped; the torrent it was for is not in the session.\<close>

abbreviation busy_with :: "move_job list \<Rightarrow> (nat \<times> path) option" where
  "busy_with q \<equiv> (case q of [] \<Rightarrow> None | j # _ \<Rightarrow> Some (job_handle j, job_path j))"

lemma inv_queue_pop:
  assumes "inv_queue s" and "s_moveQueue s = job # rest"
    and "s_moveQueue s' = rest" "s_outstanding s' = busy_with rest"
    and "s_nextHandle s' = s_nextHandle s"
    and "\<forall>j \<in> set (tl rest). s_native s' (job_handle j) = s_native s (job_handle j)"
  shows "inv_queue s'"
  using assms by (cases rest) (auto simp: inv_queue_def rev_image_eqI)

lemma inv_pop_absent:
  assumes inv: "move_inv s" and q: "s_moveQueue s = job # rest"
    and absent: "\<And>i t. s_torrents s i = Some t \<Longrightarrow> m_nativeHandle t \<noteq> job_handle job"
    and s': "s_moveQueue s' = rest" "s_outstanding s' = busy_with rest"
      "s_nextHandle s' = s_nextHandle s" "s_torrents s' = s_torrents s"
      "\<And>k. k \<noteq> null_hash \<Longrightarrow> s_removing s' k = s_removing s k"
    and nat: "s_native s' = (if job_handle job \<in> job_handle ` set rest then s_native s
                else (s_native s)(job_handle job := None))"
  shows "move_inv s'"
proof -
  have iq: "inv_queue s" and it: "inv_torrents s" and inn: "inv_native s"
    using inv by (simp_all add: move_inv_def)
  let ?h = "job_handle job"
  have qs: "h \<in> queued_handles s' \<longleftrightarrow> h \<in> queued_handles s" if "h \<noteq> ?h" for h
    using that by (simp add: queued_handles_def q s'(1))
  have "inv_queue s'"
  proof (rule inv_queue_pop [OF iq q s'(1,2,3)], intro ballI)
    fix j assume "j \<in> set (tl rest)"
    then have "j \<in> set rest" by (cases rest) auto
    then have "job_handle j \<in> job_handle ` set rest" by simp
    then show "s_native s' (job_handle j) = s_native s (job_handle j)"
      unfolding nat by (cases "?h \<in> job_handle ` set rest") auto
  qed
  moreover have "inv_torrents s'"
    unfolding inv_torrents_def
  proof (intro allI impI)
    fix i t assume "s_torrents s' i = Some t"
    then have t: "s_torrents s i = Some t" by (simp add: s')
    with absent have ne: "m_nativeHandle t \<noteq> ?h" by blast
    show "s_native s' (m_nativeHandle t) = Some i \<and>
       m_storageIsMoving t = (m_nativeHandle t \<in> queued_handles s')"
      using inv_torrentsD [OF it t] ne by (simp add: nat qs)
  qed
  moreover have "inv_native s'"
    unfolding inv_native_def
  proof (intro allI impI)
    fix h i assume hi: "s_native s' h = Some i"
    then have k: "s_native s h = Some i" by (auto simp: nat split: if_splits)
    note n = inv_nativeD [OF inn k]
    have "h \<in> queued_handles s'" if "h \<in> queued_handles s"
    proof (cases "h = ?h")
      case True
      then have "?h \<in> job_handle ` set rest" using hi by (auto simp: nat split: if_splits)
      then show ?thesis using True by (simp add: queued_handles_def s'(1))
    next
      case False
      then show ?thesis using that qs by simp
    qed
    then show "i \<noteq> null_hash \<and> h < s_nextHandle s' \<and>
       (case s_torrents s' i of
          Some t \<Rightarrow> m_nativeHandle t = h
        | None \<Rightarrow> h \<in> queued_handles s' \<and> (\<exists>d. s_removing s' i = Some d \<and> removeOption d = KeepContent))"
      using n s' by (cases "s_torrents s i") simp_all
  qed
  ultimately show ?thesis by (simp add: move_inv_def)
qed

text \<open>The move libtorrent was busy with ends.\<close>

lemma inv_finished:
  assumes inv: "move_inv s" and q: "s_moveQueue s = job # rest"
  shows "move_inv (handleMoveTorrentStorageJobFinished rs p (s\<lparr>s_outstanding := None\<rparr>))"
    (is "move_inv ?r")
proof -
  let ?s2 = "s\<lparr>s_moveQueue := rest, s_outstanding := busy_with rest\<rparr>"
  let ?h = "job_handle job"
  let ?more = "list_ex (\<lambda>j. job_handle j = ?h) rest"
  have iq: "inv_queue s" and it: "inv_torrents s" and inn: "inv_native s"
    using inv by (simp_all add: move_inv_def)
  have valid: "\<forall>j \<in> set rest. s_native s (job_handle j) \<noteq> None" using iq q by (simp add: inv_queue_def)
  have s2: "(if rest \<noteq> [] then moveTorrentStorage (hd rest) (s\<lparr>s_outstanding := None, s_moveQueue := rest\<rparr>)
       else Some (s\<lparr>s_outstanding := None, s_moveQueue := rest\<rparr>)) = Some ?s2"
    using valid by (cases s; cases rest) (auto simp: moveTorrentStorage_def)
  have r: "?r = (let i = handle_info_hash ?s2 ?h
      in case s_torrents s i of
           Some t \<Rightarrow> handleMoveStorageJobFinished rs i t p (job_context job) ?more ?s2
         | None \<Rightarrow> if \<not> ?more
                   then (case removing_subscript i ?s2 of
                           (d, s3) \<Rightarrow> if removeOption d = KeepContent then remove_native ?h s3 else s3)
                   else ?s2)"
    by (simp add: handleMoveTorrentStorageJobFinished_def q Let_def s2 cong: if_cong option.case_cong)
  have more: "?more \<longleftrightarrow> ?h \<in> job_handle ` set rest" by (auto simp: list_ex_iff rev_image_eqI)
  show ?thesis
  proof (cases "s_native s ?h")
    case None
    then have nomore: "\<not> ?more" using valid by (auto simp: list_ex_iff)
    have i: "handle_info_hash ?s2 ?h = null_hash" using None by (simp add: handle_info_hash_def)
    have null: "s_torrents s null_hash = None"
      using inv_torrentsD(1) [OF it] inv_nativeD(1) [OF inn] by (metis not_None_eq)
    have same: "(s_native s)(?h := None) = s_native s" using None by auto
    have absent: "m_nativeHandle t \<noteq> ?h" if "s_torrents s j = Some t" for j t
      using inv_torrentsD(1) [OF it that] None by auto
    show ?thesis
      using nomore null None absent more
      by (intro inv_pop_absent [OF inv q])
        (auto simp: r i removing_subscript_def remove_native_def same Let_def split: option.splits)
  next
    case (Some i)
    have i: "handle_info_hash ?s2 ?h = i" using Some by (simp add: handle_info_hash_def)
    show ?thesis
    proof (cases "s_torrents s i")
      case None
      obtain d where d: "s_removing s i = Some d" "removeOption d = KeepContent"
        using inv_nativeD(5) [OF inn Some None] by blast
      have absent: "m_nativeHandle t \<noteq> ?h" if "s_torrents s j = Some t" for j t
        using inv_torrentsD(1) [OF it that] Some None that by auto
      show ?thesis
        using None d more absent
        by (intro inv_pop_absent [OF inv q])
          (auto simp: r i removing_subscript_def remove_native_def Let_def)
    next
      case t: (Some t)
      have ht: "m_nativeHandle t = ?h" using inv_nativeD(3) [OF inn Some t] .
      let ?t = "moved_torrent (s_queueing s) p (job_context job) ?more t"
      have "inv_queue ?s2" using iq q by (rule inv_queue_pop) simp_all
      then have mi: "move_inv (put_torrent i ?t ?s2)"
        using more ht q
        by (intro inv_requeue [OF inv t]) (simp_all add: queued_handles_def)
      show ?thesis
      proof (cases "?more \<or> \<not> m_hasMissingFiles t")
        case True
        then have "?r = put_torrent i ?t ?s2" using t by (simp add: r i finished_no_reload)
        with mi show ?thesis by simp
      next
        case False
        let ?u = "?t\<lparr>m_hasMissingFiles := False\<rparr>"
        have "?r = torrent_reload rs i ?u (put_torrent i ?t ?s2)"
          using False t by (simp add: r i finished_reload torrent_reload_put)
        moreover have "move_inv (torrent_reload rs i ?u (put_torrent i ?t ?s2))"
          using False by (intro inv_reload [OF mi, where t = ?t]) simp_all
        ultimately show ?thesis by simp
      qed
    qed
  qed
qed

text \<open>A torrent is removed.\<close>

lemma inv_unlive:
  assumes inv: "move_inv s" and t: "s_torrents s i = Some t"
    and s': "s_torrents s' = (s_torrents s)(i := None)" "s_nextHandle s' = s_nextHandle s"
      "\<And>k. k \<noteq> i \<Longrightarrow> s_removing s' k = s_removing s k"
      "inv_queue s'" "queued_handles s' - {m_nativeHandle t} = queued_handles s - {m_nativeHandle t}"
    and nat: "s_native s' = (s_native s)(m_nativeHandle t := None)
       \<or> (s_native s' = s_native s \<and> m_nativeHandle t \<in> queued_handles s'
          \<and> (\<exists>d. s_removing s' i = Some d \<and> removeOption d = KeepContent))"
  shows "move_inv s'"
proof -
  have it: "inv_torrents s" and inn: "inv_native s" using inv by (simp_all add: move_inv_def)
  have qs: "h \<in> queued_handles s' \<longleftrightarrow> h \<in> queued_handles s" if "h \<noteq> m_nativeHandle t" for h
    using s'(5) that by blast
  have nats: "s_native s' h = s_native s h" if "h \<noteq> m_nativeHandle t" for h
    using nat that by auto
  have "inv_torrents s'"
    unfolding inv_torrents_def
  proof (intro allI impI)
    fix j u assume "s_torrents s' j = Some u"
    then have u: "s_torrents s j = Some u" and "j \<noteq> i" by (auto simp: s' split: if_splits)
    then have "m_nativeHandle u \<noteq> m_nativeHandle t" using same_handle [OF inv t u] by blast
    then show "s_native s' (m_nativeHandle u) = Some j \<and>
       m_storageIsMoving u = (m_nativeHandle u \<in> queued_handles s')"
      using inv_torrentsD [OF it u] by (simp add: qs nats)
  qed
  moreover have "inv_native s'"
    unfolding inv_native_def
  proof (intro allI impI)
    fix h k assume k': "s_native s' h = Some k"
    then have k: "s_native s h = Some k" using nat by (auto split: if_splits)
    note n = inv_nativeD [OF inn k]
    show "k \<noteq> null_hash \<and> h < s_nextHandle s' \<and>
       (case s_torrents s' k of
          Some t \<Rightarrow> m_nativeHandle t = h
        | None \<Rightarrow> h \<in> queued_handles s' \<and> (\<exists>d. s_removing s' k = Some d \<and> removeOption d = KeepContent))"
    proof (cases "k = i")
      case True
      then have h: "h = m_nativeHandle t" using n(3) t by simp
      then show ?thesis using True nat k' n(1,2) s' by auto
    next
      case False
      have "h \<noteq> m_nativeHandle t" using inv_torrentsD(1) [OF it t] k False by auto
      then show ?thesis using n False s' qs by (cases "s_torrents s k") simp_all
    qed
  qed
  ultimately show ?thesis using s'(4) by (simp add: move_inv_def)
qed

lemma inv_removeTorrent:
  assumes inv: "move_inv s"
  shows "move_inv (snd (removeTorrent i opt s))"
proof (cases "s_torrents s i")
  case None
  then show ?thesis using inv by (simp add: removeTorrent_def)
next
  case (Some t)
  let ?h = "m_nativeHandle t"
  have iq: "inv_queue s" and it: "inv_torrents s" using inv by (simp_all add: move_inv_def)
  have d: "distinct (map job_handle (tl (s_moveQueue s)))" using iq by (simp add: inv_queue_def)
  show ?thesis
  proof (cases opt)
    case KeepContent
    have tl: "set (tl (s_moveQueue s)) \<subseteq> set (s_moveQueue s)" by (cases "s_moveQueue s") auto
    show ?thesis
    proof (cases "?h \<in> queued_handles s")
      case True
      then have "list_ex (\<lambda>j. job_handle j = ?h) (s_moveQueue s)"
        by (auto simp: list_ex_iff queued_handles_def)
      then show ?thesis using KeepContent Some True iq
        by (intro inv_unlive [OF inv Some])
          (simp_all add: removeTorrent_def Let_def inv_queue_def queued_handles_def)
    next
      case False
      then have "\<not> list_ex (\<lambda>j. job_handle j = ?h) (s_moveQueue s)"
        by (auto simp: list_ex_iff queued_handles_def rev_image_eqI)
      moreover have "\<forall>j \<in> set (tl (s_moveQueue s)). job_handle j \<noteq> ?h"
        using False tl by (auto simp: queued_handles_def rev_image_eqI)
      ultimately show ?thesis using KeepContent Some iq
        by (intro inv_unlive [OF inv Some])
          (simp_all add: removeTorrent_def remove_native_def Let_def inv_queue_def queued_handles_def)
    qed
  next
    case RemoveContent
    let ?q = "drop_waiting ?h (s_moveQueue s)"
    have "(if length (s_moveQueue s) > 1
           then hd (s_moveQueue s) # erase_first (\<lambda>j. job_handle j = ?h) (tl (s_moveQueue s))
           else s_moveQueue s) = ?q"
      using drop_waiting_erase [OF d, of ?h] by (cases "length (s_moveQueue s) > 1") fastforce+
    then have q: "s_moveQueue (snd (removeTorrent i opt s)) = ?q"
      using Some RemoveContent by (simp add: removeTorrent_def remove_native_def Let_def split: if_splits)
    have iq': "inv_queue (s\<lparr>s_moveQueue := ?q\<rparr>)" using iq by (rule inv_queue_drop)
    have f: "s_torrents (snd (removeTorrent i opt s)) = (s_torrents s)(i := None)"
      "s_nextHandle (snd (removeTorrent i opt s)) = s_nextHandle s"
      "s_outstanding (snd (removeTorrent i opt s)) = s_outstanding s"
      "s_native (snd (removeTorrent i opt s)) = (s_native s)(?h := None)"
      "\<And>k. k \<noteq> i \<Longrightarrow> s_removing (snd (removeTorrent i opt s)) k = s_removing s k"
      using Some RemoveContent by (simp_all add: removeTorrent_def remove_native_def Let_def)
    show ?thesis
    proof (rule inv_unlive [OF inv Some f(1,2,5)])
      show "inv_queue (snd (removeTorrent i opt s))"
        using iq' q f by (auto simp: inv_queue_def drop_waiting_simps(3))
      show "queued_handles (snd (removeTorrent i opt s)) - {?h} = queued_handles s - {?h}"
        unfolding queued_handles_def q by (rule drop_waiting_simps(4))
    qed (simp_all add: f)
  qed
qed

lemma inv_gone:
  assumes "move_inv s" and "i \<notin> ran (s_native s)"
  shows "move_inv (handleRemovedTorrent i s)"
proof (cases "s_removing s i")
  case None
  with assms show ?thesis by (simp add: handleRemovedTorrent_def)
next
  case (Some d)
  have "i \<noteq> k" if "s_native s h = Some k" for h k using assms(2) that by (auto simp: ran_def)
  then have "inv_native (s\<lparr>s_removing := (s_removing s)(i := None)\<rparr>) = inv_native s"
    unfolding inv_native_def
    by (intro iff_allI imp_cong refl conj_cong) (auto simp: queued_handles_def split: option.splits)
  with assms(1) Some show ?thesis
    by (simp add: handleRemovedTorrent_def move_inv_def inv_queue_def inv_torrents_def queued_handles_def)
qed

lemma inv_add:
  assumes inv: "move_inv s" and new: "s_torrents s i = None" "i \<notin> ran (s_native s)" "i \<noteq> null_hash"
    and t: "\<not> m_storageIsMoving t"
  shows "move_inv (put_torrent i (t\<lparr>m_nativeHandle := s_nextHandle s\<rparr>)
          (s\<lparr>s_native := (s_native s)(s_nextHandle s \<mapsto> i), s_nextHandle := Suc (s_nextHandle s)\<rparr>))"
    (is "move_inv ?s'")
proof -
  have iq: "inv_queue s" and it: "inv_torrents s" and inn: "inv_native s"
    using inv by (simp_all add: move_inv_def)
  have fresh: "s_nextHandle s \<notin> queued_handles s"
    using iq by (auto simp: inv_queue_def queued_handles_def)
  have nf: "s_native s (s_nextHandle s) = None"
    using inv_nativeD(2) [OF inn] by (metis less_irrefl not_None_eq)
  have old: "m_nativeHandle u \<noteq> s_nextHandle s" if "s_torrents s j = Some u" for j u
    using inv_torrentsD(1) [OF it that] nf by auto
  have qh: "queued_handles ?s' = queued_handles s" by (simp add: queued_handles_def)
  have "inv_queue ?s'" using iq by (auto simp: inv_queue_def)
  moreover have "inv_torrents ?s'"
    unfolding inv_torrents_def qh
    using inv_torrentsD [OF it] t new(1) fresh nf old by (auto simp: put_torrent_def)
  moreover have "inv_native ?s'"
    unfolding inv_native_def qh
  proof (intro allI impI)
    fix h k assume k': "s_native ?s' h = Some k"
    show "k \<noteq> null_hash \<and> h < s_nextHandle ?s' \<and>
       (case s_torrents ?s' k of
          Some t \<Rightarrow> m_nativeHandle t = h
        | None \<Rightarrow> h \<in> queued_handles s \<and> (\<exists>d. s_removing ?s' k = Some d \<and> removeOption d = KeepContent))"
    proof (cases "h = s_nextHandle s")
      case True
      then show ?thesis using k' new(3) by simp
    next
      case False
      then have k: "s_native s h = Some k" using k' by simp
      then have "k \<noteq> i" using new(2) by (auto simp: ran_def)
      then show ?thesis using inv_nativeD [OF inn k] by (cases "s_torrents s k") simp_all
    qed
  qed
  ultimately show ?thesis by (simp add: move_inv_def)
qed

lemma outstanding_head:
  assumes "move_inv s" and "s_outstanding s \<noteq> None"
  obtains job rest where "s_moveQueue s = job # rest" "s_outstanding s = Some (job_handle job, job_path job)"
  using assms by (cases "s_moveQueue s") (auto simp: move_inv_def inv_queue_def)

lemma inv_move_step: "move_step rs s s' \<Longrightarrow> move_inv s \<Longrightarrow> move_inv s'"
proof (induction rule: move_step.induct)
  case (add s i t)
  then show ?case by (intro inv_add)
next
  case (change s i t t')
  then show ?case by (intro inv_change)
next
  case (reload s i t t')
  then show ?case by (intro inv_reload [where t = t])
next
  case (move s i p ctx)
  show ?case using move(2,1) by (rule inv_moveStorage)
next
  case (moved s)
  then obtain job rest where "s_moveQueue s = job # rest" "s_outstanding s = Some (job_handle job, job_path job)"
    using outstanding_head by metis
  with moved show ?case by (simp add: handleStorageMovedAlert_def inv_finished)
next
  case (failed s loc)
  then obtain job rest where "s_moveQueue s = job # rest" "s_outstanding s = Some (job_handle job, job_path job)"
    using outstanding_head by metis
  with failed show ?case by (simp add: handleStorageMovedFailedAlert_def inv_finished)
next
  case (remove s i opt)
  then show ?case by (intro inv_removeTorrent)
next
  case (gone i s)
  then show ?case by (intro inv_gone)
qed

lemma inv_empty: "move_inv (empty_session q)"
  by (simp add: empty_session_def move_inv_def inv_queue_def inv_torrents_def inv_native_def)

lemma reachable_inv: "move_reachable rs s \<Longrightarrow> move_inv s"
  by (induction rule: move_reachable.induct) (auto simp: inv_empty intro: inv_move_step)

section \<open>What the queue promises\<close>

text \<open>
  C4. In every state a session can reach by adding, changing, moving, reloading and removing
  torrents and by libtorrent's reports - except that no torrent with missing files is moved while
  its only job is waiting, and none is reloaded while a move of it is queued: libtorrent is busy
  with exactly the first queued move and never with two; a torrent waits at most once, and never
  for the place it is being moved to; a torrent shows as moving exactly when a move of it is
  queued; and the torrents libtorrent holds are those of the session and the ones removed with
  their content kept whose moves are not finished.
\<close>
theorem move_queue_safe:
  assumes "move_reachable rs s"
  shows "s_outstanding s = busy_with (s_moveQueue s)
     \<and> distinct (map job_handle (tl (s_moveQueue s)))
     \<and> (\<forall>j \<in> set (tl (s_moveQueue s)). job_handle j = job_handle (hd (s_moveQueue s))
            \<longrightarrow> job_path j \<noteq> job_path (hd (s_moveQueue s)))
     \<and> (\<forall>i t. s_torrents s i = Some t \<longrightarrow>
            m_storageIsMoving t = (m_nativeHandle t \<in> queued_handles s)
            \<and> s_native s (m_nativeHandle t) = Some i)
     \<and> (\<forall>h i. s_native s h = Some i \<longrightarrow>
            (\<exists>t. s_torrents s i = Some t \<and> m_nativeHandle t = h)
            \<or> (s_torrents s i = None \<and> h \<in> queued_handles s
               \<and> (\<exists>d. s_removing s i = Some d \<and> removeOption d = KeepContent)))"
proof (intro conjI allI impI)
  have iq: "inv_queue s" and it: "inv_torrents s" and inn: "inv_native s"
    using reachable_inv [OF assms] by (simp_all add: move_inv_def)
  show "s_outstanding s = busy_with (s_moveQueue s)"
    "distinct (map job_handle (tl (s_moveQueue s)))"
    "\<forall>j \<in> set (tl (s_moveQueue s)). job_handle j = job_handle (hd (s_moveQueue s))
            \<longrightarrow> job_path j \<noteq> job_path (hd (s_moveQueue s))"
    using iq by (simp_all add: inv_queue_def)
  show "m_storageIsMoving t = (m_nativeHandle t \<in> queued_handles s)"
    "s_native s (m_nativeHandle t) = Some i" if "s_torrents s i = Some t" for i t
    using inv_torrentsD [OF it that] by simp_all
  show "(\<exists>t. s_torrents s i = Some t \<and> m_nativeHandle t = h)
       \<or> (s_torrents s i = None \<and> h \<in> queued_handles s
          \<and> (\<exists>d. s_removing s i = Some d \<and> removeOption d = KeepContent))"
    if "s_native s h = Some i" for h i
    using inv_nativeD(3,4,5) [OF inn that] by (cases "s_torrents s i") auto
qed

text \<open>A session with a torrent that is being moved.\<close>

definition moving_session :: move_session where
  "moving_session =
     moveStorage m_nativeStatus ''i'' ''/new'' ChangeSavePath
       (put_torrent ''i'' (sample_torrent\<lparr>m_storageIsMoving := False, m_nativeHandle := 0\<rparr>)
         ((empty_session True)\<lparr>s_native := [0 \<mapsto> ''i''], s_nextHandle := 1\<rparr>))"

lemma moving_session_reachable: "move_reachable m_nativeStatus moving_session"
proof -
  let ?e = "empty_session True"
  have "move_step m_nativeStatus ?e
      (put_torrent ''i'' ((sample_torrent\<lparr>m_storageIsMoving := False\<rparr>)\<lparr>m_nativeHandle := s_nextHandle ?e\<rparr>)
          (?e\<lparr>s_native := (s_native ?e)(s_nextHandle ?e \<mapsto> ''i''), s_nextHandle := Suc (s_nextHandle ?e)\<rparr>))"
    by (intro move_step.add) (simp_all add: empty_session_def null_hash_def sample_defs)
  then have "move_reachable m_nativeStatus
      (put_torrent ''i'' (sample_torrent\<lparr>m_storageIsMoving := False, m_nativeHandle := 0\<rparr>)
         (?e\<lparr>s_native := [0 \<mapsto> ''i''], s_nextHandle := 1\<rparr>))"
    using move_reachable.step [OF move_reachable.start] by (simp add: empty_session_def)
  then show ?thesis
    unfolding moving_session_def
    by (rule move_reachable.step)
      (rule move_step.move, simp add: waits_missing_def empty_session_def)
qed

lemma moving_session_value:
  "s_moveQueue moving_session =
     [\<lparr>job_handle = 0, job_path = ''/new'', job_mode = KeepExistingFiles, job_context = ChangeSavePath\<rparr>]"
  by (simp add: moving_session_def moveStorage_def empty_session_def hasMetadata_def sample_defs
      addMoveTorrentStorageJob_def moveTorrentStorage_def actualStorageLocation_def put_torrent_def)

theorem move_queue_safe_witness:
  "s_outstanding moving_session = Some (0, ''/new'')"
proof -
  have "s_outstanding moving_session = busy_with (s_moveQueue moving_session)"
    using move_queue_safe [OF moving_session_reachable] by blast
  then show ?thesis by (simp add: moving_session_value)
qed

text \<open>Popping jobs.\<close>

lemma finished_queue:
  assumes "move_inv s" and "s_moveQueue s = job # rest"
  shows "s_moveQueue (handleMoveTorrentStorageJobFinished rs p (s\<lparr>s_outstanding := None\<rparr>)) = rest"
proof -
  have "s_moveQueue (handleMoveStorageJobFinished rs i t p ctx b s') = s_moveQueue s'" for i t ctx b
      and s' :: "'a move_session_scheme"
    by (simp add: handleMoveStorageJobFinished_def torrent_reload_def Let_def)
  then show ?thesis
    using assms(2)
    by (auto simp: handleMoveTorrentStorageJobFinished_def moveTorrentStorage_def removing_subscript_def
        remove_native_def Let_def split: option.splits)
qed

lemma moved_alert:
  assumes "move_inv s" and "s_moveQueue s = job # rest"
  shows "move_inv (handleStorageMovedAlert rs s)"
    and "s_moveQueue (handleStorageMovedAlert rs s) = rest"
proof -
  have "s_outstanding s = Some (job_handle job, job_path job)"
    using assms by (simp add: move_inv_def inv_queue_def)
  then show "move_inv (handleStorageMovedAlert rs s)" "s_moveQueue (handleStorageMovedAlert rs s) = rest"
    using inv_finished [OF assms] finished_queue [OF assms] by (simp_all add: handleStorageMovedAlert_def)
qed

lemma drain:
  "move_inv s \<Longrightarrow> move_inv ((handleStorageMovedAlert rs ^^ length (s_moveQueue s)) s)
     \<and> s_moveQueue ((handleStorageMovedAlert rs ^^ length (s_moveQueue s)) s) = []"
proof (induction "length (s_moveQueue s)" arbitrary: s)
  case 0
  then show ?case by simp
next
  case (Suc n)
  then obtain job rest where q: "s_moveQueue s = job # rest" by (cases "s_moveQueue s") auto
  note m = moved_alert [OF Suc.prems q, of rs]
  have "n = length (s_moveQueue (handleStorageMovedAlert rs s))" using Suc.hyps(2) q m(2) by simp
  from Suc.hyps(1) [OF this m(1)] show ?case
    using q m(2) by (simp add: funpow_swap1 [of "handleStorageMovedAlert rs"] del: funpow.simps(2))
      (simp add: funpow_Suc_right del: funpow.simps(2))
qed

text \<open>
  C30. From every such state the queue drains: when libtorrent has reported as many finished moves
  as there are queued, the queue is empty, no torrent shows as moving, and libtorrent holds exactly
  the torrents of the session (a torrent removed while it was moved has then been taken out of
  libtorrent too). Torrents with missing files are reloaded on the way.
\<close>
theorem move_queue_drains:
  assumes "move_reachable rs s"
  shows "let s' = (handleStorageMovedAlert rs ^^ length (s_moveQueue s)) s
         in s_moveQueue s' = [] \<and> s_outstanding s' = None
            \<and> (\<forall>i t. s_torrents s' i = Some t \<longrightarrow> \<not> m_storageIsMoving t)
            \<and> (\<forall>h i. s_native s' h = Some i \<longleftrightarrow> (\<exists>t. s_torrents s' i = Some t \<and> m_nativeHandle t = h))"
proof -
  let ?s = "(handleStorageMovedAlert rs ^^ length (s_moveQueue s)) s"
  have d: "move_inv ?s" "s_moveQueue ?s = []" using drain [OF reachable_inv [OF assms]] by blast+
  then have iq: "inv_queue ?s" and it: "inv_torrents ?s" and inn: "inv_native ?s"
    by (simp_all add: move_inv_def)
  have qh: "queued_handles ?s = {}" using d(2) by (simp add: queued_handles_def)
  have "s_outstanding ?s = None" using iq d(2) by (simp add: inv_queue_def)
  moreover have "\<not> m_storageIsMoving t" if "s_torrents ?s i = Some t" for i t
    using inv_torrentsD(2) [OF it that] qh by simp
  moreover have "s_native ?s h = Some i \<longleftrightarrow> (\<exists>t. s_torrents ?s i = Some t \<and> m_nativeHandle t = h)" for h i
    using inv_torrentsD(1) [OF it] inv_nativeD(3,4) [OF inn, of h i] qh
    by (cases "s_torrents ?s i") auto
  ultimately show ?thesis using d(2) by (simp add: Let_def)
qed

theorem move_queue_drains_witness:
  "s_moveQueue (handleStorageMovedAlert m_nativeStatus moving_session) = []"
  using move_queue_drains [OF moving_session_reachable]
  by (simp add: moving_session_value Let_def)

section \<open>Missing files\<close>

text \<open>Nothing is asked of libtorrent and jobs are waiting: no step will ask again.\<close>

definition wedged :: "'a move_session_scheme \<Rightarrow> bool" where
  "wedged s \<longleftrightarrow> s_outstanding s = None \<and> s_moveQueue s \<noteq> []"

lemma handler_frame [simp]:
  "s_moveQueue (handleMoveStorageJobFinished rs i t p ctx b s) = s_moveQueue s"
  "s_outstanding (handleMoveStorageJobFinished rs i t p ctx b s) = s_outstanding s"
  by (simp_all add: handleMoveStorageJobFinished_def torrent_reload_def Let_def)

lemma wedged_add:
  "wedged s \<Longrightarrow> wedged (snd (addMoveTorrentStorageJob rs i t p mode ctx s))"
  by (auto simp: addMoveTorrentStorageJob_def wedged_def Let_def split: option.splits)

lemma wedged_step: "move_step rs s s' \<Longrightarrow> wedged s \<Longrightarrow> wedged s'"
proof (induction rule: move_step.induct)
  case (move s i p ctx)
  show ?case
  proof (cases "s_torrents s i")
    case None
    then show ?thesis using move by (simp add: moveStorage_def)
  next
    case (Some t)
    let ?r = "addMoveTorrentStorageJob rs i t p (if ctx = AdjustCurrentLocation then Overwrite else KeepExistingFiles) ctx s"
    have "wedged (snd ?r)" using move(2) by (rule wedged_add)
    then show ?thesis using Some move
      by (cases ?r) (auto simp: moveStorage_def wedged_def Let_def split: option.splits bool.splits)
  qed
next
  case (remove s i opt)
  then show ?case
    by (auto simp: removeTorrent_def remove_native_def wedged_def Let_def split: option.splits)
next
  case (gone i s)
  then show ?case by (auto simp: handleRemovedTorrent_def wedged_def split: option.splits)
qed (auto simp: wedged_def torrent_reload_def Let_def)

text \<open>
  The first of the two courses \<open>move_step\<close> leaves out. A torrent with missing files whose move is
  waiting behind another torrent's is moved again, to a third place: the waiting job is cancelled,
  which reloads the torrent under a new handle, and the new job is queued under the old handle. If
  libtorrent has let go of the torrent it had under the old handle when the first move is finished,
  \<^verbatim>\<open>move_storage\<close> throws; the exception is swallowed with the job at the head of the queue, and
  no later step asks libtorrent again.
\<close>
lemma missing_files_wedge_queue:
  assumes q: "s_moveQueue s = [a, b]" "s_outstanding s = Some (job_handle a, job_path a)"
    and t: "s_torrents s i = Some t" "m_hasMissingFiles t" "hasMetadata t"
    and b: "job_handle b = m_nativeHandle t" "job_handle a \<noteq> m_nativeHandle t"
    and fresh: "m_nativeHandle t < s_nextHandle s"
    and new: "newPath \<noteq> actualStorageLocation t"
    and s': "s' = handleStorageMovedAlert rs (moveStorage rs i newPath ctx s)"
  shows "wedged s' \<and> (\<forall>s''. (move_step rs)\<^sup>*\<^sup>* s' s'' \<longrightarrow> wedged s'')"
proof -
  let ?h = "m_nativeHandle t"
  let ?s1 = "moveStorage rs i newPath ctx s"
  have len: "length (s_moveQueue s) > 1" using q by simp
  have find: "find (\<lambda>j. job_handle j = ?h) (tl (s_moveQueue s)) = Some b" using q b by simp
  have q1: "\<exists>job. s_moveQueue ?s1 = [a, job] \<and> job_handle job = ?h"
    and n1: "s_native ?s1 ?h = None" and o1: "s_outstanding ?s1 = s_outstanding s"
    using t b new fresh q len find
    by (auto simp: moveStorage_def addMoveTorrentStorageJob_def Let_def handleMoveStorageJobFinished_def
        torrent_reload_def put_torrent_def)
  obtain job where job: "s_moveQueue ?s1 = [a, job]" "job_handle job = ?h" using q1 by blast
  have "wedged s'"
    using job n1 o1 q(2) b
    by (auto simp: s' handleStorageMovedAlert_def handleMoveTorrentStorageJobFinished_def wedged_def
        moveTorrentStorage_def removing_subscript_def remove_native_def Let_def split: option.splits)
  moreover have "wedged s''" if "(move_step rs)\<^sup>*\<^sup>* s' s''" for s''
    using that \<open>wedged s'\<close> by (induction rule: rtranclp_induct) (auto intro: wedged_step)
  ultimately show ?thesis by blast
qed

definition missing_session :: move_session where
  "missing_session =
     \<lparr>s_torrents = [''i'' \<mapsto> sample_torrent\<lparr>m_hasMissingFiles := True, m_nativeHandle := 1\<rparr>],
      s_moveQueue =
        [\<lparr>job_handle = 0, job_path = ''/a'', job_mode = KeepExistingFiles, job_context = ChangeSavePath\<rparr>,
         \<lparr>job_handle = 1, job_path = ''/b'', job_mode = KeepExistingFiles, job_context = ChangeSavePath\<rparr>],
      s_removing = (\<lambda>_. None), s_queueing = True, s_native = [0 \<mapsto> ''j'', 1 \<mapsto> ''i''],
      s_nextHandle = 2, s_outstanding = Some (0, ''/a'')\<rparr>"

lemma missing_files_wedge_queue_witness:
  "wedged (handleStorageMovedAlert m_nativeStatus
     (moveStorage m_nativeStatus ''i'' ''/c'' ChangeSavePath missing_session))"
proof -
  let ?s = "missing_session"
  let ?t = "sample_torrent\<lparr>m_hasMissingFiles := True, m_nativeHandle := 1\<rparr>"
  let ?b = "\<lparr>job_handle = 1, job_path = ''/b'', job_mode = KeepExistingFiles, job_context = ChangeSavePath\<rparr>"
  let ?a = "\<lparr>job_handle = 0, job_path = ''/a'', job_mode = KeepExistingFiles, job_context = ChangeSavePath\<rparr>"
  have "s_moveQueue ?s = [?a, ?b]" "s_outstanding ?s = Some (job_handle ?a, job_path ?a)"
    "s_torrents ?s ''i'' = Some ?t" "m_hasMissingFiles ?t" "hasMetadata ?t"
    "job_handle ?b = m_nativeHandle ?t" "job_handle ?a \<noteq> m_nativeHandle ?t"
    "m_nativeHandle ?t < s_nextHandle ?s" "''/c'' \<noteq> actualStorageLocation ?t"
    by (simp_all add: missing_session_def hasMetadata_def actualStorageLocation_def sample_defs)
  from missing_files_wedge_queue [OF this refl] show ?thesis by blast
qed

end
