(* ===== verification/Categories.thy ===== *)
theory Categories
  imports Move_Storage Qt_Containers
begin

text \<open>
  Categories, tags and where they put a torrent: the category part of
  \<^verbatim>\<open>SessionImpl\<close> (\<^verbatim>\<open>src/src/base/bittorrent/sessionimpl.cpp\<close>) and the
  operations of \<^verbatim>\<open>TorrentImpl\<close> that use it. The session extends that of
  \<open>Move_Storage\<close>; \<^verbatim>\<open>m_categories\<close> is a QMap. The hash of torrents is walked in
  an order that is an argument (\<open>order\<close>); signals and the saving of resume data are left out.
\<close>

section \<open>State\<close>

record download_path_option =
  dp_enabled :: bool
  dp_path :: path

record category_options =
  co_savePath :: path
  co_downloadPath :: "download_path_option option"

definition no_options :: category_options where
  "no_options = \<lparr>co_savePath = [], co_downloadPath = None\<rparr>"

type_synonym categories = "(qstring, category_options) qmap"

text \<open>The categories file: \<^verbatim>\<open>save_path\<close> and, unless undefined, \<^verbatim>\<open>download_path\<close>.\<close>

datatype download_json = Undefined_Json | Bool_Json bool | String_Json path

type_synonym options_json = "path \<times> download_json"

record session = move_session +
  s_categories :: categories
  s_categoriesFile :: "(qstring, options_json) qmap"
  s_tags :: "tag set"
  s_subcategories :: bool
  s_disableAutoTMMWhenCategoryChanged :: bool
  s_disableAutoTMMWhenDefaultSavePathChanged :: bool
  s_disableAutoTMMWhenCategorySavePathChanged :: bool
  s_savePath :: path
  s_downloadPath :: path
  s_downloadPathEnabled :: bool
  s_useCategoryPathsInManualMode :: bool
  s_autoTMMDisabledByDefault :: bool

section \<open>Category names\<close>


definition subcategoryName :: "qstring \<Rightarrow> qstring" where
  "subcategoryName category =
     (case last_index_of slash category of
        Some sepIndex \<Rightarrow> drop (sepIndex + 1) category
      | None \<Rightarrow> category)"

definition parentCategoryName :: "qstring \<Rightarrow> qstring" where
  "parentCategoryName category =
     (case last_index_of slash category of
        Some sepIndex \<Rightarrow> take sepIndex category
      | None \<Rightarrow> [])"

text \<open>The loop of \<^verbatim>\<open>expandCategory\<close>: the text before each slash, from left to right.\<close>

fun expand_loop :: "qstring \<Rightarrow> qstring \<Rightarrow> qstring list" where
  "expand_loop before [] = []"
| "expand_loop before (c # rest) =
     (if c = slash then before # expand_loop (before @ [c]) rest
      else expand_loop (before @ [c]) rest)"

definition expandCategory :: "qstring \<Rightarrow> qstring list" where
  "expandCategory category = expand_loop [] category @ [category]"

definition add_missing :: "qstring \<Rightarrow> categories \<Rightarrow> categories" where
  "add_missing c m = (if qmap_contains m c then m else qmap_insert c no_options m)"


section \<open>Paths of a category\<close>

text \<open>\<^verbatim>\<open>Utils::Fs::toValidPath\<close>: each run of forbidden characters becomes one pad.\<close>

definition path_forbidden :: "char \<Rightarrow> bool" where
  "path_forbidden c \<longleftrightarrow> c \<in> set '':?*<>|'' \<or> c = CHR 0x22"

fun replace_forbidden :: "qstring \<Rightarrow> bool \<Rightarrow> qstring \<Rightarrow> qstring" where
  "replace_forbidden pad in_run [] = []"
| "replace_forbidden pad in_run (c # rest) =
     (if path_forbidden c then (if in_run then [] else pad) @ replace_forbidden pad True rest
      else c # replace_forbidden pad False rest)"

definition toValidPath :: "(qstring \<Rightarrow> qstring) \<Rightarrow> qstring \<Rightarrow> path" where
  "toValidPath qdirClean name = path_of_string qdirClean (replace_forbidden '' '' False name)"

definition categoryOptions :: "'a session_scheme \<Rightarrow> qstring \<Rightarrow> category_options" where
  "categoryOptions s categoryName = qmap_value (s_categories s) categoryName no_options"

lemma parentCategoryName_shorter: "c \<noteq> [] \<Longrightarrow> length (parentCategoryName c) < length c"
  by (auto simp: parentCategoryName_def split: option.splits dest: last_index_of_Some)

function categorySavePath_with ::
  "(qstring \<Rightarrow> qstring) \<Rightarrow> 'a session_scheme \<Rightarrow> qstring \<Rightarrow> category_options \<Rightarrow> path" where
  "categorySavePath_with qdirClean s categoryName options =
     (if categoryName = [] then s_savePath s
      else
        (let p0 = co_savePath options;
             (p, basePath) =
               (if path_isEmpty p0 then
                  (if s_subcategories s then
                     (toValidPath qdirClean (subcategoryName categoryName),
                      categorySavePath_with qdirClean s (parentCategoryName categoryName)
                        (categoryOptions s (parentCategoryName categoryName)))
                   else (toValidPath qdirClean categoryName, s_savePath s))
                else (p0, s_savePath s))
         in if path_isAbsolute p then p else path_append qdirClean basePath p))"
  by pat_completeness auto
termination
  by (relation "measure (\<lambda>(_, _, c, _). length c)") (auto simp: parentCategoryName_shorter)

declare categorySavePath_with.simps [simp del]

definition categorySavePath :: "(qstring \<Rightarrow> qstring) \<Rightarrow> 'a session_scheme \<Rightarrow> qstring \<Rightarrow> path" where
  "categorySavePath qdirClean s categoryName =
     categorySavePath_with qdirClean s categoryName (categoryOptions s categoryName)"

function resolveCategoryDownloadPathOption ::
  "'a session_scheme \<Rightarrow> qstring \<Rightarrow> download_path_option option \<Rightarrow> download_path_option" where
  "resolveCategoryDownloadPathOption s categoryName opt =
     (if categoryName = [] then \<lparr>dp_enabled = s_downloadPathEnabled s, dp_path = []\<rparr>
      else (case opt of
              Some d \<Rightarrow> d
            | None \<Rightarrow>
                (let parentName = (if s_subcategories s then parentCategoryName categoryName else [])
                 in resolveCategoryDownloadPathOption s parentName
                      (co_downloadPath (categoryOptions s parentName)))))"
  by pat_completeness auto
termination
  by (relation "measure (\<lambda>(_, c, _). length c)") (auto simp: parentCategoryName_shorter)

declare resolveCategoryDownloadPathOption.simps [simp del]

function categoryDownloadPath_with ::
  "(qstring \<Rightarrow> qstring) \<Rightarrow> 'a session_scheme \<Rightarrow> qstring \<Rightarrow> category_options \<Rightarrow> path" where
  "categoryDownloadPath_with qdirClean s categoryName options =
     (let opt = resolveCategoryDownloadPathOption s categoryName (co_downloadPath options)
      in if \<not> dp_enabled opt then []
         else if categoryName = [] then s_downloadPath s
         else
           (let useSubcategories = s_subcategories s;
                name = (if useSubcategories then subcategoryName categoryName else categoryName);
                p = (if \<not> path_isEmpty (dp_path opt) then dp_path opt else toValidPath qdirClean name)
            in if path_isAbsolute p then p
               else
                 (let parentName = (if useSubcategories then parentCategoryName categoryName else []);
                      parentOptions0 = categoryOptions s parentName;
                      parentOptions =
                        (case co_downloadPath parentOptions0 of
                           None \<Rightarrow> parentOptions0\<lparr>co_downloadPath := Some \<lparr>dp_enabled = True, dp_path = []\<rparr>\<rparr>
                         | Some d \<Rightarrow>
                             if \<not> dp_enabled d
                             then parentOptions0\<lparr>co_downloadPath := Some \<lparr>dp_enabled = True, dp_path = []\<rparr>\<rparr>
                             else parentOptions0);
                      parentDownloadPath = categoryDownloadPath_with qdirClean s parentName parentOptions;
                      basePath = (if path_isEmpty parentDownloadPath then s_downloadPath s
                                  else parentDownloadPath)
                  in path_append qdirClean basePath p)))"
  by pat_completeness auto
termination
  by (relation "measure (\<lambda>(_, _, c, _). length c)") (auto simp: parentCategoryName_shorter)

declare categoryDownloadPath_with.simps [simp del]

definition categoryDownloadPath :: "(qstring \<Rightarrow> qstring) \<Rightarrow> 'a session_scheme \<Rightarrow> qstring \<Rightarrow> path" where
  "categoryDownloadPath qdirClean s categoryName =
     categoryDownloadPath_with qdirClean s categoryName (categoryOptions s categoryName)"

definition suggestedSavePath :: "(qstring \<Rightarrow> qstring) \<Rightarrow> 'a session_scheme \<Rightarrow> qstring \<Rightarrow> bool option \<Rightarrow> path" where
  "suggestedSavePath qdirClean s categoryName useAutoTMM =
     (let useCategoryPaths = (case useAutoTMM of Some b \<Rightarrow> b | None \<Rightarrow> \<not> s_autoTMMDisabledByDefault s)
                              \<or> s_useCategoryPathsInManualMode s
      in if useCategoryPaths then categorySavePath qdirClean s categoryName else s_savePath s)"

definition suggestedDownloadPath :: "(qstring \<Rightarrow> qstring) \<Rightarrow> 'a session_scheme \<Rightarrow> qstring \<Rightarrow> bool option \<Rightarrow> path" where
  "suggestedDownloadPath qdirClean s categoryName useAutoTMM =
     (let useCategoryPaths = (case useAutoTMM of Some b \<Rightarrow> b | None \<Rightarrow> \<not> s_autoTMMDisabledByDefault s)
                              \<or> s_useCategoryPathsInManualMode s;
          p = categoryDownloadPath qdirClean s categoryName
      in if useCategoryPaths \<and> \<not> path_isEmpty p then p else s_downloadPath s)"

section \<open>A torrent in its category\<close>

definition mod_torrent :: "qbytearray \<Rightarrow> (torrent \<Rightarrow> torrent) \<Rightarrow> 'a move_session_scheme \<Rightarrow> 'a move_session_scheme" where
  "mod_torrent i f s = (case s_torrents s i of None \<Rightarrow> s | Some t \<Rightarrow> put_torrent i (f t) s)"

definition torrent_savePath :: "(qstring \<Rightarrow> qstring) \<Rightarrow> 'a session_scheme \<Rightarrow> torrent \<Rightarrow> path" where
  "torrent_savePath qdirClean s t =
     (if m_useAutoTMM t then categorySavePath qdirClean s (m_category t) else m_savePath t)"

definition torrent_downloadPath :: "(qstring \<Rightarrow> qstring) \<Rightarrow> 'a session_scheme \<Rightarrow> torrent \<Rightarrow> path" where
  "torrent_downloadPath qdirClean s t =
     (if m_useAutoTMM t then categoryDownloadPath qdirClean s (m_category t) else m_downloadPath t)"

definition adjustStorageLocation ::
  "(torrent \<Rightarrow> native_status) \<Rightarrow> (qstring \<Rightarrow> qstring) \<Rightarrow> qbytearray \<Rightarrow> 'a session_scheme \<Rightarrow> 'a session_scheme" where
  "adjustStorageLocation rs qdirClean i s =
     (case s_torrents s i of
        None \<Rightarrow> s
      | Some t \<Rightarrow>
          (let downloadPath = torrent_downloadPath qdirClean s t;
               targetPath = (if isFinished t \<or> m_hasFinishedStatus t \<or> path_isEmpty downloadPath
                             then torrent_savePath qdirClean s t else downloadPath)
           in if targetPath \<noteq> actualStorageLocation t \<or> isMoveInProgress t
              then moveStorage rs i targetPath AdjustCurrentLocation s
              else s))"

definition setAutoTMMEnabled ::
  "(torrent \<Rightarrow> native_status) \<Rightarrow> (qstring \<Rightarrow> qstring) \<Rightarrow> qbytearray \<Rightarrow> bool \<Rightarrow> 'a session_scheme \<Rightarrow> 'a session_scheme" where
  "setAutoTMMEnabled rs qdirClean i enabled s =
     (case s_torrents s i of
        None \<Rightarrow> s
      | Some t \<Rightarrow>
          if m_useAutoTMM t = enabled then s
          else
            (let t1 = t\<lparr>m_useAutoTMM := enabled\<rparr>;
                 t2 = (if \<not> enabled
                       then t1\<lparr>m_savePath := categorySavePath qdirClean s (m_category t1),
                               m_downloadPath := categoryDownloadPath qdirClean s (m_category t1)\<rparr>
                       else t1)
             in adjustStorageLocation rs qdirClean i (put_torrent i t2 s)))"

definition torrent_setCategory ::
  "(torrent \<Rightarrow> native_status) \<Rightarrow> (qstring \<Rightarrow> qstring) \<Rightarrow> qbytearray \<Rightarrow> qstring \<Rightarrow> 'a session_scheme
     \<Rightarrow> bool \<times> 'a session_scheme" where
  "torrent_setCategory rs qdirClean i category s =
     (case s_torrents s i of
        None \<Rightarrow> (False, s)
      | Some t \<Rightarrow>
          if m_category t \<noteq> category then
            (if category \<noteq> [] \<and> \<not> qmap_contains (s_categories s) category then (False, s)
             else
               (let s1 = (if s_disableAutoTMMWhenCategoryChanged s
                          then setAutoTMMEnabled rs qdirClean i False s else s);
                    s2 = mod_torrent i (\<lambda>t. t\<lparr>m_category := category\<rparr>) s1
                in (True,
                    case s_torrents s2 i of
                      None \<Rightarrow> s2
                    | Some t2 \<Rightarrow> if m_useAutoTMM t2 then adjustStorageLocation rs qdirClean i s2 else s2)))
          else (True, s))"




section \<open>The categories file\<close>

definition options_toJSON :: "category_options \<Rightarrow> options_json" where
  "options_toJSON opts =
     (co_savePath opts,
      (case co_downloadPath opts of
         None \<Rightarrow> Undefined_Json
       | Some d \<Rightarrow> if dp_enabled d then String_Json (dp_path d) else Bool_Json False))"


text \<open>
  The file is written after every change and read again when subcategories are turned off; both
  are taken to succeed. The objects of a JSON document are sorted as the categories are.
\<close>

definition storeCategories :: "'a session_scheme \<Rightarrow> 'a session_scheme" where
  "storeCategories s =
     s\<lparr>s_categoriesFile := map (\<lambda>(name, opts). (name, options_toJSON opts)) (s_categories s)\<rparr>"


section \<open>The categories of a session\<close>




text \<open>The body of the first loop of \<^verbatim>\<open>removeCategory\<close>.\<close>

definition clear_category ::
  "(torrent \<Rightarrow> native_status) \<Rightarrow> (qstring \<Rightarrow> qstring) \<Rightarrow> qstring \<Rightarrow> qbytearray
     \<Rightarrow> 'a session_scheme \<Rightarrow> 'a session_scheme" where
  "clear_category rs qdirClean name i s =
     (case s_torrents s i of
        None \<Rightarrow> s
      | Some t \<Rightarrow> if belongsToCategory (s_subcategories s) name t
                  then snd (torrent_setCategory rs qdirClean i [] s) else s)"

definition removeCategory ::
  "(torrent \<Rightarrow> native_status) \<Rightarrow> (qstring \<Rightarrow> qstring) \<Rightarrow> qbytearray list \<Rightarrow> qstring
     \<Rightarrow> 'a session_scheme \<Rightarrow> bool \<times> 'a session_scheme" where
  "removeCategory rs qdirClean order name s =
     (let s1 = fold (clear_category rs qdirClean name) order s;
          m = s_categories s1;
          test = name @ [slash];
          m1 = (if s_subcategories s1 then filter (\<lambda>(c, _). \<not> prefix test c) m else m);
          result1 = (s_subcategories s1 \<and> list_ex (\<lambda>(c, _). prefix test c) m);
          result = (qmap_contains m1 name \<or> result1);
          s2 = s1\<lparr>s_categories := qmap_remove name m1\<rparr>
      in (result, if result then storeCategories s2 else s2))"


section \<open>The paths of a session\<close>





section \<open>Tags\<close>



definition torrent_removeTag :: "qbytearray \<Rightarrow> tag \<Rightarrow> 'a session_scheme \<Rightarrow> bool \<times> 'a session_scheme" where
  "torrent_removeTag i tg s =
     (case s_torrents s i of
        None \<Rightarrow> (False, s)
      | Some t \<Rightarrow>
          if hasTag tg t then (True, put_torrent i (t\<lparr>m_tags := m_tags t - {tg}\<rparr>) s)
          else (False, s))"

text \<open>The copy of the tags is walked in any order (\<open>tags\<close>).\<close>

definition torrent_removeAllTags :: "qbytearray \<Rightarrow> tag list \<Rightarrow> 'a session_scheme \<Rightarrow> 'a session_scheme" where
  "torrent_removeAllTags i tags s = fold (\<lambda>tg s. snd (torrent_removeTag i tg s)) tags s"


section \<open>What moving storage leaves alone\<close>

definition label :: "torrent \<Rightarrow> qstring \<times> tag set \<times> bool" where
  "label t = (m_category t, m_tags t, m_useAutoTMM t)"

definition labels :: "'a move_session_scheme \<Rightarrow> qbytearray \<Rightarrow> (qstring \<times> tag set \<times> bool) option" where
  "labels s i = map_option label (s_torrents s i)"

definition same_labels :: "'a move_session_scheme \<Rightarrow> 'a move_session_scheme \<Rightarrow> bool" where
  "same_labels s s' \<longleftrightarrow> labels s' = labels s \<and> move_session.more s' = move_session.more s"

lemma same_labels_refl [simp]: "same_labels s s"
  by (simp add: same_labels_def)

lemma same_labels_trans: "same_labels s s' \<Longrightarrow> same_labels s' s'' \<Longrightarrow> same_labels s s''"
  by (simp add: same_labels_def)

lemma same_labels_put:
  "s_torrents s i = Some t \<Longrightarrow> label t' = label t \<Longrightarrow> same_labels s (put_torrent i t' s)"
  by (auto simp: same_labels_def labels_def put_torrent_def)

lemma labels_upd [simp]:
  "labels (s\<lparr>s_moveQueue := q\<rparr>) = labels s"
  "labels (s\<lparr>s_outstanding := out\<rparr>) = labels s"
  "labels (s\<lparr>s_native := n\<rparr>) = labels s"
  "labels (s\<lparr>s_nextHandle := h\<rparr>) = labels s"
  by (simp_all add: labels_def fun_eq_iff)

lemma same_labels_upd [simp]:
  "same_labels s (s'\<lparr>s_moveQueue := q\<rparr>) = same_labels s s'"
  "same_labels s (s'\<lparr>s_outstanding := out\<rparr>) = same_labels s s'"
  "same_labels s (s'\<lparr>s_native := n\<rparr>) = same_labels s s'"
  "same_labels s (s'\<lparr>s_nextHandle := h\<rparr>) = same_labels s s'"
  by (simp_all add: same_labels_def)

lemma label_updates [simp]:
  "label (updateState q t) = label t"
  "label (t\<lparr>m_storageIsMoving := b\<rparr>) = label t"
  "label (t\<lparr>m_savePath := p\<rparr>) = label t"
  "label (t\<lparr>m_downloadPath := p\<rparr>) = label t"
  "label (t\<lparr>m_hasMissingFiles := b\<rparr>) = label t"
  "label (t\<lparr>m_nativeStatus := n\<rparr>) = label t"
  "label (t\<lparr>m_nativeHandle := h\<rparr>) = label t"
  by (simp_all add: label_def updateState_def)

lemma same_labels_put_upd:
  assumes "s_torrents s i = Some t" and "label t' = label t"
  shows "same_labels s (put_torrent i t' (s\<lparr>s_native := n, s_nextHandle := h\<rparr>))"
  using assms by (auto simp: same_labels_def labels_def put_torrent_def)

lemma same_labels_handler:
  assumes "s_torrents s i = Some t"
  shows "same_labels s (handleMoveStorageJobFinished rs i t p ctx b s)"
  using assms
  by (auto simp: handleMoveStorageJobFinished_def torrent_reload_def Let_def
      intro!: same_labels_put same_labels_put_upd)

lemma same_labels_add:
  assumes "s_torrents s i = Some t"
  shows "same_labels s (snd (addMoveTorrentStorageJob rs i t p mode ctx s))"
proof -
  have "same_labels s (cancel_waiting rs i t s)"
    using same_labels_handler [OF assms]
    by (auto simp: cancel_waiting_def Let_def split: option.splits)
  then show ?thesis
    by (simp add: addMove_unfold moveTorrentStorage_def Let_def)
qed

lemma same_labels_moveStorage: "same_labels s (moveStorage rs i p ctx s)"
proof (cases "s_torrents s i")
  case None
  then show ?thesis by (simp add: moveStorage_def)
next
  case (Some t)
  let ?r = "addMoveTorrentStorageJob rs i t p (if ctx = AdjustCurrentLocation then Overwrite else KeepExistingFiles) ctx s"
  have r: "same_labels s (snd ?r)" using Some by (rule same_labels_add)
  obtain b s1 where b: "?r = (b, s1)" by fastforce
  have r1: "same_labels s s1" using r b by simp
  have "same_labels s (put_torrent i (updateState q (t1\<lparr>m_storageIsMoving := True\<rparr>)) s1)"
    if "s_torrents s1 i = Some t1" for q t1
    using r1 same_labels_put [OF that, of "updateState q (t1\<lparr>m_storageIsMoving := True\<rparr>)"]
    by (auto intro: same_labels_trans)
  then show ?thesis using Some b r1
    by (auto simp: moveStorage_def Let_def intro!: same_labels_put split: option.splits bool.splits)
qed

lemma more_fields:
  assumes "move_session.more s' = move_session.more s"
  shows "s_categories s' = s_categories s" "s_tags s' = s_tags s"
    "s_subcategories s' = s_subcategories s"
    "s_disableAutoTMMWhenCategoryChanged s' = s_disableAutoTMMWhenCategoryChanged s"
    "s_categoriesFile s' = s_categoriesFile s"
  using assms by (cases s; cases s'; simp)+

lemma same_labels_adjust: "same_labels s (adjustStorageLocation rs qd i s)"
  by (auto simp: adjustStorageLocation_def Let_def same_labels_moveStorage split: option.splits)

text \<open>What an operation on one torrent may do: change that torrent's labels.\<close>

definition only_torrent :: "qbytearray \<Rightarrow> 'a session_scheme \<Rightarrow> 'a session_scheme \<Rightarrow> bool" where
  "only_torrent i s s' \<longleftrightarrow>
     (\<forall>j. j \<noteq> i \<longrightarrow> labels s' j = labels s j) \<and> move_session.more s' = move_session.more s
     \<and> (labels s' i = None) = (labels s i = None)"

lemma only_torrent_trans: "only_torrent i s s' \<Longrightarrow> only_torrent i s' s'' \<Longrightarrow> only_torrent i s s''"
  by (simp add: only_torrent_def)

lemma only_torrent_same: "same_labels s s' \<Longrightarrow> only_torrent i s s'"
  by (simp add: only_torrent_def same_labels_def)

lemma only_torrent_put: "s_torrents s i = Some t \<Longrightarrow> only_torrent i s (put_torrent i t' s)"
  by (simp add: only_torrent_def labels_def put_torrent_def)

lemma setAutoTMM_effect:
  "only_torrent i s (setAutoTMMEnabled rs qd i b s)
   \<and> labels (setAutoTMMEnabled rs qd i b s) i
       = map_option (\<lambda>(c, tgs, _). (c, tgs, b)) (labels s i)"
proof (cases "s_torrents s i")
  case None
  then show ?thesis by (simp add: setAutoTMMEnabled_def only_torrent_same labels_def)
next
  case (Some t)
  show ?thesis
  proof (cases "m_useAutoTMM t = b")
    case True
    then show ?thesis using Some
      by (simp add: setAutoTMMEnabled_def only_torrent_same labels_def label_def)
  next
    case False
    let ?t2 = "if \<not> b
       then (t\<lparr>m_useAutoTMM := b\<rparr>)\<lparr>m_savePath := categorySavePath qd s (m_category t),
                   m_downloadPath := categoryDownloadPath qd s (m_category t)\<rparr>
       else t\<lparr>m_useAutoTMM := b\<rparr>"
    have e: "setAutoTMMEnabled rs qd i b s = adjustStorageLocation rs qd i (put_torrent i ?t2 s)"
      using Some False by (simp add: setAutoTMMEnabled_def Let_def)
    have same: "same_labels (put_torrent i ?t2 s) (setAutoTMMEnabled rs qd i b s)"
      unfolding e by (rule same_labels_adjust)
    have "only_torrent i s (setAutoTMMEnabled rs qd i b s)"
      using only_torrent_trans [OF only_torrent_put [OF Some] only_torrent_same [OF same]] .
    moreover have "labels (setAutoTMMEnabled rs qd i b s) i = Some (label ?t2)"
      using same by (simp add: same_labels_def labels_def)
    moreover have "label ?t2 = (m_category t, m_tags t, b)" by (simp add: label_def)
    ultimately show ?thesis using Some by (simp add: labels_def label_def)
  qed
qed

definition category_of :: "'a move_session_scheme \<Rightarrow> qbytearray \<Rightarrow> qstring option" where
  "category_of s i = map_option m_category (s_torrents s i)"

definition tags_of :: "'a move_session_scheme \<Rightarrow> qbytearray \<Rightarrow> tag set option" where
  "tags_of s i = map_option m_tags (s_torrents s i)"

lemma of_upd [simp]:
  "category_of (s\<lparr>s_categories := m\<rparr>) = category_of s"
  "tags_of (s\<lparr>s_categories := m\<rparr>) = tags_of s"
  "category_of (s\<lparr>s_categories := m, s_subcategories := b\<rparr>) = category_of s"
  "category_of (s\<lparr>s_subcategories := b\<rparr>) = category_of s"
  "tags_of (s\<lparr>s_subcategories := b\<rparr>) = tags_of s"
  "category_of (s\<lparr>s_savePath := p\<rparr>) = category_of s"
  "tags_of (s\<lparr>s_savePath := p\<rparr>) = tags_of s"
  "category_of (s\<lparr>s_downloadPath := p\<rparr>) = category_of s"
  "tags_of (s\<lparr>s_downloadPath := p\<rparr>) = tags_of s"
  "category_of (s\<lparr>s_downloadPathEnabled := b\<rparr>) = category_of s"
  "tags_of (s\<lparr>s_downloadPathEnabled := b\<rparr>) = tags_of s"
  "category_of (storeCategories s) = category_of s"
  "tags_of (storeCategories s) = tags_of s"
  "category_of (s\<lparr>s_tags := tgs\<rparr>) = category_of s"
  "tags_of (s\<lparr>s_tags := tgs\<rparr>) = tags_of s"
  by (simp_all add: category_of_def tags_of_def storeCategories_def fun_eq_iff)

lemma storeCategories_simps [simp]:
  "s_torrents (storeCategories s) = s_torrents s"
  "s_categories (storeCategories s) = s_categories s"
  "s_subcategories (storeCategories s) = s_subcategories s"
  "s_tags (storeCategories s) = s_tags s"
  "fst ` set (s_categoriesFile (storeCategories s)) = fst ` set (s_categories s)"
  by (force simp: storeCategories_def image_iff split: prod.splits)+

lemma of_labels:
  "category_of s i = map_option fst (labels s i)"
  "tags_of s i = map_option (fst \<circ> snd) (labels s i)"
  by (simp_all add: category_of_def tags_of_def labels_def label_def option.map_comp o_def)

lemma setCategory_effect:
  assumes "s_torrents s i = Some t"
  shows "only_torrent i s (snd (torrent_setCategory rs qd i c s))"
    and "fst (torrent_setCategory rs qd i c s) \<longleftrightarrow>
       m_category t = c \<or> c = [] \<or> qmap_contains (s_categories s) c"
    and "category_of (snd (torrent_setCategory rs qd i c s)) i
       = Some (if fst (torrent_setCategory rs qd i c s) then c else m_category t)"
    and "tags_of (snd (torrent_setCategory rs qd i c s)) i = Some (m_tags t)"
proof -
  let ?r = "torrent_setCategory rs qd i c s"
  have main: "only_torrent i s (snd ?r)
    \<and> (fst ?r \<longleftrightarrow> m_category t = c \<or> c = [] \<or> qmap_contains (s_categories s) c)
    \<and> map_option fst (labels (snd ?r) i) = Some (if fst ?r then c else m_category t)
    \<and> map_option (fst \<circ> snd) (labels (snd ?r) i) = Some (m_tags t)"
  proof (cases "m_category t \<noteq> c \<and> (c = [] \<or> qmap_contains (s_categories s) c)")
    case False
    then show ?thesis using assms
      by (auto simp: torrent_setCategory_def only_torrent_same labels_def label_def)
  next
    case True
    let ?s1 = "if s_disableAutoTMMWhenCategoryChanged s then setAutoTMMEnabled rs qd i False s else s"
    have o1: "only_torrent i s ?s1"
      using setAutoTMM_effect [of i s rs qd False] by (simp add: only_torrent_same)
    have "\<exists>b. labels ?s1 i = Some (m_category t, m_tags t, b)"
      using setAutoTMM_effect [of i s rs qd False] assms
      by (cases "s_disableAutoTMMWhenCategoryChanged s") (auto simp: labels_def label_def)
    then obtain b where l1: "labels ?s1 i = Some (m_category t, m_tags t, b)" by blast
    then obtain t1 where t1: "s_torrents ?s1 i = Some t1" "m_tags t1 = m_tags t" "m_category t1 = m_category t"
      by (auto simp: labels_def label_def)
    let ?s2 = "put_torrent i (t1\<lparr>m_category := c\<rparr>) ?s1"
    let ?s3 = "if m_useAutoTMM t1 then adjustStorageLocation rs qd i ?s2 else ?s2"
    have r: "?r = (True, ?s3)"
      using True assms t1(1) by (auto simp: torrent_setCategory_def mod_torrent_def Let_def)
    have same: "same_labels ?s2 ?s3" by (simp add: same_labels_adjust)
    have "only_torrent i s ?s3"
      using only_torrent_trans [OF o1 only_torrent_trans [OF only_torrent_put [OF t1(1)] only_torrent_same [OF same]]] .
    moreover have "labels ?s3 i = Some (label (t1\<lparr>m_category := c\<rparr>))"
      using same by (simp add: same_labels_def labels_def)
    ultimately show ?thesis using True t1(2) by (simp add: r label_def)
  qed
  show "only_torrent i s (snd ?r)"
    "fst ?r \<longleftrightarrow> m_category t = c \<or> c = [] \<or> qmap_contains (s_categories s) c"
    "category_of (snd ?r) i = Some (if fst ?r then c else m_category t)"
    "tags_of (snd ?r) i = Some (m_tags t)"
    using main unfolding of_labels by blast+
qed

section \<open>Parents and subcategories\<close>

lemma set_expand_loop: "set (expand_loop b xs) = {b @ p | p. prefix (p @ [slash]) xs}"
proof (induction b xs rule: expand_loop.induct)
  case (1 b)
  show ?case by simp
next
  case (2 b c rest)
  have "{b @ p | p. prefix (p @ [slash]) (c # rest)}
      = (if c = slash then {b} else {}) \<union> {(b @ [c]) @ p | p. prefix (p @ [slash]) rest}" (is "?L = ?R")
  proof (intro set_eqI iffI)
    fix x assume "x \<in> ?L"
    then obtain p where p: "x = b @ p" "prefix (p @ [slash]) (c # rest)" by auto
    then show "x \<in> ?R" by (cases p) auto
  next
    fix x assume "x \<in> ?R"
    then consider "c = slash" "x = b" | p where "x = (b @ [c]) @ p" "prefix (p @ [slash]) rest"
      by (auto split: if_splits)
    then show "x \<in> ?L"
    proof cases
      case 1
      then have "x = b @ []" "prefix ([] @ [slash]) (c # rest)" by simp_all
      then show ?thesis by blast
    next
      case 2
      then have "x = b @ (c # p)" "prefix ((c # p) @ [slash]) (c # rest)" by simp_all
      then show ?thesis by blast
    qed
  qed
  then show ?case using 2 by (cases "c = slash") simp_all
qed

lemma set_expandCategory: "set (expandCategory c) = insert c {p. prefix (p @ [slash]) c}"
  by (simp add: expandCategory_def set_expand_loop)


definition belongs_name :: "bool \<Rightarrow> qstring \<Rightarrow> qstring \<Rightarrow> bool" where
  "belongs_name sub name c \<longleftrightarrow> c = name \<or> (c \<noteq> [] \<and> sub \<and> prefix (name @ [slash]) c)"

lemma belongs_belongs_name: "belongsToCategory sub name t = belongs_name sub name (m_category t)"
  by (auto simp: belongsToCategory_def belongs_name_def)

text \<open>
  With subcategories a torrent belongs to exactly the categories that its own category expands
  to, itself and the parents; without them it belongs to its own category alone.
\<close>
theorem belongs_iff_expands:
  "belongsToCategory sub name t =
     (if sub then name \<in> set (expandCategory (m_category t)) else name = m_category t)"
  by (auto simp: belongs_belongs_name belongs_name_def set_expandCategory)

lemma contains_add_missing [simp]:
  "qmap_contains (add_missing c m) k \<longleftrightarrow> k = c \<or> qmap_contains m k"
  by (auto simp: add_missing_def qmap_contains_def)

lemma inv_add_missing [simp]: "qmap_inv m \<Longrightarrow> qmap_inv (add_missing c m)"
  by (simp add: add_missing_def)

lemma lookup_add_missing_old: "qmap_lookup m k = Some v \<Longrightarrow> qmap_lookup (add_missing c m) k = Some v"
  by (auto simp: add_missing_def qmap_contains_def)




lemma contains_iff: "qmap_contains m k \<longleftrightarrow> k \<in> fst ` set m"
  by (simp add: qmap_contains_def qmap_lookup_None)


section \<open>The category invariant\<close>


definition covers :: "qbytearray list \<Rightarrow> 'a move_session_scheme \<Rightarrow> bool" where
  "covers order s \<longleftrightarrow> dom (s_torrents s) \<subseteq> set order"

lemma category_of_only:
  "only_torrent i s s' \<Longrightarrow> j \<noteq> i \<Longrightarrow> category_of s' j = category_of s j"
  "only_torrent i s s' \<Longrightarrow> j \<noteq> i \<Longrightarrow> tags_of s' j = tags_of s j"
  by (simp_all add: of_labels only_torrent_def)

lemma only_torrent_more: "only_torrent i s s' \<Longrightarrow> move_session.more s' = move_session.more s"
  by (simp add: only_torrent_def)

lemma clear_fold:
  "move_session.more (fold (clear_category rs qd name) order s) = move_session.more s
    \<and> category_of (fold (clear_category rs qd name) order s) j
       = map_option (\<lambda>c. if j \<in> set order \<and> belongs_name (s_subcategories s) name c then [] else c)
           (category_of s j)
    \<and> tags_of (fold (clear_category rs qd name) order s) j = tags_of s j"
proof (induction order arbitrary: s)
  case Nil
  show ?case by (simp add: option.map_ident)
next
  case (Cons i order)
  let ?s1 = "clear_category rs qd name i s"
  have step: "move_session.more ?s1 = move_session.more s
    \<and> category_of ?s1 j = map_option (\<lambda>c. if j = i \<and> belongs_name (s_subcategories s) name c then [] else c)
           (category_of s j)
    \<and> tags_of ?s1 j = tags_of s j"
  proof (cases "s_torrents s i")
    case None
    then show ?thesis
      by (cases "category_of s j") (auto simp: clear_category_def category_of_def)
  next
    case (Some t)
    note e = setCategory_effect [OF Some, of rs qd "[]"]
    show ?thesis
    proof (cases "belongs_name (s_subcategories s) name (m_category t)")
      case False
      then show ?thesis using Some
        by (cases "category_of s j") (auto simp: clear_category_def category_of_def belongs_belongs_name)
    next
      case True
      then have s1: "?s1 = snd (torrent_setCategory rs qd i [] s)"
        using Some by (simp add: clear_category_def belongs_belongs_name)
      have "category_of ?s1 i = Some []" "tags_of ?s1 i = tags_of s i"
        using e(2,3,4) Some by (simp_all add: s1 tags_of_def)
      moreover have "category_of s i = Some (m_category t)" using Some by (simp add: category_of_def)
      ultimately show ?thesis
        using e(1) True unfolding s1
        by (cases "j = i"; cases "category_of s j")
          (auto simp: category_of_only only_torrent_more)
    qed
  qed
  have sub: "s_subcategories ?s1 = s_subcategories s" using step more_fields by blast
  have "belongs_name b name []" if "belongs_name b name c" "name = []" for b c
    using that by (simp add: belongs_name_def)
  then show ?case
    using Cons.IH [of ?s1] step sub
    by (cases "category_of s j") (auto simp: belongs_name_def)
qed

lemma removeCategory_effect:
  assumes "covers order s"
  shows "category_of (snd (removeCategory rs qd order name s)) j
       = map_option (\<lambda>c. if belongs_name (s_subcategories s) name c then [] else c) (category_of s j)"
    and "tags_of (snd (removeCategory rs qd order name s)) j = tags_of s j"
    and "s_subcategories (snd (removeCategory rs qd order name s)) = s_subcategories s"
    and "s_tags (snd (removeCategory rs qd order name s)) = s_tags s"
    and "s_categories (snd (removeCategory rs qd order name s)) =
       filter (\<lambda>(c, _). \<not> (c = name \<or> s_subcategories s \<and> prefix (name @ [slash]) c)) (s_categories s)"
    and "fst (removeCategory rs qd order name s) \<longleftrightarrow>
       (\<exists>c \<in> fst ` set (s_categories s). c = name \<or> s_subcategories s \<and> prefix (name @ [slash]) c)"
    and "fst ` set (s_categoriesFile s) = fst ` set (s_categories s) \<Longrightarrow>
       fst ` set (s_categoriesFile (snd (removeCategory rs qd order name s)))
       = fst ` set (s_categories (snd (removeCategory rs qd order name s)))"
proof -
  let ?s1 = "fold (clear_category rs qd name) order s"
  note c = clear_fold [of rs qd name order s]
  have m: "s_categories ?s1 = s_categories s" "s_subcategories ?s1 = s_subcategories s" "s_tags ?s1 = s_tags s"
    "s_categoriesFile ?s1 = s_categoriesFile s"
    using c more_fields by blast+
  let ?m = "qmap_remove name
       (if s_subcategories s then filter (\<lambda>(c, _). \<not> prefix (name @ [slash]) c) (s_categories s)
        else s_categories s)"
  have r: "snd (removeCategory rs qd order name s) =
      (if fst (removeCategory rs qd order name s) then storeCategories (?s1\<lparr>s_categories := ?m\<rparr>)
       else ?s1\<lparr>s_categories := ?m\<rparr>)"
    by (simp add: removeCategory_def Let_def m)
  have j: "j \<in> set order" if "category_of s j \<noteq> None" for j
    using that assms by (auto simp: covers_def category_of_def)
  show "category_of (snd (removeCategory rs qd order name s)) j
       = map_option (\<lambda>c. if belongs_name (s_subcategories s) name c then [] else c) (category_of s j)"
    using c [THEN conjunct2, THEN conjunct1, of j] j [of j]
    by (cases "category_of s j") (simp_all add: r)
  show "tags_of (snd (removeCategory rs qd order name s)) j = tags_of s j"
    using c [THEN conjunct2, THEN conjunct2, of j] by (simp add: r)
  show "s_subcategories (snd (removeCategory rs qd order name s)) = s_subcategories s"
    "s_tags (snd (removeCategory rs qd order name s)) = s_tags s"
    by (simp_all add: r m)
  show "s_categories (snd (removeCategory rs qd order name s)) =
       filter (\<lambda>(c, _). \<not> (c = name \<or> s_subcategories s \<and> prefix (name @ [slash]) c)) (s_categories s)"
    by (auto simp: r qmap_remove_def intro!: filter_cong)
  show ok: "fst (removeCategory rs qd order name s) \<longleftrightarrow>
       (\<exists>c \<in> fst ` set (s_categories s). c = name \<or> s_subcategories s \<and> prefix (name @ [slash]) c)"
    by (force simp: removeCategory_def Let_def m contains_iff list_ex_iff)
  show "fst ` set (s_categoriesFile (snd (removeCategory rs qd order name s)))
       = fst ` set (s_categories (snd (removeCategory rs qd order name s)))"
    if "fst ` set (s_categoriesFile s) = fst ` set (s_categories s)"
  proof (cases "fst (removeCategory rs qd order name s)")
    case True
    then show ?thesis by (simp add: r)
  next
    case False
    then have "?m = s_categories s"
      using ok by (force simp: qmap_remove_def filter_id_conv)
    then show ?thesis using False that by (simp add: r m)
  qed
qed

lemma lookup_filter_fst:
  "qmap_lookup (filter (\<lambda>(c, _). P c) m) k = (if P k then qmap_lookup m k else None)"
  by (induction m) auto



lemma contains_insert [simp]:
  "qmap_contains (qmap_insert k v m) j \<longleftrightarrow> j = k \<or> qmap_contains m j"
  by (simp add: qmap_contains_def)

text \<open>
  Removing a category, when the walk over the torrents misses none: no torrent belongs to the
  category any more, every torrent outside it keeps its category, exactly the category and (with
  subcategories) everything below it are gone from the list, and the result tells whether
  anything was there.
\<close>
theorem removeCategory_complete:
  assumes "covers order s" and "name \<noteq> []"
  shows "let (ok, s') = removeCategory rs qd order name s;
             gone = (\<lambda>c. c = name \<or> s_subcategories s \<and> prefix (name @ [slash]) c)
         in (\<forall>i t. s_torrents s' i = Some t \<longrightarrow> \<not> belongsToCategory (s_subcategories s') name t)
            \<and> (\<forall>i c. category_of s i = Some c \<longrightarrow> category_of s' i = Some (if gone c then [] else c))
            \<and> (\<forall>c. qmap_lookup (s_categories s') c = (if gone c then None else qmap_lookup (s_categories s) c))
            \<and> ok = (\<exists>c. gone c \<and> qmap_contains (s_categories s) c)"
proof -
  let ?gone = "\<lambda>c. c = name \<or> s_subcategories s \<and> prefix (name @ [slash]) c"
  obtain ok s' where r: "removeCategory rs qd order name s = (ok, s')" by fastforce
  note e = removeCategory_effect [OF assms(1), of rs qd name, unfolded r prod.sel]
  have g: "belongs_name (s_subcategories s) name c = ?gone c" for c
    using assms(2) by (auto simp: belongs_name_def)
  have cat: "category_of s' i = map_option (\<lambda>c. if ?gone c then [] else c) (category_of s i)" for i
    using e(1) unfolding g .
  have "\<not> belongsToCategory (s_subcategories s') name t" if t: "s_torrents s' i = Some t" for i t
  proof -
    have "category_of s' i = Some (m_category t)" using t by (simp add: category_of_def)
    then obtain c where "(if ?gone c then [] else c) = m_category t"
      unfolding cat by (cases "category_of s i") simp_all
    then have "\<not> ?gone (m_category t)" using assms(2) by (auto split: if_splits)
    then show ?thesis using g e(3) by (simp add: belongs_belongs_name)
  qed
  moreover have "qmap_lookup (s_categories s') c = (if ?gone c then None else qmap_lookup (s_categories s) c)" for c
    unfolding e(5) by (simp add: lookup_filter_fst)
  moreover have "ok = (\<exists>c. ?gone c \<and> qmap_contains (s_categories s) c)"
    unfolding e(6) contains_iff by blast
  ultimately show ?thesis using cat by (simp add: r)
qed

section \<open>Every operation keeps the categories in order\<close>











section \<open>Operations that touch neither categories nor tags\<close>

definition keeps_names :: "'a session_scheme \<Rightarrow> 'a session_scheme \<Rightarrow> bool" where
  "keeps_names s s' \<longleftrightarrow>
     s_categories s' = s_categories s \<and> s_categoriesFile s' = s_categoriesFile s \<and> s_tags s' = s_tags s
     \<and> s_subcategories s' = s_subcategories s \<and> category_of s' = category_of s \<and> tags_of s' = tags_of s"

lemma keeps_names_refl [simp]: "keeps_names s s"
  by (simp add: keeps_names_def)











definition tag_inv :: "'a session_scheme \<Rightarrow> bool" where
  "tag_inv s \<longleftrightarrow>
     (\<forall>tg \<in> s_tags s. tag_isValid tg) \<and> (\<forall>i tgs. tags_of s i = Some tgs \<longrightarrow> tgs \<subseteq> s_tags s)"

lemma tag_invI_same:
  assumes "tag_inv s" and "s_tags s' = s_tags s" and "tags_of s' = tags_of s"
  shows "tag_inv s'"
  using assms by (simp add: tag_inv_def)




section \<open>Tags\<close>


lemma s_tags_put [simp]:
  "s_tags (put_torrent i t s) = s_tags s"
  "move_session.more (put_torrent i t s) = move_session.more s"
  by (cases s; simp add: put_torrent_def)+








section \<open>The move queue under these operations\<close>

text \<open>
  The queue's invariant, in a session none of whose torrents has missing files. What is done to a
  torrent here neither moves it under a new handle nor lets its files go missing.
\<close>

definition no_missing :: "'a move_session_scheme \<Rightarrow> bool" where
  "no_missing s \<longleftrightarrow> (\<forall>i t. s_torrents s i = Some t \<longrightarrow> \<not> m_hasMissingFiles t)"



lemma no_missing_upd [simp]:
  "no_missing (s\<lparr>s_moveQueue := q\<rparr>) = no_missing s"
  "no_missing (s\<lparr>s_outstanding := out\<rparr>) = no_missing s"
  by (simp_all add: no_missing_def)
















section \<open>Any sequence of operations\<close>

















definition plain_session :: session where
  "plain_session =
     \<lparr>s_torrents = [''i'' \<mapsto> sample_torrent\<lparr>m_storageIsMoving := False, m_category := [], m_tags := {}\<rparr>],
      s_moveQueue = [], s_removing = (\<lambda>_. None), s_queueing = True, s_native = [0 \<mapsto> ''i''],
      s_nextHandle = 1, s_outstanding = None, s_categories = [], s_categoriesFile = [], s_tags = {}, s_subcategories = True,
      s_disableAutoTMMWhenCategoryChanged = True, s_disableAutoTMMWhenDefaultSavePathChanged = False,
      s_disableAutoTMMWhenCategorySavePathChanged = True,
      s_savePath = ''/dl'', s_downloadPath = ''/tmp'', s_downloadPathEnabled = False,
      s_useCategoryPathsInManualMode = False, s_autoTMMDisabledByDefault = False\<rparr>"




text \<open>The witness of \<open>removeCategory_complete\<close>.\<close>

theorem removeCategory_complete_witness:
  "let s = plain_session\<lparr>s_categories := [(''a'', no_options), (''a/b'', no_options), (''c'', no_options)]\<rparr>;
       (ok, s') = removeCategory m_nativeStatus (\<lambda>p. p) [''i''] ''a'' s
   in ok \<and> qmap_lookup (s_categories s') ''a/b'' = None \<and> qmap_lookup (s_categories s') ''c'' = Some no_options"
proof -
  let ?s = "plain_session\<lparr>s_categories := [(''a'', no_options), (''a/b'', no_options), (''c'', no_options)]\<rparr>"
  have "covers [''i''] ?s" by (simp add: covers_def plain_session_def)
  moreover have "''a'' \<noteq> ([] :: qstring)" by simp
  ultimately have r: "let (ok, s') = removeCategory m_nativeStatus (\<lambda>p. p) [''i''] ''a'' ?s;
             gone = (\<lambda>c. c = ''a'' \<or> s_subcategories ?s \<and> prefix (''a'' @ [slash]) c)
         in (\<forall>i t. s_torrents s' i = Some t \<longrightarrow> \<not> belongsToCategory (s_subcategories s') ''a'' t)
            \<and> (\<forall>i c. category_of ?s i = Some c \<longrightarrow> category_of s' i = Some (if gone c then [] else c))
            \<and> (\<forall>c. qmap_lookup (s_categories s') c = (if gone c then None else qmap_lookup (s_categories ?s) c))
            \<and> ok = (\<exists>c. gone c \<and> qmap_contains (s_categories ?s) c)"
    by (rule removeCategory_complete)
  obtain ok s' where o: "removeCategory m_nativeStatus (\<lambda>p. p) [''i''] ''a'' ?s = (ok, s')" by fastforce
  have sub: "s_subcategories ?s" by (simp add: plain_session_def)
  have "qmap_contains (s_categories ?s) ''a''" by (simp add: qmap_contains_def)
  then show ?thesis using r sub unfolding o Let_def prod.case by auto
qed

section \<open>Where a category puts its torrents\<close>

lemma replace_forbidden_id:
  "\<forall>c \<in> set xs. \<not> path_forbidden c \<Longrightarrow> replace_forbidden pad b xs = xs"
  by (induction xs arbitrary: b) auto

lemma join_snoc: "cs \<noteq> [] \<Longrightarrow> join sep (cs @ [c]) = join sep cs @ sep @ c"
  using join_append [of cs "[c]" sep] by simp

lemma set_join: "set (join [slash] cs) \<subseteq> insert slash (\<Union>(set ` set cs))"
proof (induction cs)
  case Nil
  show ?case by simp
next
  case (Cons c cs)
  then show ?case by (cases "cs = []") (auto simp: join_Cons)
qed

lemma name_parts:
  assumes "cs \<noteq> []" and "slash \<notin> set c"
  shows "subcategoryName (join [slash] (cs @ [c])) = c"
    and "parentCategoryName (join [slash] (cs @ [c])) = join [slash] cs"
  using assms by (simp_all add: subcategoryName_def parentCategoryName_def join_snoc)

lemma name_single:
  assumes "slash \<notin> set c"
  shows "subcategoryName c = c" and "parentCategoryName c = []"
  using assms by (simp_all add: subcategoryName_def parentCategoryName_def last_index_of_None [THEN iffD2])

text \<open>A category component the file system takes as it is.\<close>

definition plain_category :: "qstring list \<Rightarrow> bool" where
  "plain_category cs \<longleftrightarrow>
     cs \<noteq> [] \<and> list_all plain_item cs \<and> (\<forall>c \<in> set cs. \<forall>x \<in> set c. \<not> path_forbidden x)"

text \<open>What is assumed of \<^verbatim>\<open>QDir::cleanPath\<close>: plain components are left alone, below
  \<open>base\<close> too.\<close>

definition keeps_below :: "(qstring \<Rightarrow> qstring) \<Rightarrow> path \<Rightarrow> bool" where
  "keeps_below qdirClean base \<longleftrightarrow>
     keeps_plain qdirClean
     \<and> (\<forall>ds. ds \<noteq> [] \<longrightarrow> list_all plain_item ds \<longrightarrow>
          qdirClean (base @ slash # join [slash] ds) = base @ slash # join [slash] ds)"

lemma toValidPath_plain:
  assumes "plain_category cs" and "keeps_plain qd"
  shows "toValidPath qd (join [slash] cs) = join [slash] cs"
proof -
  have "\<forall>x \<in> set (join [slash] cs). \<not> path_forbidden x"
    using assms(1) set_join [of cs] by (auto simp: plain_category_def path_forbidden_def)
  moreover have "plain_path (join [slash] cs)"
    using assms(1) by (auto simp: plain_path_def plain_category_def)
  ultimately show ?thesis
    using assms(2) by (simp add: toValidPath_def replace_forbidden_id path_of_string_def cleanPath_def keeps_plain_def)
qed

lemma plain_relative:
  assumes "plain_category cs"
  shows "\<not> path_isAbsolute (join [slash] cs)" and "join [slash] cs \<noteq> []"
proof -
  obtain c ds where cs: "cs = c # ds" "c \<noteq> []" "slash \<notin> set c"
    using assms by (cases cs) (auto simp: plain_category_def plain_item_def)
  then obtain x xs where "c = x # xs" "x \<noteq> slash" by (cases c) auto
  then show "\<not> path_isAbsolute (join [slash] cs)" "join [slash] cs \<noteq> []"
    using cs by (cases ds; auto simp: path_isAbsolute_def)+
qed

text \<open>
  A category whose path is not set anywhere puts its torrents below the session's save path,
  one folder for each component of its name; with and without subcategories it is the same place.
\<close>
theorem implicit_save_path:
  assumes "plain_category cs" and "keeps_below qd (s_savePath s)" and "s_savePath s \<noteq> []"
    and "\<forall>c. co_savePath (categoryOptions s c) = []"
  shows "categorySavePath qd s (join [slash] cs) = s_savePath s @ [slash] @ join [slash] cs"
  using assms(1)
proof (induction cs rule: rev_induct)
  case Nil
  then show ?case by (simp add: plain_category_def)
next
  case (snoc c cs)
  let ?name = "join [slash] (cs @ [c])"
  have keep: "keeps_plain qd" using assms(2) by (simp add: keeps_below_def)
  have pc: "plain_category [c]" and sl: "slash \<notin> set c"
    using snoc.prems by (auto simp: plain_category_def plain_item_def)
  note rel = plain_relative [OF snoc.prems] and vc = toValidPath_plain [OF pc keep]
    and relc = plain_relative [OF pc]
  have below: "path_append qd (s_savePath s) (join [slash] ds) = s_savePath s @ slash # join [slash] ds"
    if "plain_category ds" for ds
    using that assms(2,3) plain_relative(2) [OF that]
    by (simp add: path_append_def path_isEmpty_def path_of_string_def cleanPath_def keeps_below_def
        plain_category_def)
  show ?case
  proof (cases "s_subcategories s \<and> cs \<noteq> []")
    case False
    have "toValidPath qd ?name = ?name" using snoc.prems keep by (rule toValidPath_plain)
    then show ?thesis
      using False rel relc vc below [OF snoc.prems] below [OF pc] assms(4) name_single [OF sl]
      by (auto simp: categorySavePath_def categorySavePath_with.simps [of qd s "?name"]
          categorySavePath_with.simps [of qd s "[]"] path_isEmpty_def Let_def)
  next
    case True
    have pcs: "plain_category cs" using snoc.prems True by (simp add: plain_category_def)
    have ih: "categorySavePath_with qd s (join [slash] cs) (categoryOptions s (join [slash] cs))
        = s_savePath s @ slash # join [slash] cs"
      using snoc.IH [OF pcs] by (simp add: categorySavePath_def)
    have e: "(s_savePath s @ slash # join [slash] cs) @ [slash] @ c = s_savePath s @ slash # ?name"
      using True by (simp add: join_snoc)
    have "qd (s_savePath s @ slash # ?name) = s_savePath s @ slash # ?name"
      using snoc.prems assms(2) by (simp add: keeps_below_def plain_category_def)
    then have ap: "path_append qd (s_savePath s @ slash # join [slash] cs) c = s_savePath s @ slash # ?name"
      using relc(2) by (simp only: path_append_def path_isEmpty_def path_of_string_def cleanPath_def e)
        simp
    show ?thesis
      using True rel relc vc ap ih assms(4) name_parts [OF _ sl, of cs]
      by (simp add: categorySavePath_def categorySavePath_with.simps [of qd s "?name"] path_isEmpty_def Let_def)
  qed
qed

theorem implicit_save_path_witness:
  "categorySavePath (\<lambda>p. p) plain_session ''a/b'' = ''/dl/a/b''"
proof -
  have "plain_category [''a'', ''b'']"
    by (simp add: plain_category_def plain_item_def path_forbidden_def)
  moreover have "keeps_below (\<lambda>p. p) (s_savePath plain_session)"
    by (simp add: keeps_below_def keeps_plain_def)
  moreover have "s_savePath plain_session \<noteq> []" by (simp add: plain_session_def)
  moreover have "\<forall>c. co_savePath (categoryOptions plain_session c) = []"
    by (simp add: categoryOptions_def plain_session_def qmap_value_def no_options_def)
  ultimately have "categorySavePath (\<lambda>p. p) plain_session (join [slash] [''a'', ''b''])
      = s_savePath plain_session @ [slash] @ join [slash] [''a'', ''b'']"
    by (rule implicit_save_path)
  then show ?thesis by (simp add: plain_session_def)
qed

end
