(* ===== verification/Web_Sync.thy ===== *)
theory Web_Sync
  imports Qt_Containers
begin

text \<open>
  How the Web UI is kept up to date: \<^verbatim>\<open>src/src/webui/api/synccontroller.cpp\<close>. The
  differences of two structures (\<^verbatim>\<open>processMap\<close>, \<^verbatim>\<open>processHash\<close>,
  \<^verbatim>\<open>processList\<close>), the exchange they serve (\<^verbatim>\<open>generateSyncData\<close>, used for
  peers), and the buffered exchange of the main data (\<^verbatim>\<open>maindataAction\<close>,
  \<^verbatim>\<open>generateMaindataSyncData\<close> and the session's signals). A \<^verbatim>\<open>QVariantHash\<close>
  and a \<^verbatim>\<open>QSet\<close> are kept sorted here, which only fixes the order they are walked in.
\<close>

section \<open>Variants\<close>

datatype variant =
    VInvalid
  | VStr qstring
  | VInt int
  | VBool bool
  | VMap "(qstring \<times> variant) list"
  | VHash "(qstring \<times> variant) list"
  | VList "variant list"
  | VStrList "qstring list"

type_synonym vmap = "(qstring, variant) qmap"

fun to_map :: "variant \<Rightarrow> vmap" where
  "to_map (VMap m) = m" | "to_map _ = []"

fun to_hash :: "variant \<Rightarrow> vmap" where
  "to_hash (VHash m) = m" | "to_hash _ = []"

fun to_list :: "variant \<Rightarrow> variant list" where
  "to_list (VList xs) = xs" | "to_list (VStrList xs) = map VStr xs" | "to_list _ = []"

fun to_int :: "variant \<Rightarrow> int" where
  "to_int (VInt n) = n" | "to_int _ = 0"

definition at :: "vmap \<Rightarrow> qstring \<Rightarrow> variant" where
  "at m k = qmap_value m k VInvalid"

definition removed_key :: "qstring \<Rightarrow> qstring" where
  "removed_key key = key @ ''_removed''"

section \<open>Differences\<close>

fun list_loop :: "'a list \<Rightarrow> 'a list \<Rightarrow> 'a list \<Rightarrow> 'a list \<times> 'a list" where
  "list_loop prev [] sync = (sync, prev)"
| "list_loop prev (item # rest) sync =
     (if item \<notin> set prev then list_loop prev rest (sync @ [item])
      else list_loop (remove1 item prev) rest sync)"

definition processList :: "'a list \<Rightarrow> 'a list \<Rightarrow> 'a list \<times> 'a list" where
  "processList prevData data =
     (if prevData = [] then (data, []) else list_loop prevData data [])"

lemma size_entry:
  "(k, v) \<in> set m \<Longrightarrow> size v < size_list (size_prod (\<lambda>_. 0) size) m" for m :: vmap
  by (induction m) auto

function processMap :: "vmap \<Rightarrow> vmap \<Rightarrow> vmap"
  and processHash :: "vmap \<Rightarrow> vmap \<Rightarrow> vmap \<times> qstring list" where
  "processMap prevData data =
     fold (\<lambda>(key, value) syncData.
        case value of
          VMap m \<Rightarrow>
            (let d = processMap (to_map (at prevData key)) m
             in if d \<noteq> [] then qmap_insert key (VMap d) syncData else syncData)
        | VHash m \<Rightarrow>
            (let (d, removedItems) = processHash (to_hash (at prevData key)) m;
                 s1 = (if d \<noteq> [] then qmap_insert key (VMap d) syncData else syncData)
             in if removedItems \<noteq> [] then qmap_insert (removed_key key) (VList (map VStr removedItems)) s1
                else s1)
        | VList xs \<Rightarrow>
            (let (d, removedItems) = processList (to_list (at prevData key)) xs;
                 s1 = (if d \<noteq> [] then qmap_insert key (VList d) syncData else syncData)
             in if removedItems \<noteq> [] then qmap_insert (removed_key key) (VList removedItems) s1 else s1)
        | VStrList _ \<Rightarrow> syncData
        | _ \<Rightarrow> if at prevData key \<noteq> value then qmap_insert key value syncData else syncData)
       data []"
| "processHash prevData data =
     (if prevData = [] then (fold (\<lambda>(key, value) syncData. qmap_insert key value syncData) data [], [])
      else
        (let (syncData, prev) =
           fold (\<lambda>(key, value) (syncData, prev).
              case value of
                VMap m \<Rightarrow>
                  if \<not> qmap_contains prev key then (qmap_insert key value syncData, prev)
                  else (let d = processMap (to_map (at prev key)) m
                        in (if d \<noteq> [] then qmap_insert key (VMap d) syncData else syncData,
                            qmap_remove key prev))
              | VStrList xs \<Rightarrow>
                  if \<not> qmap_contains prev key then (qmap_insert key value syncData, prev)
                  else (case processList (to_list (at prev key)) (map VStr xs) of
                          (l, removedList) \<Rightarrow>
                            (if l \<noteq> [] \<or> removedList \<noteq> [] then qmap_insert key value syncData else syncData,
                             qmap_remove key prev))
              | _ \<Rightarrow> (syncData, prev))
             data ([], prevData)
         in (syncData, map fst prev)))"
  by pat_completeness auto
termination
  by (relation "measure (\<lambda>x. case x of Inl (_, m) \<Rightarrow> size_list (size_prod (\<lambda>_. 0) size) m
                                      | Inr (_, m) \<Rightarrow> size_list (size_prod (\<lambda>_. 0) size) m)")
    (auto dest!: size_entry)

declare processMap.simps [simp del] processHash.simps [simp del]

section \<open>The exchange against the last accepted answer\<close>

definition key_rid :: qstring where "key_rid = ''rid''"
definition key_full :: qstring where "key_full = ''full_update''"

text \<open>\<^verbatim>\<open>generateSyncData\<close>: the answer, and the two structures it keeps.\<close>

definition generateSyncData :: "int \<Rightarrow> vmap \<Rightarrow> vmap \<Rightarrow> vmap \<Rightarrow> vmap \<times> vmap \<times> vmap" where
  "generateSyncData acceptedResponseId data lastAcceptedData0 lastData0 =
     (let lastResponseId = (if acceptedResponseId > 0 then to_int (at lastData0 key_rid) else 0);
          (lastAcceptedData, fullUpdate) =
            (if lastResponseId > 0 then
               (let acc = (if lastResponseId = acceptedResponseId then lastData0 else lastAcceptedData0)
                in (acc, to_int (at acc key_rid) \<noteq> acceptedResponseId))
             else (lastAcceptedData0, True));
          (lastAcceptedData, syncData) =
            (if fullUpdate then ([], qmap_insert key_full (VBool True) data)
             else (lastAcceptedData, processMap lastAcceptedData data));
          responseId = lastResponseId mod 1000000 + 1;
          lastData = qmap_insert key_rid (VInt responseId) data
      in (qmap_insert key_rid (VInt responseId) syncData, lastAcceptedData, lastData))"

section \<open>The main data\<close>

record sync_buf =
  sb_categories :: "(qstring, vmap) qmap"
  sb_tags :: "qstring list"
  sb_torrents :: "(qstring, vmap) qmap"
  sb_trackers :: "(qstring, qstring list) qmap"
  sb_serverState :: vmap
  sb_removedCategories :: "qstring list"
  sb_removedTags :: "qstring list"
  sb_removedTorrents :: "qstring list"
  sb_removedTrackers :: "qstring list"

definition empty_buf :: sync_buf where
  "empty_buf =
     \<lparr>sb_categories = [], sb_tags = [], sb_torrents = [], sb_trackers = [], sb_serverState = [],
      sb_removedCategories = [], sb_removedTags = [], sb_removedTorrents = [], sb_removedTrackers = []\<rparr>"

text \<open>
  What the controller reads of the session: the serialized torrents and categories, the tags, the
  trackers of each torrent and the server state.
\<close>

record world =
  w_torrents :: "(qstring, vmap) qmap"
  w_categories :: "(qstring, vmap) qmap"
  w_tags :: "qstring list"
  w_trackers :: "(qstring, qstring list) qmap"
  w_serverState :: vmap

record sync_controller =
  c_updatedCategories :: "qstring list"
  c_removedCategories :: "qstring list"
  c_addedTags :: "qstring list"
  c_removedTags :: "qstring list"
  c_updatedTorrents :: "qstring list"
  c_removedTorrents :: "qstring list"
  c_updatedTrackers :: "qstring list"
  c_removedTrackers :: "qstring list"
  c_knownTrackers :: "(qstring, qstring list) qmap"
  c_snapshot :: sync_buf
  c_syncBuf :: sync_buf
  c_lastSentID :: int
  c_acceptedID :: int

text \<open>A \<^verbatim>\<open>QSet\<close> of strings as a sorted list.\<close>

definition set_add :: "qstring \<Rightarrow> qstring list \<Rightarrow> qstring list" where
  "set_add x xs = insort_insert x xs"

definition set_del :: "qstring \<Rightarrow> qstring list \<Rightarrow> qstring list" where
  "set_del x xs = filter (\<lambda>y. y \<noteq> x) xs"

subsection \<open>Signals\<close>

definition onCategoryAdded :: "qstring \<Rightarrow> sync_controller \<Rightarrow> sync_controller" where
  "onCategoryAdded c s =
     s\<lparr>c_removedCategories := set_del c (c_removedCategories s),
       c_updatedCategories := set_add c (c_updatedCategories s)\<rparr>"

definition onCategoryRemoved :: "qstring \<Rightarrow> sync_controller \<Rightarrow> sync_controller" where
  "onCategoryRemoved c s =
     s\<lparr>c_updatedCategories := set_del c (c_updatedCategories s),
       c_removedCategories := set_add c (c_removedCategories s)\<rparr>"

definition onCategoryOptionsChanged :: "qstring \<Rightarrow> sync_controller \<Rightarrow> sync_controller" where
  "onCategoryOptionsChanged c s = s\<lparr>c_updatedCategories := set_add c (c_updatedCategories s)\<rparr>"

definition onSubcategoriesSupportChanged :: "qstring list \<Rightarrow> sync_controller \<Rightarrow> sync_controller" where
  "onSubcategoriesSupportChanged categoriesList s =
     fold (\<lambda>c s. if \<not> qmap_contains (sb_categories (c_snapshot s)) c then onCategoryAdded c s else s)
       categoriesList s"

definition onTagAdded :: "qstring \<Rightarrow> sync_controller \<Rightarrow> sync_controller" where
  "onTagAdded tg s =
     s\<lparr>c_removedTags := set_del tg (c_removedTags s), c_addedTags := set_add tg (c_addedTags s)\<rparr>"

definition onTagRemoved :: "qstring \<Rightarrow> sync_controller \<Rightarrow> sync_controller" where
  "onTagRemoved tg s =
     s\<lparr>c_addedTags := set_del tg (c_addedTags s), c_removedTags := set_add tg (c_removedTags s)\<rparr>"

definition known_add :: "qstring \<Rightarrow> qstring \<Rightarrow> (qstring, qstring list) qmap \<Rightarrow> (qstring, qstring list) qmap" where
  "known_add url torrentID m = qmap_insert url (set_add torrentID (qmap_value m url [])) m"

definition onTorrentAdded :: "qstring \<Rightarrow> qstring list \<Rightarrow> sync_controller \<Rightarrow> sync_controller" where
  "onTorrentAdded torrentID urls s =
     fold (\<lambda>url s. s\<lparr>c_knownTrackers := known_add url torrentID (c_knownTrackers s),
                    c_updatedTrackers := set_add url (c_updatedTrackers s),
                    c_removedTrackers := set_del url (c_removedTrackers s)\<rparr>) urls
       (s\<lparr>c_removedTorrents := set_del torrentID (c_removedTorrents s),
          c_updatedTorrents := set_add torrentID (c_updatedTorrents s)\<rparr>)"

definition onTorrentAboutToBeRemoved :: "qstring \<Rightarrow> qstring list \<Rightarrow> sync_controller \<Rightarrow> sync_controller" where
  "onTorrentAboutToBeRemoved torrentID urls s =
     fold (\<lambda>url s. case qmap_lookup (c_knownTrackers s) url of
              None \<Rightarrow> s
            | Some ids \<Rightarrow>
                (let ids' = set_del torrentID ids
                 in if ids' = []
                    then s\<lparr>c_knownTrackers := qmap_remove url (c_knownTrackers s),
                           c_updatedTrackers := set_del url (c_updatedTrackers s),
                           c_removedTrackers := set_add url (c_removedTrackers s)\<rparr>
                    else s\<lparr>c_knownTrackers := qmap_insert url ids' (c_knownTrackers s),
                           c_updatedTrackers := set_add url (c_updatedTrackers s)\<rparr>)) urls
       (s\<lparr>c_updatedTorrents := set_del torrentID (c_updatedTorrents s),
          c_removedTorrents := set_add torrentID (c_removedTorrents s)\<rparr>)"

text \<open>Every signal that reports a changed torrent does this.\<close>

definition onTorrentUpdated :: "qstring \<Rightarrow> sync_controller \<Rightarrow> sync_controller" where
  "onTorrentUpdated torrentID s = s\<lparr>c_updatedTorrents := set_add torrentID (c_updatedTorrents s)\<rparr>"

definition onTorrentsUpdated :: "qstring list \<Rightarrow> sync_controller \<Rightarrow> sync_controller" where
  "onTorrentsUpdated torrents s = fold onTorrentUpdated torrents s"

definition onTorrentTrackersChanged :: "qstring \<Rightarrow> qstring list \<Rightarrow> sync_controller \<Rightarrow> sync_controller" where
  "onTorrentTrackersChanged torrentID currentTrackers s =
     (let s1 = fold (\<lambda>(known, ids) s.
             if torrentID \<in> set ids \<and> known \<notin> set currentTrackers then
               (let ids' = set_del torrentID ids
                in if ids' = []
                   then s\<lparr>c_updatedTrackers := set_del known (c_updatedTrackers s),
                          c_removedTrackers := set_add known (c_removedTrackers s),
                          c_knownTrackers := qmap_remove known (c_knownTrackers s)\<rparr>
                   else s\<lparr>c_updatedTrackers := set_add known (c_updatedTrackers s),
                          c_knownTrackers := qmap_insert known ids' (c_knownTrackers s)\<rparr>)
             else if known \<in> set currentTrackers \<and> torrentID \<notin> set ids then
               s\<lparr>c_updatedTrackers := set_add known (c_updatedTrackers s),
                 c_knownTrackers := qmap_insert known (set_add torrentID ids) (c_knownTrackers s)\<rparr>
             else s) (c_knownTrackers s) s
      in fold (\<lambda>url s. if \<not> qmap_contains (c_knownTrackers s) url
                     then s\<lparr>c_knownTrackers := qmap_insert url [torrentID] (c_knownTrackers s),
                            c_updatedTrackers := set_add url (c_updatedTrackers s),
                            c_removedTrackers := set_del url (c_removedTrackers s)\<rparr>
                     else s) currentTrackers s1)"

subsection \<open>The snapshot and the answers\<close>

definition makeMaindataSnapshot :: "world \<Rightarrow> sync_controller \<Rightarrow> sync_controller" where
  "makeMaindataSnapshot w s =
     (let known = fold (\<lambda>(torrentID, urls) m. fold (\<lambda>url. known_add url torrentID) urls m) (w_trackers w) []
      in s\<lparr>c_knownTrackers := known, c_acceptedID := 0,
           c_snapshot := empty_buf\<lparr>sb_torrents := w_torrents w, sb_categories := w_categories w,
                                  sb_tags := w_tags w, sb_trackers := known,
                                  sb_serverState := w_serverState w\<rparr>\<rparr>)"

text \<open>One keyed collection: the buffered changes, the list of removed keys, the snapshot.\<close>

type_synonym collection = "(qstring, vmap) qmap"

definition forget_stale :: "qstring list \<Rightarrow> qstring list \<Rightarrow> (qstring, 'v) qmap \<times> qstring list \<Rightarrow> (qstring, 'v) qmap \<times> qstring list" where
  "forget_stale updated removed buf =
     (fold qmap_remove removed (fst buf), fold remove1 updated (snd buf))"

definition update_item :: "collection \<Rightarrow> qstring \<Rightarrow> collection \<times> collection \<Rightarrow> collection \<times> collection" where
  "update_item current k st =
     (case st of
        (buf, snapshot) \<Rightarrow>
          (let data = qmap_value current k [];
               (old, snapshot1) = qmap_subscript k [] snapshot;
               d = processMap old data
           in if d \<noteq> [] then (qmap_insert k d buf, qmap_insert k data snapshot1) else (buf, snapshot1)))"

definition sync_collection ::
  "collection \<Rightarrow> qstring list \<Rightarrow> qstring list \<Rightarrow> collection \<Rightarrow> qstring list \<Rightarrow> collection
     \<Rightarrow> collection \<times> qstring list \<times> collection" where
  "sync_collection current updated removed buf removedBuf snapshot =
     (case forget_stale updated removed (buf, removedBuf) of
        (buf1, removedBuf1) \<Rightarrow>
          (case fold (update_item current) updated (buf1, snapshot) of
             (buf2, snapshot2) \<Rightarrow>
               (buf2, removedBuf1 @ removed, fold qmap_remove removed snapshot2)))"

record answer =
  a_rid :: int
  a_full :: bool
  a_buf :: sync_buf

definition generateMaindataSyncData :: "world \<Rightarrow> int \<Rightarrow> bool \<Rightarrow> sync_controller \<Rightarrow> answer \<times> sync_controller" where
  "generateMaindataSyncData w i fullUpdate s =
     (let buf = c_syncBuf s; snap = c_snapshot s;
          (cats, rcats, scats) = sync_collection (w_categories w) (c_updatedCategories s)
             (c_removedCategories s) (sb_categories buf) (sb_removedCategories buf) (sb_categories snap);
          (tors, rtors, stors) = sync_collection (w_torrents w) (c_updatedTorrents s)
             (c_removedTorrents s) (sb_torrents buf) (sb_removedTorrents buf) (sb_torrents snap);
          tags = fold remove1 (c_removedTags s) (sb_tags buf) @ c_addedTags s;
          rtags = fold remove1 (c_addedTags s) (sb_removedTags buf) @ c_removedTags s;
          stags = fold remove1 (c_removedTags s) (sb_tags snap @ c_addedTags s);
          (trks1, rtrks) = forget_stale (c_updatedTrackers s) (c_removedTrackers s)
             (sb_trackers buf, sb_removedTrackers buf);
          known = fold (\<lambda>t m. snd (qmap_subscript t [] m)) (c_updatedTrackers s) (c_knownTrackers s);
          trks = fold (\<lambda>t. qmap_insert t (qmap_value known t [])) (c_updatedTrackers s) trks1;
          strks = fold qmap_remove (c_removedTrackers s)
             (fold (\<lambda>t. qmap_insert t (qmap_value known t [])) (c_updatedTrackers s) (sb_trackers snap));
          d = processMap (sb_serverState snap) (w_serverState w);
          snap1 = \<lparr>sb_categories = scats, sb_tags = stags, sb_torrents = stors, sb_trackers = strks,
                   sb_serverState = (if d \<noteq> [] then w_serverState w else sb_serverState snap),
                   sb_removedCategories = sb_removedCategories snap, sb_removedTags = sb_removedTags snap,
                   sb_removedTorrents = sb_removedTorrents snap,
                   sb_removedTrackers = sb_removedTrackers snap\<rparr>;
          buf1 = \<lparr>sb_categories = cats, sb_tags = tags, sb_torrents = tors, sb_trackers = trks,
                  sb_serverState = (if d \<noteq> [] then d else sb_serverState buf),
                  sb_removedCategories = rcats, sb_removedTags = rtags, sb_removedTorrents = rtors,
                  sb_removedTrackers = rtrks @ c_removedTrackers s\<rparr>;
          buf2 = (if fullUpdate then snap1 else buf1)
      in (\<lparr>a_rid = i, a_full = fullUpdate, a_buf = buf2\<rparr>,
          s\<lparr>c_updatedCategories := [], c_removedCategories := [], c_addedTags := [], c_removedTags := [],
            c_updatedTorrents := [], c_removedTorrents := [], c_updatedTrackers := [], c_removedTrackers := [],
            c_knownTrackers := known, c_snapshot := snap1, c_syncBuf := buf2\<rparr>))"

definition maindataAction :: "world \<Rightarrow> int \<Rightarrow> sync_controller \<Rightarrow> answer \<times> sync_controller" where
  "maindataAction w acceptedID s0 =
     (let s1 = (if c_acceptedID s0 < 0 then makeMaindataSnapshot w s0 else s0);
          s2 = (if acceptedID > 0 \<and> c_lastSentID s1 > 0 \<and> c_lastSentID s1 = acceptedID
                then s1\<lparr>c_acceptedID := acceptedID, c_syncBuf := empty_buf\<rparr> else s1);
          fullUpdate = (\<not> (acceptedID > 0 \<and> c_lastSentID s1 > 0 \<and> c_acceptedID s2 = acceptedID));
          i = c_lastSentID s2 mod 1000000 + 1;
          (a, s3) = generateMaindataSyncData w i fullUpdate s2
      in (a, s3\<lparr>c_lastSentID := i\<rparr>))"

definition new_controller :: sync_controller where
  "new_controller =
     \<lparr>c_updatedCategories = [], c_removedCategories = [], c_addedTags = [], c_removedTags = [],
      c_updatedTorrents = [], c_removedTorrents = [], c_updatedTrackers = [], c_removedTrackers = [],
      c_knownTrackers = [], c_snapshot = empty_buf, c_syncBuf = empty_buf, c_lastSentID = 0, c_acceptedID = -1\<rparr>"

section \<open>The client\<close>

text \<open>
  What a client does with an answer, as the comment of \<^verbatim>\<open>maindataAction\<close> describes the
  protocol: fields replace fields, removed keys are dropped, a full update starts from nothing.
\<close>

definition merge :: "vmap \<Rightarrow> vmap \<Rightarrow> vmap" where
  "merge old d = fold (\<lambda>(k, v). qmap_insert k v) d old"

definition merge_collection :: "collection \<Rightarrow> collection \<Rightarrow> qstring list \<Rightarrow> collection" where
  "merge_collection old changes removed =
     fold (\<lambda>(k, d) m. qmap_insert k (merge (qmap_value m k []) d) m) changes (fold qmap_remove removed old)"

record client =
  cl_rid :: int
  cl_torrents :: collection
  cl_categories :: collection
  cl_tags :: "qstring list"
  cl_serverState :: vmap

definition new_client :: client where
  "new_client = \<lparr>cl_rid = 0, cl_torrents = [], cl_categories = [], cl_tags = [], cl_serverState = []\<rparr>"

definition client_receive :: "answer \<Rightarrow> client \<Rightarrow> client" where
  "client_receive a c0 =
     (let c = (if a_full a then new_client else c0); b = a_buf a
      in \<lparr>cl_rid = a_rid a,
          cl_torrents = merge_collection (cl_torrents c) (sb_torrents b) (sb_removedTorrents b),
          cl_categories = merge_collection (cl_categories c) (sb_categories b) (sb_removedCategories b),
          cl_tags = fold remove1 (sb_removedTags b) (cl_tags c) @ sb_tags b,
          cl_serverState = merge (cl_serverState c) (sb_serverState b)\<rparr>)"

section \<open>Flat maps\<close>

text \<open>
  A map of scalars, some of them perhaps null (\<^verbatim>\<open>private\<close> is, before a torrent has its
  metadata). A field that is null and a field that is absent read the same; maps that read the
  same have the same fields, and collections of maps are compared item by item.
\<close>

fun scalar :: "variant \<Rightarrow> bool" where
  "scalar (VStr _) = True" | "scalar (VInt _) = True" | "scalar (VBool _) = True"
| "scalar VInvalid = True" | "scalar _ = False"

definition flat :: "vmap \<Rightarrow> bool" where
  "flat m \<longleftrightarrow> qmap_inv m \<and> list_all (\<lambda>(k, v). scalar v) m"

definition same_fields :: "vmap \<Rightarrow> vmap \<Rightarrow> bool" where
  "same_fields d d' \<longleftrightarrow> (\<forall>k. at d k = at d' k)"

definition same_items :: "collection \<Rightarrow> collection \<Rightarrow> bool" where
  "same_items m m' \<longleftrightarrow> (\<forall>k. rel_option same_fields (qmap_lookup m k) (qmap_lookup m' k))"

text \<open>What is serialized has some field that is set.\<close>

definition item :: "vmap \<Rightarrow> bool" where
  "item d \<longleftrightarrow> flat d \<and> list_ex (\<lambda>(k, v). v \<noteq> VInvalid) d"

definition fields_kept :: "vmap \<Rightarrow> vmap \<Rightarrow> bool" where
  "fields_kept old d \<longleftrightarrow> (\<forall>k. at old k \<noteq> VInvalid \<longrightarrow> qmap_contains d k)"

lemma same_fields_refl [simp]: "same_fields d d"
  by (simp add: same_fields_def)

lemma same_fields_sym: "same_fields d d' \<Longrightarrow> same_fields d' d"
  by (simp add: same_fields_def)

lemma same_fields_trans: "same_fields d d' \<Longrightarrow> same_fields d' d'' \<Longrightarrow> same_fields d d''"
  by (simp add: same_fields_def)

lemma fields_kept_refl [simp]: "fields_kept d d"
  by (auto simp: fields_kept_def at_def qmap_value_def qmap_contains_def split: option.splits)

lemma rel_fields_refl [simp]: "rel_option same_fields x x"
  by (cases x) simp_all

lemma rel_fields_trans:
  "rel_option same_fields x y \<Longrightarrow> rel_option same_fields y z \<Longrightarrow> rel_option same_fields x z"
  by (auto simp: option_rel_Some2 elim!: option.rel_cases intro: same_fields_trans)

lemma same_items_refl [simp]: "same_items m m"
  by (simp add: same_items_def)

lemma same_items_trans: "same_items m m' \<Longrightarrow> same_items m' m'' \<Longrightarrow> same_items m m''"
  unfolding same_items_def using rel_fields_trans by blast

lemma same_items_value: "same_items m m' \<Longrightarrow> same_fields (qmap_value m k []) (qmap_value m' k [])"
  unfolding same_items_def by (auto dest!: spec [of _ k] simp: qmap_value_def elim!: option.rel_cases)

lemma fields_kept_same: "same_fields d d' \<Longrightarrow> fields_kept d e = fields_kept d' e"
  by (simp add: fields_kept_def same_fields_def)

lemma processMap_flat:
  assumes "flat data"
  shows "processMap prev data = filter (\<lambda>(k, v). at prev k \<noteq> v) data"
proof -
  let ?f = "\<lambda>(key, value) syncData. if at prev key \<noteq> value then qmap_insert key value syncData else syncData"
  have "fold ?f data acc = acc @ filter (\<lambda>(k, v). at prev k \<noteq> v) data"
    if "qmap_inv data" "\<forall>j \<in> fst ` set acc. \<forall>k \<in> fst ` set data. j < k" for acc data
    using that
  proof (induction data arbitrary: acc)
    case Nil
    then show ?case by simp
  next
    case (Cons kv data)
    obtain k v where kv: "kv = (k, v)" by fastforce
    have "qmap_insert k v acc = acc @ [(k, v)]" using Cons.prems kv by (intro qmap_insert_last) auto
    moreover have "\<forall>j \<in> fst ` set (acc @ [(k, v)]). \<forall>k \<in> fst ` set data. j < k"
      using Cons.prems kv by (auto simp: qmap_inv_Cons)
    moreover have "qmap_inv data" using Cons.prems kv by (simp add: qmap_inv_Cons)
    ultimately show ?case using Cons.IH [of "acc @ [(k, v)]"] Cons.IH [of acc] Cons.prems kv by auto
  qed
  moreover have "processMap prev data = fold ?f data []"
    unfolding processMap.simps [of prev data]
  proof (rule fold_cong [OF refl refl], goal_cases)
    case (1 x)
    obtain k v where x: "x = (k, v)" by fastforce
    have "scalar v" using assms 1 x by (auto simp: flat_def list_all_iff)
    then show ?case by (cases v) (simp_all add: x fun_eq_iff)
  qed
  ultimately show ?thesis using assms by (simp add: flat_def)
qed

lemma lookup_merge: "qmap_inv d \<Longrightarrow> qmap_lookup (merge old d) k
    = (case qmap_lookup d k of Some v \<Rightarrow> Some v | None \<Rightarrow> qmap_lookup old k)"
proof -
  have "qmap_lookup (fold (\<lambda>(k, v). qmap_insert k v) d old) k
      = (case qmap_lookup d k of Some v \<Rightarrow> Some v | None \<Rightarrow> qmap_lookup old k)"
    if "qmap_inv d" for old
    using that
  proof (induction d arbitrary: old)
    case Nil
    then show ?case by simp
  next
    case (Cons kv d)
    obtain a b where kv: "kv = (a, b)" by fastforce
    have a: "qmap_lookup d a = None" using qmap_head_absent [of a b d] Cons.prems kv by simp
    have d: "qmap_inv d" using Cons.prems kv by (simp add: qmap_inv_Cons)
    show ?case using Cons.IH [OF d, of "qmap_insert a b old"] a kv by (simp split: option.split)
  qed
  then show "qmap_inv d \<Longrightarrow> ?thesis" by (simp add: merge_def)
qed

lemma inv_merge: "qmap_inv old \<Longrightarrow> qmap_inv (merge old d)"
proof -
  have "qmap_inv (fold (\<lambda>(k, v). qmap_insert k v) d old)" if "qmap_inv old" for old
    using that by (induction d arbitrary: old) auto
  then show "qmap_inv old \<Longrightarrow> ?thesis" by (simp add: merge_def)
qed

lemma lookup_filter:
  "qmap_inv m \<Longrightarrow> qmap_lookup (filter (\<lambda>(k, v). P k v) m) k
     = (case qmap_lookup m k of Some v \<Rightarrow> if P k v then Some v else None | None \<Rightarrow> None)"
proof (induction m)
  case Nil
  then show ?case by simp
next
  case (Cons kv m)
  then show ?case
    by (cases kv) (auto simp: qmap_inv_Cons qmap_lookup_None dest!: qmap_lookup_dom split: option.splits)
qed

text \<open>
  The fields a difference carries bring a copy of the old map to the new one, as long as no field
  that was set is missing from the new one.
\<close>

lemma at_merge: "qmap_inv d \<Longrightarrow> at (merge old d) k = (case qmap_lookup d k of Some v \<Rightarrow> v | None \<Rightarrow> at old k)"
  by (simp add: at_def qmap_value_def lookup_merge split: option.split)

lemma merge_processMap:
  assumes "flat data" and "fields_kept old data" and "same_fields copy old"
  shows "same_fields (merge copy (processMap old data)) data"
  unfolding same_fields_def
proof
  fix k
  have q: "qmap_inv data" using assms(1) by (simp add: flat_def)
  have c: "at copy k = at old k" using assms(3) by (simp add: same_fields_def)
  show "at (merge copy (processMap old data)) k = at data k"
  proof (cases "qmap_lookup data k")
    case None
    then have "at old k = VInvalid" using assms(2) by (auto simp: fields_kept_def qmap_contains_def)
    then show ?thesis using None q c
      by (simp add: processMap_flat [OF assms(1)] at_merge inv_filter lookup_filter)
        (simp add: at_def qmap_value_def)
  next
    case (Some v)
    then have "at data k = v" by (simp add: at_def qmap_value_def)
    then show ?thesis using Some q c
      by (simp add: processMap_flat [OF assms(1)] at_merge inv_filter lookup_filter)
  qed
qed

lemma processMap_Nil:
  assumes "flat data" and "fields_kept old data" and "processMap old data = []"
  shows "same_fields old data"
  using merge_processMap [OF assms(1,2) same_fields_refl] assms(3) by (simp add: merge_def)

lemma processMap_same: "flat data \<Longrightarrow> same_fields old data \<Longrightarrow> processMap old data = []"
proof -
  assume f: "flat data" and s: "same_fields old data"
  have "at old k = v" if "(k, v) \<in> set data" for k v
    using f s that qmap_lookup_set [of data k v] by (simp add: flat_def same_fields_def at_def qmap_value_def)
  then show ?thesis using processMap_flat [OF f, of old] by (auto simp: filter_empty_conv)
qed

lemma merge_empty: "qmap_inv d \<Longrightarrow> merge [] d = d"
  by (rule qmap_ext) (auto simp: lookup_merge inv_merge split: option.splits)

lemma item_field:
  assumes "item d"
  shows "\<exists>k. at d k \<noteq> VInvalid"
proof -
  obtain k v where kv: "(k, v) \<in> set d" "v \<noteq> VInvalid" and q: "qmap_inv d"
    using assms by (auto simp: item_def flat_def list_ex_iff)
  then have "at d k = v" using qmap_lookup_set [OF q, of k v] by (simp add: at_def qmap_value_def)
  with kv(2) show ?thesis by blast
qed

section \<open>One collection, answered and received\<close>

text \<open>
  What is known between two polls: off the updated and the removed keys the snapshot agrees with
  the session, the updated ones exist and have the fields the snapshot has of them, the removed
  ones do not exist.
\<close>

definition items_ok :: "collection \<Rightarrow> bool" where
  "items_ok m \<longleftrightarrow> qmap_inv m \<and> (\<forall>k d. qmap_lookup m k = Some d \<longrightarrow> item d)"

definition pending :: "collection \<Rightarrow> qstring list \<Rightarrow> qstring list \<Rightarrow> collection \<Rightarrow> bool" where
  "pending current updated removed snapshot \<longleftrightarrow>
     distinct updated
     \<and> (\<forall>k. k \<notin> set updated \<longrightarrow> k \<notin> set removed \<longrightarrow>
          rel_option same_fields (qmap_lookup snapshot k) (qmap_lookup current k))
     \<and> (\<forall>k \<in> set updated. \<exists>d. qmap_lookup current k = Some d \<and> fields_kept (qmap_value snapshot k []) d)
     \<and> (\<forall>k \<in> set removed. qmap_lookup current k = None)"

lemma items_okD: "items_ok c \<Longrightarrow> qmap_lookup c k = Some d \<Longrightarrow> item d"
  by (auto simp: items_ok_def)

lemma update_item_step:
  assumes "items_ok c" and "qmap_inv m" and "qmap_lookup c k = Some data"
    and "fields_kept (qmap_value m k []) data"
  shows "update_item c k (buf, m) =
     (if processMap (qmap_value m k []) data \<noteq> []
      then (qmap_insert k (processMap (qmap_value m k []) data) buf, qmap_insert k data m)
      else (buf, m))"
    and "processMap (qmap_value m k []) data = [] \<Longrightarrow> rel_option same_fields (qmap_lookup m k) (Some data)"
proof -
  have i: "item data" using assms(1,3) by (rule items_okD)
  then have f: "flat data" by (simp add: item_def)
  show nil: "rel_option same_fields (qmap_lookup m k) (Some data)" if "processMap (qmap_value m k []) data = []"
  proof (cases "qmap_lookup m k")
    case None
    then have "same_fields [] data" using processMap_Nil [OF f assms(4) that] by (simp add: qmap_value_def)
    moreover obtain j where "at data j \<noteq> VInvalid" using item_field [OF i] by blast
    ultimately show ?thesis by (auto simp: same_fields_def at_def qmap_value_def)
  next
    case (Some old)
    then show ?thesis using processMap_Nil [OF f assms(4) that] by (simp add: qmap_value_def)
  qed
  have twice: "qmap_insert k data (qmap_insert k [] m) = qmap_insert k data m"
    using assms(2) by (intro qmap.insert_overwrite)
  show "update_item c k (buf, m) =
     (if processMap (qmap_value m k []) data \<noteq> []
      then (qmap_insert k (processMap (qmap_value m k []) data) buf, qmap_insert k data m)
      else (buf, m))"
    using assms(3) nil twice
    by (auto simp: update_item_def qmap_subscript_def qmap_value_def split: option.splits)
qed

lemma update_all:
  assumes "items_ok c" and "qmap_inv m" and "distinct ks"
    and "\<forall>k \<in> set ks. \<exists>d. qmap_lookup c k = Some d \<and> fields_kept (qmap_value m k []) d" and "qmap_inv buf"
    and "\<forall>k \<in> set ks. qmap_lookup buf k = None"
  shows "let (buf', m') = fold (update_item c) ks (buf, m)
     in qmap_inv m' \<and> qmap_inv buf'
        \<and> (\<forall>k. rel_option same_fields (qmap_lookup m' k) (if k \<in> set ks then qmap_lookup c k else qmap_lookup m k))
        \<and> (\<forall>k. qmap_lookup buf' k =
             (if k \<in> set ks \<and> processMap (qmap_value m k []) (qmap_value c k []) \<noteq> []
              then Some (processMap (qmap_value m k []) (qmap_value c k [])) else qmap_lookup buf k))"
  using assms
proof (induction ks arbitrary: buf m)
  case Nil
  then show ?case by simp
next
  case (Cons k ks)
  obtain data where data: "qmap_lookup c k = Some data" and kept: "fields_kept (qmap_value m k []) data"
    using Cons.prems(4) by auto
  have v: "qmap_value c k [] = data" using data by (simp add: qmap_value_def)
  let ?d = "processMap (qmap_value m k []) data"
  let ?buf = "if ?d \<noteq> [] then qmap_insert k ?d buf else buf"
  let ?m = "if ?d \<noteq> [] then qmap_insert k data m else m"
  note st = update_item_step [OF Cons.prems(1,2) data kept]
  have k: "k \<notin> set ks" using Cons.prems(3) by simp
  have lm: "rel_option same_fields (qmap_lookup ?m j) (if j = k then Some data else qmap_lookup m j)" for j
    using st(2) by simp
  have val: "qmap_value ?m j [] = qmap_value m j []" if "j \<noteq> k" for j
    using that by (simp add: qmap_value_def)
  have "\<forall>j \<in> set ks. \<exists>d. qmap_lookup c j = Some d \<and> fields_kept (qmap_value ?m j []) d"
  proof
    fix j assume j: "j \<in> set ks"
    then have "j \<noteq> k" using k by blast
    then show "\<exists>d. qmap_lookup c j = Some d \<and> fields_kept (qmap_value ?m j []) d"
      using Cons.prems(4) j val by simp
  qed
  then have ih: "let (buf', m') = fold (update_item c) ks (?buf, ?m)
     in qmap_inv m' \<and> qmap_inv buf'
        \<and> (\<forall>j. rel_option same_fields (qmap_lookup m' j) (if j \<in> set ks then qmap_lookup c j else qmap_lookup ?m j))
        \<and> (\<forall>j. qmap_lookup buf' j =
             (if j \<in> set ks \<and> processMap (qmap_value ?m j []) (qmap_value c j []) \<noteq> []
              then Some (processMap (qmap_value ?m j []) (qmap_value c j [])) else qmap_lookup ?buf j))"
    using Cons.prems by (intro Cons.IH) auto
  have e: "fold (update_item c) (k # ks) (buf, m) = fold (update_item c) ks (?buf, ?m)"
    by (simp add: st(1))
  obtain buf' m' where r: "fold (update_item c) ks (?buf, ?m) = (buf', m')" by fastforce
  have "qmap_lookup buf' j =
             (if j \<in> set (k # ks) \<and> processMap (qmap_value m j []) (qmap_value c j []) \<noteq> []
              then Some (processMap (qmap_value m j []) (qmap_value c j [])) else qmap_lookup buf j)" for j
    using ih k v val [of j] unfolding r by (cases "j = k") simp_all
  moreover have "rel_option same_fields (qmap_lookup m' j)
      (if j \<in> set (k # ks) then qmap_lookup c j else qmap_lookup m j)" for j
  proof -
    have "rel_option same_fields (qmap_lookup m' j) (if j \<in> set ks then qmap_lookup c j else qmap_lookup ?m j)"
      using ih unfolding r by simp
    then show ?thesis
      using rel_fields_trans [OF _ lm [of j]] k data by (cases "j \<in> set ks") auto
  qed
  ultimately show ?case using ih unfolding e r by simp
qed

lemma lookup_fold_remove:
  "qmap_lookup (fold qmap_remove ks m) k = (if k \<in> set ks then None else qmap_lookup m k)"
  by (induction ks arbitrary: m) auto

lemma inv_fold_remove: "qmap_inv m \<Longrightarrow> qmap_inv (fold qmap_remove ks m)"
  by (induction ks arbitrary: m) auto

lemma lookup_merge_collection:
  assumes "qmap_inv changes"
  shows "qmap_lookup (merge_collection old changes removed) k =
     (case qmap_lookup changes k of
        Some d \<Rightarrow> Some (merge (if k \<in> set removed then [] else qmap_value old k []) d)
      | None \<Rightarrow> if k \<in> set removed then None else qmap_lookup old k)"
proof -
  have "qmap_lookup (fold (\<lambda>(k, d) m. qmap_insert k (merge (qmap_value m k []) d) m) changes m) k
      = (case qmap_lookup changes k of Some d \<Rightarrow> Some (merge (qmap_value m k []) d) | None \<Rightarrow> qmap_lookup m k)" for m
    using assms
  proof (induction changes arbitrary: m)
    case Nil
    then show ?case by simp
  next
    case (Cons kv changes)
    obtain a b where kv: "kv = (a, b)" by fastforce
    have a: "qmap_lookup changes a = None" using qmap_head_absent [of a b changes] Cons.prems kv by simp
    have d: "qmap_inv changes" using Cons.prems kv by (simp add: qmap_inv_Cons)
    show ?case
      using Cons.IH [OF d, of "qmap_insert a (merge (qmap_value m a []) b) m"] a kv
      by (auto simp: qmap_value_def split: option.split)
  qed
  then show ?thesis
    by (auto simp: merge_collection_def lookup_fold_remove qmap_value_def split: option.splits)
qed

lemma inv_merge_collection: "qmap_inv old \<Longrightarrow> qmap_inv (merge_collection old changes removed)"
proof -
  have "qmap_inv (fold (\<lambda>(k, d) m. qmap_insert k (merge (qmap_value m k []) d) m) changes m)" if "qmap_inv m" for m
    using that by (induction changes arbitrary: m) auto
  then show "qmap_inv old \<Longrightarrow> ?thesis" by (simp add: merge_collection_def inv_fold_remove)
qed

text \<open>
  An answer computed from an empty buffer brings the snapshot, and a copy of it at the client, to the
  session.
\<close>

lemma sync_collection_correct:
  assumes p: "pending c updated removed m" and c: "items_ok c" and m: "qmap_inv m" and cl: "same_items cl m"
    and r: "sync_collection c updated removed [] [] m = (buf, rem, m')"
  shows "qmap_inv m'" and "same_items m' c" and "same_items (merge_collection cl buf rem) c"
proof -
  obtain buf' m1 where u: "fold (update_item c) updated ([], m) = (buf', m1)" by fastforce
  have fn: "fold qmap_remove removed [] = ([] :: collection)" "fold remove1 updated [] = []"
    by (induction removed) (simp_all add: qmap_remove_def, induction updated, simp_all)
  have e: "buf = buf'" "rem = removed" "m' = fold qmap_remove removed m1"
    using r by (auto simp: sync_collection_def forget_stale_def fn u)
  have x: "qmap_inv m1" "qmap_inv buf'"
    "\<And>k. rel_option same_fields (qmap_lookup m1 k) (if k \<in> set updated then qmap_lookup c k else qmap_lookup m k)"
    "\<And>k. qmap_lookup buf' k = (if k \<in> set updated \<and> processMap (qmap_value m k []) (qmap_value c k []) \<noteq> []
        then Some (processMap (qmap_value m k []) (qmap_value c k [])) else None)"
    using update_all [OF c m, of updated "[]"] p unfolding u by (auto simp: pending_def)
  show "qmap_inv m'" using x(1) by (simp add: e inv_fold_remove)
  have off: "rel_option same_fields (qmap_lookup m k) (qmap_lookup c k)" if "k \<notin> set updated" "k \<notin> set removed" for k
    using p that by (simp add: pending_def)
  have gone: "qmap_lookup c k = None" if "k \<in> set removed" for k using p that by (simp add: pending_def)
  show "same_items m' c"
    unfolding same_items_def
  proof
    fix k
    show "rel_option same_fields (qmap_lookup m' k) (qmap_lookup c k)"
    proof (cases "k \<in> set removed \<or> k \<in> set updated")
      case True
      then show ?thesis using x(3) [of k] gone [of k] by (auto simp: e lookup_fold_remove)
    next
      case False
      then have "rel_option same_fields (qmap_lookup m' k) (qmap_lookup m k)"
        using x(3) [of k] by (simp add: e lookup_fold_remove)
      then show ?thesis using off [of k] False rel_fields_trans by blast
    qed
  qed
  show "same_items (merge_collection cl buf rem) c"
    unfolding same_items_def
  proof
    fix k
    have clk: "rel_option same_fields (qmap_lookup cl k) (qmap_lookup m k)" using cl by (simp add: same_items_def)
    show "rel_option same_fields (qmap_lookup (merge_collection cl buf rem) k) (qmap_lookup c k)"
    proof (cases "k \<in> set updated")
      case True
      then obtain data where data: "qmap_lookup c k = Some data" "fields_kept (qmap_value m k []) data"
        using p by (auto simp: pending_def)
      have nr: "k \<notin> set removed" using gone data(1) by auto
      have f: "flat data" using items_okD [OF c data(1)] by (simp add: item_def)
      have v: "qmap_value c k [] = data" using data by (simp add: qmap_value_def)
      show ?thesis
      proof (cases "processMap (qmap_value m k []) data = []")
        case nil: True
        have "rel_option same_fields (qmap_lookup m k) (Some data)"
          using nil by (rule update_item_step(2) [OF c m data])
        then have "rel_option same_fields (qmap_lookup cl k) (qmap_lookup c k)"
          using rel_fields_trans [OF clk] data(1) by simp
        then show ?thesis using nil nr by (simp add: e lookup_merge_collection [OF x(2)] x(4) v)
      next
        case False
        then show ?thesis
          using True data(1) nr merge_processMap [OF f data(2) same_items_value [OF cl]]
          by (simp add: e lookup_merge_collection [OF x(2)] x(4) v)
      qed
    next
      case False
      then have b: "qmap_lookup buf k = None" by (simp add: e x(4))
      show ?thesis
      proof (cases "k \<in> set removed")
        case True
        then show ?thesis using gone b by (simp add: e lookup_merge_collection [OF x(2)])
      next
        case nr: False
        then have "qmap_lookup (merge_collection cl buf rem) k = qmap_lookup cl k"
          using b by (simp add: e lookup_merge_collection [OF x(2)])
        then show ?thesis using rel_fields_trans [OF clk off [OF False nr]] by simp
      qed
    qed
  qed
qed

section \<open>A client that polls\<close>

text \<open>
  The session changes, with the signal it sends; the client polls with the identifier of the last
  answer it received, and receives the answer or does not.
\<close>

datatype sync_event =
    TorrentAdded qstring vmap
  | TorrentChanged qstring vmap
  | TorrentRemoved qstring
  | CategoryAdded qstring vmap
  | CategoryChanged qstring vmap
  | CategoryRemoved qstring
  | ServerState vmap
  | Poll bool

type_synonym sync_state = "world \<times> sync_controller \<times> client"

fun sync_step :: "sync_event \<Rightarrow> sync_state \<Rightarrow> sync_state" where
  "sync_step (TorrentAdded k d) (w, s, c) =
     (if qmap_contains (w_torrents w) k then (w, s, c)
      else (w\<lparr>w_torrents := qmap_insert k d (w_torrents w)\<rparr>, onTorrentAdded k [] s, c))"
| "sync_step (TorrentChanged k d) (w, s, c) =
     (if qmap_contains (w_torrents w) k
      then (w\<lparr>w_torrents := qmap_insert k d (w_torrents w)\<rparr>, onTorrentUpdated k s, c) else (w, s, c))"
| "sync_step (TorrentRemoved k) (w, s, c) =
     (if qmap_contains (w_torrents w) k
      then (w\<lparr>w_torrents := qmap_remove k (w_torrents w)\<rparr>, onTorrentAboutToBeRemoved k [] s, c) else (w, s, c))"
| "sync_step (CategoryAdded k d) (w, s, c) =
     (if qmap_contains (w_categories w) k then (w, s, c)
      else (w\<lparr>w_categories := qmap_insert k d (w_categories w)\<rparr>, onCategoryAdded k s, c))"
| "sync_step (CategoryChanged k d) (w, s, c) =
     (if qmap_contains (w_categories w) k
      then (w\<lparr>w_categories := qmap_insert k d (w_categories w)\<rparr>, onCategoryOptionsChanged k s, c) else (w, s, c))"
| "sync_step (CategoryRemoved k) (w, s, c) =
     (if qmap_contains (w_categories w) k
      then (w\<lparr>w_categories := qmap_remove k (w_categories w)\<rparr>, onCategoryRemoved k s, c) else (w, s, c))"
| "sync_step (ServerState d) (w, s, c) = (w\<lparr>w_serverState := d\<rparr>, s, c)"
| "sync_step (Poll received) (w, s, c) =
     (case maindataAction w (cl_rid c) s of
        (a, s') \<Rightarrow> (w, s', if received then client_receive a c else c))"

definition sync_run :: "sync_event list \<Rightarrow> sync_state \<Rightarrow> sync_state" where
  "sync_run evs st = fold sync_step evs st"

text \<open>
  What is serialized of a torrent or a category may differ from one time to the next in its values
  and in which fields are null; a field the client has been told of is still there
  (\<open>keeps_fields\<close>). The server state is flat.
\<close>

definition keeps_fields :: "vmap \<Rightarrow> vmap \<Rightarrow> bool" where
  "keeps_fields old d \<longleftrightarrow> list_all (\<lambda>(k, v). v = VInvalid \<or> qmap_contains d k) old"

lemma keeps_fields_kept: "keeps_fields old d \<Longrightarrow> fields_kept old d"
  by (auto simp: keeps_fields_def fields_kept_def list_all_iff at_def qmap_value_def
      dest!: qmap_lookup_dom split: option.splits)

fun event_ok :: "sync_event \<Rightarrow> sync_state \<Rightarrow> bool" where
  "event_ok (TorrentAdded k d) (w, s, c) = (item d \<and> keeps_fields (qmap_value (cl_torrents c) k []) d)"
| "event_ok (TorrentChanged k d) (w, s, c) = (item d \<and> keeps_fields (qmap_value (cl_torrents c) k []) d)"
| "event_ok (CategoryAdded k d) (w, s, c) = (item d \<and> keeps_fields (qmap_value (cl_categories c) k []) d)"
| "event_ok (CategoryChanged k d) (w, s, c) = (item d \<and> keeps_fields (qmap_value (cl_categories c) k []) d)"
| "event_ok (ServerState d) (w, s, c) = (flat d \<and> keeps_fields (cl_serverState c) d)"
| "event_ok _ _ = True"

fun run_ok :: "sync_event list \<Rightarrow> sync_state \<Rightarrow> bool" where
  "run_ok [] st = True"
| "run_ok (ev # evs) st = (event_ok ev st \<and> run_ok evs (sync_step ev st))"

text \<open>
  The number of answers lost in a row stays below the number of identifiers, and nothing changes
  until the next answer is received.
\<close>

definition max_id :: int where "max_id = 1000000"

fun calm :: "int \<Rightarrow> sync_event list \<Rightarrow> bool" where
  "calm lost [] = True"
| "calm lost (Poll received # evs) =
     (if received then calm 0 evs else lost + 1 < max_id \<and> calm (lost + 1) evs)"
| "calm lost (ev # evs) = (lost = 0 \<and> calm 0 evs)"

text \<open>Between two polls: before the first one, and once snapshot and client agree.\<close>

definition world_ok :: "world \<Rightarrow> bool" where
  "world_ok w \<longleftrightarrow> items_ok (w_torrents w) \<and> items_ok (w_categories w) \<and> flat (w_serverState w)"

definition sync_inv :: "sync_state \<Rightarrow> bool" where
  "sync_inv st \<longleftrightarrow>
     (case st of
        (w, s, c) \<Rightarrow>
          world_ok w
          \<and> (let snap = c_snapshot s in
             cl_rid c = c_lastSentID s \<and> c_acceptedID s \<ge> 0 \<and> c_lastSentID s > 0 \<and> c_lastSentID s \<le> max_id
             \<and> pending (w_torrents w) (c_updatedTorrents s) (c_removedTorrents s) (sb_torrents snap)
             \<and> pending (w_categories w) (c_updatedCategories s) (c_removedCategories s) (sb_categories snap)
             \<and> qmap_inv (sb_torrents snap) \<and> qmap_inv (sb_categories snap)
             \<and> fields_kept (sb_serverState snap) (w_serverState w)
             \<and> sb_removedTorrents snap = [] \<and> sb_removedCategories snap = []
             \<and> same_items (cl_torrents c) (sb_torrents snap) \<and> same_items (cl_categories c) (sb_categories snap)
             \<and> same_fields (cl_serverState c) (sb_serverState snap)))"

lemma set_add_simps [simp]: "set (set_add x xs) = insert x (set xs)"
  by (simp add: set_add_def set_insort_insert)

lemma distinct_set_add: "distinct xs \<Longrightarrow> distinct (set_add x xs)"
  by (simp add: set_add_def distinct_insort_insert)

lemma set_del_simps [simp]: "set (set_del x xs) = set xs - {x}" "distinct xs \<Longrightarrow> distinct (set_del x xs)"
  by (auto simp: set_del_def)

lemma pending_put:
  assumes "pending c u r m" and "fields_kept (qmap_value m k []) d"
  shows "pending (qmap_insert k d c) (set_add k u) (set_del k r) m"
    and "qmap_contains c k \<Longrightarrow> pending (qmap_insert k d c) (set_add k u) r m"
  using assms by (auto simp: pending_def distinct_set_add qmap_contains_def)

lemma pending_remove:
  "pending c u r m \<Longrightarrow> pending (qmap_remove k c) (set_del k u) (set_add k r) m"
  by (auto simp: pending_def)

lemma items_put:
  assumes "items_ok m"
  shows "item d \<Longrightarrow> items_ok (qmap_insert k d m)" and "items_ok (qmap_remove k m)"
  using assms by (auto simp: items_ok_def)

lemma pending_done: "same_items m c \<Longrightarrow> pending c [] [] m"
  by (simp add: pending_def same_items_def)

lemma told_fields:
  "same_items cl m \<Longrightarrow> keeps_fields (qmap_value cl k []) d \<Longrightarrow> fields_kept (qmap_value m k []) d"
  using fields_kept_same [OF same_items_value] keeps_fields_kept by blast

lemma sync_inv_change:
  assumes "sync_inv st" and "event_ok ev st" and "\<forall>b. ev \<noteq> Poll b"
  shows "sync_inv (sync_step ev st)"
proof -
  obtain w s c where st: "st = (w, s, c)" by (cases st)
  have inv: "sync_inv (w, s, c)" and ok: "event_ok ev (w, s, c)" using assms(1,2) by (simp_all add: st)
  note told = told_fields [of "cl_torrents c" "sb_torrents (c_snapshot s)"]
    told_fields [of "cl_categories c" "sb_categories (c_snapshot s)"]
    keeps_fields_kept [of "cl_serverState c", THEN fields_kept_same [THEN iffD1, rotated]]
  note defs = sync_inv_def world_ok_def Let_def onTorrentAdded_def onTorrentUpdated_def
    onTorrentAboutToBeRemoved_def onCategoryAdded_def onCategoryRemoved_def onCategoryOptionsChanged_def
  show ?thesis
    using inv ok assms(3) unfolding st
    by (cases ev) (auto simp: defs pending_put pending_remove items_put told)
qed

text \<open>A poll that is answered and received, in a session whose buffer starts empty.\<close>

lemma merge_collection_full:
  assumes "items_ok m"
  shows "merge_collection [] m [] = m"
proof (rule qmap_ext)
  have q: "qmap_inv m" using assms by (simp add: items_ok_def)
  show "qmap_inv (merge_collection [] m [])" "qmap_inv m" using q by (simp_all add: inv_merge_collection)
  show "qmap_lookup (merge_collection [] m []) k = qmap_lookup m k" for k
  proof (cases "qmap_lookup m k")
    case None
    then show ?thesis by (simp add: lookup_merge_collection [OF q])
  next
    case (Some d)
    then have "qmap_inv d" using assms by (auto simp: items_ok_def item_def flat_def)
    then show ?thesis using Some by (simp add: lookup_merge_collection [OF q] qmap_value_def merge_empty)
  qed
qed

lemma generate_correct:
  assumes w: "world_ok w"
    and pt: "pending (w_torrents w) (c_updatedTorrents s) (c_removedTorrents s) (sb_torrents (c_snapshot s))"
    and pc: "pending (w_categories w) (c_updatedCategories s) (c_removedCategories s) (sb_categories (c_snapshot s))"
    and ok: "qmap_inv (sb_torrents (c_snapshot s))" "qmap_inv (sb_categories (c_snapshot s))"
      "fields_kept (sb_serverState (c_snapshot s)) (w_serverState w)"
    and cl: "same_items ct (sb_torrents (c_snapshot s))" "same_items cc (sb_categories (c_snapshot s))"
      "same_fields cs (sb_serverState (c_snapshot s))"
    and norem: "sb_removedTorrents (c_snapshot s) = []" "sb_removedCategories (c_snapshot s) = []"
    and buf: "c_syncBuf s = empty_buf"
    and r: "generateMaindataSyncData w i False s = (a, s')"
  shows "same_items (sb_torrents (c_snapshot s')) (w_torrents w)
      \<and> same_items (sb_categories (c_snapshot s')) (w_categories w)
      \<and> same_fields (sb_serverState (c_snapshot s')) (w_serverState w)
      \<and> qmap_inv (sb_torrents (c_snapshot s')) \<and> qmap_inv (sb_categories (c_snapshot s'))
      \<and> sb_removedTorrents (c_snapshot s') = [] \<and> sb_removedCategories (c_snapshot s') = []"
    and "c_updatedTorrents s' = [] \<and> c_removedTorrents s' = [] \<and> c_updatedCategories s' = []
      \<and> c_removedCategories s' = [] \<and> c_acceptedID s' = c_acceptedID s"
    and "same_items (merge_collection ct (sb_torrents (a_buf a)) (sb_removedTorrents (a_buf a))) (w_torrents w)
      \<and> same_items (merge_collection cc (sb_categories (a_buf a)) (sb_removedCategories (a_buf a))) (w_categories w)
      \<and> same_fields (merge cs (sb_serverState (a_buf a))) (w_serverState w)"
    and "a_rid a = i \<and> \<not> a_full a" and "c_syncBuf s' = a_buf a"
proof -
  have wt: "items_ok (w_torrents w)" and wc: "items_ok (w_categories w)"
    and ws: "flat (w_serverState w)" using w by (simp_all add: world_ok_def)
  obtain bt rt mt where t: "sync_collection (w_torrents w) (c_updatedTorrents s) (c_removedTorrents s) [] []
      (sb_torrents (c_snapshot s)) = (bt, rt, mt)" using prod_cases3 by blast
  obtain bc rc mc where c: "sync_collection (w_categories w) (c_updatedCategories s) (c_removedCategories s) [] []
      (sb_categories (c_snapshot s)) = (bc, rc, mc)" using prod_cases3 by blast
  note tt = sync_collection_correct [OF pt wt ok(1) cl(1) t] and cc = sync_collection_correct [OF pc wc ok(2) cl(2) c]
  note m = merge_processMap [OF ws ok(3) cl(3)] processMap_Nil [OF ws ok(3)]
  have mn: "same_fields (merge cs []) (w_serverState w)"
    if "processMap (sb_serverState (c_snapshot s)) (w_serverState w) = []" using m(1) that by simp
  have eb: "sb_torrents empty_buf = []" "sb_removedTorrents empty_buf = []" "sb_categories empty_buf = []"
    "sb_removedCategories empty_buf = []" "sb_serverState empty_buf = []" by (simp_all add: empty_buf_def)
  note g = r [unfolded generateMaindataSyncData_def Let_def buf eb t c prod.case, simplified split_beta]
  show "same_items (sb_torrents (c_snapshot s')) (w_torrents w)
      \<and> same_items (sb_categories (c_snapshot s')) (w_categories w)
      \<and> same_fields (sb_serverState (c_snapshot s')) (w_serverState w)
      \<and> qmap_inv (sb_torrents (c_snapshot s')) \<and> qmap_inv (sb_categories (c_snapshot s'))
      \<and> sb_removedTorrents (c_snapshot s') = [] \<and> sb_removedCategories (c_snapshot s') = []"
    using g tt(1,2) cc(1,2) m(2) norem by auto
  show "c_updatedTorrents s' = [] \<and> c_removedTorrents s' = [] \<and> c_updatedCategories s' = []
      \<and> c_removedCategories s' = [] \<and> c_acceptedID s' = c_acceptedID s"
    using g by auto
  show "same_items (merge_collection ct (sb_torrents (a_buf a)) (sb_removedTorrents (a_buf a))) (w_torrents w)
      \<and> same_items (merge_collection cc (sb_categories (a_buf a)) (sb_removedCategories (a_buf a))) (w_categories w)
      \<and> same_fields (merge cs (sb_serverState (a_buf a))) (w_serverState w)"
    using g tt(3) cc(3) m(1) mn by auto
  show "a_rid a = i \<and> \<not> a_full a" "c_syncBuf s' = a_buf a" using g by auto
qed

lemma sync_collection_idle: "sync_collection cur [] [] buf rem snap = (buf, rem, snap)"
  by (simp add: sync_collection_def forget_stale_def)

lemma poll_full:
  assumes w: "world_ok w" and s: "s = makeMaindataSnapshot w new_controller"
    and r: "generateMaindataSyncData w i True s = (a, s')" and i: "i > 0" "i \<le> max_id"
  shows "sync_inv (w, s'\<lparr>c_lastSentID := i\<rparr>, client_receive a c)"
proof -
  have wt: "items_ok (w_torrents w)" and wc: "items_ok (w_categories w)"
    and ws: "flat (w_serverState w)" using w by (simp_all add: world_ok_def)
  have snap: "sb_torrents (c_snapshot s) = w_torrents w" "sb_categories (c_snapshot s) = w_categories w"
    "sb_serverState (c_snapshot s) = w_serverState w" "sb_removedTorrents (c_snapshot s) = []"
    "sb_removedCategories (c_snapshot s) = []" "c_syncBuf s = empty_buf" "c_acceptedID s = 0"
    "c_updatedTorrents s = []" "c_removedTorrents s = []" "c_updatedCategories s = []" "c_removedCategories s = []"
    by (simp_all add: s makeMaindataSnapshot_def new_controller_def empty_buf_def Let_def)
  have p: "processMap (w_serverState w) (w_serverState w) = []" using processMap_same [OF ws] by simp
  note g = r [unfolded generateMaindataSyncData_def Let_def snap sync_collection_idle prod.case p, simplified split_beta]
  have e: "sb_torrents (c_snapshot s') = w_torrents w" "sb_categories (c_snapshot s') = w_categories w"
      "sb_serverState (c_snapshot s') = w_serverState w"
      "sb_removedTorrents (c_snapshot s') = []" "sb_removedCategories (c_snapshot s') = []"
    and k: "c_updatedTorrents s' = []" "c_removedTorrents s' = []" "c_updatedCategories s' = []"
      "c_removedCategories s' = []" "c_acceptedID s' = 0"
    and a: "a_buf a = c_snapshot s'" "a_full a" "a_rid a = i"
    using g snap(7) by auto
  have fw: "merge [] (w_serverState w) = w_serverState w" using ws merge_empty by (simp add: flat_def)
  show ?thesis
    using w i wt wc fw merge_collection_full [OF wt] merge_collection_full [OF wc]
    by (simp add: sync_inv_def Let_def client_receive_def new_client_def pending_done e k a items_ok_def)
qed

text \<open>
  After lost answers and no change: the snapshot agrees with the session, and the buffer holds what brings the
  client there.
\<close>

definition waiting :: "int \<Rightarrow> sync_state \<Rightarrow> bool" where
  "waiting lost st \<longleftrightarrow>
     (case st of
        (w, s, c) \<Rightarrow>
          world_ok w \<and> 0 < lost \<and> lost < max_id \<and> 0 < cl_rid c \<and> cl_rid c \<le> max_id
          \<and> c_acceptedID s = cl_rid c \<and> c_lastSentID s = (cl_rid c - 1 + lost) mod max_id + 1
          \<and> (let snap = c_snapshot s; buf = c_syncBuf s in
             c_updatedTorrents s = [] \<and> c_removedTorrents s = [] \<and> c_updatedCategories s = []
             \<and> c_removedCategories s = []
             \<and> same_items (sb_torrents snap) (w_torrents w) \<and> same_items (sb_categories snap) (w_categories w)
             \<and> qmap_inv (sb_torrents snap) \<and> qmap_inv (sb_categories snap)
             \<and> same_fields (sb_serverState snap) (w_serverState w)
             \<and> sb_removedTorrents snap = [] \<and> sb_removedCategories snap = []
             \<and> same_items (merge_collection (cl_torrents c) (sb_torrents buf) (sb_removedTorrents buf)) (w_torrents w)
             \<and> same_items (merge_collection (cl_categories c) (sb_categories buf) (sb_removedCategories buf)) (w_categories w)
             \<and> same_fields (merge (cl_serverState c) (sb_serverState buf)) (w_serverState w)))"

definition agrees :: "sync_state \<Rightarrow> bool" where
  "agrees st \<longleftrightarrow>
     (case st of
        (w, s, c) \<Rightarrow>
          same_items (cl_torrents c) (w_torrents w) \<and> same_items (cl_categories c) (w_categories w)
          \<and> same_fields (cl_serverState c) (w_serverState w))"

lemma next_id: "0 < i mod 1000000 + (1 :: int)" "i mod 1000000 + 1 \<le> max_id"
  using pos_mod_bound [of 1000000 i] pos_mod_sign [of 1000000 i] by (simp_all add: max_id_def)

text \<open>Once the snapshot agrees with the session, so does whatever agrees with the session.\<close>

lemma same_items_sym:
  assumes "same_items m m'"
  shows "same_items m' m"
  unfolding same_items_def
proof
  fix k
  have "rel_option same_fields (qmap_lookup m k) (qmap_lookup m' k)" using assms by (simp add: same_items_def)
  then show "rel_option same_fields (qmap_lookup m' k) (qmap_lookup m k)"
    by cases (auto intro: same_fields_sym)
qed

lemma agrees_sync_inv:
  assumes "world_ok w" and "agrees (w, s, c)" and "cl_rid c = c_lastSentID s" "0 \<le> c_acceptedID s"
      "0 < c_lastSentID s" "c_lastSentID s \<le> max_id"
    and "c_updatedTorrents s = []" "c_removedTorrents s = []" "c_updatedCategories s = []" "c_removedCategories s = []"
    and "same_items (sb_torrents (c_snapshot s)) (w_torrents w)" "same_items (sb_categories (c_snapshot s)) (w_categories w)"
      "same_fields (sb_serverState (c_snapshot s)) (w_serverState w)"
      "qmap_inv (sb_torrents (c_snapshot s))" "qmap_inv (sb_categories (c_snapshot s))"
      "sb_removedTorrents (c_snapshot s) = []" "sb_removedCategories (c_snapshot s) = []"
  shows "sync_inv (w, s, c)"
proof -
  have "fields_kept (sb_serverState (c_snapshot s)) (w_serverState w)"
    using fields_kept_same [OF assms(13)] by simp
  moreover have "same_items (cl_torrents c) (sb_torrents (c_snapshot s))"
    "same_items (cl_categories c) (sb_categories (c_snapshot s))"
    "same_fields (cl_serverState c) (sb_serverState (c_snapshot s))"
    using assms(2) same_items_trans [OF _ same_items_sym [OF assms(11)]]
      same_items_trans [OF _ same_items_sym [OF assms(12)]] same_fields_trans [OF _ same_fields_sym [OF assms(13)]]
    by (simp_all add: agrees_def)
  ultimately show ?thesis
    using assms by (simp add: sync_inv_def Let_def pending_done)
qed

lemma poll_again:
  assumes inv: "sync_inv (w, s, c)"
    and r: "maindataAction w (cl_rid c) s = (a, s')"
  shows "sync_inv (w, s', client_receive a c)" and "agrees (w, s', client_receive a c)"
    and "waiting 1 (w, s', c)"
proof -
  let ?s2 = "s\<lparr>c_acceptedID := cl_rid c, c_syncBuf := empty_buf\<rparr>"
  let ?i = "c_lastSentID s mod 1000000 + 1"
  have x: "world_ok w" "cl_rid c = c_lastSentID s" "c_acceptedID s \<ge> 0" "c_lastSentID s > 0"
    "pending (w_torrents w) (c_updatedTorrents s) (c_removedTorrents s) (sb_torrents (c_snapshot s))"
    "pending (w_categories w) (c_updatedCategories s) (c_removedCategories s) (sb_categories (c_snapshot s))"
    "qmap_inv (sb_torrents (c_snapshot s))" "qmap_inv (sb_categories (c_snapshot s))"
    "fields_kept (sb_serverState (c_snapshot s)) (w_serverState w)"
    "same_items (cl_torrents c) (sb_torrents (c_snapshot s))" "same_items (cl_categories c) (sb_categories (c_snapshot s))"
    "same_fields (cl_serverState c) (sb_serverState (c_snapshot s))"
    "sb_removedTorrents (c_snapshot s) = []" "sb_removedCategories (c_snapshot s) = []"
    "c_lastSentID s \<le> max_id"
    using inv by (auto simp: sync_inv_def Let_def)
  obtain a0 s3 where g0: "generateMaindataSyncData w ?i False ?s2 = (a0, s3)" by fastforce
  have e: "a = a0" "s' = s3\<lparr>c_lastSentID := ?i\<rparr>"
    using r g0 x(2,3,4) by (auto simp: maindataAction_def Let_def)
  let ?snap = "c_snapshot s"
  have y: "c_updatedTorrents ?s2 = c_updatedTorrents s" "c_removedTorrents ?s2 = c_removedTorrents s"
    "c_updatedCategories ?s2 = c_updatedCategories s" "c_removedCategories ?s2 = c_removedCategories s"
    "c_snapshot ?s2 = ?snap" "c_syncBuf ?s2 = empty_buf" "c_acceptedID ?s2 = cl_rid c" by simp_all
  note h = generate_correct [where s = ?s2, unfolded y, OF x(1,5-14) refl g0]
  have c: "cl_rid (client_receive a c) = ?i" "agrees (w, s', client_receive a c)"
    using h(3,4) by (simp_all add: client_receive_def Let_def e agrees_def)
  then show "agrees (w, s', client_receive a c)" by simp
  show "sync_inv (w, s', client_receive a c)"
    using h(1,2) next_id x(1,2,4) c by (intro agrees_sync_inv) (simp_all add: e)
  show "waiting 1 (w, s', c)"
    using h x(1,2,4,15) by (simp add: waiting_def Let_def e max_id_def)
qed

lemma generate_idle:
  assumes w: "world_ok w"
    and k: "c_updatedTorrents s = []" "c_removedTorrents s = []" "c_updatedCategories s = []" "c_removedCategories s = []"
    and ss: "same_fields (sb_serverState (c_snapshot s)) (w_serverState w)"
    and r: "generateMaindataSyncData w i False s = (a, s')"
  shows "sb_torrents (a_buf a) = sb_torrents (c_syncBuf s)" "sb_removedTorrents (a_buf a) = sb_removedTorrents (c_syncBuf s)"
    "sb_categories (a_buf a) = sb_categories (c_syncBuf s)"
    "sb_removedCategories (a_buf a) = sb_removedCategories (c_syncBuf s)"
    "sb_serverState (a_buf a) = sb_serverState (c_syncBuf s)" "a_rid a = i" "\<not> a_full a"
    and "c_updatedTorrents s' = []" "c_removedTorrents s' = []" "c_updatedCategories s' = []" "c_removedCategories s' = []"
      "c_acceptedID s' = c_acceptedID s" "c_syncBuf s' = a_buf a"
    and "sb_torrents (c_snapshot s') = sb_torrents (c_snapshot s)"
      "sb_categories (c_snapshot s') = sb_categories (c_snapshot s)" "sb_serverState (c_snapshot s') = sb_serverState (c_snapshot s)"
      "sb_removedTorrents (c_snapshot s') = sb_removedTorrents (c_snapshot s)"
      "sb_removedCategories (c_snapshot s') = sb_removedCategories (c_snapshot s)"
proof -
  have p: "processMap (sb_serverState (c_snapshot s)) (w_serverState w) = []"
    using w ss by (intro processMap_same) (simp_all add: world_ok_def)
  have e: "a = fst (generateMaindataSyncData w i False s)" "s' = snd (generateMaindataSyncData w i False s)"
    using r by simp_all
  show "sb_torrents (a_buf a) = sb_torrents (c_syncBuf s)" "sb_removedTorrents (a_buf a) = sb_removedTorrents (c_syncBuf s)"
    "sb_categories (a_buf a) = sb_categories (c_syncBuf s)"
    "sb_removedCategories (a_buf a) = sb_removedCategories (c_syncBuf s)"
    "sb_serverState (a_buf a) = sb_serverState (c_syncBuf s)" "a_rid a = i" "\<not> a_full a"
    "c_updatedTorrents s' = []" "c_removedTorrents s' = []" "c_updatedCategories s' = []" "c_removedCategories s' = []"
    "c_acceptedID s' = c_acceptedID s" "c_syncBuf s' = a_buf a"
    "sb_torrents (c_snapshot s') = sb_torrents (c_snapshot s)"
    "sb_categories (c_snapshot s') = sb_categories (c_snapshot s)" "sb_serverState (c_snapshot s') = sb_serverState (c_snapshot s)"
    "sb_removedTorrents (c_snapshot s') = sb_removedTorrents (c_snapshot s)"
    "sb_removedCategories (c_snapshot s') = sb_removedCategories (c_snapshot s)"
    by (simp_all add: e generateMaindataSyncData_def Let_def k p sync_collection_idle split_beta)
qed

lemma other_id:
  assumes "0 < lost" "lost < max_id" "0 < r" "r \<le> max_id"
  shows "(r - 1 + lost) mod max_id + 1 \<noteq> r"
    and "((r - 1 + lost) mod max_id + 1) mod 1000000 + 1 = (r - 1 + (lost + 1)) mod max_id + 1"
proof -
  have "(r - 1 + lost) mod max_id = (if r - 1 + lost < max_id then r - 1 + lost else r - 1 + lost - max_id)"
    using assms mod_pos_pos_trivial [of "r - 1 + lost - max_id" max_id] mod_pos_pos_trivial [of "r - 1 + lost" max_id]
      minus_mod_self2 [of "r - 1 + lost" max_id] by (cases "r - 1 + lost < max_id") simp_all
  then show "(r - 1 + lost) mod max_id + 1 \<noteq> r" using assms(1,2) by auto
  show "((r - 1 + lost) mod max_id + 1) mod 1000000 + 1 = (r - 1 + (lost + 1)) mod max_id + 1"
    unfolding max_id_def by (simp add: mod_simps add.commute)
qed

lemma poll_waiting:
  assumes wt: "waiting lost (w, s, c)" and r: "maindataAction w (cl_rid c) s = (a, s')"
  shows "sync_inv (w, s', client_receive a c)" and "agrees (w, s', client_receive a c)"
    and "lost + 1 < max_id \<Longrightarrow> waiting (lost + 1) (w, s', c)"
proof -
  let ?i = "c_lastSentID s mod 1000000 + 1"
  have x: "world_ok w" "0 < lost" "lost < max_id" "0 < cl_rid c" "cl_rid c \<le> max_id" "c_acceptedID s = cl_rid c"
      "c_lastSentID s = (cl_rid c - 1 + lost) mod max_id + 1"
    and k: "c_updatedTorrents s = []" "c_removedTorrents s = []" "c_updatedCategories s = []" "c_removedCategories s = []"
    and ss: "same_items (sb_torrents (c_snapshot s)) (w_torrents w)"
      "same_items (sb_categories (c_snapshot s)) (w_categories w)"
      "same_fields (sb_serverState (c_snapshot s)) (w_serverState w)" "sb_removedTorrents (c_snapshot s) = []"
      "sb_removedCategories (c_snapshot s) = []" "qmap_inv (sb_torrents (c_snapshot s))"
      "qmap_inv (sb_categories (c_snapshot s))"
    and d: "same_items (merge_collection (cl_torrents c) (sb_torrents (c_syncBuf s)) (sb_removedTorrents (c_syncBuf s))) (w_torrents w)"
      "same_items (merge_collection (cl_categories c) (sb_categories (c_syncBuf s)) (sb_removedCategories (c_syncBuf s))) (w_categories w)"
      "same_fields (merge (cl_serverState c) (sb_serverState (c_syncBuf s))) (w_serverState w)"
    using wt unfolding waiting_def Let_def prod.case by blast+
  note o = other_id [OF x(2-5)]
  have ne: "c_lastSentID s \<noteq> cl_rid c" "0 < c_lastSentID s"
    using o(1) x(7) by (simp_all add: max_id_def pos_mod_sign add.commute add_strict_increasing2)
  obtain a0 s3 where g0: "generateMaindataSyncData w ?i False s = (a0, s3)" by fastforce
  have e: "a = a0" "s' = s3\<lparr>c_lastSentID := ?i\<rparr>"
    using r g0 x(4,6) ne by (auto simp: maindataAction_def Let_def)
  note h = generate_idle [OF x(1) k ss(3) g0]
  have c: "cl_rid (client_receive a c) = ?i" "agrees (w, s', client_receive a c)"
    using d by (simp_all add: client_receive_def Let_def e h agrees_def)
  then show "agrees (w, s', client_receive a c)" by simp
  show "sync_inv (w, s', client_receive a c)"
    using c next_id x(1,4,6) ss by (intro agrees_sync_inv) (simp_all add: e h)
  show "waiting (lost + 1) (w, s', c)" if "lost + 1 < max_id"
    using x(1-6) that d ss o(2) by (simp add: waiting_def Let_def e h x(7))
qed

lemma poll_first:
  assumes w: "world_ok w"
  shows "sync_inv (sync_step (Poll True) (w, new_controller, new_client))"
proof -
  let ?s = "makeMaindataSnapshot w new_controller"
  obtain a s' where r: "generateMaindataSyncData w 1 True ?s = (a, s')" by fastforce
  have "c_acceptedID new_controller < 0" "c_lastSentID ?s = 0" "cl_rid new_client = 0"
    by (simp_all add: new_controller_def makeMaindataSnapshot_def Let_def new_client_def)
  then have "maindataAction w (cl_rid new_client) new_controller = (a, s'\<lparr>c_lastSentID := 1\<rparr>)"
    using r by (simp add: maindataAction_def)
  then show ?thesis using poll_full [OF w refl r, of new_client] by (simp add: max_id_def)
qed

definition sync_ok :: "int \<Rightarrow> sync_state \<Rightarrow> bool" where
  "sync_ok lost st \<longleftrightarrow> (if lost = 0 then sync_inv st else waiting lost st)"

lemma sync_ok_poll:
  assumes "sync_ok lost st" and "0 \<le> lost"
  shows "sync_ok 0 (sync_step (Poll True) st)" and "agrees (sync_step (Poll True) st)"
    and "lost + 1 < max_id \<Longrightarrow> sync_ok (lost + 1) (sync_step (Poll False) st)"
proof -
  obtain w s c where st: "st = (w, s, c)" by (cases st)
  obtain a s' where r: "maindataAction w (cl_rid c) s = (a, s')" by fastforce
  have "sync_inv (w, s', client_receive a c) \<and> agrees (w, s', client_receive a c)
      \<and> (lost + 1 < max_id \<longrightarrow> waiting (lost + 1) (w, s', c))"
    using assms(1) poll_again [OF _ r] poll_waiting [OF _ r] unfolding st sync_ok_def by (cases "lost = 0") auto
  then show "sync_ok 0 (sync_step (Poll True) st)" "agrees (sync_step (Poll True) st)"
    "lost + 1 < max_id \<Longrightarrow> sync_ok (lost + 1) (sync_step (Poll False) st)"
    using assms(2) by (simp_all add: st r sync_ok_def)
qed

lemma sync_ok_run:
  assumes "sync_ok lost st" and "0 \<le> lost" and "run_ok evs st" and "calm lost evs"
  shows "\<exists>lost' \<ge> 0. sync_ok lost' (sync_run evs st)"
  using assms
proof (induction evs arbitrary: lost st)
  case Nil
  then show ?case by (auto simp: sync_run_def)
next
  case (Cons ev evs)
  have e: "sync_run (ev # evs) st = sync_run evs (sync_step ev st)" by (simp add: sync_run_def)
  show ?case
  proof (cases "\<exists>b. ev = Poll b")
    case True
    then obtain b where b: "ev = Poll b" by auto
    show ?thesis
      using Cons.IH [of 0 "sync_step ev st"] Cons.IH [of "lost + 1" "sync_step ev st"]
        sync_ok_poll [OF Cons.prems(1,2)] Cons.prems(2-4) unfolding e unfolding b
      by (cases b) (auto simp del: sync_step.simps)
  next
    case False
    then have "lost = 0" "calm 0 evs" using Cons.prems(4) by (cases ev; simp)+
    then show ?thesis
      using Cons.IH [of 0 "sync_step ev st"] sync_inv_change [of st ev] Cons.prems(1,3) False
      unfolding e by (simp add: sync_ok_def)
  qed
qed

text \<open>
  C7. Torrents and categories are added, changed and removed and the server state changes; polls are
  answered or their answers lost. The values are scalars or null, every item has a field that is set, a
  changed value still has every field the client has been told of, nothing changes between a lost answer
  and the repeated poll, and fewer than a million answers are lost in a row. Then a client holds, after
  any poll it gets the answer of, what the session holds, a null field being the same as none: the
  answers carry only differences, and applying them never drifts from the session. (Of a category whose
  download path is unset the client does keep a field too many: \<open>unset_path_stays\<close>.)
\<close>

theorem client_agrees_after_poll:
  assumes "world_ok w0" and "run_ok evs (sync_step (Poll True) (w0, new_controller, new_client))" and "calm 0 evs"
  shows "case sync_run (Poll True # evs @ [Poll True]) (w0, new_controller, new_client) of
           (w, s, c) \<Rightarrow>
             same_items (cl_torrents c) (w_torrents w) \<and> same_items (cl_categories c) (w_categories w)
             \<and> same_fields (cl_serverState c) (w_serverState w)"
proof -
  let ?st = "sync_run evs (sync_step (Poll True) (w0, new_controller, new_client))"
  have "sync_ok 0 (sync_step (Poll True) (w0, new_controller, new_client))"
    using poll_first [OF assms(1)] by (simp add: sync_ok_def)
  then obtain lost where "0 \<le> lost" "sync_ok lost ?st" using sync_ok_run assms(2,3) by blast
  then have "agrees (sync_step (Poll True) ?st)" using sync_ok_poll(2) by blast
  then show ?thesis by (simp add: sync_run_def agrees_def del: sync_step.simps)
qed

definition torrent_ex :: "int \<Rightarrow> qstring \<Rightarrow> vmap" where
  "torrent_ex speed state = [(''dlspeed'', VInt speed), (''state'', VStr state)]"

definition world_ex :: "collection \<Rightarrow> world" where
  "world_ex torrents =
     \<lparr>w_torrents = torrents, w_categories = [], w_tags = [], w_trackers = [],
      w_serverState = [(''queueing'', VBool True)]\<rparr>"

lemma sync_item_ex: "item (torrent_ex n st)"
  by (simp add: item_def flat_def torrent_ex_def qmap_inv_Cons qmap_inv_Nil)

lemma world_ok_ex: "items_ok ts \<Longrightarrow> world_ok (world_ex ts)"
  by (simp add: world_ok_def world_ex_def items_ok_def flat_def qmap_inv_Cons qmap_inv_Nil)

text \<open>A torrent without metadata: whether it is private is not known yet.\<close>

definition magnet_ex :: "variant \<Rightarrow> vmap" where
  "magnet_ex private = [(''name'', VStr ''t''), (''private'', private)]"

definition events_ex :: "sync_event list" where
  "events_ex =
     [TorrentAdded ''t1'' (magnet_ex VInvalid), Poll False, Poll False, Poll True,
      TorrentChanged ''t1'' (magnet_ex (VBool True)), CategoryAdded ''c'' [(''savePath'', VStr '''')]]"

lemma events_ok_ex:
  "run_ok events_ex (sync_step (Poll True) (world_ex [], new_controller, new_client))"
  by code_simp

theorem client_agrees_after_poll_witness:
  "case sync_run (Poll True # events_ex @ [Poll True]) (world_ex [], new_controller, new_client) of
     (w, s, c) \<Rightarrow>
       same_items (cl_torrents c) (w_torrents w) \<and> same_items (cl_categories c) (w_categories w)
       \<and> same_fields (cl_serverState c) (w_serverState w)"
  by (rule client_agrees_after_poll [OF world_ok_ex events_ok_ex])
    (simp_all add: items_ok_def events_ex_def max_id_def)

section \<open>What a lost answer costs\<close>

text \<open>A poll when nothing is pending changes nothing.\<close>

definition quiet :: "world \<Rightarrow> sync_controller \<Rightarrow> client \<Rightarrow> bool" where
  "quiet w s c \<longleftrightarrow>
     world_ok w \<and> c_updatedTorrents s = [] \<and> c_removedTorrents s = [] \<and> c_updatedCategories s = []
     \<and> c_removedCategories s = [] \<and> same_fields (sb_serverState (c_snapshot s)) (w_serverState w)
     \<and> c_acceptedID s \<ge> 0 \<and> c_lastSentID s > 0 \<and> cl_rid c = c_lastSentID s"

lemma quiet_poll:
  assumes "quiet w s c" and "sync_step (Poll True) (w, s, c) = (w', s', c')"
  shows "w' = w" and "quiet w s' c'" and "cl_torrents c' = cl_torrents c" and "cl_categories c' = cl_categories c"
proof -
  let ?s2 = "s\<lparr>c_acceptedID := cl_rid c, c_syncBuf := empty_buf\<rparr>"
  let ?i = "c_lastSentID s mod 1000000 + 1"
  have q: "world_ok w" "c_acceptedID s \<ge> 0" "c_lastSentID s > 0" "cl_rid c = c_lastSentID s"
    and k: "c_updatedTorrents ?s2 = []" "c_removedTorrents ?s2 = []" "c_updatedCategories ?s2 = []"
      "c_removedCategories ?s2 = []" "same_fields (sb_serverState (c_snapshot ?s2)) (w_serverState w)"
    using assms(1) by (simp_all add: quiet_def)
  obtain a0 s3 where g0: "generateMaindataSyncData w ?i False ?s2 = (a0, s3)" by fastforce
  note h = generate_idle [OF q(1) k g0]
  have e: "w' = w" "s' = s3\<lparr>c_lastSentID := ?i\<rparr>" "c' = client_receive a0 c"
    using assms(2) g0 q(2-4) by (auto simp: maindataAction_def Let_def)
  show "w' = w" by (rule e)
  show "quiet w s' c'" using q k(5) next_id by (simp add: quiet_def e h client_receive_def Let_def)
  show "cl_torrents c' = cl_torrents c" "cl_categories c' = cl_categories c"
    by (simp_all add: e client_receive_def Let_def h empty_buf_def merge_collection_def)
qed

lemma quiet_polls:
  "quiet w s c \<Longrightarrow> \<exists>s' c'. sync_run (replicate n (Poll True)) (w, s, c) = (w, s', c')
     \<and> quiet w s' c' \<and> cl_torrents c' = cl_torrents c \<and> cl_categories c' = cl_categories c"
proof (induction n arbitrary: s c)
  case 0
  then show ?case by (simp add: sync_run_def)
next
  case (Suc n)
  obtain w1 s1 c1 where st: "sync_step (Poll True) (w, s, c) = (w1, s1, c1)" by (metis prod_cases3)
  note q = quiet_poll [OF Suc.prems st]
  show ?case using Suc.IH [OF q(2)] st q(1,3,4) by (simp add: sync_run_def del: sync_step.simps)
qed

lemma flat_torrent_ex [simp]: "flat (torrent_ex n st)"
  using sync_item_ex by (simp add: item_def)

lemma torrent_diff:
  "processMap (torrent_ex n0 s0) (torrent_ex n1 s1)
     = (if n0 \<noteq> n1 then [(''dlspeed'', VInt n1)] else []) @ (if s0 \<noteq> s1 then [(''state'', VStr s1)] else [])"
  by (simp add: processMap_flat, simp add: torrent_ex_def at_def qmap_value_def)

lemma qmap_insert_one: "qmap_insert k d [(k, x)] = [(k, d)]" "qmap_insert k d [] = [(k, d)]"
  by simp_all

lemma torrent_merge:
  "merge (torrent_ex n0 s0) [(''state'', VStr s1)] = torrent_ex n0 s1"
  by (simp add: merge_def torrent_ex_def)

lemma at_torrent_world: "flat (w_serverState (world_ex ts))"
  by (simp add: world_ex_def flat_def qmap_inv_Cons)

definition lost_run :: "qstring \<Rightarrow> int \<Rightarrow> int \<Rightarrow> qstring \<Rightarrow> qstring \<Rightarrow> sync_state" where
  "lost_run k n0 n1 s0 s1 =
     sync_run [Poll True, TorrentChanged k (torrent_ex n1 s0), Poll False,
               TorrentChanged k (torrent_ex n1 s1), Poll True]
       (world_ex [(k, torrent_ex n0 s0)], new_controller, new_client)"

lemma sync_one:
  "sync_collection [(k, d)] [k] [] buf [] [(k, old)] =
     (if processMap old d \<noteq> [] then (qmap_insert k (processMap old d) buf, [], [(k, d)]) else (buf, [], [(k, old)]))"
  by (simp add: sync_collection_def forget_stale_def update_item_def qmap_subscript_def qmap_value_def)

lemma merge_torrent_nil: "merge [] (torrent_ex n st) = torrent_ex n st"
  by (rule merge_empty) (simp add: torrent_ex_def qmap_inv_Cons)

lemma set_add_one: "set_add k [] = [k]" "set_add k [k] = [k]"
  by (simp_all add: set_add_def insort_insert_key_def)

lemma world_ok_one: "world_ok (world_ex [(k, torrent_ex n st)])"
  by (rule world_ok_ex) (simp add: items_ok_def qmap_inv_Cons sync_item_ex)

lemma lost_run_result:
  assumes "n0 \<noteq> n1" and "s0 \<noteq> s1" and "lost_run k n0 n1 s0 s1 = (w, s, c)"
  shows "quiet w s c" and "w_torrents w = [(k, torrent_ex n1 s1)]" and "cl_torrents c = [(k, torrent_ex n0 s1)]"
proof -
  note all = maindataAction_def generateMaindataSyncData_def client_receive_def makeMaindataSnapshot_def
    new_controller_def new_client_def empty_buf_def Let_def
  have "quiet w s c \<and> w_torrents w = [(k, torrent_ex n1 s1)] \<and> cl_torrents c = [(k, torrent_ex n0 s1)]"
    using assms
    by (auto simp: lost_run_def sync_run_def all world_ex_def sync_collection_idle sync_one processMap_same flat_def
      merge_collection_def qmap_inv_Cons onTorrentUpdated_def set_add_one qmap_contains_def torrent_merge
      merge_torrent_nil forget_stale_def torrent_diff quiet_def qmap_value_def
      world_ok_one [unfolded world_ex_def])
  then show "quiet w s c" and "w_torrents w = [(k, torrent_ex n1 s1)]" and "cl_torrents c = [(k, torrent_ex n0 s1)]"
    by simp_all
qed

text \<open>
  A change whose answer is lost never reaches the client when the same torrent changes again before
  the repeated poll: the new difference, computed against a snapshot that already has the first change,
  overwrites the buffered one. However often the client polls afterwards, it keeps the old value of the
  field that changed first.
\<close>

theorem lost_change_never_arrives:
  assumes "n0 \<noteq> n1" and "s0 \<noteq> s1"
  shows "case sync_run (replicate polls (Poll True)) (lost_run k n0 n1 s0 s1) of
           (w, s, c) \<Rightarrow> w_torrents w = [(k, torrent_ex n1 s1)] \<and> cl_torrents c = [(k, torrent_ex n0 s1)]"
proof -
  obtain w s c where r: "lost_run k n0 n1 s0 s1 = (w, s, c)" by (cases "lost_run k n0 n1 s0 s1")
  note l = lost_run_result [OF assms r]
  show ?thesis using quiet_polls [OF l(1), of polls] l(2,3) by (auto simp: r)
qed

theorem lost_change_never_arrives_witness:
  "case sync_run (replicate 3 (Poll True)) (lost_run ''t1'' 5 0 ''downloading'' ''stoppedDL'') of
     (w, s, c) \<Rightarrow> w_torrents w = [(''t1'', torrent_ex 0 ''stoppedDL'')]
       \<and> cl_torrents c = [(''t1'', torrent_ex 5 ''stoppedDL'')]"
  by (rule lost_change_never_arrives) simp_all

section \<open>A field that goes away\<close>

text \<open>
  A category whose download path is unset: \<^verbatim>\<open>toJSON\<close> leaves the field out, the difference
  has no way to say so, and the client keeps the old path however often it polls.
\<close>

definition category_ex :: "qstring option \<Rightarrow> vmap" where
  "category_ex p = (case p of None \<Rightarrow> [] | Some s \<Rightarrow> [(''download_path'', VStr s)]) @ [(''savePath'', VStr '''')]"

definition unset_run :: "qstring \<Rightarrow> qstring \<Rightarrow> sync_state" where
  "unset_run k p =
     sync_run [Poll True, CategoryChanged k (category_ex None), Poll True]
       ((world_ex [])\<lparr>w_categories := [(k, category_ex (Some p))]\<rparr>, new_controller, new_client)"

lemma flat_category_ex: "flat (category_ex p)"
  by (cases p) (simp_all add: category_ex_def flat_def qmap_inv_Cons qmap_inv_Nil)

lemma category_diff:
  "processMap (category_ex (Some p)) (category_ex None) = []"
  by (simp add: processMap_flat [OF flat_category_ex]) (simp add: category_ex_def at_def qmap_value_def)

lemma unset_run_result:
  assumes "unset_run k p = (w, s, c)"
  shows "quiet w s c" and "w_categories w = [(k, category_ex None)]" and "cl_categories c = [(k, category_ex (Some p))]"
proof -
  note all = maindataAction_def generateMaindataSyncData_def client_receive_def makeMaindataSnapshot_def
    new_controller_def new_client_def empty_buf_def Let_def
  have inv: "qmap_inv (category_ex q)" for q using flat_category_ex [of q] by (simp add: flat_def)
  have ok: "world_ok ((world_ex [])\<lparr>w_categories := [(k, category_ex None)]\<rparr>)"
    using flat_category_ex [of None]
    by (simp add: world_ok_def world_ex_def items_ok_def item_def flat_def qmap_inv_Cons qmap_inv_Nil category_ex_def)
  have "quiet w s c \<and> w_categories w = [(k, category_ex None)] \<and> cl_categories c = [(k, category_ex (Some p))]"
    using assms ok
    by (auto simp: unset_run_def sync_run_def all world_ex_def sync_collection_idle sync_one processMap_same flat_def
      merge_collection_def qmap_inv_Cons onCategoryOptionsChanged_def set_add_one qmap_contains_def
      merge_empty [OF inv] forget_stale_def category_diff quiet_def qmap_value_def)
  then show "quiet w s c" and "w_categories w = [(k, category_ex None)]" and "cl_categories c = [(k, category_ex (Some p))]"
    by simp_all
qed

lemma unset_path_stays:
  "case sync_run (replicate polls (Poll True)) (unset_run k p) of
     (w, s, c) \<Rightarrow> w_categories w = [(k, category_ex None)] \<and> cl_categories c = [(k, category_ex (Some p))]"
proof -
  obtain w s c where r: "unset_run k p = (w, s, c)" by (cases "unset_run k p")
  note l = unset_run_result [OF r]
  show ?thesis using quiet_polls [OF l(1), of polls] l(2,3) by (auto simp: r)
qed

section \<open>Tags\<close>

text \<open>
  A tag the snapshot has, removed and created again between two polls, is in the snapshot twice
  afterwards; removing it for good takes only one of them away, so the next full update still carries it.
\<close>

lemma readded_tag_duplicated:
  assumes "sb_tags (c_snapshot s) = [tg]" and "c_addedTags s = []" and "c_removedTags s = []"
    and "generateMaindataSyncData w i False (onTagAdded tg (onTagRemoved tg s)) = (a, s1)"
    and "generateMaindataSyncData w' j True (onTagRemoved tg s1) = (a', s2)"
  shows "sb_tags (c_snapshot s1) = [tg, tg]" and "sb_tags (a_buf a') = [tg]"
proof -
  show 1: "sb_tags (c_snapshot s1) = [tg, tg]"
    using assms(1-4) by (auto simp: generateMaindataSyncData_def Let_def onTagAdded_def onTagRemoved_def split_beta
        set_del_def set_add_def insort_insert_key_def)
  have "c_addedTags s1 = []" "c_removedTags s1 = []"
    using assms(4) by (auto simp: generateMaindataSyncData_def Let_def split_beta)
  then show "sb_tags (a_buf a') = [tg]"
    using 1 assms(5) by (auto simp: generateMaindataSyncData_def Let_def onTagRemoved_def split_beta
        set_del_def set_add_def insort_insert_key_def)
qed

end
