(* ===== verification/Utils_Password.thy ===== *)
theory Utils_Password
  imports Utils_ByteArray
begin

text \<open>
  \<^verbatim>\<open>src/src/base/utils/password.cpp\<close>: the comparison that does not stop at the first
  difference, generated passwords, and the salted hash that is stored for the Web UI. The key
  derivation of OpenSSL and base 64 (Qt) are parameters; the lemmas rest on base 64 being inverted
  and on the key having the length asked for.
\<close>

section \<open>slowEquals\<close>

text \<open>A signed \<^verbatim>\<open>char\<close>, promoted to \<^verbatim>\<open>int\<close>.\<close>

definition char_int :: "char \<Rightarrow> 32 word" where
  "char_int c = scast (of_char c :: 8 word)"

fun slow_diff :: "qbytearray \<Rightarrow> qbytearray \<Rightarrow> 32 word \<Rightarrow> 32 word" where
  "slow_diff (x # xs) (y # ys) diff = slow_diff xs ys (diff OR (char_int x XOR char_int y))"
| "slow_diff _ _ diff = diff"

definition slowEquals :: "qbytearray \<Rightarrow> qbytearray \<Rightarrow> bool" where
  "slowEquals a b = (slow_diff a b (of_nat (length a) XOR of_nat (length b)) = 0)"

lemma or_0: "x OR y = 0 \<longleftrightarrow> x = 0 \<and> y = 0" for x y :: "32 word"
  by (auto simp: bit_eq_iff bit_or_iff)

lemma xor_0: "x XOR y = 0 \<longleftrightarrow> x = y" for x y :: "32 word"
  by (auto simp: bit_eq_iff bit_xor_iff)

lemma char_int_inject: "char_int x = char_int y \<longleftrightarrow> x = y"
proof
  assume "char_int x = char_int y"
  then have "(of_char x :: 8 word) = of_char y"
  proof -
    have "bit (of_char x :: 8 word) n = bit (of_char y :: 8 word) n" if "n < 8" for n
      using arg_cong [OF \<open>char_int x = char_int y\<close>, of "\<lambda>w. bit w n"] that
      by (cases "n = 7") (simp_all add: char_int_def bit_signed_iff min_def)
    then show ?thesis by (intro bit_word_eqI) simp
  qed
  then have "unat (of_char x :: 8 word) = unat (of_char y :: 8 word)" by (rule arg_cong)
  moreover have "unat (of_char c :: 8 word) = of_char c" for c
  proof -
    have "unat (of_nat (of_char c) :: 8 word) = of_char c" by (simp add: unat_of_nat)
    then show ?thesis by (simp only: of_nat_of_char)
  qed
  ultimately have "of_char x = (of_char y :: nat)" by simp
  then show "x = y" by simp
qed simp

lemma slow_diff_0: "slow_diff a b d = 0 \<longleftrightarrow> d = 0 \<and> (\<forall>(x, y) \<in> set (zip a b). x = y)"
  by (induction a b d rule: slow_diff.induct) (auto simp: or_0 xor_0 char_int_inject)

lemma zip_equal: "length a = length b \<Longrightarrow> (\<forall>(x, y) \<in> set (zip a b). x = y) \<longleftrightarrow> a = b"
  by (induction a b rule: list_induct2) auto

lemma unat_of_nat_len: "n < 2 ^ 32 \<Longrightarrow> unat (of_nat n :: 32 word) = n"
  by (simp add: unat_of_nat take_bit_nat_eq_self)

lemma slowEquals_iff:
  assumes "length a < 2 ^ 32" and "length b < 2 ^ 32"
  shows "slowEquals a b \<longleftrightarrow> a = b"
proof -
  have "(of_nat (length a) :: 32 word) = of_nat (length b) \<longleftrightarrow> length a = length b"
    using assms by (metis unat_of_nat_len)
  then show ?thesis
    using zip_equal [of a b] by (auto simp: slowEquals_def slow_diff_0 xor_0)
qed

section \<open>Generated passwords\<close>

definition alphanum :: qstring where
  "alphanum = ''23456789ABCDEFGHIJKLMNPQRSTUVWXYZabcdefghjkmnpqrstuvwxyz''"

definition passwordLength :: nat where
  "passwordLength = 9"

text \<open>\<open>rand n hi\<close> is the \<open>n\<close>-th number drawn between 0 and \<open>hi\<close>.\<close>

function generate_loop :: "(nat \<Rightarrow> nat \<Rightarrow> nat) \<Rightarrow> qstring \<Rightarrow> qstring" where
  "generate_loop rand pass =
     (if length pass < passwordLength
      then generate_loop rand (pass @ [alphanum ! rand (length pass) (length alphanum - 1)])
      else pass)"
  by pat_completeness auto
termination
  by (relation "measure (\<lambda>(_, pass). passwordLength - length pass)") auto

declare generate_loop.simps [simp del]

definition generate_password :: "(nat \<Rightarrow> nat \<Rightarrow> nat) \<Rightarrow> qstring" where
  "generate_password rand = generate_loop rand []"

lemma generate_loop_ok:
  assumes "\<forall>n hi. rand n hi \<le> hi" and "length pass \<le> passwordLength" and "set pass \<subseteq> set alphanum"
  shows "length (generate_loop rand pass) = passwordLength \<and> set (generate_loop rand pass) \<subseteq> set alphanum"
  using assms(2,3)
proof (induction "passwordLength - length pass" arbitrary: pass rule: less_induct)
  case less
  let ?c = "alphanum ! rand (length pass) (length alphanum - 1)"
  have "rand (length pass) (length alphanum - 1) < length alphanum"
    using assms(1) by (metis One_nat_def Suc_pred alphanum_def le_imp_less_Suc length_greater_0_conv list.distinct(1))
  then have "?c \<in> set alphanum" by simp
  then show ?case
    using less by (subst (1 2) generate_loop.simps) auto
qed

section \<open>Stored passwords\<close>

record crypto =
  cr_hmac :: "qbytearray \<Rightarrow> qbytearray \<Rightarrow> nat \<Rightarrow> nat \<Rightarrow> qbytearray option"
  cr_toBase64 :: "qbytearray \<Rightarrow> qbytearray"
  cr_fromBase64 :: "qbytearray \<Rightarrow> qbytearray"

definition hashIterations :: nat where
  "hashIterations = 100000"

definition pbkdf2_generate :: "crypto \<Rightarrow> qbytearray \<Rightarrow> qbytearray \<Rightarrow> qbytearray" where
  "pbkdf2_generate cr salt password =
     (case cr_hmac cr password salt hashIterations 64 of
        None \<Rightarrow> []
      | Some outBuf \<Rightarrow> cr_toBase64 cr salt @ '':'' @ cr_toBase64 cr outBuf)"

definition pbkdf2_verify :: "crypto \<Rightarrow> qbytearray \<Rightarrow> qbytearray \<Rightarrow> bool" where
  "pbkdf2_verify cr secret password =
     (case splitToViews secret '':'' SkipEmptyParts of
        [s, k] \<Rightarrow>
          (case cr_hmac cr password (cr_fromBase64 cr s) hashIterations 64 of
             None \<Rightarrow> False
           | Some outBuf \<Rightarrow> slowEquals (cr_fromBase64 cr k) outBuf)
      | _ \<Rightarrow> False)"

definition crypto_ok :: "crypto \<Rightarrow> bool" where
  "crypto_ok cr \<longleftrightarrow>
     (\<forall>x. x \<noteq> [] \<longrightarrow> cr_toBase64 cr x \<noteq> [] \<and> CHR '':'' \<notin> set (cr_toBase64 cr x)
        \<and> cr_fromBase64 cr (cr_toBase64 cr x) = x)
     \<and> (\<forall>p s n l k. cr_hmac cr p s n l = Some k \<longrightarrow> length k = l)"

lemma split_pair:
  assumes "CHR '':'' \<notin> set a" and "a \<noteq> []" and "CHR '':'' \<notin> set b" and "b \<noteq> []"
  shows "splitToViews (a @ '':'' @ b) '':'' SkipEmptyParts = [a, b]"
proof -
  have f: "find_sub '':'' (a @ '':'' @ b) = Some (length a)" "find_sub '':'' b = None"
    using find_sub_skip [OF assms(1), of "[]"] find_sub_skip [OF assms(3), of "[]" "[]"] by simp_all
  have d: "drop (length a + 1) (a @ '':'' @ b) = b" by simp
  have "splitToViews_loop (a @ '':'' @ b) '':'' KeepEmptyParts (length a + 1) = [b]"
    using f(2) assms(4) by (subst splitToViews_loop_step) (simp_all only: d, simp_all)
  moreover have "splitToViews_loop (a @ '':'' @ b) '':'' KeepEmptyParts 0
      = a # splitToViews_loop (a @ '':'' @ b) '':'' KeepEmptyParts (length a + 1)"
    using f(1) assms(2) by (subst splitToViews_loop_step) simp_all
  ultimately show ?thesis
    using assms(2,4) by (simp add: splitToViews_def splitToViews_loop_skip skip_empty_def)
qed

lemma pbkdf2_verify_iff:
  assumes "crypto_ok cr" and "salt \<noteq> []" and "cr_hmac cr password salt hashIterations 64 = Some key"
  shows "pbkdf2_verify cr (pbkdf2_generate cr salt password) password'
           \<longleftrightarrow> cr_hmac cr password' salt hashIterations 64 = Some key"
proof -
  have len: "length k = 64" if "cr_hmac cr p salt hashIterations 64 = Some k" for p k
    using assms(1) that by (auto simp: crypto_ok_def)
  have k: "key \<noteq> []" using len [OF assms(3)] by auto
  have b: "cr_toBase64 cr x \<noteq> []" "CHR '':'' \<notin> set (cr_toBase64 cr x)" "cr_fromBase64 cr (cr_toBase64 cr x) = x"
    if "x \<noteq> []" for x using assms(1) that by (auto simp: crypto_ok_def)
  have "splitToViews (pbkdf2_generate cr salt password) '':'' SkipEmptyParts = [cr_toBase64 cr salt, cr_toBase64 cr key]"
    using b [OF assms(2)] b [OF k] assms(3) by (simp add: pbkdf2_generate_def split_pair [simplified])
  then show ?thesis
    using b [OF assms(2)] b [OF k] len [OF assms(3)] len
    by (auto simp: pbkdf2_verify_def slowEquals_iff split: option.splits)
qed

text \<open>
  A stored password accepts exactly the passwords that derive the same key from the stored salt: the
  password it was made of, and a wrong one only if the derivation collides.
\<close>

theorem stored_password_accepts:
  assumes "crypto_ok cr" and "salt \<noteq> []" and "cr_hmac cr password salt hashIterations 64 = Some key"
  shows "pbkdf2_verify cr (pbkdf2_generate cr salt password) password'
           \<longleftrightarrow> cr_hmac cr password' salt hashIterations 64 = Some key"
  by (rule pbkdf2_verify_iff [OF assms])

fun hex64 :: "qbytearray \<Rightarrow> qbytearray" where
  "hex64 [] = []"
| "hex64 (c # cs) = char_of (65 + of_char c div (16 :: nat)) # char_of (65 + of_char c mod (16 :: nat)) # hex64 cs"

fun unhex64 :: "qbytearray \<Rightarrow> qbytearray" where
  "unhex64 (a # b # cs) = char_of ((of_char a - 65) * 16 + (of_char b - 65 :: nat)) # unhex64 cs"
| "unhex64 _ = []"

definition crypto_ex :: "crypto" where
  "crypto_ex = \<lparr>cr_hmac = (\<lambda>p s n l. Some (take l (p @ replicate l CHR ''0''))),
                cr_toBase64 = hex64, cr_fromBase64 = unhex64\<rparr>"

lemma of_char_small: "n < 256 \<Longrightarrow> of_char (char_of n :: char) = (n :: nat)"
  by simp

lemma hex64_ok: "unhex64 (hex64 x) = x" "CHR '':'' \<notin> set (hex64 x)" "x \<noteq> [] \<Longrightarrow> hex64 x \<noteq> []"
proof -
  have n: "65 + of_char c div 16 < (256 :: nat)" "65 + of_char c mod 16 < (256 :: nat)" for c
    using of_char_less_256 [of c] by linarith+
  show "unhex64 (hex64 x) = x" by (induction x) (simp_all add: of_char_small n)
  show "CHR '':'' \<notin> set (hex64 x)"
  proof (induction x)
    case (Cons c x)
    have "of_char (CHR '':'') \<noteq> 65 + of_char c div (16 :: nat)" "of_char (CHR '':'') \<noteq> 65 + of_char c mod (16 :: nat)"
      by simp_all
    then show ?case using Cons n by (metis hex64.simps(2) of_char_small set_ConsD)
  qed simp
  show "x \<noteq> [] \<Longrightarrow> hex64 x \<noteq> []" by (cases x) simp_all
qed

lemma crypto_ex_ok: "crypto_ok crypto_ex"
  by (auto simp: crypto_ok_def crypto_ex_def hex64_ok min_def)

theorem stored_password_accepts_witness:
  "pbkdf2_verify crypto_ex (pbkdf2_generate crypto_ex ''salt'' ''secret'') ''Secret''
     \<longleftrightarrow> cr_hmac crypto_ex ''Secret'' ''salt'' hashIterations 64
          = Some (take 64 (''secret'' @ replicate 64 CHR ''0''))"
  by (rule stored_password_accepts) (simp_all add: crypto_ex_ok, simp add: crypto_ex_def)

end
