(* ===== verification/Web_App.thy ===== *)
theory Web_App
  imports Http_Connection Path Utils_String Utils_Password
begin

text \<open>
  The Web UI in front of its API: \<^verbatim>\<open>src/src/webui/webapplication.cpp\<close> and
  \<^verbatim>\<open>src/src/webui/api/authcontroller.cpp\<close>. A request is checked (cross-site, host
  header), its client address resolved, its session found by cookie or started, and then it is a
  call of an API or a file. Qt's addresses, URLs and text conversions, the file system, OpenSSL and
  the API controllers of a session are the parameters of \<open>web_ext\<close>; the controllers' answers
  may depend on all earlier calls. Times are milliseconds.
\<close>

section \<open>Types\<close>

datatype api_error_type = BadParams | BadData | NotFound | AccessDenied | Conflict

type_synonym api_error = "api_error_type \<times> qstring"

datatype api_data = JsonDocument qbytearray | ByteArray qbytearray | Text qstring

record api_result =
  ar_data :: api_data
  ar_mimeType :: qstring
  ar_filename :: qstring

text \<open>A call of a session's controller: session, scope, action, parameters and files.\<close>

record api_call =
  call_session :: qstring
  call_scope :: qstring
  call_action :: qstring
  call_params :: "qstring \<rightharpoonup> qstring"
  call_data :: "qstring \<rightharpoonup> qbytearray"

text \<open>What an exception carries besides its status.\<close>

fun http_error_message :: "http_error \<Rightarrow> qstring" where
  "http_error_message (BadRequestHTTPError m) = m"
| "http_error_message (UnauthorizedHTTPError m) = m"
| "http_error_message (ForbiddenHTTPError m) = m"
| "http_error_message (NotFoundHTTPError m) = m"
| "http_error_message (MethodNotAllowedHTTPError m) = m"
| "http_error_message (ConflictHTTPError m) = m"
| "http_error_message (UnsupportedMediaTypeHTTPError m) = m"
| "http_error_message (InternalServerErrorHTTPError m) = m"

datatype same_site = SameSite_Strict | SameSite_None

record cookie =
  ck_name :: qstring
  ck_value :: qstring
  ck_httpOnly :: bool
  ck_secure :: bool
  ck_path :: qstring
  ck_sameSite :: "same_site option"
  ck_expiredYesterday :: bool

datatype read_error = ReadNotExist | ReadExceedSize | ReadFailed | ReadSizeMismatch

record ('a, 's) web_ext =
  parseAddress :: "qstring \<Rightarrow> 'a option"
  addrToString :: "'a \<Rightarrow> qstring"
  isLoopback :: "'a \<Rightarrow> bool"
  isGlobal :: "'a \<Rightarrow> bool"
  isEqualAddress :: "'a \<Rightarrow> 'a option \<Rightarrow> bool"
  isIPv4 :: "'a \<Rightarrow> bool"
  toIPv6 :: "'a \<Rightarrow> 'a"
  toIPv4 :: "'a \<Rightarrow> 'a option"
  isInSubnet :: "'a \<Rightarrow> 's \<Rightarrow> bool"
  parseSubnet :: "qstring \<Rightarrow> 's option"
  urlHost :: "qstring \<Rightarrow> qstring"
  urlPort :: "qstring \<Rightarrow> int"
  domainMatches :: "qstring \<Rightarrow> qstring \<Rightarrow> bool"
  utf8_decode :: "qbytearray \<Rightarrow> qstring"
  utf8_encode :: "qstring \<Rightarrow> qbytearray"
  cookieToRawForm :: "cookie \<Rightarrow> qstring"
  crypto :: crypto
  qdirClean :: "qstring \<Rightarrow> qstring"
  fs_exists :: "path \<Rightarrow> bool"
  fs_isRegularFile :: "path \<Rightarrow> bool"
  fs_isSymLink :: "path \<Rightarrow> bool"
  fs_readFile :: "path \<Rightarrow> (read_error \<times> qstring) + qbytearray"
  fs_lastModified :: "path \<Rightarrow> int"
  mimeName :: "path \<Rightarrow> qbytearray \<Rightarrow> qstring"
  mimeIsText :: "qstring \<Rightarrow> bool"
  translateFile :: "path \<Rightarrow> qbytearray \<Rightarrow> qbytearray"
  runController :: "api_call list \<Rightarrow> api_call \<Rightarrow> api_error + api_result"

record ('a, 's) web_config =
  cf_username :: qstring
  cf_passwordHash :: qbytearray
  cf_maxAuthFailCount :: int
  cf_banDuration :: int
  cf_isLocalAuthEnabled :: bool
  cf_isAuthSubnetWhitelistEnabled :: bool
  cf_authSubnetWhitelist :: "'s list"
  cf_sessionTimeout :: int
  cf_sessionCookieName :: qstring
  cf_domainList :: "qstring list"
  cf_isCSRFProtectionEnabled :: bool
  cf_isSecureCookieEnabled :: bool
  cf_isHostHeaderValidationEnabled :: bool
  cf_isHttpsEnabled :: bool
  cf_isReverseProxySupportEnabled :: bool
  cf_trustedReverseProxyList :: "'s list"
  cf_prebuiltHeaders :: "(qstring \<times> qstring) list"
  cf_isAltUIUsed :: bool
  cf_rootFolder :: path
  cf_currentLocale :: qstring

record 'a environment =
  env_localAddress :: 'a
  env_localPort :: int
  env_clientAddress :: 'a

text \<open>A count of failed logins and when the ban ends; the default timer never expires.\<close>

record failed_login =
  fl_failedAttemptsCount :: int
  fl_banTimer :: "int option"

record translated_file =
  tf_data :: qbytearray
  tf_mimeType :: qstring
  tf_lastModified :: int

text \<open>
  The application between requests: when each session was last used, the failed logins of each
  client, the session identifiers that will be drawn, the calls made so far and the cached files.
\<close>

record web_app =
  wa_sessions :: "qstring \<rightharpoonup> int"
  wa_failedLogins :: "qstring \<rightharpoonup> failed_login"
  wa_random :: "qstring list"
  wa_calls :: "api_call list"
  wa_translatedFiles :: "path \<rightharpoonup> translated_file"

text \<open>
  While a request is processed; \<open>wr_assertFailed\<close> tells that a \<^verbatim>\<open>Q_ASSERT\<close> on
  \<^verbatim>\<open>m_currentSession\<close> was violated.
\<close>

record 'a web_run =
  wr_app :: web_app
  wr_now :: int
  wr_request :: request
  wr_env :: "'a environment"
  wr_params :: "qstring \<rightharpoonup> qstring"
  wr_currentSession :: "qstring option"
  wr_clientAddress :: 'a
  wr_response :: response
  wr_assertFailed :: bool

section \<open>The response\<close>

definition setHeader :: "qstring \<times> qstring \<Rightarrow> 'a web_run \<Rightarrow> 'a web_run" where
  "setHeader h w = w\<lparr>wr_response := builder_setHeader (fst h) (snd h) (wr_response w)\<rparr>"

definition print_impl :: "qbytearray \<Rightarrow> qstring \<Rightarrow> 'a web_run \<Rightarrow> 'a web_run" where
  "print_impl data type w = w\<lparr>wr_response := builder_print data type (wr_response w)\<rparr>"

definition set_status :: "nat \<Rightarrow> qstring \<Rightarrow> 'a web_run \<Rightarrow> 'a web_run" where
  "set_status code t w = w\<lparr>wr_response := builder_status code t (wr_response w)\<rparr>"

abbreviation content_text :: qstring where "content_text \<equiv> ''text/plain; charset=UTF-8''"

definition getCachingInterval :: "qstring \<Rightarrow> qstring" where
  "getCachingInterval contentType0 =
     (let contentType = to_lower contentType0
      in if prefix ''image/'' contentType then ''private, max-age=604800''
         else if contentType = ''text/css'' \<or> contentType = ''application/javascript''
         then ''private, max-age=43200''
         else ''no-store'')"

section \<open>Checking a request\<close>

definition parseCookie :: "qstring \<Rightarrow> (qstring, qstring) qmap" where
  "parseCookie cookieStr =
     fold (\<lambda>cookie ret.
        case index_of (CHR ''='') cookie of
          None \<Rightarrow> ret
        | Some idx \<Rightarrow>
            qmap_insert (trimmed (take idx cookie)) (unquote (trimmed (drop (idx + 1) cookie))) ret)
       (skip_empty (split_char (CHR '';'') cookieStr)) []"

definition is_letter_ascii :: "char \<Rightarrow> bool" where
  "is_letter_ascii c \<longleftrightarrow> (let n = of_char c :: nat in (65 \<le> n \<and> n \<le> 90) \<or> (97 \<le> n \<and> n \<le> 122))"

definition is_alnum :: "char \<Rightarrow> bool" where
  "is_alnum c \<longleftrightarrow> is_digit c \<or> is_letter_ascii c"

definition isValidCookieName :: "qstring \<Rightarrow> bool" where
  "isValidCookieName cookieName \<longleftrightarrow>
     cookieName \<noteq> [] \<and> length cookieName \<le> 128
     \<and> list_all (\<lambda>c. is_alnum c
                   \<or> c = CHR ''_'' \<or> c = CHR ''-'') cookieName"

definition urlFromHostHeader :: "qstring \<Rightarrow> qstring" where
  "urlFromHostHeader hostHeader =
     (if find_sub ''://'' hostHeader = None then ''http://'' @ hostHeader else hostHeader)"

definition header_value :: "request \<Rightarrow> qstring \<Rightarrow> qstring" where
  "header_value req name = qmap_value (req_headers req) name []"

definition isSameOrigin :: "('a, 's) web_ext \<Rightarrow> qstring \<Rightarrow> qstring \<Rightarrow> bool" where
  "isSameOrigin ext left right \<longleftrightarrow>
     urlPort ext left = urlPort ext right \<and> urlHost ext left = urlHost ext right"

definition isCrossSiteRequest :: "('a, 's) web_ext \<Rightarrow> request \<Rightarrow> bool" where
  "isCrossSiteRequest ext req =
     (let targetOrigin = qmap_value (req_headers req) ''x-forwarded-host'' (header_value req ''host'');
          originValue = header_value req ''origin'';
          refererValue = header_value req ''referer''
      in if originValue = [] \<and> refererValue = [] then False
         else if originValue \<noteq> [] then \<not> isSameOrigin ext (urlFromHostHeader targetOrigin) originValue
         else if refererValue \<noteq> [] then \<not> isSameOrigin ext (urlFromHostHeader targetOrigin) refererValue
         else True)"

definition validateHostHeader :: "('a, 's) web_ext \<Rightarrow> 'a environment \<Rightarrow> request \<Rightarrow> qstring list \<Rightarrow> bool" where
  "validateHostHeader ext env req domains =
     (let hostHeader = urlFromHostHeader (header_value req ''host'');
          requestHost = urlHost ext hostHeader;
          requestPort = urlPort ext hostHeader
      in if requestPort \<noteq> -1 \<and> env_localPort env \<noteq> requestPort then False
         else if isEqualAddress ext (env_localAddress env) (parseAddress ext requestHost) then True
         else list_ex (\<lambda>domain. domainMatches ext domain requestHost) domains)"

definition isIPInSubnets :: "('a, 's) web_ext \<Rightarrow> 'a \<Rightarrow> 's list \<Rightarrow> bool" where
  "isIPInSubnets ext addr subnets =
     (let protocolEquivalentAddress = (if isIPv4 ext addr then Some (toIPv6 ext addr) else toIPv4 ext addr)
      in list_ex (\<lambda>subnet. isInSubnet ext addr subnet
            \<or> (case protocolEquivalentAddress of None \<Rightarrow> False | Some a \<Rightarrow> isInSubnet ext a subnet)) subnets)"

fun first_global :: "('a, 's) web_ext \<Rightarrow> qstring list \<Rightarrow> 'a option" where
  "first_global ext [] = None"
| "first_global ext (remoteIp # rest) =
     (case parseAddress ext remoteIp of
        Some a \<Rightarrow> if isGlobal ext a then Some a else first_global ext rest
      | None \<Rightarrow> first_global ext rest)"

definition resolveClientAddress :: "('a, 's) web_ext \<Rightarrow> ('a, 's) web_config \<Rightarrow> 'a environment \<Rightarrow> request \<Rightarrow> 'a" where
  "resolveClientAddress ext cfg env req =
     (if \<not> cf_isReverseProxySupportEnabled cfg then env_clientAddress env
      else if \<not> isIPInSubnets ext (env_clientAddress env) (cf_trustedReverseProxyList cfg) then env_clientAddress env
      else
        (case skip_empty (split_char (CHR '','') (header_value req ''x-forwarded-for'')) of
           [] \<Rightarrow> env_clientAddress env
         | ip # ips \<Rightarrow>
             (case first_global ext (ip # ips) of
                Some a \<Rightarrow> a
              | None \<Rightarrow> (case parseAddress ext ip of Some a \<Rightarrow> a | None \<Rightarrow> env_clientAddress env))))"

definition isAuthNeeded :: "('a, 's) web_ext \<Rightarrow> ('a, 's) web_config \<Rightarrow> 'a \<Rightarrow> bool" where
  "isAuthNeeded ext cfg clientAddress =
     (if \<not> cf_isLocalAuthEnabled cfg \<and> isLoopback ext clientAddress then False
      else if cf_isAuthSubnetWhitelistEnabled cfg \<and> isIPInSubnets ext clientAddress (cf_authSubnetWhitelist cfg)
      then False else True)"

definition isOriginTrustworthy :: "('a, 's) web_config \<Rightarrow> request \<Rightarrow> bool" where
  "isOriginTrustworthy cfg req =
     (if cf_isReverseProxySupportEnabled cfg \<and> equal_ci (header_value req ''x-forwarded-proto'') ''https'' then True
      else cf_isHttpsEnabled cfg)"

section \<open>Sessions\<close>

definition sessionHasExpired :: "int \<Rightarrow> int \<Rightarrow> int \<Rightarrow> bool" where
  "sessionHasExpired seconds now timestamp = (if seconds \<le> 0 then False else now - timestamp > seconds * 1000)"

text \<open>\<open>None\<close> when the identifiers given run out, which stands for drawing for ever.\<close>

fun generateSid :: "qstring list \<Rightarrow> (qstring \<rightharpoonup> int) \<Rightarrow> (qstring \<times> qstring list) option" where
  "generateSid [] sessions = None"
| "generateSid (sid # random) sessions =
     (if sessions sid \<noteq> None then generateSid random sessions else Some (sid, random))"

definition sessionStart :: "('a, 's) web_ext \<Rightarrow> ('a, 's) web_config \<Rightarrow> 'a web_run \<Rightarrow> 'a web_run option" where
  "sessionStart ext cfg w =
     (let app = wr_app w;
          sessions = (\<lambda>sid. case wa_sessions app sid of
                        None \<Rightarrow> None
                      | Some t \<Rightarrow> if sessionHasExpired (cf_sessionTimeout cfg) (wr_now w) t then None else Some t)
      in case generateSid (wa_random app) sessions of
           None \<Rightarrow> None
         | Some (sid, random) \<Rightarrow>
             (let secure = (cf_isSecureCookieEnabled cfg \<and> isOriginTrustworthy cfg (wr_request w));
                  ck = \<lparr>ck_name = cf_sessionCookieName cfg, ck_value = sid, ck_httpOnly = True, ck_secure = secure,
                        ck_path = ''/'',
                        ck_sameSite = (if cf_isCSRFProtectionEnabled cfg then Some SameSite_Strict
                                       else if secure then Some SameSite_None else None),
                        ck_expiredYesterday = False\<rparr>
              in Some (setHeader (''set-cookie'', cookieToRawForm ext ck)
                   (w\<lparr>wr_app := app\<lparr>wa_sessions := sessions(sid \<mapsto> wr_now w), wa_random := random\<rparr>,
                      wr_assertFailed := wr_assertFailed w \<or> wr_currentSession w \<noteq> None, wr_currentSession := Some sid\<rparr>))))"

definition sessionEnd :: "('a, 's) web_ext \<Rightarrow> ('a, 's) web_config \<Rightarrow> 'a web_run \<Rightarrow> 'a web_run" where
  "sessionEnd ext cfg w =
     (case wr_currentSession w of
        None \<Rightarrow> w\<lparr>wr_assertFailed := True\<rparr>
      | Some sid \<Rightarrow>
          (let app = wr_app w;
               ck = \<lparr>ck_name = cf_sessionCookieName cfg, ck_value = [], ck_httpOnly = False, ck_secure = False,
                     ck_path = ''/'', ck_sameSite = None, ck_expiredYesterday = True\<rparr>
           in setHeader (''set-cookie'', cookieToRawForm ext ck)
                (w\<lparr>wr_app := app\<lparr>wa_sessions := (wa_sessions app)(sid := None)\<rparr>, wr_currentSession := None\<rparr>)))"

text \<open>The first half of \<^verbatim>\<open>sessionInitialize\<close>: the session the cookie names.\<close>

definition session_by_cookie :: "('a, 's) web_config \<Rightarrow> 'a web_run \<Rightarrow> 'a web_run" where
  "session_by_cookie cfg w =
     (let sessionId = qmap_value (parseCookie (header_value (wr_request w) ''cookie'')) (cf_sessionCookieName cfg) [];
          app = wr_app w
      in if sessionId = [] then w
         else case wa_sessions app sessionId of
                None \<Rightarrow> w
              | Some t \<Rightarrow>
                  if sessionHasExpired (cf_sessionTimeout cfg) (wr_now w) t
                  then w\<lparr>wr_app := app\<lparr>wa_sessions := (wa_sessions app)(sessionId := None)\<rparr>\<rparr>
                  else w\<lparr>wr_app := app\<lparr>wa_sessions := (wa_sessions app)(sessionId \<mapsto> wr_now w)\<rparr>,
                         wr_currentSession := Some sessionId\<rparr>)"

definition sessionInitialize :: "('a, 's) web_ext \<Rightarrow> ('a, 's) web_config \<Rightarrow> 'a web_run \<Rightarrow> 'a web_run option" where
  "sessionInitialize ext cfg w =
     (let w1 = session_by_cookie cfg w
      in if wr_currentSession w1 = None \<and> \<not> isAuthNeeded ext cfg (wr_clientAddress w1)
         then sessionStart ext cfg w1 else Some w1)"

definition sessionCookieName_of :: "qstring \<Rightarrow> qstring" where
  "sessionCookieName_of preferred = (if isValidCookieName preferred then preferred else ''SID'')"

section \<open>Logging in\<close>

definition isBanned :: "int \<Rightarrow> qstring \<Rightarrow> (qstring \<rightharpoonup> failed_login) \<Rightarrow> bool \<times> (qstring \<rightharpoonup> failed_login)" where
  "isBanned now client failedLogins =
     (case failedLogins client of
        None \<Rightarrow> (False, failedLogins)
      | Some fl \<Rightarrow>
          (case fl_banTimer fl of
             None \<Rightarrow> (False, failedLogins)
           | Some until \<Rightarrow> if now \<ge> until then (False, failedLogins(client := None)) else (True, failedLogins)))"

definition increaseFailedAttempts ::
  "('a, 's) web_config \<Rightarrow> int \<Rightarrow> qstring \<Rightarrow> (qstring \<rightharpoonup> failed_login) \<Rightarrow> (qstring \<rightharpoonup> failed_login)" where
  "increaseFailedAttempts cfg now client failedLogins =
     (let old = (case failedLogins client of
                   None \<Rightarrow> \<lparr>fl_failedAttemptsCount = 0, fl_banTimer = None\<rparr> | Some fl \<Rightarrow> fl);
          count = fl_failedAttemptsCount old + 1
      in failedLogins(client \<mapsto>
           \<lparr>fl_failedAttemptsCount = count,
            fl_banTimer = (if count \<ge> cf_maxAuthFailCount cfg then Some (now + 1000 * cf_banDuration cfg)
                           else fl_banTimer old)\<rparr>))"

definition text_result :: "qstring \<Rightarrow> api_result" where
  "text_result t = \<lparr>ar_data = Text t, ar_mimeType = [], ar_filename = []\<rparr>"

definition clientId :: "('a, 's) web_ext \<Rightarrow> 'a web_run \<Rightarrow> qstring" where
  "clientId ext w = addrToString ext (wr_clientAddress w)"

definition param_value :: "(qstring \<rightharpoonup> qstring) \<Rightarrow> qstring \<Rightarrow> qstring" where
  "param_value params name = (case params name of None \<Rightarrow> [] | Some v \<Rightarrow> v)"

definition credentials_ok :: "('a, 's) web_ext \<Rightarrow> ('a, 's) web_config \<Rightarrow> (qstring \<rightharpoonup> qstring) \<Rightarrow> bool" where
  "credentials_ok ext cfg params \<longleftrightarrow>
     (let usernameEqual = slowEquals (utf8_encode ext (param_value params ''username'')) (utf8_encode ext (cf_username cfg));
          passwordEqual = pbkdf2_verify (crypto ext) (cf_passwordHash cfg)
            (utf8_encode ext (param_value params ''password''))
      in usernameEqual \<and> passwordEqual)"

definition set_failed :: "(qstring \<rightharpoonup> failed_login) \<Rightarrow> 'a web_run \<Rightarrow> 'a web_run" where
  "set_failed fl w = w\<lparr>wr_app := (wr_app w)\<lparr>wa_failedLogins := fl\<rparr>\<rparr>"

definition loginAction ::
  "('a, 's) web_ext \<Rightarrow> ('a, 's) web_config \<Rightarrow> 'a web_run \<Rightarrow> ((api_error + api_result) \<times> 'a web_run) option" where
  "loginAction ext cfg w =
     (if wr_currentSession w \<noteq> None then Some (Inr (text_result ''Ok.''), w)
      else
        (case isBanned (wr_now w) (clientId ext w) (wa_failedLogins (wr_app w)) of
           (banned, failedLogins) \<Rightarrow>
             (let w1 = set_failed failedLogins w in
              if banned
              then Some (Inl (AccessDenied,
                ''Your IP address has been banned after too many failed authentication attempts.''), w1)
              else if credentials_ok ext cfg (wr_params w1)
              then map_option (\<lambda>w2. (Inr (text_result ''Ok.''), w2))
                (sessionStart ext cfg (set_failed (failedLogins(clientId ext w := None)) w1))
              else
                (let w2 = (if cf_maxAuthFailCount cfg > 0
                           then set_failed (increaseFailedAttempts cfg (wr_now w) (clientId ext w) failedLogins) w1
                           else w1)
                 in Some (Inr (text_result ''Fails.''), w2)))))"

definition runAuthController ::
  "('a, 's) web_ext \<Rightarrow> ('a, 's) web_config \<Rightarrow> qstring \<Rightarrow> 'a web_run
     \<Rightarrow> ((api_error + api_result) \<times> 'a web_run) option" where
  "runAuthController ext cfg action w =
     (if action = ''login'' then loginAction ext cfg w
      else if action = ''logout'' then Some (Inr (text_result []), sessionEnd ext cfg w)
      else Some (Inl (NotFound, []), w))"

section \<open>Dispatch\<close>

definition is_word_start :: "char \<Rightarrow> bool" where
  "is_word_start c \<longleftrightarrow> is_letter_ascii c \<or> c = CHR ''_''"

fun is_api_word :: "qstring \<Rightarrow> bool" where
  "is_api_word [] = False"
| "is_api_word (c # cs) = (is_word_start c \<and> list_all (\<lambda>d. is_word_start d \<or> is_digit d) cs)"

text \<open>
  \<^verbatim>\<open>m_apiPathPattern\<close>; the dollar of a Perl pattern also matches before a newline at the end.
\<close>

definition match_api_path :: "qstring \<Rightarrow> (qstring \<times> qstring) option" where
  "match_api_path p =
     (if prefix ''/api/v2/'' p then
        (let rest = drop 8 p;
             body = (if rest \<noteq> [] \<and> last rest = CHR 0x0A then butlast rest else rest)
         in case split_char (CHR ''/'') body of
              [scope, action] \<Rightarrow> if is_api_word scope \<and> is_api_word action then Some (scope, action) else None
            | _ \<Rightarrow> None)
      else None)"

definition isPublicAPI :: "qstring \<Rightarrow> qstring \<Rightarrow> bool" where
  "isPublicAPI scope action \<longleftrightarrow> (scope, action) \<in> set [(''auth'', ''login'')]"

definition session_scopes :: "qstring list" where
  "session_scopes = [''app'', ''log'', ''torrentcreator'', ''rss'', ''search'', ''torrents'', ''transfer'', ''sync'']"

text \<open>The calls that only \<^verbatim>\<open>POST\<close> may make.\<close>

definition allowedMethod_post :: "(qstring \<times> qstring) list" where
  "allowedMethod_post =
    [(''app'', ''sendTestEmail''), (''app'', ''setCookies''), (''app'', ''setPreferences''),
     (''app'', ''shutdown''), (''auth'', ''login''), (''auth'', ''logout''),
     (''rss'', ''addFeed''), (''rss'', ''addFolder''), (''rss'', ''markAsRead''),
     (''rss'', ''moveItem''), (''rss'', ''refreshItem''), (''rss'', ''removeItem''),
     (''rss'', ''removeRule''), (''rss'', ''renameRule''), (''rss'', ''setFeedURL''),
     (''rss'', ''setRule''), (''search'', ''delete''), (''search'', ''enablePlugin''),
     (''search'', ''installPlugin''), (''search'', ''start''), (''search'', ''stop''),
     (''search'', ''uninstallPlugin''), (''search'', ''updatePlugins''),
     (''torrentcreator'', ''addTask''), (''torrentcreator'', ''deleteTask''),
     (''torrents'', ''add''), (''torrents'', ''addPeers''), (''torrents'', ''addTags''),
     (''torrents'', ''addTrackers''), (''torrents'', ''addWebSeeds''),
     (''transfer'', ''banPeers''), (''torrents'', ''bottomPrio''),
     (''torrents'', ''createCategory''), (''torrents'', ''createTags''),
     (''torrents'', ''decreasePrio''), (''torrents'', ''delete''),
     (''torrents'', ''deleteTags''), (''torrents'', ''editCategory''),
     (''torrents'', ''editTracker''), (''torrents'', ''editWebSeed''),
     (''torrents'', ''filePrio''), (''torrents'', ''increasePrio''),
     (''torrents'', ''reannounce''), (''torrents'', ''recheck''),
     (''torrents'', ''removeCategories''), (''torrents'', ''removeTags''),
     (''torrents'', ''removeTrackers''), (''torrents'', ''removeWebSeeds''),
     (''torrents'', ''rename''), (''torrents'', ''renameFile''),
     (''torrents'', ''renameFolder''), (''torrents'', ''setAutoManagement''),
     (''torrents'', ''setCategory''), (''torrents'', ''setDownloadLimit''),
     (''torrents'', ''setDownloadPath''), (''torrents'', ''setForceStart''),
     (''torrents'', ''setLocation''), (''torrents'', ''setSavePath''),
     (''torrents'', ''setShareLimits''), (''torrents'', ''setSSLParameters''),
     (''torrents'', ''setSuperSeeding''), (''torrents'', ''setTags''),
     (''torrents'', ''setUploadLimit''), (''transfer'', ''setDownloadLimit''),
     (''transfer'', ''setSpeedLimitsMode''), (''transfer'', ''setUploadLimit''),
     (''torrents'', ''start''), (''torrents'', ''stop''),
     (''torrents'', ''toggleFirstLastPiecePrio''),
     (''torrents'', ''toggleSequentialDownload''), (''transfer'', ''toggleSpeedLimitsMode''),
     (''torrents'', ''topPrio'')]"

definition method_allowed :: "qstring \<Rightarrow> qstring \<Rightarrow> qstring \<Rightarrow> bool" where
  "method_allowed scope action meth \<longleftrightarrow>
     (if (scope, action) \<in> set allowedMethod_post then meth = ''POST'' else meth = ''GET'' \<or> meth = ''POST'')"

fun http_of_api_error :: "api_error \<Rightarrow> http_error" where
  "http_of_api_error (AccessDenied, message) = ForbiddenHTTPError message"
| "http_of_api_error (BadData, message) = UnsupportedMediaTypeHTTPError message"
| "http_of_api_error (BadParams, message) = BadRequestHTTPError message"
| "http_of_api_error (Conflict, message) = ConflictHTTPError message"
| "http_of_api_error (NotFound, message) = NotFoundHTTPError message"

definition print_result :: "('a, 's) web_ext \<Rightarrow> api_result \<Rightarrow> 'a web_run \<Rightarrow> 'a web_run" where
  "print_result ext r w =
     (case ar_data r of
        JsonDocument d \<Rightarrow> print_impl d ''application/json'' w
      | ByteArray d \<Rightarrow>
          (let w1 = print_impl d (if ar_mimeType r \<noteq> [] then ar_mimeType r else content_text) w
           in if ar_filename r \<noteq> []
              then setHeader (''Content-Disposition'', ''attachment; filename=\"'' @ ar_filename r @ ''\"'') w1
              else w1)
      | Text t \<Rightarrow> print_impl (utf8_encode ext t) content_text w)"

definition request_data :: "request \<Rightarrow> (qstring \<rightharpoonup> qbytearray)" where
  "request_data req = fold (\<lambda>f m. m(file_name f \<mapsto> file_data f)) (req_files req) Map.empty"

definition runSessionController ::
  "('a, 's) web_ext \<Rightarrow> qstring \<Rightarrow> qstring \<Rightarrow> qstring \<Rightarrow> 'a web_run \<Rightarrow> (api_error + api_result) \<times> 'a web_run" where
  "runSessionController ext sid scope action w =
     (let app = wr_app w;
          call = \<lparr>call_session = sid, call_scope = scope, call_action = action, call_params = wr_params w,
                  call_data = request_data (wr_request w)\<rparr>
      in (runController ext (wa_calls app) call, w\<lparr>wr_app := app\<lparr>wa_calls := wa_calls app @ [call]\<rparr>\<rparr>))"

text \<open>The API part of \<^verbatim>\<open>doProcessRequest\<close>.\<close>

definition call_api ::
  "('a, 's) web_ext \<Rightarrow> ('a, 's) web_config \<Rightarrow> qstring \<Rightarrow> qstring \<Rightarrow> 'a web_run
     \<Rightarrow> ((http_error + unit) \<times> 'a web_run) option" where
  "call_api ext cfg scope action w =
     (if wr_currentSession w = None \<and> \<not> isPublicAPI scope action then Some (Inl (ForbiddenHTTPError []), w)
      else
        (let own = (case wr_currentSession w of
                      Some sid \<Rightarrow> if scope \<in> set session_scopes then Some sid else None
                    | None \<Rightarrow> None)
         in if own = None \<and> scope \<noteq> ''auth'' then Some (Inl (NotFoundHTTPError []), w)
            else if \<not> method_allowed scope action (req_method (wr_request w))
            then Some (Inl (MethodNotAllowedHTTPError []), w)
            else
              map_option
                (\<lambda>(result, w1). case result of
                    Inl e \<Rightarrow> (Inl (http_of_api_error e), w1)
                  | Inr r \<Rightarrow> (Inr (), print_result ext r w1))
                (case own of
                   Some sid \<Rightarrow> Some (runSessionController ext sid scope action w)
                 | None \<Rightarrow> runAuthController ext cfg action w)))"

section \<open>Files\<close>

definition sendFile :: "('a, 's) web_ext \<Rightarrow> path \<Rightarrow> 'a web_run \<Rightarrow> (http_error + unit) \<times> 'a web_run" where
  "sendFile ext p w =
     (let lastModified = fs_lastModified ext p;
          answer = (\<lambda>data mime w. setHeader (''cache-control'', getCachingInterval mime) (print_impl data mime w));
          fresh =
            (case fs_readFile ext p of
               Inl (ReadNotExist, message) \<Rightarrow> (Inl (NotFoundHTTPError []), w)
             | Inl (_, message) \<Rightarrow> (Inl (InternalServerErrorHTTPError message), w)
             | Inr content \<Rightarrow>
                 (let mime = mimeName ext p content
                  in if mimeIsText ext mime then
                       (let data = translateFile ext p content; app = wr_app w;
                            file = \<lparr>tf_data = data, tf_mimeType = mime, tf_lastModified = lastModified\<rparr>
                        in (Inr (), answer data mime
                              (w\<lparr>wr_app := app\<lparr>wa_translatedFiles := (wa_translatedFiles app)(p \<mapsto> file)\<rparr>\<rparr>)))
                     else (Inr (), answer content mime w)))
      in case wa_translatedFiles (wr_app w) p of
           Some it \<Rightarrow> if lastModified \<le> tf_lastModified it then (Inr (), answer (tf_data it) (tf_mimeType it) w) else fresh
         | None \<Rightarrow> fresh)"

text \<open>\<^verbatim>\<open>QFileInfo::path()\<close>, and the walk up from the file's folder.\<close>

definition fileInfo_path :: "path \<Rightarrow> path" where
  "fileInfo_path p =
     (case last_index_of slash p of None \<Rightarrow> ''.'' | Some i \<Rightarrow> if i = 0 then [slash] else take i p)"

partial_function (option) symlink_free :: "(path \<Rightarrow> bool) \<Rightarrow> path \<Rightarrow> path \<Rightarrow> bool option" where
  "symlink_free isSymLink rootFolder fileInfo =
     (if fileInfo_path fileInfo = rootFolder then Some True
      else if isSymLink fileInfo then Some False
      else symlink_free isSymLink rootFolder (fileInfo_path fileInfo))"

definition webui_path :: "('a, 's) web_ext \<Rightarrow> ('a, 's) web_config \<Rightarrow> bool \<Rightarrow> qstring \<Rightarrow> path" where
  "webui_path ext cfg hasSession p0 =
     (let p = (if p0 \<noteq> ''/'' then p0 else ''/index.html'');
          in_folder = (\<lambda>folder. path_append (qdirClean ext)
             (path_append (qdirClean ext) (cf_rootFolder cfg) (path_of_string (qdirClean ext) folder))
             (path_of_string (qdirClean ext) p));
          localPath = in_folder (if hasSession then ''/private'' else ''/public'')
      in if \<not> fs_exists ext localPath \<and> hasSession then in_folder ''/public'' else localPath)"

definition sendWebUIFile ::
  "('a, 's) web_ext \<Rightarrow> ('a, 's) web_config \<Rightarrow> 'a web_run \<Rightarrow> ((http_error + unit) \<times> 'a web_run) option" where
  "sendWebUIFile ext cfg w =
     (let reqPath = req_path (wr_request w);
          pathItems = skip_empty (split_char slash reqPath);
          localPath = webui_path ext cfg (wr_currentSession w \<noteq> None) reqPath
      in if CHR 0x5C \<in> set reqPath then Some (Inl (BadRequestHTTPError []), w)
         else if ''.'' \<in> set pathItems \<or> ''..'' \<in> set pathItems then Some (Inl (BadRequestHTTPError []), w)
         else if cf_isAltUIUsed cfg then
           (if \<not> fs_isRegularFile ext localPath
            then Some (Inl (InternalServerErrorHTTPError ''Unacceptable file type, only regular file is allowed.''), w)
            else case symlink_free (fs_isSymLink ext) (cf_rootFolder cfg) (parentPath localPath) of
                   None \<Rightarrow> None
                 | Some False \<Rightarrow>
                     Some (Inl (InternalServerErrorHTTPError ''Symlinks inside alternative UI folder are forbidden.''), w)
                 | Some True \<Rightarrow> Some (sendFile ext localPath w))
         else Some (sendFile ext localPath w))"

section \<open>A request\<close>

definition doProcessRequest ::
  "('a, 's) web_ext \<Rightarrow> ('a, 's) web_config \<Rightarrow> 'a web_run \<Rightarrow> ((http_error + unit) \<times> 'a web_run) option" where
  "doProcessRequest ext cfg w =
     (case match_api_path (req_path (wr_request w)) of
        None \<Rightarrow> sendWebUIFile ext cfg w
      | Some (scope, action) \<Rightarrow> call_api ext cfg scope action w)"

definition suspicious :: "('a, 's) web_ext \<Rightarrow> ('a, 's) web_config \<Rightarrow> 'a environment \<Rightarrow> request \<Rightarrow> bool" where
  "suspicious ext cfg env req \<longleftrightarrow>
     cf_isCSRFProtectionEnabled cfg \<and> isCrossSiteRequest ext req
     \<or> cf_isHostHeaderValidationEnabled cfg \<and> \<not> validateHostHeader ext env req (cf_domainList cfg)"

definition request_params :: "('a, 's) web_ext \<Rightarrow> request \<Rightarrow> (qstring \<rightharpoonup> qstring)" where
  "request_params ext req =
     (if req_method req = ''GET'' then (\<lambda>k. map_option (utf8_decode ext) (req_query req k)) else req_posts req)"

fun report_error :: "('a, 's) web_ext \<Rightarrow> http_error + unit \<Rightarrow> 'a web_run \<Rightarrow> 'a web_run" where
  "report_error ext (Inl e) w =
     (case http_error_status e of
        (code, t) \<Rightarrow>
          print_impl (utf8_encode ext (if http_error_message e \<noteq> [] then http_error_message e else t)) content_text
            (set_status code t w))"
| "report_error ext (Inr _) w = w"

definition begin_request ::
  "('a, 's) web_ext \<Rightarrow> ('a, 's) web_config \<Rightarrow> int \<Rightarrow> 'a environment \<Rightarrow> request \<Rightarrow> web_app \<Rightarrow> 'a web_run" where
  "begin_request ext cfg now env req app =
     \<lparr>wr_app = app, wr_now = now, wr_request = req, wr_env = env, wr_params = request_params ext req,
      wr_currentSession = None, wr_clientAddress = resolveClientAddress ext cfg env req,
      wr_response = new_response 200 ''OK'', wr_assertFailed = False\<rparr>"

definition web_processRequest ::
  "('a, 's) web_ext \<Rightarrow> ('a, 's) web_config \<Rightarrow> int \<Rightarrow> 'a environment \<Rightarrow> request \<Rightarrow> web_app \<Rightarrow> 'a web_run option" where
  "web_processRequest ext cfg now env req app =
     (let w = begin_request ext cfg now env req app
      in map_option (\<lambda>(result, w1). fold setHeader (cf_prebuiltHeaders cfg) (report_error ext result w1))
           (if suspicious ext cfg env req then Some (Inl (UnauthorizedHTTPError []), w)
            else case sessionInitialize ext cfg w of
                   None \<Rightarrow> None
                 | Some w1 \<Rightarrow> doProcessRequest ext cfg w1))"

section \<open>Configuration\<close>

record web_prefs =
  wp_altWebUIEnabled :: bool
  wp_webUIRootFolder :: path
  wp_locale :: qstring
  wp_localAuthEnabled :: bool
  wp_authSubnetWhitelistEnabled :: bool
  wp_sessionTimeout :: int
  wp_maxAuthFailCount :: int
  wp_banDuration :: int
  wp_serverDomains :: qstring
  wp_csrfProtectionEnabled :: bool
  wp_secureCookieEnabled :: bool
  wp_hostHeaderValidationEnabled :: bool
  wp_httpsEnabled :: bool
  wp_clickjackingProtectionEnabled :: bool
  wp_customHTTPHeadersEnabled :: bool
  wp_customHTTPHeaders :: qstring
  wp_reverseProxySupportEnabled :: bool
  wp_trustedReverseProxiesList :: qstring

definition contentSecurityPolicy :: "bool \<Rightarrow> bool \<Rightarrow> bool \<Rightarrow> qstring" where
  "contentSecurityPolicy isAltUIUsed clickjacking https =
     (if isAltUIUsed then []
      else ''default-src 'self'; style-src 'self' 'unsafe-inline'; img-src 'self' data:; script-src 'self' 'unsafe-inline'; object-src 'none'; form-action 'self'; frame-src 'self' blob:;'')
     @ (if clickjacking then '' frame-ancestors 'self';'' else [])
     @ (if https then '' upgrade-insecure-requests;'' else [])"

definition customHeaders :: "qstring \<Rightarrow> (qstring \<times> qstring) list" where
  "customHeaders headers =
     concat (map (\<lambda>line. case index_of (CHR '':'') line of
                    None \<Rightarrow> []
                  | Some idx \<Rightarrow> [(trimmed (take idx line), trimmed (drop (idx + 1) line))])
       (skip_empty (split_char (CHR 0x0A) (trimmed headers))))"

definition prebuiltHeaders :: "web_prefs \<Rightarrow> (qstring \<times> qstring) list" where
  "prebuiltHeaders pref =
     (let policy = contentSecurityPolicy (wp_altWebUIEnabled pref) (wp_clickjackingProtectionEnabled pref)
            (wp_httpsEnabled pref)
      in [(''x-xss-protection'', ''1; mode=block''), (''x-content-type-options'', ''nosniff'')]
         @ (if \<not> wp_altWebUIEnabled pref
            then [(''cross-origin-opener-policy'', ''same-origin''), (''referrer-policy'', ''same-origin'')] else [])
         @ (if wp_clickjackingProtectionEnabled pref then [(''x-frame-options'', ''SAMEORIGIN'')] else [])
         @ (if policy \<noteq> [] then [(''content-security-policy'', policy)] else [])
         @ (if wp_customHTTPHeadersEnabled pref then customHeaders (wp_customHTTPHeaders pref) else []))"

definition trustedReverseProxyList :: "('a, 's) web_ext \<Rightarrow> qstring \<Rightarrow> 's list" where
  "trustedReverseProxyList ext proxies =
     concat (map (\<lambda>proxy.
        (let proxy' = (if CHR ''/'' \<in> set proxy then proxy
                       else case parseAddress ext proxy of
                              None \<Rightarrow> proxy
                            | Some a \<Rightarrow> proxy @ (if isIPv4 ext a then ''/32'' else ''/128''))
         in case parseSubnet ext proxy' of None \<Rightarrow> [] | Some subnet \<Rightarrow> [subnet]))
       (skip_empty (split_char (CHR '';'') proxies)))"

text \<open>\<^verbatim>\<open>configure\<close>; the whitelist comes parsed from the preferences.\<close>

definition configure ::
  "('a, 's) web_ext \<Rightarrow> web_prefs \<Rightarrow> 's list \<Rightarrow> ('a, 's) web_config \<Rightarrow> web_app \<Rightarrow> ('a, 's) web_config \<times> web_app" where
  "configure ext pref whitelist cfg app =
     (let rootFolder = (if \<not> wp_altWebUIEnabled pref then path_of_string (qdirClean ext) '':/www''
                        else wp_webUIRootFolder pref);
          changed = (wp_altWebUIEnabled pref \<noteq> cf_isAltUIUsed cfg \<or> rootFolder \<noteq> cf_rootFolder cfg);
          localeChanged = (cf_currentLocale cfg \<noteq> wp_locale pref);
          app1 = (if changed \<or> localeChanged then app\<lparr>wa_translatedFiles := Map.empty\<rparr> else app);
          proxies = (if wp_reverseProxySupportEnabled pref
                     then trustedReverseProxyList ext (wp_trustedReverseProxiesList pref)
                     else cf_trustedReverseProxyList cfg)
      in (cfg\<lparr>cf_isAltUIUsed := wp_altWebUIEnabled pref, cf_rootFolder := rootFolder, cf_currentLocale := wp_locale pref,
              cf_isLocalAuthEnabled := wp_localAuthEnabled pref,
              cf_isAuthSubnetWhitelistEnabled := wp_authSubnetWhitelistEnabled pref,
              cf_authSubnetWhitelist := whitelist, cf_sessionTimeout := wp_sessionTimeout pref,
              cf_maxAuthFailCount := wp_maxAuthFailCount pref, cf_banDuration := wp_banDuration pref,
              cf_domainList := map trimmed (skip_empty (split_char (CHR '';'') (wp_serverDomains pref))),
              cf_isCSRFProtectionEnabled := wp_csrfProtectionEnabled pref,
              cf_isSecureCookieEnabled := wp_secureCookieEnabled pref,
              cf_isHostHeaderValidationEnabled := wp_hostHeaderValidationEnabled pref,
              cf_isHttpsEnabled := wp_httpsEnabled pref, cf_prebuiltHeaders := prebuiltHeaders pref,
              cf_isReverseProxySupportEnabled := (wp_reverseProxySupportEnabled pref \<and> proxies \<noteq> []),
              cf_trustedReverseProxyList := proxies\<rparr>, app1))"

text \<open>
  Reverse proxy support is on only with a proxy to trust; without it the address of the connection
  is the client's, whatever the request says.
\<close>

lemma configure_proxy:
  assumes "configure ext pref whitelist cfg app = (cfg', app')"
  shows "cf_isReverseProxySupportEnabled cfg' \<Longrightarrow> cf_trustedReverseProxyList cfg' \<noteq> []"
    and "\<not> isIPInSubnets ext (env_clientAddress env) (cf_trustedReverseProxyList cfg')
         \<Longrightarrow> resolveClientAddress ext cfg' env req = env_clientAddress env"
  using assms by (auto simp: configure_def Let_def resolveClientAddress_def)

end
