(* ===== verification/Web_Files.thy ===== *)
theory Web_Files
  imports Web_App
begin

text \<open>
  Which files the Web UI serves: the paths of \<^verbatim>\<open>sendWebUIFile\<close> stay in its folders, and
  the search for symbolic links ends. At the end, a concrete Web UI for the witnesses of this theory and the next.
\<close>

section \<open>The files of the Web UI\<close>

text \<open>
  What is relied on of \<^verbatim>\<open>QDir::cleanPath\<close>: without dot components it only removes redundant
  separators.
\<close>

definition path_items :: "qstring \<Rightarrow> qstring list" where
  "path_items p = skip_empty (split_char slash p)"

definition no_dots :: "qstring \<Rightarrow> bool" where
  "no_dots p \<longleftrightarrow> CHR 0x5C \<notin> set p \<and> ''.'' \<notin> set (path_items p) \<and> ''..'' \<notin> set (path_items p)"

definition path_lead :: "qstring \<Rightarrow> qstring" where
  "path_lead p = (if prefix [slash] p then [slash] else [])"

definition cleans :: "(qstring \<Rightarrow> qstring) \<Rightarrow> bool" where
  "cleans clean \<longleftrightarrow> (\<forall>p. no_dots p \<longrightarrow> clean p = path_lead p @ join [slash] (path_items p))"

text \<open>A root folder: absolute or relative, of plain components; and a file in one of its folders.\<close>

definition root_ok :: "path \<Rightarrow> bool" where
  "root_ok r \<longleftrightarrow> path_items r \<noteq> [] \<and> list_all plain_item (path_items r) \<and> r = path_lead r @ join [slash] (path_items r)"

definition in_root :: "path \<Rightarrow> qstring list \<Rightarrow> path" where
  "in_root r items = path_lead r @ join [slash] (path_items r @ items)"

lemma split_char_sep: "split_char c (a @ c # b) = split_char c a @ split_char c b"
  by (induction a) (auto split: list.splits)

lemma path_items_sep [simp]: "path_items (a @ slash # b) = path_items a @ path_items b" "path_items (slash # b) = path_items b"
  "path_items [] = []"
  by (simp_all add: path_items_def split_char_sep skip_empty_def)

lemma items_parts: "i \<in> set (path_items p) \<Longrightarrow> i \<noteq> [] \<and> slash \<notin> set i"
  by (auto simp: path_items_def skip_empty_def dest: split_char_no_sep)

lemma items_join:
  assumes "\<forall>i \<in> set is. i \<noteq> [] \<and> slash \<notin> set i"
  shows "path_items (join [slash] is) = is"
proof (cases "is = []")
  case True
  then show ?thesis by simp
next
  case False
  then have "split_char slash (join [slash] is) = is" using assms by (intro split_char_join) auto
  then show ?thesis using assms by (simp add: path_items_def skip_empty_def filter_id_conv)
qed

lemma items_sub: "i \<in> set (path_items p) \<Longrightarrow> set i \<subseteq> set p"
proof -
  have "i \<in> set (split_char slash p) \<Longrightarrow> set i \<subseteq> set p" for i
  proof (induction p arbitrary: i)
    case Nil
    then show ?case by simp
  next
    case (Cons c p)
    then show ?case by (cases "split_char slash p") (auto split: if_splits, blast+)
  qed
  then show "i \<in> set (path_items p) \<Longrightarrow> ?thesis" by (auto simp: path_items_def skip_empty_def)
qed

lemma lead_append [simp]: "a \<noteq> [] \<Longrightarrow> path_lead (a @ b) = path_lead a"
  by (cases a) (simp_all add: path_lead_def)

lemma lead_items [simp]: "path_items (path_lead r @ p) = path_items p"
  by (simp add: path_lead_def)

lemma lead_idem:
  assumes "\<forall>i \<in> set is. i \<noteq> [] \<and> slash \<notin> set i"
  shows "path_lead (path_lead r @ join [slash] is) = path_lead r"
proof (cases "prefix [slash] r")
  case True
  then show ?thesis by (simp add: path_lead_def)
next
  case False
  have "\<not> prefix [slash] (join [slash] is)"
  proof (cases "is")
    case (Cons x xs)
    then obtain y ys where "x = y # ys" "y \<noteq> slash" using assms by (cases x) auto
    then show ?thesis by (cases xs) (simp_all add: Cons)
  qed simp
  then show ?thesis using False by (simp add: path_lead_def)
qed

lemma path_of_string_clean:
  assumes "cleans clean" and "no_dots p"
  shows "path_of_string clean p = path_lead p @ join [slash] (path_items p)"
proof (cases "slash \<in> set p")
  case True
  then show ?thesis using assms by (auto simp: path_of_string_def cleanPath_def cleans_def list_ex_iff)
next
  case False
  then have "path_items p = (if p = [] then [] else [p])"
    by (simp add: path_items_def split_char_id skip_empty_def)
  moreover have "\<not> list_ex (\<lambda>c. c = slash \<or> c = CHR 0x5C) p"
    using False assms(2) by (auto simp: list_ex_iff no_dots_def)
  moreover have "path_lead p = []" using False by (auto simp: path_lead_def prefix_def)
  ultimately show ?thesis by (simp add: path_of_string_def cleanPath_def)
qed

lemma root_append:
  assumes "cleans clean" and "root_ok r" and "\<forall>i \<in> set is. i \<noteq> [] \<and> slash \<notin> set i"
    and "no_dots (in_root r is)" and "no_dots q"
  shows "path_append clean (in_root r is) (path_of_string clean q) = in_root r (is @ path_items q)"
proof -
  let ?q = "path_lead q @ join [slash] (path_items q)"
  have q: "path_of_string clean q = ?q" by (rule path_of_string_clean [OF assms(1,5)])
  have pq: "\<forall>i \<in> set (path_items q). i \<noteq> [] \<and> slash \<notin> set i" by (auto dest: items_parts)
  have pr: "\<forall>i \<in> set (path_items r @ is). i \<noteq> [] \<and> slash \<notin> set i" using assms(3) by (auto dest: items_parts)
  have iq: "path_items ?q = path_items q" using items_join [OF pq] by simp
  have ir: "path_items (in_root r is) = path_items r @ is" using items_join [OF pr] by (simp add: in_root_def)
  have lr: "path_lead (in_root r is) = path_lead r" using lead_idem [OF pr] by (simp add: in_root_def)
  have ne: "in_root r is \<noteq> []" using ir assms(2) by (auto simp: root_ok_def)
  show ?thesis
  proof (cases "?q = []")
    case True
    then have "path_items q = []" using iq by (metis path_items_sep(3))
    then show ?thesis using True by (simp add: q path_append_def path_isEmpty_def)
  next
    case False
    have "set (join [slash] is') \<subseteq> insert slash (\<Union> (set ` set is'))" for is'
      by (induction "[slash]" is' rule: join.induct) auto
    then have "set ?q \<subseteq> insert slash (set q)"
      using items_sub [of _ q] by (fastforce simp: path_lead_def)
    then have "CHR 0x5C \<notin> set ?q" using assms(5) by (auto simp: no_dots_def)
    then have nd: "no_dots (in_root r is @ slash # ?q)"
      using assms(4,5) by (simp add: no_dots_def iq items_join [OF pq])
    have "path_append clean (in_root r is) (path_of_string clean q) = path_of_string clean (in_root r is @ slash # ?q)"
      unfolding q path_append_def path_isEmpty_def using False ne by (simp only: if_False) simp
    also have "\<dots> = path_lead r @ join [slash] (path_items r @ is @ path_items q)"
      using path_of_string_clean [OF assms(1) nd] ne by (simp add: ir iq lr items_join [OF pq])
    finally show ?thesis by (simp add: in_root_def)
  qed
qed

lemma root_no_dots:
  assumes "root_ok r" and "f \<in> {''public'', ''private''}"
  shows "no_dots (in_root r [])" "no_dots (in_root r [f])"
proof -
  have sub: "set (join [slash] is') \<subseteq> insert slash (\<Union> (set ` set is'))" for is'
    by (induction "[slash]" is' rule: join.induct) auto
  have "no_dots (in_root r is)" if "list_all plain_item is" for "is"
  proof -
    have p: "\<forall>i \<in> set (path_items r @ is). i \<noteq> [] \<and> slash \<notin> set i"
      and b: "\<forall>i \<in> set (path_items r @ is). CHR 0x5C \<notin> set i \<and> i \<noteq> ''.'' \<and> i \<noteq> ''..''"
      using assms(1) that by (auto simp: root_ok_def list_all_iff plain_item_def)
    have "path_items (in_root r is) = path_items r @ is" using items_join [OF p] by (simp add: in_root_def)
    moreover have "CHR 0x5C \<notin> set (in_root r is)"
      using b sub [of "path_items r @ is"] by (auto simp: in_root_def path_lead_def)
    ultimately show ?thesis using b by (auto simp: no_dots_def)
  qed
  then show "no_dots (in_root r [])" "no_dots (in_root r [f])" using assms(2) by (auto simp: plain_item_def)
qed

lemma webui_path_inside:
  assumes "cleans (qdirClean ext)" and "root_ok (cf_rootFolder cfg)" and "no_dots p"
  obtains folder "is" where "webui_path ext cfg hasSession p = in_root (cf_rootFolder cfg) (folder # is)"
    and "folder = ''public'' \<or> folder = ''private'' \<and> hasSession" and "is = path_items (if p \<noteq> ''/'' then p else ''/index.html'')"
proof -
  let ?r = "cf_rootFolder cfg" and ?p = "if p \<noteq> ''/'' then p else ''/index.html''"
  have ip: "path_items ''/index.html'' = [''index.html'']"
    by (simp add: path_items_def skip_empty_def)
  have np: "no_dots ?p" using assms(3) ip by (auto simp: no_dots_def)
  have r: "?r = in_root ?r []" using assms(2) by (simp add: root_ok_def in_root_def)
  have f: "path_append (qdirClean ext) (path_append (qdirClean ext) ?r (path_of_string (qdirClean ext) (slash # folder)))
      (path_of_string (qdirClean ext) ?p) = in_root ?r (folder # path_items ?p)"
    if "folder \<in> {''public'', ''private''}" for folder
  proof -
    have i: "path_items (slash # folder) = [folder]" and n: "no_dots (slash # folder)"
      using that by (auto simp: path_items_def skip_empty_def no_dots_def)
    have "path_append (qdirClean ext) ?r (path_of_string (qdirClean ext) (slash # folder)) = in_root ?r [folder]"
      using root_append [OF assms(1,2), of "[]" "slash # folder"] root_no_dots(1) [OF assms(2) that] n i r by auto
    then show ?thesis
      using root_append [OF assms(1,2), of "[folder]" ?p] root_no_dots(2) [OF assms(2) that] np that by auto
  qed
  show thesis
    by (rule that [of "if hasSession \<and> fs_exists ext (in_root ?r (''private'' # path_items ?p)) then ''private'' else ''public''"
        "path_items ?p"]) (use f [of "''private''"] f [of "''public''"] in \<open>auto simp: webui_path_def Let_def\<close>)
qed

lemma in_root_items:
  assumes "root_ok r" and "\<forall>i \<in> set is. i \<noteq> [] \<and> slash \<notin> set i"
  shows "path_items (in_root r is) = path_items r @ is" and "in_root r is \<noteq> []"
    and "is \<noteq> [] \<Longrightarrow> in_root r is = in_root r (butlast is) @ slash # last is"
proof -
  have p: "\<forall>i \<in> set (path_items r @ is). i \<noteq> [] \<and> slash \<notin> set i" using assms(2) by (auto dest: items_parts)
  show i: "path_items (in_root r is) = path_items r @ is" using items_join [OF p] by (simp add: in_root_def)
  then show "in_root r is \<noteq> []" using assms(1) by (auto simp: root_ok_def)
  assume "is \<noteq> []"
  then have "path_items r @ is = (path_items r @ butlast is) @ [last is]" by simp
  then have "join [slash] (path_items r @ is) = join [slash] ((path_items r @ butlast is) @ [last is])"
    by (rule arg_cong)
  also have "\<dots> = join [slash] (path_items r @ butlast is) @ [slash] @ join [slash] [last is]"
    using assms(1) by (intro join_append) (simp_all add: root_ok_def)
  finally show "in_root r is = in_root r (butlast is) @ slash # last is"
    by (simp add: in_root_def)
qed

lemma walk_ends:
  assumes "root_ok r" and "\<forall>i \<in> set is. i \<noteq> [] \<and> slash \<notin> set i" and "is \<noteq> []"
  shows "\<exists>b. symlink_free isSymLink r (in_root r is) = Some b"
    and "length is = 1 \<Longrightarrow> symlink_free isSymLink r (in_root r is) = Some True"
proof -
  have up: "fileInfo_path (in_root r js) = in_root r (butlast js)"
    if "js \<noteq> []" "\<forall>i \<in> set js. i \<noteq> [] \<and> slash \<notin> set i" for js
  proof -
    have "\<forall>i \<in> set (butlast js). i \<noteq> [] \<and> slash \<notin> set i" using that(2) by (auto dest: in_set_butlastD)
    note b = in_root_items(2) [OF assms(1) this]
    have "slash \<notin> set (last js)" using that by auto
    then show ?thesis using b by (simp add: fileInfo_path_def in_root_items(3) [OF assms(1) that(2,1)])
  qed
  have r: "in_root r [] = r" using assms(1) by (simp add: root_ok_def in_root_def)
  show "length is = 1 \<Longrightarrow> symlink_free isSymLink r (in_root r is) = Some True"
    using up [OF assms(3,2)] by (subst symlink_free.simps) (cases "is", simp_all add: r)
  show "\<exists>b. symlink_free isSymLink r (in_root r is) = Some b"
    using assms(2,3)
  proof (induction "is" rule: rev_induct)
    case Nil
    then show ?case by simp
  next
    case (snoc x xs)
    have u: "fileInfo_path (in_root r (xs @ [x])) = in_root r xs" using up [of "xs @ [x]"] snoc.prems by simp
    show ?case
    proof (cases "xs = []")
      case True
      then show ?thesis using u by (subst symlink_free.simps) (auto simp: r)
    next
      case False
      then obtain b where "symlink_free isSymLink r (in_root r xs) = Some b" using snoc by auto
      then show ?thesis by (subst symlink_free.simps) (auto simp: u)
    qed
  qed
qed

text \<open>
  C34. What the Web UI reads for a path that is not an API call lies in its public folder, or in its private one
  when there is a session; a path with a backslash or a dot component is refused and changes nothing. The
  answer is computed for every path: the walk that looks for symbolic links in an alternative UI ends.
\<close>

theorem web_file_confined:
  assumes "cleans (qdirClean ext)" and "root_ok (cf_rootFolder cfg)"
    and "\<forall>folder \<in> {''public'', ''private''}. \<not> fs_isRegularFile ext (in_root (cf_rootFolder cfg) [folder])"
  shows "\<exists>result w'. sendWebUIFile ext cfg w = Some (result, w')
    \<and> (if no_dots (req_path (wr_request w))
       then \<exists>folder is localPath.
         (folder = ''public'' \<or> folder = ''private'' \<and> wr_currentSession w \<noteq> None)
         \<and> ''.'' \<notin> set is \<and> ''..'' \<notin> set is \<and> (\<forall>i \<in> set is. i \<noteq> [] \<and> slash \<notin> set i)
         \<and> localPath = in_root (cf_rootFolder cfg) (folder # is)
         \<and> ((result, w') = sendFile ext localPath w
            \<or> w' = w \<and> (\<exists>message. result = Inl (InternalServerErrorHTTPError message)))
       else w' = w \<and> result = Inl (BadRequestHTTPError []))"
proof (cases "no_dots (req_path (wr_request w))")
  case False
  then show ?thesis by (auto simp: sendWebUIFile_def Let_def no_dots_def path_items_def)
next
  case True
  let ?p = "req_path (wr_request w)" and ?r = "cf_rootFolder cfg"
  obtain folder "is" where l: "webui_path ext cfg (wr_currentSession w \<noteq> None) ?p = in_root ?r (folder # is)"
    and f: "folder = ''public'' \<or> folder = ''private'' \<and> wr_currentSession w \<noteq> None"
    and iq: "is = path_items (if ?p \<noteq> ''/'' then ?p else ''/index.html'')"
    by (rule webui_path_inside [OF assms(1,2) True])
  have ix: "path_items ''index.html'' = [''index.html'']" by (simp add: path_items_def skip_empty_def)
  have "''.'' \<notin> set (path_items ?p)" "''..'' \<notin> set (path_items ?p)" using True by (simp_all add: no_dots_def)
  then have nd: "''.'' \<notin> set is" "''..'' \<notin> set is" by (simp_all add: iq ix)
  have parts: "\<forall>i \<in> set is. i \<noteq> [] \<and> slash \<notin> set i" using items_parts iq by blast
  have fi: "\<forall>i \<in> set (folder # is). i \<noteq> [] \<and> slash \<notin> set i" using parts f by auto
  have walk: "\<exists>b. symlink_free isSymLink ?r (parentPath (in_root ?r (folder # is))) = Some b" if "is \<noteq> []" for isSymLink
  proof -
    have b: "\<forall>i \<in> set (butlast (folder # is)). i \<noteq> [] \<and> slash \<notin> set i" using fi by (auto dest: in_set_butlastD)
    have "slash \<notin> set (last (folder # is))" using fi by (simp add: that)
    then have "parentPath (in_root ?r (folder # is)) = in_root ?r (butlast (folder # is))"
      using in_root_items(3) [OF assms(2) fi] parent_filename(2) in_root_items(2) [OF assms(2) b] by simp
    then show ?thesis using walk_ends(1) [OF assms(2) b] that by simp
  qed
  have c: "CHR 0x5C \<notin> set ?p" "''.'' \<notin> set (skip_empty (split_char slash ?p))"
    "''..'' \<notin> set (skip_empty (split_char slash ?p))" using True by (simp_all add: no_dots_def path_items_def)
  have nr: "\<not> fs_isRegularFile ext (in_root ?r [folder])" using assms(3) f by auto
  have "\<exists>result w'. sendWebUIFile ext cfg w = Some (result, w')
      \<and> ((result, w') = sendFile ext (in_root ?r (folder # is)) w
         \<or> w' = w \<and> (\<exists>message. result = Inl (InternalServerErrorHTTPError message)))"
  proof (cases "cf_isAltUIUsed cfg \<and> fs_isRegularFile ext (in_root ?r (folder # is))")
    case True
    then have "is \<noteq> []" using nr by auto
    then obtain b where "symlink_free (fs_isSymLink ext) ?r (parentPath (in_root ?r (folder # is))) = Some b"
      using walk by blast
    then show ?thesis using c True l by (cases b) (auto simp: sendWebUIFile_def Let_def prod_eq_iff)
  next
    case False
    then show ?thesis using c l by (auto simp: sendWebUIFile_def Let_def prod_eq_iff)
  qed
  then obtain result w' where s: "sendWebUIFile ext cfg w = Some (result, w')"
    and d: "(result, w') = sendFile ext (in_root ?r (folder # is)) w
         \<or> w' = w \<and> (\<exists>message. result = Inl (InternalServerErrorHTTPError message))" by blast
  show ?thesis unfolding if_P [OF True] using s d f nd parts by blast
qed

text \<open>
  The walk starts at the file's folder and stops below the root: neither the file itself nor the
  public and private folders are looked at, so a symbolic link in these places is served.
\<close>

lemma symlinked_file_served:
  assumes "root_ok (cf_rootFolder cfg)" and "folder \<in> {''public'', ''private''}" and "f \<noteq> []" and "slash \<notin> set f"
  shows "symlink_free isSymLink (cf_rootFolder cfg) (parentPath (in_root (cf_rootFolder cfg) [folder, f])) = Some True"
proof -
  let ?r = "cf_rootFolder cfg"
  have i: "\<forall>i \<in> set [folder, f]. i \<noteq> [] \<and> slash \<notin> set i" "\<forall>i \<in> set [folder]. i \<noteq> [] \<and> slash \<notin> set i"
    using assms by auto
  have "parentPath (in_root ?r [folder, f]) = in_root ?r [folder]"
    using in_root_items(3) [OF assms(1) i(1)] in_root_items(2) [OF assms(1) i(2)] parent_filename(2) assms(4) by simp
  then show ?thesis using walk_ends(2) [OF assms(1) i(2)] by simp
qed

section \<open>A concrete Web UI\<close>

definition ext_ex :: "(nat, nat) web_ext" where
  "ext_ex =
     \<lparr>parseAddress = (\<lambda>_. None), addrToString = (\<lambda>a. if a = 0 then ''127.0.0.1'' else ''10.0.0.9''),
      isLoopback = (\<lambda>a. a = 0), isGlobal = (\<lambda>_. False), isEqualAddress = (\<lambda>a b. b = Some a),
      isIPv4 = (\<lambda>_. True), toIPv6 = (\<lambda>a. a), toIPv4 = Some, isInSubnet = (\<lambda>_ _. False), parseSubnet = (\<lambda>_. None),
      urlHost = (\<lambda>u. u), urlPort = (\<lambda>_. -1), domainMatches = (\<lambda>_ _. False), utf8_decode = (\<lambda>s. s),
      utf8_encode = (\<lambda>s. s), cookieToRawForm = (\<lambda>c. ck_name c @ ''='' @ ck_value c), crypto = crypto_ex,
      qdirClean = (\<lambda>p. path_lead p @ join [slash] (path_items p)), fs_exists = (\<lambda>_. True),
      fs_isRegularFile = (\<lambda>p. p = ''/web/public/a.css''), fs_isSymLink = (\<lambda>_. False),
      fs_readFile = (\<lambda>_. Inr ''body''), fs_lastModified = (\<lambda>_. 0), mimeName = (\<lambda>_ _. ''text/css''),
      mimeIsText = (\<lambda>_. False), translateFile = (\<lambda>_ d. d), runController = (\<lambda>_ _. Inr (text_result ''v5''))\<rparr>"

definition cfg_ex :: "(nat, nat) web_config" where
  "cfg_ex =
     \<lparr>cf_username = ''admin'', cf_passwordHash = pbkdf2_generate crypto_ex ''salt'' ''secret'',
      cf_maxAuthFailCount = 2, cf_banDuration = 3600, cf_isLocalAuthEnabled = True,
      cf_isAuthSubnetWhitelistEnabled = False, cf_authSubnetWhitelist = [], cf_sessionTimeout = 3600,
      cf_sessionCookieName = ''SID'', cf_domainList = [], cf_isCSRFProtectionEnabled = True,
      cf_isSecureCookieEnabled = True, cf_isHostHeaderValidationEnabled = False, cf_isHttpsEnabled = False,
      cf_isReverseProxySupportEnabled = False, cf_trustedReverseProxyList = [],
      cf_prebuiltHeaders = [(''x-content-type-options'', ''nosniff'')], cf_isAltUIUsed = True,
      cf_rootFolder = ''/web'', cf_currentLocale = ''en''\<rparr>"

definition env_ex :: "nat environment" where
  "env_ex = \<lparr>env_localAddress = 0, env_localPort = 8080, env_clientAddress = 9\<rparr>"

definition app_ex :: web_app where
  "app_ex = \<lparr>wa_sessions = Map.empty, wa_failedLogins = Map.empty, wa_random = [''AAAA'', ''BBBB''], wa_calls = [],
             wa_translatedFiles = Map.empty\<rparr>"

definition request_ex :: "qstring \<Rightarrow> qstring \<Rightarrow> qstring \<Rightarrow> (qstring \<times> qstring) list \<Rightarrow> request" where
  "request_ex meth p ck posts =
     \<lparr>req_version = ''1.1'', req_method = meth, req_path = p, req_headers = [(''cookie'', ck)],
      req_query = Map.empty, req_posts = map_of posts, req_files = []\<rparr>"

definition login_ex :: "qstring \<Rightarrow> request" where
  "login_ex user = request_ex ''POST'' ''/api/v2/auth/login'' [] [(''username'', user), (''password'', ''secret'')]"

definition call_ex :: "qstring \<Rightarrow> request" where
  "call_ex ck = request_ex ''GET'' ''/api/v2/app/version'' ck []"

lemma ext_ex_simps:
  "utf8_encode ext_ex s = s" "crypto ext_ex = crypto_ex" "addrToString ext_ex a = (if a = 0 then ''127.0.0.1'' else ''10.0.0.9'')"
  by (simp_all add: ext_ex_def)

lemma cfg_ex_simps:
  "cf_username cfg_ex = ''admin''" "cf_passwordHash cfg_ex = pbkdf2_generate crypto_ex ''salt'' ''secret''"
  "cf_maxAuthFailCount cfg_ex = 2" "cf_banDuration cfg_ex = 3600" "cf_sessionCookieName cfg_ex = ''SID''"
  "cf_sessionTimeout cfg_ex = 3600" "cf_rootFolder cfg_ex = ''/web''"
  by (simp_all add: cfg_ex_def)

lemma cleans_ex: "cleans (qdirClean ext_ex)" "root_ok (cf_rootFolder cfg_ex)"
proof -
  show "cleans (qdirClean ext_ex)" by (simp add: cleans_def ext_ex_def)
  show "root_ok (cf_rootFolder cfg_ex)" by (simp add: cfg_ex_simps) code_simp
qed

theorem web_file_confined_witness:
  "let w = begin_request ext_ex cfg_ex 0 env_ex (request_ex ''GET'' ''/a.css'' [] []) app_ex in
   \<exists>result w'. sendWebUIFile ext_ex cfg_ex w = Some (result, w')
    \<and> (if no_dots (req_path (wr_request w))
       then \<exists>folder is localPath.
         (folder = ''public'' \<or> folder = ''private'' \<and> wr_currentSession w \<noteq> None)
         \<and> ''.'' \<notin> set is \<and> ''..'' \<notin> set is \<and> (\<forall>i \<in> set is. i \<noteq> [] \<and> slash \<notin> set i)
         \<and> localPath = in_root (cf_rootFolder cfg_ex) (folder # is)
         \<and> ((result, w') = sendFile ext_ex localPath w
            \<or> w' = w \<and> (\<exists>message. result = Inl (InternalServerErrorHTTPError message)))
       else w' = w \<and> result = Inl (BadRequestHTTPError []))"
  unfolding Let_def
proof (rule web_file_confined [OF cleans_ex])
  have "in_root ''/web'' [''public''] = ''/web/public''" "in_root ''/web'' [''private''] = ''/web/private''"
    by code_simp+
  then show "\<forall>folder \<in> {''public'', ''private''}. \<not> fs_isRegularFile ext_ex (in_root (cf_rootFolder cfg_ex) [folder])"
    by (simp add: cfg_ex_simps) (simp add: ext_ex_def)
qed

end
