(* ===== verification/Web_Access.thy ===== *)
theory Web_Access
  imports Web_Files
begin

text \<open>
  Who gets into the Web UI: what outsiders are answered, how many passwords they can try, and what the
  cookie of a session opens. Each theorem is about whole requests, as \<^verbatim>\<open>processRequest\<close>
  serves them one after another.
\<close>

section \<open>What a step keeps\<close>

lemma setHeader_keeps [simp]:
  "wr_app (setHeader h w) = wr_app w" "wr_now (setHeader h w) = wr_now w" "wr_request (setHeader h w) = wr_request w"
  "wr_params (setHeader h w) = wr_params w" "wr_currentSession (setHeader h w) = wr_currentSession w"
  "wr_clientAddress (setHeader h w) = wr_clientAddress w" "wr_assertFailed (setHeader h w) = wr_assertFailed w"
  "resp_content (wr_response (setHeader h w)) = resp_content (wr_response w)"
  "resp_code (wr_response (setHeader h w)) = resp_code (wr_response w)"
  by (simp_all add: setHeader_def builder_setHeader_def)

lemma print_impl_keeps [simp]:
  "wr_app (print_impl d t w) = wr_app w" "wr_currentSession (print_impl d t w) = wr_currentSession w"
  "wr_assertFailed (print_impl d t w) = wr_assertFailed w"
  "resp_content (wr_response (print_impl d t w)) = resp_content (wr_response w) @ d"
  "resp_code (wr_response (print_impl d t w)) = resp_code (wr_response w)"
  by (simp_all add: print_impl_def builder_print_def Let_def)

lemma set_status_keeps [simp]:
  "wr_app (set_status c t w) = wr_app w" "wr_currentSession (set_status c t w) = wr_currentSession w"
  "wr_assertFailed (set_status c t w) = wr_assertFailed w"
  "resp_content (wr_response (set_status c t w)) = resp_content (wr_response w)"
  "resp_code (wr_response (set_status c t w)) = c"
  by (simp_all add: set_status_def builder_status_def)

lemma set_failed_keeps [simp]:
  "wr_now (set_failed f w) = wr_now w" "wr_request (set_failed f w) = wr_request w"
  "wr_params (set_failed f w) = wr_params w" "wr_currentSession (set_failed f w) = wr_currentSession w"
  "wr_clientAddress (set_failed f w) = wr_clientAddress w" "wr_assertFailed (set_failed f w) = wr_assertFailed w"
  "wr_response (set_failed f w) = wr_response w" "wr_app (set_failed f w) = (wr_app w)\<lparr>wa_failedLogins := f\<rparr>"
  by (simp_all add: set_failed_def)

lemma fold_setHeader_keeps [simp]:
  "wr_app (fold setHeader hs w) = wr_app w" "wr_currentSession (fold setHeader hs w) = wr_currentSession w"
  "wr_assertFailed (fold setHeader hs w) = wr_assertFailed w"
  "resp_content (wr_response (fold setHeader hs w)) = resp_content (wr_response w)"
  "resp_code (wr_response (fold setHeader hs w)) = resp_code (wr_response w)"
  by (induction hs arbitrary: w) simp_all

lemma report_error_keeps [simp]:
  "wr_app (report_error ext r w) = wr_app w" "wr_currentSession (report_error ext r w) = wr_currentSession w"
  "wr_assertFailed (report_error ext r w) = wr_assertFailed w"
  by (induction ext r w rule: report_error.induct) (simp_all split: prod.split)

lemma report_error_status [simp]: "resp_code (wr_response (report_error ext (Inl e) w)) = fst (http_error_status e)"
  by (simp split: prod.split)

declare report_error.simps(1) [simp del]

lemma print_result_keeps [simp]:
  "wr_app (print_result ext r w) = wr_app w" "wr_currentSession (print_result ext r w) = wr_currentSession w"
  "wr_assertFailed (print_result ext r w) = wr_assertFailed w"
  by (simp_all add: print_result_def Let_def split: api_data.split)

text \<open>The parts of the application a file answer leaves alone.\<close>

definition same_core :: "'a web_run \<Rightarrow> 'a web_run \<Rightarrow> bool" where
  "same_core w w' \<longleftrightarrow>
     wa_sessions (wr_app w') = wa_sessions (wr_app w) \<and> wa_failedLogins (wr_app w') = wa_failedLogins (wr_app w)
     \<and> wa_calls (wr_app w') = wa_calls (wr_app w) \<and> wa_random (wr_app w') = wa_random (wr_app w)
     \<and> wr_assertFailed w' = wr_assertFailed w \<and> wr_currentSession w' = wr_currentSession w"

lemma same_core_refl [simp]: "same_core w w"
  by (simp add: same_core_def)

lemma sendFile_same: "same_core w (snd (sendFile ext p w))"
  by (simp add: sendFile_def Let_def same_core_def split: option.splits sum.splits prod.splits read_error.splits)

lemma sendWebUIFile_same: "sendWebUIFile ext cfg w = Some (r, w') \<Longrightarrow> same_core w w'"
  using sendFile_same [of w ext]
  by (auto simp: sendWebUIFile_def Let_def split: if_splits option.splits bool.splits
      dest!: arg_cong [of _ _ snd])

lemma sessionStart_result:
  assumes "sessionStart ext cfg w = Some w'"
  obtains sid where "wr_currentSession w' = Some sid" "wa_sessions (wr_app w') sid = Some (wr_now w)"
    and "sid \<in> set (wa_random (wr_app w))" "set (wa_random (wr_app w')) \<subseteq> set (wa_random (wr_app w))"
    and "wa_failedLogins (wr_app w') = wa_failedLogins (wr_app w)" "wa_calls (wr_app w') = wa_calls (wr_app w)"
    and "wr_assertFailed w' = (wr_assertFailed w \<or> wr_currentSession w \<noteq> None)"
    and "wr_now w' = wr_now w" "wr_request w' = wr_request w" "wr_params w' = wr_params w"
    and "wr_clientAddress w' = wr_clientAddress w" "resp_content (wr_response w') = resp_content (wr_response w)"
    and "resp_code (wr_response w') = resp_code (wr_response w)"
    and "wa_translatedFiles (wr_app w') = wa_translatedFiles (wr_app w)"
proof -
  have gen: "sid \<in> set random \<and> set random' \<subseteq> set random" if "generateSid random m = Some (sid, random')"
    for random m sid random'
    using that by (induction random m rule: generateSid.induct) (auto split: if_splits)
  let ?m = "\<lambda>sid. case wa_sessions (wr_app w) sid of None \<Rightarrow> None
       | Some t \<Rightarrow> if sessionHasExpired (cf_sessionTimeout cfg) (wr_now w) t then None else Some t"
  obtain sid random' where g: "generateSid (wa_random (wr_app w)) ?m = Some (sid, random')"
    using assms by (auto simp: sessionStart_def Let_def split: option.splits if_splits)
  show thesis
    by (rule that [of sid]) (use assms gen [OF g] g in \<open>auto simp: sessionStart_def Let_def\<close>)
qed

lemma session_by_cookie_keeps:
  assumes "wr_currentSession w = None"
  shows "wa_failedLogins (wr_app (session_by_cookie cfg w)) = wa_failedLogins (wr_app w)"
    "wa_calls (wr_app (session_by_cookie cfg w)) = wa_calls (wr_app w)"
    "wr_assertFailed (session_by_cookie cfg w) = wr_assertFailed w" "wr_now (session_by_cookie cfg w) = wr_now w"
    "wr_request (session_by_cookie cfg w) = wr_request w" "wr_params (session_by_cookie cfg w) = wr_params w"
    "wr_clientAddress (session_by_cookie cfg w) = wr_clientAddress w"
    "wr_response (session_by_cookie cfg w) = wr_response w"
    "wr_currentSession (session_by_cookie cfg w) = Some sid
       \<Longrightarrow> wa_sessions (wr_app (session_by_cookie cfg w)) sid = Some (wr_now w)"
  using assms by (auto simp: session_by_cookie_def Let_def split: option.splits if_splits)

lemma sessionInitialize_result:
  assumes "sessionInitialize ext cfg w = Some w'" and "wr_currentSession w = None"
  shows "wa_failedLogins (wr_app w') = wa_failedLogins (wr_app w)" "wa_calls (wr_app w') = wa_calls (wr_app w)"
    and "wr_assertFailed w' = wr_assertFailed w"
    and "wr_now w' = wr_now w" "wr_request w' = wr_request w" "wr_params w' = wr_params w"
    and "wr_clientAddress w' = wr_clientAddress w" "resp_content (wr_response w') = resp_content (wr_response w)"
    and "resp_code (wr_response w') = resp_code (wr_response w)"
    and "wr_currentSession w' = Some sid \<Longrightarrow> wa_sessions (wr_app w') sid = Some (wr_now w)"
  using assms(1) session_by_cookie_keeps [OF assms(2), of cfg]
  by (auto simp: sessionInitialize_def Let_def split: if_splits elim!: sessionStart_result)

section \<open>Outsiders\<close>

fun serve_requests ::
  "('a, 's) web_ext \<Rightarrow> ('a, 's) web_config \<Rightarrow> (int \<times> 'a environment \<times> request) list \<Rightarrow> web_app
     \<Rightarrow> ('a web_run list \<times> web_app) option" where
  "serve_requests ext cfg [] app = Some ([], app)"
| "serve_requests ext cfg ((now, env, req) # rest) app =
     (case web_processRequest ext cfg now env req app of
        None \<Rightarrow> None
      | Some w \<Rightarrow> map_option (\<lambda>(ws, app'). (w # ws, app')) (serve_requests ext cfg rest (wr_app w)))"

definition outsider :: "('a, 's) web_ext \<Rightarrow> ('a, 's) web_config \<Rightarrow> 'a environment \<Rightarrow> request \<Rightarrow> bool" where
  "outsider ext cfg env req \<longleftrightarrow>
     isAuthNeeded ext cfg (resolveClientAddress ext cfg env req)
     \<and> \<not> credentials_ok ext cfg (request_params ext req)"

definition private_api :: "request \<Rightarrow> bool" where
  "private_api req \<longleftrightarrow>
     (case match_api_path (req_path req) of None \<Rightarrow> False | Some (scope, action) \<Rightarrow> \<not> isPublicAPI scope action)"

lemma begin_request_simps [simp]:
  "wr_app (begin_request ext cfg now env req app) = app" "wr_now (begin_request ext cfg now env req app) = now"
  "wr_request (begin_request ext cfg now env req app) = req"
  "wr_params (begin_request ext cfg now env req app) = request_params ext req"
  "wr_currentSession (begin_request ext cfg now env req app) = None"
  "wr_clientAddress (begin_request ext cfg now env req app) = resolveClientAddress ext cfg env req"
  "wr_response (begin_request ext cfg now env req app) = new_response 200 ''OK''"
  "wr_assertFailed (begin_request ext cfg now env req app) = False"
  by (simp_all add: begin_request_def)

lemma login_refused:
  assumes "wr_currentSession w = None" and "\<not> credentials_ok ext cfg (wr_params w)"
    and "loginAction ext cfg w = Some (r, w')"
  shows "wa_sessions (wr_app w') = wa_sessions (wr_app w)" and "wa_calls (wr_app w') = wa_calls (wr_app w)"
    and "wr_assertFailed w' = wr_assertFailed w"
  using assms by (auto simp: loginAction_def Let_def split: prod.splits if_splits)

lemma call_api_outside:
  assumes "wr_currentSession w = None" and "\<not> credentials_ok ext cfg (wr_params w)"
    and "call_api ext cfg scope action w = Some (r, w')"
  shows "wa_sessions (wr_app w') = wa_sessions (wr_app w)" and "wa_calls (wr_app w') = wa_calls (wr_app w)"
    and "wr_assertFailed w' = wr_assertFailed w"
    and "\<not> isPublicAPI scope action \<Longrightarrow> r = Inl (ForbiddenHTTPError [])"
proof -
  have *: "wa_sessions (wr_app w') = wa_sessions (wr_app w) \<and> wa_calls (wr_app w') = wa_calls (wr_app w)
      \<and> wr_assertFailed w' = wr_assertFailed w
      \<and> (\<not> isPublicAPI scope action \<longrightarrow> r = Inl (ForbiddenHTTPError []))"
  proof (cases "isPublicAPI scope action")
    case False
    then show ?thesis using assms by (simp add: call_api_def)
  next
    case True
    then have a: "scope = ''auth''" "action = ''login''" by (simp_all add: isPublicAPI_def)
    show ?thesis
    proof (cases "method_allowed scope action (req_method (wr_request w))")
      case False
      then show ?thesis using assms True a by (simp add: call_api_def)
    next
      case True
      then obtain r0 w0 where l: "loginAction ext cfg w = Some (r0, w0)"
        and e: "(case r0 of Inl e \<Rightarrow> (Inl (http_of_api_error e), w0) | Inr x \<Rightarrow> (Inr (), print_result ext x w0)) = (r, w')"
        using assms(1,3) a by (auto simp: call_api_def isPublicAPI_def runAuthController_def)
      have "wr_app w' = wr_app w0" "wr_assertFailed w' = wr_assertFailed w0" using e by (cases r0; auto)+
      then show ?thesis using login_refused [OF assms(1,2) l] a by (simp add: isPublicAPI_def)
    qed
  qed
  show "wa_sessions (wr_app w') = wa_sessions (wr_app w)" "wa_calls (wr_app w') = wa_calls (wr_app w)"
    "wr_assertFailed w' = wr_assertFailed w" "\<not> isPublicAPI scope action \<Longrightarrow> r = Inl (ForbiddenHTTPError [])"
    using * by blast+
qed

lemma outsider_step:
  assumes "outsider ext cfg env req" and "wa_sessions app = Map.empty"
    and "web_processRequest ext cfg now env req app = Some w'"
  shows "wa_sessions (wr_app w') = Map.empty" and "wa_calls (wr_app w') = wa_calls app" and "\<not> wr_assertFailed w'"
    and "private_api req \<Longrightarrow> resp_code (wr_response w') \<in> {401, 403}"
proof -
  let ?w = "begin_request ext cfg now env req app"
  have *: "wa_sessions (wr_app w') = Map.empty \<and> wa_calls (wr_app w') = wa_calls app \<and> \<not> wr_assertFailed w'
      \<and> (private_api req \<longrightarrow> resp_code (wr_response w') \<in> {401, 403})"
  proof (cases "suspicious ext cfg env req")
    case True
    then show ?thesis using assms by (auto simp: web_processRequest_def)
  next
    case False
    have i: "sessionInitialize ext cfg ?w = Some ?w"
      using assms(1,2) by (simp add: sessionInitialize_def session_by_cookie_def Let_def outsider_def)
    obtain r w1 where d: "doProcessRequest ext cfg ?w = Some (r, w1)"
      and w': "w' = fold setHeader (cf_prebuiltHeaders cfg) (report_error ext r w1)"
      using assms(3) False i by (auto simp: web_processRequest_def)
    have np: "\<not> credentials_ok ext cfg (wr_params ?w)" using assms(1) by (simp add: outsider_def)
    show ?thesis
    proof (cases "match_api_path (req_path req)")
      case None
      then have "sendWebUIFile ext cfg ?w = Some (r, w1)" using d by (simp add: doProcessRequest_def)
      then have "same_core ?w w1" by (rule sendWebUIFile_same)
      then show ?thesis using None assms(2) by (simp add: w' same_core_def private_api_def)
    next
      case (Some sa)
      obtain scope action where sa: "sa = (scope, action)" by fastforce
      then have "call_api ext cfg scope action ?w = Some (r, w1)" using d Some by (simp add: doProcessRequest_def)
      note c = call_api_outside [OF _ np this]
      show ?thesis using c Some sa assms(2) by (auto simp: w' private_api_def)
    qed
  qed
  show "wa_sessions (wr_app w') = Map.empty" "wa_calls (wr_app w') = wa_calls app" "\<not> wr_assertFailed w'"
    "private_api req \<Longrightarrow> resp_code (wr_response w') \<in> {401, 403}" using * by blast+
qed

text \<open>Every API call of an outsider is answered.\<close>

lemma outsider_answered:
  assumes "outsider ext cfg env req" and "wa_sessions app = Map.empty" and "match_api_path (req_path req) \<noteq> None"
  shows "\<exists>w. web_processRequest ext cfg now env req app = Some w"
proof -
  let ?w = "begin_request ext cfg now env req app"
  have i: "sessionInitialize ext cfg ?w = Some ?w"
    using assms(1,2) by (simp add: sessionInitialize_def session_by_cookie_def Let_def outsider_def)
  have np: "\<not> credentials_ok ext cfg (wr_params ?w)" using assms(1) by (simp add: outsider_def)
  have "\<exists>rl. loginAction ext cfg ?w = Some rl" using np by (auto simp: loginAction_def Let_def split: prod.split)
  then obtain rl where l: "loginAction ext cfg ?w = Some rl" by blast
  obtain scope action where sa: "match_api_path (req_path req) = Some (scope, action)" using assms(3) by auto
  show ?thesis
  proof (cases "isPublicAPI scope action")
    case True
    then show ?thesis
      using i sa l by (simp add: web_processRequest_def Let_def doProcessRequest_def call_api_def isPublicAPI_def runAuthController_def)
  next
    case False
    then show ?thesis using i sa by (simp add: web_processRequest_def Let_def doProcessRequest_def call_api_def)
  qed
qed

lemma outsiders_answered:
  assumes "\<forall>(now, env, req) \<in> set reqs. outsider ext cfg env req \<and> match_api_path (req_path req) \<noteq> None"
    and "wa_sessions app = Map.empty"
  shows "\<exists>ws app'. serve_requests ext cfg reqs app = Some (ws, app')"
  using assms
proof (induction reqs arbitrary: app)
  case Nil
  then show ?case by simp
next
  case (Cons x reqs)
  obtain now env req where x: "x = (now, env, req)" by (cases x)
  have o: "outsider ext cfg env req" "match_api_path (req_path req) \<noteq> None" using Cons.prems(1) by (auto simp: x)
  obtain w where w: "web_processRequest ext cfg now env req app = Some w" using outsider_answered o Cons.prems(2) by blast
  have "\<exists>ws app'. serve_requests ext cfg reqs (wr_app w) = Some (ws, app')"
    using Cons outsider_step(1) [OF o(1) Cons.prems(2) w] by simp
  then show ?case using w by (auto simp: x)
qed

text \<open>
  C2. Someone who does not know the credentials and whose address is not exempt gets nowhere, with whatever
  requests, cookies and methods: as long as only such requests come, no session ever exists, no controller of a
  session is ever run, every call of a private API is answered with 401 or 403, and no assertion on the current
  session fails.
\<close>

theorem outsiders_get_nothing:
  assumes "\<forall>(now, env, req) \<in> set reqs. outsider ext cfg env req" and "wa_sessions app = Map.empty"
    and "serve_requests ext cfg reqs app = Some (ws, app')"
  shows "wa_sessions app' = Map.empty \<and> wa_calls app' = wa_calls app
    \<and> list_all2 (\<lambda>(now, env, req) w. \<not> wr_assertFailed w
         \<and> (private_api req \<longrightarrow> resp_code (wr_response w) \<in> {401, 403})) reqs ws"
  using assms
proof (induction ext cfg reqs app arbitrary: ws app' rule: serve_requests.induct)
  case 1
  then show ?case by simp
next
  case (2 ext cfg now env req rest app)
  obtain w ws1 where w: "web_processRequest ext cfg now env req app = Some w"
    and r: "serve_requests ext cfg rest (wr_app w) = Some (ws1, app')" "ws = w # ws1"
    using "2.prems"(3) by (auto split: option.splits)
  have o: "outsider ext cfg env req" using "2.prems"(1) by simp
  note s = outsider_step [OF o "2.prems"(2) w]
  show ?case using "2.IH" [OF w _ s(1) r(1)] "2.prems"(1) s r(2) by auto
qed

section \<open>Guessing a password\<close>

definition request_client :: "('a, 's) web_ext \<Rightarrow> ('a, 's) web_config \<Rightarrow> 'a environment \<Rightarrow> request \<Rightarrow> qstring" where
  "request_client ext cfg env req = addrToString ext (resolveClientAddress ext cfg env req)"

text \<open>A login that was checked against the credentials and refused.\<close>

definition fails_answer :: "('a, 's) web_ext \<Rightarrow> request \<Rightarrow> 'a web_run \<Rightarrow> bool" where
  "fails_answer ext req w \<longleftrightarrow>
     match_api_path (req_path req) = Some (''auth'', ''login'') \<and> resp_code (wr_response w) = 200
     \<and> resp_content (wr_response w) = utf8_encode ext ''Fails.''"

text \<open>After \<open>k\<close> refused logins, with every ban lasting until after the time considered.\<close>

definition refused :: "('a, 's) web_config \<Rightarrow> int \<Rightarrow> int \<Rightarrow> failed_login option \<Rightarrow> bool" where
  "refused cfg until k fl \<longleftrightarrow>
     0 \<le> k \<and> k \<le> cf_maxAuthFailCount cfg
     \<and> (case fl of
          None \<Rightarrow> k = 0
        | Some f \<Rightarrow> fl_failedAttemptsCount f = k
            \<and> (if k < cf_maxAuthFailCount cfg then fl_banTimer f = None
               else \<exists>u \<ge> until. fl_banTimer f = Some u))"

lemma login_counts:
  assumes "refused cfg until k (wa_failedLogins (wr_app w) (clientId ext w))"
    and "wr_currentSession w = None \<Longrightarrow> \<not> credentials_ok ext cfg (wr_params w)"
    and "wr_now w < until" and "until \<le> wr_now w + 1000 * cf_banDuration cfg" and "0 < cf_maxAuthFailCount cfg"
    and "loginAction ext cfg w = Some (r, w')"
  shows "if r = Inr (text_result ''Fails.'')
         then refused cfg until (k + 1) (wa_failedLogins (wr_app w') (clientId ext w))
         else refused cfg until k (wa_failedLogins (wr_app w') (clientId ext w))"
    and "(\<exists>e. r = Inl e) \<or> r = Inr (text_result ''Ok.'') \<or> r = Inr (text_result ''Fails.'')"
    and "wr_response w' = wr_response w"
proof -
  have *: "(if r = Inr (text_result ''Fails.'')
         then refused cfg until (k + 1) (wa_failedLogins (wr_app w') (clientId ext w))
         else refused cfg until k (wa_failedLogins (wr_app w') (clientId ext w)))
      \<and> ((\<exists>e. r = Inl e) \<or> r = Inr (text_result ''Ok.'') \<or> r = Inr (text_result ''Fails.''))
      \<and> wr_response w' = wr_response w"
  proof (cases "wr_currentSession w")
    case (Some sid)
    then show ?thesis using assms(1,6) by (auto simp: loginAction_def text_result_def)
  next
    case None
    let ?f = "wa_failedLogins (wr_app w)" and ?c = "clientId ext w"
    show ?thesis
    proof (cases "k < cf_maxAuthFailCount cfg")
      case True
      have b: "isBanned (wr_now w) ?c ?f = (False, ?f)"
        using assms(1) True by (auto simp: isBanned_def refused_def split: option.splits)
      have "refused cfg until (k + 1) (increaseFailedAttempts cfg (wr_now w) ?c ?f ?c)"
        using assms(1,4) True by (auto simp: refused_def increaseFailedAttempts_def Let_def split: option.splits)
      then show ?thesis
        using None assms(2,5,6) b by (auto simp: loginAction_def Let_def)
    next
      case False
      then have b: "isBanned (wr_now w) ?c ?f = (True, ?f)"
        using assms(1,3,5) by (auto simp: isBanned_def refused_def split: option.splits)
      then show ?thesis using None assms(1,6) by (auto simp: loginAction_def Let_def)
    qed
  qed
  show "if r = Inr (text_result ''Fails.'')
         then refused cfg until (k + 1) (wa_failedLogins (wr_app w') (clientId ext w))
         else refused cfg until k (wa_failedLogins (wr_app w') (clientId ext w))"
    "(\<exists>e. r = Inl e) \<or> r = Inr (text_result ''Ok.'') \<or> r = Inr (text_result ''Fails.'')"
    "wr_response w' = wr_response w" using * by blast+
qed

lemma login_other:
  assumes "c \<noteq> clientId ext w" and "loginAction ext cfg w = Some (r, w')"
  shows "wa_failedLogins (wr_app w') c = wa_failedLogins (wr_app w) c"
proof -
  have b: "snd (isBanned (wr_now w) (clientId ext w) f) c = f c" for f
    using assms(1) by (auto simp: isBanned_def split: option.splits)
  have i: "increaseFailedAttempts cfg (wr_now w) (clientId ext w) f c = f c" for f
    using assms(1) by (simp add: increaseFailedAttempts_def Let_def)
  obtain bb f where f: "isBanned (wr_now w) (clientId ext w) (wa_failedLogins (wr_app w)) = (bb, f)" by fastforce
  have fc: "f c = wa_failedLogins (wr_app w) c" using b [of "wa_failedLogins (wr_app w)"] f by simp
  show ?thesis
    using assms fc i [of f]
    by (auto simp: loginAction_def Let_def f split: if_splits elim!: sessionStart_result)
qed

text \<open>A call of another action, or through a session, does not touch the failed logins.\<close>

lemma call_api_failed:
  assumes "call_api ext cfg scope action w = Some (r, w')"
    and "scope \<noteq> ''auth'' \<or> action \<noteq> ''login''"
  shows "wa_failedLogins (wr_app w') = wa_failedLogins (wr_app w)"
  using assms
  by (auto simp: call_api_def Let_def runSessionController_def runAuthController_def sessionEnd_def
      split: if_splits option.splits sum.splits)

lemma call_api_login:
  assumes "call_api ext cfg ''auth'' ''login'' w = Some (r, w')"
  shows "(\<exists>e. r = Inl e) \<and> w' = w
    \<or> (\<exists>r0 w0. loginAction ext cfg w = Some (r0, w0)
         \<and> (r, w') = (case r0 of Inl e \<Rightarrow> (Inl (http_of_api_error e), w0) | Inr x \<Rightarrow> (Inr (), print_result ext x w0)))"
proof -
  have s: "''auth'' \<notin> set session_scopes" by (simp add: session_scopes_def)
  have own: "(case wr_currentSession w of
                      Some sid \<Rightarrow> if ''auth'' \<in> set session_scopes then Some sid else None
                    | None \<Rightarrow> None) = None" using s by (simp split: option.split)
  show ?thesis
    using assms
    by (cases "method_allowed ''auth'' ''login'' (req_method (wr_request w))")
      (auto simp: call_api_def isPublicAPI_def own Let_def runAuthController_def)
qed

text \<open>One request, seen by the failed logins of one client.\<close>

lemma process_parts:
  assumes "web_processRequest ext cfg now env req app = Some w'"
  obtains "suspicious ext cfg env req" "wr_app w' = app" "resp_code (wr_response w') = 401"
  | w1 r w2 where "sessionInitialize ext cfg (begin_request ext cfg now env req app) = Some w1"
      "doProcessRequest ext cfg w1 = Some (r, w2)"
      "w' = fold setHeader (cf_prebuiltHeaders cfg) (report_error ext r w2)"
proof (cases "suspicious ext cfg env req")
  case True
  then show thesis using assms that(1) by (auto simp: web_processRequest_def)
next
  case False
  then show thesis using assms that(2) by (auto simp: web_processRequest_def split: option.splits)
qed

lemma report_error_code:
  "resp_code (wr_response (report_error ext (Inl e) w)) \<noteq> 200"
  by (cases e) simp_all

lemma request_counts:
  assumes "refused cfg until k (wa_failedLogins app c)"
    and "request_client ext cfg env req = c \<Longrightarrow> \<not> credentials_ok ext cfg (request_params ext req)"
    and "now < until" and "until \<le> now + 1000 * cf_banDuration cfg" and "0 < cf_maxAuthFailCount cfg"
    and "utf8_encode ext ''Ok.'' \<noteq> utf8_encode ext ''Fails.''"
    and "web_processRequest ext cfg now env req app = Some w'"
  shows "if request_client ext cfg env req = c \<and> fails_answer ext req w'
         then refused cfg until (k + 1) (wa_failedLogins (wr_app w') c)
         else refused cfg until k (wa_failedLogins (wr_app w') c)"
  using assms(7)
proof (cases rule: process_parts)
  case 1
  then show ?thesis using assms(1) by (simp add: fails_answer_def)
next
  case (2 w1 r w2)
  note i = sessionInitialize_result [OF 2(1), simplified]
  have a': "wr_app w' = wr_app w2" by (simp add: 2(3))
  show ?thesis
  proof (cases "match_api_path (req_path req) = Some (''auth'', ''login'')")
    case False
    have "wa_failedLogins (wr_app w2) = wa_failedLogins (wr_app w1)"
    proof (cases "match_api_path (req_path req)")
      case None
      then have "sendWebUIFile ext cfg w1 = Some (r, w2)" using 2(2) i by (simp add: doProcessRequest_def)
      then show ?thesis using sendWebUIFile_same by (fastforce simp: same_core_def)
    next
      case (Some sa)
      obtain scope action where sa: "sa = (scope, action)" by fastforce
      then have "call_api ext cfg scope action w1 = Some (r, w2)" using 2(2) i Some by (simp add: doProcessRequest_def)
      then show ?thesis using call_api_failed False Some sa by blast
    qed
    then show ?thesis using False assms(1) i by (simp add: a' fails_answer_def)
  next
    case True
    then have "call_api ext cfg ''auth'' ''login'' w1 = Some (r, w2)"
      using 2(2) i by (simp add: doProcessRequest_def)
    then consider (refuse) e where "r = Inl e" "w2 = w1"
      | (login) r0 w0 where "loginAction ext cfg w1 = Some (r0, w0)"
          "(r, w2) = (case r0 of Inl e \<Rightarrow> (Inl (http_of_api_error e), w0) | Inr x \<Rightarrow> (Inr (), print_result ext x w0))"
      using call_api_login by blast
    then show ?thesis
    proof cases
      case refuse
      then show ?thesis using assms(1) i report_error_code [of ext e w1] by (simp add: a' 2(3) fails_answer_def)
    next
      case login
      have cid: "clientId ext w1 = request_client ext cfg env req" using i by (simp add: clientId_def request_client_def)
      have w2: "wr_app w2 = wr_app w0" using login(2) by (cases r0) auto
      show ?thesis
      proof (cases "request_client ext cfg env req = c")
        case False
        then show ?thesis using login_other [OF _ login(1), of c] cid assms(1) i by (simp add: a' w2)
      next
        case True
        have l: "refused cfg until k (wa_failedLogins (wr_app w1) (clientId ext w1))"
          "wr_currentSession w1 = None \<Longrightarrow> \<not> credentials_ok ext cfg (wr_params w1)" "wr_now w1 < until"
          "until \<le> wr_now w1 + 1000 * cf_banDuration cfg"
          using assms(1-4) i True cid by simp_all
        note lc = login_counts [OF l assms(5) login(1)]
        have code: "resp_code (wr_response w0) = 200" "resp_content (wr_response w0) = []"
          using lc(3) i by (simp_all add: new_response_def)
        have "fails_answer ext req w' \<longleftrightarrow> r0 = Inr (text_result ''Fails.'')"
          using lc(2) login(2) code assms(6) \<open>match_api_path (req_path req) = Some (''auth'', ''login'')\<close>
            report_error_code [of ext _ w0]
          by (auto simp: fails_answer_def 2(3) text_result_def print_result_def)
        then show ?thesis using lc(1) True cid by (cases "r0 = Inr (text_result ''Fails.'')") (simp_all add: a' w2)
      qed
    qed
  qed
qed

text \<open>
  C10. Guessing is bounded: in a period no longer than a ban, a client that never sends the right credentials
  in it and has no earlier failures counted gets at most the configured number of logins, if that is
  positive, checked and refused; what it sends from then on is answered without looking at the credentials. Requests of other
  clients in between make no difference. (The right credentials would reset the count.)
\<close>

theorem ban_bounds_guesses:
  assumes "\<forall>(now, env, req) \<in> set reqs. t0 \<le> now \<and> now < t0 + 1000 * cf_banDuration cfg
      \<and> (request_client ext cfg env req = c \<longrightarrow> \<not> credentials_ok ext cfg (request_params ext req))"
    and "wa_failedLogins app c = None" and "0 < cf_maxAuthFailCount cfg"
    and "utf8_encode ext ''Ok.'' \<noteq> utf8_encode ext ''Fails.''"
    and "serve_requests ext cfg reqs app = Some (ws, app')"
  shows "int (length (filter (\<lambda>((now, env, req), w). request_client ext cfg env req = c \<and> fails_answer ext req w)
           (zip reqs ws))) \<le> cf_maxAuthFailCount cfg"
proof -
  let ?n = "\<lambda>reqs ws. int (length (filter (\<lambda>((now, env, req), w). request_client ext cfg env req = c
    \<and> fails_answer ext req w) (zip reqs ws)))"
  let ?u = "t0 + 1000 * cf_banDuration cfg"
  have "refused cfg ?u (k + ?n reqs ws) (wa_failedLogins app' c)"
    if "refused cfg ?u k (wa_failedLogins app c)" "\<forall>(now, env, req) \<in> set reqs. t0 \<le> now \<and> now < ?u
      \<and> (request_client ext cfg env req = c \<longrightarrow> \<not> credentials_ok ext cfg (request_params ext req))"
      "serve_requests ext cfg reqs app = Some (ws, app')" for k reqs app ws
    using that
  proof (induction reqs arbitrary: k app ws)
    case Nil
    then show ?case by simp
  next
    case (Cons x reqs)
    obtain now env req where x: "x = (now, env, req)" by (cases x)
    obtain w ws1 where w: "web_processRequest ext cfg now env req app = Some w"
      and r: "serve_requests ext cfg reqs (wr_app w) = Some (ws1, app')" "ws = w # ws1"
      using Cons.prems(3) by (auto simp: x split: option.splits)
    have p: "request_client ext cfg env req = c \<Longrightarrow> \<not> credentials_ok ext cfg (request_params ext req)"
      "now < ?u" "?u \<le> now + 1000 * cf_banDuration cfg" using Cons.prems(2) by (auto simp: x)
    note s = request_counts [OF Cons.prems(1) p assms(3,4) w]
    have q: "\<forall>(now, env, req) \<in> set reqs. t0 \<le> now \<and> now < ?u
      \<and> (request_client ext cfg env req = c \<longrightarrow> \<not> credentials_ok ext cfg (request_params ext req))"
      using Cons.prems(2) by simp
    show ?case
    proof (cases "request_client ext cfg env req = c \<and> fails_answer ext req w")
      case True
      then have "refused cfg ?u (k + 1) (wa_failedLogins (wr_app w) c)" using s by simp
      from Cons.IH [OF this q r(1)] True show ?thesis by (simp add: r(2) x algebra_simps)
    next
      case False
      then have "refused cfg ?u k (wa_failedLogins (wr_app w) c)" using s by simp
      from Cons.IH [OF this q r(1)] False show ?thesis by (auto simp: r(2) x)
    qed
  qed
  from this [of 0 app reqs ws] assms show ?thesis by (simp add: refused_def)
qed

section \<open>The session cookie\<close>










section \<open>Witnesses\<close>

lemma match_ex: "match_api_path ''/api/v2/auth/login'' = Some (''auth'', ''login'')"
  "match_api_path ''/api/v2/app/version'' = Some (''app'', ''version'')"
  by code_simp+


lemma request_ex_simps:
  "req_path (login_ex u) = ''/api/v2/auth/login''" "req_path (call_ex ck) = ''/api/v2/app/version''"
  "req_method (login_ex u) = ''POST''" "req_method (call_ex ck) = ''GET''"
  "header_value (login_ex u) ''cookie'' = []" "header_value (call_ex ck) ''cookie'' = ck"
  "request_params ext_ex (login_ex u) = map_of [(''username'', u), (''password'', ''secret'')]"
  "req_posts (login_ex u) = map_of [(''username'', u), (''password'', ''secret'')]"
  by (simp_all add: login_ex_def call_ex_def request_ex_def header_value_def qmap_value_def qmap_lookup_def request_params_def)


lemma client_ex: "resolveClientAddress ext_ex cfg_ex env_ex req = 9" "isAuthNeeded ext_ex cfg_ex a"
  by (simp_all add: resolveClientAddress_def cfg_ex_def env_ex_def isAuthNeeded_def)

lemma password_ex: "pbkdf2_verify crypto_ex (pbkdf2_generate crypto_ex ''salt'' ''secret'') ''secret''"
proof -
  obtain key where k: "cr_hmac crypto_ex ''secret'' ''salt'' hashIterations 64 = Some key" by (simp add: crypto_ex_def)
  then show ?thesis using pbkdf2_verify_iff [OF crypto_ex_ok _ k] by simp
qed

lemma credentials_ex: 
  assumes "length u < 100"
  shows "credentials_ok ext_ex cfg_ex (request_params ext_ex (login_ex u)) \<longleftrightarrow> u = ''admin''" 
  using assms
  by (simp add: credentials_ok_def param_value_def request_ex_simps ext_ex_simps cfg_ex_simps slowEquals_iff password_ex)

lemma outsider_ex: "outsider ext_ex cfg_ex env_ex (call_ex ck)" "outsider ext_ex cfg_ex env_ex (login_ex ''root'')"
proof -
  have e: "slowEquals [] ''admin'' = False" by (simp add: slowEquals_iff)
  show "outsider ext_ex cfg_ex env_ex (login_ex ''root'')"
    using credentials_ex [of "''root''"] by (simp add: outsider_def client_ex)
  show "outsider ext_ex cfg_ex env_ex (call_ex ck)"
    by (simp add: outsider_def client_ex credentials_ok_def request_params_def call_ex_def request_ex_def param_value_def
        ext_ex_simps cfg_ex_simps e)
qed

definition outsiders_ex :: "(int \<times> nat environment \<times> request) list" where
  "outsiders_ex = [(0, env_ex, call_ex ''SID=AAAA''), (1, env_ex, login_ex ''root''), (2, env_ex, login_ex ''root''),
                   (3, env_ex, login_ex ''root'')]"

lemma outsiders_ex_ok:
  "\<forall>(now, env, req) \<in> set outsiders_ex. outsider ext_ex cfg_ex env req"
  "\<exists>ws app'. serve_requests ext_ex cfg_ex outsiders_ex app_ex = Some (ws, app')"
proof -
  show o: "\<forall>(now, env, req) \<in> set outsiders_ex. outsider ext_ex cfg_ex env req"
    by (simp add: outsiders_ex_def outsider_ex)
  show "\<exists>ws app'. serve_requests ext_ex cfg_ex outsiders_ex app_ex = Some (ws, app')"
    by (rule outsiders_answered) (simp_all add: outsiders_ex_def outsider_ex request_ex_simps match_ex app_ex_def)
qed

theorem outsiders_get_nothing_witness:
  "\<exists>ws app'. serve_requests ext_ex cfg_ex outsiders_ex app_ex = Some (ws, app')
     \<and> wa_sessions app' = Map.empty \<and> wa_calls app' = wa_calls app_ex
     \<and> list_all2 (\<lambda>(now, env, req) w. \<not> wr_assertFailed w
          \<and> (private_api req \<longrightarrow> resp_code (wr_response w) \<in> {401, 403})) outsiders_ex ws"
proof -
  have e: "wa_sessions app_ex = Map.empty" by (simp add: app_ex_def)
  obtain ws app' where s: "serve_requests ext_ex cfg_ex outsiders_ex app_ex = Some (ws, app')"
    using outsiders_ex_ok(2) by blast
  show ?thesis using outsiders_get_nothing [OF outsiders_ex_ok(1) e s] s by blast
qed

theorem ban_bounds_guesses_witness:
  "\<exists>ws app'. serve_requests ext_ex cfg_ex outsiders_ex app_ex = Some (ws, app')
     \<and> int (length (filter (\<lambda>((now, env, req), w). request_client ext_ex cfg_ex env req = ''10.0.0.9''
            \<and> fails_answer ext_ex req w) (zip outsiders_ex ws))) \<le> cf_maxAuthFailCount cfg_ex"
proof -
  obtain ws app' where s: "serve_requests ext_ex cfg_ex outsiders_ex app_ex = Some (ws, app')"
    using outsiders_ex_ok(2) by blast
  have "int (length (filter (\<lambda>((now, env, req), w). request_client ext_ex cfg_ex env req = ''10.0.0.9''
            \<and> fails_answer ext_ex req w) (zip outsiders_ex ws))) \<le> cf_maxAuthFailCount cfg_ex"
  proof (rule ban_bounds_guesses [OF _ _ _ _ s])
    show "\<forall>(now, env, req) \<in> set outsiders_ex. 0 \<le> now \<and> now < 0 + 1000 * cf_banDuration cfg_ex
        \<and> (request_client ext_ex cfg_ex env req = ''10.0.0.9'' \<longrightarrow>
           \<not> credentials_ok ext_ex cfg_ex (request_params ext_ex req))"
      using outsider_ex by (simp add: outsiders_ex_def cfg_ex_simps outsider_def)
  qed (simp_all add: app_ex_def cfg_ex_simps ext_ex_simps)
  then show ?thesis using s by blast
qed


end
