(* ===== verification/Settings_Storage.thy ===== *)
theory Settings_Storage
  imports Path Qt_Containers
begin

text \<open>
  \<^verbatim>\<open>src/src/base/settingsstorage.cpp\<close>: the settings in memory, and the two files they are
  written to and recovered from. A \<^verbatim>\<open>QVariant\<close> is a value or invalid. The file system is the
  content of each settings file; every operation on it may fail, and the machine may stop between any two of
  them. Of \<^verbatim>\<open>QSettings\<close> it is used that it merges into the file it was opened on, and that a
  sync replaces the file as a whole or leaves it (its atomic mode, the default).
\<close>

section \<open>Settings and files\<close>

type_synonym 'v settings = "(qstring, 'v option) qmap"

type_synonym 'v disk = "path \<rightharpoonup> 'v settings"

datatype qsettings_status = NoError | AccessError | FormatError

record write_outcome =
  wo_status :: qsettings_status
  wo_removeNew :: bool
  wo_removeFinal :: bool
  wo_rename :: bool

definition file_content :: "'v disk \<Rightarrow> path \<Rightarrow> 'v settings" where
  "file_content disk p = (case disk p of None \<Rightarrow> [] | Some c \<Rightarrow> c)"

definition removeFile :: "bool \<Rightarrow> path \<Rightarrow> 'v disk \<Rightarrow> 'v disk" where
  "removeFile ok p disk = (if ok then disk(p := None) else disk)"

definition renameFile :: "bool \<Rightarrow> path \<Rightarrow> path \<Rightarrow> 'v disk \<Rightarrow> bool \<times> 'v disk" where
  "renameFile ok src dst disk =
     (if ok \<and> disk src \<noteq> None \<and> disk dst = None then (True, disk(dst := disk src, src := None))
      else (False, disk))"

text \<open>\<^verbatim>\<open>lastIndexOf(sub, -1, Qt::CaseInsensitive)\<close>.\<close>

fun last_sub_ci :: "qstring \<Rightarrow> qstring \<Rightarrow> nat option" where
  "last_sub_ci sub [] = None"
| "last_sub_ci sub (c # cs) =
     (case last_sub_ci sub cs of
        Some i \<Rightarrow> Some (Suc i)
      | None \<Rightarrow> if starts_with_ci (c # cs) sub then Some 0 else None)"

text \<open>The name without its last \<open>_new\<close>, which the names asked for always have.\<close>

definition final_path :: "path \<Rightarrow> path" where
  "final_path newPath =
     (case last_sub_ci ''_new'' newPath of
        None \<Rightarrow> butlast newPath
      | Some i \<Rightarrow> take i newPath @ drop (i + 4) newPath)"

text \<open>Where the profile keeps the settings of a name: a folder and an extension.\<close>

record profile =
  pr_folder :: path
  pr_extension :: qstring

definition settings_path :: "profile \<Rightarrow> qstring \<Rightarrow> path" where
  "settings_path pr name = pr_folder pr @ [slash] @ name @ pr_extension pr"

definition nativeSettingsName :: qstring where
  "nativeSettingsName = ''qBittorrent''"

definition new_path :: "profile \<Rightarrow> path" where
  "new_path pr = settings_path pr (nativeSettingsName @ ''_new'')"

section \<open>The storage\<close>

record 'v storage =
  st_data :: "'v settings"
  st_dirty :: bool
  st_timerActive :: bool

definition new_storage :: "'v storage" where
  "new_storage = \<lparr>st_data = [], st_dirty = False, st_timerActive = False\<rparr>"

definition deserialize :: "profile \<Rightarrow> 'v disk \<Rightarrow> qstring \<Rightarrow> 'v settings \<Rightarrow> 'v settings \<times> path" where
  "deserialize pr disk name data =
     (let content = file_content disk (settings_path pr name)
      in if content = [] then (data, [])
         else (fold (\<lambda>(k, v) d. if v \<noteq> None then qmap_insert k v d else d) content data, settings_path pr name))"

text \<open>The settings read, and the disk after each file operation.\<close>

definition readNativeSettings ::
  "profile \<Rightarrow> bool \<Rightarrow> bool \<Rightarrow> 'v disk \<Rightarrow> 'v storage \<Rightarrow> 'v storage \<times> 'v disk list" where
  "readNativeSettings pr removeOk renameOk disk st =
     (case deserialize pr disk (nativeSettingsName @ ''_new'') (st_data st) of
        (data, newPath) \<Rightarrow>
          if newPath \<noteq> [] then
            (let finalPath = final_path newPath;
                 disk1 = removeFile removeOk finalPath disk;
                 disk2 = snd (renameFile renameOk newPath finalPath disk1)
             in (st\<lparr>st_data := data\<rparr>, [disk1, disk2]))
          else (st\<lparr>st_data := fst (deserialize pr disk nativeSettingsName data)\<rparr>, [disk]))"

definition sync_file :: "qsettings_status \<Rightarrow> path \<Rightarrow> 'v settings \<Rightarrow> 'v disk \<Rightarrow> 'v disk" where
  "sync_file status p data disk =
     (if status = NoError \<and> data \<noteq> []
      then disk(p \<mapsto> fold (\<lambda>(k, v). qmap_insert k v) data (file_content disk p)) else disk)"

definition writeNativeSettings :: "profile \<Rightarrow> write_outcome \<Rightarrow> 'v settings \<Rightarrow> 'v disk \<Rightarrow> bool \<times> 'v disk list" where
  "writeNativeSettings pr wo data disk =
     (let newPath = new_path pr;
          disk1 = sync_file (wo_status wo) newPath data disk
      in if wo_status wo \<noteq> NoError then (False, [disk1, removeFile (wo_removeNew wo) newPath disk1])
         else
           (let finalPath = final_path newPath;
                disk2 = removeFile (wo_removeFinal wo) finalPath disk1;
                (renamed, disk3) = renameFile (wo_rename wo) newPath finalPath disk2
            in (renamed, [disk1, disk2, disk3])))"

definition save :: "profile \<Rightarrow> write_outcome \<Rightarrow> 'v storage \<Rightarrow> 'v disk \<Rightarrow> bool \<times> 'v storage \<times> 'v disk list" where
  "save pr wo st disk =
     (if \<not> st_dirty st then (False, st, [disk])
      else
        (case writeNativeSettings pr wo (st_data st) disk of
           (written, disks) \<Rightarrow>
             if \<not> written then (False, st\<lparr>st_timerActive := True\<rparr>, disks)
             else (True, st\<lparr>st_dirty := False\<rparr>, disks)))"

definition loadValueImpl :: "'v storage \<Rightarrow> qstring \<Rightarrow> 'v option \<Rightarrow> 'v option" where
  "loadValueImpl st key defaultValue = qmap_value (st_data st) key defaultValue"

definition storeValueImpl :: "qstring \<Rightarrow> 'v option \<Rightarrow> 'v storage \<Rightarrow> 'v storage" where
  "storeValueImpl key v st =
     (case qmap_subscript key None (st_data st) of
        (currentValue, data) \<Rightarrow>
          if currentValue \<noteq> v
          then st\<lparr>st_data := qmap_insert key v data, st_dirty := True, st_timerActive := True\<rparr>
          else st\<lparr>st_data := data\<rparr>)"

definition removeValue :: "qstring \<Rightarrow> 'v storage \<Rightarrow> 'v storage" where
  "removeValue key st =
     (if qmap_contains (st_data st) key
      then st\<lparr>st_data := qmap_remove key (st_data st), st_dirty := True, st_timerActive := True\<rparr> else st)"

definition hasKey :: "'v storage \<Rightarrow> qstring \<Rightarrow> bool" where
  "hasKey st key = qmap_contains (st_data st) key"

definition storage_isEmpty :: "'v storage \<Rightarrow> bool" where
  "storage_isEmpty st = (st_data st = [])"

section \<open>Stopping and starting again\<close>

datatype 'v settings_op = Store qstring "'v option" | Remove qstring | Save write_outcome

text \<open>What a start finds on a disk, however its own file operations turn out.\<close>

definition recovered :: "profile \<Rightarrow> 'v disk \<Rightarrow> 'v settings" where
  "recovered pr disk = st_data (fst (readNativeSettings pr True True disk new_storage))"

text \<open>The storage after an operation, and the disks the operation passes through.\<close>

fun settings_step :: "profile \<Rightarrow> 'v settings_op \<Rightarrow> 'v storage \<Rightarrow> 'v disk \<Rightarrow> 'v storage \<times> 'v disk list" where
  "settings_step pr (Store k v) st disk = (storeValueImpl k v st, [disk])"
| "settings_step pr (Remove k) st disk = (removeValue k st, [disk])"
| "settings_step pr (Save wo) st disk = snd (save pr wo st disk)"

fun settings_run :: "profile \<Rightarrow> 'v settings_op list \<Rightarrow> 'v storage \<Rightarrow> 'v disk \<Rightarrow> 'v storage \<times> 'v disk" where
  "settings_run pr [] st disk = (st, disk)"
| "settings_run pr (op # ops) st disk =
     (case settings_step pr op st disk of (st', disks) \<Rightarrow> settings_run pr ops st' (last disks))"

text \<open>The settings that must survive: those in memory when a file was last written.\<close>

definition valid_settings :: "'v settings \<Rightarrow> 'v settings" where
  "valid_settings data = filter (\<lambda>(k, v). v \<noteq> None) data"

fun durable_step :: "'v settings_op \<Rightarrow> 'v storage \<Rightarrow> 'v settings \<Rightarrow> 'v settings" where
  "durable_step (Save wo) st durable =
     (if st_dirty st \<and> wo_status wo = NoError then valid_settings (st_data st) else durable)"
| "durable_step _ st durable = durable"

fun durable_run :: "profile \<Rightarrow> 'v settings_op list \<Rightarrow> 'v storage \<Rightarrow> 'v disk \<Rightarrow> 'v settings \<Rightarrow> 'v settings" where
  "durable_run pr [] st disk durable = durable"
| "durable_run pr (op # ops) st disk durable =
     (case settings_step pr op st disk of
        (st', disks) \<Rightarrow> durable_run pr ops st' (last disks) (durable_step op st durable))"

text \<open>A save whose file operations after the write succeed.\<close>

fun moves_ok :: "'v settings_op \<Rightarrow> bool" where
  "moves_ok (Save wo) = (wo_removeFinal wo \<and> wo_rename wo)"
| "moves_ok _ = True"

section \<open>What a start recovers\<close>

lemma last_sub_append: "last_sub_ci sub b = Some i \<Longrightarrow> last_sub_ci sub (a @ b) = Some (length a + i)"
  by (induction a) simp_all

definition profile_ok :: "profile \<Rightarrow> bool" where
  "profile_ok pr \<longleftrightarrow> pr_extension pr \<in> {''.conf'', ''.ini''}"

lemma paths_ok:
  assumes "profile_ok pr"
  shows "final_path (new_path pr) = settings_path pr nativeSettingsName" and "new_path pr \<noteq> []"
    and "settings_path pr nativeSettingsName \<noteq> new_path pr" and "settings_path pr (nativeSettingsName @ ''_new'') = new_path pr"
proof -
  let ?a = "pr_folder pr @ [slash] @ nativeSettingsName"
  have "last_sub_ci ''_new'' (''_new'' @ pr_extension pr) = Some 0"
    using assms by (auto simp: profile_ok_def starts_with_ci_def to_lower_def char_to_lower_def is_upper_def)
  then have "last_sub_ci ''_new'' (?a @ ''_new'' @ pr_extension pr) = Some (length ?a)"
    by (simp only: last_sub_append add_0_right)
  moreover have n: "new_path pr = ?a @ ''_new'' @ pr_extension pr" by (simp add: new_path_def settings_path_def)
  moreover have "take (length a) (a @ x) = a" "drop (length a + 4) (a @ ''_new'' @ x) = x" for a x :: qstring
    by simp_all
  ultimately have "final_path (new_path pr) = ?a @ pr_extension pr"
    unfolding final_path_def n by (simp only: option.case)
  then show "final_path (new_path pr) = settings_path pr nativeSettingsName"
    by (simp add: settings_path_def)
  show "new_path pr \<noteq> []" "settings_path pr nativeSettingsName \<noteq> new_path pr"
    "settings_path pr (nativeSettingsName @ ''_new'') = new_path pr"
    by (simp_all add: new_path_def settings_path_def)
qed

lemma fold_valid:
  fixes c :: "'v settings"
  assumes "qmap_inv c"
  shows "fold (\<lambda>(k, v) d. if v \<noteq> None then qmap_insert k v d else d) c [] = valid_settings c"
proof -
  have "fold (\<lambda>(k, v) d. if v \<noteq> None then qmap_insert k v d else d) c acc = acc @ valid_settings c"
    if "qmap_inv c" "\<forall>j \<in> fst ` set acc. \<forall>k \<in> fst ` set c. j < k" for acc c :: "'v settings"
    using that
  proof (induction c arbitrary: acc)
    case Nil
    then show ?case by (simp add: valid_settings_def)
  next
    case (Cons kv c)
    obtain k v where kv: "kv = (k, v)" by fastforce
    have "qmap_insert k v acc = acc @ [(k, v)]" using Cons.prems kv by (intro qmap_insert_last) auto
    moreover have "\<forall>j \<in> fst ` set (acc @ [(k, v)]). \<forall>k \<in> fst ` set c. j < k"
      using Cons.prems kv by (auto simp: qmap_inv_Cons)
    moreover have "qmap_inv c" using Cons.prems kv by (simp add: qmap_inv_Cons)
    ultimately show ?case
      using Cons.IH [of "acc @ [(k, v)]"] Cons.IH [of acc] Cons.prems kv by (auto simp: valid_settings_def)
  qed
  then show ?thesis using assms by simp
qed

lemma fold_all:
  fixes c :: "'v settings"
  assumes "qmap_inv c"
  shows "fold (\<lambda>(k, v). qmap_insert k v) c [] = c"
proof -
  have "fold (\<lambda>(k, v). qmap_insert k v) c acc = acc @ c"
    if "qmap_inv c" "\<forall>j \<in> fst ` set acc. \<forall>k \<in> fst ` set c. j < k" for acc c :: "'v settings"
    using that
  proof (induction c arbitrary: acc)
    case Nil
    then show ?case by simp
  next
    case (Cons kv c)
    obtain k v where kv: "kv = (k, v)" by fastforce
    have "qmap_insert k v acc = acc @ [(k, v)]" using Cons.prems kv by (intro qmap_insert_last) auto
    moreover have "\<forall>j \<in> fst ` set (acc @ [(k, v)]). \<forall>k \<in> fst ` set c. j < k"
      using Cons.prems kv by (auto simp: qmap_inv_Cons)
    moreover have "qmap_inv c" using Cons.prems kv by (simp add: qmap_inv_Cons)
    ultimately show ?case using Cons.IH [of "acc @ [(k, v)]"] kv by simp
  qed
  then show ?thesis using assms by simp
qed

lemma recovered_eq:
  assumes "profile_ok pr" and "qmap_inv (file_content disk (new_path pr))"
    and "qmap_inv (file_content disk (settings_path pr nativeSettingsName))"
  shows "recovered pr disk =
     valid_settings (if file_content disk (new_path pr) \<noteq> [] then file_content disk (new_path pr)
                     else file_content disk (settings_path pr nativeSettingsName))"
  using paths_ok [OF assms(1)] fold_valid [OF assms(2)] fold_valid [OF assms(3)]
  by (simp add: recovered_def readNativeSettings_def deserialize_def Let_def new_storage_def valid_settings_def)

text \<open>Between operations: no unfinished file, and a start would find the durable settings.\<close>

definition settings_inv :: "profile \<Rightarrow> 'v storage \<Rightarrow> 'v disk \<Rightarrow> 'v settings \<Rightarrow> bool" where
  "settings_inv pr st disk durable \<longleftrightarrow>
     qmap_inv (st_data st) \<and> disk (new_path pr) = None
     \<and> qmap_inv (file_content disk (settings_path pr nativeSettingsName)) \<and> recovered pr disk = durable"

lemma storeValueImpl_inv: "qmap_inv (st_data st) \<Longrightarrow> qmap_inv (st_data (storeValueImpl k v st))"
  by (auto simp: storeValueImpl_def qmap_subscript_def split: option.splits)

lemma removeValue_inv: "qmap_inv (st_data st) \<Longrightarrow> qmap_inv (st_data (removeValue k st))"
  by (simp add: removeValue_def)

lemma content_simps [simp]:
  "file_content (disk(p := Some c)) q = (if q = p then c else file_content disk q)"
  "file_content (disk(p := None)) q = (if q = p then [] else file_content disk q)"
  "disk p = None \<Longrightarrow> file_content disk p = []"
  by (simp_all add: file_content_def)

lemma save_step:
  assumes "profile_ok pr" and inv: "settings_inv pr st disk durable" and "st_dirty st"
    and w: "writeNativeSettings pr wo (st_data st) disk = (written, disks)"
  shows "disks \<noteq> []" and "d \<in> set disks \<Longrightarrow> recovered pr d \<in> {durable, durable_step (Save wo) st durable}"
    and "wo_removeFinal wo \<Longrightarrow> wo_rename wo \<Longrightarrow> last disks (new_path pr) = None
      \<and> qmap_inv (file_content (last disks) (settings_path pr nativeSettingsName))
      \<and> recovered pr (last disks) = durable_step (Save wo) st durable"
proof -
  let ?n = "new_path pr" and ?f = "settings_path pr nativeSettingsName" and ?d = "st_data st"
  note p = paths_ok [OF assms(1)]
  have i: "qmap_inv ?d" "disk ?n = None" "qmap_inv (file_content disk ?f)" "recovered pr disk = durable"
    using inv by (simp_all add: settings_inv_def)
  have emp: "valid_settings [] = []" by (simp add: valid_settings_def)
  have *: "disks \<noteq> [] \<and> (\<forall>d \<in> set disks. recovered pr d \<in> {durable, durable_step (Save wo) st durable})
    \<and> (wo_removeFinal wo \<longrightarrow> wo_rename wo \<longrightarrow> last disks ?n = None \<and> qmap_inv (file_content (last disks) ?f)
       \<and> recovered pr (last disks) = durable_step (Save wo) st durable)"
  proof (cases "wo_status wo = NoError")
    case False
    have "disk(?n := None) = disk" using i(2) by (simp add: fun_upd_idem)
    then have "disks = [disk, disk]"
      using w False by (auto simp: writeNativeSettings_def sync_file_def Let_def removeFile_def)
    then show ?thesis using i False by simp
  next
    case True
    show ?thesis
    proof (cases "?d = []")
      case empty: True
      let ?e = "removeFile (wo_removeFinal wo) ?f disk"
      have e: "?e ?n = None" using i(2) by (simp add: removeFile_def)
      have "disks = [disk, ?e, ?e]"
        using w True empty e p(1) by (simp add: writeNativeSettings_def sync_file_def Let_def renameFile_def)
      moreover have "recovered pr ?e = (if wo_removeFinal wo then [] else durable)"
      proof (cases "wo_removeFinal wo")
        case True
        then show ?thesis using i e recovered_eq [OF assms(1), of ?e] p by (simp add: removeFile_def emp)
      qed (use i in \<open>simp add: removeFile_def\<close>)
      moreover have "qmap_inv (file_content ?e ?f)" using i(3) by (simp add: removeFile_def)
      ultimately show ?thesis using True empty e i(4) assms(3) by (cases "wo_removeFinal wo") (simp_all add: emp)
    next
      case False
      let ?d1 = "disk(?n \<mapsto> ?d)"
      let ?d2 = "removeFile (wo_removeFinal wo) ?f ?d1"
      let ?d3 = "snd (renameFile (wo_rename wo) ?n ?f ?d2)"
      have s: "sync_file NoError ?n ?d disk = ?d1"
        using i(2) False by (simp add: sync_file_def fold_all [OF i(1)])
      have ds: "disks = [?d1, ?d2, ?d3]"
        using w True s p(1) by (simp add: writeNativeSettings_def Let_def split_beta)
      have r1: "recovered pr ?d1 = valid_settings ?d"
        using i False recovered_eq [OF assms(1), of ?d1] p by simp
      have r2: "recovered pr ?d2 = valid_settings ?d"
        using i False recovered_eq [OF assms(1), of ?d2] p r1 by (simp add: removeFile_def)
      have d3: "?d3 = (if wo_rename wo \<and> ?d2 ?f = None then ?d2(?f := Some ?d, ?n := None) else ?d2)"
        using p by (auto simp: renameFile_def removeFile_def)
      have r3: "recovered pr ?d3 = valid_settings ?d"
        using i(1) r2 recovered_eq [OF assms(1), of "?d2(?f := Some ?d, ?n := None)"] p
        by (simp add: d3)
      have fin: "?d3 ?n = None \<and> qmap_inv (file_content ?d3 ?f)" if "wo_removeFinal wo" "wo_rename wo"
        unfolding d3 using that i(1) p by (simp add: removeFile_def)
      have s': "durable_step (Save wo) st durable = valid_settings ?d" using True assms(3) by simp
      have "d \<in> set disks \<Longrightarrow> recovered pr d = valid_settings ?d" for d using ds r1 r2 r3 by auto
      then show ?thesis unfolding s' using ds fin r3 by auto
    qed
  qed
  then show "disks \<noteq> []" "d \<in> set disks \<Longrightarrow> recovered pr d \<in> {durable, durable_step (Save wo) st durable}"
    "wo_removeFinal wo \<Longrightarrow> wo_rename wo \<Longrightarrow> last disks ?n = None \<and> qmap_inv (file_content (last disks) ?f)
      \<and> recovered pr (last disks) = durable_step (Save wo) st durable"
    by blast+
qed

lemma step_inv:
  assumes "profile_ok pr" and "settings_inv pr st disk durable" and "settings_step pr op st disk = (st', disks)"
  shows "d \<in> set disks \<Longrightarrow> recovered pr d \<in> {durable, durable_step op st durable}"
    and "moves_ok op \<Longrightarrow> settings_inv pr st' (last disks) (durable_step op st durable)"
proof -
  have "(d \<in> set disks \<longrightarrow> recovered pr d \<in> {durable, durable_step op st durable})
      \<and> (moves_ok op \<longrightarrow> settings_inv pr st' (last disks) (durable_step op st durable))"
  proof (cases op)
    case (Store k v)
    then show ?thesis using assms(2,3) by (auto simp: settings_inv_def storeValueImpl_inv)
  next
    case (Remove k)
    then show ?thesis using assms(2,3) by (auto simp: settings_inv_def removeValue_inv)
  next
    case (Save wo)
    show ?thesis
    proof (cases "st_dirty st")
      case False
      then show ?thesis using assms(2,3) Save by (auto simp: save_def settings_inv_def)
    next
      case True
      obtain written ds where w: "writeNativeSettings pr wo (st_data st) disk = (written, ds)" by fastforce
      have st: "disks = ds" "st_data st' = st_data st"
        using assms(3) Save True w by (auto simp: save_def split: if_splits)
      note s = save_step [OF assms(1,2) True w]
      show ?thesis using s assms(2) by (simp add: st Save settings_inv_def)
    qed
  qed
  then show "d \<in> set disks \<Longrightarrow> recovered pr d \<in> {durable, durable_step op st durable}"
    "moves_ok op \<Longrightarrow> settings_inv pr st' (last disks) (durable_step op st durable)" by blast+
qed

lemma run_inv:
  assumes "profile_ok pr" and "settings_inv pr st disk durable" and "list_all moves_ok ops"
    and "settings_run pr ops st disk = (st', disk')"
  shows "settings_inv pr st' disk' (durable_run pr ops st disk durable)"
  using assms(2-4)
proof (induction ops arbitrary: st disk durable)
  case Nil
  then show ?case by simp
next
  case (Cons op ops)
  obtain st1 disks where s: "settings_step pr op st disk = (st1, disks)" by fastforce
  have "settings_inv pr st1 (last disks) (durable_step op st durable)"
    using step_inv(2) [OF assms(1) Cons.prems(1) s] Cons.prems(2) by simp
  then show ?case using Cons s by simp
qed

definition fresh_start :: "profile \<Rightarrow> 'v disk \<Rightarrow> 'v storage" where
  "fresh_start pr disk = fst (readNativeSettings pr True True disk new_storage)"

lemma start_inv:
  assumes "profile_ok pr" and "disk (new_path pr) = None"
    and "qmap_inv (file_content disk (settings_path pr nativeSettingsName))"
  shows "settings_inv pr (fresh_start pr disk) disk (recovered pr disk)"
proof -
  have "st_data (fresh_start pr disk) = recovered pr disk" by (simp add: fresh_start_def recovered_def)
  moreover have "qmap_inv (recovered pr disk)"
    using recovered_eq [OF assms(1) _ assms(3)] assms(2,3) by (simp add: valid_settings_def inv_filter)
  ultimately show ?thesis using assms by (simp add: settings_inv_def)
qed

text \<open>
  C5. Settings survive a stop at any moment: after any stores, removals and saves whose removals and renames of files
  succeed, wherever the next operation is cut off and whichever of its file operations fail, the next start
  recovers the settings as they were at the last completed write or as this operation was writing them,
  nothing else; and between operations exactly the former.
\<close>

theorem settings_survive_stop:
  assumes "profile_ok pr" and "disk (new_path pr) = None"
    and "qmap_inv (file_content disk (settings_path pr nativeSettingsName))" and "list_all moves_ok ops"
    and "settings_run pr ops (fresh_start pr disk) disk = (st1, disk1)"
    and "settings_step pr op st1 disk1 = (st2, disks)" and "d \<in> set disks"
  shows "recovered pr disk1 = durable_run pr ops (fresh_start pr disk) disk (recovered pr disk)
    \<and> recovered pr d \<in> {recovered pr disk1, durable_step op st1 (recovered pr disk1)}"
proof -
  have inv: "settings_inv pr st1 disk1 (durable_run pr ops (fresh_start pr disk) disk (recovered pr disk))"
    by (rule run_inv [OF assms(1) start_inv [OF assms(1-3)] assms(4,5)])
  then have r: "recovered pr disk1 = durable_run pr ops (fresh_start pr disk) disk (recovered pr disk)"
    by (simp add: settings_inv_def)
  show ?thesis using step_inv(1) [OF assms(1) inv assms(6,7)] r by simp
qed

definition profile_ex :: profile where
  "profile_ex = \<lparr>pr_folder = ''/cfg'', pr_extension = ''.conf''\<rparr>"

definition disk_ex :: "'v \<Rightarrow> 'v disk" where
  "disk_ex v = [settings_path profile_ex nativeSettingsName \<mapsto> [(''Port'', Some v)]]"

definition ok_ex :: write_outcome where
  "ok_ex = \<lparr>wo_status = NoError, wo_removeNew = True, wo_removeFinal = True, wo_rename = True\<rparr>"

theorem settings_survive_stop_witness:
  "let pr = profile_ex; disk = disk_ex (1 :: int); st = fresh_start pr disk;
       ops = [Store ''Port'' (Some 2), Save ok_ex, Store ''Port'' (Some 3)];
       (st1, disk1) = settings_run pr ops st disk;
       (st2, disks) = settings_step pr (Save (ok_ex\<lparr>wo_rename := False\<rparr>)) st1 disk1;
       d = hd disks
   in recovered pr disk1 = durable_run pr ops st disk (recovered pr disk)
      \<and> recovered pr d \<in> {recovered pr disk1, durable_step (Save (ok_ex\<lparr>wo_rename := False\<rparr>)) st1 (recovered pr disk1)}"
proof -
  let ?pr = profile_ex and ?disk = "disk_ex (1 :: int)"
  let ?ops = "[Store ''Port'' (Some 2), Save ok_ex, Store ''Port'' (Some 3)]" and ?op = "Save (ok_ex\<lparr>wo_rename := False\<rparr>)"
  obtain st1 disk1 where r: "settings_run ?pr ?ops (fresh_start ?pr ?disk) ?disk = (st1, disk1)" by fastforce
  obtain st2 disks where s: "settings_step ?pr ?op st1 disk1 = (st2, disks)" by fastforce
  have ok: "profile_ok ?pr" by (simp add: profile_ok_def profile_ex_def)
  have c: "?disk (new_path ?pr) = None" "qmap_inv (file_content ?disk (settings_path ?pr nativeSettingsName))"
    using paths_ok(3) [OF ok] by (simp_all add: disk_ex_def qmap_inv_Cons)
  have m: "list_all moves_ok ?ops" by (simp add: ok_ex_def)
  have "disks \<noteq> []" using s by (auto simp: save_def writeNativeSettings_def Let_def split: prod.splits if_splits)
  then have "hd disks \<in> set disks" by simp
  from settings_survive_stop [OF ok c m r s this] show ?thesis unfolding Let_def r s prod.case .
qed

section \<open>When a rename fails\<close>

definition failed_rename :: write_outcome where
  "failed_rename = \<lparr>wo_status = NoError, wo_removeNew = True, wo_removeFinal = True, wo_rename = False\<rparr>"

definition failed_write :: write_outcome where
  "failed_write = \<lparr>wo_status = AccessError, wo_removeNew = True, wo_removeFinal = True, wo_rename = True\<rparr>"

text \<open>A first save that cannot rename leaves only the new file.\<close>

lemma first_save:
  assumes "profile_ok pr" and "disk (new_path pr) = None"
    and "qmap_inv (file_content disk (settings_path pr nativeSettingsName))"
    and "loadValueImpl (fresh_start pr disk) k None \<noteq> Some v"
  obtains st where "settings_run pr (Store k (Some v) # Save failed_rename # ops) (fresh_start pr disk) disk
      = settings_run pr ops st (disk(settings_path pr nativeSettingsName := None, new_path pr := Some (st_data st)))"
    and "st_dirty st" "st_data st = qmap_insert k (Some v) (recovered pr disk)" "qmap_inv (recovered pr disk)"
proof -
  note p = paths_ok [OF assms(1)]
  let ?st = "storeValueImpl k (Some v) (fresh_start pr disk)"
  have r: "st_data (fresh_start pr disk) = recovered pr disk" by (simp add: fresh_start_def recovered_def)
  have inv: "qmap_inv (recovered pr disk)"
    using start_inv [OF assms(1-3)] r by (simp add: settings_inv_def)
  have st: "st_dirty ?st" "st_data ?st = qmap_insert k (Some v) (recovered pr disk)" "st_timerActive ?st"
    using assms(4) inv r qmap.insert_overwrite
    by (auto simp: storeValueImpl_def qmap_subscript_def loadValueImpl_def qmap_value_def split: option.splits)
  have ne: "st_data ?st \<noteq> []" using set_qmap_insert [of k "Some v" "recovered pr disk"] by (auto simp: st(2))
  have s: "sync_file NoError (new_path pr) (st_data ?st) disk = disk(new_path pr \<mapsto> st_data ?st)"
    using assms(2) ne inv by (simp add: sync_file_def st(2) fold_all)
  have w: "snd (writeNativeSettings pr failed_rename (st_data ?st) disk) \<noteq> []"
    "fst (writeNativeSettings pr failed_rename (st_data ?st) disk) = False"
    "last (snd (writeNativeSettings pr failed_rename (st_data ?st) disk))
       = disk(settings_path pr nativeSettingsName := None, new_path pr := Some (st_data ?st))"
    using s p by (auto simp: writeNativeSettings_def failed_rename_def Let_def renameFile_def removeFile_def fun_upd_twist)
  show thesis
    by (rule that [of "?st\<lparr>st_timerActive := True\<rparr>"]) (use w st inv in \<open>simp_all add: save_def split_beta\<close>)
qed

text \<open>
  A rename that fails, followed by a save that fails, loses every setting: the first save has already removed
  the old file, and the error path of the second removes the new one, the only copy left.
\<close>

theorem failed_saves_lose_settings:
  assumes "profile_ok pr" and "disk (new_path pr) = None"
    and "qmap_inv (file_content disk (settings_path pr nativeSettingsName))"
    and "loadValueImpl (fresh_start pr disk) k None \<noteq> Some v"
  shows "case settings_run pr [Store k (Some v), Save failed_rename, Save failed_write] (fresh_start pr disk) disk of
           (st', disk') \<Rightarrow>
             recovered pr disk' = []
             \<and> durable_run pr [Store k (Some v), Save failed_rename] (fresh_start pr disk) disk (recovered pr disk) \<noteq> []"
proof -
  note p = paths_ok [OF assms(1)]
  obtain st where r: "settings_run pr [Store k (Some v), Save failed_rename, Save failed_write] (fresh_start pr disk) disk
      = settings_run pr [Save failed_write] st
          (disk(settings_path pr nativeSettingsName := None, new_path pr := Some (st_data st)))"
    and st: "st_dirty st" "st_data st = qmap_insert k (Some v) (recovered pr disk)" "qmap_inv (recovered pr disk)"
    by (rule first_save [OF assms])
  have d: "snd (settings_run pr [Save failed_write] st
        (disk(settings_path pr nativeSettingsName := None, new_path pr := Some (st_data st))))
      = disk(settings_path pr nativeSettingsName := None, new_path pr := None)"
    using st(1) by (auto simp: save_def writeNativeSettings_def failed_write_def sync_file_def removeFile_def Let_def)
  have "recovered pr (disk(settings_path pr nativeSettingsName := None, new_path pr := None)) = []"
    using recovered_eq [OF assms(1), of "disk(settings_path pr nativeSettingsName := None, new_path pr := None)"] p
    by (simp add: valid_settings_def)
  moreover have "durable_run pr [Store k (Some v), Save failed_rename] (fresh_start pr disk) disk (recovered pr disk) \<noteq> []"
  proof -
    let ?st = "storeValueImpl k (Some v) (fresh_start pr disk)"
    have f: "st_data (fresh_start pr disk) = recovered pr disk" by (simp add: fresh_start_def recovered_def)
    have "st_dirty ?st" "(k, Some v) \<in> set (st_data ?st)"
      using assms(4) st(3) f
      by (auto simp: storeValueImpl_def qmap_subscript_def loadValueImpl_def qmap_value_def qmap_lookup_set [symmetric]
          split: option.splits)
    then have "(k, Some v) \<in> set (valid_settings (st_data ?st))" by (simp add: valid_settings_def)
    then show ?thesis using \<open>st_dirty ?st\<close> by (auto simp: failed_rename_def split: prod.split)
  qed
  ultimately show ?thesis using d r by (auto simp: split_beta)
qed

theorem failed_saves_lose_settings_witness:
  "case settings_run profile_ex [Store ''Port'' (Some (2 :: int)), Save failed_rename, Save failed_write]
       (fresh_start profile_ex (disk_ex 1)) (disk_ex 1) of
     (st', disk') \<Rightarrow>
       recovered profile_ex disk' = []
       \<and> durable_run profile_ex [Store ''Port'' (Some (2 :: int)), Save failed_rename] (fresh_start profile_ex (disk_ex 1)) (disk_ex 1)
            (recovered profile_ex (disk_ex 1)) \<noteq> []"
proof (rule failed_saves_lose_settings)
  show ok: "profile_ok profile_ex" by (simp add: profile_ok_def profile_ex_def)
  show c: "disk_ex 1 (new_path profile_ex) = None"
    "qmap_inv (file_content (disk_ex (1 :: int)) (settings_path profile_ex nativeSettingsName))"
    using paths_ok(3) [OF ok] by (simp_all add: disk_ex_def qmap_inv_Cons)
  have "st_data (fresh_start profile_ex (disk_ex (1 :: int))) = [(''Port'', Some 1)]"
    using recovered_eq [OF ok, of "disk_ex (1 :: int)"] c
    by (simp add: fresh_start_def recovered_def) (simp add: valid_settings_def disk_ex_def file_content_def)
  then show "loadValueImpl (fresh_start profile_ex (disk_ex 1)) ''Port'' None \<noteq> Some (2 :: int)"
    by (simp add: loadValueImpl_def qmap_value_def qmap_lookup_def)
qed

text \<open>
  A failed rename also brings removed settings back: the next save merges into the file it left.
\<close>

lemma lookup_fold_insert:
  "qmap_lookup d k = None \<Longrightarrow> qmap_lookup (fold (\<lambda>(k, v). qmap_insert k v) d m) k = qmap_lookup m k"
  by (induction d arbitrary: m) (auto split: if_splits)

lemma inv_fold_settings: "qmap_inv m \<Longrightarrow> qmap_inv (fold (\<lambda>(k, v). qmap_insert k v) d m)"
  by (induction d arbitrary: m) auto

lemma lookup_valid: "qmap_inv m \<Longrightarrow> qmap_lookup m k = Some (Some v) \<Longrightarrow> qmap_lookup (valid_settings m) k = Some (Some v)"
  by (simp add: valid_settings_def qmap_lookup_set inv_filter)

lemma removed_setting_returns:
  assumes "profile_ok pr" and "disk (new_path pr) = None"
    and "qmap_inv (file_content disk (settings_path pr nativeSettingsName))"
    and "loadValueImpl (fresh_start pr disk) k None \<noteq> Some v"
  shows "case settings_run pr [Store k (Some v), Save failed_rename, Remove k, Save ok_ex] (fresh_start pr disk) disk of
           (st', disk') \<Rightarrow> \<not> hasKey st' k \<and> qmap_lookup (recovered pr disk') k = Some (Some v)"
proof -
  note p = paths_ok [OF assms(1)]
  let ?n = "new_path pr" and ?f = "settings_path pr nativeSettingsName"
  obtain st where r: "settings_run pr [Store k (Some v), Save failed_rename, Remove k, Save ok_ex] (fresh_start pr disk) disk
      = settings_run pr [Remove k, Save ok_ex] st (disk(?f := None, ?n := Some (st_data st)))"
    and st: "st_dirty st" "st_data st = qmap_insert k (Some v) (recovered pr disk)" "qmap_inv (recovered pr disk)"
    by (rule first_save [OF assms])
  let ?d = "qmap_remove k (st_data st)" and ?disk = "disk(?f := None, ?n := Some (st_data st))"
  let ?c = "if ?d = [] then st_data st else fold (\<lambda>(k, v). qmap_insert k v) ?d (st_data st)"
  have k: "qmap_lookup (st_data st) k = Some (Some v)" "qmap_inv (st_data st)" using st by simp_all
  have c: "qmap_lookup ?c k = Some (Some v)" "qmap_inv ?c" using k by (simp_all add: lookup_fold_insert inv_fold_settings)
  have rm: "removeValue k st = st\<lparr>st_data := ?d, st_dirty := True, st_timerActive := True\<rparr>"
    using k by (simp add: removeValue_def qmap_contains_def)
  have s: "sync_file NoError ?n ?d ?disk = ?disk(?n := Some ?c)"
    by (auto simp: sync_file_def file_content_def)
  have e: "settings_run pr [Remove k, Save ok_ex] st ?disk
      = (st\<lparr>st_data := ?d, st_dirty := False, st_timerActive := True\<rparr>, ?disk(?n := None, ?f := Some ?c))"
    using s p by (simp add: rm save_def writeNativeSettings_def ok_ex_def Let_def removeFile_def renameFile_def fun_upd_twist)
  have q: "qmap_lookup (recovered pr (?disk(?n := None, ?f := Some ?c))) k = Some (Some v)"
    using recovered_eq [OF assms(1), of "?disk(?n := None, ?f := Some ?c)"] p c lookup_valid [OF c(2,1)] by simp
  show ?thesis unfolding r e prod.case using q by (simp add: hasKey_def qmap_contains_def)
qed

end
