(* ===== verification/GeoIP.thy ===== *)
theory GeoIP
  imports Qt_Containers
begin

text \<open>
  The reader of MaxMind databases, \<^verbatim>\<open>src/src/base/net/geoipdatabase.cpp\<close>: data fields,
  metadata, loading and the lookup of an address. The file is a list of bytes; every access names its place, and
  one beyond the data is the outcome \<open>OutOfBounds\<close>. \<^verbatim>\<open>quint32\<close> and \<^verbatim>\<open>int\<close>
  wrap as written. Fields nest without a bound in the code, so their reader counts the calls it may still nest and
  ends in \<open>OutOfStack\<close>.
\<close>

section \<open>Types\<close>

datatype data_type =
    Unknown | Pointer | String | Double | Bytes | Integer16 | Integer32 | Map | SignedInteger32
  | Integer64 | Integer128 | Array | DataCacheContainer | EndMarker | Boolean | Float

definition data_types :: "data_type list" where
  "data_types =
     [Unknown, Pointer, String, Double, Bytes, Integer16, Integer32, Map, SignedInteger32, Integer64, Integer128, Array,
      DataCacheContainer, EndMarker, Boolean, Float]"

datatype geo_value =
    GInvalid
  | GString qstring
  | GDouble nat
  | GBytes qbytearray
  | GUShort nat
  | GUInt nat
  | GHash "(qstring \<times> geo_value) list"
  | GInt int
  | GULongLong nat
  | GList "geo_value list"
  | GBool bool
  | GFloat nat

datatype 'x rd = Ret 'x | OutOfBounds | OutOfStack

fun rd_bind :: "'x rd \<Rightarrow> ('x \<Rightarrow> 'y rd) \<Rightarrow> 'y rd" where
  "rd_bind (Ret x) f = f x" | "rd_bind OutOfBounds f = OutOfBounds" | "rd_bind OutOfStack f = OutOfStack"

lemma rd_bind_cong [fundef_cong]:
  "x = y \<Longrightarrow> (\<And>v. y = Ret v \<Longrightarrow> f v = g v) \<Longrightarrow> rd_bind x f = rd_bind y g"
  by (cases y) auto

datatype geo_error =
    UnsupportedSize
  | NotFoundKey qstring
  | InvalidType qstring
  | UnsupportedVersion nat nat
  | UnsupportedIpVersion nat
  | UnsupportedRecordSize nat
  | NoDataSection

record geo_db =
  g_ipVersion :: nat
  g_recordSize :: nat
  g_nodeCount :: nat
  g_nodeSize :: nat
  g_indexSize :: int
  g_recordBytes :: nat
  g_buildEpoch :: nat
  g_dbType :: qstring
  g_countries :: "nat \<rightharpoonup> qstring"
  g_data :: qbytearray

definition MAX_FILE_SIZE :: nat where "MAX_FILE_SIZE = 67108864"
definition MAX_METADATA_SIZE :: nat where "MAX_METADATA_SIZE = 131072"
definition METADATA_BEGIN_MARK :: qbytearray where
  "METADATA_BEGIN_MARK = [CHR 0xAB, CHR 0xCD, CHR 0xEF] @ ''MaxMind.com''"
definition DATA_SECTION_SEPARATOR :: qbytearray where
  "DATA_SECTION_SEPARATOR = replicate 16 (CHR 0x00)"

definition g_size :: "geo_db \<Rightarrow> nat" where "g_size db = length (g_data db)"

record geo_env =
  fromUtf8 :: "qbytearray \<Rightarrow> qstring"
  plainText :: "geo_value \<Rightarrow> qstring"

text \<open>Conversion to \<^verbatim>\<open>quint32\<close> and to \<^verbatim>\<open>int\<close>.\<close>

definition u32 :: "int \<Rightarrow> nat" where "u32 n = nat (n mod 2 ^ 32)"

definition s32 :: "int \<Rightarrow> int" where
  "s32 n = (let m = n mod 2 ^ 32 in if m < 2 ^ 31 then m else m - 2 ^ 32)"

definition byte :: "geo_db \<Rightarrow> nat \<Rightarrow> nat rd" where
  "byte db i = (if i < g_size db then Ret (of_char (g_data db ! i)) else OutOfBounds)"

definition bytes_at :: "geo_db \<Rightarrow> nat \<Rightarrow> nat \<Rightarrow> qbytearray rd" where
  "bytes_at db i n = (if n = 0 then Ret [] else if i + n \<le> g_size db then Ret (take n (drop i (g_data db))) else OutOfBounds)"

fun big_endian :: "qbytearray \<Rightarrow> nat" where
  "big_endian [] = 0"
| "big_endian (c # cs) = of_char c * 256 ^ length cs + big_endian cs"

section \<open>Data fields\<close>

text \<open>
  The descriptor of a field: \<open>None\<close> when it cannot be read, else its type, its size or pointer, and
  the offset behind it.
\<close>

definition pointer_descriptor :: "geo_db \<Rightarrow> nat \<Rightarrow> int \<Rightarrow> nat \<Rightarrow> (data_type \<times> nat \<times> nat) option rd" where
  "pointer_descriptor db offset availSize b0 =
     (let size = (b0 div 8) mod 4; low = b0 mod 8 in
      if availSize < int size + 2 then Ret None
      else if size = 0 then
        rd_bind (byte db (offset + 1)) (\<lambda>b1. Ret (Some (Pointer, low * 2 ^ 8 + b1, u32 (int offset + 2))))
      else if size = 1 then
        rd_bind (byte db (offset + 1)) (\<lambda>b1. rd_bind (byte db (offset + 2)) (\<lambda>b2.
          Ret (Some (Pointer, low * 2 ^ 16 + b1 * 2 ^ 8 + b2 + 2048, u32 (int offset + 3)))))
      else if size = 2 then
        rd_bind (byte db (offset + 1)) (\<lambda>b1. rd_bind (byte db (offset + 2)) (\<lambda>b2. rd_bind (byte db (offset + 3)) (\<lambda>b3.
          Ret (Some (Pointer, low * 2 ^ 24 + b1 * 2 ^ 16 + b2 * 2 ^ 8 + b3 + 526336, u32 (int offset + 4))))))
      else
        rd_bind (byte db (offset + 1)) (\<lambda>b1. rd_bind (byte db (offset + 2)) (\<lambda>b2. rd_bind (byte db (offset + 3)) (\<lambda>b3.
        rd_bind (byte db (offset + 4)) (\<lambda>b4.
          Ret (Some (Pointer, b1 * 2 ^ 24 + b2 * 2 ^ 16 + b3 * 2 ^ 8 + b4, u32 (int offset + 5))))))))"

definition readDataFieldDescriptor :: "geo_db \<Rightarrow> nat \<Rightarrow> (data_type \<times> nat \<times> nat) option rd" where
  "readDataFieldDescriptor db offset =
     (let availSize = s32 (int (g_size db) - int offset) in
      if availSize < 1 then Ret None
      else rd_bind (byte db offset) (\<lambda>b0.
        let fieldType = data_types ! (b0 div 32); fieldSize = b0 mod 32 in
        if fieldType = Pointer then pointer_descriptor db offset availSize b0
        else if fieldSize \<le> 28 then
          (if fieldType = Unknown then
             rd_bind (byte db (offset + 1)) (\<lambda>b1.
               if b1 + 7 \<le> 7 \<or> b1 + 7 > 15 \<or> availSize < 3 then Ret None
               else Ret (Some (data_types ! (b1 + 7), fieldSize, u32 (int offset + 2))))
           else Ret (Some (fieldType, fieldSize, u32 (int offset + 1))))
        else if fieldSize = 29 then
          (if availSize < 2 then Ret None
           else rd_bind (byte db (offset + 1)) (\<lambda>b1. Ret (Some (fieldType, b1 + 29, u32 (int offset + 2)))))
        else if fieldSize = 30 then
          (if availSize < 3 then Ret None
           else rd_bind (byte db (offset + 1)) (\<lambda>b1. rd_bind (byte db (offset + 2)) (\<lambda>b2.
             Ret (Some (fieldType, b1 * 2 ^ 8 + b2 + 285, u32 (int offset + 3))))))
        else
          (if availSize < 4 then Ret None
           else rd_bind (byte db (offset + 1)) (\<lambda>b1. rd_bind (byte db (offset + 2)) (\<lambda>b2. rd_bind (byte db (offset + 3)) (\<lambda>b3.
             Ret (Some (fieldType, b1 * 2 ^ 16 + b2 * 2 ^ 8 + b3 + 65821, u32 (int offset + 4)))))))))"

text \<open>
  \<^verbatim>\<open>readPlainValue\<close> for a type of \<open>sz\<close> bytes: the value and the offset behind it. The size
  arrives as a \<^verbatim>\<open>quint8\<close>.
\<close>

definition readPlainValue :: "geo_db \<Rightarrow> nat \<Rightarrow> nat \<Rightarrow> nat \<Rightarrow> (nat \<times> nat) rd" where
  "readPlainValue db sz offset fieldSize =
     (let len = fieldSize mod 256; availSize = u32 (int (g_size db) - int offset) in
      if 0 < len \<and> len \<le> sz \<and> availSize \<ge> len
      then rd_bind (bytes_at db offset len) (\<lambda>bs. Ret (big_endian bs, u32 (int offset + int len)))
      else Ret (0, offset))"

text \<open>A field that is neither map nor array: its value and the offset behind it.\<close>

definition readScalar :: "geo_env \<Rightarrow> geo_db \<Rightarrow> data_type \<Rightarrow> nat \<Rightarrow> nat \<Rightarrow> (geo_value \<times> nat) rd" where
  "readScalar e db fieldType fieldSize locOffset =
     (let plain = (\<lambda>sz mk. rd_bind (readPlainValue db sz locOffset fieldSize) (\<lambda>(n, off). Ret (mk n, off))) in
      case fieldType of
        String \<Rightarrow> rd_bind (bytes_at db locOffset fieldSize)
                    (\<lambda>bs. Ret (GString (fromUtf8 e bs), u32 (int locOffset + int fieldSize)))
      | Double \<Rightarrow> if fieldSize = 8 then plain 8 GDouble else Ret (GInvalid, locOffset)
      | Bytes \<Rightarrow> rd_bind (bytes_at db locOffset fieldSize)
                   (\<lambda>bs. Ret (GBytes bs, u32 (int locOffset + int fieldSize)))
      | Integer16 \<Rightarrow> plain 2 GUShort
      | Integer32 \<Rightarrow> plain 4 GUInt
      | SignedInteger32 \<Rightarrow> plain 4 (\<lambda>n. GInt (s32 (int n)))
      | Integer64 \<Rightarrow> plain 8 GULongLong
      | Boolean \<Rightarrow> Ret (GBool (fieldSize \<noteq> 0), locOffset)
      | Float \<Rightarrow> if fieldSize = 4 then plain 4 GFloat else Ret (GInvalid, locOffset)
      | _ \<Rightarrow> Ret (GInvalid, locOffset))"

definition pointer_target :: "geo_db \<Rightarrow> nat \<Rightarrow> nat" where
  "pointer_target db p = u32 (int p + int (u32 (int (g_nodeCount db) * int (g_recordSize db)) div 4) + 16)"

function (sequential) readDataField :: "geo_env \<Rightarrow> geo_db \<Rightarrow> nat \<Rightarrow> nat \<Rightarrow> (geo_value \<times> nat) rd"
  and readMapValue :: "geo_env \<Rightarrow> geo_db \<Rightarrow> nat \<Rightarrow> (qstring, geo_value) qmap \<Rightarrow> nat \<Rightarrow> nat \<Rightarrow> (geo_value \<times> nat) rd"
  and readArrayValue :: "geo_env \<Rightarrow> geo_db \<Rightarrow> nat \<Rightarrow> geo_value list \<Rightarrow> nat \<Rightarrow> nat \<Rightarrow> (geo_value \<times> nat) rd" where
  "readDataField e db 0 offset = OutOfStack"
| "readDataField e db (Suc fuel) offset =
     rd_bind (readDataFieldDescriptor db offset) (\<lambda>d. case d of
       None \<Rightarrow> Ret (GInvalid, offset)
     | Some (tag, len, after) \<Rightarrow>
         rd_bind (if tag = Pointer then readDataFieldDescriptor db (pointer_target db len)
                  else Ret (Some (tag, len, after))) (\<lambda>d'. case d' of
           None \<Rightarrow> Ret (GInvalid, after)
         | Some (fieldType, fieldSize, locOffset) \<Rightarrow>
             rd_bind (if fieldType = Map then readMapValue e db fuel [] locOffset fieldSize
                      else if fieldType = Array then readArrayValue e db fuel [] locOffset fieldSize
                      else readScalar e db fieldType fieldSize locOffset) (\<lambda>(v, behind).
               Ret (v, if tag = Pointer then after else behind))))"
| "readMapValue e db fuel acc offset 0 = Ret (GHash acc, offset)"
| "readMapValue e db fuel acc offset (Suc count) =
     rd_bind (readDataField e db fuel offset) (\<lambda>(k, off1). case k of
       GString key \<Rightarrow>
         rd_bind (readDataField e db fuel off1) (\<lambda>(v, off2).
           if v = GInvalid then Ret (GInvalid, off2)
           else readMapValue e db fuel (qmap_insert key v acc) off2 count)
     | _ \<Rightarrow> Ret (GInvalid, off1))"
| "readArrayValue e db fuel acc offset 0 = Ret (GList acc, offset)"
| "readArrayValue e db fuel acc offset (Suc count) =
     rd_bind (readDataField e db fuel offset) (\<lambda>(v, off1).
       if v = GInvalid then Ret (GInvalid, off1)
       else readArrayValue e db fuel (acc @ [v]) off1 count)"
  by pat_completeness auto

termination
  by (relation "measures
      [\<lambda>x. case x of Inl (_, _, fuel, _) \<Rightarrow> fuel | Inr (Inl (_, _, fuel, _)) \<Rightarrow> fuel | Inr (Inr (_, _, fuel, _)) \<Rightarrow> fuel,
       \<lambda>x. case x of Inl _ \<Rightarrow> 0 | Inr (Inl (_, _, _, _, _, count)) \<Rightarrow> Suc count
         | Inr (Inr (_, _, _, _, _, count)) \<Rightarrow> Suc count]") auto

section \<open>Loading\<close>

fun last_find_sub :: "'a list \<Rightarrow> 'a list \<Rightarrow> nat option" where
  "last_find_sub sub [] = (if sub = [] then Some 0 else None)"
| "last_find_sub sub (x # xs) =
     (case last_find_sub sub xs of
        Some i \<Rightarrow> Some (Suc i)
      | None \<Rightarrow> if prefix sub (x # xs) then Some 0 else None)"

definition readMetadata :: "geo_env \<Rightarrow> nat \<Rightarrow> geo_db \<Rightarrow> (qstring, geo_value) qmap rd" where
  "readMetadata e fuel db =
     (let skip = (if g_size db > MAX_METADATA_SIZE then g_size db - MAX_METADATA_SIZE else 0) in
      case last_find_sub METADATA_BEGIN_MARK (drop skip (g_data db)) of
        None \<Rightarrow> Ret []
      | Some index \<Rightarrow>
          rd_bind (readDataField e db fuel (u32 (int (index + skip + length METADATA_BEGIN_MARK)))) (\<lambda>(v, _).
            case v of GHash m \<Rightarrow> Ret m | _ \<Rightarrow> Ret []))"

text \<open>\<^verbatim>\<open>CHECK_METADATA_REQ\<close> and \<^verbatim>\<open>CHECK_METADATA_OPT\<close>, by the kind of value.\<close>

definition check_req :: "(qstring, geo_value) qmap \<Rightarrow> qstring \<Rightarrow> (geo_value \<Rightarrow> 'x option) \<Rightarrow> (geo_error, 'x) result" where
  "check_req metadata key kind =
     (case qmap_lookup metadata key of
        None \<Rightarrow> Inl (NotFoundKey key)
      | Some v \<Rightarrow> (case kind v of None \<Rightarrow> Inl (InvalidType key) | Some x \<Rightarrow> Inr x))"

definition check_opt :: "(qstring, geo_value) qmap \<Rightarrow> qstring \<Rightarrow> (geo_value \<Rightarrow> bool) \<Rightarrow> bool" where
  "check_opt metadata key kind = (case qmap_lookup metadata key of None \<Rightarrow> True | Some v \<Rightarrow> kind v)"

fun as_ushort where "as_ushort (GUShort n) = Some n" | "as_ushort _ = None"
fun as_uint where "as_uint (GUInt n) = Some n" | "as_uint _ = None"
fun as_string where "as_string (GString s) = Some s" | "as_string _ = None"
fun as_ulonglong where "as_ulonglong (GULongLong n) = Some n" | "as_ulonglong _ = None"
fun is_list where "is_list (GList _) = True" | "is_list _ = False"
fun is_hash where "is_hash (GHash _) = True" | "is_hash _ = False"

fun err_bind :: "('e, 'a) result \<Rightarrow> ('a \<Rightarrow> ('e, 'b) result) \<Rightarrow> ('e, 'b) result" where
  "err_bind (Inl e) f = Inl e" | "err_bind (Inr x) f = f x"

definition parseMetadata :: "(qstring, geo_value) qmap \<Rightarrow> geo_db \<Rightarrow> (geo_error, geo_db) result" where
  "parseMetadata metadata db =
     err_bind (check_req metadata ''binary_format_major_version'' as_ushort) (\<lambda>versionMajor.
     err_bind (check_req metadata ''binary_format_minor_version'' as_ushort) (\<lambda>versionMinor.
     if versionMajor \<noteq> 2 then Inl (UnsupportedVersion versionMajor versionMinor) else
     err_bind (check_req metadata ''ip_version'' as_ushort) (\<lambda>ipVersion.
     if ipVersion \<noteq> 6 then Inl (UnsupportedIpVersion ipVersion) else
     err_bind (check_req metadata ''record_size'' as_ushort) (\<lambda>recordSize.
     if recordSize \<noteq> 24 then Inl (UnsupportedRecordSize recordSize) else
     (let nodeSize = recordSize div 4; recordBytes = nodeSize div 2 in
     err_bind (check_req metadata ''node_count'' as_uint) (\<lambda>nodeCount.
     err_bind (check_req metadata ''database_type'' as_string) (\<lambda>dbType.
     err_bind (check_req metadata ''build_epoch'' as_ulonglong) (\<lambda>buildEpoch.
     if \<not> check_opt metadata ''languages'' is_list then Inl (InvalidType ''languages'')
     else if \<not> check_opt metadata ''description'' is_hash then Inl (InvalidType ''description'')
     else Inr (db\<lparr>g_ipVersion := ipVersion, g_recordSize := recordSize, g_nodeSize := nodeSize,
                  g_recordBytes := recordBytes, g_nodeCount := nodeCount,
                  g_indexSize := s32 (int nodeCount * int nodeSize), g_dbType := dbType,
                  g_buildEpoch := buildEpoch\<rparr>)))))))))"

text \<open>
  \<^verbatim>\<open>loadDB\<close>: the sum is one of \<^verbatim>\<open>size_t\<close>, so a negative index size of at least
  \<open>-16\<close> passes the check and the comparison reads in front of the data.
\<close>

definition loadDB :: "geo_db \<Rightarrow> (geo_error, geo_db) result rd" where
  "loadDB db =
     (let nodeSize = g_recordSize db div 4; indexSize = s32 (int (g_nodeCount db) * int nodeSize) in
      if int (g_size db) < (indexSize + 16) mod 2 ^ 64 then Ret (Inl NoDataSection)
      else if indexSize < 0 then OutOfBounds
      else rd_bind (bytes_at db (nat indexSize) 16) (\<lambda>bs.
        Ret (if bs = DATA_SECTION_SEPARATOR then Inr db else Inl NoDataSection)))"

definition new_db :: "qbytearray \<Rightarrow> geo_db" where
  "new_db data =
     \<lparr>g_ipVersion = 0, g_recordSize = 0, g_nodeCount = 0, g_nodeSize = 0, g_indexSize = 0, g_recordBytes = 0,
      g_buildEpoch = 0, g_dbType = [], g_countries = Map.empty, g_data = data\<rparr>"

definition load :: "geo_env \<Rightarrow> nat \<Rightarrow> qbytearray \<Rightarrow> (geo_error, geo_db) result rd" where
  "load e fuel data =
     (if length data > MAX_FILE_SIZE then Ret (Inl UnsupportedSize)
      else rd_bind (readMetadata e fuel (new_db data)) (\<lambda>metadata.
        case parseMetadata metadata (new_db data) of
          Inl err \<Rightarrow> Ret (Inl err)
        | Inr db \<Rightarrow> loadDB db))"

section \<open>Looking up an address\<close>

text \<open>The record for the next bit.\<close>

definition read_record :: "geo_db \<Rightarrow> nat \<Rightarrow> bool \<Rightarrow> nat rd" where
  "read_record db ptr right =
     rd_bind (bytes_at db (if right then ptr + g_recordBytes db else ptr) (g_recordBytes db)) (\<lambda>bs. Ret (big_endian bs))"

fun walk :: "geo_db \<Rightarrow> bool list \<Rightarrow> nat \<Rightarrow> nat option rd" where
  "walk db [] ptr = Ret None"
| "walk db (right # bits) ptr =
     rd_bind (read_record db ptr right) (\<lambda>i.
       if i = g_nodeCount db then Ret None
       else if i > g_nodeCount db then Ret (Some i)
       else walk db bits (u32 (int i * int (g_nodeSize db))))"

text \<open>\<^verbatim>\<open>QVariant::toHash\<close> and \<^verbatim>\<open>QVariant::toString\<close>.\<close>

fun toHash :: "geo_value \<Rightarrow> (qstring, geo_value) qmap" where
  "toHash (GHash h) = h" | "toHash _ = []"

fun toString :: "geo_env \<Rightarrow> geo_value \<Rightarrow> qstring" where
  "toString e GInvalid = []"
| "toString e (GString s) = s"
| "toString e (GHash h) = []"
| "toString e (GList l) = []"
| "toString e v = plainText e v"

definition country_of :: "geo_env \<Rightarrow> geo_value \<Rightarrow> qstring" where
  "country_of e v = toString e (qmap_value (toHash (qmap_value (toHash v) ''country'' GInvalid)) ''iso_code'' GInvalid)"

definition record_offset :: "geo_db \<Rightarrow> nat \<Rightarrow> nat" where
  "record_offset db i =
     (let offset = u32 (int i - int (g_nodeCount db) - 16) in u32 (int offset + g_indexSize db + 16))"

definition geo_lookup :: "geo_env \<Rightarrow> nat \<Rightarrow> geo_db \<Rightarrow> bool list \<Rightarrow> (qstring \<times> geo_db) rd" where
  "geo_lookup e fuel db bits =
     rd_bind (walk db bits 0) (\<lambda>r. case r of
       None \<Rightarrow> Ret ([], db)
     | Some i \<Rightarrow>
         (let country = (case g_countries db i of None \<Rightarrow> [] | Some c \<Rightarrow> c) in
          if country \<noteq> [] then Ret (country, db)
          else rd_bind (readDataField e db fuel (record_offset db i)) (\<lambda>(v, _).
            if is_hash v
            then Ret (country_of e v, db\<lparr>g_countries := (g_countries db)(i \<mapsto> country_of e v)\<rparr>)
            else Ret ([], db))))"

text \<open>The bits of an IPv6 address, most significant first.\<close>

definition address_bits :: "qbytearray \<Rightarrow> bool list" where
  "address_bits addr = concat (map (\<lambda>c. map (\<lambda>j. odd ((of_char c :: nat) div 2 ^ (7 - j))) [0 ..< 8]) addr)"

section \<open>Types of values\<close>

lemma rd_bind_eq_Ret [simp]: "rd_bind m f = Ret y \<longleftrightarrow> (\<exists>x. m = Ret x \<and> f x = Ret y)"
  by (cases m) auto

fun geo_typed :: "geo_value \<Rightarrow> bool" where
  "geo_typed (GUShort n) = (n < 2 ^ 16)"
| "geo_typed (GUInt n) = (n < 2 ^ 32)"
| "geo_typed (GULongLong n) = (n < 2 ^ 64)"
| "geo_typed (GInt n) = (- (2 ^ 31) \<le> n \<and> n < 2 ^ 31)"
| "geo_typed (GDouble n) = (n < 2 ^ 64)"
| "geo_typed (GFloat n) = (n < 2 ^ 32)"
| "geo_typed (GHash m) = (qmap_inv m \<and> list_all (\<lambda>(k, v). v \<noteq> GInvalid \<and> geo_typed v) m)"
| "geo_typed (GList vs) = list_all (\<lambda>v. v \<noteq> GInvalid \<and> geo_typed v) vs"
| "geo_typed _ = True"

lemma u32_less [simp]: "u32 n < 4294967296"
  using pos_mod_bound [of 4294967296 n] by (simp add: u32_def nat_less_iff)

lemma big_endian_less: "big_endian bs < 256 ^ length bs"
proof (induction bs)
  case (Cons c bs)
  have "of_char c * 256 ^ length bs + big_endian bs < (of_char c + 1) * 256 ^ length bs"
    using Cons.IH by simp
  also have "\<dots> \<le> 256 * 256 ^ length bs" using of_char_less_256 [of c] by (intro mult_right_mono) linarith+
  finally show ?case by simp
qed simp

lemma s32_bounds: "- 2147483648 \<le> s32 n" "s32 n < 2147483648"
  using pos_mod_bound [of 4294967296 n] pos_mod_sign [of 4294967296 n] by (auto simp: s32_def Let_def)

lemma bytes_at_length: "bytes_at db i n = Ret bs \<Longrightarrow> length bs = n"
  by (auto simp: bytes_at_def g_size_def split: if_splits)

lemma readPlainValue_bounds:
  assumes "readPlainValue db sz off len = Ret (n, off')" and "off < 4294967296"
  shows "n < 256 ^ sz" "off' < 4294967296"
proof -
  show "off' < 4294967296" using assms by (auto simp: readPlainValue_def Let_def split: if_splits)
  show "n < 256 ^ sz"
  proof (cases "n = 0")
    case False
    then obtain bs where "n = big_endian bs" "length bs = len mod 256" "len mod 256 \<le> sz"
      using assms by (auto simp: readPlainValue_def Let_def bytes_at_length split: if_splits)
    then show ?thesis using big_endian_less [of bs] power_increasing [of "len mod 256" sz "256 :: nat"]
      by (simp add: order_less_le_trans)
  qed simp
qed

lemma plain_typed:
  assumes "rd_bind (readPlainValue db sz off len) (\<lambda>(n, o1). Ret (mk n, o1)) = Ret (v, off')" and "off < 4294967296"
    and "\<And>n. n < 256 ^ sz \<Longrightarrow> geo_typed (mk n)"
  shows "geo_typed v \<and> off' < 4294967296"
  using assms(1,3) readPlainValue_bounds [OF _ assms(2)] by auto

lemma int_typed [simp]: "geo_typed (GInt (s32 k))"
  using s32_bounds [of k] by simp

lemma text_typed:
  "rd_bind m (\<lambda>bs. Ret (f bs, u32 n)) = Ret (v, off') \<Longrightarrow> (\<And>bs. geo_typed (f bs)) \<Longrightarrow> geo_typed v \<and> off' < 4294967296"
  by (cases m) auto

lemma readScalar_typed:
  assumes "readScalar e db t len off = Ret (v, off')" and "off < 4294967296"
  shows "geo_typed v \<and> off' < 4294967296"
proof -
  note r = assms(1) [unfolded readScalar_def Let_def]
  note plain = plain_typed [OF _ assms(2)]
  show ?thesis
  proof (cases t)
    case String
    then show ?thesis using r by (intro text_typed [where f = "\<lambda>bs. GString (fromUtf8 e bs)"]) simp_all
  next
    case Bytes
    then show ?thesis using r by (intro text_typed [where f = GBytes]) simp_all
  next
    case Double
    then show ?thesis using r assms(2) plain [of db 8 len GDouble] by (cases "len = 8") simp_all
  next
    case Integer16
    then show ?thesis using r plain [of db 2 len GUShort] by simp
  next
    case Integer32
    then show ?thesis using r plain [of db 4 len GUInt] by simp
  next
    case SignedInteger32
    then show ?thesis using plain [of db 4 len "\<lambda>n. GInt (s32 (int n))", OF _ int_typed] r
      by (simp del: rd_bind_eq_Ret geo_typed.simps)
  next
    case Integer64
    then show ?thesis using r plain [of db 8 len GULongLong] by simp
  next
    case Float
    then show ?thesis using r assms(2) plain [of db 4 len GFloat] by (cases "len = 4") simp_all
  next
    case Boolean
    then show ?thesis using r assms(2) by auto
  qed (use r assms(2) in simp_all)
qed

definition rd_all :: "('x \<Rightarrow> bool) \<Rightarrow> 'x rd \<Rightarrow> bool" where
  "rd_all P m \<longleftrightarrow> (case m of Ret x \<Rightarrow> P x | _ \<Rightarrow> True)"

lemma rd_all_Ret [simp]: "rd_all P (Ret x) = P x"
  by (simp add: rd_all_def)

lemma rd_all_bind: "(\<And>x. rd_all P (f x)) \<Longrightarrow> rd_all P (rd_bind m f)"
  by (cases m) (simp_all add: rd_all_def)

lemma rd_all_if: "rd_all P a \<Longrightarrow> rd_all P b \<Longrightarrow> rd_all P (if c then a else b)"
  by simp

lemma descriptor_offset:
  assumes "readDataFieldDescriptor db off = Ret (Some (t, len, off'))"
  shows "off' < 4294967296"
proof -
  have "rd_all (\<lambda>d. \<forall>t l n. d = Some (t, l, n) \<longrightarrow> n < 4294967296) (readDataFieldDescriptor db off)"
    unfolding readDataFieldDescriptor_def pointer_descriptor_def Let_def
    by (intro rd_all_bind rd_all_if; simp)
  then show ?thesis using assms by simp
qed

lemma insert_all: "list_all (\<lambda>(k, v). P v) m \<Longrightarrow> P v \<Longrightarrow> list_all (\<lambda>(k, v). P v) (qmap_insert k v m)"
  using set_qmap_insert_sub [of k v m] by (auto simp: list_all_iff)

lemma read_typed:
  "off < 4294967296 \<Longrightarrow> readDataField e db fuel off = Ret (v, off') \<Longrightarrow> geo_typed v \<and> off' < 4294967296"
  "off < 4294967296 \<Longrightarrow> geo_typed (GHash acc) \<Longrightarrow> readMapValue e db fuel acc off count = Ret (v, off') \<Longrightarrow>
     geo_typed v \<and> off' < 4294967296"
  "off < 4294967296 \<Longrightarrow> geo_typed (GList vs) \<Longrightarrow> readArrayValue e db fuel vs off count = Ret (v, off') \<Longrightarrow>
     geo_typed v \<and> off' < 4294967296"
proof (induction e db fuel off and e db fuel acc off count and e db fuel vs off count
    arbitrary: v off' and v off' and v off' rule: readDataField_readMapValue_readArrayValue.induct)
  case (2 e db fuel offset)
  from "2.prems"(2) obtain d where d: "readDataFieldDescriptor db offset = Ret d"
    by auto
  show ?case
  proof (cases d)
    case None
    then show ?thesis using "2.prems" d by simp
  next
    case (Some x)
    obtain tag len after where x: "x = (tag, len, after)" by (cases x)
    have af: "after < 4294967296" using d descriptor_offset by (simp add: Some x)
    from "2.prems"(2) d obtain d' where d': "(if tag = Pointer then readDataFieldDescriptor db (pointer_target db len) else Ret (Some (tag, len, after))) = Ret d'"
      by (auto simp: Some x)
    show ?thesis
    proof (cases d')
      case None
      then show ?thesis using "2.prems" d d' af by (auto simp: Some x)
    next
      case d's: (Some y)
      obtain ft fs loc where y: "y = (ft, fs, loc)" by (cases y)
      have loc: "loc < 4294967296" using d' descriptor_offset af by (auto simp: d's y split: if_splits)
      from "2.prems"(2) d d' obtain w behind where r: "(if ft = Map then readMapValue e db fuel [] loc fs
             else if ft = Array then readArrayValue e db fuel [] loc fs else readScalar e db ft fs loc) = Ret (w, behind)"
      and e: "v = w" "off' = (if tag = Pointer then after else behind)"
        by (auto simp: Some x d's y split: if_splits)
      have "geo_typed w \<and> behind < 4294967296"
      proof -
        note ih = "2.IH" [OF d Some x [symmetric] refl d' d's y [symmetric] refl]
        consider (map) "ft = Map" | (array) "ft = Array" | (plain) "ft \<noteq> Map" "ft \<noteq> Array" by blast
        then show ?thesis
        proof cases
          case map
          then show ?thesis using r loc ih(1) by simp
        next
          case array
          then show ?thesis using r loc ih(2) by simp
        next
          case plain
          then show ?thesis using r loc readScalar_typed by simp
        qed
      qed
      then show ?thesis using e af by simp
    qed
  qed
next
  case (4 e db fuel acc offset count)
  from "4.prems"(3) obtain k off1 where
    k: "readDataField e db fuel offset = Ret (k, off1)"
    and rest: "(case k of GString key \<Rightarrow>
         rd_bind (readDataField e db fuel off1) (\<lambda>(v, off2).
           if v = GInvalid then Ret (GInvalid, off2)
           else readMapValue e db fuel (qmap_insert key v acc) off2 count)
     | _ \<Rightarrow> Ret (GInvalid, off1)) = Ret (v, off')"
    by auto
  have o1: "off1 < 4294967296" using "4.IH"(1) [OF "4.prems"(1) k] by simp
  show ?case
  proof (cases "\<exists>key. k = GString key")
    case False
    then show ?thesis using rest o1 by (cases k) auto
  next
    case True
    then obtain key where key: "k = GString key" ..
    from rest obtain w off2 where
      w: "readDataField e db fuel off1 = Ret (w, off2)"
      and rest': "(if w = GInvalid then Ret (GInvalid, off2)
           else readMapValue e db fuel (qmap_insert key w acc) off2 count) = Ret (v, off')"
      by (auto simp: key)
    have ow: "geo_typed w" "off2 < 4294967296"
      using "4.IH"(2) [OF k refl key o1 w] by simp_all
    show ?thesis
    proof (cases "w = GInvalid")
      case False
      have "geo_typed (GHash (qmap_insert key w acc))"
        using "4.prems"(2) ow(1) False
          insert_all [where P = "\<lambda>v. v \<noteq> GInvalid \<and> geo_typed v" and m = acc and k = key and v = w] by simp
      from "4.IH"(3) [OF k refl key w refl False ow(2) this] rest' False show ?thesis by simp
    qed (use rest' ow in auto)
  qed
next
  case (6 e db fuel acc offset count)
  from "6.prems"(3) obtain w off1 where
    w: "readDataField e db fuel offset = Ret (w, off1)"
    and rest: "(if w = GInvalid then Ret (GInvalid, off1)
       else readArrayValue e db fuel (acc @ [w]) off1 count) = Ret (v, off')"
    by auto
  note ow = "6.IH"(1) [OF "6.prems"(1) w]
  show ?case
  proof (cases "w = GInvalid")
    case False
    then have "geo_typed (GList (acc @ [w]))" using "6.prems"(2) ow by simp
    from "6.IH"(2) [OF w refl False conjunct2 [OF ow] this] rest False show ?thesis by simp
  qed (use rest ow in auto)
qed auto

section \<open>A loaded database\<close>

definition db_typed :: "qbytearray \<Rightarrow> geo_db \<Rightarrow> bool" where
  "db_typed file db \<longleftrightarrow>
     g_data db = file \<and> length file \<le> MAX_FILE_SIZE
     \<and> g_ipVersion db = 6 \<and> g_recordSize db = 24 \<and> g_nodeSize db = 6 \<and> g_recordBytes db = 3
     \<and> g_nodeCount db < 2 ^ 32 \<and> g_buildEpoch db < 2 ^ 64
     \<and> 0 \<le> g_indexSize db \<and> g_indexSize db = int (6 * g_nodeCount db) mod 2 ^ 32
     \<and> nat (g_indexSize db) + 16 \<le> length file
     \<and> take 16 (drop (nat (g_indexSize db)) file) = DATA_SECTION_SEPARATOR
     \<and> g_countries db = Map.empty"

lemma err_bind_Inr [simp]: "err_bind m f = Inr y \<longleftrightarrow> (\<exists>x. m = Inr x \<and> f x = Inr y)"
  by (cases m) auto

lemma check_req_Inr [simp]:
  "check_req metadata key kind = Inr x \<longleftrightarrow> (\<exists>v. qmap_lookup metadata key = Some v \<and> kind v = Some x)"
  by (auto simp: check_req_def split: option.splits)

lemma as_simps [simp]:
  "as_ushort v = Some n \<longleftrightarrow> v = GUShort n" "as_uint v = Some n \<longleftrightarrow> v = GUInt n"
  "as_string v = Some s \<longleftrightarrow> v = GString s" "as_ulonglong v = Some n \<longleftrightarrow> v = GULongLong n"
  by (cases v; simp)+

lemma readMetadata_typed: "readMetadata e fuel db = Ret m \<Longrightarrow> geo_typed (GHash m)"
  by (auto simp: readMetadata_def Let_def split: option.splits if_splits geo_value.splits
      dest!: read_typed(1) [rotated])

lemma typed_lookup: "geo_typed (GHash m) \<Longrightarrow> qmap_lookup m k = Some v \<Longrightarrow> geo_typed v"
  by (auto simp: list_all_iff dest!: qmap_lookup_dom)

lemma parseMetadata_fields:
  assumes "parseMetadata metadata db = Inr db'" and "geo_typed (GHash metadata)"
  shows "\<exists>n t b. db' = db\<lparr>g_ipVersion := 6, g_recordSize := 24, g_nodeSize := 6, g_recordBytes := 3, g_nodeCount := n,
           g_indexSize := s32 (int n * 6), g_dbType := t, g_buildEpoch := b\<rparr> \<and> n < 2 ^ 32 \<and> b < 2 ^ 64
         \<and> qmap_lookup metadata ''node_count'' = Some (GUInt n)"
proof -
  from assms(1) obtain n t b where
    "db' = db\<lparr>g_ipVersion := 6, g_recordSize := 24, g_nodeSize := 6, g_recordBytes := 3, g_nodeCount := n,
       g_indexSize := s32 (int n * 6), g_dbType := t, g_buildEpoch := b\<rparr>"
    and l: "qmap_lookup metadata ''node_count'' = Some (GUInt n)"
      "qmap_lookup metadata ''build_epoch'' = Some (GULongLong b)"
    by (auto simp: parseMetadata_def Let_def split: if_splits)
  moreover from typed_lookup [OF assms(2) l(1)] typed_lookup [OF assms(2) l(2)] have "n < 2 ^ 32 \<and> b < 2 ^ 64" by simp
  ultimately show ?thesis by blast
qed

lemma loadDB_ok:
  assumes "loadDB db = Ret (Inr db')" and "g_recordSize db = 24" and "length (g_data db) \<le> MAX_FILE_SIZE"
  shows "db' = db" "0 \<le> s32 (int (g_nodeCount db) * 6)"
    "nat (s32 (int (g_nodeCount db) * 6)) + 16 \<le> length (g_data db)"
    "take 16 (drop (nat (s32 (int (g_nodeCount db) * 6))) (g_data db)) = DATA_SECTION_SEPARATOR"
proof -
  define ix where "ix = s32 (int (g_nodeCount db) * 6)"
  have "ix < 2147483648" using s32_bounds by (simp add: ix_def)
  then show "db' = db" "0 \<le> s32 (int (g_nodeCount db) * 6)"
    "nat (s32 (int (g_nodeCount db) * 6)) + 16 \<le> length (g_data db)"
    "take 16 (drop (nat (s32 (int (g_nodeCount db) * 6))) (g_data db)) = DATA_SECTION_SEPARATOR"
    using assms by (auto simp: loadDB_def Let_def bytes_at_def g_size_def ix_def split: if_splits)
qed

lemma load_typed:
  assumes "load e fuel file = Ret (Inr db)"
  shows "db_typed file db"
proof -
  from assms obtain metadata db' where
    m: "readMetadata e fuel (new_db file) = Ret metadata" and p: "parseMetadata metadata (new_db file) = Inr db'"
    and l: "loadDB db' = Ret (Inr db)" and f: "length file \<le> MAX_FILE_SIZE"
    by (auto simp: load_def split: if_splits) (auto split: sum.splits)
  from parseMetadata_fields [OF p readMetadata_typed [OF m]] obtain n t b where
    db': "db' = (new_db file)\<lparr>g_ipVersion := 6, g_recordSize := 24, g_nodeSize := 6, g_recordBytes := 3, g_nodeCount := n,
       g_indexSize := s32 (int n * 6), g_dbType := t, g_buildEpoch := b\<rparr>" and n: "n < 2 ^ 32" "b < 2 ^ 64"
    by blast
  have "g_recordSize db' = 24" "length (g_data db') \<le> MAX_FILE_SIZE" using f by (simp_all add: db' new_db_def)
  note ok = loadDB_ok [OF l this]
  have "s32 (int n * 6) = int (6 * n) mod 2 ^ 32" using ok(2) by (auto simp: db' s32_def Let_def mult.commute split: if_splits)
  then show ?thesis using f n ok by (simp add: db_typed_def db' new_db_def)
qed

lemma read_record_ok:
  assumes "db_typed file db" and "ptr + 6 \<le> length file"
  shows "\<exists>i. read_record db ptr right = Ret i \<and> i < 2 ^ 24"
proof -
  have "\<exists>bs. bytes_at db (if right then ptr + 3 else ptr) 3 = Ret bs"
    using assms by (simp add: bytes_at_def g_size_def db_typed_def)
  then obtain bs where "bytes_at db (if right then ptr + 3 else ptr) 3 = Ret bs" ..
  then show ?thesis
    using assms(1) big_endian_less [of bs]
    by (intro exI [of _ "big_endian bs"]) (auto simp: read_record_def db_typed_def bytes_at_length)
qed

lemma walk_in_bounds:
  assumes "db_typed file db" and "6 * g_nodeCount db < 2 ^ 32"
  shows "ptr + 6 \<le> length file \<Longrightarrow>
    \<exists>r. walk db bits ptr = Ret r \<and> (\<forall>i. r = Some i \<longrightarrow> g_nodeCount db < i \<and> i < 2 ^ 24)"
proof (induction bits arbitrary: ptr)
  case (Cons right bits)
  from read_record_ok [OF assms(1) Cons.prems] obtain i where
    i: "read_record db ptr right = Ret i" "i < 2 ^ 24" by blast
  show ?case
  proof (cases "i < g_nodeCount db")
    case True
    have "u32 (int i * 6) = 6 * i" using i(2) by (simp add: u32_def)
    moreover have "6 * i + 6 \<le> length file"
    proof -
      have "nat (g_indexSize db) = 6 * g_nodeCount db" using assms by (simp add: db_typed_def nat_mult_distrib)
      then have "6 * g_nodeCount db \<le> length file" using assms(1) by (simp add: db_typed_def)
      then show ?thesis using True by simp
    qed
    ultimately show ?thesis using Cons.IH [of "6 * i"] i True assms(1) by (simp add: db_typed_def)
  qed (use i in auto)
qed simp

lemma walk_from_root:
  assumes "load e fuel file = Ret (Inr db)" and "6 * g_nodeCount db < 2 ^ 32"
  shows "\<exists>r. walk db bits 0 = Ret r \<and> (\<forall>i. r = Some i \<longrightarrow> g_nodeCount db < i \<and> i < 2 ^ 24)"
  using walk_in_bounds [OF load_typed [OF assms(1)] assms(2), of 0 bits] load_typed [OF assms(1)]
  by (simp add: db_typed_def)

end
