(* ===== verification/GeoIP_Format.thy ===== *)
theory GeoIP_Format
  imports GeoIP
begin

text \<open>
  The format read by \<^verbatim>\<open>GeoIPDatabase\<close>, from the side of a writer: encoded values are read back
  as they were, a whole file loads, and the lookups of addresses agree with the tree of networks that the index
  stands for. The last section holds damaged files that the reader does not cope with.
\<close>

section \<open>The format\<close>

text \<open>A value as a writer of the format stores it: integers without leading zeros, no pointers.\<close>

fun be_bytes :: "nat \<Rightarrow> qbytearray" where
  "be_bytes n = (if n = 0 then [] else be_bytes (n div 256) @ [char_of n])"

declare be_bytes.simps [simp del]

definition be_fixed :: "nat \<Rightarrow> nat \<Rightarrow> qbytearray" where
  "be_fixed k n = replicate (k - length (be_bytes n)) (CHR 0x00) @ be_bytes n"

definition field_head :: "nat \<Rightarrow> nat \<Rightarrow> qbytearray" where
  "field_head t len =
     (if 8 \<le> t then [char_of len, char_of (t - 7)]
      else if len \<le> 28 then [char_of (t * 32 + len)]
      else if len < 285 then [char_of (t * 32 + 29), char_of (len - 29)]
      else if len < 65821 then [char_of (t * 32 + 30), char_of ((len - 285) div 256), char_of (len - 285)]
      else [char_of (t * 32 + 31), char_of ((len - 65821) div 65536), char_of ((len - 65821) div 256),
            char_of (len - 65821)])"

definition counted :: "nat \<Rightarrow> qbytearray \<Rightarrow> qbytearray" where
  "counted t bs = field_head t (length bs) @ bs"

fun encode :: "(qstring \<Rightarrow> qbytearray) \<Rightarrow> geo_value \<Rightarrow> qbytearray" where
  "encode utf8 GInvalid = []"
| "encode utf8 (GString s) = counted 2 (utf8 s)"
| "encode utf8 (GDouble n) = counted 3 (be_fixed 8 n)"
| "encode utf8 (GBytes bs) = counted 4 bs"
| "encode utf8 (GUShort n) = counted 5 (be_bytes n)"
| "encode utf8 (GUInt n) = counted 6 (be_bytes n)"
| "encode utf8 (GHash h) =
     field_head 7 (length h) @ concat (map (\<lambda>(k, v). counted 2 (utf8 k) @ encode utf8 v) h)"
| "encode utf8 (GInt n) = counted 8 (be_bytes (u32 n))"
| "encode utf8 (GULongLong n) = counted 9 (be_bytes n)"
| "encode utf8 (GList vs) = field_head 11 (length vs) @ concat (map (encode utf8) vs)"
| "encode utf8 (GBool b) = field_head 14 (if b then 1 else 0)"
| "encode utf8 (GFloat n) = counted 15 (be_fixed 4 n)"

definition text_ok :: "geo_env \<Rightarrow> (qstring \<Rightarrow> qbytearray) \<Rightarrow> qstring \<Rightarrow> bool" where
  "text_ok e utf8 s \<longleftrightarrow> fromUtf8 e (utf8 s) = s \<and> length (utf8 s) < 65821 + 2 ^ 24"

fun storable :: "geo_env \<Rightarrow> (qstring \<Rightarrow> qbytearray) \<Rightarrow> geo_value \<Rightarrow> bool" where
  "storable e utf8 GInvalid = False"
| "storable e utf8 (GString s) = text_ok e utf8 s"
| "storable e utf8 (GBytes bs) = (length bs < 65821 + 2 ^ 24)"
| "storable e utf8 (GHash h) =
     (length h < 65821 + 2 ^ 24 \<and> qmap_inv h \<and> list_all (\<lambda>(k, v). text_ok e utf8 k \<and> storable e utf8 v) h)"
| "storable e utf8 (GList vs) = (length vs \<le> 28 \<and> list_all (storable e utf8) vs)"
| "storable e utf8 v = geo_typed v"

fun nesting :: "geo_value \<Rightarrow> nat" where
  "nesting (GHash h) = Suc (foldr max (map (\<lambda>(k, v). nesting v) h) 1)"
| "nesting (GList vs) = Suc (foldr max (map nesting vs) 1)"
| "nesting _ = 1"

lemma big_endian_append: "big_endian (a @ b) = big_endian a * 256 ^ length b + big_endian b"
  by (induction a) (simp_all add: algebra_simps power_add)

lemma big_endian_be [simp]: "big_endian (be_bytes n) = n"
proof (induction n rule: be_bytes.induct)
  case (1 n)
  then show ?case by (subst be_bytes.simps) (auto simp: big_endian_append)
qed

lemma length_be_bytes: "n < 256 ^ k \<Longrightarrow> length (be_bytes n) \<le> k"
proof (induction n arbitrary: k rule: be_bytes.induct)
  case (1 n)
  show ?case
  proof (cases "n = 0")
    case False
    then obtain k' where k: "k = Suc k'" using "1.prems" by (cases k) auto
    have "n div 256 < 256 ^ k'" using "1.prems" by (simp add: k less_mult_imp_div_less mult.commute)
    from "1.IH" [OF False this] False show ?thesis by (subst be_bytes.simps) (simp add: k)
  qed (simp add: be_bytes.simps)
qed

lemma big_endian_fixed [simp]: "big_endian (be_fixed k n) = n"
proof -
  have "big_endian (replicate j (CHR 0x00)) = 0" for j by (induction j) simp_all
  then show ?thesis by (simp add: be_fixed_def big_endian_append)
qed

lemma length_be_fixed: "n < 256 ^ k \<Longrightarrow> length (be_fixed k n) = k"
  using length_be_bytes [of n k] by (simp add: be_fixed_def)

section \<open>Reading what was written\<close>

definition at :: "geo_db \<Rightarrow> nat \<Rightarrow> qbytearray \<Rightarrow> qbytearray \<Rightarrow> bool" where
  "at db off bs rest \<longleftrightarrow> drop off (g_data db) = bs @ rest \<and> off < length (g_data db) \<and> length (g_data db) < 2 ^ 31"

lemma at_byte:
  assumes "at db off bs rest" and "i < length bs"
  shows "byte db (off + i) = Ret (of_char (bs ! i))"
proof -
  have "length (drop off (g_data db)) = length bs + length rest" using assms(1) by (simp add: at_def)
  then have "off + i < length (g_data db)" using assms(2) by simp
  moreover have "g_data db ! (off + i) = bs ! i"
    using assms nth_drop [of off "g_data db" i] by (simp add: at_def nth_append)
  ultimately show ?thesis by (simp add: byte_def g_size_def)
qed

lemma at_size: "at db off bs rest \<Longrightarrow> off + length bs + length rest = g_size db"
  by (auto simp: at_def g_size_def dest!: arg_cong [where f = length])

lemma at_small: "at db off bs rest \<Longrightarrow> g_size db < 2 ^ 31"
  by (simp add: at_def g_size_def)

lemma at_bytes: "at db off bs rest \<Longrightarrow> bytes_at db off (length bs) = Ret bs"
  using at_size [of db off bs rest] by (auto simp: bytes_at_def at_def)

lemma at_append: "at db off (a @ b) rest \<Longrightarrow> at db off a (b @ rest)"
  by (simp add: at_def)

lemma at_next: "at db off (a @ b) rest \<Longrightarrow> b @ rest \<noteq> [] \<Longrightarrow> at db (off + length a) b rest"
proof -
  assume a: "at db off (a @ b) rest" and ne: "b @ rest \<noteq> []"
  have "drop (off + length a) (g_data db) = drop (length a) (drop off (g_data db))" by (simp add: add.commute)
  also have "\<dots> = b @ rest" using a by (simp add: at_def del: drop_drop)
  finally have d: "drop (off + length a) (g_data db) = b @ rest" .
  have "0 < length b + length rest" using ne by simp
  then have "off + length a < length (g_data db)" using at_size [OF a] unfolding g_size_def length_append by linarith
  with d show ?thesis using a by (simp add: at_def)
qed

lemma u32_small [simp]: "n < 4294967296 \<Longrightarrow> u32 (int n) = n"
  by (simp add: u32_def)

lemma type_number:
  assumes "t < 16"
  shows "data_types ! t = Pointer \<longleftrightarrow> t = 1" "data_types ! t = Unknown \<longleftrightarrow> t = 0"
    "data_types ! t = Map \<longleftrightarrow> t = 7" "data_types ! t = Array \<longleftrightarrow> t = 11"
proof -
  have d: "distinct data_types" "length data_types = 16" by (simp_all add: data_types_def)
  have nth: "data_types ! 1 = Pointer" "data_types ! 0 = Unknown" "data_types ! 7 = Map" "data_types ! 11 = Array"
    by (simp_all add: data_types_def)
  show "data_types ! t = Pointer \<longleftrightarrow> t = 1" "data_types ! t = Unknown \<longleftrightarrow> t = 0"
    "data_types ! t = Map \<longleftrightarrow> t = 7" "data_types ! t = Array \<longleftrightarrow> t = 11"
    using nth_eq_iff_index_eq [OF d(1), of t] assms by (simp_all add: d(2) flip: nth)
qed

lemma head_avail:
  assumes "at db off h rest" and "length h = n"
  shows "s32 (int (g_size db) - int off) = int (n + length rest)" "off + n \<le> g_size db" "u32 (int off + int n) = off + n"
proof -
  have "off + n + length rest = g_size db" "g_size db < 2147483648"
    using at_size [OF assms(1)] at_small [OF assms(1)] assms(2) by simp_all
  then have e: "int (g_size db) - int off = int (n + length rest)" "n + length rest < 2147483648" "off + n < 2147483648"
    "off + n \<le> g_size db" by simp_all
  show "s32 (int (g_size db) - int off) = int (n + length rest)" using e by (simp add: s32_def Let_def)
  show "off + n \<le> g_size db" by (fact e(4))
  show "u32 (int off + int n) = off + n" using e(3) by (simp add: u32_def)
qed

lemma descriptor_short:
  assumes "at db off [char_of (t * 32 + len)] rest" and "2 \<le> t" "t < 8" "len \<le> 28"
  shows "readDataFieldDescriptor db off = Ret (Some (data_types ! t, len, off + 1))"
  using at_byte [OF assms(1), of 0] head_avail [OF assms(1), of 1] assms(2-) type_number [of t]
  by (simp add: readDataFieldDescriptor_def Let_def)

lemma descriptor_extended:
  assumes "at db off [char_of len, char_of (t - 7)] rest" and "8 \<le> t" "t < 16" "len \<le> 28" "rest \<noteq> []"
  shows "readDataFieldDescriptor db off = Ret (Some (data_types ! t, len, off + 2))"
proof -
  have "0 < length rest" using assms(5) by simp
  then show ?thesis
  using at_byte [OF assms(1), of 0] at_byte [OF assms(1), of 1] head_avail [OF assms(1), of 2] assms(2-)
    type_number [of 0]
  by (simp add: readDataFieldDescriptor_def Let_def)
qed

lemma descriptor_29:
  assumes "at db off [char_of (t * 32 + 29), char_of n] rest" and "2 \<le> t" "t < 8" "n < 256"
  shows "readDataFieldDescriptor db off = Ret (Some (data_types ! t, n + 29, off + 2))"
  using at_byte [OF assms(1), of 0] at_byte [OF assms(1), of 1] head_avail [OF assms(1), of 2] assms(2-)
    type_number [of t]
  by (simp add: readDataFieldDescriptor_def Let_def)

lemma descriptor_30:
  assumes "at db off [char_of (t * 32 + 30), char_of (n div 256), char_of n] rest" and "2 \<le> t" "t < 8" "n < 65536"
  shows "readDataFieldDescriptor db off = Ret (Some (data_types ! t, n + 285, off + 3))"
proof -
  have "n div 256 mod 256 * 256 + n mod 256 = n" using assms(4) by (simp add: less_mult_imp_div_less)
  then show ?thesis
    using at_byte [OF assms(1), of 0] at_byte [OF assms(1), of 1] at_byte [OF assms(1), of 2]
      head_avail [OF assms(1), of 3] assms(2,3) type_number [of t]
    by (simp add: readDataFieldDescriptor_def Let_def)
qed

lemma descriptor_31:
  assumes "at db off [char_of (t * 32 + 31), char_of (n div 65536), char_of (n div 256), char_of n] rest"
    and "2 \<le> t" "t < 8" "n < 2 ^ 24"
  shows "readDataFieldDescriptor db off = Ret (Some (data_types ! t, n + 65821, off + 4))"
proof -
  have "n div 65536 < 256" using assms(4) by (simp add: less_mult_imp_div_less)
  moreover have "n div 65536 * 65536 + n div 256 mod 256 * 256 + n mod 256 = n"
  proof -
    have "n div 65536 = n div 256 div 256" by (simp flip: div_mult2_eq)
    then show ?thesis using div_mult_mod_eq [of "n div 256" 256] div_mult_mod_eq [of n 256] by linarith
  qed
  ultimately show ?thesis
    using at_byte [OF assms(1), of 0] at_byte [OF assms(1), of 1] at_byte [OF assms(1), of 2] at_byte [OF assms(1), of 3]
      head_avail [OF assms(1), of 4] assms(2,3) type_number [of t]
    by (simp add: readDataFieldDescriptor_def Let_def)
qed

lemma descriptor_head:
  assumes "at db off (field_head t len) rest" and "2 \<le> t" "t < 16"
    and "rest \<noteq> [] \<or> t < 8" and "len < (if t < 8 then 65821 + 2 ^ 24 else 29)"
  shows "readDataFieldDescriptor db off = Ret (Some (data_types ! t, len, off + length (field_head t len)))"
proof -
  consider "8 \<le> t" | "t < 8" "len \<le> 28" | "t < 8" "28 < len" "len < 285" | "t < 8" "285 \<le> len" "len < 65821"
    | "t < 8" "65821 \<le> len" by linarith
  then show ?thesis
  proof cases
    case 1
    then show ?thesis using descriptor_extended [of db off len t rest] assms by (simp add: field_head_def)
  next
    case 2
    then show ?thesis using descriptor_short [of db off t len rest] assms by (simp add: field_head_def)
  next
    case 3
    then show ?thesis using descriptor_29 [of db off t "len - 29" rest] assms by (simp add: field_head_def)
  next
    case 4
    then show ?thesis using descriptor_30 [of db off t "len - 285" rest] assms by (simp add: field_head_def)
  next
    case 5
    then show ?thesis using descriptor_31 [of db off t "len - 65821" rest] assms by (simp add: field_head_def)
  qed
qed


lemma plain_read:
  assumes "at db off bs rest" and "length bs \<le> sz" and "sz < 256" and "bs = [] \<longrightarrow> n = 0" and "big_endian bs = n"
  shows "readPlainValue db sz off (length bs) = Ret (n, off + length bs)"
proof -
  note s = head_avail [OF assms(1) refl] at_size [OF assms(1)] at_small [OF assms(1)]
  have "u32 (int (g_size db) - int off) = length bs + length rest"
    using s(4,5) by (simp add: u32_def flip: s(4))
  then show ?thesis using at_bytes [OF assms(1)] assms(2-) s(3) by (auto simp: readPlainValue_def Let_def)
qed


declare readDataField.simps(2) [simp del]

lemma rd_bind_id [simp]: "rd_bind m (\<lambda>(v, off). Ret (v, off)) = m"
  by (cases m) auto

lemma rd_bind_Ret [simp]: "rd_bind m Ret = m"
  by (cases m) auto

lemma nesting_pos [simp]: "1 \<le> nesting v"
  by (cases v) auto

lemma at_head:
  assumes "at db off (field_head t len @ body) rest" and "rest \<noteq> []"
  shows "at db off (field_head t len) (body @ rest)" "at db (off + length (field_head t len)) body rest"
  using at_append [OF assms(1)] at_next [OF assms(1)] assms(2) by simp_all

lemma read_head:
  assumes "at db off (field_head t len @ body) rest" and "rest \<noteq> []" and "2 \<le> t" "t < 16"
    and "len < (if t < 8 then 65821 + 2 ^ 24 else 29)"
  shows "readDataField e db (Suc fuel) off =
    (if t = 7 then readMapValue e db fuel [] (off + length (field_head t len)) len
     else if t = 11 then readArrayValue e db fuel [] (off + length (field_head t len)) len
     else readScalar e db (data_types ! t) len (off + length (field_head t len)))"
proof -
  note d = descriptor_head [OF at_head(1) [OF assms(1,2)] assms(3,4) _ assms(5)]
  show ?thesis using d assms(2,3) type_number [OF assms(4)] by (simp add: readDataField.simps(2))
qed

lemma read_counted:
  assumes "at db off (counted t bs) rest" and "rest \<noteq> []" and "2 \<le> t" "t < 16" "t \<notin> {7, 11}"
    and "length bs < (if t < 8 then 65821 + 2 ^ 24 else 29)"
    and "\<And>loc. at db loc bs rest \<Longrightarrow> readScalar e db (data_types ! t) (length bs) loc = Ret (v, loc + length bs)"
  shows "readDataField e db (Suc fuel) off = Ret (v, off + length (counted t bs))"
  using read_head [of db off t "length bs" bs rest] at_head(2) [of db off t "length bs" bs rest] assms
  by (simp add: counted_def)

lemma scalar_string:
  assumes "at db loc (utf8 s) rest" and "text_ok e utf8 s"
  shows "readScalar e db String (length (utf8 s)) loc = Ret (GString s, loc + length (utf8 s))"
  using at_bytes [OF assms(1)] head_avail(3) [OF assms(1) refl] assms(2) by (simp add: readScalar_def text_ok_def)

lemma read_string:
  assumes "at db off (counted 2 (utf8 s)) rest" and "rest \<noteq> []" and "text_ok e utf8 s"
  shows "readDataField e db (Suc fuel) off = Ret (GString s, off + length (counted 2 (utf8 s)))"
  by (rule read_counted [OF assms(1,2)])
    (use assms(3) scalar_string [of db _ utf8 s rest e] in \<open>auto simp: text_ok_def data_types_def\<close>)

lemma scalar_bytes:
  assumes "at db loc bs rest"
  shows "readScalar e db Bytes (length bs) loc = Ret (GBytes bs, loc + length bs)"
  using at_bytes [OF assms] head_avail(3) [OF assms refl] by (simp add: readScalar_def)

lemma be_empty: "be_bytes n = [] \<longrightarrow> n = 0"
  by (subst be_bytes.simps) simp

lemma read_plain:
  assumes "at db off (counted t bs) rest" and "rest \<noteq> []" and "2 \<le> t" "t < 16" "t \<notin> {7, 11}"
    and "length bs \<le> sz" "sz \<le> 8" and "bs = [] \<longrightarrow> n = 0" and "big_endian bs = n"
    and "\<And>loc. readScalar e db (data_types ! t) (length bs) loc =
           rd_bind (readPlainValue db sz loc (length bs)) (\<lambda>(n, off). Ret (mk n, off))"
  shows "readDataField e db (Suc fuel) off = Ret (mk n, off + length (counted t bs))"
proof (rule read_counted [OF assms(1-5)])
  fix loc
  assume a: "at db loc bs rest"
  have "sz < 256" using assms(7) by simp
  from plain_read [OF a assms(6) this assms(8,9)]
  show "readScalar e db (data_types ! t) (length bs) loc = Ret (mk n, loc + length bs)" by (simp add: assms(10))
qed (use assms(6,7) in simp)

lemma s32_u32 [simp]:
  assumes "- 2147483648 \<le> n" "n < 2147483648"
  shows "s32 (int (u32 n)) = n"
proof (cases "0 \<le> n")
  case True
  then show ?thesis using assms by (simp add: s32_def u32_def)
next
  case False
  have "n mod 4294967296 = (n + 4294967296) mod 4294967296" by simp
  also have "\<dots> = n + 4294967296" using assms False by (intro mod_pos_pos_trivial) simp_all
  finally show ?thesis using assms False by (simp add: s32_def u32_def)
qed

lemmas scalar_defs = readScalar_def data_types_def Let_def

lemma read_scalar:
  assumes "at db off (encode utf8 v) rest" and "rest \<noteq> []" and "storable e utf8 v"
    and "\<forall>h. v \<noteq> GHash h" "\<forall>vs. v \<noteq> GList vs"
  shows "readDataField e db (Suc fuel) off = Ret (v, off + length (encode utf8 v))"
proof (cases v)
  case (GString s)
  then show ?thesis using read_string assms(1-3) by simp
next
  case (GBytes bs)
  have "at db off (counted 4 bs) rest" using assms(1) by (simp add: GBytes)
  from read_counted [OF this assms(2)] scalar_bytes [of db _ bs rest e] show ?thesis
    using assms(3) by (simp add: GBytes data_types_def)
next
  case (GDouble n)
  have l: "length (be_fixed 8 n) = 8" "be_fixed 8 n \<noteq> []" using assms(3) length_be_fixed [of n 8] by (auto simp: GDouble)
  have "at db off (counted 3 (be_fixed 8 n)) rest" using assms(1) by (simp add: GDouble)
  from read_plain [OF this assms(2), of 8 n e GDouble fuel] l show ?thesis by (auto simp: GDouble scalar_defs)
next
  case (GFloat n)
  have l: "length (be_fixed 4 n) = 4" "be_fixed 4 n \<noteq> []" using assms(3) length_be_fixed [of n 4] by (auto simp: GFloat)
  have "at db off (counted 15 (be_fixed 4 n)) rest" using assms(1) by (simp add: GFloat)
  from read_plain [OF this assms(2), of 4 n e GFloat fuel] l show ?thesis by (auto simp: GFloat scalar_defs)
next
  case (GUShort n)
  have l: "length (be_bytes n) \<le> 2" using assms(3) by (intro length_be_bytes) (simp add: GUShort)
  have "at db off (counted 5 (be_bytes n)) rest" using assms(1) by (simp add: GUShort)
  from read_plain [OF this assms(2), of 2 n e GUShort fuel] l be_empty show ?thesis by (simp add: GUShort scalar_defs)
next
  case (GUInt n)
  have l: "length (be_bytes n) \<le> 4" using assms(3) by (intro length_be_bytes) (simp add: GUInt)
  have "at db off (counted 6 (be_bytes n)) rest" using assms(1) by (simp add: GUInt)
  from read_plain [OF this assms(2), of 4 n e GUInt fuel] l be_empty show ?thesis by (simp add: GUInt scalar_defs)
next
  case (GInt n)
  have l: "length (be_bytes (u32 n)) \<le> 4" using u32_less [of n] by (intro length_be_bytes) simp
  have "at db off (counted 8 (be_bytes (u32 n))) rest" using assms(1) by (simp add: GInt)
  from read_plain [OF this assms(2), of 4 "u32 n" e "\<lambda>n. GInt (s32 (int n))" fuel] l be_empty assms(3)
  show ?thesis by (simp add: GInt scalar_defs)
next
  case (GULongLong n)
  have l: "length (be_bytes n) \<le> 8" using assms(3) by (intro length_be_bytes) (simp add: GULongLong)
  have "at db off (counted 9 (be_bytes n)) rest" using assms(1) by (simp add: GULongLong)
  from read_plain [OF this assms(2), of 8 n e GULongLong fuel] l be_empty show ?thesis by (simp add: GULongLong scalar_defs)
next
  case (GBool b)
  then show ?thesis using read_head [of db off 14 "if b then 1 else 0" "[]" rest e fuel] assms(1,2)
    by (simp add: scalar_defs)
qed (use assms in auto)


lemma foldr_max_le: "foldr max xs a \<le> (n :: nat) \<longleftrightarrow> a \<le> n \<and> (\<forall>x \<in> set xs. x \<le> n)"
  by (induction xs) auto

lemma foldr_max_pos [simp]: "foldr max xs (Suc 0) \<noteq> 0"
  by (induction xs) auto

abbreviation entries :: "(qstring \<Rightarrow> qbytearray) \<Rightarrow> (qstring, geo_value) qmap \<Rightarrow> qbytearray" where
  "entries utf8 m \<equiv> concat (map (\<lambda>(k, v). counted 2 (utf8 k) @ encode utf8 v) m)"

text \<open>Every read of a value of the list succeeds, wherever it stands.\<close>

definition readable :: "geo_env \<Rightarrow> (qstring \<Rightarrow> qbytearray) \<Rightarrow> geo_db \<Rightarrow> nat \<Rightarrow> geo_value \<Rightarrow> bool" where
  "readable e utf8 db fuel v \<longleftrightarrow> v \<noteq> GInvalid \<and>
     (\<forall>off rest. at db off (encode utf8 v) rest \<longrightarrow> rest \<noteq> [] \<longrightarrow>
        readDataField e db fuel off = Ret (v, off + length (encode utf8 v)))"

lemma field_head_not_Nil [simp]: "field_head t len \<noteq> []" "counted t bs \<noteq> []"
  by (simp_all add: field_head_def counted_def)

lemma encode_not_Nil: "v \<noteq> GInvalid \<Longrightarrow> encode utf8 v \<noteq> []"
  by (cases v) simp_all

lemma read_entries:
  assumes "\<forall>(k, v) \<in> set m. text_ok e utf8 k \<and> readable e utf8 db (Suc fuel) v" and "qmap_inv (acc @ m)"
    and "at db off (entries utf8 m) rest" and "rest \<noteq> []"
  shows "readMapValue e db (Suc fuel) acc off (length m) = Ret (GHash (acc @ m), off + length (entries utf8 m))"
  using assms
proof (induction m arbitrary: acc off)
  case (Cons x m)
  obtain k v where x: "x = (k, v)" by (cases x)
  have r: "text_ok e utf8 k" "readable e utf8 db (Suc fuel) v" using Cons.prems(1) by (simp_all add: x)
  have a: "at db off (counted 2 (utf8 k) @ encode utf8 v @ entries utf8 m) rest" using Cons.prems(3) by (simp add: x)
  note key = read_string [OF at_append [OF a] _ r(1), of fuel]
  have av: "at db (off + length (counted 2 (utf8 k))) (encode utf8 v @ entries utf8 m) rest"
    using at_next [OF a] Cons.prems(4) by simp
  have vne: "v \<noteq> GInvalid" using r(2) by (simp add: readable_def)
  have val: "readDataField e db (Suc fuel) (off + length (counted 2 (utf8 k)))
      = Ret (v, off + length (counted 2 (utf8 k)) + length (encode utf8 v))"
    using r(2) at_append [OF av] Cons.prems(4) by (simp add: readable_def)
  have am: "at db (off + length (counted 2 (utf8 k)) + length (encode utf8 v)) (entries utf8 m) rest"
    using at_next [OF av] Cons.prems(4) by simp
  have "qmap_insert k v acc = acc @ [(k, v)]" using Cons.prems(2)
    by (intro qmap_insert_last) (auto simp: qmap_inv_def sorted_wrt_append x)
  then show ?case
    using Cons.IH [of "acc @ [(k, v)]", OF _ _ am Cons.prems(4)] Cons.prems key val vne by (simp add: x)
qed simp

lemma read_items:
  assumes "\<forall>v \<in> set vs. readable e utf8 db (Suc fuel) v"
    and "at db off (concat (map (encode utf8) vs)) rest" and "rest \<noteq> []"
  shows "readArrayValue e db (Suc fuel) acc off (length vs) = Ret (GList (acc @ vs), off + length (concat (map (encode utf8) vs)))"
  using assms
proof (induction vs arbitrary: acc off)
  case (Cons v vs)
  have r: "readable e utf8 db (Suc fuel) v" using Cons.prems(1) by simp
  have a: "at db off (encode utf8 v @ concat (map (encode utf8) vs)) rest" using Cons.prems(2) by simp
  have val: "readDataField e db (Suc fuel) off = Ret (v, off + length (encode utf8 v))" "v \<noteq> GInvalid"
    using r at_append [OF a] Cons.prems(3) by (simp_all add: readable_def)
  have "at db (off + length (encode utf8 v)) (concat (map (encode utf8) vs)) rest"
    using at_next [OF a] Cons.prems(3) by simp
  from Cons.IH [OF _ this Cons.prems(3), of "acc @ [v]"] Cons.prems(1) val show ?case by simp
qed simp

lemma read_stored:
  assumes "storable e utf8 v" and "nesting v \<le> fuel" and "at db off (encode utf8 v) rest" and "rest \<noteq> []"
  shows "readDataField e db fuel off = Ret (v, off + length (encode utf8 v))"
  using assms
proof (induction fuel arbitrary: v off rest)
  case 0
  then show ?case using nesting_pos [of v] by simp
next
  case (Suc fuel)
  have nested: "readable e utf8 db fuel w" if "storable e utf8 w" "nesting w \<le> fuel" for w
    using Suc.IH [OF that] that(1) by (auto simp: readable_def)
  show ?case
  proof (cases "(\<exists>h. v = GHash h) \<or> (\<exists>vs. v = GList vs)")
    case False
    then show ?thesis using read_scalar Suc.prems by simp
  next
    case True
    then obtain f where f: "fuel = Suc f" using Suc.prems(2) by (cases fuel) auto
    from True show ?thesis
    proof (elim disjE exE)
      fix h
      assume v: "v = GHash h"
      have "text_ok e utf8 k \<and> readable e utf8 db fuel w" if "(k, w) \<in> set h" for k w
        using Suc.prems(1,2) that nested [of w] by (fastforce simp: v foldr_max_le list_all_iff)
      then have "\<forall>(k, w) \<in> set h. text_ok e utf8 k \<and> readable e utf8 db fuel w" by blast
      then show ?thesis
        using read_entries [of h e utf8 db f "[]"] read_head [of db off 7 "length h" "entries utf8 h" rest e fuel]
          at_head(2) [of db off 7 "length h" "entries utf8 h" rest] Suc.prems by (simp add: v f)
    next
      fix vs
      assume v: "v = GList vs"
      have "\<forall>w \<in> set vs. readable e utf8 db fuel w"
        using Suc.prems(1,2) nested by (auto simp: v foldr_max_le list_all_iff)
      then show ?thesis
        using read_items [of vs e utf8 db f]
          read_head [of db off 11 "length vs" "concat (map (encode utf8) vs)" rest e fuel]
          at_head(2) [of db off 11 "length vs" "concat (map (encode utf8) vs)" rest] Suc.prems by (simp add: v f)
    qed
  qed
qed

lemma field_stored:
  assumes "storable e utf8 v" and "nesting v \<le> fuel" and "rest \<noteq> []"
    and "g_data db = front @ encode utf8 v @ rest" and "length (g_data db) < 2 ^ 31"
  shows "readDataField e db fuel (length front) = Ret (v, length (front @ encode utf8 v))"
  using read_stored [OF assms(1,2) _ assms(3), of db "length front"] assms(3-) by (simp add: at_def)


section \<open>The tree of networks\<close>

text \<open>
  What the index stands for: a binary tree by the bits of an address, with a text at some of its leaves.
\<close>

datatype trie = NoEntry | Entry qstring | Branch trie trie

fun trie_lookup :: "trie \<Rightarrow> bool list \<Rightarrow> qstring" where
  "trie_lookup NoEntry bits = []"
| "trie_lookup (Entry c) bits = c"
| "trie_lookup (Branch l r) [] = []"
| "trie_lookup (Branch l r) (right # bits) = trie_lookup (if right then r else l) bits"

text \<open>The text of the record \<open>i\<close>, as it stands in the file.\<close>

definition record_text :: "geo_env \<Rightarrow> nat \<Rightarrow> geo_db \<Rightarrow> nat \<Rightarrow> qstring option" where
  "record_text e fuel db i =
     (case readDataField e db fuel (record_offset db i) of
        Ret (v, off) \<Rightarrow> Some (if is_hash v then country_of e v else [])
      | _ \<Rightarrow> None)"

fun stored_trie :: "geo_env \<Rightarrow> nat \<Rightarrow> geo_db \<Rightarrow> trie \<Rightarrow> nat \<Rightarrow> bool" where
  "stored_trie e fuel db NoEntry i \<longleftrightarrow> i = g_nodeCount db"
| "stored_trie e fuel db (Entry c) i \<longleftrightarrow> g_nodeCount db < i \<and> record_text e fuel db i = Some c"
| "stored_trie e fuel db (Branch l r) i \<longleftrightarrow> i < g_nodeCount db
     \<and> (case read_record db (6 * i) False of Ret a \<Rightarrow> stored_trie e fuel db l a | _ \<Rightarrow> False)
     \<and> (case read_record db (6 * i) True of Ret b \<Rightarrow> stored_trie e fuel db r b | _ \<Rightarrow> False)"

text \<open>Lookups one after the other, through the cache of the database.\<close>

fun lookups :: "geo_env \<Rightarrow> nat \<Rightarrow> geo_db \<Rightarrow> qbytearray list \<Rightarrow> qstring list rd" where
  "lookups e fuel db [] = Ret []"
| "lookups e fuel db (addr # addrs) =
     rd_bind (geo_lookup e fuel db (address_bits addr)) (\<lambda>(c, db').
       rd_bind (lookups e fuel db' addrs) (\<lambda>cs. Ret (c # cs)))"

text \<open>The file part of a database and its cache.\<close>

definition cached :: "geo_env \<Rightarrow> nat \<Rightarrow> geo_db \<Rightarrow> geo_db \<Rightarrow> bool" where
  "cached e fuel db db' \<longleftrightarrow> (\<exists>c. db' = db\<lparr>g_countries := c\<rparr> \<and>
     (\<forall>i t. c i = Some t \<longrightarrow> t \<noteq> [] \<longrightarrow> record_text e fuel db i = Some t))"

lemma g_size_countries [simp]: "g_size (db\<lparr>g_countries := c\<rparr>) = g_size db"
  by (simp add: g_size_def)

lemma byte_countries [simp]: "byte (db\<lparr>g_countries := c\<rparr>) i = byte db i" "bytes_at (db\<lparr>g_countries := c\<rparr>) i n = bytes_at db i n"
  by (simp_all add: byte_def bytes_at_def)

lemma descriptor_countries [simp]:
  "readDataFieldDescriptor (db\<lparr>g_countries := c\<rparr>) off = readDataFieldDescriptor db off"
  "pointer_target (db\<lparr>g_countries := c\<rparr>) p = pointer_target db p"
  by (simp_all add: readDataFieldDescriptor_def pointer_descriptor_def pointer_target_def Let_def cong: if_cong)

lemma scalar_countries [simp]: "readScalar e (db\<lparr>g_countries := c\<rparr>) t n off = readScalar e db t n off"
  by (cases t) (simp_all add: readScalar_def readPlainValue_def Let_def cong: if_cong)

lemma read_countries [simp]:
  "readDataField e (db\<lparr>g_countries := c\<rparr>) fuel off = readDataField e db fuel off"
  "readMapValue e (db\<lparr>g_countries := c\<rparr>) fuel acc off count = readMapValue e db fuel acc off count"
  "readArrayValue e (db\<lparr>g_countries := c\<rparr>) fuel vs off count = readArrayValue e db fuel vs off count"
proof (induction e db fuel off and e db fuel acc off count and e db fuel vs off count
    rule: readDataField_readMapValue_readArrayValue.induct)
  case (2 e db fuel offset)
  then show ?case
    by (simp add: readDataField.simps(2) cong: rd_bind_cong option.case_cong prod.case_cong if_cong)
next
  case (4 e db fuel acc offset count)
  then show ?case by (simp cong: rd_bind_cong prod.case_cong geo_value.case_cong if_cong)
next
  case (6 e db fuel acc offset count)
  then show ?case by (simp cong: rd_bind_cong prod.case_cong if_cong)
qed simp_all

lemma record_countries [simp]:
  "read_record (db\<lparr>g_countries := c\<rparr>) ptr r = read_record db ptr r"
  "record_offset (db\<lparr>g_countries := c\<rparr>) i = record_offset db i"
  by (simp_all add: read_record_def record_offset_def)

lemma walk_countries [simp]: "walk (db\<lparr>g_countries := c\<rparr>) bits ptr = walk db bits ptr"
  by (induction bits arbitrary: ptr) (simp_all cong: rd_bind_cong if_cong)

text \<open>Where the walk through the index ends, the text of the tree is found.\<close>

lemma walk_stored:
  assumes "db_typed file db" and "6 * g_nodeCount db < 2 ^ 32"
  shows "stored_trie e fuel db t i \<Longrightarrow> i < g_nodeCount db \<Longrightarrow>
    \<exists>r. walk db bits (6 * i) = Ret r \<and>
      (case r of None \<Rightarrow> trie_lookup t bits = [] | Some j \<Rightarrow> record_text e fuel db j = Some (trie_lookup t bits))"
proof (induction bits arbitrary: t i)
  case Nil
  then show ?case by (cases t) auto
next
  case (Cons right bits)
  then obtain l r where t: "t = Branch l r" by (cases t) auto
  have b: "trie_lookup t (right # bits) = trie_lookup (if right then r else l) bits" by (simp add: t)
  obtain j where j: "read_record db (6 * i) right = Ret j" and s: "stored_trie e fuel db (if right then r else l) j"
    using Cons.prems(1) by (cases right) (auto simp: t split: rd.splits)
  show ?case
  proof (cases "j < g_nodeCount db")
    case True
    have "u32 (int j * 6) = 6 * j" using True assms(2) by (simp add: u32_def)
    then show ?thesis unfolding b using Cons.IH [OF s True] j True assms(1) by (simp add: db_typed_def)
  next
    case False
    then show ?thesis using s j by (cases "if right then r else l") (auto simp: t)
  qed
qed

lemma cached_update:
  assumes "\<And>i t. c i = Some t \<Longrightarrow> t \<noteq> [] \<Longrightarrow> record_text e fuel db i = Some t" and "record_text e fuel db j = Some t"
  shows "cached e fuel db (db\<lparr>g_countries := c(j \<mapsto> t)\<rparr>)"
  unfolding cached_def using assms by (intro exI [of _ "c(j \<mapsto> t)"]) auto

lemma geo_lookup_stored:
  assumes "db_typed file db" and "6 * g_nodeCount db < 2 ^ 32" and "stored_trie e fuel db (Branch l r) 0"
    and "cached e fuel db db'"
  shows "\<exists>db''. geo_lookup e fuel db' bits = Ret (trie_lookup (Branch l r) bits, db'') \<and> cached e fuel db db''"
proof -
  obtain c where db': "db' = db\<lparr>g_countries := c\<rparr>"
    and c: "\<And>i t. c i = Some t \<Longrightarrow> t \<noteq> [] \<Longrightarrow> record_text e fuel db i = Some t"
    using assms(4) by (auto simp: cached_def)
  have "0 < g_nodeCount db" using assms(3) by simp
  from walk_stored [OF assms(1,2,3) this, of bits] obtain w where
    w: "walk db bits 0 = Ret w" "case w of None \<Rightarrow> trie_lookup (Branch l r) bits = []
      | Some j \<Rightarrow> record_text e fuel db j = Some (trie_lookup (Branch l r) bits)" by auto
  show ?thesis
  proof (cases w)
    case None
    then show ?thesis using w assms(4) by (simp add: geo_lookup_def db')
  next
    case (Some j)
    then have t: "record_text e fuel db j = Some (trie_lookup (Branch l r) bits)" using w(2) by simp
    show ?thesis
    proof (cases "\<exists>s. c j = Some s \<and> s \<noteq> []")
      case True
      then show ?thesis using c t w(1) assms(4) by (force simp: geo_lookup_def db' Some)
    next
      case False
      then have e: "(case c j of None \<Rightarrow> [] | Some s \<Rightarrow> s) = []" by (auto split: option.splits)
      from t obtain v off where v: "readDataField e db fuel (record_offset db j) = Ret (v, off)"
        "trie_lookup (Branch l r) bits = (if is_hash v then country_of e v else [])"
        by (auto simp: record_text_def split: rd.splits)
      show ?thesis using v w(1) e t assms(4) cached_update [OF c t] by (auto simp: geo_lookup_def db' Some)
    qed
  qed
qed

lemma lookups_stored:
  assumes "load e fuel file = Ret (Inr db)" and "6 * g_nodeCount db < 2 ^ 32" and "stored_trie e fuel db (Branch l r) 0"
  shows "lookups e fuel db addrs = Ret (map (\<lambda>addr. trie_lookup (Branch l r) (address_bits addr)) addrs)"
proof -
  note typed = load_typed [OF assms(1)]
  have "lookups e fuel db' addrs = Ret (map (\<lambda>addr. trie_lookup (Branch l r) (address_bits addr)) addrs)"
    if "cached e fuel db db'" for db'
    using that
  proof (induction addrs arbitrary: db')
    case (Cons addr addrs)
    from geo_lookup_stored [OF typed assms(2,3) Cons.prems, of "address_bits addr"] obtain db'' where
      "geo_lookup e fuel db' (address_bits addr) = Ret (trie_lookup (Branch l r) (address_bits addr), db'')"
      "cached e fuel db db''" by blast
    then show ?case using Cons.IH by simp
  qed simp
  moreover have "cached e fuel db db"
    using typed by (auto simp: cached_def db_typed_def intro!: exI [of _ "Map.empty"])
  ultimately show ?thesis by blast
qed


section \<open>A whole file\<close>

definition metadata_of :: "nat \<Rightarrow> qstring \<Rightarrow> nat \<Rightarrow> (qstring, geo_value) qmap" where
  "metadata_of n dbType epoch =
     [(''binary_format_major_version'', GUShort 2), (''binary_format_minor_version'', GUShort 0),
      (''build_epoch'', GULongLong epoch), (''database_type'', GString dbType), (''ip_version'', GUShort 6),
      (''node_count'', GUInt n), (''record_size'', GUShort 24)]"

definition write_db :: "(qstring \<Rightarrow> qbytearray) \<Rightarrow> nat \<Rightarrow> qbytearray \<Rightarrow> qstring \<Rightarrow> nat \<Rightarrow> qbytearray" where
  "write_db utf8 n body dbType epoch =
     body @ METADATA_BEGIN_MARK @ encode utf8 (GHash (metadata_of n dbType epoch)) @ [CHR 0x00]"

lemma last_find_drop: "last_find_sub sub xs = Some i \<Longrightarrow> n \<le> i \<Longrightarrow> last_find_sub sub (drop n xs) = Some (i - n)"
proof (induction n arbitrary: xs i)
  case (Suc n)
  then show ?case by (cases xs) (auto split: option.splits if_splits)
qed simp

lemma last_find_at:
  assumes "last_find_sub sub (tl sub @ b) = None" and "sub \<noteq> []"
  shows "last_find_sub sub (a @ sub @ b) = Some (length a)"
proof (induction a)
  case Nil
  from assms(2) obtain c cs where "sub = c # cs" by (cases sub) auto
  then show ?case using assms(1) by simp
qed simp

lemma mark_length: "length METADATA_BEGIN_MARK = 14" "METADATA_BEGIN_MARK \<noteq> []"
  by (simp_all add: METADATA_BEGIN_MARK_def)

lemma metadata_stored:
  assumes "n < 2 ^ 32" and "epoch < 2 ^ 64"
    and "\<forall>s \<in> {dbType} \<union> fst ` set (metadata_of n dbType epoch). text_ok e utf8 s"
  shows "storable e utf8 (GHash (metadata_of n dbType epoch))"
  using assms by (simp add: metadata_of_def qmap_inv_def)

lemma readMetadata_written:
  assumes "storable e utf8 (GHash m)" and "nesting (GHash m) \<le> fuel"
    and "g_data db = body @ METADATA_BEGIN_MARK @ encode utf8 (GHash m) @ [CHR 0x00]" and "g_size db < 2 ^ 31"
    and "14 + length (encode utf8 (GHash m)) + 1 \<le> MAX_METADATA_SIZE"
    and "last_find_sub METADATA_BEGIN_MARK (tl METADATA_BEGIN_MARK @ encode utf8 (GHash m) @ [CHR 0x00]) = None"
  shows "readMetadata e fuel db = Ret m"
proof -
  define skip where "skip = (if g_size db > MAX_METADATA_SIZE then g_size db - MAX_METADATA_SIZE else 0)"
  have sz: "g_size db = length body + 14 + length (encode utf8 (GHash m)) + 1"
    by (simp only: g_size_def assms(3) length_append mark_length) (simp del: encode.simps)
  then have "g_size db - MAX_METADATA_SIZE \<le> length body" using assms(5) by linarith
  then have sk: "skip \<le> length body" by (simp add: skip_def)
  have "last_find_sub METADATA_BEGIN_MARK (g_data db) = Some (length body)"
    unfolding assms(3) by (rule last_find_at [OF assms(6) mark_length(2)])
  from last_find_drop [OF this sk]
  have f: "last_find_sub METADATA_BEGIN_MARK (drop skip (g_data db)) = Some (length body - skip)" .
  have "readDataField e db fuel (length (body @ METADATA_BEGIN_MARK))
      = Ret (GHash m, length ((body @ METADATA_BEGIN_MARK) @ encode utf8 (GHash m)))"
    by (rule field_stored [OF assms(1,2)]) (use assms(3,4) in \<open>simp_all add: g_size_def\<close>)
  moreover have "u32 (int (length body - skip + skip + length METADATA_BEGIN_MARK)) = length (body @ METADATA_BEGIN_MARK)"
    using sk sz assms(4) by (simp add: u32_def mark_length)
  ultimately show ?thesis
    unfolding readMetadata_def Let_def skip_def [symmetric] f option.case by (simp del: encode.simps readDataField.simps)
qed

lemma written_loads:
  assumes "n < 2 ^ 28" and "epoch < 2 ^ 64" and "2 \<le> fuel"
    and "\<forall>s \<in> {dbType} \<union> fst ` set (metadata_of n dbType epoch). text_ok e utf8 s"
    and "length index = 6 * n"
    and "file = write_db utf8 n (index @ DATA_SECTION_SEPARATOR @ data) dbType epoch" and "length file \<le> MAX_FILE_SIZE"
    and "14 + length (encode utf8 (GHash (metadata_of n dbType epoch))) + 1 \<le> MAX_METADATA_SIZE"
    and "last_find_sub METADATA_BEGIN_MARK
          (tl METADATA_BEGIN_MARK @ encode utf8 (GHash (metadata_of n dbType epoch)) @ [CHR 0x00]) = None"
  shows "load e fuel file = Ret (Inr
     \<lparr>g_ipVersion = 6, g_recordSize = 24, g_nodeCount = n, g_nodeSize = 6, g_indexSize = 6 * int n, g_recordBytes = 3,
      g_buildEpoch = epoch, g_dbType = dbType, g_countries = Map.empty, g_data = file\<rparr>)"
proof -
  let ?m = "metadata_of n dbType epoch"
  have st: "storable e utf8 (GHash ?m)" using assms(1,2,4) by (intro metadata_stored) simp_all
  have nest: "nesting (GHash ?m) \<le> fuel" using assms(3) by (simp add: metadata_of_def)
  have "g_data (new_db file) = (index @ DATA_SECTION_SEPARATOR @ data) @ METADATA_BEGIN_MARK @ encode utf8 (GHash ?m) @ [CHR 0x00]"
    using assms(6) by (simp add: new_db_def write_db_def)
  from readMetadata_written [OF st nest this _ assms(8,9)] assms(7)
  have m: "readMetadata e fuel (new_db file) = Ret ?m" by (simp add: g_size_def new_db_def MAX_FILE_SIZE_def)
  define db where "db = \<lparr>g_ipVersion = 6, g_recordSize = 24, g_nodeCount = n, g_nodeSize = 6, g_indexSize = 6 * int n,
     g_recordBytes = 3, g_buildEpoch = epoch, g_dbType = dbType, g_countries = Map.empty, g_data = file\<rparr>"
  have ix: "s32 (int n * 6) = 6 * int n" using assms(1) by (simp add: s32_def)
  have p: "parseMetadata ?m (new_db file) = Inr db"
    by (simp add: parseMetadata_def metadata_of_def check_req_def check_opt_def new_db_def db_def ix)
  have "take 16 (drop (6 * n) file) = DATA_SECTION_SEPARATOR" "6 * n + 16 \<le> length file"
    using assms(5) by (simp_all add: assms(6) write_db_def DATA_SECTION_SEPARATOR_def)
  then have "loadDB db = Ret (Inr db)"
    using assms(7) by (simp add: loadDB_def db_def ix g_size_def bytes_at_def MAX_FILE_SIZE_def nat_mult_distrib)
  then show ?thesis using assms(7) m p by (simp add: load_def flip: db_def)
qed


section \<open>What a damaged file does\<close>

text \<open>
  A node count of which six times wraps around passes the check of the index size, and the walk leaves the data.
\<close>

definition wrapped_db :: geo_db where
  "wrapped_db = (new_db ([CHR 0x01, CHR 0x00] @ DATA_SECTION_SEPARATOR))
     \<lparr>g_ipVersion := 6, g_recordSize := 24, g_nodeSize := 6, g_recordBytes := 3, g_nodeCount := 715827883, g_indexSize := 2\<rparr>"

lemma wrapped_node_count:
  "loadDB wrapped_db = Ret (Inr wrapped_db)" "walk wrapped_db (False # b # bits) 0 = OutOfBounds"
  by (simp_all add: loadDB_def wrapped_db_def new_db_def s32_def g_size_def bytes_at_def DATA_SECTION_SEPARATOR_def
      read_record_def u32_def)

text \<open>With this one the comparison of the separator starts six bytes in front of the data.\<close>

lemma index_size_below_zero:
  "10 \<le> g_size db \<Longrightarrow> g_recordSize db = 24 \<Longrightarrow> g_nodeCount db = 2147483647 \<Longrightarrow> loadDB db = OutOfBounds"
  by (simp add: loadDB_def s32_def)

text \<open>A text longer than what follows it is read beyond the end.\<close>

lemma text_beyond_end:
  assumes "at db off (field_head 2 len) rest" and "length rest < len" and "rest \<noteq> []" and "len < 65821 + 2 ^ 24"
  shows "readDataField e db (Suc fuel) off = OutOfBounds"
proof -
  have "readDataField e db (Suc fuel) off = readScalar e db String len (off + length (field_head 2 len))"
    using read_head [of db off 2 len "[]" rest e fuel] assms by (simp add: data_types_def)
  moreover have "\<not> off + length (field_head 2 len) + len \<le> g_size db" "len \<noteq> 0"
    using at_size [OF assms(1)] assms(2) by simp_all
  ultimately show ?thesis by (simp add: readScalar_def bytes_at_def)
qed

text \<open>The second byte of an extended type is read before its presence is checked, and two bytes do not suffice.\<close>

lemma extended_at_end:
  "readDataFieldDescriptor (new_db [CHR 0x00]) 0 = OutOfBounds"
  "readDataFieldDescriptor (new_db [CHR 0x01, CHR 0x07]) 0 = Ret None"
  by (simp_all add: readDataFieldDescriptor_def new_db_def g_size_def s32_def byte_def data_types_def)

text \<open>A map that contains a pointer to itself is read for ever.\<close>

definition cyclic_db :: geo_db where
  "cyclic_db = (new_db (DATA_SECTION_SEPARATOR @ [CHR 0xE1, CHR 0x41, CHR ''a'', CHR 0x20, CHR 0x00]))\<lparr>g_recordSize := 24\<rparr>"

lemma cyclic_bytes:
  "g_size cyclic_db = 21" "byte cyclic_db 16 = Ret 225" "byte cyclic_db 17 = Ret 65" "byte cyclic_db 19 = Ret 32"
  "byte cyclic_db 20 = Ret 0" "bytes_at cyclic_db 18 1 = Ret ''a''" "pointer_target cyclic_db 0 = 16"
  by (simp_all add: cyclic_db_def new_db_def g_size_def byte_def bytes_at_def DATA_SECTION_SEPARATOR_def nth_append
      pointer_target_def u32_def)

lemma cyclic_parts:
  "readDataFieldDescriptor cyclic_db 16 = Ret (Some (Map, 1, 17))"
  "readDataFieldDescriptor cyclic_db 17 = Ret (Some (String, 1, 18))"
  "readDataFieldDescriptor cyclic_db 19 = Ret (Some (Pointer, 0, 21))"
  by (simp_all add: readDataFieldDescriptor_def pointer_descriptor_def cyclic_bytes s32_def u32_def data_types_def)

lemma cyclic_map: "readMapValue e cyclic_db fuel [] 17 1 = OutOfStack"
proof (induction fuel)
  case (Suc fuel)
  have "readDataField e cyclic_db (Suc fuel) 17 = Ret (GString (fromUtf8 e ''a''), 19)"
    by (simp add: readDataField.simps(2) cyclic_parts readScalar_def cyclic_bytes(6) [simplified] u32_def)
  moreover have "readDataField e cyclic_db (Suc fuel) 19 = OutOfStack"
    using Suc by (simp add: readDataField.simps(2) cyclic_parts cyclic_bytes(7) del: readMapValue.simps)
  ultimately show ?case by simp
qed simp

lemma cyclic_data_never_read: "readDataField e cyclic_db fuel 16 = OutOfStack"
  by (cases fuel) (simp_all add: readDataField.simps(2) cyclic_parts cyclic_map [unfolded One_nat_def] del: readMapValue.simps)

section \<open>The properties\<close>

definition env_ex :: geo_env where "env_ex = \<lparr>fromUtf8 = (\<lambda>bs. bs), plainText = (\<lambda>v. [])\<rparr>"

definition country_ex :: geo_value where "country_ex = GHash [(''country'', GHash [(''iso_code'', GString ''FR'')])]"

definition index_ex :: qbytearray where
  "index_ex = [CHR 0x00, CHR 0x00, CHR 0x02, CHR 0x00, CHR 0x00, CHR 0x12,
     CHR 0x00, CHR 0x00, CHR 0x02, CHR 0x00, CHR 0x00, CHR 0x02]"

definition file_ex :: qbytearray where
  "file_ex = write_db (\<lambda>s. s) 2 (index_ex @ DATA_SECTION_SEPARATOR @ encode (\<lambda>s. s) country_ex) ''GeoIP'' 7"

definition db_ex :: geo_db where
  "db_ex = \<lparr>g_ipVersion = 6, g_recordSize = 24, g_nodeCount = 2, g_nodeSize = 6, g_indexSize = 12, g_recordBytes = 3,
      g_buildEpoch = 7, g_dbType = ''GeoIP'', g_countries = Map.empty, g_data = file_ex\<rparr>"

lemma be_bytes_ex: "be_bytes 0 = []" "be_bytes 2 = [CHR 0x02]" "be_bytes 6 = [CHR 0x06]"
  "be_bytes 7 = [CHR 0x07]" "be_bytes 24 = [CHR 0x18]"
  by (simp_all add: be_bytes.simps char_of_def bit_Suc_0_iff)

lemma encode_ex:
  "encode (\<lambda>s. s) (GHash (metadata_of 2 ''GeoIP'' 7)) =
     CHR 0xE7 # (CHR 0x5B # ''binary_format_major_version'') @ [CHR 0xA1, CHR 0x02]
     @ (CHR 0x5B # ''binary_format_minor_version'') @ [CHR 0xA0]
     @ (CHR 0x4B # ''build_epoch'') @ [CHR 0x01, CHR 0x02, CHR 0x07]
     @ (CHR 0x4D # ''database_type'') @ (CHR 0x45 # ''GeoIP'')
     @ (CHR 0x4A # ''ip_version'') @ [CHR 0xA1, CHR 0x06]
     @ (CHR 0x4A # ''node_count'') @ [CHR 0xC1, CHR 0x02]
     @ (CHR 0x4B # ''record_size'') @ [CHR 0xA1, CHR 0x18]"
  "encode (\<lambda>s. s) country_ex = CHR 0xE1 # (CHR 0x47 # ''country'') @ CHR 0xE1 # (CHR 0x48 # ''iso_code'') @ CHR 0x42 # ''FR''"
  by (simp_all add: metadata_of_def country_ex_def counted_def field_head_def be_bytes_ex char_of_def bit_Suc_0_iff)

lemma load_ex: "load env_ex 4 file_ex = Ret (Inr db_ex)"
proof -
  have t: "last_find_sub METADATA_BEGIN_MARK
      (tl METADATA_BEGIN_MARK @ encode (\<lambda>s. s) (GHash (metadata_of 2 ''GeoIP'' 7)) @ [CHR 0x00]) = None"
    by (simp add: encode_ex METADATA_BEGIN_MARK_def del: encode.simps)
  have s: "length file_ex \<le> MAX_FILE_SIZE"
    "14 + length (encode (\<lambda>s. s) (GHash (metadata_of 2 ''GeoIP'' 7))) + 1 \<le> MAX_METADATA_SIZE"
    by (simp_all add: file_ex_def write_db_def encode_ex index_ex_def DATA_SECTION_SEPARATOR_def METADATA_BEGIN_MARK_def
        MAX_FILE_SIZE_def MAX_METADATA_SIZE_def del: encode.simps)
  have x: "\<forall>s \<in> {''GeoIP''} \<union> fst ` set (metadata_of 2 ''GeoIP'' 7). text_ok env_ex (\<lambda>s. s) s"
    by (simp add: metadata_of_def text_ok_def env_ex_def)
  show ?thesis
    using written_loads [OF _ _ _ x _ file_ex_def s t] by (simp add: db_ex_def index_ex_def)
qed

lemma record_ex: "read_record db_ex 0 False = Ret 2" "read_record db_ex 0 True = Ret 18"
  by (simp_all add: read_record_def bytes_at_def g_size_def db_ex_def file_ex_def write_db_def index_ex_def)

lemma text_ex: "record_text env_ex 4 db_ex 18 = Some ''FR''"
proof -
  have st: "storable env_ex (\<lambda>s. s) country_ex" "nesting country_ex \<le> 4"
    by (simp_all add: country_ex_def text_ok_def env_ex_def qmap_inv_def)
  have d: "g_data db_ex = (index_ex @ DATA_SECTION_SEPARATOR) @ encode (\<lambda>s. s) country_ex
      @ (METADATA_BEGIN_MARK @ encode (\<lambda>s. s) (GHash (metadata_of 2 ''GeoIP'' 7)) @ [CHR 0x00])"
    by (simp add: db_ex_def file_ex_def write_db_def del: encode.simps)
  have l: "length (g_data db_ex) < 2 ^ 31" 
    by (simp add: d encode_ex index_ex_def DATA_SECTION_SEPARATOR_def METADATA_BEGIN_MARK_def del: encode.simps)
  have off: "record_offset db_ex 18 = length (index_ex @ DATA_SECTION_SEPARATOR)"
    by (simp add: record_offset_def db_ex_def u32_def index_ex_def DATA_SECTION_SEPARATOR_def)
  have "country_of env_ex country_ex = ''FR''" by (simp add: country_of_def country_ex_def qmap_value_def)
  moreover have "is_hash country_ex" by (simp add: country_ex_def)
  moreover have "readDataField env_ex db_ex 4 (length (index_ex @ DATA_SECTION_SEPARATOR))
      = Ret (country_ex, length ((index_ex @ DATA_SECTION_SEPARATOR) @ encode (\<lambda>s. s) country_ex))"
    by (rule field_stored [OF st _ d l]) simp
  ultimately show ?thesis unfolding record_text_def off by (simp del: length_append)
qed

lemma tree_ex: "stored_trie env_ex 4 db_ex (Branch NoEntry (Entry ''FR'')) 0"
  using record_ex text_ex by (simp add: db_ex_def)

text \<open>
  C28. A database that loads is well-typed: IP version 6, records of 24 bits, a node count and a build epoch of
  their widths, an index of six bytes per node modulo \<open>2 ^ 32\<close>, and the separator behind it inside the file.
\<close>

theorem loaded_database_typed:
  assumes "load e fuel file = Ret (Inr db)"
  shows "db_typed file db"
  by (rule load_typed [OF assms])

theorem loaded_database_typed_witness: "db_typed file_ex db_ex"
  by (rule loaded_database_typed [OF load_ex])

text \<open>
  C40. Unless six times the node count wraps around, the walk through the index of a loaded database stays inside
  the data, whatever the address, and a record it ends in lies beyond the node count.
\<close>

theorem index_walk_in_bounds:
  assumes "load e fuel file = Ret (Inr db)" and "6 * g_nodeCount db < 2 ^ 32"
  shows "\<exists>r. walk db bits 0 = Ret r \<and> (\<forall>i. r = Some i \<longrightarrow> g_nodeCount db < i \<and> i < 2 ^ 24)"
  by (rule walk_from_root [OF assms])

theorem index_walk_in_bounds_witness: 
  "\<exists>r. walk db_ex [True, False] 0 = Ret r \<and> (\<forall>i. r = Some i \<longrightarrow> 2 < i \<and> i < 2 ^ 24)"
  using index_walk_in_bounds [OF load_ex, of "[True, False]"] by (simp add: db_ex_def)

text \<open>
  Any value of texts, bytes, numbers, maps and lists that is written in the format is read back as it was,
  with the offset just behind it, wherever it stands in the file and whatever follows.
\<close>

theorem field_roundtrip:
  assumes "storable e utf8 v" and "nesting v \<le> fuel" and "rest \<noteq> []"
    and "g_data db = front @ encode utf8 v @ rest" and "length (g_data db) < 2 ^ 31"
  shows "readDataField e db fuel (length front) = Ret (v, length (front @ encode utf8 v))"
  by (rule field_stored [OF assms])

theorem field_roundtrip_witness:
  "readDataField env_ex (new_db (''ab'' @ encode (\<lambda>s. s) country_ex @ ''c'')) 4 (length ''ab'')
     = Ret (country_ex, length (''ab'' @ encode (\<lambda>s. s) country_ex))"
proof -
  have "storable env_ex (\<lambda>s. s) country_ex" "nesting country_ex \<le> 4"
    by (simp_all add: country_ex_def text_ok_def env_ex_def qmap_inv_def)
  then show ?thesis
    by (rule field_roundtrip [where rest = "''c''"]) (simp_all add: new_db_def encode_ex del: encode.simps)
qed

text \<open>
  C11. When the index of a loaded database stores a tree of networks, any sequence of lookups gives the texts of
  that tree for the bits of the addresses: the cache of countries is never visible.
\<close>

theorem lookups_follow_tree:
  assumes "load e fuel file = Ret (Inr db)" and "6 * g_nodeCount db < 2 ^ 32" and "stored_trie e fuel db (Branch l r) 0"
  shows "lookups e fuel db addrs = Ret (map (\<lambda>addr. trie_lookup (Branch l r) (address_bits addr)) addrs)"
  by (rule lookups_stored [OF assms])

lemma first_bit: "address_bits (c # cs) = odd ((of_char c :: nat) div 128) # tl (address_bits (c # cs))"
  by (simp add: address_bits_def upt_conv_Cons)

theorem lookups_follow_tree_witness:
  "lookups env_ex 4 db_ex [CHR 0xFF # replicate 15 (CHR 0x00), replicate 16 (CHR 0x00), CHR 0x80 # replicate 15 (CHR 0x01)]
     = Ret [''FR'', '''', ''FR'']"
proof -
  have r: "replicate 16 (CHR 0x00) = CHR 0x00 # replicate 15 (CHR 0x00)" by (simp add: numeral_eq_Suc)
  have t: "trie_lookup (Branch l r) (address_bits (c # cs)) =
      trie_lookup (if odd ((of_char c :: nat) div 128) then r else l) (tl (address_bits (c # cs)))" for c cs l r
    by (subst first_bit) simp
  have n: "6 * g_nodeCount db_ex < 2 ^ 32" by (simp add: db_ex_def)
  show ?thesis unfolding r by (simp add: lookups_follow_tree [OF load_ex n tree_ex] t del: trie_lookup.simps(4) lookups.simps)
qed

end
