(* ===== verification/Smtp.thy ===== *)
theory Smtp
  imports Qt_Containers Digest32 "HOL-Library.Word"
begin

unbundle bit_operations_syntax

text \<open>
  The mail client, \<^verbatim>\<open>src/src/base/net/smtp.cpp\<close>: the mail it composes and its dialogue with a
  server. Addresses, subject and body may hold any character, so they are lists of UTF-16 code units. The state
  keeps the dialogue: every line received and everything done to the socket in turn. A reply that is too short
  for the character the code looks at makes it read beyond the terminator of the line: the step has no result
  then. Encodings, digests and the name of the host are parameters.
\<close>

section \<open>Types\<close>

type_synonym ustring = "nat list"

datatype smtp_state =
    Rcpt | EhloSent | HeloSent | EhloDone | EhloGreetReceived | AuthRequestSent | AuthSent | AuthUsernameSent
  | Authenticated | StartTLSSent | Data | Init | Body | Quit | Close

datatype auth_type = AuthPlain | AuthLogin | AuthCramMD5

datatype smtp_error =
    ConnectionFailed qbytearray
  | NotASmtpServer qstring
  | AuthenticationFailed qbytearray
  | MailFromRejected qbytearray
  | RcptToRejected qbytearray
  | DataRejected qbytearray
  | MessageRejected qbytearray
  | NoAuthMode "qstring list"

datatype smtp_event =
    Received qbytearray
  | Write qbytearray
  | StartEncryption
  | Disconnect
  | LogError smtp_error
  | ConnectToHost qstring int
  | ConnectEncrypted qstring int

record smtp_env =
  md5 :: "qbytearray \<Rightarrow> qbytearray"
  toBase64 :: "qbytearray \<Rightarrow> qbytearray"
  fromBase64 :: "qbytearray \<Rightarrow> qbytearray"
  toUtf8 :: "ustring \<Rightarrow> qbytearray"
  utf8Text :: "qbytearray \<Rightarrow> qstring"
  toUpper :: "qstring \<Rightarrow> qstring"
  localHostName :: qbytearray

record smtp =
  m_message :: qbytearray
  m_from :: ustring
  m_rcpt :: ustring
  m_state :: smtp_state
  m_extensions :: "(qstring, qstring) qmap"
  m_buffer :: qbytearray
  m_useSsl :: bool
  m_authType :: auth_type
  m_username :: ustring
  m_password :: ustring
  m_dialogue :: "smtp_event list"

definition new_smtp :: smtp where
  "new_smtp =
     \<lparr>m_message = [], m_from = [], m_rcpt = [], m_state = Init, m_extensions = [], m_buffer = [], m_useSsl = False,
      m_authType = AuthPlain, m_username = [], m_password = [], m_dialogue = []\<rparr>"

definition crlf :: qbytearray where "crlf = [CHR 0x0D, CHR 0x0A]"

text \<open>\<^verbatim>\<open>QString::toLatin1\<close> and an ASCII literal as a \<^verbatim>\<open>QString\<close>.\<close>

definition toLatin1 :: "ustring \<Rightarrow> qbytearray" where
  "toLatin1 s = map (\<lambda>u. if u \<le> 255 then char_of u else CHR ''?'') s"

definition ustr :: "qstring \<Rightarrow> ustring" where "ustr s = map of_char s"

text \<open>\<^verbatim>\<open>section(' ', 0, 0)\<close> and \<^verbatim>\<open>section(' ', 1)\<close>.\<close>

definition first_section :: "qstring \<Rightarrow> qstring" where
  "first_section s = (case index_of (CHR '' '') s of None \<Rightarrow> s | Some i \<Rightarrow> take i s)"

definition other_sections :: "qstring \<Rightarrow> qstring" where
  "other_sections s = (case index_of (CHR '' '') s of None \<Rightarrow> [] | Some i \<Rightarrow> drop (Suc i) s)"

section \<open>Composing the mail\<close>

definition xor_char :: "char \<Rightarrow> char \<Rightarrow> char" where
  "xor_char a b = char_of ((of_char a :: nat) XOR of_char b)"

definition hmacMD5 :: "(qbytearray \<Rightarrow> qbytearray) \<Rightarrow> qbytearray \<Rightarrow> qbytearray \<Rightarrow> qbytearray" where
  "hmacMD5 H key0 msg =
     (let key = (if length key0 > 64 then H key0 else key0);
          innerPadding = fold (\<lambda>i pad. pad[i := xor_char (pad ! i) (key ! i)]) [0 ..< length key] (replicate 64 (CHR 0x36));
          outerPadding = fold (\<lambda>i pad. pad[i := xor_char (pad ! i) (key ! i)]) [0 ..< length key] (replicate 64 (CHR 0x5C));
          part = innerPadding @ msg
      in H (outerPadding @ H part))"

definition determineFQDN :: "smtp_env \<Rightarrow> qbytearray" where
  "determineFQDN e = (if localHostName e = [] then ''localhost'' else localHostName e)"

definition canEncodeAsLatin1 :: "ustring \<Rightarrow> bool" where
  "canEncodeAsLatin1 s \<longleftrightarrow> \<not> list_ex (\<lambda>u. u > 255) s"

text \<open>The words of a header: what is finished, the current line, and whether the next word is the first.\<close>

definition add_word :: "qbytearray \<Rightarrow> qbytearray \<times> qbytearray \<times> bool \<Rightarrow> qbytearray \<times> qbytearray \<times> bool" where
  "add_word word acc =
     (case acc of (rv, line, firstWord) \<Rightarrow>
        let (rv, line) = (if length line > 78 then (rv @ line @ crlf, []) else (rv, line))
        in (rv, if firstWord then line @ word else line @ '' '' @ word, False))"

fun chunks :: "nat \<Rightarrow> 'a list \<Rightarrow> 'a list list" where
  "chunks 0 xs = [xs]"
| "chunks (Suc n) xs = (if xs = [] then [] else take (Suc n) xs # chunks (Suc n) (drop (Suc n) xs))"

definition encodeMimeHeader :: "smtp_env \<Rightarrow> qbytearray \<Rightarrow> ustring \<Rightarrow> qbytearray \<Rightarrow> qbytearray" where
  "encodeMimeHeader e key value pre =
     (let line = key @ '': '' @ pre in
      if find_sub (ustr ''=?'') value = None \<and> canEncodeAsLatin1 value
      then (case fold add_word (split_char (CHR '' '') (toLatin1 value)) ([], line, True) of
              (rv, line, _) \<Rightarrow> rv @ line @ crlf)
      else line @ ''=?utf-8?b?'' @ concat (chunks 4 (toBase64 e (toUtf8 e value))) @ ''?='' @ crlf)"

definition replace_newlines :: "ustring \<Rightarrow> ustring" where
  "replace_newlines s = concat (map (\<lambda>u. if u = 10 then [13, 10] else [u]) s)"

record mail_prefs =
  smtpServer :: qstring
  smtpAuth :: bool
  smtpUsername :: ustring
  smtpPassword :: ustring
  smtpSSL :: bool

definition sendMail :: "smtp_env \<Rightarrow> (qstring \<Rightarrow> int option) \<Rightarrow> mail_prefs \<Rightarrow> qbytearray \<Rightarrow> ustring \<Rightarrow> ustring \<Rightarrow> ustring
    \<Rightarrow> ustring \<Rightarrow> smtp \<Rightarrow> smtp" where
  "sendMail e parseInt pref date from_addr to_addr subject body s =
     (let message = ''Date: '' @ date @ crlf
            @ encodeMimeHeader e ''From'' (ustr ''qBittorrent <'' @ from_addr @ ustr ''>'') []
            @ encodeMimeHeader e ''Subject'' subject []
            @ encodeMimeHeader e ''To'' to_addr []
            @ ''MIME-Version: 1.0'' @ crlf
            @ ''Content-Type: text/plain; charset=UTF-8'' @ crlf
            @ ''Content-Transfer-Encoding: base64'' @ crlf @ crlf
            @ concat (chunks 78 (toBase64 e (toUtf8 e (replace_newlines body))));
          s = s\<lparr>m_message := message, m_from := from_addr, m_rcpt := to_addr\<rparr>;
          s = (if smtpAuth pref then s\<lparr>m_username := smtpUsername pref, m_password := smtpPassword pref\<rparr> else s);
          serverEndpoint = split_char (CHR '':'') (smtpServer pref);
          serverAddress = hd serverEndpoint;
          serverPort = parseInt (if length serverEndpoint > 1 then serverEndpoint ! 1 else [])
      in if smtpSSL pref
         then s\<lparr>m_useSsl := True, m_dialogue := m_dialogue s @
                [ConnectEncrypted serverAddress (case serverPort of None \<Rightarrow> 465 | Some p \<Rightarrow> p)]\<rparr>
         else s\<lparr>m_useSsl := False, m_dialogue := m_dialogue s @
                [ConnectToHost serverAddress (case serverPort of None \<Rightarrow> 25 | Some p \<Rightarrow> p)]\<rparr>)"

section \<open>The dialogue\<close>

definition emit :: "smtp_event list \<Rightarrow> smtp \<Rightarrow> smtp" where
  "emit evs s = s\<lparr>m_dialogue := m_dialogue s @ evs\<rparr>"

definition fake_response :: qbytearray where
  "fake_response = ''250 QBT FAKE RESPONSE'' @ crlf"

definition ehlo :: "smtp_env \<Rightarrow> smtp \<Rightarrow> smtp" where
  "ehlo e s = emit [Write (''ehlo '' @ determineFQDN e @ crlf)] s\<lparr>m_state := EhloSent\<rparr>"

definition helo :: "smtp_env \<Rightarrow> smtp \<Rightarrow> smtp" where
  "helo e s = emit [Write (''helo '' @ determineFQDN e @ crlf)] s\<lparr>m_state := HeloSent\<rparr>"

definition authCramMD5 :: "smtp_env \<Rightarrow> qbytearray \<Rightarrow> smtp \<Rightarrow> smtp" where
  "authCramMD5 e challenge s =
     (if m_state s \<noteq> AuthRequestSent
      then emit [Write (''auth cram-md5'' @ crlf)] s\<lparr>m_authType := AuthCramMD5, m_state := AuthRequestSent\<rparr>
      else
        (let response = toLatin1 (m_username s) @ '' ''
               @ to_hex (hmacMD5 (md5 e) (toLatin1 (m_password s)) (fromBase64 e challenge))
         in emit [Write (toBase64 e response @ crlf)] s\<lparr>m_state := AuthSent\<rparr>))"

definition authPlain :: "smtp_env \<Rightarrow> smtp \<Rightarrow> smtp" where
  "authPlain e s =
     (if m_state s \<noteq> AuthRequestSent
      then
        (let auth = [CHR 0x00] @ toLatin1 (m_username s) @ [CHR 0x00] @ toLatin1 (m_password s)
         in emit [Write (''auth plain '' @ toBase64 e auth @ crlf)] s\<lparr>m_authType := AuthPlain, m_state := AuthSent\<rparr>)
      else s)"

definition authLogin :: "smtp_env \<Rightarrow> smtp \<Rightarrow> smtp" where
  "authLogin e s =
     (if m_state s \<noteq> AuthRequestSent \<and> m_state s \<noteq> AuthUsernameSent
      then emit [Write (''auth login'' @ crlf)] s\<lparr>m_authType := AuthLogin, m_state := AuthRequestSent\<rparr>
      else if m_state s = AuthRequestSent
      then emit [Write (toBase64 e (toLatin1 (m_username s)) @ crlf)] s\<lparr>m_state := AuthUsernameSent\<rparr>
      else emit [Write (toBase64 e (toLatin1 (m_password s)) @ crlf)] s\<lparr>m_state := AuthSent\<rparr>)"

definition skipAuthentication :: "smtp \<Rightarrow> smtp" where
  "skipAuthentication s = s\<lparr>m_state := Authenticated, m_buffer := fake_response @ m_buffer s\<rparr>"

definition authenticate :: "smtp_env \<Rightarrow> smtp \<Rightarrow> smtp" where
  "authenticate e s =
     (if \<not> qmap_contains (m_extensions s) ''AUTH'' \<or> m_username s = [] \<or> m_password s = []
      then skipAuthentication s
      else
        (let auth = skip_empty (split_char (CHR '' '') (toUpper e (qmap_value (m_extensions s) ''AUTH'' []))) in
         if ''CRAM-MD5'' \<in> set auth then authCramMD5 e [] s
         else if ''PLAIN'' \<in> set auth then authPlain e s
         else if ''LOGIN'' \<in> set auth then authLogin e s
         else skipAuthentication (emit [LogError (NoAuthMode auth)] s)))"

definition startTLS :: "smtp \<Rightarrow> smtp" where
  "startTLS s = emit [Write (''starttls'' @ crlf)] s\<lparr>m_state := StartTLSSent\<rparr>"

definition parseEhloResponse :: "smtp_env \<Rightarrow> qbytearray \<Rightarrow> bool \<Rightarrow> qstring \<Rightarrow> smtp \<Rightarrow> smtp" where
  "parseEhloResponse e code continued line s =
     (if code \<noteq> ''250'' then
        (if m_state s = EhloSent then helo e s
         else emit [LogError (NotASmtpServer line)] s\<lparr>m_state := Close\<rparr>)
      else if m_state s \<noteq> EhloGreetReceived \<and> continued then s\<lparr>m_state := EhloGreetReceived\<rparr>
      else
        (let s = (if m_state s \<noteq> EhloGreetReceived then s\<lparr>m_state := EhloDone\<rparr>
                  else
                    (let s = s\<lparr>m_extensions :=
                           qmap_insert (toUpper e (first_section line)) (other_sections line) (m_extensions s)\<rparr>
                     in if \<not> continued then s\<lparr>m_state := EhloDone\<rparr> else s))
         in if m_state s \<noteq> EhloDone then s
            else if qmap_contains (m_extensions s) ''STARTTLS'' \<and> m_useSsl s then startTLS s
            else authenticate e s))"

text \<open>The character behind the code of a line: at its end the terminator stands, beyond it nothing.\<close>

definition char3 :: "qbytearray \<Rightarrow> char option" where
  "char3 line = (if length line < 3 then None else if length line = 3 then Some (CHR 0x00) else Some (line ! 3))"

definition code_is :: "char \<Rightarrow> qbytearray \<Rightarrow> bool" where
  "code_is c line \<longleftrightarrow> line \<noteq> [] \<and> hd line = c"

definition proceed :: "char \<Rightarrow> qbytearray \<Rightarrow> qbytearray \<Rightarrow> smtp_state \<Rightarrow> (qbytearray \<Rightarrow> smtp_error) \<Rightarrow> smtp \<Rightarrow> smtp" where
  "proceed expected line cmd next_state err s =
     (if code_is expected line then emit [Write cmd] s\<lparr>m_state := next_state\<rparr>
      else emit [LogError (err line)] s\<lparr>m_state := Close\<rparr>)"

text \<open>One line of a reply: the new state, and whether the slot returns at once.\<close>

definition handle_line :: "smtp_env \<Rightarrow> qbytearray \<Rightarrow> smtp \<Rightarrow> (smtp \<times> bool) option" where
  "handle_line e line s =
     (let code = take 3 line in
      case m_state s of
        Init \<Rightarrow>
          if code_is (CHR ''2'') line then
            (case char3 line of
               None \<Rightarrow> None
             | Some c \<Rightarrow> Some (if c \<noteq> CHR '' '' then s else ehlo e s, False))
          else Some (emit [LogError (ConnectionFailed line)] s\<lparr>m_state := Close\<rparr>, False)
      | EhloDone \<Rightarrow> Some (emit [Disconnect] s, True)
      | StartTLSSent \<Rightarrow>
          Some (if code = ''220'' then ehlo e (emit [StartEncryption] s) else authenticate e s, False)
      | AuthSent \<Rightarrow>
          Some (proceed (CHR ''2'') line (''mail from:<'' @ toLatin1 (m_from s) @ ''>'' @ crlf) Rcpt AuthenticationFailed s, False)
      | Authenticated \<Rightarrow>
          Some (proceed (CHR ''2'') line (''mail from:<'' @ toLatin1 (m_from s) @ ''>'' @ crlf) Rcpt AuthenticationFailed s, False)
      | Rcpt \<Rightarrow>
          Some (proceed (CHR ''2'') line (''rcpt to:<'' @ toLatin1 (m_rcpt s) @ ''>'' @ crlf) Data MailFromRejected s, False)
      | Data \<Rightarrow> Some (proceed (CHR ''2'') line (''data'' @ crlf) Body RcptToRejected s, False)
      | Body \<Rightarrow> Some (proceed (CHR ''3'') line (m_message s @ crlf @ ''.'' @ crlf) Quit DataRejected s, False)
      | Quit \<Rightarrow> Some (proceed (CHR ''2'') line (''QUIT'' @ crlf) Close MessageRejected s, False)
      | Close \<Rightarrow> Some (emit [Disconnect] s, True)
      | AuthRequestSent \<Rightarrow>
          Some (case m_authType s of
                  AuthPlain \<Rightarrow> authPlain e s
                | AuthLogin \<Rightarrow> authLogin e s
                | AuthCramMD5 \<Rightarrow> authCramMD5 e (drop 4 line) s, False)
      | AuthUsernameSent \<Rightarrow>
          Some (case m_authType s of
                  AuthPlain \<Rightarrow> authPlain e s
                | AuthLogin \<Rightarrow> authLogin e s
                | AuthCramMD5 \<Rightarrow> authCramMD5 e (drop 4 line) s, False)
      | _ \<Rightarrow>
          (case char3 line of
             None \<Rightarrow> None
           | Some c \<Rightarrow> Some (parseEhloResponse e code (c \<noteq> CHR '' '') (utf8Text e (drop 4 line)) s, False)))"


text \<open>
  \<^verbatim>\<open>readyRead\<close>: every complete line in turn. Skipping authentication puts a reply in front of
  the buffer, which happens once at most: there is no way back into the greeting from there.
\<close>

definition greeting :: "smtp_state \<Rightarrow> bool" where
  "greeting st \<longleftrightarrow> st \<in> {Init, EhloSent, HeloSent, EhloDone, EhloGreetReceived, StartTLSSent}"

definition effort :: "smtp \<Rightarrow> nat" where
  "effort s = length (m_buffer s) + (if greeting (m_state s) then 24 else 0)"

lemma length_fake [simp]: "length fake_response = 23"
  by (simp add: fake_response_def crlf_def)

lemma emit_simps [simp]:
  "m_buffer (emit evs s) = m_buffer s" "m_state (emit evs s) = m_state s" "m_dialogue (emit evs s) = m_dialogue s @ evs"
  "m_message (emit evs s) = m_message s" "m_from (emit evs s) = m_from s" "m_rcpt (emit evs s) = m_rcpt s"
  "m_username (emit evs s) = m_username s" "m_password (emit evs s) = m_password s" "m_useSsl (emit evs s) = m_useSsl s"
  "m_extensions (emit evs s) = m_extensions s" "m_authType (emit evs s) = m_authType s"
  by (simp_all add: emit_def)

lemmas auth_defs = authCramMD5_def authPlain_def authLogin_def skipAuthentication_def Let_def

lemma auth_effort:
  "greeting (m_state s) \<Longrightarrow> effort (authenticate e s) < effort s"
  by (auto simp: authenticate_def auth_defs effort_def greeting_def)

lemma ehlo_effort: "greeting (m_state s) \<Longrightarrow> effort (ehlo e s) = effort s" "greeting (m_state s) \<Longrightarrow> effort (helo e s) = effort s"
  "greeting (m_state s) \<Longrightarrow> effort (startTLS s) = effort s"
  by (simp_all add: ehlo_def helo_def startTLS_def effort_def greeting_def)

lemma parse_effort:
  assumes "greeting (m_state s)"
  shows "effort (parseEhloResponse e code continued line s) \<le> effort s"
proof (cases "code \<noteq> ''250''")
  case True
  then show ?thesis using assms by (simp add: parseEhloResponse_def helo_def effort_def greeting_def)
next
  case False
  have done_effort: "effort (if P then startTLS t else authenticate e t) \<le> effort t" if "greeting (m_state t)" for P t
    using ehlo_effort(3) [OF that] auth_effort [OF that, of e] by simp
  define x where "x = qmap_insert (toUpper e (first_section line)) (other_sections line) (m_extensions s)"
  consider "m_state s \<noteq> EhloGreetReceived" "continued" | "m_state s \<noteq> EhloGreetReceived" "\<not> continued"
    | "m_state s = EhloGreetReceived" "continued" | "m_state s = EhloGreetReceived" "\<not> continued" by blast
  then show ?thesis
  proof cases
    case 1
    then show ?thesis using False assms by (simp add: parseEhloResponse_def effort_def greeting_def)
  next
    case 2
    have "effort (s\<lparr>m_state := EhloDone\<rparr>) = effort s" using assms by (simp add: effort_def greeting_def)
    then show ?thesis using 2 False done_effort [of "s\<lparr>m_state := EhloDone\<rparr>"]
      by (simp add: parseEhloResponse_def Let_def greeting_def)
  next
    case 3
    then show ?thesis using False by (simp add: parseEhloResponse_def Let_def effort_def)
  next
    case 4
    have "effort (s\<lparr>m_extensions := x, m_state := EhloDone\<rparr>) = effort s" using assms by (simp add: effort_def greeting_def)
    then show ?thesis using 4 False done_effort [of "s\<lparr>m_extensions := x, m_state := EhloDone\<rparr>"]
      by (simp add: parseEhloResponse_def Let_def greeting_def flip: x_def)
  qed
qed

lemma proceed_effort: "\<not> greeting nxt \<Longrightarrow> effort (proceed c line cmd nxt err s) \<le> effort s"
  by (simp add: proceed_def effort_def greeting_def)

lemma handle_line_effort:
  assumes "handle_line e line s = Some (s', stop)"
  shows "effort s' \<le> effort s"
proof -
  have g: "greeting (m_state s) \<Longrightarrow> effort (ehlo e s) \<le> effort s"
    "greeting (m_state s) \<Longrightarrow> effort (ehlo e (emit [StartEncryption] s)) \<le> effort s"
    "greeting (m_state s) \<Longrightarrow> effort (authenticate e s) \<le> effort s"
    using ehlo_effort(1) [of s e] ehlo_effort(1) [of "emit [StartEncryption] s" e] auth_effort [of s e]
    by (simp_all add: effort_def)
  have p: "effort (proceed c line cmd nxt err s) \<le> effort s" if "nxt \<in> {Rcpt, Data, Body, Quit, Close}" for c cmd nxt err
    using proceed_effort that by (auto simp: greeting_def)
  show ?thesis
  proof (cases "m_state s")
    case Init
    then show ?thesis using assms g(1)
      by (auto simp: handle_line_def effort_def greeting_def split: if_splits option.splits)
  next
    case StartTLSSent
    then show ?thesis using assms g(2,3) by (auto simp: handle_line_def greeting_def)
  next
    case AuthRequestSent
    then show ?thesis using assms by (auto simp: handle_line_def auth_defs effort_def greeting_def split: auth_type.splits)
  next
    case AuthUsernameSent
    then show ?thesis using assms by (auto simp: handle_line_def auth_defs effort_def greeting_def split: auth_type.splits)
  next
    case EhloSent
    then show ?thesis using assms parse_effort [of s e] by (auto simp: handle_line_def greeting_def Let_def split: option.splits)
  next
    case HeloSent
    then show ?thesis using assms parse_effort [of s e] by (auto simp: handle_line_def greeting_def Let_def split: option.splits)
  next
    case EhloGreetReceived
    then show ?thesis using assms parse_effort [of s e] by (auto simp: handle_line_def greeting_def Let_def split: option.splits)
  next
    case EhloDone
    then show ?thesis using assms by (auto simp: handle_line_def effort_def)
  next
    case Close
    then show ?thesis using assms by (auto simp: handle_line_def effort_def)
  qed (use assms p in \<open>auto simp: handle_line_def\<close>)
qed

lemma find_crlf: "find_sub crlf b = Some pos \<Longrightarrow> pos + 2 \<le> length b"
  using find_sub_bound [of crlf b pos] by (simp add: crlf_def)

function process :: "smtp_env \<Rightarrow> smtp \<Rightarrow> smtp option" where
  "process e s =
     (case find_sub crlf (m_buffer s) of
        None \<Rightarrow> Some s
      | Some pos \<Rightarrow>
          (let line = take pos (m_buffer s);
               s1 = emit [Received line] (s\<lparr>m_buffer := drop (pos + 2) (m_buffer s)\<rparr>)
           in case handle_line e line s1 of
                None \<Rightarrow> None
              | Some (s2, stop) \<Rightarrow> if stop then Some s2 else process e s2))"
  by pat_completeness auto

termination
proof (relation "measure (\<lambda>(e, s). effort s)", goal_cases)
  case (2 e s pos line s1 s2 x stop)
  have "effort s1 < effort s"
    using find_crlf [OF 2(1)] by (simp add: 2(3) effort_def)
  then show ?case using handle_line_effort [of e line s1 x stop] 2(4) 2(5) [symmetric] by simp
qed simp

declare process.simps [simp del]

definition readyRead :: "smtp_env \<Rightarrow> qbytearray \<Rightarrow> smtp \<Rightarrow> smtp option" where
  "readyRead e data s = process e (s\<lparr>m_buffer := m_buffer s @ data\<rparr>)"

end
