(* ===== verification/Smtp_Dialogue.thy ===== *)
theory Smtp_Dialogue
  imports Smtp
begin

text \<open>
  The dialogue of \<open>Smtp\<close> seen from the wire: the commands that carry a mail and the replies they wait
  for. Each theorem quantifies over everything a server may send.
\<close>

section \<open>What is written, and when\<close>

text \<open>The commands that carry the mail, each after a reply of its own kind.\<close>

definition mail_commands :: "smtp \<Rightarrow> qbytearray list" where
  "mail_commands s =
     [''mail from:<'' @ toLatin1 (m_from s) @ ''>'' @ crlf, ''rcpt to:<'' @ toLatin1 (m_rcpt s) @ ''>'' @ crlf,
      ''data'' @ crlf, m_message s @ crlf @ ''.'' @ crlf, ''QUIT'' @ crlf]"

definition exchange :: "smtp \<Rightarrow> qbytearray list \<Rightarrow> smtp_event list" where
  "exchange s replies =
     concat (map (\<lambda>i. [Received (replies ! i), Write (mail_commands s ! i)]) [0 ..< length replies])"

definition consenting :: "qbytearray list \<Rightarrow> bool" where
  "consenting replies \<longleftrightarrow> length replies \<le> 5 \<and> (\<forall>i < length replies. code_is (''22232'' ! i) (replies ! i))"

text \<open>What may be written before: greetings, and what authenticates if there are credentials.\<close>

definition credentials :: "smtp_env \<Rightarrow> smtp \<Rightarrow> qbytearray set" where
  "credentials e s =
     (if m_username s = [] \<or> m_password s = [] then {}
      else {''auth cram-md5'' @ crlf, ''auth login'' @ crlf, toBase64 e (toLatin1 (m_username s)) @ crlf,
            toBase64 e (toLatin1 (m_password s)) @ crlf,
            ''auth plain '' @ toBase64 e ([CHR 0x00] @ toLatin1 (m_username s) @ [CHR 0x00] @ toLatin1 (m_password s)) @ crlf}
        \<union> {toBase64 e (toLatin1 (m_username s) @ '' '' @
              to_hex (hmacMD5 (md5 e) (toLatin1 (m_password s)) challenge)) @ crlf | challenge. True})"

definition greetings :: "smtp_env \<Rightarrow> qbytearray set" where
  "greetings e = {''ehlo '' @ determineFQDN e @ crlf, ''helo '' @ determineFQDN e @ crlf, ''starttls'' @ crlf}"

definition prelude :: "smtp_env \<Rightarrow> smtp \<Rightarrow> smtp_event list \<Rightarrow> bool" where
  "prelude e s evs \<longleftrightarrow> (\<forall>w. Write w \<in> set evs \<longrightarrow> w \<in> greetings e \<union> credentials e s)"

definition silent :: "smtp_event list \<Rightarrow> bool" where
  "silent evs \<longleftrightarrow> (\<forall>w. Write w \<notin> set evs)"

fun exchanges :: "smtp_state \<Rightarrow> nat" where
  "exchanges Rcpt = 1" | "exchanges Data = 2" | "exchanges Body = 3" | "exchanges Quit = 4" | "exchanges _ = 0"

definition dialogue_ok :: "smtp_env \<Rightarrow> smtp \<Rightarrow> bool" where
  "dialogue_ok e s \<longleftrightarrow>
     (\<exists>greet replies tl. m_dialogue s = greet @ exchange s replies @ tl \<and> prelude e s greet \<and> consenting replies \<and> silent tl
        \<and> (m_state s \<noteq> Close \<longrightarrow> tl = [] \<and> length replies = exchanges (m_state s)))
     \<and> (m_state s \<in> {AuthRequestSent, AuthUsernameSent} \<longrightarrow> m_username s \<noteq> [] \<and> m_password s \<noteq> [])"

definition same_mail :: "smtp \<Rightarrow> smtp \<Rightarrow> bool" where
  "same_mail s s' \<longleftrightarrow> m_message s' = m_message s \<and> m_from s' = m_from s \<and> m_rcpt s' = m_rcpt s
     \<and> m_username s' = m_username s \<and> m_password s' = m_password s \<and> m_useSsl s' = m_useSsl s"

lemma same_mail_refl [simp]: "same_mail s s" by (simp add: same_mail_def)

lemma same_mail_trans: "same_mail a b \<Longrightarrow> same_mail b c \<Longrightarrow> same_mail a c" by (simp add: same_mail_def)

lemma same_mail_fields [simp]:
  "same_mail s (emit evs t) = same_mail s t" "same_mail s (t\<lparr>m_state := st\<rparr>) = same_mail s t"
  "same_mail s (t\<lparr>m_authType := a\<rparr>) = same_mail s t" "same_mail s (t\<lparr>m_buffer := b\<rparr>) = same_mail s t"
  "same_mail s (t\<lparr>m_extensions := x\<rparr>) = same_mail s t"
  by (simp_all add: same_mail_def)

lemma same_exchange: "same_mail s s' \<Longrightarrow> exchange s' = exchange s" "same_mail s s' \<Longrightarrow> prelude e s' = prelude e s"
  by (simp_all add: same_mail_def exchange_def mail_commands_def prelude_def credentials_def fun_eq_iff)

text \<open>Steps of the handshake: what they write is of it, and none of them sends the mail.\<close>

definition handshake_step :: "smtp_env \<Rightarrow> smtp \<Rightarrow> smtp \<Rightarrow> bool" where
  "handshake_step e s s' \<longleftrightarrow> same_mail s s'
     \<and> (\<exists>evs. m_dialogue s' = m_dialogue s @ evs \<and> prelude e s evs)
     \<and> exchanges (m_state s') = 0
     \<and> (m_state s' \<in> {AuthRequestSent, AuthUsernameSent} \<longrightarrow> m_username s \<noteq> [] \<and> m_password s \<noteq> [])"

lemma handshake_stepI:
  "m_dialogue s' = m_dialogue s @ evs \<Longrightarrow> same_mail s s' \<Longrightarrow> prelude e s evs \<Longrightarrow> exchanges (m_state s') = 0
    \<Longrightarrow> (m_state s' \<in> {AuthRequestSent, AuthUsernameSent} \<longrightarrow> m_username s \<noteq> [] \<and> m_password s \<noteq> [])
    \<Longrightarrow> handshake_step e s s'"
  by (auto simp: handshake_step_def)

lemma handshake_step_trans: "handshake_step e s t \<Longrightarrow> handshake_step e t u \<Longrightarrow> handshake_step e s u"
  unfolding handshake_step_def
  using same_mail_trans [of s t u] same_exchange(2) [of s t e]
  by (auto simp: prelude_def same_mail_def)

lemma prelude_simps [simp]: "prelude e s []" "prelude e s [LogError x]" "prelude e s [StartEncryption]" "prelude e s [Received l]"
  "prelude e s [Disconnect]" "prelude e s [Write w] \<longleftrightarrow> w \<in> greetings e \<union> credentials e s"
  by (simp_all add: prelude_def)

lemma greetings_step: "handshake_step e s (ehlo e s)" "handshake_step e s (helo e s)" "handshake_step e s (startTLS s)"
  by (rule handshake_stepI, simp add: ehlo_def helo_def startTLS_def, simp_all add: ehlo_def helo_def startTLS_def greetings_def)+

lemma skip_step: "handshake_step e s (skipAuthentication s)"
  by (simp add: skipAuthentication_def handshake_step_def same_mail_def)

lemma auth_step:
  assumes "m_username s \<noteq> []" and "m_password s \<noteq> []"
  shows "exchanges (m_state s) = 0 \<Longrightarrow> handshake_step e s (authPlain e s)" "handshake_step e s (authLogin e s)"
    "handshake_step e s (authCramMD5 e challenge s)"
proof -
  note creds = credentials_def [of e s]
  show "handshake_step e s (authPlain e s)" if "exchanges (m_state s) = 0"
  proof (cases "m_state s = AuthRequestSent")
    case True
    then show ?thesis using assms by (intro handshake_stepI [of _ _ "[]"]) (simp_all add: authPlain_def)
  next
    case False
    then show ?thesis using assms
      by (intro handshake_stepI, simp add: authPlain_def Let_def) (simp_all add: authPlain_def Let_def creds)
  qed
  show "handshake_step e s (authLogin e s)"
    using assms by (cases "m_state s")
      ((rule handshake_stepI, simp add: authLogin_def), simp_all add: authLogin_def creds)+
  show "handshake_step e s (authCramMD5 e challenge s)"
  proof (cases "m_state s = AuthRequestSent")
    case True
    then show ?thesis using assms
      by (intro handshake_stepI, simp add: authCramMD5_def Let_def) (auto simp: authCramMD5_def Let_def creds)
  next
    case False
    then show ?thesis using assms
      by (intro handshake_stepI, simp add: authCramMD5_def) (simp_all add: authCramMD5_def creds)
  qed
qed

lemma authenticate_step:
  assumes "exchanges (m_state s) = 0"
  shows "handshake_step e s (authenticate e s)"
proof (cases "m_username s = [] \<or> m_password s = []")
  case True
  then show ?thesis using skip_step by (auto simp: authenticate_def)
next
  case False
  have "handshake_step e s (emit [LogError x] s)" for x
    using assms False by (intro handshake_stepI [where evs = "[LogError x]"]) simp_all
  then have "handshake_step e s (skipAuthentication (emit [LogError x] s))" for x
    using handshake_step_trans skip_step by blast
  then show ?thesis using auth_step [of s e] skip_step [of e s] False assms by (simp add: authenticate_def Let_def)
qed

lemma parse_step:
  assumes "m_state s \<in> {EhloSent, HeloSent, EhloGreetReceived}"
  shows "handshake_step e s (parseEhloResponse e code continued line s)"
proof (cases "code \<noteq> ''250''")
  case True
  have "handshake_step e s ((emit [LogError (NotASmtpServer line)] s)\<lparr>m_state := Close\<rparr>)"
    by (rule handshake_stepI [where evs = "[LogError (NotASmtpServer line)]"]) simp_all
  then show ?thesis using greetings_step(2) True by (simp add: parseEhloResponse_def)
next
  case False
  have finish: "handshake_step e s (if P then startTLS t else authenticate e t)"
    if "same_mail s t" "m_dialogue t = m_dialogue s" "m_state t = EhloDone" for P t
  proof -
    have "handshake_step e s t" using that by (simp add: handshake_step_def)
    moreover have "handshake_step e t (if P then startTLS t else authenticate e t)"
      using greetings_step(3) authenticate_step [of t e] that(3) by simp
    ultimately show ?thesis by (rule handshake_step_trans)
  qed
  define x where "x = qmap_insert (toUpper e (first_section line)) (other_sections line) (m_extensions s)"
  consider "m_state s \<noteq> EhloGreetReceived" "continued" | "m_state s \<noteq> EhloGreetReceived" "\<not> continued"
    | "m_state s = EhloGreetReceived" "continued" | "m_state s = EhloGreetReceived" "\<not> continued" by blast
  then show ?thesis
  proof cases
    case 1
    then show ?thesis using False by (simp add: parseEhloResponse_def handshake_step_def)
  next
    case 2
    then show ?thesis using False finish [of "s\<lparr>m_state := EhloDone\<rparr>"] by (simp add: parseEhloResponse_def Let_def)
  next
    case 3
    then show ?thesis using False by (simp add: parseEhloResponse_def Let_def handshake_step_def)
  next
    case 4
    then show ?thesis using False finish [of "s\<lparr>m_extensions := x, m_state := EhloDone\<rparr>"]
      by (simp add: parseEhloResponse_def Let_def flip: x_def)
  qed
qed


section \<open>Every line keeps to the protocol\<close>

lemma exchange_snoc:
  "exchange s (replies @ [r]) = exchange s replies @ [Received r, Write (mail_commands s ! length replies)]"
proof -
  have "map (\<lambda>i. [Received ((replies @ [r]) ! i), Write (mail_commands s ! i)]) [0 ..< length replies]
      = map (\<lambda>i. [Received (replies ! i), Write (mail_commands s ! i)]) [0 ..< length replies]"
    by (intro map_cong) (simp_all add: nth_append)
  from arg_cong [OF this, of concat] show ?thesis by (simp add: exchange_def del: map_eq_conv)
qed

lemma consenting_snoc: "consenting replies \<Longrightarrow> length replies < 5 \<Longrightarrow> code_is (''22232'' ! length replies) r \<Longrightarrow> consenting (replies @ [r])"
  by (auto simp: consenting_def nth_append less_Suc_eq)

lemma handle_line_cases:
  assumes "handle_line e line s = Some (s', stop)"
    and "m_state s \<in> {AuthRequestSent, AuthUsernameSent} \<longrightarrow> m_username s \<noteq> [] \<and> m_password s \<noteq> []"
  obtains (handshake) "exchanges (m_state s) = 0" "m_state s \<noteq> Close" "handshake_step e s s'"
  | (mail) n nxt err where "n < 5" "m_state s \<noteq> Close" "exchanges (m_state s) = n"
      "s' = proceed (''22232'' ! n) line (mail_commands s ! n) nxt err s" "nxt = Close \<or> exchanges nxt = Suc n"
      "nxt \<notin> {AuthRequestSent, AuthUsernameSent}"
  | (closed) "m_state s = Close" "s' = emit [Disconnect] s"
proof -
  have self: "handshake_step e s (emit [x] s)" if "m_state s \<in> {EhloDone}" "\<And>w. x \<noteq> Write w" for x
    by (rule handshake_stepI [where evs = "[x]"]) (use that in \<open>auto simp: prelude_def\<close>)
  show thesis
  proof (cases "m_state s")
    case Init
    have "handshake_step e s s" using Init by (intro handshake_stepI [where evs = "[]"]) simp_all
    moreover have "handshake_step e s ((emit [LogError (ConnectionFailed line)] s)\<lparr>m_state := Close\<rparr>)"
      by (rule handshake_stepI [where evs = "[LogError (ConnectionFailed line)]"]) simp_all
    ultimately have "handshake_step e s s'"
      using assms(1) Init greetings_step(1) by (auto simp: handle_line_def split: if_splits option.splits)
    then show thesis using handshake Init by simp
  next
    case StartTLSSent
    have "handshake_step e s (emit [StartEncryption] s)"
      using StartTLSSent by (intro handshake_stepI [where evs = "[StartEncryption]"]) simp_all
    then have "handshake_step e s (ehlo e (emit [StartEncryption] s))" using handshake_step_trans greetings_step(1) by blast
    then have "handshake_step e s s'"
      using assms(1) StartTLSSent authenticate_step [of s e] by (auto simp: handle_line_def split: if_splits)
    then show thesis using handshake StartTLSSent by simp
  next
    case AuthRequestSent
    then have "handshake_step e s s'"
      using assms auth_step [of s e] by (auto simp: handle_line_def split: auth_type.splits)
    then show thesis using handshake AuthRequestSent by simp
  next
    case AuthUsernameSent
    then have "handshake_step e s s'"
      using assms auth_step [of s e] by (auto simp: handle_line_def split: auth_type.splits)
    then show thesis using handshake AuthUsernameSent by simp
  next
    case EhloSent
    then have "handshake_step e s s'" using assms(1) parse_step [of s e] by (auto simp: handle_line_def Let_def split: option.splits)
    then show thesis using handshake EhloSent by simp
  next
    case HeloSent
    then have "handshake_step e s s'" using assms(1) parse_step [of s e] by (auto simp: handle_line_def Let_def split: option.splits)
    then show thesis using handshake HeloSent by simp
  next
    case EhloGreetReceived
    then have "handshake_step e s s'" using assms(1) parse_step [of s e] by (auto simp: handle_line_def Let_def split: option.splits)
    then show thesis using handshake EhloGreetReceived by simp
  next
    case EhloDone
    then show thesis using handshake assms(1) self [of Disconnect] by (simp add: handle_line_def)
  next
    case AuthSent
    then show thesis using mail [of 0 Rcpt AuthenticationFailed] assms(1) by (simp add: handle_line_def mail_commands_def)
  next
    case Authenticated
    then show thesis using mail [of 0 Rcpt AuthenticationFailed] assms(1) by (simp add: handle_line_def mail_commands_def)
  next
    case Rcpt
    then show thesis using mail [of 1 Data MailFromRejected] assms(1) by (simp add: handle_line_def mail_commands_def)
  next
    case Data
    then show thesis using mail [of 2 Body RcptToRejected] assms(1) by (simp add: handle_line_def mail_commands_def)
  next
    case Body
    then show thesis using mail [of 3 Quit DataRejected] assms(1) by (simp add: handle_line_def mail_commands_def)
  next
    case Quit
    then show thesis using mail [of 4 Close MessageRejected] assms(1) by (simp add: handle_line_def mail_commands_def)
  next
    case Close
    then show thesis using closed assms(1) by (simp add: handle_line_def)
  qed
qed

lemma line_ok:
  assumes "dialogue_ok e s" and "same_mail s t" "m_state t = m_state s" "m_dialogue t = m_dialogue s @ [Received line]"
    and "handle_line e line t = Some (s', stop)"
  shows "dialogue_ok e s' \<and> same_mail s s'"
proof -
  from assms(1) obtain greet replies tl where
    d: "m_dialogue s = greet @ exchange s replies @ tl" "prelude e s greet" "consenting replies" "silent tl"
      "m_state s \<noteq> Close \<Longrightarrow> tl = [] \<and> length replies = exchanges (m_state s)"
    and creds: "m_state s \<in> {AuthRequestSent, AuthUsernameSent} \<longrightarrow> m_username s \<noteq> [] \<and> m_password s \<noteq> []"
    unfolding dialogue_ok_def by blast
  have c: "m_state t \<in> {AuthRequestSent, AuthUsernameSent} \<longrightarrow> m_username t \<noteq> [] \<and> m_password t \<noteq> []"
    using creds assms(2,3) by (simp add: same_mail_def)
  have cmds: "mail_commands t = mail_commands s" using assms(2) by (simp add: same_mail_def mail_commands_def)
  show ?thesis
  proof (cases rule: handle_line_cases [OF assms(5) c, case_names handshake mail closed])
    case handshake
    have nil: "replies = []" "tl = []" using d(5) handshake(1,2) assms(3) by simp_all
    from handshake(3) obtain evs where evs: "m_dialogue s' = m_dialogue t @ evs" "prelude e t evs"
      and s': "same_mail t s'" "exchanges (m_state s') = 0"
        "m_state s' \<in> {AuthRequestSent, AuthUsernameSent} \<longrightarrow> m_username t \<noteq> [] \<and> m_password t \<noteq> []"
      unfolding handshake_step_def by blast
    have sm: "same_mail s s'" using same_mail_trans [OF assms(2) s'(1)] .
    have "m_dialogue s' = (greet @ [Received line] @ evs) @ exchange s' [] @ []"
      using evs(1) assms(4) d(1) nil by (simp add: exchange_def)
    moreover have "prelude e s' (greet @ [Received line] @ evs)"
      using d(2) evs(2) same_exchange(2) [OF sm, of e] same_exchange(2) [OF assms(2), of e] by (auto simp: prelude_def)
    moreover have "consenting []" "silent []" by (simp_all add: consenting_def silent_def)
    moreover have "m_state s' \<in> {AuthRequestSent, AuthUsernameSent} \<longrightarrow> m_username s' \<noteq> [] \<and> m_password s' \<noteq> []"
      using s'(1,3) by (simp add: same_mail_def)
    ultimately show ?thesis unfolding dialogue_ok_def using s'(2) sm by (metis list.size(3))
  next
    case (mail n nxt err)
    have n: "length replies = n" "tl = []" using d(5) mail(2,3) assms(3) by simp_all
    have sm: "same_mail s s'" using assms(2) by (simp add: mail(4) proceed_def)
    note same = same_exchange [OF sm]
    show ?thesis
    proof (cases "code_is (''22232'' ! n) line")
      case True
      have "m_dialogue s' = greet @ exchange s' (replies @ [line]) @ []"
        unfolding same(1) using True assms(4) d(1) n by (simp add: mail(4) proceed_def exchange_snoc cmds)
      moreover have "consenting (replies @ [line])" using consenting_snoc d(3) True mail(1) n(1) by simp
      moreover have "m_state s' = nxt" using True by (simp add: mail(4) proceed_def)
      ultimately show ?thesis unfolding dialogue_ok_def using mail(5,6) n(1) d(2) sm same(2)
        by (intro conjI exI [of _ greet] exI [of _ "replies @ [line]"] exI [of _ "[]"]) (auto simp: silent_def)
    next
      case False
      have "m_dialogue s' = greet @ exchange s' replies @ [Received line, LogError (err line)]"
        unfolding same(1) using False assms(4) d(1) n by (simp add: mail(4) proceed_def)
      moreover have "m_state s' = Close" using False by (simp add: mail(4) proceed_def)
      ultimately show ?thesis unfolding dialogue_ok_def using d(2,3) sm same(2)
        by (intro conjI exI [of _ greet] exI [of _ replies] exI [of _ "[Received line, LogError (err line)]"])
          (auto simp: silent_def)
    qed
  next
    case closed
    have sm: "same_mail s s'" using assms(2) by (simp add: closed(2))
    have "m_dialogue s' = greet @ exchange s' replies @ (tl @ [Received line, Disconnect])"
      unfolding same_exchange(1) [OF sm] using assms(4) d(1) closed by simp
    moreover have "m_state s' = Close" using closed by simp
    ultimately show ?thesis unfolding dialogue_ok_def using d(2-4) sm same_exchange(2) [OF sm]
      by (intro conjI exI [of _ greet] exI [of _ replies] exI [of _ "tl @ [Received line, Disconnect]"]) (auto simp: silent_def)
  qed
qed


lemma process_ok:
  "process e s = Some s' \<Longrightarrow> dialogue_ok e s \<Longrightarrow> dialogue_ok e s' \<and> same_mail s s'"
proof (induction e s arbitrary: s' rule: process.induct)
  case (1 e s)
  show ?case
  proof (cases "find_sub crlf (m_buffer s)")
    case None
    then show ?thesis using "1.prems" by (simp add: process.simps [of e s])
  next
    case (Some pos)
    define line where "line = take pos (m_buffer s)"
    define t where "t = emit [Received line] (s\<lparr>m_buffer := drop (pos + 2) (m_buffer s)\<rparr>)"
    obtain u stop where h: "handle_line e line t = Some (u, stop)" and r: "s' = u \<and> stop \<or> process e u = Some s' \<and> \<not> stop"
      using "1.prems"(1) Some by (auto simp: process.simps [of e s] Let_def line_def t_def split: option.splits if_splits)
    have "same_mail s t" "m_state t = m_state s" "m_dialogue t = m_dialogue s @ [Received line]"
      by (simp_all add: t_def)
    note u = line_ok [OF "1.prems"(2) this h]
    show ?thesis
    proof (cases stop)
      case False
      then show ?thesis
        using "1.IH" [OF Some line_def t_def h refl False, of s'] r u same_mail_trans by blast
    qed (use r u in simp)
  qed
qed

definition conversation :: "smtp_env \<Rightarrow> qbytearray list \<Rightarrow> smtp \<Rightarrow> smtp option" where
  "conversation e segments s =
     fold (\<lambda>data r. case r of None \<Rightarrow> None | Some s \<Rightarrow> readyRead e data s) segments (Some s)"

lemma conversation_simps [simp]:
  "conversation e [] s = Some s"
  "conversation e (data # segments) s = (case readyRead e data s of None \<Rightarrow> None | Some s' \<Rightarrow> conversation e segments s')"
proof -
  have none: "fold (\<lambda>data r. case r of None \<Rightarrow> None | Some s \<Rightarrow> readyRead e data s) segments None = None"
    by (induction segments) simp_all
  show "conversation e [] s = Some s" by (simp add: conversation_def)
  show "conversation e (data # segments) s = (case readyRead e data s of None \<Rightarrow> None | Some s' \<Rightarrow> conversation e segments s')"
    by (cases "readyRead e data s") (simp_all add: conversation_def none)
qed

lemma conversation_ok:
  "conversation e segments s = Some s' \<Longrightarrow> dialogue_ok e s \<Longrightarrow> dialogue_ok e s' \<and> same_mail s s'"
proof (induction segments arbitrary: s)
  case (Cons data segments)
  then obtain t where t: "readyRead e data s = Some t" "conversation e segments t = Some s'" by (auto split: option.splits)
  have "dialogue_ok e (s\<lparr>m_buffer := m_buffer s @ data\<rparr>)"
    using Cons.prems(2) same_exchange [of s "s\<lparr>m_buffer := m_buffer s @ data\<rparr>"] by (simp add: dialogue_ok_def)
  from process_ok [OF t(1) [unfolded readyRead_def] this] have "dialogue_ok e t" "same_mail s t"
    by (simp_all add: same_mail_def)
  then show ?case using Cons.IH [OF t(2)] same_mail_trans by blast
qed simp

lemma sendMail_ok: "dialogue_ok e (sendMail e parseInt pref date from_addr to_addr subject body new_smtp)"
proof -
  let ?s = "sendMail e parseInt pref date from_addr to_addr subject body new_smtp"
  have "\<exists>x. m_dialogue ?s = [x] \<and> (\<forall>w. x \<noteq> Write w)" "m_state ?s = Init"
    by (simp_all add: sendMail_def new_smtp_def Let_def)
  then show ?thesis unfolding dialogue_ok_def
    by (auto simp: exchange_def consenting_def silent_def prelude_def intro!: exI [of _ "m_dialogue ?s"] exI [of _ "[]"])
qed

text \<open>
  C25. Whatever a server sends in whatever segments, as long as no line of it is shorter than four characters (there the
  client reads beyond the line, and the model ends), the dialogue is a handshake, then a prefix of the five exchanges
  that carry the mail, each command after a consenting line - for the first one this may be the 250 the client itself
  puts in when no login is needed or the login is done - and then nothing more is written; the handshake holds no
  credentials unless a user name and a password are set.
\<close>

theorem mail_needs_consent:
  assumes "conversation e segments (sendMail e parseInt pref date from_addr to_addr subject body new_smtp) = Some s"
  shows "\<exists>greet replies tl. m_dialogue s = greet @ exchange s replies @ tl
    \<and> (\<forall>w. Write w \<in> set greet \<longrightarrow> w \<in> greetings e \<union> credentials e s)
    \<and> consenting replies \<and> (\<forall>w. Write w \<notin> set tl)"
  using conversation_ok [OF assms sendMail_ok] unfolding dialogue_ok_def prelude_def silent_def by blast


section \<open>Replies that are long enough are always dealt with\<close>

function long_lines :: "qbytearray \<Rightarrow> bool" where
  "long_lines b = (case find_sub crlf b of None \<Rightarrow> True | Some pos \<Rightarrow> 3 \<le> pos \<and> long_lines (drop (pos + 2) b))"
  by pat_completeness auto

termination
  by (relation "measure length") (auto dest: find_crlf)

declare long_lines.simps [simp del]

lemma handle_long: "3 \<le> length line \<Longrightarrow> handle_line e line s \<noteq> None"
  by (auto simp: handle_line_def char3_def Let_def split: smtp_state.splits)

lemma authenticate_buffer: "m_buffer (authenticate e s) \<in> {m_buffer s, fake_response @ m_buffer s}"
  by (auto simp: authenticate_def auth_defs)

lemma parse_buffer: "m_buffer (parseEhloResponse e code continued line s) \<in> {m_buffer s, fake_response @ m_buffer s}"
proof -
  define x where "x = qmap_insert (toUpper e (first_section line)) (other_sections line) (m_extensions s)"
  show ?thesis
    using authenticate_buffer [of e "s\<lparr>m_state := EhloDone\<rparr>"] authenticate_buffer [of e "s\<lparr>m_extensions := x, m_state := EhloDone\<rparr>"]
      authenticate_buffer [of e "s\<lparr>m_extensions := x\<rparr>"]
    by (auto simp: parseEhloResponse_def Let_def helo_def startTLS_def simp flip: x_def)
qed

lemma handle_buffer:
  assumes "handle_line e line s = Some (s', stop)"
  shows "m_buffer s' \<in> {m_buffer s, fake_response @ m_buffer s}"
  using assms authenticate_buffer [of e s] parse_buffer [of e _ _ _ s]
  by (cases "m_state s") (auto simp: handle_line_def proceed_def ehlo_def auth_defs
      split: if_splits option.splits auth_type.splits)

lemma find_fake: "find_sub crlf (fake_response @ b) = Some 21"
  by (simp add: fake_response_def crlf_def)

lemma long_fake: "long_lines (fake_response @ b) = long_lines b"
  using find_fake [of b] by (subst long_lines.simps) (simp add: fake_response_def crlf_def)

lemma process_total:
  "long_lines (m_buffer s) \<Longrightarrow>
    \<exists>s'. process e s = Some s' \<and> (find_sub crlf (m_buffer s') = None \<or> last (m_dialogue s') = Disconnect)"
proof (induction e s rule: process.induct)
  case (1 e s)
  show ?case
  proof (cases "find_sub crlf (m_buffer s)")
    case None
    then show ?thesis by (simp add: process.simps [of e s])
  next
    case (Some pos)
    define line where "line = take pos (m_buffer s)"
    define t where "t = emit [Received line] (s\<lparr>m_buffer := drop (pos + 2) (m_buffer s)\<rparr>)"
    have l: "3 \<le> pos" "long_lines (drop (pos + 2) (m_buffer s))"
      using "1.prems" Some by (simp_all add: long_lines.simps [of "m_buffer s"])
    have "3 \<le> length line" using l(1) find_crlf [OF Some] by (simp add: line_def)
    then obtain u stop where h: "handle_line e line t = Some (u, stop)" using handle_long by fastforce
    have eq: "process e s = (if stop then Some u else process e u)"
      using Some h by (simp add: process.simps [of e s] Let_def line_def t_def)
    show ?thesis
    proof (cases stop)
      case True
      then have "last (m_dialogue u) = Disconnect" using h
        by (auto simp: handle_line_def Let_def split: smtp_state.splits option.splits if_splits)
      then show ?thesis using True eq by simp
    next
      case False
      have "long_lines (m_buffer u)" using handle_buffer [OF h] l(2) by (auto simp: t_def long_fake)
      from "1.IH" [OF Some line_def t_def h refl False this] show ?thesis using eq False by simp
    qed
  qed
qed

end
