(* ===== verification/Smtp_Mail.thy ===== *)
theory Smtp_Mail
  imports Smtp_Dialogue
begin

text \<open>
  The parts of the mail client that are reached in a run: the keyed digest of CRAM-MD5, the composed headers, the
  delivery of a whole mail, the end of the loop over received lines, and where the dialogue goes wrong.
\<close>

section \<open>The keyed digest\<close>

text \<open>HMAC as RFC 2104 defines it, for a digest \<open>H\<close> on blocks of 64 bytes.\<close>

definition hmac_rfc2104 :: "(qbytearray \<Rightarrow> qbytearray) \<Rightarrow> qbytearray \<Rightarrow> qbytearray \<Rightarrow> qbytearray" where
  "hmac_rfc2104 H key msg =
     (let k = (if length key > 64 then H key else key);
          block = take 64 (k @ replicate 64 (CHR 0x00))
      in H (map (\<lambda>c. xor_char c (CHR 0x5C)) block @ H (map (\<lambda>c. xor_char c (CHR 0x36)) block @ msg)))"

lemma xor_char_simps [simp]: "xor_char a b = xor_char b a \<longleftrightarrow> True" "xor_char c (CHR 0x00) = c" "xor_char (CHR 0x00) c = c"
  by (simp_all add: xor_char_def xor.commute)

lemma fold_pad:
  "n \<le> length pad \<Longrightarrow> n \<le> length key \<Longrightarrow> fold (\<lambda>i pad. pad[i := f (pad ! i) (key ! i)]) [0 ..< n] pad
     = map2 f (take n pad) (take n key) @ drop n pad"
proof (induction n)
  case (Suc n)
  let ?xs = "map2 f (take n pad) (take n key)"
  have "fold (\<lambda>i pad. pad[i := f (pad ! i) (key ! i)]) [0 ..< Suc n] pad
      = (?xs @ drop n pad)[n := f ((?xs @ drop n pad) ! n) (key ! n)]"
    using Suc by simp
  moreover have "length ?xs = n" "drop n pad = pad ! n # drop (Suc n) pad"
    using Suc.prems by (simp_all add: Cons_nth_drop_Suc)
  moreover have "map2 f (take (Suc n) pad) (take (Suc n) key) = ?xs @ [f (pad ! n) (key ! n)]"
    using Suc.prems by (simp add: take_Suc_conv_app_nth)
  ultimately show ?case by (simp add: nth_append list_update_append)
qed simp

lemma pad_block:
  assumes "length key \<le> 64"
  shows "fold (\<lambda>i pad. pad[i := xor_char (pad ! i) (key ! i)]) [0 ..< length key] (replicate 64 c)
    = map (\<lambda>k. xor_char k c) (take 64 (key @ replicate 64 (CHR 0x00)))"
proof -
  have "map2 xor_char (replicate n c) key = map (\<lambda>k. xor_char k c) key" if "length key = n" for n
    using that by (induction key arbitrary: n) (auto simp: xor_char_def xor.commute)
  then show ?thesis using assms by (simp add: fold_pad)
qed

lemma hmac_equiv:
  assumes "length (H key) \<le> 64"
  shows "hmacMD5 H key msg = hmac_rfc2104 H key msg"
proof -
  define k where "k = (if length key > 64 then H key else key)"
  have "length k \<le> 64" using assms by (simp add: k_def)
  from pad_block [OF this] show ?thesis unfolding hmacMD5_def hmac_rfc2104_def Let_def k_def [symmetric] by simp
qed

section \<open>Folded headers\<close>

definition word_inv :: "qbytearray \<Rightarrow> qbytearray \<times> qbytearray \<times> bool \<Rightarrow> bool" where
  "word_inv full acc \<longleftrightarrow>
     (case acc of (rv, line, firstWord) \<Rightarrow>
        \<exists>ls. rv = concat (map (\<lambda>l. l @ crlf) ls) \<and> concat ls @ line = full
          \<and> (\<forall>l \<in> set (tl (ls @ [line])). l \<noteq> [] \<and> hd l = CHR '' ''))"

lemma add_word_inv:
  assumes "word_inv full (rv, line, False)"
  shows "word_inv (full @ '' '' @ word) (add_word word (rv, line, False)) \<and> \<not> snd (snd (add_word word (rv, line, False)))"
proof -
  from assms obtain ls where ls: "rv = concat (map (\<lambda>l. l @ crlf) ls)" "concat ls @ line = full"
    "\<forall>l \<in> set (tl (ls @ [line])). l \<noteq> [] \<and> hd l = CHR '' ''"
    by (auto simp: word_inv_def)
  show ?thesis
  proof (cases "length line > 78")
    case True
    have "\<forall>l \<in> set (tl ((ls @ [line]) @ ['' '' @ word])). l \<noteq> [] \<and> hd l = CHR '' ''"
      using ls(3) by (cases ls) auto
    then show ?thesis using True ls(1,2)
      by (auto simp: add_word_def word_inv_def intro!: exI [of _ "ls @ [line]"])
  next
    case False
    have "\<forall>l \<in> set (tl (ls @ [line @ '' '' @ word])). l \<noteq> [] \<and> hd l = CHR '' ''"
      using ls(3) by (cases ls) (auto simp: hd_append)
    then show ?thesis using False ls(1,2) by (auto simp: add_word_def word_inv_def intro!: exI [of _ ls])
  qed
qed

lemma fold_words:
  "word_inv full (rv, line, False) \<Longrightarrow> \<exists>rv' line'. fold add_word words (rv, line, False) = (rv', line', False)
     \<and> word_inv (full @ concat (map (\<lambda>w. '' '' @ w) words)) (rv', line', False)"
proof (induction words arbitrary: full rv line)
  case (Cons w words)
  obtain rv1 line1 where a: "add_word w (rv, line, False) = (rv1, line1, False)"
    using add_word_inv [OF Cons.prems, of w] by (cases "add_word w (rv, line, False)") simp
  then have "word_inv (full @ '' '' @ w) (rv1, line1, False)" using add_word_inv [OF Cons.prems, of w] by simp
  from Cons.IH [OF this] show ?case using a by simp
qed simp

lemma join_words: "join [c] (w # ws) = w @ concat (map (\<lambda>w. [c] @ w) ws)"
  by (induction ws arbitrary: w) simp_all

lemma header_folds:
  assumes "canEncodeAsLatin1 value" and "find_sub (ustr ''=?'') value = None" and "length (key @ '': '' @ pre) \<le> 78"
  shows "\<exists>lines. encodeMimeHeader e key value pre = concat (map (\<lambda>l. l @ crlf) lines)
    \<and> concat lines = key @ '': '' @ pre @ toLatin1 value \<and> lines \<noteq> []
    \<and> (\<forall>l \<in> set (tl lines). l \<noteq> [] \<and> hd l = CHR '' '')"
proof -
  let ?line = "key @ '': '' @ pre"
  obtain w ws where w: "split_char (CHR '' '') (toLatin1 value) = w # ws" by (cases "split_char (CHR '' '') (toLatin1 value)") simp_all
  have join: "w @ concat (map (\<lambda>w. '' '' @ w) ws) = toLatin1 value"
    using join_split_char [of "CHR '' ''" "toLatin1 value"] unfolding w by (simp add: join_words)
  have "add_word w ([], ?line, True) = ([], ?line @ w, False)" using assms(3) by (simp add: add_word_def)
  moreover have "word_inv (?line @ w) ([], ?line @ w, False)" by (auto simp: word_inv_def intro!: exI [of _ "[]"])
  ultimately obtain rv line where f: "fold add_word (w # ws) ([], ?line, True) = (rv, line, False)"
    and i: "word_inv (?line @ w @ concat (map (\<lambda>w. '' '' @ w) ws)) (rv, line, False)"
    using fold_words [of "?line @ w" "[]" "?line @ w" ws] by auto
  from i obtain ls where ls: "rv = concat (map (\<lambda>l. l @ crlf) ls)" "concat ls @ line = ?line @ toLatin1 value"
    "\<forall>l \<in> set (tl (ls @ [line])). l \<noteq> [] \<and> hd l = CHR '' ''"
    unfolding join by (auto simp: word_inv_def)
  have "encodeMimeHeader e key value pre = rv @ line @ crlf"
    using assms(1,2) f by (simp add: encodeMimeHeader_def w)
  then show ?thesis using ls by (intro exI [of _ "ls @ [line]"]) simp
qed


section \<open>Segments do not matter\<close>

definition more :: "qbytearray \<Rightarrow> smtp \<Rightarrow> smtp" where
  "more b s = s\<lparr>m_buffer := m_buffer s @ b\<rparr>"

lemma more_simps [simp]:
  "m_buffer (more b s) = m_buffer s @ b" "m_state (more b s) = m_state s" "m_dialogue (more b s) = m_dialogue s"
  "m_message (more b s) = m_message s" "m_from (more b s) = m_from s" "m_rcpt (more b s) = m_rcpt s"
  "m_username (more b s) = m_username s" "m_password (more b s) = m_password s" "m_useSsl (more b s) = m_useSsl s"
  "m_extensions (more b s) = m_extensions s" "m_authType (more b s) = m_authType s"
  by (simp_all add: more_def)

lemma more_upd [simp]:
  "emit evs (more b s) = more b (emit evs s)" "(more b s)\<lparr>m_state := st\<rparr> = more b (s\<lparr>m_state := st\<rparr>)"
  "(more b s)\<lparr>m_authType := a\<rparr> = more b (s\<lparr>m_authType := a\<rparr>)"
  "(more b s)\<lparr>m_extensions := x\<rparr> = more b (s\<lparr>m_extensions := x\<rparr>)"
  "(more b s)\<lparr>m_buffer := c @ b\<rparr> = more b (s\<lparr>m_buffer := c\<rparr>)"
  by (simp_all add: more_def emit_def)

lemma more_auth:
  "ehlo e (more b s) = more b (ehlo e s)" "helo e (more b s) = more b (helo e s)" "startTLS (more b s) = more b (startTLS s)"
  "authPlain e (more b s) = more b (authPlain e s)" "authLogin e (more b s) = more b (authLogin e s)"
  "authCramMD5 e c (more b s) = more b (authCramMD5 e c s)"
  "proceed x l w n r (more b s) = more b (proceed x l w n r s)"
  by (simp_all add: ehlo_def helo_def startTLS_def authPlain_def authLogin_def authCramMD5_def proceed_def Let_def)

lemma more_skip: "skipAuthentication (more b s) = more b (skipAuthentication s)"
  by (simp add: skipAuthentication_def more_def)

lemma more_authenticate: "authenticate e (more b s) = more b (authenticate e s)"
  by (simp add: authenticate_def Let_def more_auth more_skip)

lemma more_parse: "parseEhloResponse e code continued line (more b s) = more b (parseEhloResponse e code continued line s)"
  by (simp add: parseEhloResponse_def Let_def more_auth more_authenticate)

lemma more_handle:
  "handle_line e line (more b s) = map_option (\<lambda>(s', stop). (more b s', stop)) (handle_line e line s)"
  by (cases "m_state s")
    (simp_all add: handle_line_def Let_def more_auth more_authenticate more_parse split: option.split auth_type.split)

lemma stop_disconnects: "handle_line e line s = Some (s', True) \<Longrightarrow> Disconnect \<in> set (m_dialogue s')"
  by (auto simp: handle_line_def Let_def split: smtp_state.splits option.splits if_splits)

text \<open>What is processed of a longer buffer, in terms of a shorter one.\<close>

lemma process_more:
  "process e (more b s) = Some s' \<Longrightarrow> Disconnect \<notin> set (m_dialogue s') \<Longrightarrow>
    \<exists>s1. process e s = Some s1 \<and> process e (more b s1) = Some s'"
proof (induction e s rule: process.induct)
  case (1 e s)
  show ?case
  proof (cases "find_sub crlf (m_buffer s)")
    case None
    then show ?thesis using "1.prems" by (simp add: process.simps [of e s])
  next
    case (Some pos)
    define line where "line = take pos (m_buffer s)"
    define t where "t = emit [Received line] (s\<lparr>m_buffer := drop (pos + 2) (m_buffer s)\<rparr>)"
    have p: "pos + 2 \<le> length (m_buffer s)" by (rule find_crlf [OF Some])
    have m: "emit [Received (take pos (m_buffer s @ b))] ((more b s)\<lparr>m_buffer := drop (pos + 2) (m_buffer s @ b)\<rparr>) = more b t"
      using p by (simp add: t_def line_def)
    have eqm: "process e (more b s) = (case handle_line e line (more b t) of None \<Rightarrow> None
        | Some (s2, stop) \<Rightarrow> if stop then Some s2 else process e s2)"
      using find_sub_append [OF Some, of b] m p by (simp add: process.simps [of e "more b s"] Let_def line_def)
    obtain u stop where h: "handle_line e line t = Some (u, stop)"
      and r: "if stop then s' = more b u else process e (more b u) = Some s'"
      using "1.prems"(1) unfolding eqm more_handle by (auto split: option.splits if_splits)
    have eq: "process e s = (if stop then Some u else process e u)"
      using Some h by (simp add: process.simps [of e s] Let_def line_def t_def)
    have "\<not> stop" using stop_disconnects h r "1.prems"(2) by (cases stop) auto
    with "1.IH" [OF Some line_def t_def h refl this] r "1.prems"(2) eq show ?thesis by simp
  qed
qed

lemma authenticate_extends: "prefix (m_dialogue s) (m_dialogue (authenticate e s))"
  by (auto simp: authenticate_def auth_defs)

lemma parse_extends: "prefix (m_dialogue s) (m_dialogue (parseEhloResponse e code continued line s))"
proof -
  define x where "x = qmap_insert (toUpper e (first_section line)) (other_sections line) (m_extensions s)"
  show ?thesis
    using authenticate_extends [of "s\<lparr>m_state := EhloDone\<rparr>" e] authenticate_extends [of "s\<lparr>m_extensions := x\<rparr>" e]
      authenticate_extends [of "s\<lparr>m_extensions := x, m_state := EhloDone\<rparr>" e]
    by (auto simp: parseEhloResponse_def Let_def helo_def startTLS_def simp flip: x_def)
qed

lemma handle_extends:
  assumes "handle_line e line s = Some (s', stop)"
  shows "prefix (m_dialogue s) (m_dialogue s')"
  using assms authenticate_extends [of s e] parse_extends [of s e]
  by (cases "m_state s") (auto simp: handle_line_def proceed_def ehlo_def auth_defs
      split: if_splits option.splits auth_type.splits)

lemma process_extends: "process e s = Some s' \<Longrightarrow> prefix (m_dialogue s) (m_dialogue s')"
proof (induction e s rule: process.induct)
  case (1 e s)
  show ?case
  proof (cases "find_sub crlf (m_buffer s)")
    case (Some pos)
    define line where "line = take pos (m_buffer s)"
    define t where "t = emit [Received line] (s\<lparr>m_buffer := drop (pos + 2) (m_buffer s)\<rparr>)"
    obtain u stop where h: "handle_line e line t = Some (u, stop)" and r: "if stop then s' = u else process e u = Some s'"
      using "1.prems" Some by (auto simp: process.simps [of e s] Let_def line_def t_def split: option.splits if_splits)
    have "prefix (m_dialogue s) (m_dialogue u)" using handle_extends [OF h] by (auto simp: t_def prefix_def)
    moreover have "prefix (m_dialogue u) (m_dialogue s')"
      using "1.IH" [OF Some line_def t_def h refl] r by (cases stop) simp_all
    ultimately show ?thesis by (rule prefix_order.trans)
  qed (use "1.prems" in \<open>simp add: process.simps [of e s]\<close>)
qed

lemma process_end: "process e s = Some s' \<Longrightarrow> Disconnect \<notin> set (m_dialogue s') \<Longrightarrow> find_sub crlf (m_buffer s') = None"
proof (induction e s rule: process.induct)
  case (1 e s)
  show ?case
  proof (cases "find_sub crlf (m_buffer s)")
    case (Some pos)
    define line where "line = take pos (m_buffer s)"
    define t where "t = emit [Received line] (s\<lparr>m_buffer := drop (pos + 2) (m_buffer s)\<rparr>)"
    obtain u stop where h: "handle_line e line t = Some (u, stop)" and r: "if stop then s' = u else process e u = Some s'"
      using "1.prems" Some by (auto simp: process.simps [of e s] Let_def line_def t_def split: option.splits if_splits)
    have "\<not> stop" using stop_disconnects h r "1.prems"(2) by (cases stop) auto
    then show ?thesis using "1.IH" [OF Some line_def t_def h refl] r "1.prems"(2) by simp
  qed (use "1.prems" in \<open>simp add: process.simps [of e s]\<close>)
qed

lemma readyRead_more: "readyRead e data s = process e (more data s)"
  by (simp add: readyRead_def more_def)

lemma more_more: "more b (more a s) = more (a @ b) s"
  by (simp add: more_def)

lemma conversation_segments:
  assumes "readyRead e (concat segments) s = Some s'" and "Disconnect \<notin> set (m_dialogue s')"
    and "find_sub crlf (m_buffer s) = None"
  shows "conversation e segments s = Some s'"
  using assms
proof (induction segments arbitrary: s)
  case Nil
  then show ?case by (simp add: readyRead_more more_def process.simps)
next
  case (Cons a segments)
  have "process e (more (concat segments) (more a s)) = Some s'" using Cons.prems(1) by (simp add: readyRead_more more_more)
  from process_more [OF this Cons.prems(2)] obtain s1 where
    s1: "readyRead e a s = Some s1" "readyRead e (concat segments) s1 = Some s'" by (auto simp: readyRead_more)
  have "Disconnect \<notin> set (m_dialogue s1)"
    using process_extends [OF s1(2) [unfolded readyRead_more]] Cons.prems(2) by (auto simp: prefix_def)
  then have "find_sub crlf (m_buffer s1) = None" using process_end s1(1) by (auto simp: readyRead_more)
  from Cons.IH [OF s1(2) Cons.prems(2) this] show ?case using s1(1) by simp
qed


section \<open>A mail is delivered\<close>

text \<open>A reply line: it holds no carriage return of its own.\<close>

definition reply_line :: "qbytearray \<Rightarrow> bool" where
  "reply_line l \<longleftrightarrow> CHR 0x0D \<notin> set l"

lemma process_line:
  assumes "reply_line l" and "m_buffer s = l @ crlf @ rest"
  shows "process e s = (case handle_line e l (emit [Received l] (s\<lparr>m_buffer := rest\<rparr>)) of
      None \<Rightarrow> None | Some (s', stop) \<Rightarrow> if stop then Some s' else process e s')"
proof -
  have "find_sub crlf (m_buffer s) = Some (length l)"
    using find_sub_skip [of "CHR 0x0D" l "[CHR 0x0A]" "crlf @ rest"] assms by (simp add: crlf_def reply_line_def)
  then show ?thesis using assms(2) by (simp add: process.simps [of e s] Let_def crlf_def)
qed

lemma process_empty: "m_buffer s = [] \<Longrightarrow> process e s = Some s"
  by (simp add: process.simps crlf_def)

lemma reply_fake: "reply_line ''250 QBT FAKE RESPONSE''"
  by (simp add: reply_line_def)

text \<open>The replies of a server without extensions that accepts the mail.\<close>

definition accepting :: "qbytearray list \<Rightarrow> bool" where
  "accepting replies \<longleftrightarrow> length replies = 6 \<and> list_all reply_line replies
     \<and> prefix ''220 '' (replies ! 0) \<and> prefix ''250 '' (replies ! 1)
     \<and> prefix ''250'' (replies ! 2) \<and> prefix ''250'' (replies ! 3)
     \<and> prefix ''354'' (replies ! 4) \<and> prefix ''250'' (replies ! 5)"

lemma prefix_code: "prefix (c # cs) l \<Longrightarrow> code_is c l"
  by (auto simp: code_is_def prefix_def)

lemma char3_space: "prefix [a, b, c, CHR '' ''] l \<Longrightarrow> char3 l = Some (CHR '' '') \<and> take 3 l = [a, b, c]"
  by (auto simp: char3_def prefix_def)

definition advance :: "smtp_event list \<Rightarrow> smtp_state \<Rightarrow> qbytearray \<Rightarrow> smtp \<Rightarrow> smtp" where
  "advance evs st rest s = s\<lparr>m_dialogue := m_dialogue s @ evs, m_state := st, m_buffer := rest\<rparr>"

lemma advance_simps [simp]:
  "m_dialogue (advance evs st rest s) = m_dialogue s @ evs" "m_state (advance evs st rest s) = st"
  "m_buffer (advance evs st rest s) = rest" "m_extensions (advance evs st rest s) = m_extensions s"
  "mail_commands (advance evs st rest s) = mail_commands s"
  by (simp_all add: advance_def mail_commands_def)

lemma step_mail:
  assumes "reply_line l" and "m_buffer s = l @ crlf @ rest" and "code_is c l"
    and "(m_state s, c, n, nxt) \<in> {(Authenticated, CHR ''2'', 0, Rcpt), (Rcpt, CHR ''2'', 1, Data), (Data, CHR ''2'', 2, Body),
      (Body, CHR ''3'', 3, Quit), (Quit, CHR ''2'', 4, Close)}"
  shows "process e s = process e (advance [Received l, Write (mail_commands s ! n)] nxt rest s)"
proof -
  have "handle_line e l (emit [Received l] (s\<lparr>m_buffer := rest\<rparr>))
      = Some (advance [Received l, Write (mail_commands s ! n)] nxt rest s, False)"
    using assms(3,4) by (auto simp: handle_line_def proceed_def mail_commands_def advance_def emit_def)
  then show ?thesis by (simp add: process_line [OF assms(1,2)])
qed

lemma step_greeting:
  assumes "reply_line l" and "m_buffer s = l @ crlf @ rest" and "prefix ''220 '' l" and "m_state s = Init"
  shows "process e s = process e (advance [Received l, Write (''ehlo '' @ determineFQDN e @ crlf)] EhloSent rest s)"
proof -
  have "handle_line e l (emit [Received l] (s\<lparr>m_buffer := rest\<rparr>))
      = Some (advance [Received l, Write (''ehlo '' @ determineFQDN e @ crlf)] EhloSent rest s, False)"
    using prefix_code [OF assms(3)] char3_space [OF assms(3)] assms(4)
    by (simp add: handle_line_def ehlo_def advance_def emit_def)
  then show ?thesis by (simp add: process_line [OF assms(1,2)])
qed

lemma step_no_extensions:
  assumes "reply_line l" and "m_buffer s = l @ crlf @ rest" and "prefix ''250 '' l" and "m_state s = EhloSent"
    and "m_extensions s = []"
  shows "process e s = process e (advance [Received l] Authenticated (fake_response @ rest) s)"
proof -
  have "handle_line e l (emit [Received l] (s\<lparr>m_buffer := rest\<rparr>))
      = Some (advance [Received l] Authenticated (fake_response @ rest) s, False)"
    using char3_space [OF assms(3)] assms(4,5)
    by (simp add: handle_line_def parseEhloResponse_def authenticate_def skipAuthentication_def qmap_contains_def Let_def
        advance_def emit_def)
  then show ?thesis by (simp add: process_line [OF assms(1,2)])
qed

lemma accepted_dialogue:
  assumes "accepting replies" and "m_state s = Init" and "m_extensions s = []"
    and "m_buffer s = concat (map (\<lambda>r. r @ crlf) replies)"
  shows "\<exists>s'. process e s = Some s' \<and> m_state s' = Close
    \<and> m_dialogue s' = m_dialogue s
        @ [Received (replies ! 0), Write (''ehlo '' @ determineFQDN e @ crlf), Received (replies ! 1)]
        @ exchange s (''250 QBT FAKE RESPONSE'' # drop 2 replies)"
proof -
  obtain r0 r1 r2 r3 r4 r5 where r: "replies = [r0, r1, r2, r3, r4, r5]"
    using assms(1) by (auto simp: accepting_def length_Suc_conv numeral_eq_Suc)
  have l: "reply_line r0" "reply_line r1" "reply_line r2" "reply_line r3" "reply_line r4" "reply_line r5"
    and p: "prefix ''220 '' r0" "prefix ''250 '' r1" "prefix ''250'' r2" "prefix ''250'' r3" "prefix ''354'' r4" "prefix ''250'' r5"
    using assms(1) by (simp_all add: accepting_def r numeral_eq_Suc)
  let ?fake = "''250 QBT FAKE RESPONSE''"
  define s1 where "s1 = advance [Received r0, Write (''ehlo '' @ determineFQDN e @ crlf)] EhloSent
    (r1 @ crlf @ r2 @ crlf @ r3 @ crlf @ r4 @ crlf @ r5 @ crlf @ []) s"
  define s2 where "s2 = advance [Received r1] Authenticated (?fake @ crlf @ r2 @ crlf @ r3 @ crlf @ r4 @ crlf @ r5 @ crlf @ []) s1"
  define s3 where "s3 = advance [Received ?fake, Write (mail_commands s ! 0)] Rcpt (r2 @ crlf @ r3 @ crlf @ r4 @ crlf @ r5 @ crlf @ []) s2"
  define s4 where "s4 = advance [Received r2, Write (mail_commands s ! 1)] Data (r3 @ crlf @ r4 @ crlf @ r5 @ crlf @ []) s3"
  define s5 where "s5 = advance [Received r3, Write (mail_commands s ! 2)] Body (r4 @ crlf @ r5 @ crlf @ []) s4"
  define s6 where "s6 = advance [Received r4, Write (mail_commands s ! 3)] Quit (r5 @ crlf @ []) s5"
  define s7 where "s7 = advance [Received r5, Write (mail_commands s ! 4)] Close [] s6"
  note defs = s1_def s2_def s3_def s4_def s5_def s6_def s7_def
  have cmds: "mail_commands s2 = mail_commands s" "mail_commands s3 = mail_commands s" "mail_commands s4 = mail_commands s"
    "mail_commands s5 = mail_commands s" "mail_commands s6 = mail_commands s" by (simp_all add: defs)
  have "process e s = process e s1"
    unfolding s1_def by (rule step_greeting [OF l(1) _ p(1) assms(2)]) (simp add: assms(4) r)
  also have "\<dots> = process e s2"
    unfolding s2_def using step_no_extensions [OF l(2) _ p(2), of s1] assms(3) by (simp add: s1_def fake_response_def)
  also have "\<dots> = process e s3"
    unfolding s3_def cmds(1) [symmetric]
    by (rule step_mail [OF reply_fake _ _]) (simp_all add: s2_def code_is_def)
  also have "\<dots> = process e s4"
    unfolding s4_def cmds(2) [symmetric] by (rule step_mail [OF l(3) _ prefix_code [OF p(3)]]) (simp_all add: s3_def)
  also have "\<dots> = process e s5"
    unfolding s5_def cmds(3) [symmetric] by (rule step_mail [OF l(4) _ prefix_code [OF p(4)]]) (simp_all add: s4_def)
  also have "\<dots> = process e s6"
    unfolding s6_def cmds(4) [symmetric] by (rule step_mail [OF l(5) _ prefix_code [OF p(5)]]) (simp_all add: s5_def)
  also have "\<dots> = process e s7"
    unfolding s7_def cmds(5) [symmetric] by (rule step_mail [OF l(6) _ prefix_code [OF p(6)]]) (simp_all add: s6_def)
  also have "\<dots> = Some s7" by (rule process_empty) (simp add: s7_def)
  finally show ?thesis
    by (intro exI [of _ s7]) (simp add: defs r exchange_def upt_rec numeral_eq_Suc)
qed


section \<open>What the client does not handle\<close>

text \<open>A reply to the greeting of fewer than three characters is read beyond its end.\<close>

lemma short_reply_read_beyond:
  "m_state s \<in> {EhloSent, HeloSent, EhloGreetReceived} \<Longrightarrow> length l < 3 \<Longrightarrow> handle_line e l s = None"
  by (auto simp: handle_line_def char3_def)

text \<open>A bare code, which ends a reply, is taken for a line with more to come.\<close>

lemma bare_code_continues:
  "m_state s = EhloSent \<Longrightarrow> handle_line e ''250'' s = Some (s\<lparr>m_state := EhloGreetReceived\<rparr>, False)"
  "m_state s = Init \<Longrightarrow> handle_line e ''220'' s = Some (s, False)"
  by (simp_all add: handle_line_def char3_def parseEhloResponse_def code_is_def)

text \<open>The pieces of 78 characters of the body are put together again without a line break.\<close>

lemma chunks_concat: "0 < n \<Longrightarrow> concat (chunks n xs) = xs"
proof (induction n xs rule: chunks.induct)
  case (2 n xs)
  then show ?case by (cases "xs = []") simp_all
qed simp

lemma toLatin1_ustr [simp]: "toLatin1 (ustr s) = s"
  using of_char_less_256 by (auto simp: toLatin1_def ustr_def o_def less_Suc_eq_le [symmetric] intro!: map_idI)

text \<open>A line break in a subject is written as it is, and what follows is a header of its own.\<close>

lemma subject_injects_header:
  "encodeMimeHeader e ''Subject'' (ustr (''hello'' @ crlf @ ''Bcc: everybody'')) [] = ''Subject: hello'' @ crlf @ ''Bcc: everybody'' @ crlf"
proof -
  have "toLatin1 (ustr (''hello'' @ crlf @ ''Bcc: everybody'')) = ''hello'' @ crlf @ ''Bcc: everybody''"
    by (simp add: toLatin1_ustr)
  moreover have "split_char (CHR '' '') (''hello'' @ crlf @ ''Bcc: everybody'') = [''hello'' @ crlf @ ''Bcc:'', ''everybody'']"
    by (simp add: crlf_def)
  moreover have "find_sub (ustr ''=?'') (ustr (''hello'' @ crlf @ ''Bcc: everybody'')) = None"
    "canEncodeAsLatin1 (ustr (''hello'' @ crlf @ ''Bcc: everybody''))"
    by (simp_all add: ustr_def crlf_def canEncodeAsLatin1_def)
  ultimately show ?thesis by (simp add: encodeMimeHeader_def add_word_def crlf_def)
qed

lemma step_login:
  assumes "reply_line l" and "m_buffer s = l @ crlf @ rest" and "m_authType s = AuthLogin"
  shows "m_state s = AuthRequestSent \<Longrightarrow> process e s = process e (advance [Received l, Write (toBase64 e (toLatin1 (m_username s)) @ crlf)]
      AuthUsernameSent rest s)"
    "m_state s = AuthUsernameSent \<Longrightarrow> process e s = process e (advance [Received l, Write (toBase64 e (toLatin1 (m_password s)) @ crlf)]
      AuthSent rest s)"
proof -
  have "m_state s = AuthRequestSent \<Longrightarrow> handle_line e l (emit [Received l] (s\<lparr>m_buffer := rest\<rparr>))
      = Some (advance [Received l, Write (toBase64 e (toLatin1 (m_username s)) @ crlf)] AuthUsernameSent rest s, False)"
    "m_state s = AuthUsernameSent \<Longrightarrow> handle_line e l (emit [Received l] (s\<lparr>m_buffer := rest\<rparr>))
      = Some (advance [Received l, Write (toBase64 e (toLatin1 (m_password s)) @ crlf)] AuthSent rest s, False)"
    using assms(3) by (simp_all add: handle_line_def authLogin_def advance_def emit_def)
  then show "m_state s = AuthRequestSent \<Longrightarrow> process e s = process e (advance [Received l, Write (toBase64 e (toLatin1 (m_username s)) @ crlf)]
      AuthUsernameSent rest s)"
    "m_state s = AuthUsernameSent \<Longrightarrow> process e s = process e (advance [Received l, Write (toBase64 e (toLatin1 (m_password s)) @ crlf)]
      AuthSent rest s)" by (simp_all add: process_line [OF assms(1,2)])
qed

section \<open>The properties\<close>

text \<open>
  C39. The handler of received data returns for every input of which each complete line has at least three
  characters, and leaves a complete line behind only once it has given up the connection.
\<close>

theorem readyRead_returns:
  assumes "long_lines (m_buffer s @ data)"
  shows "\<exists>s'. readyRead e data s = Some s' \<and> (find_sub crlf (m_buffer s') = None \<or> last (m_dialogue s') = Disconnect)"
  using process_total [of "s\<lparr>m_buffer := m_buffer s @ data\<rparr>" e] assms by (simp add: readyRead_def)

text \<open>
  C38. A server that offers no extension and accepts every command gets the mail, however its replies are cut into
  segments: greeting, sender, recipient, data, message and farewell, each after the reply before.
\<close>

theorem mail_delivered:
  assumes "accepting replies" and "concat segments = concat (map (\<lambda>r. r @ crlf) replies)"
    and "s0 = sendMail e parseInt pref date from_addr to_addr subject body new_smtp"
  shows "\<exists>s. conversation e segments s0 = Some s \<and> m_state s = Close
    \<and> m_dialogue s = m_dialogue s0
        @ [Received (replies ! 0), Write (''ehlo '' @ determineFQDN e @ crlf), Received (replies ! 1)]
        @ exchange s0 (''250 QBT FAKE RESPONSE'' # drop 2 replies)"
proof -
  have s0: "m_state s0 = Init" "m_extensions s0 = []" "m_buffer s0 = []" "Disconnect \<notin> set (m_dialogue s0)"
    by (simp_all add: assms(3) sendMail_def new_smtp_def Let_def)
  have x: "exchange (more b s0) replies = exchange s0 replies" for b replies by (simp add: exchange_def mail_commands_def)
  obtain s where s: "readyRead e (concat segments) s0 = Some s" "m_state s = Close" "m_dialogue s = m_dialogue s0
      @ [Received (replies ! 0), Write (''ehlo '' @ determineFQDN e @ crlf), Received (replies ! 1)]
      @ exchange s0 (''250 QBT FAKE RESPONSE'' # drop 2 replies)"
    using accepted_dialogue [OF assms(1), of "more (concat segments) s0" e] s0(1-3) assms(2) by (auto simp: readyRead_more x)
  have "Disconnect \<notin> set (m_dialogue s)" using s0(4) by (auto simp: s(3) exchange_def)
  moreover have "find_sub crlf (m_buffer s0) = None" by (simp add: s0(3) crlf_def)
  ultimately show ?thesis using conversation_segments [OF s(1)] s(2,3) by blast
qed

text \<open>
  Once a login has been requested, the user name and the password are sent whatever the server replies: a
  refusal of the command, or of the user name, is not looked at.
\<close>

theorem password_sent_after_rejection:
  assumes "m_state s = AuthRequestSent" and "m_authType s = AuthLogin" and "m_buffer s = []"
    and "reply_line l1" and "reply_line l2"
  shows "\<exists>s'. readyRead e (l1 @ crlf @ l2 @ crlf) s = Some s' \<and> m_state s' = AuthSent
    \<and> m_dialogue s' = m_dialogue s
        @ [Received l1, Write (toBase64 e (toLatin1 (m_username s)) @ crlf),
           Received l2, Write (toBase64 e (toLatin1 (m_password s)) @ crlf)]"
proof -
  define t where "t = more (l1 @ crlf @ l2 @ crlf @ []) s"
  define u where "u = advance [Received l1, Write (toBase64 e (toLatin1 (m_username s)) @ crlf)] AuthUsernameSent (l2 @ crlf @ []) t"
  define w where "w = advance [Received l2, Write (toBase64 e (toLatin1 (m_password s)) @ crlf)] AuthSent [] u"
  have t: "m_buffer t = l1 @ crlf @ l2 @ crlf @ []" "m_authType t = AuthLogin" "m_state t = AuthRequestSent"
    and u: "m_buffer u = l2 @ crlf @ []" "m_authType u = AuthLogin" "m_state u = AuthUsernameSent" "m_password u = m_password s"
    using assms(1-3) by (simp_all add: t_def u_def advance_def)
  have "process e t = process e u" using step_login(1) [OF assms(4) t] by (simp add: u_def) (simp add: t_def)
  also have "\<dots> = process e w" using step_login(2) [OF assms(5) u(1-3)] by (simp add: w_def u(4))
  also have "\<dots> = Some w" by (rule process_empty) (simp add: w_def)
  finally show ?thesis unfolding readyRead_more by (intro exI [of _ w]) (simp add: t_def u_def w_def)
qed

text \<open>
  A header of Latin-1 characters is written in lines that are continued by a space, and taking the line breaks
  out of it gives back its key and value.
\<close>

theorem header_unfolds:
  assumes "canEncodeAsLatin1 value" and "find_sub (ustr ''=?'') value = None" and "length (key @ '': '' @ pre) \<le> 78"
  shows "\<exists>lines. encodeMimeHeader e key value pre = concat (map (\<lambda>l. l @ crlf) lines)
    \<and> concat lines = key @ '': '' @ pre @ toLatin1 value \<and> lines \<noteq> []
    \<and> (\<forall>l \<in> set (tl lines). l \<noteq> [] \<and> hd l = CHR '' '')"
  by (rule header_folds [OF assms])

text \<open>
  The keyed digest computed in place is the HMAC of RFC 2104, for keys of any length.
\<close>

theorem hmacMD5_is_hmac:
  assumes "length (H key) \<le> 64"
  shows "hmacMD5 H key msg = hmac_rfc2104 H key msg"
  by (rule hmac_equiv) (rule assms)

section \<open>A concrete mail\<close>

definition smtp_env_ex :: smtp_env where
  "smtp_env_ex = \<lparr>md5 = take 16, toBase64 = (\<lambda>b. b), fromBase64 = (\<lambda>b. b), toUtf8 = toLatin1, utf8Text = (\<lambda>b. b),
     toUpper = (\<lambda>s. s), localHostName = ''host''\<rparr>"

definition prefs_ex :: mail_prefs where
  "prefs_ex = \<lparr>smtpServer = ''mail'', smtpAuth = True, smtpUsername = ustr ''me'', smtpPassword = ustr ''pw'', smtpSSL = False\<rparr>"

definition mail_ex :: smtp where
  "mail_ex = sendMail smtp_env_ex (\<lambda>s. None) prefs_ex ''today'' (ustr ''a'') (ustr ''b'') (ustr ''c'') (ustr ''d'') new_smtp"

definition replies_ex :: "qbytearray list" where
  "replies_ex = [''220 mail'', ''250 mail'', ''250 ok'', ''250 ok'', ''354 go'', ''250 queued'']"

definition login_ex :: smtp where
  "login_ex = new_smtp\<lparr>m_state := AuthRequestSent, m_authType := AuthLogin, m_username := ustr ''me'', m_password := ustr ''pw''\<rparr>"

lemma accepting_ex: "accepting replies_ex"
  by (simp add: accepting_def replies_ex_def reply_line_def numeral_eq_Suc)

theorem readyRead_returns_witness:
  "\<exists>s'. readyRead smtp_env_ex (''220 mail'' @ crlf) new_smtp = Some s'
     \<and> (find_sub crlf (m_buffer s') = None \<or> last (m_dialogue s') = Disconnect)"
  by (rule readyRead_returns) (simp add: new_smtp_def crlf_def long_lines.simps)

theorem mail_delivered_witness:
  "\<exists>s. conversation smtp_env_ex (map (\<lambda>r. r @ crlf) replies_ex) mail_ex = Some s \<and> m_state s = Close"
  using mail_delivered [OF accepting_ex refl mail_ex_def] by blast

theorem mail_needs_consent_witness:
  "\<exists>s greet replies tl. conversation smtp_env_ex [''535 no'' @ crlf] mail_ex = Some s
     \<and> m_dialogue s = greet @ exchange s replies @ tl \<and> consenting replies \<and> (\<forall>w. Write w \<notin> set tl)"
proof -
  have "long_lines (m_buffer mail_ex @ ''535 no'' @ crlf)"
    by (simp add: mail_ex_def sendMail_def Let_def prefs_ex_def new_smtp_def crlf_def long_lines.simps)
  then obtain s where s: "conversation smtp_env_ex [''535 no'' @ crlf] mail_ex = Some s"
    using process_total [of "more (''535 no'' @ crlf) mail_ex" smtp_env_ex] by (auto simp: readyRead_more)
  from mail_needs_consent [OF s [unfolded mail_ex_def]] s show ?thesis by blast
qed

theorem password_sent_after_rejection_witness:
  "\<exists>s. readyRead smtp_env_ex (''535 no'' @ crlf @ ''535 never'' @ crlf) login_ex = Some s
     \<and> Write (''pw'' @ crlf) \<in> set (m_dialogue s)"
proof -
  have l: "m_state login_ex = AuthRequestSent" "m_authType login_ex = AuthLogin" "m_buffer login_ex = []"
    "reply_line ''535 no''" "reply_line ''535 never''" "toLatin1 (m_password login_ex) = ''pw''"
    by (simp_all add: login_ex_def new_smtp_def reply_line_def)
  from password_sent_after_rejection [OF l(1-5), of smtp_env_ex] show ?thesis by (auto simp: l(6) smtp_env_ex_def)
qed

theorem header_unfolds_witness:
  "\<exists>lines. encodeMimeHeader smtp_env_ex ''To'' (ustr ''a b'') [] = concat (map (\<lambda>l. l @ crlf) lines)
     \<and> concat lines = ''To: a b''"
proof -
  have "canEncodeAsLatin1 (ustr ''a b'')" "find_sub (ustr ''=?'') (ustr ''a b'') = None" "length (''To'' @ '': '' @ []) \<le> 78"
    by (simp_all add: canEncodeAsLatin1_def ustr_def)
  from header_unfolds [OF this, of smtp_env_ex] show ?thesis by auto
qed

theorem hmacMD5_is_hmac_witness: "hmacMD5 (take 16) ''key'' ''text'' = hmac_rfc2104 (take 16) ''key'' ''text''"
  by (rule hmacMD5_is_hmac) simp

end
