(* ===== verification/Download_Manager.thy ===== *)
theory Download_Manager
  imports Qt_Containers
begin

text \<open>
  Downloads, \<^verbatim>\<open>src/src/base/net/downloadmanager.cpp\<close> and
  \<^verbatim>\<open>src/src/base/net/downloadhandlerimpl.cpp\<close>: requests to a sequential service run one at a
  time with a delay between them, other requests at once; a handler follows redirections by handlers of its own.
  A handler is a position in the list of handlers created so far, so the handler that another one was created for
  is older. The network, the timers and the callers of \<^verbatim>\<open>cancel\<close> are the events; the parts of
  a URL and the files written are parameters. \<^verbatim>\<open>QNetworkReply::abort\<close> emits
  \<^verbatim>\<open>finished\<close> before it returns.
\<close>

section \<open>Types\<close>

datatype service = ServiceID (hostName: qstring) (port: int)

datatype download_status = Success | RedirectedToMagnet | Failed

datatype download_error =
    Network qstring
  | Canceled
  | SizeExceeded int
  | TooManyRedirections
  | IOError qstring
  | MagnetRedirect

record download_request =
  rq_url :: qstring
  rq_limit :: int
  rq_saveToFile :: bool
  rq_destFileName :: qstring

record download_result =
  res_url :: qstring
  res_status :: download_status
  res_error :: "download_error option"
  res_data :: qbytearray
  res_filePath :: qstring
  res_magnetURI :: qstring

datatype reply_state = NoReply | Running | Finished

record handler =
  h_request :: download_request
  h_useProxy :: bool
  h_reply :: reply_state
  h_redirectionHandler :: "nat option"
  h_parent :: "nat option"
  h_redirectionCount :: nat
  h_result :: download_result
  h_isFinished :: bool
  h_watchSize :: bool
  h_signals :: nat

record dm =
  d_sequential :: "service \<rightharpoonup> nat"
  d_busy :: "service set"
  d_waiting :: "service \<Rightarrow> nat list"
  d_handlers :: "handler list"
  d_timers :: "service list"
  d_started :: "nat list"

record dm_env =
  url_host :: "qstring \<Rightarrow> qstring"
  url_port :: "qstring \<Rightarrow> int option"
  resolve :: "qstring \<Rightarrow> qstring \<Rightarrow> qstring"
  saveToTempFile :: "qbytearray \<Rightarrow> (qstring, qstring) result"
  saveToFile :: "qstring \<Rightarrow> qbytearray \<Rightarrow> (qstring, unit) result"

definition serviceOf :: "dm_env \<Rightarrow> qstring \<Rightarrow> service" where
  "serviceOf e url = ServiceID (url_host e url) (case url_port e url of None \<Rightarrow> 80 | Some p \<Rightarrow> p)"

text \<open>How a reply ends: an error, a redirection, or its content.\<close>

datatype outcome = NetworkError download_error | RedirectTo qstring | Content qbytearray

definition MAX_REDIRECTIONS :: nat where "MAX_REDIRECTIONS = 20"

definition new_dm :: dm where
  "new_dm = \<lparr>d_sequential = Map.empty, d_busy = {}, d_waiting = (\<lambda>s. []), d_handlers = [], d_timers = [], d_started = []\<rparr>"

definition new_handler :: "download_request \<Rightarrow> bool \<Rightarrow> handler" where
  "new_handler req useProxy =
     \<lparr>h_request = req, h_useProxy = useProxy, h_reply = NoReply, h_redirectionHandler = None, h_parent = None,
      h_redirectionCount = 0,
      h_result = \<lparr>res_url = rq_url req, res_status = Success, res_error = None, res_data = [], res_filePath = [],
        res_magnetURI = []\<rparr>,
      h_isFinished = False, h_watchSize = False, h_signals = 0\<rparr>"

definition upd :: "nat \<Rightarrow> (handler \<Rightarrow> handler) \<Rightarrow> dm \<Rightarrow> dm" where
  "upd h f d = d\<lparr>d_handlers := (d_handlers d)[h := f (d_handlers d ! h)]\<rparr>"

definition hservice :: "dm_env \<Rightarrow> handler \<Rightarrow> service" where
  "hservice e hn = serviceOf e (rq_url (h_request hn))"

section \<open>Starting downloads\<close>

definition dm_processRequest :: "dm_env \<Rightarrow> nat \<Rightarrow> dm \<Rightarrow> dm" where
  "dm_processRequest e h d =
     (upd h (\<lambda>hn. hn\<lparr>h_reply := Running, h_watchSize := (rq_limit (h_request hn) > 0)\<rparr>) d)
       \<lparr>d_started := d_started d @ [h]\<rparr>"

definition download :: "dm_env \<Rightarrow> download_request \<Rightarrow> bool \<Rightarrow> dm \<Rightarrow> nat \<times> dm" where
  "download e req useProxy d =
     (let serviceID = serviceOf e (rq_url req);
          isSequentialService = (d_sequential d serviceID \<noteq> None);
          h = length (d_handlers d);
          d = d\<lparr>d_handlers := d_handlers d @ [new_handler req useProxy]\<rparr>
      in (h,
          if isSequentialService \<and> serviceID \<in> d_busy d
          then d\<lparr>d_waiting := (d_waiting d)(serviceID := d_waiting d serviceID @ [h])\<rparr>
          else
            (let d = (if isSequentialService then d\<lparr>d_busy := insert serviceID (d_busy d)\<rparr> else d)
             in dm_processRequest e h d)))"

definition registerSequentialService :: "service \<Rightarrow> nat \<Rightarrow> dm \<Rightarrow> dm" where
  "registerSequentialService serviceID delay d = d\<lparr>d_sequential := (d_sequential d)(serviceID \<mapsto> delay)\<rparr>"

definition processWaitingJobs :: "dm_env \<Rightarrow> service \<Rightarrow> dm \<Rightarrow> dm" where
  "processWaitingJobs e serviceID d =
     (case d_waiting d serviceID of
        [] \<Rightarrow> d\<lparr>d_busy := d_busy d - {serviceID}\<rparr>
      | h # rest \<Rightarrow> dm_processRequest e h (d\<lparr>d_waiting := (d_waiting d)(serviceID := rest)\<rparr>))"

section \<open>Finishing downloads\<close>

definition setError :: "download_error \<Rightarrow> handler \<Rightarrow> handler" where
  "setError err hn = hn\<lparr>h_result := (h_result hn)\<lparr>res_error := Some err, res_status := Failed\<rparr>\<rparr>"

text \<open>
  \<^verbatim>\<open>finish\<close>: the manager takes a handler that never got a reply out of the queue, then the handler
  it was created for takes over its result and finishes too.
\<close>

function finish :: "dm_env \<Rightarrow> nat \<Rightarrow> dm \<Rightarrow> dm" where
  "finish e h d =
     (let d = upd h (\<lambda>hn. hn\<lparr>h_isFinished := True, h_signals := h_signals hn + 1\<rparr>) d;
          hn = d_handlers d ! h;
          s = hservice e hn;
          d = (if h_reply hn = NoReply then d\<lparr>d_waiting := (d_waiting d)(s := remove1 h (d_waiting d s))\<rparr> else d)
      in case h_parent hn of
           None \<Rightarrow> d
         | Some p \<Rightarrow>
             if p < h
             then finish e p (upd p (\<lambda>ph. ph\<lparr>h_result := (h_result hn)\<lparr>res_url := rq_url (h_request ph)\<rparr>\<rparr>) d)
             else d)"
  by pat_completeness auto

termination
  by (relation "measure (\<lambda>(e, h, d). h)") auto

declare finish.simps [simp del]

definition handleRedirection :: "dm_env \<Rightarrow> nat \<Rightarrow> qstring \<Rightarrow> dm \<Rightarrow> dm" where
  "handleRedirection e h newUrl d =
     (let hn = d_handlers d ! h in
      if h_redirectionCount hn \<ge> MAX_REDIRECTIONS then finish e h (upd h (setError TooManyRedirections) d)
      else
        (let newUrlString = resolve e (rq_url (h_request hn)) newUrl in
         if starts_with_ci newUrlString ''magnet:''
         then finish e h (upd h (\<lambda>hn. hn\<lparr>h_result := (h_result hn)
                \<lparr>res_status := RedirectedToMagnet, res_magnetURI := newUrlString, res_error := Some MagnetRedirect\<rparr>\<rparr>) d)
         else
           (case download e ((h_request hn)\<lparr>rq_url := newUrlString\<rparr>) (h_useProxy hn) d of
              (r, d) \<Rightarrow>
                upd h (\<lambda>hn. hn\<lparr>h_redirectionHandler := Some r\<rparr>)
                  (upd r (\<lambda>rd. rd\<lparr>h_redirectionCount := h_redirectionCount hn + 1, h_parent := Some h\<rparr>) d))))"

definition save_result :: "dm_env \<Rightarrow> qbytearray \<Rightarrow> handler \<Rightarrow> handler" where
  "save_result e data hn =
     (let hn = hn\<lparr>h_result := (h_result hn)\<lparr>res_data := data\<rparr>\<rparr> in
      if rq_saveToFile (h_request hn)
      then (let destinationPath = rq_destFileName (h_request hn) in
            if destinationPath = []
            then (case saveToTempFile e (res_data (h_result hn)) of
                    Inr path \<Rightarrow> hn\<lparr>h_result := (h_result hn)\<lparr>res_filePath := path\<rparr>\<rparr>
                  | Inl err \<Rightarrow> setError (IOError err) hn)
            else (case saveToFile e destinationPath (res_data (h_result hn)) of
                    Inr _ \<Rightarrow> hn\<lparr>h_result := (h_result hn)\<lparr>res_filePath := destinationPath\<rparr>\<rparr>
                  | Inl err \<Rightarrow> setError (IOError err) hn))
      else hn)"

definition processFinishedDownload :: "dm_env \<Rightarrow> nat \<Rightarrow> outcome \<Rightarrow> dm \<Rightarrow> dm" where
  "processFinishedDownload e h res d =
     (case res of
        NetworkError err \<Rightarrow> finish e h (upd h (setError err) d)
      | RedirectTo newUrl \<Rightarrow> handleRedirection e h newUrl d
      | Content data \<Rightarrow> finish e h (upd h (save_result e data) d))"

text \<open>The signal of a finished reply: the manager starts the delay of the service, then the handler goes on.\<close>

definition replyFinished :: "dm_env \<Rightarrow> nat \<Rightarrow> outcome \<Rightarrow> dm \<Rightarrow> dm" where
  "replyFinished e h res d =
     (let d = upd h (\<lambda>hn. hn\<lparr>h_reply := Finished\<rparr>) d;
          d = d\<lparr>d_timers := hservice e (d_handlers d ! h) # d_timers d\<rparr>
      in processFinishedDownload e h res d)"

function cancel :: "dm_env \<Rightarrow> nat \<Rightarrow> dm \<Rightarrow> dm" where
  "cancel e h d =
     (let hn = d_handlers d ! h in
      if h_isFinished hn then d
      else if h_reply hn = Running then replyFinished e h (NetworkError Canceled) d
      else
        (case h_redirectionHandler hn of
           Some r \<Rightarrow> if h < r \<and> r < length (d_handlers d) then cancel e r d else d
         | None \<Rightarrow> finish e h (upd h (setError Canceled) d)))"
  by pat_completeness auto

termination
  by (relation "measure (\<lambda>(e, h, d). length (d_handlers d) - h)") auto

declare cancel.simps [simp del]

definition checkDownloadSize :: "dm_env \<Rightarrow> nat \<Rightarrow> int \<Rightarrow> int \<Rightarrow> dm \<Rightarrow> dm" where
  "checkDownloadSize e h bytesReceived bytesTotal d =
     (let limit = rq_limit (h_request (d_handlers d ! h)) in
      if bytesTotal > 0 \<and> bytesTotal \<le> limit then upd h (\<lambda>hn. hn\<lparr>h_watchSize := False\<rparr>) d
      else if bytesTotal > limit \<or> bytesReceived > limit
      then finish e h (upd h (setError (SizeExceeded bytesTotal)) (replyFinished e h (NetworkError Canceled) d))
      else d)"

section \<open>Events\<close>

datatype dm_event =
    Download download_request bool
  | Register service nat
  | ReplyFinished nat outcome
  | Progress nat int int
  | Cancel nat
  | TimerFired service

definition running :: "nat \<Rightarrow> dm \<Rightarrow> bool" where
  "running h d \<longleftrightarrow> h < length (d_handlers d) \<and> h_reply (d_handlers d ! h) = Running"

fun dm_step :: "dm_env \<Rightarrow> dm_event \<Rightarrow> dm \<Rightarrow> dm" where
  "dm_step e (Download req useProxy) d = snd (download e req useProxy d)"
| "dm_step e (Register s delay) d = registerSequentialService s delay d"
| "dm_step e (ReplyFinished h res) d = (if running h d then replyFinished e h res d else d)"
| "dm_step e (Progress h received all) d =
     (if running h d \<and> h_watchSize (d_handlers d ! h) then checkDownloadSize e h received all d else d)"
| "dm_step e (Cancel h) d = (if h < length (d_handlers d) then cancel e h d else d)"
| "dm_step e (TimerFired s) d =
     (if s \<in> set (d_timers d) then processWaitingJobs e s (d\<lparr>d_timers := remove1 s (d_timers d)\<rparr>) else d)"

fun dm_run :: "dm_env \<Rightarrow> dm_event list \<Rightarrow> dm \<Rightarrow> dm" where
  "dm_run e [] d = d"
| "dm_run e (ev # evs) d = dm_run e evs (dm_step e ev d)"

end
