(* ===== verification/Download_Queue.thy ===== *)
theory Download_Queue
  imports Download_Manager
begin

text \<open>
  The queues of the download manager: the requests to a sequential service run one at a time
  (\<^verbatim>\<open>one_download_at_a_time\<close>) and all of them in order (\<^verbatim>\<open>sequential_queue_drains\<close>).
\<close>

section \<open>One request of a service at a time\<close>

definition count_running :: "dm_env \<Rightarrow> service \<Rightarrow> handler list \<Rightarrow> nat" where
  "count_running e s hs = length (filter (\<lambda>hn. h_reply hn = Running \<and> hservice e hn = s) hs)"

text \<open>Requests of a service that are under way or whose delay is running.\<close>

definition under_way :: "dm_env \<Rightarrow> service \<Rightarrow> dm \<Rightarrow> nat" where
  "under_way e s d = count_running e s (d_handlers d) + count_list (d_timers d) s"

definition waiting_ok :: "dm_env \<Rightarrow> dm \<Rightarrow> bool" where
  "waiting_ok e d \<longleftrightarrow> (\<forall>s. distinct (d_waiting d s) \<and>
     (\<forall>h \<in> set (d_waiting d s). h < length (d_handlers d) \<and> h_reply (d_handlers d ! h) = NoReply
        \<and> hservice e (d_handlers d ! h) = s))"

definition dm_inv :: "dm_env \<Rightarrow> dm \<Rightarrow> bool" where
  "dm_inv e d \<longleftrightarrow> waiting_ok e d
     \<and> (\<forall>s \<in> set (d_timers d). \<exists>hn \<in> set (d_handlers d). hservice e hn = s)
     \<and> (\<forall>s. if d_sequential d s = None then s \<notin> d_busy d \<and> d_waiting d s = []
             else under_way e s d = (if s \<in> d_busy d then 1 else 0) \<and> (d_waiting d s \<noteq> [] \<longrightarrow> s \<in> d_busy d))"

text \<open>Steps that touch neither replies nor requests and only take handlers out of the queue.\<close>

definition handler_key :: "handler \<Rightarrow> reply_state \<times> download_request" where
  "handler_key hn = (h_reply hn, h_request hn)"

definition requests_kept :: "dm \<Rightarrow> dm \<Rightarrow> bool" where
  "requests_kept d d' \<longleftrightarrow> map handler_key (d_handlers d') = map handler_key (d_handlers d)
     \<and> d_sequential d' = d_sequential d \<and> d_busy d' = d_busy d \<and> d_timers d' = d_timers d \<and> d_started d' = d_started d
     \<and> (\<forall>s. set (d_waiting d' s) \<subseteq> set (d_waiting d s) \<and> (distinct (d_waiting d s) \<longrightarrow> distinct (d_waiting d' s)))"

lemma requests_kept_refl [simp]: "requests_kept d d" by (simp add: requests_kept_def)

lemma requests_kept_trans: "requests_kept a b \<Longrightarrow> requests_kept b c \<Longrightarrow> requests_kept a c"
  unfolding requests_kept_def by (metis subset_trans)

lemma requests_kept_upd: "(\<And>hn. handler_key (f hn) = handler_key hn) \<Longrightarrow> requests_kept d (upd h f d)"
  by (simp add: requests_kept_def upd_def map_update list_update_id flip: nth_map)
    (metis list_update_beyond list_update_id length_map not_le nth_map)

lemma key_count:
  "map handler_key hs' = map handler_key hs \<Longrightarrow> count_running e s hs' = count_running e s hs"
proof (induction hs arbitrary: hs')
  case (Cons a hs)
  from Cons.prems obtain a' as where hs': "hs' = a' # as" "handler_key a' = handler_key a" "map handler_key as = map handler_key hs" by auto
  have "count_running e s as = count_running e s hs" by (rule Cons.IH [OF hs'(3)])
  then show ?case using hs'(1,2) by (auto simp: count_running_def handler_key_def hservice_def)
qed (simp add: count_running_def)

lemma key_nth:
  assumes "map handler_key hs' = map handler_key hs"
  shows "length hs' = length hs" "h < length hs \<Longrightarrow> h_reply (hs' ! h) = h_reply (hs ! h) \<and> hservice e (hs' ! h) = hservice e (hs ! h)"
proof -
  show "length hs' = length hs" using arg_cong [OF assms, of length] by simp
  then show "h < length hs \<Longrightarrow> h_reply (hs' ! h) = h_reply (hs ! h) \<and> hservice e (hs' ! h) = hservice e (hs ! h)"
    using arg_cong [OF assms, of "\<lambda>xs. xs ! h"] by (simp add: handler_key_def hservice_def)
qed

lemma key_services:
  assumes "map handler_key hs' = map handler_key hs"
  shows "(\<exists>hn \<in> set hs'. hservice e hn = s) \<longleftrightarrow> (\<exists>hn \<in> set hs. hservice e hn = s)"
proof -
  have key: "hservice e hn = serviceOf e (rq_url (snd (handler_key hn)))" for hn by (simp add: hservice_def handler_key_def)
  have "handler_key ` set hs' = handler_key ` set hs" using arg_cong [OF assms, of set] by simp
  moreover have "(\<exists>hn \<in> set xs. hservice e hn = s) \<longleftrightarrow> (\<exists>k \<in> handler_key ` set xs. serviceOf e (rq_url (snd k)) = s)" for xs
    by (simp add: key)
  ultimately show ?thesis by metis
qed

lemma requests_kept_inv:
  assumes "requests_kept d d'" and "dm_inv e d"
  shows "dm_inv e d'"
proof -
  note k = assms(1) [unfolded requests_kept_def, THEN conjunct1]
  note len = key_nth(1) [OF k]
  have w: "\<And>s. set (d_waiting d' s) \<subseteq> set (d_waiting d s)" "\<And>s. distinct (d_waiting d s) \<Longrightarrow> distinct (d_waiting d' s)"
    using assms(1) by (simp_all add: requests_kept_def)
  have "waiting_ok e d'"
    using assms(2) w key_nth [OF k] unfolding dm_inv_def waiting_ok_def by (metis subsetD)
  moreover have "\<forall>s. d_waiting d s = [] \<longrightarrow> d_waiting d' s = []" using w(1) by (metis list.set(1) set_empty subset_empty)
  ultimately show ?thesis
    using assms key_count [OF k, of e] key_services [OF k, of e]
    unfolding dm_inv_def requests_kept_def under_way_def by (auto split: if_splits)
qed

lemma requests_kept_finish: "requests_kept d (finish e h d)"
proof (induction e h d rule: finish.induct)
  case (1 e h d)
  define d1 where "d1 = upd h (\<lambda>hn. hn\<lparr>h_isFinished := True, h_signals := h_signals hn + 1\<rparr>) d"
  define hn where "hn = d_handlers d1 ! h"
  define d2 where "d2 = (if h_reply hn = NoReply
    then d1\<lparr>d_waiting := (d_waiting d1)(hservice e hn := remove1 h (d_waiting d1 (hservice e hn)))\<rparr> else d1)"
  have q1: "requests_kept d d1" unfolding d1_def by (rule requests_kept_upd) (simp add: handler_key_def)
  have q2: "requests_kept d1 d2" by (auto simp: requests_kept_def d2_def dest: subsetD [OF set_remove1_subset])
  note q = requests_kept_trans [OF q1 q2]
  show ?case
  proof (cases "h_parent hn")
    case None
    then have "finish e h d = d2" by (simp add: finish.simps [of e h d] Let_def d1_def hn_def d2_def)
    then show ?thesis using q by simp
  next
    case (Some p)
    let ?d3 = "upd p (\<lambda>ph. ph\<lparr>h_result := (h_result hn)\<lparr>res_url := rq_url (h_request ph)\<rparr>\<rparr>) d2"
    have f: "finish e h d = (if p < h then finish e p ?d3 else d2)"
      using Some by (simp add: finish.simps [of e h d] Let_def d1_def hn_def d2_def)
    have q3: "requests_kept d2 ?d3" by (rule requests_kept_upd) (simp add: handler_key_def)
    show ?thesis
    proof (cases "p < h")
      case True
      have "requests_kept ?d3 (finish e p ?d3)"
        by (rule "1.IH" [OF d1_def hn_def refl d2_def Some True])
      from requests_kept_trans [OF requests_kept_trans [OF q q3] this] show ?thesis using True by (simp add: f)
    qed (use f q in simp)
  qed
qed


lemma filter_update:
  "i < length xs \<Longrightarrow> length (filter P (xs[i := x])) + (if P (xs ! i) then 1 else 0) = length (filter P xs) + (if P x then 1 else 0)"
proof (induction xs arbitrary: i)
  case (Cons a xs)
  then show ?case by (cases i) auto
qed simp

lemma count_update:
  assumes "h < length hs" and "hservice e hn = hservice e (hs ! h)"
  shows "count_running e s (hs[h := hn]) + (if h_reply (hs ! h) = Running \<and> hservice e (hs ! h) = s then 1 else 0)
    = count_running e s hs + (if h_reply hn = Running \<and> hservice e (hs ! h) = s then 1 else 0)"
  using filter_update [OF assms(1), of "\<lambda>hn. h_reply hn = Running \<and> hservice e hn = s" hn] assms(2)
  by (simp add: count_running_def)

lemma processRequest_parts:
  assumes "h < length (d_handlers d)"
  shows "d_waiting (dm_processRequest e h d) = d_waiting d" "d_busy (dm_processRequest e h d) = d_busy d"
    "d_timers (dm_processRequest e h d) = d_timers d" "d_sequential (dm_processRequest e h d) = d_sequential d"
    "length (d_handlers (dm_processRequest e h d)) = length (d_handlers d)"
    "hservice e (d_handlers (dm_processRequest e h d) ! i) = hservice e (d_handlers d ! i)"
    "i \<noteq> h \<Longrightarrow> d_handlers (dm_processRequest e h d) ! i = d_handlers d ! i"
    "h_reply (d_handlers d ! h) \<noteq> Running \<Longrightarrow> under_way e s (dm_processRequest e h d)
       = under_way e s d + (if hservice e (d_handlers d ! h) = s then 1 else 0)"
proof -
  let ?hn = "(d_handlers d ! h)\<lparr>h_reply := Running, h_watchSize := (rq_limit (h_request (d_handlers d ! h)) > 0)\<rparr>"
  show "d_waiting (dm_processRequest e h d) = d_waiting d" "d_busy (dm_processRequest e h d) = d_busy d"
    "d_timers (dm_processRequest e h d) = d_timers d" "d_sequential (dm_processRequest e h d) = d_sequential d"
    "length (d_handlers (dm_processRequest e h d)) = length (d_handlers d)"
    by (simp_all add: dm_processRequest_def upd_def)
  show "hservice e (d_handlers (dm_processRequest e h d) ! i) = hservice e (d_handlers d ! i)"
    using assms by (cases "i = h") (simp_all add: dm_processRequest_def upd_def hservice_def)
  show "i \<noteq> h \<Longrightarrow> d_handlers (dm_processRequest e h d) ! i = d_handlers d ! i" by (simp add: dm_processRequest_def upd_def)
  show "h_reply (d_handlers d ! h) \<noteq> Running \<Longrightarrow> under_way e s (dm_processRequest e h d)
       = under_way e s d + (if hservice e (d_handlers d ! h) = s then 1 else 0)"
    using count_update [OF assms, of e ?hn s] by (simp add: under_way_def dm_processRequest_def upd_def hservice_def)
qed

lemma services_update:
  assumes "h < length hs" and "hservice e hn = hservice e (hs ! h)"
  shows "hservice e ` set (hs[h := hn]) = hservice e ` set hs"
proof -
  have "map (hservice e) (hs[h := hn]) = map (hservice e) hs"
    using assms by (simp add: map_update list_update_same_conv)
  then show ?thesis by (metis list.set_map)
qed

lemma timers_eq: "(\<forall>s \<in> S. \<exists>hn \<in> set hs. hservice e hn = s) \<longleftrightarrow> S \<subseteq> hservice e ` set hs"
  by auto

text \<open>A new handler.\<close>

lemma download_inv:
  assumes "dm_inv e d"
  shows "dm_inv e (snd (download e req useProxy d))"
proof -
  define s0 where "s0 = serviceOf e (rq_url req)"
  define h where "h = length (d_handlers d)"
  define d1 where "d1 = d\<lparr>d_handlers := d_handlers d @ [new_handler req useProxy]\<rparr>"
  have new: "hservice e (new_handler req useProxy) = s0" "h_reply (new_handler req useProxy) = NoReply"
    by (simp_all add: new_handler_def hservice_def s0_def)
  have uw: "under_way e s d1 = under_way e s d" for s
    by (simp add: under_way_def d1_def count_running_def new)
  have hs: "d_handlers d1 ! h = new_handler req useProxy" "h < length (d_handlers d1)" "i < h \<Longrightarrow> d_handlers d1 ! i = d_handlers d ! i" for i
    by (simp_all add: d1_def h_def nth_append)
  have same: "d_sequential d1 = d_sequential d" "d_busy d1 = d_busy d" "d_waiting d1 = d_waiting d" "d_timers d1 = d_timers d"
    by (simp_all add: d1_def)
  have w: "distinct (d_waiting d s)" "x \<in> set (d_waiting d s) \<Longrightarrow> x < h \<and> h_reply (d_handlers d ! x) = NoReply \<and> hservice e (d_handlers d ! x) = s"
    for x s using assms by (auto simp: dm_inv_def waiting_ok_def h_def)
  have w3: "x \<in> set (d_waiting d s) \<Longrightarrow> x < length (d_handlers d1)" for x s using w(2) [of x s] by (simp add: d1_def h_def)
  have t: "set (d_timers d) \<subseteq> hservice e ` set (d_handlers d)" using assms by (simp add: dm_inv_def timers_eq)
  have q: "if d_sequential d s = None then s \<notin> d_busy d \<and> d_waiting d s = []
      else under_way e s d = (if s \<in> d_busy d then 1 else 0) \<and> (d_waiting d s \<noteq> [] \<longrightarrow> s \<in> d_busy d)" for s
    using assms by (simp add: dm_inv_def)
  show ?thesis
  proof (cases "d_sequential d s0 \<noteq> None \<and> s0 \<in> d_busy d")
    case True
    define d2 where "d2 = d1\<lparr>d_waiting := (d_waiting d1)(s0 := d_waiting d1 s0 @ [h])\<rparr>"
    have r: "snd (download e req useProxy d) = d2"
      using True by (simp add: download_def Let_def d2_def d1_def h_def s0_def)
    have "waiting_ok e d2"
      using w w3 hs new by (auto simp: waiting_ok_def d2_def same)
    moreover have "set (d_timers d2) \<subseteq> hservice e ` set (d_handlers d2)" using t by (auto simp: d2_def d1_def)
    moreover have "under_way e s d2 = under_way e s d" for s using uw by (simp add: d2_def under_way_def)
    ultimately show ?thesis unfolding r dm_inv_def timers_eq using q True by (auto simp: d2_def same split: if_splits)
  next
    case False
    define d2 where "d2 = (if d_sequential d s0 \<noteq> None then d1\<lparr>d_busy := insert s0 (d_busy d1)\<rparr> else d1)"
    have d2: "d_handlers d2 = d_handlers d1" "d_waiting d2 = d_waiting d" "d_timers d2 = d_timers d" "d_sequential d2 = d_sequential d"
      "d_busy d2 = (if d_sequential d s0 \<noteq> None then insert s0 (d_busy d) else d_busy d)"
      by (simp_all add: d2_def same)
    have r: "snd (download e req useProxy d) = dm_processRequest e h d2"
      using False by (auto simp: download_def Let_def d2_def d1_def h_def s0_def)
    note parts = processRequest_parts [where e = e and h = h and d = d2, unfolded d2(1), OF hs(2)]
    have "waiting_ok e (dm_processRequest e h d2)"
      unfolding waiting_ok_def parts d2
    proof (intro allI conjI ballI)
      fix s x
      assume x: "x \<in> set (d_waiting d s)"
      then have "x < h" using w(2) by blast
      then show "x < length (d_handlers d1)" "h_reply (d_handlers (dm_processRequest e h d2) ! x) = NoReply"
        "hservice e (d_handlers d1 ! x) = s"
        using w(2) [OF x] hs parts(7) [of x] by simp_all
    qed (rule w(1))
    moreover have "set (d_timers (dm_processRequest e h d2)) \<subseteq> hservice e ` set (d_handlers (dm_processRequest e h d2))"
    proof -
      have "hservice e ` set (d_handlers (dm_processRequest e h d2)) = hservice e ` set (d_handlers d1)"
        unfolding dm_processRequest_def upd_def using services_update [of h "d_handlers d1" e] hs(2)
        by (simp add: d2(1) hservice_def)
      then show ?thesis using t by (auto simp: parts d2 d1_def)
    qed
    moreover have "under_way e s (dm_processRequest e h d2) = under_way e s d + (if s0 = s then 1 else 0)" for s
      using parts(8) [of s] uw [of s] hs(1) new by (simp add: under_way_def d2 same)
    ultimately show ?thesis unfolding r dm_inv_def timers_eq using q False
      by (auto simp: parts d2 split: if_splits)
  qed
qed


lemma redirection_inv:
  assumes "dm_inv e d"
  shows "dm_inv e (handleRedirection e h newUrl d)"
proof -
  have fin: "dm_inv e (finish e h (upd h f d))" if "\<And>hn. handler_key (f hn) = handler_key hn" for f
    by (rule requests_kept_inv [OF requests_kept_trans [OF requests_kept_upd [OF that] requests_kept_finish] assms])
  obtain r d' where dl: "download e ((h_request (d_handlers d ! h))\<lparr>rq_url := resolve e (rq_url (h_request (d_handlers d ! h))) newUrl\<rparr>)
      (h_useProxy (d_handlers d ! h)) d = (r, d')" by fastforce
  have "dm_inv e d'" using download_inv [OF assms] by (metis dl snd_conv)
  then have "dm_inv e (upd h f (upd r g d'))" if "\<And>hn. handler_key (f hn) = handler_key hn" "\<And>hn. handler_key (g hn) = handler_key hn" for f g
    by (rule requests_kept_inv [OF requests_kept_trans [OF requests_kept_upd [OF that(2)] requests_kept_upd [OF that(1)]]])
  then show ?thesis using dl
    by (auto simp: handleRedirection_def Let_def handler_key_def setError_def intro!: fin)
qed

lemma finished_inv:
  assumes "dm_inv e d"
  shows "dm_inv e (processFinishedDownload e h res d)"
proof -
  have fin: "dm_inv e (finish e h (upd h f d))" if "\<And>hn. handler_key (f hn) = handler_key hn" for f
    by (rule requests_kept_inv [OF requests_kept_trans [OF requests_kept_upd [OF that] requests_kept_finish] assms])
  have "handler_key (setError err hn) = handler_key hn" for err hn by (simp add: setError_def handler_key_def)
  moreover have "handler_key (save_result e data hn) = handler_key hn" for data hn
    by (simp add: save_result_def Let_def setError_def handler_key_def split: sum.split)
  ultimately show ?thesis using redirection_inv [OF assms] fin by (cases res) (simp_all add: processFinishedDownload_def)
qed

lemma reply_inv:
  assumes "dm_inv e d" and "running h d"
  shows "dm_inv e (replyFinished e h res d)"
proof -
  let ?s = "hservice e (d_handlers d ! h)"
  define hs where "hs = (d_handlers d)[h := (d_handlers d ! h)\<lparr>h_reply := Finished\<rparr>]"
  define d1 where "d1 = d\<lparr>d_handlers := hs, d_timers := ?s # d_timers d\<rparr>"
  have h: "h < length (d_handlers d)" "h_reply (d_handlers d ! h) = Running" using assms(2) by (simp_all add: running_def)
  have serv: "hservice e (hs ! x) = hservice e (d_handlers d ! x)" for x
    using h by (cases "x = h") (simp_all add: hs_def hservice_def)
  have r: "replyFinished e h res d = processFinishedDownload e h res d1"
    using h(1) serv [of h] by (simp add: replyFinished_def Let_def upd_def d1_def hs_def)
  have uw: "under_way e s d1 = under_way e s d" for s
    using count_update [OF h(1), of e "(d_handlers d ! h)\<lparr>h_reply := Finished\<rparr>" s] h
    by (auto simp: under_way_def d1_def hs_def hservice_def split: if_splits)
  have "waiting_ok e d1" unfolding waiting_ok_def
  proof (intro allI conjI ballI)
    fix s x
    have "x \<in> set (d_waiting d s) \<Longrightarrow> x < length (d_handlers d) \<and> h_reply (d_handlers d ! x) = NoReply \<and> hservice e (d_handlers d ! x) = s"
      using assms(1) by (auto simp: dm_inv_def waiting_ok_def)
    moreover assume "x \<in> set (d_waiting d1 s)"
    ultimately have x: "x < length (d_handlers d)" "h_reply (d_handlers d ! x) = NoReply" "hservice e (d_handlers d ! x) = s"
      by (simp_all add: d1_def)
    show "x < length (d_handlers d1)" "hservice e (d_handlers d1 ! x) = s" using x serv by (simp_all add: d1_def hs_def)
    show "h_reply (d_handlers d1 ! x) = NoReply" using x h by (cases "x = h") (simp_all add: d1_def hs_def)
  qed (use assms(1) in \<open>simp add: dm_inv_def waiting_ok_def d1_def\<close>)
  moreover have "set (d_timers d1) \<subseteq> hservice e ` set (d_handlers d1)"
  proof -
    have "hservice e ` set hs = hservice e ` set (d_handlers d)"
      unfolding hs_def by (rule services_update [OF h(1)]) (simp add: hservice_def)
    then show ?thesis using assms(1) nth_mem [OF h(1)] by (auto simp: d1_def dm_inv_def timers_eq)
  qed
  ultimately have "dm_inv e d1"
    using assms(1) uw unfolding dm_inv_def timers_eq by (auto simp: d1_def split: if_splits)
  then show ?thesis unfolding r by (rule finished_inv)
qed

lemma cancel_inv: "dm_inv e d \<Longrightarrow> h < length (d_handlers d) \<Longrightarrow> dm_inv e (cancel e h d)"
proof (induction e h d rule: cancel.induct)
  case (1 e h d)
  have fin: "dm_inv e (finish e h (upd h (setError Canceled) d))"
    by (rule requests_kept_inv [OF requests_kept_trans [OF requests_kept_upd requests_kept_finish] "1.prems"(1)]) (simp add: setError_def handler_key_def)
  have "running h d \<Longrightarrow> dm_inv e (replyFinished e h (NetworkError Canceled) d)" by (rule reply_inv [OF "1.prems"(1)])
  then show ?case using 1 fin
    by (subst cancel.simps) (auto simp: Let_def running_def split: option.split)
qed

lemma progress_inv:
  assumes "dm_inv e d" and "running h d"
  shows "dm_inv e (checkDownloadSize e h received all d)"
proof -
  have "dm_inv e (upd h (\<lambda>hn. hn\<lparr>h_watchSize := False\<rparr>) d)"
    by (rule requests_kept_inv [OF requests_kept_upd assms(1)]) (simp add: handler_key_def)
  moreover have "dm_inv e (finish e h (upd h (setError err) (replyFinished e h (NetworkError Canceled) d)))" for err
    by (rule requests_kept_inv [OF requests_kept_trans [OF requests_kept_upd requests_kept_finish] reply_inv [OF assms]]) (simp add: setError_def handler_key_def)
  ultimately show ?thesis using assms(1) by (simp add: checkDownloadSize_def Let_def)
qed

text \<open>A timer fires: one request less is under way.\<close>

definition fired :: "service \<Rightarrow> dm \<Rightarrow> dm" where
  "fired s d = d\<lparr>d_timers := remove1 s (d_timers d)\<rparr>"

definition service_ok :: "dm_env \<Rightarrow> dm \<Rightarrow> service \<Rightarrow> bool" where
  "service_ok e d t \<longleftrightarrow> (if d_sequential d t = None then t \<notin> d_busy d \<and> d_waiting d t = []
     else under_way e t d = (if t \<in> d_busy d then 1 else 0) \<and> (d_waiting d t \<noteq> [] \<longrightarrow> t \<in> d_busy d))"

lemma dm_inv_iff: "dm_inv e d \<longleftrightarrow> waiting_ok e d \<and> set (d_timers d) \<subseteq> hservice e ` set (d_handlers d) \<and> (\<forall>t. service_ok e d t)"
  by (simp add: dm_inv_def timers_eq service_ok_def)

lemma fired_parts:
  assumes "s \<in> set (d_timers d)"
  shows "Suc (under_way e s (fired s d)) = under_way e s d" "t \<noteq> s \<Longrightarrow> under_way e t (fired s d) = under_way e t d"
    "set (d_timers (fired s d)) \<subseteq> set (d_timers d)"
proof -
  have "Suc (count_list (remove1 s xs) s) = count_list xs s" "t \<noteq> s \<Longrightarrow> count_list (remove1 s xs) t = count_list xs t"
    if "s \<in> set xs" for xs using that by (induction xs) auto
  from this [OF assms] show "Suc (under_way e s (fired s d)) = under_way e s d" "t \<noteq> s \<Longrightarrow> under_way e t (fired s d) = under_way e t d"
    by (simp_all add: under_way_def fired_def)
qed (simp add: fired_def set_remove1_subset)

lemma timer_idle_inv:
  assumes "dm_inv e d" and "s \<in> set (d_timers d)" and "d_waiting d s = []"
  shows "dm_inv e (processWaitingJobs e s (fired s d))"
proof -
  define d2 where "d2 = (fired s d)\<lparr>d_busy := d_busy d - {s}\<rparr>"
  have r: "processWaitingJobs e s (fired s d) = d2" using assms(3) by (simp add: processWaitingJobs_def fired_def d2_def)
  have under: "under_way e t d2 = under_way e t (fired s d)" for t by (simp add: under_way_def d2_def)
  have "waiting_ok e d2" using assms(1) by (simp add: dm_inv_iff waiting_ok_def d2_def fired_def)
  moreover have "set (d_timers d2) \<subseteq> hservice e ` set (d_handlers d2)"
    using assms(1) fired_parts(3) [OF assms(2)] by (auto simp: dm_inv_iff d2_def fired_def)
  moreover have "service_ok e d2 t" for t
  proof -
    have "service_ok e d t" using assms(1) by (simp add: dm_inv_iff)
    then show ?thesis using fired_parts(1,2) [OF assms(2), where e = e] assms(3) unfolding service_ok_def under
      by (cases "t = s") (auto simp: d2_def fired_def split: if_splits)
  qed
  ultimately show ?thesis unfolding r dm_inv_iff by blast
qed

lemma waiting_request:
  assumes "dm_inv e d" and "x \<in> set (d_waiting d t)"
  shows "x < length (d_handlers d)" "h_reply (d_handlers d ! x) = NoReply" "hservice e (d_handlers d ! x) = t"
  using assms by (auto simp: dm_inv_iff waiting_ok_def)

lemma timer_next_inv:
  assumes "dm_inv e d" and "s \<in> set (d_timers d)" and "d_waiting d s = h # rest"
  shows "dm_inv e (processWaitingJobs e s (fired s d))"
proof -
  define d2 where "d2 = (fired s d)\<lparr>d_waiting := (d_waiting d)(s := rest)\<rparr>"
  note w = waiting_request [OF assms(1)]
  have dist: "distinct (d_waiting d t)" for t using assms(1) by (simp add: dm_inv_iff waiting_ok_def)
  have h: "h < length (d_handlers d2)" "h_reply (d_handlers d2 ! h) = NoReply" "hservice e (d_handlers d2 ! h) = s"
    using w [of h s] assms(3) by (simp_all add: d2_def fired_def)
  note parts = processRequest_parts [where e = e and h = h and d = d2, OF h(1)]
  have r: "processWaitingJobs e s (fired s d) = dm_processRequest e h d2"
    using assms(3) by (simp add: processWaitingJobs_def fired_def d2_def)
  have wd: "x \<noteq> h \<and> x \<in> set (d_waiting d t)" if "x \<in> set (d_waiting d2 t)" for x t
    using that dist [of s] w(3) [of x t] h(3) assms(3) by (auto simp: d2_def fired_def split: if_splits)
  have "waiting_ok e (dm_processRequest e h d2)"
    unfolding waiting_ok_def parts(1,5,6)
  proof (intro allI conjI ballI)
    fix t
    show "distinct (d_waiting d2 t)" using dist [of t] dist [of s] assms(3) by (auto simp: d2_def fired_def)
    fix x
    assume "x \<in> set (d_waiting d2 t)"
    note x = wd [OF this]
    then show "x < length (d_handlers d2)" "h_reply (d_handlers (dm_processRequest e h d2) ! x) = NoReply"
      "hservice e (d_handlers d2 ! x) = t"
      using w [of x t] parts(7) [of x] by (simp_all add: d2_def fired_def)
  qed
  moreover have "set (d_timers (dm_processRequest e h d2)) \<subseteq> hservice e ` set (d_handlers (dm_processRequest e h d2))"
  proof -
    have "hservice e ` set (d_handlers (dm_processRequest e h d2)) = hservice e ` set (d_handlers d2)"
      unfolding dm_processRequest_def upd_def using services_update [of h "d_handlers d2" e] h(1) by (simp add: hservice_def)
    moreover have "d_timers d2 = d_timers (fired s d)" "d_handlers d2 = d_handlers d" by (simp_all add: d2_def fired_def)
    ultimately show ?thesis using assms(1) fired_parts(3) [OF assms(2)] by (auto simp: parts dm_inv_iff)
  qed
  moreover have under: "under_way e t (dm_processRequest e h d2) = under_way e t d" for t
  proof -
    have "under_way e t d2 = under_way e t (fired s d)" by (simp add: under_way_def d2_def)
    then show ?thesis using parts(8) [of t] fired_parts(1,2) [OF assms(2), where e = e] h by (cases "t = s") simp_all
  qed
  moreover have "service_ok e (dm_processRequest e h d2) t" for t
  proof -
    have "service_ok e d t" using assms(1) by (simp add: dm_inv_iff)
    then show ?thesis using assms(3) unfolding service_ok_def parts under by (cases "t = s") (auto simp: d2_def fired_def split: if_splits)
  qed
  ultimately show ?thesis unfolding r dm_inv_iff by blast
qed

lemma timer_inv:
  assumes "dm_inv e d" and "s \<in> set (d_timers d)"
  shows "dm_inv e (processWaitingJobs e s (d\<lparr>d_timers := remove1 s (d_timers d)\<rparr>))"
  using timer_idle_inv [OF assms] timer_next_inv [OF assms] by (cases "d_waiting d s") (simp_all add: fired_def)

text \<open>Registrations come before the first request of their service.\<close>

definition early :: "dm_env \<Rightarrow> dm_event \<Rightarrow> dm \<Rightarrow> bool" where
  "early e ev d \<longleftrightarrow> (case ev of Register s delay \<Rightarrow> \<forall>hn \<in> set (d_handlers d). hservice e hn \<noteq> s | _ \<Rightarrow> True)"

fun registered_early :: "dm_env \<Rightarrow> dm_event list \<Rightarrow> dm \<Rightarrow> bool" where
  "registered_early e [] d \<longleftrightarrow> True"
| "registered_early e (ev # evs) d \<longleftrightarrow> early e ev d \<and> registered_early e evs (dm_step e ev d)"

lemma register_inv:
  assumes "dm_inv e d" and "\<forall>hn \<in> set (d_handlers d). hservice e hn \<noteq> s"
  shows "dm_inv e (registerSequentialService s delay d)"
proof -
  define d1 where "d1 = registerSequentialService s delay d"
  have d1: "d_handlers d1 = d_handlers d" "d_waiting d1 = d_waiting d" "d_busy d1 = d_busy d" "d_timers d1 = d_timers d"
    "d_sequential d1 = (d_sequential d)(s \<mapsto> delay)" by (simp_all add: d1_def registerSequentialService_def)
  have "count_running e s (d_handlers d) = 0" using assms(2) by (auto simp: count_running_def filter_empty_conv)
  moreover have "s \<notin> set (d_timers d)" using assms by (auto simp: dm_inv_def)
  ultimately have z: "under_way e s d = 0" by (simp add: under_way_def count_list_0_iff)
  have under: "under_way e t d1 = under_way e t d" for t by (simp add: under_way_def d1)
  have "waiting_ok e d1" using assms(1) by (simp add: dm_inv_def waiting_ok_def d1)
  moreover have "if d_sequential d1 t = None then t \<notin> d_busy d1 \<and> d_waiting d1 t = []
      else under_way e t d1 = (if t \<in> d_busy d1 then 1 else 0) \<and> (d_waiting d1 t \<noteq> [] \<longrightarrow> t \<in> d_busy d1)" for t
  proof -
    have "if d_sequential d t = None then t \<notin> d_busy d \<and> d_waiting d t = []
      else under_way e t d = (if t \<in> d_busy d then 1 else 0) \<and> (d_waiting d t \<noteq> [] \<longrightarrow> t \<in> d_busy d)"
      using assms(1) by (simp add: dm_inv_def)
    then show ?thesis using z under by (cases "t = s") (auto simp: d1 split: if_splits)
  qed
  moreover have "set (d_timers d1) \<subseteq> hservice e ` set (d_handlers d1)" using assms(1) by (simp add: dm_inv_def timers_eq d1)
  ultimately show ?thesis unfolding d1_def [symmetric] dm_inv_def timers_eq by blast
qed

lemma dm_step_inv:
  assumes "dm_inv e d" and "early e ev d"
  shows "dm_inv e (dm_step e ev d)"
proof (cases ev)
  case (Register s delay)
  then show ?thesis using register_inv assms by (simp add: early_def)
qed (use assms(1) download_inv reply_inv progress_inv cancel_inv timer_inv in simp_all)

lemma dm_run_inv: "dm_inv e d \<Longrightarrow> registered_early e evs d \<Longrightarrow> dm_inv e (dm_run e evs d)"
  by (induction evs arbitrary: d) (simp_all add: dm_step_inv)

lemma new_inv: "dm_inv e new_dm"
  by (simp add: dm_inv_def waiting_ok_def new_dm_def under_way_def count_running_def)

text \<open>
  C31. Once a service is registered as sequential before its first request, at most one request of it is under way or
  in its delay at any time, and while requests of it wait there is exactly one.
\<close>

theorem one_download_at_a_time:
  assumes "registered_early e evs new_dm"
    and "d_sequential (dm_run e evs new_dm) s \<noteq> None"
  shows "under_way e s (dm_run e evs new_dm) \<le> 1
    \<and> (d_waiting (dm_run e evs new_dm) s \<noteq> [] \<longrightarrow> under_way e s (dm_run e evs new_dm) = 1)"
proof -
  have "dm_inv e (dm_run e evs new_dm)" by (rule dm_run_inv [OF new_inv assms(1)])
  then have "if d_sequential (dm_run e evs new_dm) s = None then s \<notin> d_busy (dm_run e evs new_dm) \<and> d_waiting (dm_run e evs new_dm) s = []
      else under_way e s (dm_run e evs new_dm) = (if s \<in> d_busy (dm_run e evs new_dm) then 1 else 0)
        \<and> (d_waiting (dm_run e evs new_dm) s \<noteq> [] \<longrightarrow> s \<in> d_busy (dm_run e evs new_dm))"
    by (simp add: dm_inv_def)
  then show ?thesis using assms(2) by (auto split: if_splits)
qed

definition service_ex :: service where "service_ex = ServiceID ''a'' 80"

definition dm_env_ex :: dm_env where
  "dm_env_ex = \<lparr>url_host = (\<lambda>u. ''a''), url_port = (\<lambda>u. None), resolve = (\<lambda>a b. b), saveToTempFile = (\<lambda>data. Inr ''t''), saveToFile = (\<lambda>p data. Inr ())\<rparr>"

definition request_dl :: "qstring \<Rightarrow> download_request" where
  "request_dl u = \<lparr>rq_url = u, rq_limit = 0, rq_saveToFile = False, rq_destFileName = []\<rparr>"

lemmas dm_ex_simps = service_ex_def serviceOf_def dm_env_ex_def request_dl_def new_dm_def new_handler_def download_def Let_def upd_def hservice_def
  dm_processRequest_def registerSequentialService_def early_def

definition early_events_ex :: "dm_event list" where
  "early_events_ex = [Register service_ex 1, Download (request_dl ''a'') False, Download (request_dl ''b'') False]"

lemma early_ex:
  "registered_early dm_env_ex early_events_ex new_dm"
  "d_sequential (dm_run dm_env_ex early_events_ex new_dm) service_ex \<noteq> None"
  "d_waiting (dm_run dm_env_ex early_events_ex new_dm) service_ex = [1]"
  by (simp_all add: dm_ex_simps early_events_ex_def)

theorem one_download_at_a_time_witness:
  "under_way dm_env_ex service_ex (dm_run dm_env_ex early_events_ex new_dm) = 1
   \<and> d_waiting (dm_run dm_env_ex early_events_ex new_dm) service_ex = [1]"
  using one_download_at_a_time [OF early_ex(1,2)] early_ex(3) by simp

section \<open>The queue drains in order\<close>

text \<open>The reply of a request arrives, then the timer of its service fires.\<close>

definition reply_and_timer :: "service \<Rightarrow> nat \<times> outcome \<Rightarrow> dm_event list" where
  "reply_and_timer s p = [ReplyFinished (fst p) (snd p), TimerFired s]"

fun is_redirection :: "outcome \<Rightarrow> bool" where
  "is_redirection (RedirectTo u) \<longleftrightarrow> True"
| "is_redirection _ \<longleftrightarrow> False"

text \<open>Requests below \<open>h\<close> have finished, \<open>h\<close> is under way, those from \<open>h + 1\<close> to \<open>n\<close> wait.\<close>

definition handler_at :: "dm_env \<Rightarrow> service \<Rightarrow> nat \<Rightarrow> nat \<Rightarrow> handler \<Rightarrow> bool" where
  "handler_at e s h i hn \<longleftrightarrow> h_parent hn = None \<and> hservice e hn = s
     \<and> h_reply hn = (if i < h then Finished else if i = h then Running else NoReply)
     \<and> (h_isFinished hn \<longleftrightarrow> i < h) \<and> h_signals hn = (if i < h then 1 else 0)"

definition draining :: "dm_env \<Rightarrow> service \<Rightarrow> nat \<Rightarrow> nat \<Rightarrow> dm \<Rightarrow> bool" where
  "draining e s h n d \<longleftrightarrow> d_sequential d s \<noteq> None \<and> d_busy d = {s} \<and> d_waiting d s = [Suc h..<n] \<and> d_timers d = []
     \<and> length (d_handlers d) = n \<and> h < n \<and> d_started d = [0..<Suc h]
     \<and> (\<forall>i < n. handler_at e s h i (d_handlers d ! i))"

definition drained :: "dm_env \<Rightarrow> service \<Rightarrow> nat \<Rightarrow> dm \<Rightarrow> bool" where
  "drained e s n d \<longleftrightarrow> d_busy d = {} \<and> d_started d = [0..<n] \<and> (\<forall>i < n. handler_at e s n i (d_handlers d ! i))"

lemma finish_alone:
  assumes "h < length (d_handlers d)" and "h_parent (d_handlers d ! h) = None" and "h_reply (d_handlers d ! h) \<noteq> NoReply"
  shows "finish e h d = upd h (\<lambda>hn. hn\<lparr>h_isFinished := True, h_signals := h_signals hn + 1\<rparr>) d"
  using assms by (subst finish.simps) (simp add: Let_def upd_def)

lemma processFinished_alone:
  assumes "h < length (d_handlers d)" and "h_parent (d_handlers d ! h) = None" and "h_reply (d_handlers d ! h) = Finished"
    and "\<not> is_redirection res"
  obtains hn where "processFinishedDownload e h res d = d\<lparr>d_handlers := (d_handlers d)[h := hn]\<rparr>"
    and "h_parent hn = None" and "h_request hn = h_request (d_handlers d ! h)" and "h_reply hn = Finished"
    and "h_isFinished hn" and "h_signals hn = h_signals (d_handlers d ! h) + 1"
proof -
  define f where "f = (case res of NetworkError err \<Rightarrow> setError err | RedirectTo u \<Rightarrow> id | Content data \<Rightarrow> save_result e data)"
  define hn where "hn = (f (d_handlers d ! h))\<lparr>h_isFinished := True, h_signals := h_signals (f (d_handlers d ! h)) + 1\<rparr>"
  have f: "h_parent (f x) = h_parent x" "h_request (f x) = h_request x" "h_reply (f x) = h_reply x" "h_signals (f x) = h_signals x" for x
    by (auto simp: f_def setError_def save_result_def Let_def split: outcome.split sum.split)
  have "processFinishedDownload e h res d = finish e h (upd h f d)"
    using assms(4) by (cases res) (simp_all add: processFinishedDownload_def f_def)
  also have "\<dots> = d\<lparr>d_handlers := (d_handlers d)[h := hn]\<rparr>"
    by (subst finish_alone) (use assms f in \<open>simp_all add: upd_def hn_def\<close>)
  finally show thesis by (rule that) (use assms f in \<open>simp_all add: hn_def\<close>)
qed

lemma upt_take: "Suc h < n \<Longrightarrow> [Suc h..<n] = Suc h # [Suc (Suc h)..<n]"
  by (rule upt_rec [THEN trans]) simp

lemma drain_step:
  assumes "draining e s h n d" and "\<not> is_redirection res"
  shows "if Suc h < n then draining e s (Suc h) n (dm_run e (reply_and_timer s (h, res)) d)
    else drained e s n (dm_run e (reply_and_timer s (h, res)) d)"
proof -
  have st: "d_busy d = {s}" "d_waiting d s = [Suc h..<n]" "d_timers d = []" "length (d_handlers d) = n" "h < n"
    "d_started d = [0..<Suc h]" "d_sequential d s \<noteq> None" and at: "\<And>i. i < n \<Longrightarrow> handler_at e s h i (d_handlers d ! i)"
    using assms(1) by (simp_all add: draining_def)
  define d1 where "d1 = d\<lparr>d_handlers := (d_handlers d)[h := (d_handlers d ! h)\<lparr>h_reply := Finished\<rparr>], d_timers := [s]\<rparr>"
  note hh = at [OF st(5), unfolded handler_at_def]
  have d1: "h < length (d_handlers d1)" "h_parent (d_handlers d1 ! h) = None" "h_reply (d_handlers d1 ! h) = Finished"
    using st hh by (simp_all add: d1_def)
  obtain hn where hn: "processFinishedDownload e h res d1 = d1\<lparr>d_handlers := (d_handlers d1)[h := hn]\<rparr>" "h_parent hn = None"
    "h_request hn = h_request (d_handlers d1 ! h)" "h_reply hn = Finished" "h_isFinished hn" "h_signals hn = h_signals (d_handlers d1 ! h) + 1"
    by (rule processFinished_alone [OF d1 assms(2)])
  define d2 where "d2 = d\<lparr>d_handlers := (d_handlers d)[h := hn], d_timers := []\<rparr>"
  have fin: "handler_at e s (Suc h) h hn" using hn hh st by (simp add: handler_at_def hservice_def d1_def)
  have at2: "handler_at e s (Suc h) i (d_handlers d2 ! i)" if "i < n" "i \<noteq> Suc h" for i
    using at [OF that(1)] fin that st by (cases "i = h") (simp_all add: d2_def handler_at_def)
  have run: "dm_run e (reply_and_timer s (h, res)) d = processWaitingJobs e s d2"
    using st hh hn(1) by (simp add: reply_and_timer_def running_def replyFinished_def Let_def upd_def d1_def d2_def hservice_def)
  show ?thesis
  proof (cases "Suc h < n")
    case True
    have "handler_at e s h (Suc h) (d_handlers d2 ! Suc h)" using at [OF True] by (simp add: d2_def)
    then have "\<forall>i < n. handler_at e s (Suc h) i (d_handlers (processWaitingJobs e s d2) ! i)"
      using at2 True st by (auto simp: processWaitingJobs_def d2_def upt_take dm_processRequest_def upd_def nth_list_update
        handler_at_def hservice_def)
    then show ?thesis using st True unfolding run draining_def
      by (simp add: processWaitingJobs_def d2_def upt_take dm_processRequest_def upd_def del: upt_Suc) simp
  next
    case False
    then have "n = Suc h" using st by simp
    then show ?thesis using at2 st by (simp add: run drained_def processWaitingJobs_def d2_def del: upt_Suc)
  qed
qed

lemma drain_all:
  assumes "draining e s h n d" and "length outs = n - h" and "\<forall>r \<in> set outs. \<not> is_redirection r"
  shows "drained e s n (dm_run e (concat (map (reply_and_timer s) (zip [h..<n] outs))) d)"
  using assms
proof (induction outs arbitrary: h d)
  case Nil
  then show ?case by (simp add: draining_def)
next
  case (Cons r outs)
  have h: "h < n" using Cons.prems(1) by (simp add: draining_def)
  then have z: "zip [h..<n] (r # outs) = (h, r) # zip [Suc h..<n] outs" by (simp add: upt_conv_Cons)
  have run: "dm_run e (xs @ ys) d = dm_run e ys (dm_run e xs d)" for xs ys d by (induction xs arbitrary: d) simp_all
  have r: "\<not> is_redirection r" using Cons.prems(3) by simp
  show ?case
  proof (cases "Suc h < n")
    case True
    then have "draining e s (Suc h) n (dm_run e (reply_and_timer s (h, r)) d)" using drain_step [OF Cons.prems(1) r] by simp
    from Cons.IH [OF this] show ?thesis using Cons.prems(2,3) by (simp add: z run)
  next
    case False
    then have "outs = []" using Cons.prems(2) h by (simp flip: length_0_conv)
    then show ?thesis using drain_step [OF Cons.prems(1) r] False unfolding z by simp
  qed
qed

text \<open>Requests join the queue.\<close>

lemma queue_step:
  assumes "draining e s 0 n d" and "serviceOf e (rq_url rq) = s"
  shows "draining e s 0 (Suc n) (dm_step e (Download rq useProxy) d)"
  using assms by (auto simp: draining_def download_def Let_def handler_at_def nth_append less_Suc_eq new_handler_def hservice_def)

lemma queue_all:
  assumes "draining e s 0 n d" and "\<forall>rq \<in> set rqs. serviceOf e (rq_url rq) = s"
  shows "draining e s 0 (n + length rqs) (dm_run e (map (\<lambda>rq. Download rq useProxy) rqs) d)"
  using assms
proof (induction rqs arbitrary: n d)
  case (Cons rq rqs)
  then have "draining e s 0 (Suc n) (dm_step e (Download rq useProxy) d)" using queue_step by simp
  from Cons.IH [OF this] Cons.prems show ?case by simp
qed simp

lemma queue_first:
  assumes "serviceOf e (rq_url rq) = s"
  shows "draining e s 0 1 (dm_run e [Register s delay, Download rq useProxy] new_dm)"
  using assms by (simp add: draining_def handler_at_def new_dm_def new_handler_def download_def Let_def registerSequentialService_def
    dm_processRequest_def upd_def hservice_def)

text \<open>
  C37. Requests to a sequential service, all made before the first reply, without redirections, cancellations and size
  limit, are started one after the other in the order they were made, all of them: once each has its reply (content or
  an error) followed by the delay, every request was started in order, finished exactly once, and the service is no
  longer busy.
\<close>

theorem sequential_queue_drains:
  assumes "\<forall>rq \<in> set rqs. serviceOf e (rq_url rq) = s"
    and "length outs = length rqs" and "\<forall>r \<in> set outs. \<not> is_redirection r"
    and "d = dm_run e (Register s delay # map (\<lambda>rq. Download rq useProxy) rqs
               @ concat (map (reply_and_timer s) (zip [0..<length rqs] outs))) new_dm"
  shows "d_started d = [0..<length rqs] \<and> d_busy d = {}
    \<and> (\<forall>h < length rqs. h_isFinished (d_handlers d ! h) \<and> h_signals (d_handlers d ! h) = 1)"
proof (cases rqs)
  case Nil
  then show ?thesis using assms(4) by (simp add: new_dm_def registerSequentialService_def)
next
  case (Cons rq rqs')
  have run: "dm_run e (xs @ ys) d = dm_run e ys (dm_run e xs d)" for xs ys d by (induction xs arbitrary: d) simp_all
  have "draining e s 0 (1 + length rqs') (dm_run e (map (\<lambda>rq. Download rq useProxy) rqs')
      (dm_run e [Register s delay, Download rq useProxy] new_dm))"
    by (rule queue_all [OF queue_first]) (use assms(1) Cons in simp_all)
  then have "draining e s 0 (length rqs) (dm_run e (Register s delay # map (\<lambda>rq. Download rq useProxy) rqs) new_dm)"
    using Cons by simp
  from drain_all [OF this _ assms(3)] have "drained e s (length rqs) d"
    using assms(2) by (simp add: assms(4) run)
  then show ?thesis by (simp add: drained_def handler_at_def)
qed

theorem sequential_queue_drains_witness:
  "d_started (dm_run dm_env_ex (Register service_ex 5 # map (\<lambda>rq. Download rq False) [request_dl ''a'', request_dl ''b'']
      @ concat (map (reply_and_timer service_ex) (zip [0..<length [request_dl ''a'', request_dl ''b'']] [Content ''x'', NetworkError Canceled]))) new_dm)
     = [0..<length [request_dl ''a'', request_dl ''b'']]
   \<and> d_busy (dm_run dm_env_ex (Register service_ex 5 # map (\<lambda>rq. Download rq False) [request_dl ''a'', request_dl ''b'']
      @ concat (map (reply_and_timer service_ex) (zip [0..<length [request_dl ''a'', request_dl ''b'']] [Content ''x'', NetworkError Canceled]))) new_dm) = {}"
  using sequential_queue_drains [where rqs = "[request_dl ''a'', request_dl ''b'']" and outs = "[Content ''x'', NetworkError Canceled]"
      and e = dm_env_ex and s = service_ex and delay = 5 and useProxy = False, OF _ _ _ refl]
  by (simp add: dm_env_ex_def serviceOf_def service_ex_def)

section \<open>Divergences\<close>

text \<open>
  A service that is registered after a request to it was started is not marked busy, so the next request to it is
  started beside the first.
\<close>

lemma late_registration:
  "under_way dm_env_ex service_ex (dm_run dm_env_ex
     [Download (request_dl ''a'') False, Register service_ex 1, Download (request_dl ''b'') False] new_dm) = 2"
  by (simp add: dm_ex_simps under_way_def count_running_def)

text \<open>
  A download over its size limit: the reply is aborted, which finishes the handler, and the handler then finishes a
  second time.
\<close>

lemma oversized_finishes_twice:
  "h_signals (d_handlers (dm_run dm_env_ex
     [Download ((request_dl ''a'')\<lparr>rq_limit := 10\<rparr>) False, Progress 0 11 20] new_dm) ! 0) = 2"
  by (simp add: dm_ex_simps running_def checkDownloadSize_def replyFinished_def processFinishedDownload_def setError_def
    finish.simps)

end
