(* ===== verification/Rss_Feed.thy ===== *)
theory Rss_Feed
  imports Prelude "HOL-Library.Multiset" "HOL-Library.Option_ord"
begin

text \<open>
  RSS feeds, \<^verbatim>\<open>src/src/base/rss/rss_feed.cpp\<close>, with \<^verbatim>\<open>rss_article.cpp\<close> and
  \<^verbatim>\<open>feed_serializer.cpp\<close>. A \<^verbatim>\<open>QVariantHash\<close> of article data is a map to
  variants. A \<^verbatim>\<open>QDateTime\<close> is a number of milliseconds or invalid (\<open>None\<close>), which
  is the least. Articles are objects, named by their GUID: \<^verbatim>\<open>m_articles\<close> holds them,
  \<^verbatim>\<open>m_articlesByDate\<close> refers to them. Conversions of dates, the order of hashes and of
  equal elements in \<^verbatim>\<open>std::sort\<close> are parameters.
\<close>

section \<open>Articles\<close>

datatype variant = VNull | VBool bool | VString qstring | VDate "int option"

type_synonym article_data = "qstring \<rightharpoonup> variant"

record rss_env =
  isoDate :: "qstring \<Rightarrow> int option"
  isoText :: "int option \<Rightarrow> qstring"
  rfcDate :: "qstring \<Rightarrow> int option"
  rfcText :: "int option \<Rightarrow> qstring"
  hashOrder :: "qstring list \<Rightarrow> qstring list"

definition value_of :: "article_data \<Rightarrow> qstring \<Rightarrow> variant" where
  "value_of a k = (case a k of None \<Rightarrow> VNull | Some v \<Rightarrow> v)"

fun variant_toString :: "rss_env \<Rightarrow> variant \<Rightarrow> qstring" where
  "variant_toString e VNull = []"
| "variant_toString e (VBool b) = (if b then ''true'' else ''false'')"
| "variant_toString e (VString s) = s"
| "variant_toString e (VDate d) = isoText e d"

fun toDateTime :: "rss_env \<Rightarrow> variant \<Rightarrow> int option" where
  "toDateTime e (VDate d) = d"
| "toDateTime e (VString s) = isoDate e s"
| "toDateTime e _ = None"

fun toBool :: "variant \<Rightarrow> bool" where
  "toBool VNull \<longleftrightarrow> False"
| "toBool (VBool b) \<longleftrightarrow> b"
| "toBool (VString s) \<longleftrightarrow> to_lower s \<notin> {[], ''0'', ''false''}"
| "toBool (VDate d) \<longleftrightarrow> False"

definition KeyId :: qstring where "KeyId = ''id''"
definition KeyDate :: qstring where "KeyDate = ''date''"
definition KeyTitle :: qstring where "KeyTitle = ''title''"
definition KeyAuthor :: qstring where "KeyAuthor = ''author''"
definition KeyDescription :: qstring where "KeyDescription = ''description''"
definition KeyTorrentURL :: qstring where "KeyTorrentURL = ''torrentURL''"
definition KeyLink :: qstring where "KeyLink = ''link''"
definition KeyIsRead :: qstring where "KeyIsRead = ''isRead''"

lemmas key_defs = KeyId_def KeyDate_def KeyTitle_def KeyAuthor_def KeyDescription_def KeyTorrentURL_def KeyLink_def KeyIsRead_def

record article =
  a_guid :: qstring
  a_date :: "int option"
  a_title :: qstring
  a_author :: qstring
  a_description :: qstring
  a_torrentURL :: qstring
  a_link :: qstring
  a_isRead :: bool
  a_data :: article_data

definition mkArticle :: "rss_env \<Rightarrow> article_data \<Rightarrow> article" where
  "mkArticle e varHash =
     \<lparr>a_guid = variant_toString e (value_of varHash KeyId), a_date = toDateTime e (value_of varHash KeyDate),
      a_title = variant_toString e (value_of varHash KeyTitle), a_author = variant_toString e (value_of varHash KeyAuthor),
      a_description = variant_toString e (value_of varHash KeyDescription),
      a_torrentURL = variant_toString e (value_of varHash KeyTorrentURL), a_link = variant_toString e (value_of varHash KeyLink),
      a_isRead = toBool (value_of varHash KeyIsRead), a_data = varHash\<rparr>"

definition torrentUrl :: "article \<Rightarrow> qstring" where
  "torrentUrl a = (if a_torrentURL a = [] then a_link a else a_torrentURL a)"

text \<open>\<^verbatim>\<open>Article::markAsRead\<close> on an unread article, up to its signal.\<close>

definition set_read :: "article \<Rightarrow> article" where
  "set_read a = a\<lparr>a_isRead := True, a_data := (a_data a)(KeyIsRead \<mapsto> VBool True)\<rparr>"

section \<open>The state of a feed\<close>

datatype feed_signal =
    NewArticle qstring
  | ArticleAboutToBeRemoved qstring
  | ArticleRead qstring
  | UnreadCountChanged
  | TitleChanged
  | StateChanged

record feed =
  f_title :: qstring
  f_lastBuildDate :: qstring
  f_hasError :: bool
  f_isLoading :: bool
  f_isInitialized :: bool
  f_pendingRefresh :: bool
  f_articles :: "qstring \<rightharpoonup> article"
  f_articlesByDate :: "qstring list"
  f_unreadCount :: int
  f_dirty :: bool
  f_downloading :: bool
  f_signals :: "feed_signal list"
  f_file :: "article_data list option"

definition new_feed :: feed where
  "new_feed = \<lparr>f_title = [], f_lastBuildDate = [], f_hasError = False, f_isLoading = False, f_isInitialized = False,
     f_pendingRefresh = False, f_articles = Map.empty, f_articlesByDate = [], f_unreadCount = 0, f_dirty = False,
     f_downloading = False, f_signals = [], f_file = None\<rparr>"

definition send :: "feed_signal \<Rightarrow> feed \<Rightarrow> feed" where
  "send x f = f\<lparr>f_signals := f_signals f @ [x]\<rparr>"

definition article_at :: "feed \<Rightarrow> qstring \<Rightarrow> article" where
  "article_at f g = the (f_articles f g)"

text \<open>\<^verbatim>\<open>FeedSerializer::store\<close> of one article, which writes dates as text.\<close>

definition store_article :: "rss_env \<Rightarrow> article_data \<Rightarrow> article_data" where
  "store_article e a = a(KeyDate \<mapsto> VString (rfcText e (toDateTime e (value_of a KeyDate))))"

definition feed_store :: "rss_env \<Rightarrow> feed \<Rightarrow> feed" where
  "feed_store e f =
     (if \<not> f_dirty f then f
      else f\<lparr>f_dirty := False, f_file := Some (map (\<lambda>g. store_article e (a_data (article_at f g))) (hashOrder e (f_articlesByDate f)))\<rparr>)"

section \<open>Adding and removing articles\<close>

definition increaseUnreadCount :: "feed \<Rightarrow> feed" where
  "increaseUnreadCount f = send UnreadCountChanged (f\<lparr>f_unreadCount := f_unreadCount f + 1\<rparr>)"

definition decreaseUnreadCount :: "feed \<Rightarrow> feed" where
  "decreaseUnreadCount f = send UnreadCountChanged (f\<lparr>f_unreadCount := f_unreadCount f - 1\<rparr>)"

definition removeOldestArticle :: "feed \<Rightarrow> feed" where
  "removeOldestArticle f =
     (let oldest = last (f_articlesByDate f);
          isRead = a_isRead (article_at f oldest);
          f1 = send (ArticleAboutToBeRemoved oldest) f;
          f2 = f1\<lparr>f_articles := (f_articles f1)(oldest := None), f_articlesByDate := butlast (f_articlesByDate f1)\<rparr>
      in if \<not> isRead then decreaseUnreadCount f2 else f2)"

text \<open>\<^verbatim>\<open>std::lower_bound\<close> on articles ordered by date, the most recent first.\<close>

definition lower_bound :: "feed \<Rightarrow> int option \<Rightarrow> nat" where
  "lower_bound f d = length (takeWhile (\<lambda>g. d < a_date (article_at f g)) (f_articlesByDate f))"

definition addArticle :: "rss_env \<Rightarrow> int \<Rightarrow> article_data \<Rightarrow> feed \<Rightarrow> bool \<times> feed" where
  "addArticle e maxArticles articleData f =
     (let pos = lower_bound f (toDateTime e (value_of articleData KeyDate)) in
      if int pos \<ge> maxArticles then (False, f)
      else
        (let article = mkArticle e articleData;
             g = a_guid article;
             f1 = f\<lparr>f_articles := (f_articles f)(g \<mapsto> article),
                    f_articlesByDate := take pos (f_articlesByDate f) @ g # drop pos (f_articlesByDate f)\<rparr>;
             f2 = (if \<not> a_isRead article then increaseUnreadCount f1 else f1);
             f3 = send (NewArticle g) (f2\<lparr>f_dirty := True\<rparr>)
         in (True, if int (length (f_articlesByDate f3)) > maxArticles then removeOldestArticle f3 else f3)))"

text \<open>With nothing left to remove, \<^verbatim>\<open>last()\<close> is called on an empty list: the loop has no result.\<close>

function handleMaxArticlesPerFeedChanged :: "int \<Rightarrow> feed \<Rightarrow> feed option" where
  "handleMaxArticlesPerFeedChanged n f =
     (if int (length (f_articlesByDate f)) > n
      then if f_articlesByDate f = [] then None else handleMaxArticlesPerFeedChanged n (removeOldestArticle f)
      else Some f)"
  by pat_completeness auto

termination
  by (relation "measure (\<lambda>(n, f). length (f_articlesByDate f))")
    (auto simp: removeOldestArticle_def decreaseUnreadCount_def send_def Let_def)

declare handleMaxArticlesPerFeedChanged.simps [simp del]

section \<open>Reading articles\<close>

definition handleArticleRead :: "qstring \<Rightarrow> feed \<Rightarrow> feed" where
  "handleArticleRead g f = (send (ArticleRead g) (decreaseUnreadCount f))\<lparr>f_dirty := True\<rparr>"

definition markArticleAsRead :: "qstring \<Rightarrow> feed \<Rightarrow> feed" where
  "markArticleAsRead g f =
     (case f_articles f g of
        None \<Rightarrow> f
      | Some a \<Rightarrow> if \<not> a_isRead a then handleArticleRead g (f\<lparr>f_articles := (f_articles f)(g \<mapsto> set_read a)\<rparr>) else f)"

definition markAsRead_one :: "qstring \<Rightarrow> feed \<Rightarrow> feed" where
  "markAsRead_one g f =
     (let a = article_at f g in
      if \<not> a_isRead a
      then send (ArticleRead g) (f\<lparr>f_articles := (f_articles f)(g \<mapsto> set_read a), f_unreadCount := f_unreadCount f - 1\<rparr>)
      else f)"

definition markAsRead :: "rss_env \<Rightarrow> feed \<Rightarrow> feed" where
  "markAsRead e f =
     (let f1 = fold markAsRead_one (hashOrder e (f_articlesByDate f)) f in
      if f_unreadCount f1 \<noteq> f_unreadCount f
      then send UnreadCountChanged (feed_store e (f1\<lparr>f_dirty := True\<rparr>))
      else f1)"

section \<open>Updating a feed\<close>

definition refresh :: "feed \<Rightarrow> feed" where
  "refresh f =
     (if \<not> f_isInitialized f then f\<lparr>f_pendingRefresh := True\<rparr>
      else send StateChanged (f\<lparr>f_downloading := True, f_isLoading := True\<rparr>))"

definition handleDownloadFinished :: "bool \<Rightarrow> feed \<Rightarrow> feed" where
  "handleDownloadFinished success f =
     (let f1 = f\<lparr>f_downloading := False\<rparr> in
      if success then f1 else send StateChanged (f1\<lparr>f_isLoading := False, f_hasError := True\<rparr>))"

fun new_articles :: "rss_env \<Rightarrow> feed \<Rightarrow> int option \<Rightarrow> article_data list \<Rightarrow> article_data list" where
  "new_articles e f dummyPubDate [] = []"
| "new_articles e f dummyPubDate (a # as) =
     (case f_articles f (variant_toString e (value_of a KeyId)) of
        Some existing \<Rightarrow> new_articles e f (map_option (\<lambda>t. t - 1) (a_date existing)) as
      | None \<Rightarrow>
          (if toDateTime e (value_of a KeyDate) = None then a(KeyDate \<mapsto> VDate dummyPubDate) else a)
          # new_articles e f dummyPubDate as)"

type_synonym sort_item = "int option \<times> article_data option"

text \<open>\<^verbatim>\<open>std::sort\<close>: the same elements, none before one that compares less.\<close>

definition sorts :: "('a \<Rightarrow> 'a \<Rightarrow> bool) \<Rightarrow> ('a list \<Rightarrow> 'a list) \<Rightarrow> bool" where
  "sorts lt srt \<longleftrightarrow> (\<forall>xs. mset (srt xs) = mset xs \<and> sorted_wrt (\<lambda>a b. \<not> lt b a) (srt xs))"

definition add_item :: "rss_env \<Rightarrow> int \<Rightarrow> sort_item \<Rightarrow> nat \<times> feed \<Rightarrow> nat \<times> feed" where
  "add_item e maxArticles item st =
     (case (item, st) of ((_, None), st) \<Rightarrow> st
      | ((_, Some a), (n, f)) \<Rightarrow> (n + 1, snd (addArticle e maxArticles a f)))"

definition updateArticles ::
  "rss_env \<Rightarrow> (sort_item list \<Rightarrow> sort_item list) \<Rightarrow> int \<Rightarrow> int \<Rightarrow> article_data list \<Rightarrow> feed \<Rightarrow> nat \<times> feed" where
  "updateArticles e srt now maxArticles loadedArticles f =
     (let newArticles = new_articles e f (Some now) loadedArticles in
      if newArticles = [] then (0, f)
      else
        (let sortData = srt (map (\<lambda>g. (a_date (article_at f g), None)) (f_articlesByDate f)
               @ map (\<lambda>a. (toDateTime e (value_of a KeyDate), Some a)) newArticles);
             sortData = (if maxArticles < 0 then sortData else take (nat maxArticles) sortData)
         in fold (add_item e maxArticles) (rev sortData) (0, f)))"

record parsing_result =
  pr_error :: qstring
  pr_lastBuildDate :: qstring
  pr_title :: qstring
  pr_articles :: "article_data list"

definition handleParsingFinished ::
  "rss_env \<Rightarrow> (sort_item list \<Rightarrow> sort_item list) \<Rightarrow> int \<Rightarrow> int \<Rightarrow> parsing_result \<Rightarrow> feed \<Rightarrow> feed" where
  "handleParsingFinished e srt now maxArticles result f =
     (let f1 = f\<lparr>f_hasError := (pr_error result \<noteq> [])\<rparr>;
          f2 = (if pr_title result \<noteq> [] \<and> f_title f1 \<noteq> pr_title result
                then send TitleChanged (f1\<lparr>f_title := pr_title result, f_dirty := True\<rparr>) else f1);
          f3 = (if pr_lastBuildDate result \<noteq> [] then f2\<lparr>f_lastBuildDate := pr_lastBuildDate result, f_dirty := True\<rparr> else f2);
          f4 = snd (updateArticles e srt now maxArticles (pr_articles result) f3)
      in send StateChanged ((feed_store e f4)\<lparr>f_isLoading := False\<rparr>))"

section \<open>The file of a feed\<close>

definition load_article :: "rss_env \<Rightarrow> article_data \<Rightarrow> article_data" where
  "load_article e a = a(KeyDate \<mapsto> VDate (rfcDate e (variant_toString e (value_of a KeyDate))))"

text \<open>The array read from the file; an element that is no object is \<open>None\<close> and skipped.\<close>

definition loadArticles ::
  "rss_env \<Rightarrow> (article_data list \<Rightarrow> article_data list) \<Rightarrow> article_data option list \<Rightarrow> article_data list" where
  "loadArticles e srt jsonArr = srt (map (load_article e) (List.map_filter id jsonArr))"

fun load_one :: "rss_env \<Rightarrow> article_data \<Rightarrow> feed \<Rightarrow> feed" where
  "load_one e articleData f =
     (let articleID = variant_toString e (value_of articleData KeyId) in
      if f_articles f articleID \<noteq> None then f
      else
        (let article = mkArticle e articleData;
             f1 = f\<lparr>f_articles := (f_articles f)(articleID \<mapsto> article), f_articlesByDate := f_articlesByDate f @ [a_guid article]\<rparr>;
             f2 = (if \<not> a_isRead article then f1\<lparr>f_unreadCount := f_unreadCount f1 + 1\<rparr> else f1)
         in send (NewArticle articleID) f2))"

definition handleArticleLoadFinished :: "rss_env \<Rightarrow> int \<Rightarrow> article_data list \<Rightarrow> feed \<Rightarrow> feed" where
  "handleArticleLoadFinished e maxArticles articles f =
     (let articles = (if int (length articles) > maxArticles then take (nat maxArticles) articles else articles);
          f1 = fold (load_one e) articles f;
          f2 = (if f_unreadCount f1 > 0 then send UnreadCountChanged f1 else f1);
          f3 = send StateChanged (f2\<lparr>f_isInitialized := True\<rparr>)
      in if f_pendingRefresh f3 then refresh (f3\<lparr>f_pendingRefresh := False\<rparr>) else f3)"

section \<open>Events\<close>

text \<open>
  What happens to a feed and to the limit of its session: the serializer answers, or fails to read the file and says
  nothing; a refresh is asked for; the download and then the parser finish; articles are read; the limit changes.
\<close>

datatype feed_event =
    Loaded "article_data list"
  | LoadFailed
  | RefreshAsked
  | DownloadDone bool
  | ParsingDone int parsing_result
  | Reading qstring
  | ReadingAll
  | MaxArticles int
  | SaveTimer

fun feed_step :: "rss_env \<Rightarrow> (sort_item list \<Rightarrow> sort_item list) \<Rightarrow> feed_event \<Rightarrow> int \<times> feed \<Rightarrow> (int \<times> feed) option" where
  "feed_step e srt (Loaded as) (n, f) = Some (n, if f_isInitialized f then f else handleArticleLoadFinished e n as f)"
| "feed_step e srt LoadFailed (n, f) = Some (n, f)"
| "feed_step e srt RefreshAsked (n, f) = Some (n, refresh f)"
| "feed_step e srt (DownloadDone success) (n, f) = Some (n, if f_downloading f then handleDownloadFinished success f else f)"
| "feed_step e srt (ParsingDone now result) (n, f) =
     Some (n, if f_isInitialized f then handleParsingFinished e srt now n result f else f)"
| "feed_step e srt (Reading g) (n, f) = Some (n, markArticleAsRead g f)"
| "feed_step e srt ReadingAll (n, f) = Some (n, markAsRead e f)"
| "feed_step e srt (MaxArticles m) (n, f) =
     (if m = n then Some (n, f) else map_option (\<lambda>f. (m, f)) (handleMaxArticlesPerFeedChanged m f))"
| "feed_step e srt SaveTimer (n, f) = Some (n, feed_store e f)"

fun feed_run :: "rss_env \<Rightarrow> (sort_item list \<Rightarrow> sort_item list) \<Rightarrow> feed_event list \<Rightarrow> int \<times> feed \<Rightarrow> (int \<times> feed) option" where
  "feed_run e srt [] st = Some st"
| "feed_run e srt (ev # evs) st = Option.bind (feed_step e srt ev st) (feed_run e srt evs)"

end
