(* ===== verification/Rss_Feed_Articles.thy ===== *)
theory Rss_Feed_Articles
  imports Rss_Feed
begin

text \<open>
  The articles of a feed: what every change of them keeps (\<open>feed_inv\<close>), and that an update keeps the most
  recent ones (\<open>top_of\<close>).
\<close>

section \<open>What stays true of a feed\<close>

definition removal :: "feed_signal \<Rightarrow> qstring set \<Rightarrow> qstring set" where
  "removal x S = (case x of NewArticle g \<Rightarrow> insert g S | ArticleAboutToBeRemoved g \<Rightarrow> S - {g} | _ \<Rightarrow> S)"

text \<open>The articles a listener knows that follows the signals.\<close>

definition announced :: "feed_signal list \<Rightarrow> qstring set" where
  "announced xs = fold removal xs {}"

definition by_date :: "feed \<Rightarrow> qstring list \<Rightarrow> bool" where
  "by_date f gs \<longleftrightarrow> sorted_wrt (\<lambda>a b. a_date (article_at f b) \<le> a_date (article_at f a)) gs"

definition unread :: "feed \<Rightarrow> qstring list \<Rightarrow> int" where
  "unread f gs = int (length (filter (\<lambda>g. \<not> a_isRead (article_at f g)) gs))"

definition proper :: "rss_env \<Rightarrow> article \<Rightarrow> bool" where
  "proper e a \<longleftrightarrow> a = mkArticle e (a_data a)"

definition articles_ok :: "rss_env \<Rightarrow> feed \<Rightarrow> bool" where
  "articles_ok e f \<longleftrightarrow> (\<forall>g a. f_articles f g = Some a \<longrightarrow> proper e a \<and> a_guid a = g)"

definition feed_inv :: "rss_env \<Rightarrow> feed \<Rightarrow> bool" where
  "feed_inv e f \<longleftrightarrow> distinct (f_articlesByDate f) \<and> dom (f_articles f) = set (f_articlesByDate f)
     \<and> articles_ok e f \<and> by_date f (f_articlesByDate f) \<and> f_unreadCount f = unread f (f_articlesByDate f)
     \<and> announced (f_signals f) = set (f_articlesByDate f)"

lemma announced_append [simp]: "announced (xs @ ys) = fold removal ys (announced xs)"
  by (simp add: announced_def)

lemma send_simps [simp]:
  "f_articles (send x f) = f_articles f" "f_articlesByDate (send x f) = f_articlesByDate f"
  "f_unreadCount (send x f) = f_unreadCount f" "f_signals (send x f) = f_signals f @ [x]"
  "f_dirty (send x f) = f_dirty f" "f_file (send x f) = f_file f" "f_isInitialized (send x f) = f_isInitialized f"
  by (simp_all add: send_def)

text \<open>A step that leaves the articles alone.\<close>

definition same_articles :: "feed \<Rightarrow> feed \<Rightarrow> bool" where
  "same_articles f f' \<longleftrightarrow> f_articles f' = f_articles f \<and> f_articlesByDate f' = f_articlesByDate f
     \<and> f_unreadCount f' = f_unreadCount f \<and> announced (f_signals f') = announced (f_signals f)"

lemma same_articles_at: "same_articles f f' \<Longrightarrow> article_at f' = article_at f"
  by (rule ext) (simp add: same_articles_def article_at_def)

lemma same_articles_inv: "same_articles f f' \<Longrightarrow> feed_inv e f \<Longrightarrow> feed_inv e f'"
  using same_articles_at [of f f']
  by (simp add: feed_inv_def same_articles_def articles_ok_def by_date_def unread_def)

lemma same_articles_refl [simp]: "same_articles f f" by (simp add: same_articles_def)

lemma same_articles_trans: "same_articles f g \<Longrightarrow> same_articles g h \<Longrightarrow> same_articles f h"
  by (simp add: same_articles_def)

lemma same_articles_store: "same_articles f (feed_store e f)"
  by (simp add: same_articles_def feed_store_def)

text \<open>Changes of the articles.\<close>

lemma sorted_insert:
  fixes key :: "'a \<Rightarrow> 'b::linorder"
  assumes "sorted_wrt (\<lambda>a b. key b \<le> key a) xs"
  shows "sorted_wrt (\<lambda>a b. key b \<le> key a)
    (takeWhile (\<lambda>y. key x < key y) xs @ x # dropWhile (\<lambda>y. key x < key y) xs)"
  using assms
proof (induction xs)
  case (Cons y ys)
  show ?case
  proof (cases "key x < key y")
    case True
    then show ?thesis using Cons set_takeWhileD [of _ "\<lambda>y. key x < key y" ys] set_dropWhileD [of _ "\<lambda>y. key x < key y" ys]
      by (auto simp: order_less_imp_le)
  qed (use Cons.prems in \<open>auto intro: order_trans\<close>)
qed simp

lemma mset_insert_at: "mset (take n xs @ x # drop n xs) = add_mset x (mset xs)"
  by (metis append_take_drop_id mset.simps(2) mset_append union_mset_add_mset_right)

lemma insert_at_parts:
  shows "set (take n xs @ x # drop n xs) = insert x (set xs)"
    and "distinct (take n xs @ x # drop n xs) \<longleftrightarrow> x \<notin> set xs \<and> distinct xs"
    and "length (take n xs @ x # drop n xs) = Suc (length xs)"
proof -
  note m = mset_insert_at [of n xs x]
  show "set (take n xs @ x # drop n xs) = insert x (set xs)" using arg_cong [OF m, of set_mset] by simp
  have "mset (take n xs @ x # drop n xs) = mset (x # xs)" using m by simp
  from mset_eq_imp_distinct_iff [OF this] show "distinct (take n xs @ x # drop n xs) \<longleftrightarrow> x \<notin> set xs \<and> distinct xs" by simp
  show "length (take n xs @ x # drop n xs) = Suc (length xs)" using arg_cong [OF m, of size] by simp
qed

lemma unread_mset: "unread f gs = int (size (filter_mset (\<lambda>g. \<not> a_isRead (article_at f g)) (mset gs)))"
  by (simp add: unread_def flip: mset_filter)

lemma unread_cong: "\<forall>g \<in> set gs. a_isRead (article_at f' g) = a_isRead (article_at f g) \<Longrightarrow> unread f' gs = unread f gs"
  unfolding unread_def by (metis (mono_tags, lifting) filter_cong)

lemma by_date_cong: "\<forall>g \<in> set gs. a_date (article_at f' g) = a_date (article_at f g) \<Longrightarrow> by_date f' gs = by_date f gs"
  unfolding by_date_def by (intro iffI; erule sorted_wrt_mono_rel [rotated]) auto

lemma insert_sorted_at:
  assumes "by_date f (f_articlesByDate f)" and "g \<notin> set (f_articlesByDate f)"
    and "\<And>h. article_at f' h = (if h = g then a else article_at f h)"
  shows "by_date f' (take (lower_bound f (a_date a)) (f_articlesByDate f) @ g # drop (lower_bound f (a_date a)) (f_articlesByDate f))"
proof -
  let ?gs = "f_articlesByDate f"
  have "by_date f' ?gs" using assms by_date_cong [of ?gs f' f] by auto
  then have "by_date f' (takeWhile (\<lambda>h. a_date (article_at f' g) < a_date (article_at f' h)) ?gs
      @ g # dropWhile (\<lambda>h. a_date (article_at f' g) < a_date (article_at f' h)) ?gs)"
    using sorted_insert [of "\<lambda>h. a_date (article_at f' h)" ?gs g] by (simp add: by_date_def)
  moreover have "takeWhile (\<lambda>h. a_date (article_at f' g) < a_date (article_at f' h)) ?gs = take (lower_bound f (a_date a)) ?gs"
    "dropWhile (\<lambda>h. a_date (article_at f' g) < a_date (article_at f' h)) ?gs = drop (lower_bound f (a_date a)) ?gs"
    unfolding lower_bound_def takeWhile_eq_take [symmetric] dropWhile_eq_drop [symmetric]
    using assms by (auto intro!: takeWhile_cong dropWhile_cong)
  ultimately show ?thesis by simp
qed

lemma insert_inv:
  assumes "feed_inv e f" and "f_articles f g = None" and "proper e a" and "a_guid a = g"
    and "f_articles f' = (f_articles f)(g \<mapsto> a)"
    and "f_articlesByDate f' = take n (f_articlesByDate f) @ g # drop n (f_articlesByDate f)"
    and "f_unreadCount f' = f_unreadCount f + (if a_isRead a then 0 else 1)"
    and "announced (f_signals f') = insert g (announced (f_signals f))"
    and "by_date f' (f_articlesByDate f')"
  shows "feed_inv e f'"
proof -
  let ?gs = "f_articlesByDate f"
  have g: "g \<notin> set ?gs" using assms(1,2) by (auto simp: feed_inv_def)
  have at: "article_at f' h = (if h = g then a else article_at f h)" for h by (simp add: article_at_def assms(5))
  have "unread f' (f_articlesByDate f') = unread f' ?gs + (if a_isRead a then 0 else 1)"
    unfolding unread_mset assms(6) mset_insert_at by (simp add: at)
  moreover have "unread f' ?gs = unread f ?gs" by (rule unread_cong) (use g at in auto)
  ultimately have "f_unreadCount f' = unread f' (f_articlesByDate f')" using assms(1,7) by (simp add: feed_inv_def)
  then show ?thesis unfolding feed_inv_def
    using assms g insert_at_parts [of n ?gs g] by (auto simp: feed_inv_def articles_ok_def)
qed

lemma remove_inv:
  assumes "feed_inv e f" and "f_articlesByDate f \<noteq> []"
  shows "feed_inv e (removeOldestArticle f)"
    and "f_articlesByDate (removeOldestArticle f) = butlast (f_articlesByDate f)"
    and "f_articles (removeOldestArticle f) = (f_articles f)(last (f_articlesByDate f) := None)"
proof -
  define f' where "f' = removeOldestArticle f"
  obtain gs g where gs: "f_articlesByDate f = gs @ [g]" using assms(2) by (metis rev_exhaust)
  have f': "f_articlesByDate f' = gs" "f_articles f' = (f_articles f)(g := None)"
    "f_unreadCount f' = f_unreadCount f - (if a_isRead (article_at f g) then 0 else 1)"
    "announced (f_signals f') = announced (f_signals f) - {g}"
    by (simp_all add: f'_def gs removeOldestArticle_def decreaseUnreadCount_def Let_def removal_def)
  show "f_articlesByDate (removeOldestArticle f) = butlast (f_articlesByDate f)"
    "f_articles (removeOldestArticle f) = (f_articles f)(last (f_articlesByDate f) := None)"
    using f' by (simp_all add: f'_def gs)
  have g: "g \<notin> set gs" "distinct gs" using assms(1) distinct_append [of gs "[g]"] by (simp_all add: feed_inv_def flip: gs)
  have at: "\<forall>h \<in> set gs. article_at f' h = article_at f h" using g by (auto simp: article_at_def f'(2))
  have "by_date f (gs @ [g])" "f_unreadCount f = unread f (gs @ [g])" using assms(1) by (simp_all add: feed_inv_def flip: gs)
  then have "by_date f gs" "unread f gs + (if a_isRead (article_at f g) then 0 else 1) = f_unreadCount f"
    by (simp_all add: by_date_def sorted_wrt_append unread_def)
  then have "by_date f' gs" "unread f' gs = f_unreadCount f'" using at by_date_cong [of gs f' f] unread_cong [of gs f' f] f'(3) by auto
  then show "feed_inv e (removeOldestArticle f)"
    using assms(1) g f' gs unfolding f'_def [symmetric] feed_inv_def articles_ok_def by auto
qed

lemma addArticle_inv:
  assumes "feed_inv e f" and "f_articles f (variant_toString e (value_of d KeyId)) = None"
  shows "feed_inv e (snd (addArticle e n d f))"
proof (cases "int (lower_bound f (toDateTime e (value_of d KeyDate))) \<ge> n")
  case True
  then show ?thesis using assms(1) by (simp add: addArticle_def Let_def)
next
  case False
  define a where "a = mkArticle e d"
  define pos where "pos = lower_bound f (a_date a)"
  define f1 where "f1 = f\<lparr>f_articles := (f_articles f)(a_guid a \<mapsto> a),
      f_articlesByDate := take pos (f_articlesByDate f) @ a_guid a # drop pos (f_articlesByDate f)\<rparr>"
  define f3 where "f3 = send (NewArticle (a_guid a)) ((if \<not> a_isRead a then increaseUnreadCount f1 else f1)\<lparr>f_dirty := True\<rparr>)"
  have a: "proper e a" "a_guid a = variant_toString e (value_of d KeyId)" "a_date a = toDateTime e (value_of d KeyDate)"
    by (simp_all add: a_def mkArticle_def proper_def)
  have r: "snd (addArticle e n d f) = (if int (length (f_articlesByDate f3)) > n then removeOldestArticle f3 else f3)"
    using False a by (simp add: addArticle_def Let_def f3_def f1_def pos_def a_def)
  have f3: "f_articles f3 = (f_articles f)(a_guid a \<mapsto> a)"
    "f_articlesByDate f3 = take pos (f_articlesByDate f) @ a_guid a # drop pos (f_articlesByDate f)"
    "f_unreadCount f3 = f_unreadCount f + (if a_isRead a then 0 else 1)"
    "announced (f_signals f3) = insert (a_guid a) (announced (f_signals f))"
    by (simp_all add: f3_def f1_def increaseUnreadCount_def removal_def)
  have "by_date f3 (f_articlesByDate f3)"
    unfolding f3(2) pos_def
    by (rule insert_sorted_at) (use assms a f3(1) in \<open>auto simp: feed_inv_def article_at_def\<close>)
  then have "feed_inv e f3"
    by (intro insert_inv [OF assms(1) _ a(1) refl f3]) (simp_all add: a(2) assms(2))
  moreover have "f_articlesByDate f3 \<noteq> []" by (simp add: f3)
  ultimately show ?thesis unfolding r using remove_inv(1) by simp
qed

lemma addArticle_dom: "f_articles f g = None \<Longrightarrow> g \<noteq> variant_toString e (value_of d KeyId) \<Longrightarrow> f_articles (snd (addArticle e n d f)) g = None"
  by (simp add: addArticle_def Let_def mkArticle_def increaseUnreadCount_def removeOldestArticle_def decreaseUnreadCount_def)

lemma change_read_inv:
  assumes "feed_inv e f" and "f_articles f g = Some a" and "\<not> a_isRead a"
    and "f_articles f' = (f_articles f)(g \<mapsto> set_read a)" and "f_articlesByDate f' = f_articlesByDate f"
    and "f_unreadCount f' = f_unreadCount f - 1" and "announced (f_signals f') = announced (f_signals f)"
  shows "feed_inv e f'"
proof -
  have g: "g \<in> set (f_articlesByDate f)" "proper e a" "a_guid a = g"
    using assms(1,2) by (auto simp: feed_inv_def articles_ok_def)
  have at: "article_at f' h = (if h = g then set_read a else article_at f h)" for h by (simp add: article_at_def assms(4))
  have fg: "article_at f g = a" by (simp add: article_at_def assms(2))
  have ok: "proper e (set_read a)" "a_guid (set_read a) = g"
  proof -
    have "mkArticle e ((a_data a)(KeyIsRead \<mapsto> VBool True)) = (mkArticle e (a_data a))\<lparr>a_isRead := True, a_data := (a_data a)(KeyIsRead \<mapsto> VBool True)\<rparr>"
      by (simp add: mkArticle_def value_of_def key_defs)
    then show "proper e (set_read a)" using g(2) by (simp add: set_read_def proper_def)
    show "a_guid (set_read a) = g" using g(3) by (simp add: set_read_def)
  qed
  obtain xs ys where gs: "f_articlesByDate f = xs @ g # ys" using g(1) by (meson split_list)
  have d: "distinct (xs @ g # ys)" using assms(1) by (simp add: feed_inv_def gs)
  have "unread f' xs = unread f xs" "unread f' ys = unread f ys" by (rule unread_cong; use d in \<open>auto simp: at\<close>)+
  moreover have "article_at f' g = set_read a" by (simp add: at)
  ultimately have "unread f' (f_articlesByDate f) = unread f (f_articlesByDate f) - 1"
    using assms(3) by (simp add: gs unread_def fg) (simp add: set_read_def)
  moreover have "by_date f' (f_articlesByDate f)"
    using assms(1) by_date_cong [of "f_articlesByDate f" f' f] fg by (simp add: feed_inv_def at set_read_def)
  moreover have "articles_ok e f'" using assms(1,4) ok by (simp add: feed_inv_def articles_ok_def)
  moreover have "dom (f_articles f') = dom (f_articles f)" using assms(2,4) by auto
  ultimately show ?thesis using assms(1,5-7) by (simp add: feed_inv_def)
qed

lemma markArticle_inv:
  assumes "feed_inv e f"
  shows "feed_inv e (markArticleAsRead g f)"
proof (cases "\<exists>a. f_articles f g = Some a \<and> \<not> a_isRead a")
  case True
  then obtain a where a: "f_articles f g = Some a" "\<not> a_isRead a" by auto
  show ?thesis
    by (rule change_read_inv [OF assms a])
      (simp_all add: markArticleAsRead_def handleArticleRead_def decreaseUnreadCount_def removal_def a)
qed (use assms in \<open>auto simp: markArticleAsRead_def split: option.split\<close>)

lemma markAsRead_one_inv:
  assumes "feed_inv e f" and "g \<in> set (f_articlesByDate f)"
  shows "feed_inv e (markAsRead_one g f)" "f_articlesByDate (markAsRead_one g f) = f_articlesByDate f"
proof -
  obtain a where "f_articles f g = Some a" using assms by (auto simp: feed_inv_def)
  then have a: "f_articles f g = Some a" "article_at f g = a" by (simp_all add: article_at_def)
  show "feed_inv e (markAsRead_one g f)"
  proof (cases "a_isRead a")
    case False
    show ?thesis
      by (rule change_read_inv [OF assms(1) a(1) False])
        (simp_all add: markAsRead_one_def Let_def a(2) False removal_def)
  qed (use assms(1) a in \<open>simp add: markAsRead_one_def\<close>)
  show "f_articlesByDate (markAsRead_one g f) = f_articlesByDate f" by (simp add: markAsRead_one_def Let_def)
qed

lemma markAsRead_fold_inv: "feed_inv e f \<Longrightarrow> set gs \<subseteq> set (f_articlesByDate f) \<Longrightarrow> feed_inv e (fold markAsRead_one gs f)"
  by (induction gs arbitrary: f) (simp_all add: markAsRead_one_inv)

lemma markAsRead_inv:
  assumes "feed_inv e f" and "\<And>xs. set (hashOrder e xs) = set xs"
  shows "feed_inv e (markAsRead e f)"
proof -
  define f1 where "f1 = fold markAsRead_one (hashOrder e (f_articlesByDate f)) f"
  have i: "feed_inv e f1" unfolding f1_def by (rule markAsRead_fold_inv [OF assms(1)]) (simp add: assms(2))
  have "same_articles f1 (send UnreadCountChanged (feed_store e (f1\<lparr>f_dirty := True\<rparr>)))"
    by (simp add: same_articles_def feed_store_def removal_def)
  from same_articles_inv [OF this i] i show ?thesis by (simp add: markAsRead_def Let_def f1_def)
qed

lemma max_changed_inv:
  assumes "feed_inv e f" and "handleMaxArticlesPerFeedChanged n f = Some f'"
  shows "feed_inv e f' \<and> int (length (f_articlesByDate f')) \<le> n"
  using assms
proof (induction n f rule: handleMaxArticlesPerFeedChanged.induct)
  case (1 n f)
  show ?case
  proof (cases "int (length (f_articlesByDate f)) > n")
    case True
    then have ne: "f_articlesByDate f \<noteq> []" using "1.prems"(2) by (auto simp: handleMaxArticlesPerFeedChanged.simps [of n f] split: if_splits)
    then show ?thesis using "1.IH" [OF True ne remove_inv(1) [OF "1.prems"(1) ne]] "1.prems"(2) True
      by (simp add: handleMaxArticlesPerFeedChanged.simps [of n f])
  qed (use "1.prems" in \<open>simp add: handleMaxArticlesPerFeedChanged.simps [of n f]\<close>)
qed

text \<open>The limit can be changed to any number that is not negative; a negative one has no result.\<close>

lemma max_changed_returns: "0 \<le> n \<Longrightarrow> \<exists>f'. handleMaxArticlesPerFeedChanged n f = Some f'"
  by (induction n f rule: handleMaxArticlesPerFeedChanged.induct)
    (auto simp: handleMaxArticlesPerFeedChanged.simps)

lemma negative_limit_fails: "n < 0 \<Longrightarrow> handleMaxArticlesPerFeedChanged n f = None"
  by (induction n f rule: handleMaxArticlesPerFeedChanged.induct)
    (subst handleMaxArticlesPerFeedChanged.simps, simp)

section \<open>Keeping the most recent\<close>

definition top_add :: "('a \<Rightarrow> 'b::linorder) \<Rightarrow> int \<Rightarrow> 'a \<Rightarrow> 'a list \<Rightarrow> 'a list" where
  "top_add key n x xs =
     (let pos = length (takeWhile (\<lambda>y. key x < key y) xs) in
      if int pos \<ge> n then xs
      else (let ys = take pos xs @ x # drop pos xs in if int (length ys) > n then butlast ys else ys))"

text \<open>\<open>xs\<close> holds the \<open>n\<close> greatest of \<open>A\<close>.\<close>

definition top_of :: "('a \<Rightarrow> 'b::linorder) \<Rightarrow> int \<Rightarrow> 'a set \<Rightarrow> 'a list \<Rightarrow> bool" where
  "top_of key n A xs \<longleftrightarrow> finite A \<and> distinct xs \<and> sorted_wrt (\<lambda>a b. key b \<le> key a) xs \<and> set xs \<subseteq> A
     \<and> int (length xs) = min n (int (card A)) \<and> (\<forall>d \<in> A - set xs. \<forall>k \<in> set xs. key d \<le> key k)"

lemma top_of_full: "top_of key n A xs \<Longrightarrow> int (length xs) < n \<Longrightarrow> set xs = A"
  unfolding top_of_def by (metis card_subset_eq distinct_card min.strict_coboundedI1 min_def nat_int_comparison(1) order_less_irrefl)

lemma takeWhile_position:
  assumes "sorted_wrt (\<lambda>a b. key b \<le> key a) xs" and "y \<in> set (drop (length (takeWhile (\<lambda>y. (d::'b::linorder) < key y) xs)) xs)"
  shows "key y \<le> d"
proof -
  have "y \<in> set (dropWhile (\<lambda>y. d < key y) xs)" using assms(2) by (simp add: dropWhile_eq_drop)
  then show ?thesis using assms(1)
  proof (induction xs)
    case (Cons x xs)
    then show ?case by (cases "d < key x") (auto intro: order_trans simp: not_less)
  qed simp
qed

lemma top_add_step:
  fixes key :: "'a \<Rightarrow> 'b::linorder"
  assumes t: "top_of key n A xs" and x: "x \<notin> A"
  shows "top_of key n (insert x A) (top_add key n x xs)"
proof -
  define pos where "pos = length (takeWhile (\<lambda>y. key x < key y) xs)"
  define ys where "ys = take pos xs @ x # drop pos xs"
  have A: "finite A" "distinct xs" "sorted_wrt (\<lambda>a b. key b \<le> key a) xs" "set xs \<subseteq> A" "int (length xs) = min n (int (card A))"
    and low: "\<And>d k. d \<in> A \<Longrightarrow> d \<notin> set xs \<Longrightarrow> k \<in> set xs \<Longrightarrow> key d \<le> key k"
    using t by (auto simp: top_of_def)
  have card: "card (insert x A) = Suc (card A)" using A(1) x by simp
  have xs: "x \<notin> set xs" using A(4) x by auto
  note ys = insert_at_parts [of pos xs x, folded ys_def]
  have sorted: "sorted_wrt (\<lambda>a b. key b \<le> key a) ys"
    unfolding ys_def pos_def takeWhile_eq_take [symmetric] dropWhile_eq_drop [symmetric] by (rule sorted_insert [OF A(3)])
  have pos: "pos \<le> length xs" by (simp add: pos_def length_takeWhile_le)
  consider (no) "int pos \<ge> n" | (room) "int pos < n" "int (length xs) < n" | (full) "int pos < n" "int (length xs) = n"
    using A(5) by linarith
  then show ?thesis
  proof cases
    case no
    then have all: "pos = length xs" "int (length xs) = n" using pos A(5) by linarith+
    then have "takeWhile (\<lambda>y. key x < key y) xs = xs" by (metis pos_def takeWhile_eq_take take_all order_refl)
    then have "\<forall>y \<in> set xs. key x < key y" by (metis set_takeWhileD)
    moreover have "top_add key n x xs = xs" using no by (simp add: top_add_def Let_def pos_def)
    ultimately show ?thesis using A low card all by (auto simp: top_of_def)
  next
    case room
    then have "top_add key n x xs = ys" using ys by (simp add: top_add_def Let_def pos_def ys_def)
    moreover have "set xs = A" using top_of_full [OF t room(2)] .
    ultimately show ?thesis using room A xs ys sorted card distinct_card [OF A(2)] by (auto simp: top_of_def)
  next
    case full
    then have r: "top_add key n x xs = butlast ys" using ys by (simp add: top_add_def Let_def pos_def ys_def)
    obtain zs z where z: "ys = zs @ [z]" using ys(3) by (metis Zero_not_Suc list.size(3) rev_exhaust)
    have zs: "set zs = insert x (set xs) - {z}" "distinct zs" "z \<notin> set zs" "length zs = length xs"
      using ys A(2) xs z by auto
    have lz: "key z \<le> key k" if "k \<in> set zs" for k using sorted that by (simp add: z sorted_wrt_append)
    obtain y where y: "y \<in> set xs" "key y \<le> key x"
    proof -
      have "pos < length xs" using full by simp
      then have "xs ! pos \<in> set (drop pos xs)" by (metis Cons_nth_drop_Suc list.set_intros(1))
      then show thesis using takeWhile_position [OF A(3), of "xs ! pos" "key x"] that by (metis in_set_dropD pos_def)
    qed
    have "key d \<le> key k" if "d \<in> insert x A" "d \<notin> set zs" "k \<in> set zs" for d k
    proof (cases "d = z")
      case False
      then have d: "d \<in> A" "d \<notin> set xs" "d \<noteq> x" using that zs(1) by auto
      show ?thesis
      proof (cases "k = x")
        case True
        then show ?thesis using low [OF d(1,2) y(1)] y(2) by simp
      qed (use that(3) zs(1) low [OF d(1,2)] in auto)
    qed (use lz that in auto)
    moreover have "sorted_wrt (\<lambda>a b. key b \<le> key a) zs" using sorted by (simp add: z sorted_wrt_append)
    ultimately show ?thesis using r z zs A full card by (auto simp: top_of_def)
  qed
qed

lemma top_adds:
  assumes "top_of key n A xs" and "distinct ys" and "set ys \<inter> A = {}"
  shows "top_of key n (A \<union> set ys) (fold (top_add key n) ys xs)"
  using assms
proof (induction ys arbitrary: A xs)
  case (Cons y ys)
  have "top_of key n (insert y A) (top_add key n y xs)" using top_add_step Cons.prems by auto
  from Cons.IH [OF this] Cons.prems show ?case by (simp add: Un_commute)
qed simp

text \<open>
  What is below \<open>n\<close> others is not among the \<open>n\<close> greatest.
\<close>

lemma top_of_extra:
  assumes "top_of key n A xs" and "n \<le> int (card {a \<in> A. c \<le> key a})" and "k \<in> set xs"
  shows "c \<le> key k"
proof (rule ccontr)
  assume neg: "\<not> c \<le> key k"
  have A: "finite A" "distinct xs" "set xs \<subseteq> A" "int (length xs) \<le> n" "\<And>d. d \<in> A - set xs \<Longrightarrow> key d \<le> key k"
    using assms(1,3) by (auto simp: top_of_def)
  have "insert k {a \<in> A. c \<le> key a} \<subseteq> set xs"
  proof
    fix a
    assume "a \<in> insert k {a \<in> A. c \<le> key a}"
    then show "a \<in> set xs" using A(5) [of a] neg assms(3) by (metis (no_types, lifting) DiffI insertE mem_Collect_eq order_trans)
  qed
  then have "card (insert k {a \<in> A. c \<le> key a}) \<le> length xs" by (metis A(2) List.finite_set card_mono distinct_card)
  moreover have "card (insert k {a \<in> A. c \<le> key a}) = Suc (card {a \<in> A. c \<le> key a})" using A(1) neg by simp
  ultimately show False using assms(2) A(4) by linarith
qed

section \<open>Updating a feed keeps its most recent articles\<close>

definition article_id :: "rss_env \<Rightarrow> article_data \<Rightarrow> qstring" where
  "article_id e a = variant_toString e (value_of a KeyId)"

definition dated :: "feed \<Rightarrow> (qstring \<times> int option) list" where
  "dated f = map (\<lambda>g. (g, a_date (article_at f g))) (f_articlesByDate f)"

definition stamp :: "rss_env \<Rightarrow> article_data \<Rightarrow> qstring \<times> int option" where
  "stamp e a = (article_id e a, toDateTime e (value_of a KeyDate))"

lemma set_dated: "feed_inv e f \<Longrightarrow> (g, t) \<in> set (dated f) \<Longrightarrow> f_articles f g \<noteq> None"
  by (auto simp: dated_def feed_inv_def)

lemma addArticle_dated:
  assumes "feed_inv e f" and "f_articles f (article_id e d) = None"
  shows "dated (snd (addArticle e n d f)) = top_add snd n (stamp e d) (dated f)"
proof -
  define g where "g = article_id e d"
  define t where "t = toDateTime e (value_of d KeyDate)"
  define pos where "pos = lower_bound f t"
  define gs where "gs = take pos (f_articlesByDate f) @ g # drop pos (f_articlesByDate f)"
  define at where "at = (\<lambda>h. (h, if h = g then t else a_date (article_at f h)))"
  have g: "g \<notin> set (f_articlesByDate f)" "distinct (f_articlesByDate f)" using assms by (auto simp: g_def feed_inv_def)
  have gs: "distinct gs" "length gs = Suc (length (f_articlesByDate f))" using insert_at_parts [of pos "f_articlesByDate f" g] g by (simp_all add: gs_def)
  have p: "length (takeWhile (\<lambda>y. snd (stamp e d) < snd y) (dated f)) = pos"
    by (simp add: dated_def takeWhile_map comp_def pos_def lower_bound_def stamp_def t_def)
  have old: "map at xs = map (\<lambda>h. (h, a_date (article_at f h))) xs" if "set xs \<subseteq> set (f_articlesByDate f)" for xs
    using that g by (auto simp: at_def)
  have ins: "map at gs = take pos (dated f) @ stamp e d # drop pos (dated f)"
    using old [OF set_take_subset] old [OF set_drop_subset]
    by (simp add: gs_def dated_def take_map drop_map stamp_def g_def t_def) (simp add: at_def g_def t_def)
  have a: "mkArticle e d = a \<Longrightarrow> a_guid a = g \<and> a_date a = t" for a by (auto simp: mkArticle_def g_def t_def article_id_def)
  show ?thesis
  proof (cases "int pos \<ge> n")
    case True
    then show ?thesis by (simp add: addArticle_def Let_def top_add_def p pos_def t_def)
  next
    case False
    define f3 where "f3 = send (NewArticle g) ((if \<not> a_isRead (mkArticle e d)
        then increaseUnreadCount (f\<lparr>f_articles := (f_articles f)(g \<mapsto> mkArticle e d), f_articlesByDate := gs\<rparr>)
        else f\<lparr>f_articles := (f_articles f)(g \<mapsto> mkArticle e d), f_articlesByDate := gs\<rparr>)\<lparr>f_dirty := True\<rparr>)"
    have r: "snd (addArticle e n d f) = (if int (length gs) > n then removeOldestArticle f3 else f3)"
      using False a [OF refl] by (simp add: addArticle_def Let_def f3_def gs_def pos_def t_def increaseUnreadCount_def)
    have f3: "f_articlesByDate f3 = gs" "(\<lambda>h. (h, a_date (article_at f3 h))) = at"
      using a [OF refl] by (auto simp: f3_def increaseUnreadCount_def at_def article_at_def)
    have top: "top_add snd n (stamp e d) (dated f) = (if int (length gs) > n then butlast (map at gs) else map at gs)"
      unfolding top_add_def Let_def p insert_at_parts(3) ins using False gs(2) by (simp add: dated_def)
    have "dated (removeOldestArticle f3) = butlast (map at gs)"
    proof -
      have "f_articlesByDate (removeOldestArticle f3) = butlast gs"
        "article_at (removeOldestArticle f3) h = article_at f3 h" if "h \<in> set (butlast gs)" for h
      proof -
        have "h \<noteq> last gs" using that gs(1) by (cases gs rule: rev_cases) auto
        then show "f_articlesByDate (removeOldestArticle f3) = butlast gs" "article_at (removeOldestArticle f3) h = article_at f3 h"
          by (simp_all add: removeOldestArticle_def Let_def decreaseUnreadCount_def f3(1) article_at_def)
      qed
      moreover have "f_articlesByDate (removeOldestArticle f3) = butlast gs"
        by (simp add: removeOldestArticle_def Let_def decreaseUnreadCount_def f3(1))
      ultimately have "dated (removeOldestArticle f3) = map (\<lambda>h. (h, a_date (article_at f3 h))) (butlast gs)"
        by (simp add: dated_def)
      then show ?thesis by (simp add: f3(2) map_butlast)
    qed
    then show ?thesis using r top f3 by (simp add: dated_def)
  qed
qed

lemma add_items:
  assumes "feed_inv e f" and "distinct (map (article_id e) (List.map_filter snd items))"
    and "\<forall>a \<in> set (List.map_filter snd items). f_articles f (article_id e a) = None"
    and "fold (add_item e n) items (k, f) = (k', f')"
  shows "feed_inv e f' \<and> dated f' = fold (top_add snd n) (map (stamp e) (List.map_filter snd items)) (dated f)"
  using assms
proof (induction items arbitrary: k f)
  case Nil
  then show ?case by (simp add: List.map_filter_def)
next
  case (Cons item items)
  obtain t o' where item: "item = (t, o')" by fastforce
  show ?case
  proof (cases o')
    case None
    then show ?thesis using Cons by (simp add: item add_item_def map_filter_simps)
  next
    case (Some a)
    let ?f = "snd (addArticle e n a f)"
    have a: "f_articles f (article_id e a) = None" using Cons.prems(3) by (simp add: item Some map_filter_simps)
    have i: "feed_inv e ?f" by (rule addArticle_inv [OF Cons.prems(1)]) (use a in \<open>simp add: article_id_def\<close>)
    have "\<forall>b \<in> set (List.map_filter snd items). f_articles ?f (article_id e b) = None"
    proof
      fix b
      assume b: "b \<in> set (List.map_filter snd items)"
      then have "article_id e b \<noteq> article_id e a" using Cons.prems(2) by (simp add: item Some map_filter_simps) (metis imageI)
      then show "f_articles ?f (article_id e b) = None"
        using Cons.prems(3) b by (intro addArticle_dom) (auto simp: item Some map_filter_simps article_id_def)
    qed
    from Cons.IH [OF i _ this] show ?thesis
      using Cons.prems(2,4) addArticle_dated [OF Cons.prems(1) a] by (auto simp: item Some map_filter_simps add_item_def)
  qed
qed

lemma new_articles_ids:
  "article_id e ` set (new_articles e f d as) \<subseteq> article_id e ` set as"
  "a \<in> set (new_articles e f d as) \<Longrightarrow> f_articles f (article_id e a) = None"
  "distinct (map (article_id e) as) \<Longrightarrow> distinct (map (article_id e) (new_articles e f d as))"
proof (induction as arbitrary: d)
  case (Cons b as)
  have id: "article_id e (b(KeyDate \<mapsto> x)) = article_id e b" for x by (simp add: article_id_def value_of_def key_defs)
  { case 1
    show ?case using Cons.IH(1) id by (auto split: option.split)
  next
    case 2
    then show ?case using Cons.IH(2) id by (auto split: option.splits if_splits simp: article_id_def)
  next
    case 3
    then have "distinct (map (article_id e) (new_articles e f x as))" "article_id e b \<notin> article_id e ` set (new_articles e f x as)" for x
      using Cons.IH(1,3) by auto
    then show ?case using id by (auto split: option.split) }
qed simp_all

lemma map_filter_mset: "length (List.map_filter snd xs) + size {#x \<in># mset xs. snd x = None#} = length xs"
  by (induction xs) (auto simp: map_filter_simps split: option.split)

lemma map_filter_set: "b \<in> set (List.map_filter snd xs) \<longleftrightarrow> (\<exists>t. (t, Some b) \<in> set xs)"
  by (force simp: List.map_filter_def)

lemma map_filter_mset_image: "mset (List.map_filter h zs) = image_mset (the \<circ> h) {#x \<in># mset zs. h x \<noteq> None#}"
  by (simp only: List.map_filter_def mset_map mset_filter)

lemma map_filter_perm: "mset xs = mset ys \<Longrightarrow> mset (List.map_filter h xs) = mset (List.map_filter h ys)"
proof -
  assume "mset xs = mset ys"
  then have "image_mset (the \<circ> h) {#x \<in># mset xs. h x \<noteq> None#} = image_mset (the \<circ> h) {#x \<in># mset ys. h x \<noteq> None#}"
    by (rule arg_cong)
  then show ?thesis unfolding map_filter_mset_image .
qed

lemma map_filter_append: "List.map_filter h (xs @ ys) = List.map_filter h xs @ List.map_filter h ys"
  by (simp add: List.map_filter_def)

lemma map_filter_rev: "List.map_filter h (rev xs) = rev (List.map_filter h xs)"
  by (simp add: List.map_filter_def rev_filter rev_map)

lemma cut_count:
  fixes c :: "int option"
  assumes items: "mset items = mset (map (\<lambda>p. (snd p, None)) old @ map (\<lambda>a. (d a, Some a)) new)"
    and "sorted_wrt (\<lambda>a b. fst b \<le> fst a) items"
    and "a \<in> set new" and "a \<notin> set (List.map_filter snd (take n items))"
  shows "n \<le> length (filter (\<lambda>p. d a \<le> snd p) old) + length (List.map_filter snd (take n items))"
    and "\<forall>b \<in> set (List.map_filter snd (take n items)). d a \<le> d b"
proof -
  let ?P = "\<lambda>x. d a \<le> fst x \<and> snd x = None"
  have "(d a, Some a) \<in># mset items" using assms(3) by (simp add: items)
  then have "(d a, Some a) \<in> set items" by simp
  moreover have "(d a, Some a) \<notin> set (take n items)" using assms(4) by (force simp: map_filter_set)
  ultimately have "(d a, Some a) \<in> set (drop n items)" by (metis Un_iff append_take_drop_id set_append)
  then have ge: "d a \<le> fst x" if "x \<in> set (take n items)" for x
    using that assms(2) by (metis append_take_drop_id fst_conv sorted_wrt_append)
  have full: "length (take n items) = n" using \<open>(d a, Some a) \<in> set (drop n items)\<close>
    by (metis drop_all length_take list.distinct(1) list.set_cases min.absorb2 nat_le_linear)
  have none: "{#x \<in># mset (take n items). snd x = None#} = {#x \<in># mset (take n items). ?P x#}"
    by (rule filter_mset_cong) (use ge in auto)
  have "mset (take n items) \<subseteq># mset items" by (metis append_take_drop_id mset_append mset_subset_eq_add_left)
  then have "size {#x \<in># mset (take n items). ?P x#} \<le> size {#x \<in># mset items. ?P x#}"
    by (intro size_mset_mono multiset_filter_mono)
  also have "size {#x \<in># mset items. ?P x#} = length (filter (\<lambda>p. d a \<le> snd p) old)"
    unfolding items mset_filter [symmetric] size_mset by (simp add: filter_map comp_def)
  finally have "size {#x \<in># mset (take n items). snd x = None#} \<le> length (filter (\<lambda>p. d a \<le> snd p) old)"
    by (simp only: none)
  then show "n \<le> length (filter (\<lambda>p. d a \<le> snd p) old) + length (List.map_filter snd (take n items))"
    using map_filter_mset [of "take n items"] full by linarith
  show "\<forall>b \<in> set (List.map_filter snd (take n items)). d a \<le> d b"
  proof
    fix b
    assume "b \<in> set (List.map_filter snd (take n items))"
    then obtain t where t: "(t, Some b) \<in> set (take n items)" by (auto simp: map_filter_set)
    then have "(t, Some b) \<in># mset items" by (metis in_set_takeD set_mset_mset)
    then have "t = d b" by (auto simp: items)
    then show "d a \<le> d b" using ge [OF t] by simp
  qed
qed

lemma cut_parts:
  assumes "mset items = mset (map (\<lambda>p. (snd p, None)) old @ map (\<lambda>a. (d a, Some a)) new)" and "distinct new"
  shows "set (List.map_filter snd (take n items)) \<subseteq> set new" "distinct (List.map_filter snd (take n items))"
proof -
  show "set (List.map_filter snd (take n items)) \<subseteq> set new"
  proof
    fix a
    assume "a \<in> set (List.map_filter snd (take n items))"
    then obtain t where "(t, Some a) \<in> set items" by (auto simp: map_filter_set dest: in_set_takeD)
    then have "(t, Some a) \<in># mset items" by simp
    then show "a \<in> set new" by (auto simp: assms(1))
  qed
  have "mset (List.map_filter snd items) = mset (List.map_filter snd (map (\<lambda>p. (snd p, None)) old @ map (\<lambda>a. (d a, Some a)) new))"
    by (rule map_filter_perm [OF assms(1)])
  also have "\<dots> = mset new" by (simp add: List.map_filter_def filter_map comp_def)
  finally have "distinct (List.map_filter snd items)" using assms(2) by (metis mset_eq_imp_distinct_iff)
  then show "distinct (List.map_filter snd (take n items))" by (metis append_take_drop_id distinct_append map_filter_append)
qed

text \<open>More candidates, each below \<open>n\<close> of those considered.\<close>

lemma top_of_widen:
  assumes "top_of key n A xs" and "A \<subseteq> B" and "finite B"
    and "\<And>b. b \<in> B \<Longrightarrow> b \<notin> A \<Longrightarrow> n \<le> int (card {x \<in> A. key b \<le> key x})"
  shows "top_of key n B xs"
proof (cases "B = A")
  case False
  then obtain b where b: "b \<in> B" "b \<notin> A" using assms(2) by auto
  have A: "finite A" "distinct xs" "sorted_wrt (\<lambda>a b. key b \<le> key a) xs" "set xs \<subseteq> A" "int (length xs) = min n (int (card A))"
    and low: "\<And>d k. d \<in> A \<Longrightarrow> d \<notin> set xs \<Longrightarrow> k \<in> set xs \<Longrightarrow> key d \<le> key k"
    using assms(1) by (auto simp: top_of_def)
  have "card {x \<in> A. key b \<le> key x} \<le> card A" "card A \<le> card B" using A(1) assms(2,3) by (auto intro: card_mono)
  then have "n \<le> int (card A)" "n \<le> int (card B)" using assms(4) [OF b] by linarith+
  moreover have "key x \<le> key k" if "x \<in> B" "x \<notin> set xs" "k \<in> set xs" for x k
    using low [of x k] top_of_extra [OF assms(1) assms(4) [OF that(1)] that(3)] that by (cases "x \<in> A") simp_all
  ultimately show ?thesis using A assms(2,3) unfolding top_of_def by auto
qed (use assms(1) in simp)

lemma cut_many:
  assumes "mset items = mset (map (\<lambda>p. (snd p, None)) old @ map (\<lambda>a. (snd (st a), Some a)) new)"
    and "sorted_wrt (\<lambda>a b. fst b \<le> fst (a :: int option \<times> 'a option)) items"
    and "distinct old" and "distinct (map st new)" and "set old \<inter> st ` set new = {}"
    and "a \<in> set new" and "a \<notin> set (List.map_filter snd (take n items))"
  shows "n \<le> card {x \<in> set old \<union> st ` set (List.map_filter snd (take n items)). snd (st a) \<le> snd x}"
proof -
  define added where "added = List.map_filter snd (take n items)"
  let ?c = "snd (st a)" and ?old = "filter (\<lambda>p. snd (st a) \<le> snd p) old" and ?A = "set old \<union> st ` set added"
  note count = cut_count [OF assms(1,2,6,7), folded added_def]
  have "distinct new" using assms(4) by (simp add: distinct_map)
  note parts = cut_parts [OF assms(1) this, of n, folded added_def]
  have "distinct (map st added)" using parts assms(4) by (auto simp: distinct_map intro: inj_on_subset)
  then have "card (st ` set added) = length added" by (metis distinct_card length_map list.set_map)
  moreover have "card (set ?old) = length ?old" using assms(3) by (metis distinct_card distinct_filter)
  moreover have "set ?old \<inter> st ` set added = {}" using assms(5) parts(1) by auto
  ultimately have "card (set ?old \<union> st ` set added) = length ?old + length added"
    by (metis List.finite_set card_Un_disjoint finite_imageI)
  moreover have "card (set ?old \<union> st ` set added) \<le> card {x \<in> ?A. ?c \<le> snd x}"
    using count(2) by (intro card_mono) auto
  ultimately show ?thesis using count(1) by (simp add: added_def)
qed

lemma updateArticles_top:
  assumes "feed_inv e f" and "int (length (f_articlesByDate f)) \<le> int n"
    and "sorts (\<lambda>a b. fst b < fst a) srt" and "distinct (map (article_id e) loaded)"
    and "f' = snd (updateArticles e srt now (int n) loaded f)"
  shows "feed_inv e f' \<and> top_of snd (int n) (set (dated f) \<union> stamp e ` set (new_articles e f (Some now) loaded)) (dated f')"
proof -
  define new where "new = new_articles e f (Some now) loaded"
  define items where "items = srt (map (\<lambda>p. (snd p, None)) (dated f) @ map (\<lambda>a. (snd (stamp e a), Some a)) new)"
  define added where "added = List.map_filter snd (take n items)"
  have old: "distinct (dated f)" "length (dated f) = length (f_articlesByDate f)" "sorted_wrt (\<lambda>a b. snd b \<le> snd a) (dated f)"
    using assms(1) by (auto simp: dated_def feed_inv_def distinct_map inj_on_def by_date_def sorted_wrt_map)
  have top0: "top_of snd (int n) (set (dated f)) (dated f)" using old assms(2) by (simp add: top_of_def distinct_card)
  have m: "mset items = mset (map (\<lambda>p. (snd p, None)) (dated f) @ map (\<lambda>a. (snd (stamp e a), Some a)) new)"
    and s: "sorted_wrt (\<lambda>a b. fst b \<le> fst a) items"
    using assms(3) by (simp_all add: sorts_def items_def not_less)
  have ids: "distinct (map (article_id e) new)" "\<And>a. a \<in> set new \<Longrightarrow> f_articles f (article_id e a) = None"
    using new_articles_ids(3) [OF assms(4)] new_articles_ids(2) by (auto simp: new_def)
  have stamps: "distinct (map (stamp e) new)" "set (dated f) \<inter> stamp e ` set new = {}"
    using ids set_dated [OF assms(1)] by (auto simp: distinct_map inj_on_def stamp_def) (metis option.distinct(1))
  note parts = cut_parts [OF m, of n, folded added_def] 
  have new: "set added \<subseteq> set new" "distinct (map (article_id e) added)" "distinct (map (stamp e) added)"
    using parts ids(1) stamps(1) by (auto simp: distinct_map intro: inj_on_subset)
  have run: "feed_inv e f' \<and> dated f' = fold (top_add snd (int n)) (map (stamp e) (rev added)) (dated f)"
  proof (cases "new = []")
    case True
    then show ?thesis using assms(1,5) new(1) by (simp add: updateArticles_def flip: new_def)
  next
    case False
    have sorted: "map (\<lambda>g. (a_date (article_at f g), None)) (f_articlesByDate f) = map (\<lambda>p. (snd p, None)) (dated f)"
      "map (\<lambda>a. (toDateTime e (value_of a KeyDate), Some a)) new = map (\<lambda>a. (snd (stamp e a), Some a)) new"
      by (simp_all add: dated_def stamp_def)
    have "f' = snd (fold (add_item e (int n)) (rev (take n items)) (0, f))"
      using False unfolding assms(5) updateArticles_def Let_def new_def [symmetric] sorted items_def [symmetric] by simp
    then have "fold (add_item e (int n)) (rev (take n items)) (0, f) = (fst (fold (add_item e (int n)) (rev (take n items)) (0, f)), f')" by simp
    from add_items [OF assms(1) _ _ this] show ?thesis
      using new ids(2) by (auto simp: map_filter_rev distinct_rev simp flip: rev_map added_def)
  qed
  have "top_of snd (int n) (set (dated f) \<union> stamp e ` set added) (dated f')"
  proof -
    have "distinct (map (stamp e) (rev added))" using new(3) by (simp add: distinct_rev flip: rev_map)
    moreover have "set (map (stamp e) (rev added)) \<inter> set (dated f) = {}" using new(1) stamps(2) by auto
    ultimately show ?thesis using top_adds [OF top0, of "map (stamp e) (rev added)"] run by simp
  qed
  then have "top_of snd (int n) (set (dated f) \<union> stamp e ` set new) (dated f')"
  proof (rule top_of_widen)
    fix b
    assume "b \<in> set (dated f) \<union> stamp e ` set new" and "b \<notin> set (dated f) \<union> stamp e ` set added"
    then obtain a where "a \<in> set new" "a \<notin> set added" "b = stamp e a" by blast
    then show "int n \<le> int (card {x \<in> set (dated f) \<union> stamp e ` set added. snd b \<le> snd x})"
      using cut_many [OF m s old(1) stamps, of a n] by (simp add: added_def)
  qed (use new(1) in auto)
  then show ?thesis using run by (simp add: new_def)
qed

text \<open>
  C15. After an update a feed holds the most recent of the articles it had and the new ones, as many as the limit
  allows, the most recent first: none that is missing is more recent than one that is there.
\<close>

theorem newest_articles_kept:
  assumes "feed_inv e f" and "int (length (f_articlesByDate f)) \<le> int n"
    and "sorts (\<lambda>a b. fst b < fst a) srt" and "distinct (map (article_id e) loaded)"
  shows "top_of snd (int n) (set (dated f) \<union> stamp e ` set (new_articles e f (Some now) loaded))
    (dated (snd (updateArticles e srt now (int n) loaded f)))"
  using updateArticles_top [OF assms refl] by blast

end
