(* ===== verification/Rss_Dates.thy ===== *)
theory Rss_Dates
  imports Prelude
begin

text \<open>
  The dates of RSS feeds, \<^verbatim>\<open>parseDate\<close> in \<^verbatim>\<open>src/src/base/rss/rss_parser.cpp\<close>. Its
  three regular expressions are scanners here, which is what they amount to: no part of them can match in two ways.
  A date is a number of milliseconds since 1970, or invalid. \<^verbatim>\<open>QDate\<close> is the Gregorian calendar; a
  \<^verbatim>\<open>QDateTime\<close> made of a valid date and a time out of range is at midnight.
\<close>

section \<open>The calendar\<close>

definition is_leap :: "int \<Rightarrow> bool" where
  "is_leap y \<longleftrightarrow> 4 dvd y \<and> (\<not> 100 dvd y \<or> 400 dvd y)"

definition month_days :: "int \<Rightarrow> int list" where
  "month_days y = [31, if is_leap y then 29 else 28, 31, 30, 31, 30, 31, 31, 30, 31, 30, 31]"

definition date_valid :: "int \<Rightarrow> int \<Rightarrow> int \<Rightarrow> bool" where
  "date_valid y m d \<longleftrightarrow> 1 \<le> y \<and> 1 \<le> m \<and> m \<le> 12 \<and> 1 \<le> d \<and> d \<le> month_days y ! nat (m - 1)"

definition days_since_epoch :: "int \<Rightarrow> int \<Rightarrow> int \<Rightarrow> int" where
  "days_since_epoch y m d =
     365 * (y - 1) + (y - 1) div 4 - (y - 1) div 100 + (y - 1) div 400 + sum_list (take (nat (m - 1)) (month_days y)) + d - 719163"

definition time_valid :: "int \<Rightarrow> int \<Rightarrow> int \<Rightarrow> bool" where
  "time_valid h m s \<longleftrightarrow> 0 \<le> h \<and> h < 24 \<and> 0 \<le> m \<and> m < 60 \<and> 0 \<le> s \<and> s < 60"

definition utc_seconds :: "int \<Rightarrow> int \<Rightarrow> int \<Rightarrow> int \<Rightarrow> int \<Rightarrow> int \<Rightarrow> int" where
  "utc_seconds y mo d h mi s =
     86400 * days_since_epoch y mo d + (if time_valid h mi s then 3600 * h + 60 * mi + s else 0)"

section \<open>The expressions\<close>

definition is_lower :: "char \<Rightarrow> bool" where
  "is_lower c \<longleftrightarrow> 97 \<le> (of_char c :: nat) \<and> (of_char c :: nat) \<le> 122"

definition is_capital :: "char \<Rightarrow> bool" where
  "is_capital c \<longleftrightarrow> 65 \<le> (of_char c :: nat) \<and> (of_char c :: nat) \<le> 90"

definition is_alpha :: "char \<Rightarrow> bool" where
  "is_alpha c \<longleftrightarrow> is_capital c \<or> is_lower c"

fun decimal_value :: "qstring \<Rightarrow> int" where
  "decimal_value s = foldl (\<lambda>n c. 10 * n + (of_char c - 48)) 0 s"

text \<open>Between \<open>lo\<close> and \<open>hi\<close> digits, as many as there are.\<close>

definition scan_digits :: "nat \<Rightarrow> nat \<Rightarrow> qstring \<Rightarrow> (qstring \<times> qstring) option" where
  "scan_digits lo hi s =
     (let ds = takeWhile is_digit (take hi s) in if lo \<le> length ds then Some (ds, drop (length ds) s) else None)"

definition scan_some :: "(char \<Rightarrow> bool) \<Rightarrow> qstring \<Rightarrow> (qstring \<times> qstring) option" where
  "scan_some P s = (if takeWhile P s = [] then None else Some (takeWhile P s, dropWhile P s))"

definition scan_char :: "char \<Rightarrow> qstring \<Rightarrow> qstring option" where
  "scan_char c s = (case s of [] \<Rightarrow> None | x # xs \<Rightarrow> if x = c then Some xs else None)"

definition scan_name :: "qstring \<Rightarrow> (qstring \<times> qstring) option" where
  "scan_name s =
     (case s of [] \<Rightarrow> None
      | c # cs \<Rightarrow> if is_capital c \<and> takeWhile is_lower cs \<noteq> [] then Some (c # takeWhile is_lower cs, dropWhile is_lower cs) else None)"

definition scan_separator :: "qstring \<Rightarrow> (qstring \<times> qstring) option" where
  "scan_separator s =
     (case scan_some c_isspace s of Some r \<Rightarrow> Some r | None \<Rightarrow> map_option (\<lambda>r. (''-'', r)) (scan_char (CHR ''-'') s))"

record date_parts =
  dp_wday :: qstring
  dp_day :: qstring
  dp_sep1 :: qstring
  dp_month :: qstring
  dp_sep2 :: qstring
  dp_year :: qstring
  dp_hour :: qstring
  dp_min :: qstring
  dp_sec :: qstring
  dp_zone :: "qstring option"

abbreviation bind_opt :: "'a option \<Rightarrow> ('a \<Rightarrow> 'b option) \<Rightarrow> 'b option" where
  "bind_opt \<equiv> Option.bind"

text \<open>The weekday with its comma, if there is one.\<close>

definition scan_weekday :: "qstring \<Rightarrow> qstring \<times> qstring" where
  "scan_weekday s =
     (case scan_name s of None \<Rightarrow> ([], s)
      | Some (name, r) \<Rightarrow> (case scan_char (CHR '','') r of None \<Rightarrow> ([], s) | Some r \<Rightarrow> (name, dropWhile c_isspace r)))"

definition scan_time :: "qstring \<Rightarrow> ((qstring \<times> qstring) \<times> qstring) option" where
  "scan_time s =
     bind_opt (scan_digits 2 2 s) (\<lambda>(h, r). bind_opt (scan_char (CHR '':'') r) (\<lambda>r.
     map_option (\<lambda>(m, r). ((h, m), r)) (scan_digits 2 2 r)))"

definition scan_seconds :: "qstring \<Rightarrow> qstring \<times> qstring" where
  "scan_seconds s =
     (case scan_char (CHR '':'') s of None \<Rightarrow> ([], s)
      | Some r \<Rightarrow> (case scan_digits 2 2 r of None \<Rightarrow> ([], s) | Some (sec, r) \<Rightarrow> (sec, r)))"

text \<open>\<^verbatim>\<open>^(?:([A-Z][a-z]+),\\s*)?(\\d{1,2})(\\s+|-)([^-\\s]+)(\\s+|-)(\\d{2,4})\\s+(\\d\\d):(\\d\\d)(?::(\\d\\d))?\\s+(\\S+)$\<close>\<close>

definition scan_rfc822 :: "qstring \<Rightarrow> date_parts option" where
  "scan_rfc822 s =
     (case scan_weekday s of (wday, r) \<Rightarrow>
      bind_opt (scan_digits 1 2 r) (\<lambda>(day, r).
      bind_opt (scan_separator r) (\<lambda>(sep1, r).
      bind_opt (scan_some (\<lambda>c. \<not> c_isspace c \<and> c \<noteq> CHR ''-'') r) (\<lambda>(month, r).
      bind_opt (scan_separator r) (\<lambda>(sep2, r).
      bind_opt (scan_digits 2 4 r) (\<lambda>(year, r).
      bind_opt (scan_some c_isspace r) (\<lambda>(_, r).
      bind_opt (scan_time r) (\<lambda>((hour, minute), r).
      (case scan_seconds r of (sec, r) \<Rightarrow>
       bind_opt (scan_some c_isspace r) (\<lambda>(_, r).
       bind_opt (scan_some (\<lambda>c. \<not> c_isspace c) r) (\<lambda>(zone, r).
       if r = [] then Some \<lparr>dp_wday = wday, dp_day = day, dp_sep1 = sep1, dp_month = month, dp_sep2 = sep2, dp_year = year,
           dp_hour = hour, dp_min = minute, dp_sec = sec, dp_zone = Some zone\<rparr>
       else None))))))))))) "

text \<open>\<^verbatim>\<open>^([A-Z][a-z]+)\\s+(\\S+)\\s+(\\d\\d)\\s+(\\d\\d):(\\d\\d):(\\d\\d)\\s+(\\d\\d\\d\\d)$\<close>\<close>

definition scan_asctime :: "qstring \<Rightarrow> date_parts option" where
  "scan_asctime s =
     bind_opt (scan_name s) (\<lambda>(wday, r).
     bind_opt (scan_some c_isspace r) (\<lambda>(_, r).
     bind_opt (scan_some (\<lambda>c. \<not> c_isspace c) r) (\<lambda>(month, r).
     bind_opt (scan_some c_isspace r) (\<lambda>(_, r).
     bind_opt (scan_digits 2 2 r) (\<lambda>(day, r).
     bind_opt (scan_some c_isspace r) (\<lambda>(_, r).
     bind_opt (scan_time r) (\<lambda>((hour, minute), r).
     bind_opt (scan_char (CHR '':'') r) (\<lambda>r.
     bind_opt (scan_digits 2 2 r) (\<lambda>(sec, r).
     bind_opt (scan_some c_isspace r) (\<lambda>(_, r).
     bind_opt (scan_digits 4 4 r) (\<lambda>(year, r).
     if r = [] then Some \<lparr>dp_wday = wday, dp_day = day, dp_sep1 = [], dp_month = month, dp_sep2 = [], dp_year = year,
         dp_hour = hour, dp_min = minute, dp_sec = sec, dp_zone = None\<rparr>
     else None)))))))))))"

section \<open>Time zones\<close>

text \<open>
  The offset in seconds; \<open>None\<close> when the zone makes the date invalid.
  \<^verbatim>\<open>^([+-])(\\d\\d)(\\d\\d)$\<close> is a numeric zone.
\<close>

definition numeric_zone :: "qstring \<Rightarrow> (bool \<times> qstring \<times> qstring) option" where
  "numeric_zone z =
     (case z of [c, h1, h2, m1, m2] \<Rightarrow>
        if c \<in> {CHR ''+'', CHR ''-''} \<and> list_all is_digit [h1, h2, m1, m2] then Some (c = CHR ''-'', [h1, h2], [m1, m2]) else None
      | _ \<Rightarrow> None)"

definition zone_offset :: "qstring \<Rightarrow> int option" where
  "zone_offset z =
     (case numeric_zone z of
        Some (neg, hh, mm) \<Rightarrow>
          (let offsetMin = decimal_value mm in
           if offsetMin > 59 then None
           else (let offset = decimal_value hh * 3600 + offsetMin * 60 in Some (if neg then - offset else offset)))
      | None \<Rightarrow>
          if length z = 1 \<and> is_alpha (hd z) \<and> char_to_lower (hd z) \<noteq> CHR ''j'' then Some 0
          else if z = ''UT'' \<or> z = ''GMT'' then Some 0
          else
            (let offset =
               (if z = ''EDT'' then - 4 * 3600
                else if z = ''EST'' \<or> z = ''CDT'' then - 5 * 3600
                else if z = ''CST'' \<or> z = ''MDT'' then - 6 * 3600
                else if z = ''MST'' \<or> z = ''PDT'' then - 7 * 3600
                else if z = ''PST'' then - 8 * 3600 else 0)
             in if offset = 0 \<and> \<not> list_all is_alpha z then None else Some offset))"

section \<open>The parser of dates\<close>

definition shortMonth :: "qstring list" where
  "shortMonth = [''Jan'', ''Feb'', ''Mar'', ''Apr'', ''May'', ''Jun'', ''Jul'', ''Aug'', ''Sep'', ''Oct'', ''Nov'', ''Dec'']"

definition month_index :: "qstring \<Rightarrow> int" where
  "month_index name = int (length (takeWhile (\<lambda>m. m \<noteq> name) shortMonth))"

definition full_year :: "qstring \<Rightarrow> int" where
  "full_year s =
     (let year = decimal_value s; i = length s in
      if i < 4 then year + (if i = 2 \<and> year < 50 then 2000 else 1900) else year)"

definition parseDate :: "qstring \<Rightarrow> int option \<Rightarrow> int option" where
  "parseDate string fallbackDate =
     (let str = trimmed string in
      if str = [] then fallbackDate
      else
        (case (case scan_rfc822 str of
                 Some p \<Rightarrow> if (dp_sep1 p = ''-'') \<noteq> (dp_sep2 p = ''-'') then None else Some p
               | None \<Rightarrow> scan_asctime str) of
           None \<Rightarrow> fallbackDate
         | Some p \<Rightarrow>
             (let day = decimal_value (dp_day p); hour = decimal_value (dp_hour p); minute = decimal_value (dp_min p);
                  second0 = (if dp_sec p = [] then 0 else decimal_value (dp_sec p));
                  leapSecond = (second0 = 60);
                  second = (if leapSecond then 59 else second0);
                  month = month_index (dp_month p);
                  year = full_year (dp_year p)
              in case (case dp_zone p of None \<Rightarrow> Some 0 | Some z \<Rightarrow> zone_offset z) of
                   None \<Rightarrow> None
                 | Some offset \<Rightarrow>
                     if \<not> date_valid year (month + 1) day then fallbackDate
                     else if leapSecond \<and> (hour * 3600 + minute * 60 + 60 - offset + 86400 * 5) mod 86400 \<noteq> 0 then fallbackDate
                     else Some (1000 * (utc_seconds year (month + 1) day hour minute second - offset)))))"

section \<open>Written dates are read back\<close>

definition digit :: "nat \<Rightarrow> char" where
  "digit n = char_of (48 + n mod 10)"

definition two :: "nat \<Rightarrow> qstring" where
  "two n = [digit (n div 10), digit n]"

definition four :: "nat \<Rightarrow> qstring" where
  "four n = two (n div 100) @ two (n mod 100)"

text \<open>RFC 822: \<^verbatim>\<open>Tue, 03 Jun 2025 09:39:21 +0200\<close>\<close>

definition rfc822_text :: "qstring \<Rightarrow> nat \<Rightarrow> nat \<Rightarrow> nat \<Rightarrow> nat \<Rightarrow> nat \<Rightarrow> nat \<Rightarrow> bool \<Rightarrow> nat \<Rightarrow> nat \<Rightarrow> qstring" where
  "rfc822_text wday y mo d h mi s neg zh zm =
     wday @ '', '' @ two d @ '' '' @ shortMonth ! (mo - 1) @ '' '' @ four y @ '' '' @ two h @ '':'' @ two mi @ '':'' @ two s @ '' ''
       @ [if neg then CHR ''-'' else CHR ''+''] @ two zh @ two zm"

lemma digit_simps [simp]:
  "is_digit (digit n)" "(of_char (digit n) :: int) = 48 + int (n mod 10)" "\<not> c_isspace (digit n)" "\<not> qchar_is_space (digit n)"
proof -
  have v: "(of_char (digit n) :: nat) = 48 + n mod 10" by (simp add: digit_def)
  then show "is_digit (digit n)" by (simp add: is_digit_def)
  show "(of_char (digit n) :: int) = 48 + int (n mod 10)" using arg_cong [OF v, of int] by (simp add: of_nat_of_char)
  have "digit n \<notin> {CHR 0x09, CHR 0x0A, CHR 0x0B, CHR 0x0C, CHR 0x0D, CHR 0x20, CHR 0x85, CHR 0xA0}"
  proof
    assume "digit n \<in> {CHR 0x09, CHR 0x0A, CHR 0x0B, CHR 0x0C, CHR 0x0D, CHR 0x20, CHR 0x85, CHR 0xA0}"
    then have "(of_char (digit n) :: nat) \<in> {9, 10, 11, 12, 13, 32, 133, 160}" by auto
    then show False unfolding v by auto
  qed
  then show "\<not> c_isspace (digit n)" "\<not> qchar_is_space (digit n)" by (auto simp: c_isspace_def qchar_is_space_def)
qed

lemma two_value: "n < 100 \<Longrightarrow> decimal_value (two n) = int n"
  by (simp add: two_def) presburger

lemma four_value:
  assumes "n < 10000"
  shows "decimal_value (four n) = int n"
proof -
  have "decimal_value (four n) = 100 * decimal_value (two (n div 100)) + decimal_value (two (n mod 100))"
    by (simp add: four_def two_def)
  also have "\<dots> = 100 * int (n div 100) + int (n mod 100)" using assms two_value [of "n div 100"] two_value [of "n mod 100"] by simp
  also have "\<dots> = int n" by presburger
  finally show ?thesis .
qed

lemma two_nonempty [simp]: "two n \<noteq> []" "length (two n) = 2" by (simp_all add: two_def)

lemma four_length [simp]: "length (four n) = 4" by (simp add: four_def)

lemma scan_digits_two: "lo \<le> 2 \<Longrightarrow> scan_digits lo 2 (two n @ r) = Some (two n, r)"
  by (simp add: scan_digits_def two_def)

lemma scan_digits_four: "scan_digits 2 4 (four n @ r) = Some (four n, r)"
  by (simp add: scan_digits_def four_def two_def)

lemma scan_some_append:
  assumes "\<forall>c \<in> set xs. P c" and "xs \<noteq> []" and "r = [] \<or> \<not> P (hd r)"
  shows "scan_some P (xs @ r) = Some (xs, r)"
proof -
  have "takeWhile P r = []" "dropWhile P r = r" using assms(3) by (cases r; auto)+
  then show ?thesis using assms(1,2) by (simp add: scan_some_def takeWhile_append2 dropWhile_append2)
qed

lemma space_simps [simp]: "c_isspace (CHR '' '')" by (simp add: c_isspace_def)

lemma scan_space: "r \<noteq> [] \<Longrightarrow> \<not> c_isspace (hd r) \<Longrightarrow> scan_some c_isspace (CHR '' '' # r) = Some ('' '', r)"
  using scan_some_append [of "'' ''" c_isspace r] by simp

lemma hd_two [simp]: "hd (two n @ r) = digit (n div 10)" "hd (four n @ r) = digit (n div 100 div 10)"
  by (simp_all add: two_def four_def)

lemma index_distinct: "distinct xs \<Longrightarrow> i < length xs \<Longrightarrow> length (takeWhile (\<lambda>m. m \<noteq> xs ! i) xs) = i"
  by (subst takeWhile_eq_take_P_nth [of i]) (auto simp: nth_eq_iff_index_eq)

lemma month_name:
  assumes "1 \<le> mo" and "mo \<le> 12"
  shows "month_index (shortMonth ! (mo - 1)) = int mo - 1" "shortMonth ! (mo - 1) \<noteq> []"
    "\<forall>c \<in> set (shortMonth ! (mo - 1)). \<not> c_isspace c \<and> c \<noteq> CHR ''-''"
proof -
  have "mo - 1 < length shortMonth" using assms by (simp add: shortMonth_def)
  moreover have "distinct shortMonth" by (simp add: shortMonth_def)
  ultimately show "month_index (shortMonth ! (mo - 1)) = int mo - 1"
    using assms(1) by (simp add: month_index_def index_distinct of_nat_diff)
  have "list_all (\<lambda>m. m \<noteq> [] \<and> (\<forall>c \<in> set m. \<not> c_isspace c \<and> c \<noteq> CHR ''-'')) shortMonth"
    by (simp add: shortMonth_def c_isspace_def)
  then show "shortMonth ! (mo - 1) \<noteq> []" "\<forall>c \<in> set (shortMonth ! (mo - 1)). \<not> c_isspace c \<and> c \<noteq> CHR ''-''"
    using \<open>mo - 1 < length shortMonth\<close> by (simp_all add: list_all_length)
qed

text \<open>A name is a capital and small letters.\<close>

definition is_name :: "qstring \<Rightarrow> bool" where
  "is_name w \<longleftrightarrow> (\<exists>c cs. w = c # cs \<and> is_capital c \<and> cs \<noteq> [] \<and> list_all is_lower cs)"

lemma scan_weekday_name:
  assumes "is_name w" and "r \<noteq> []" and "\<not> c_isspace (hd r)"
  shows "scan_weekday (w @ '', '' @ r) = (w, r)"
proof -
  obtain c cs where w: "w = c # cs" "is_capital c" "cs \<noteq> []" "\<forall>x \<in> set cs. is_lower x"
    using assms(1) by (auto simp: is_name_def list_all_iff)
  have comma: "\<not> is_lower (CHR '','')" by (simp add: is_lower_def)
  have "takeWhile is_lower (cs @ '', '' @ r) = cs" "dropWhile is_lower (cs @ '', '' @ r) = '', '' @ r"
    using w(4) comma by (simp_all add: takeWhile_append2 dropWhile_append2)
  then have "scan_name (w @ '', '' @ r) = Some (w, '', '' @ r)" using w by (simp add: scan_name_def)
  moreover have "dropWhile c_isspace ('' '' @ r) = r" using assms(2,3) by (cases r) simp_all
  ultimately show ?thesis by (simp add: scan_weekday_def scan_char_def)
qed

lemma scan_separator_space: "r \<noteq> [] \<Longrightarrow> \<not> c_isspace (hd r) \<Longrightarrow> scan_separator (CHR '' '' # r) = Some ('' '', r)"
  by (simp add: scan_separator_def scan_space)

lemma scan_time_text: "scan_time (two h @ '':'' @ two mi @ r) = Some ((two h, two mi), r)"
  by (simp add: scan_time_def scan_digits_two scan_char_def)

lemma scan_seconds_text: "scan_seconds ('':'' @ two s @ r) = (two s, r)"
  by (simp add: scan_seconds_def scan_char_def scan_digits_two)

lemma scan_rfc822_text:
  assumes "is_name wday" and "1 \<le> mo" "mo \<le> 12"
  shows "scan_rfc822 (rfc822_text wday y mo d h mi s neg zh zm) =
    Some \<lparr>dp_wday = wday, dp_day = two d, dp_sep1 = '' '', dp_month = shortMonth ! (mo - 1), dp_sep2 = '' '', dp_year = four y,
      dp_hour = two h, dp_min = two mi, dp_sec = two s, dp_zone = Some ([if neg then CHR ''-'' else CHR ''+''] @ two zh @ two zm)\<rparr>"
proof -
  let ?zone = "[if neg then CHR ''-'' else CHR ''+''] @ two zh @ two zm"
  let ?m = "shortMonth ! (mo - 1)"
  note m = month_name [OF assms(2,3)]
  have zone: "scan_some (\<lambda>c. \<not> c_isspace c) ?zone = Some (?zone, [])"
    using scan_some_append [of ?zone "\<lambda>c. \<not> c_isspace c" "[]"] by (simp add: two_def c_isspace_def [of "CHR ''-''"] c_isspace_def [of "CHR ''+''"])
  have z: "\<not> c_isspace (hd ?zone)" by (simp add: c_isspace_def)
  have mm: "scan_some (\<lambda>c. \<not> c_isspace c \<and> c \<noteq> CHR ''-'') (?m @ CHR '' '' # r) = Some (?m, CHR '' '' # r)" for r
    using scan_some_append [of ?m "\<lambda>c. \<not> c_isspace c \<and> c \<noteq> CHR ''-''" "CHR '' '' # r"] m by simp
  have mh: "?m @ r \<noteq> []" "\<not> c_isspace (hd (?m @ r))" for r using m(2,3) by (cases ?m; simp)+
  have w: "scan_weekday (wday @ '', '' @ two d @ r) = (wday, two d @ r)" for r
    by (rule scan_weekday_name [OF assms(1)]) simp_all
  show ?thesis
    unfolding scan_rfc822_def rfc822_text_def w
    using z zone mm mh scan_separator_space [of "?m @ r" for r] scan_time_text scan_seconds_text
    by (simp add: scan_digits_two scan_digits_four scan_separator_space scan_space)
qed

lemma zone_text:
  assumes "zh < 100" and "zm < 60"
  shows "zone_offset ([if neg then CHR ''-'' else CHR ''+''] @ two zh @ two zm)
    = Some ((if neg then - 1 else 1) * (int zh * 3600 + int zm * 60))"
proof -
  let ?z = "[if neg then CHR ''-'' else CHR ''+''] @ two zh @ two zm"
  have "numeric_zone ?z = Some (neg, two zh, two zm)" by (simp add: numeric_zone_def two_def)
  then show ?thesis using two_value [of zh] two_value [of zm] assms by (simp add: zone_offset_def Let_def)
qed

lemma rfc822_trimmed:
  assumes "is_name wday"
  shows "trimmed (rfc822_text wday y mo d h mi s neg zh zm) = rfc822_text wday y mo d h mi s neg zh zm"
    and "rfc822_text wday y mo d h mi s neg zh zm \<noteq> []"
proof -
  obtain c cs where w: "wday = c # cs" "is_capital c" using assms by (auto simp: is_name_def)
  have "\<not> qchar_is_space c"
  proof
    assume "qchar_is_space c"
    then have "(of_char c :: nat) \<in> {9, 10, 11, 12, 13, 32, 133, 160}" by (auto simp: qchar_is_space_def)
    then show False using w(2) by (auto simp: is_capital_def)
  qed
  moreover have "last (rfc822_text wday y mo d h mi s neg zh zm) = digit zm" by (simp add: rfc822_text_def two_def)
  ultimately show "trimmed (rfc822_text wday y mo d h mi s neg zh zm) = rfc822_text wday y mo d h mi s neg zh zm"
    by (intro trimmed_id) (simp_all add: rfc822_text_def w(1))
  show "rfc822_text wday y mo d h mi s neg zh zm \<noteq> []" by (simp add: rfc822_text_def w(1))
qed

text \<open>
  C36. Every date of the calendar in the years 1 to 9999, written in full as \<^verbatim>\<open>Www, DD Mon YYYY HH:MM:SS +hhmm\<close>
  with any weekday name and any numeric zone, is read as the moment it names.
\<close>

theorem rfc822_date_roundtrip:
  assumes "is_name wday" and "date_valid (int y) (int mo) (int d)" and "y < 10000"
    and "h < 24" and "mi < 60" and "s < 60" and "zh < 100" and "zm < 60"
  shows "parseDate (rfc822_text wday y mo d h mi s neg zh zm) fallback =
    Some (1000 * (86400 * days_since_epoch (int y) (int mo) (int d) + 3600 * int h + 60 * int mi + int s
      - (if neg then - 1 else 1) * (3600 * int zh + 60 * int zm)))"
proof -
  have mo: "1 \<le> mo" "mo \<le> 12" using assms(2) by (simp_all add: date_valid_def)
  have "int d \<le> 31"
  proof -
    have "\<forall>x \<in> set (month_days (int y)). x \<le> 31" by (simp add: month_days_def)
    moreover have "nat (int mo - 1) < length (month_days (int y))" using mo by (simp add: month_days_def)
    ultimately show ?thesis using assms(2) nth_mem unfolding date_valid_def by fastforce
  qed
  then have v: "decimal_value (two d) = int d" "decimal_value (two h) = int h" "decimal_value (two mi) = int mi"
    "decimal_value (two s) = int s" "full_year (four y) = int y"
    using assms(3-6) two_value [of d] two_value [of h] two_value [of mi] two_value [of s] four_value [of y]
    by (simp_all add: full_year_def Let_def del: decimal_value.simps)
  note zone = zone_text [OF assms(7,8), of neg]
  show ?thesis
    unfolding parseDate_def Let_def rfc822_trimmed(1) [OF assms(1)] if_not_P [OF rfc822_trimmed(2) [OF assms(1)]]
      scan_rfc822_text [OF assms(1) mo]
    using v zone assms(2,4-6) month_name(1) [OF mo]
    by (simp add: Let_def utc_seconds_def time_valid_def del: decimal_value.simps)
qed

theorem rfc822_date_roundtrip_witness:
  "parseDate (rfc822_text ''Tue'' 2025 6 3 9 39 21 False 2 0) None = Some 1748936361000"
  using rfc822_date_roundtrip [of "''Tue''" 2025 6 3 9 39 21 2 0 False None]
  by (simp add: is_name_def is_capital_def is_lower_def date_valid_def month_days_def days_since_epoch_def is_leap_def)

text \<open>A time that does not exist is taken for midnight, while a day that does not exist is refused.\<close>

lemma impossible_time_is_midnight:
  "parseDate ''Tue, 03 Jun 2025 25:61:61 +0000'' None = parseDate ''Tue, 03 Jun 2025 00:00:00 +0000'' None"
  "parseDate ''Tue, 31 Jun 2025 00:00:00 +0000'' None = None"
  by code_simp+

end
