(* ===== verification/Rss_Parser.thy ===== *)
theory Rss_Parser
  imports Rss_Feed_Articles Rss_Dates
begin

text \<open>
  The parser of RSS and Atom feeds, \<^verbatim>\<open>src/src/base/rss/rss_parser.cpp\<close>. The document is the sequence
  of tokens that \<^verbatim>\<open>QXmlStreamReader\<close> delivers before it ends or finds the document malformed; names
  are local names. \<^verbatim>\<open>readElementText\<close>, \<^verbatim>\<open>skipCurrentElement\<close> and
  \<^verbatim>\<open>readNextStartElement\<close> are as documented for that reader.
\<close>

section \<open>The reader\<close>

datatype xml_token =
    StartElement qstring "(qstring \<times> qstring) list"
  | EndElement qstring
  | Characters qstring
  | OtherToken

record xml =
  x_current :: "xml_token option"
  x_rest :: "xml_token list"
  x_malformed :: bool
  x_atEnd :: bool
  x_error :: bool

definition new_xml :: "xml_token list \<Rightarrow> bool \<Rightarrow> xml" where
  "new_xml toks malformed = \<lparr>x_current = None, x_rest = toks, x_malformed = malformed, x_atEnd = False, x_error = False\<rparr>"

definition at_end :: "xml \<Rightarrow> bool" where
  "at_end x \<longleftrightarrow> x_atEnd x \<or> x_error x"

definition readNext :: "xml \<Rightarrow> xml" where
  "readNext x =
     (if at_end x then x\<lparr>x_current := None\<rparr>
      else
        (case x_rest x of
           [] \<Rightarrow> x\<lparr>x_current := None, x_atEnd := True, x_error := x_malformed x\<rparr>
         | t # ts \<Rightarrow> x\<lparr>x_current := Some t, x_rest := ts\<rparr>))"

definition xml_size :: "xml \<Rightarrow> nat" where
  "xml_size x = (if at_end x then 0 else Suc (length (x_rest x)))"

lemma readNext_size [simp]: "\<not> at_end x \<Longrightarrow> xml_size (readNext x) < xml_size x"
  by (auto simp: readNext_def xml_size_def at_end_def split: list.split)

lemma readNext_le: "xml_size (readNext x) \<le> xml_size x"
proof (cases "at_end x")
  case True
  then show ?thesis by (simp add: readNext_def xml_size_def at_end_def)
qed (simp add: order_less_imp_le)

function readNextStartElement :: "xml \<Rightarrow> bool \<times> xml" where
  "readNextStartElement x =
     (if at_end x then (False, x\<lparr>x_current := None\<rparr>)
      else
        (let x1 = readNext x in
         case x_current x1 of
           Some (StartElement n attrs) \<Rightarrow> (True, x1)
         | Some (EndElement n) \<Rightarrow> (False, x1)
         | _ \<Rightarrow> readNextStartElement x1))"
  by pat_completeness auto

termination
  by (relation "measure xml_size") simp_all

declare readNextStartElement.simps [simp del]

text \<open>The text of an element and what follows it; the last component says how the reading ended.\<close>

datatype text_end = Closed qstring | RanOut | UnexpectedChild

fun text_loop :: "bool \<Rightarrow> nat \<Rightarrow> qstring \<Rightarrow> xml_token list \<Rightarrow> qstring \<times> xml_token list \<times> text_end" where
  "text_loop children depth acc [] = (acc, [], RanOut)"
| "text_loop children depth acc (Characters s # ts) = text_loop children depth (acc @ s) ts"
| "text_loop children depth acc (EndElement n # ts) =
     (case depth of 0 \<Rightarrow> (acc, ts, Closed n) | Suc d \<Rightarrow> text_loop children d acc ts)"
| "text_loop children depth acc (StartElement n attrs # ts) =
     (if children then text_loop children (Suc depth) acc ts else (acc, ts, UnexpectedChild))"
| "text_loop children depth acc (OtherToken # ts) = text_loop children depth acc ts"

lemma text_loop_length: "length (fst (snd (text_loop children depth acc ts))) \<le> length ts"
  by (induction children depth acc ts rule: text_loop.induct) (auto split: nat.split intro: le_SucI)

definition readElementText :: "bool \<Rightarrow> xml \<Rightarrow> qstring \<times> xml" where
  "readElementText children x =
     (case x_current x of
        Some (StartElement n attrs) \<Rightarrow>
          (case text_loop children 0 [] (x_rest x) of
             (s, ts, Closed m) \<Rightarrow> (s, x\<lparr>x_current := Some (EndElement m), x_rest := ts\<rparr>)
           | (s, ts, RanOut) \<Rightarrow> (s, x\<lparr>x_current := None, x_rest := ts, x_atEnd := True, x_error := x_malformed x\<rparr>)
           | (s, ts, UnexpectedChild) \<Rightarrow> (s, x\<lparr>x_current := None, x_rest := ts, x_error := True\<rparr>))
      | _ \<Rightarrow> ([], x))"

lemma readElementText_size: "xml_size (snd (readElementText children x)) \<le> xml_size x"
  using text_loop_length [of children 0 "[]" "x_rest x"]
  by (auto simp: readElementText_def xml_size_def at_end_def split: option.split xml_token.split prod.split text_end.split)

fun skip_loop :: "nat \<Rightarrow> xml_token list \<Rightarrow> xml_token list \<times> qstring option" where
  "skip_loop depth [] = ([], None)"
| "skip_loop depth (EndElement n # ts) = (case depth of 0 \<Rightarrow> (ts, Some n) | Suc d \<Rightarrow> skip_loop d ts)"
| "skip_loop depth (StartElement n attrs # ts) = skip_loop (Suc depth) ts"
| "skip_loop depth (_ # ts) = skip_loop depth ts"

lemma skip_loop_length: "length (fst (skip_loop depth ts)) \<le> length ts"
  by (induction depth ts rule: skip_loop.induct) (auto split: nat.split intro: le_SucI)

definition skipCurrentElement :: "xml \<Rightarrow> xml" where
  "skipCurrentElement x =
     (if at_end x then x
      else
        (case skip_loop 0 (x_rest x) of
           (ts, Some n) \<Rightarrow> x\<lparr>x_current := Some (EndElement n), x_rest := ts\<rparr>
         | (ts, None) \<Rightarrow> x\<lparr>x_current := None, x_rest := ts, x_atEnd := True, x_error := x_malformed x\<rparr>))"

lemma skipCurrentElement_size: "xml_size (skipCurrentElement x) \<le> xml_size x"
  using skip_loop_length [of 0 "x_rest x"]
  by (auto simp: skipCurrentElement_def xml_size_def at_end_def split: prod.split option.split)

lemma readNextStartElement_size:
  "xml_size (snd (readNextStartElement x)) \<le> xml_size x"
  "fst (readNextStartElement x) \<Longrightarrow> xml_size (snd (readNextStartElement x)) < xml_size x"
proof (induction x rule: readNextStartElement.induct)
  case (1 x)
  have *: "xml_size (snd (readNextStartElement x)) \<le> xml_size x \<and>
      (fst (readNextStartElement x) \<longrightarrow> xml_size (snd (readNextStartElement x)) < xml_size x)"
  proof (cases "at_end x")
    case True
    then show ?thesis by (simp add: readNextStartElement.simps [of x] xml_size_def at_end_def)
  next
    case False
    have less: "xml_size (readNext x) < xml_size x" using False by simp
    have "x_current (readNext x) = None \<or> (\<exists>s. x_current (readNext x) = Some (Characters s)) \<or> x_current (readNext x) = Some OtherToken
       \<Longrightarrow> xml_size (snd (readNextStartElement (readNext x))) \<le> xml_size (readNext x)"
      using "1.IH" [OF False refl] by (elim disjE exE) simp_all
    then show ?thesis using less False
      by (auto simp: readNextStartElement.simps [of x] Let_def split: option.split xml_token.split
          intro: readNext_le le_less_trans [OF _ readNext_size] order_trans [OF _ readNext_le])
  qed
  { case 1 show ?case using * by simp
  next
    case 2 then show ?case using * by simp }
qed

text \<open>
  \<^verbatim>\<open>while (!xml.atEnd()) { xml.readNext(); ... }\<close>: the body sees the token that was read and may end the
  loop. Reading on never makes the rest longer (\<open>shrinks\<close>), so the second guard is never the reason to stop.
\<close>

function xml_loop :: "(xml_token option \<Rightarrow> 's \<Rightarrow> xml \<Rightarrow> bool \<times> 's \<times> xml) \<Rightarrow> 's \<Rightarrow> xml \<Rightarrow> 's \<times> xml" where
  "xml_loop body s x =
     (if at_end x then (s, x)
      else
        (let x1 = readNext x; r = body (x_current x1) s x1 in
         if fst r \<or> \<not> xml_size (snd (snd r)) \<le> xml_size x1 then snd r
         else xml_loop body (fst (snd r)) (snd (snd r))))"
  by pat_completeness auto

termination
  by (relation "measure (\<lambda>(body, s, x). xml_size x)") (auto simp: case_prod_beta intro: le_less_trans [OF _ readNext_size])

declare xml_loop.simps [simp del]

definition shrinks :: "(xml_token option \<Rightarrow> 's \<Rightarrow> xml \<Rightarrow> bool \<times> 's \<times> xml) \<Rightarrow> bool" where
  "shrinks body \<longleftrightarrow> (\<forall>t s x. xml_size (snd (snd (body t s x))) \<le> xml_size x)"

lemma xml_loop_step:
  "shrinks body \<Longrightarrow> \<not> at_end x \<Longrightarrow> xml_loop body s x =
     (case body (x_current (readNext x)) s (readNext x) of
        (stop, s', x') \<Rightarrow> if stop then (s', x') else xml_loop body s' x')"
  by (subst xml_loop.simps) (simp add: Let_def shrinks_def case_prod_beta)

lemma xml_loop_size: "shrinks body \<Longrightarrow> xml_size (snd (xml_loop body s x)) \<le> xml_size x"
proof (induction body s x rule: xml_loop.induct)
  case (1 body s x)
  show ?case
  proof (cases "at_end x")
    case False
    obtain stop s' x' where b: "body (x_current (readNext x)) s (readNext x) = (stop, s', x')" by (metis surj_pair)
    have "xml_size x' \<le> xml_size (readNext x)" using "1.prems" b unfolding shrinks_def by (metis snd_conv)
    moreover have "\<not> stop \<Longrightarrow> xml_size (snd (xml_loop body s' x')) \<le> xml_size x'"
      using "1.IH" [OF False refl refl] calculation "1.prems" by (simp add: b)
    ultimately show ?thesis using False readNext_le [of x] by (cases stop) (simp_all add: xml_loop_step "1.prems" b)
  qed (simp add: xml_loop.simps)
qed

text \<open>What holds of the state after every pass holds after the loop.\<close>

lemma xml_loop_inv:
  assumes "shrinks body" and "P s" and "\<And>t s x. P s \<Longrightarrow> P (fst (snd (body t s x)))"
  shows "P (fst (xml_loop body s x))"
  using assms(2)
proof (induction "xml_size x" arbitrary: s x rule: less_induct)
  case less
  show ?case
  proof (cases "at_end x")
    case False
    obtain stop s' x' where b: "body (x_current (readNext x)) s (readNext x) = (stop, s', x')" by (metis surj_pair)
    have "P s'" using assms(3) [OF less.prems] b by (metis fst_conv snd_conv)
    moreover have "xml_size x' < xml_size x"
      using assms(1) b readNext_size [OF False] unfolding shrinks_def by (metis le_less_trans snd_conv)
    ultimately show ?thesis using less.hyps False by (simp add: xml_loop_step assms(1) b)
  qed (use less.prems in \<open>simp add: xml_loop.simps\<close>)
qed

definition attr_value :: "(qstring \<times> qstring) list \<Rightarrow> qstring \<Rightarrow> qstring" where
  "attr_value attrs n = (case map_of attrs n of None \<Rightarrow> [] | Some v \<Rightarrow> v)"

section \<open>Articles\<close>

record rss_parser =
  p_result :: parsing_result
  p_fallbackDate :: "int option"
  p_articleIDs :: "qstring set"
  p_baseUrl :: qstring

definition new_parser :: "qstring \<Rightarrow> rss_parser" where
  "new_parser lastBuildDate =
     \<lparr>p_result = \<lparr>pr_error = [], pr_lastBuildDate = lastBuildDate, pr_title = [], pr_articles = []\<rparr>,
      p_fallbackDate = None, p_articleIDs = {}, p_baseUrl = []\<rparr>"

text \<open>\<^verbatim>\<open>Parser::addArticle\<close>\<close>

definition identify :: "rss_env \<Rightarrow> article_data \<Rightarrow> article_data option" where
  "identify e article =
     (let a1 = (if variant_toString e (value_of article KeyTorrentURL) = []
                then article(KeyTorrentURL \<mapsto> value_of article KeyLink) else article);
          text = (\<lambda>k. variant_toString e (value_of a1 k))
      in if text KeyId \<noteq> [] then Some a1
         else if text KeyTorrentURL \<noteq> [] then Some (a1(KeyId \<mapsto> value_of a1 KeyTorrentURL))
         else if text KeyTitle \<noteq> [] then Some (a1(KeyId \<mapsto> value_of a1 KeyTitle))
         else None)"

definition parser_addArticle :: "rss_env \<Rightarrow> article_data \<Rightarrow> rss_parser \<Rightarrow> rss_parser" where
  "parser_addArticle e article p =
     (case identify e article of
        None \<Rightarrow> p
      | Some a \<Rightarrow>
          (let localId = variant_toString e (value_of a KeyId) in
           if localId \<in> p_articleIDs p then p
           else p\<lparr>p_articleIDs := insert localId (p_articleIDs p),
                  p_result := (p_result p)\<lparr>pr_articles := a # pr_articles (p_result p)\<rparr>\<rparr>))"

text \<open>One child of an RSS \<^verbatim>\<open>item\<close>; the second part of the state is \<^verbatim>\<open>altTorrentUrl\<close>.\<close>

definition rss_child ::
  "int option \<Rightarrow> qstring \<Rightarrow> (qstring \<times> qstring) list \<Rightarrow> xml \<Rightarrow> article_data \<times> qstring \<Rightarrow> (article_data \<times> qstring) \<times> xml" where
  "rss_child fallback name attrs x st =
     (case st of (article, alt) \<Rightarrow>
      if name = ''title'' then
        (case readElementText False x of (s, x) \<Rightarrow> ((article(KeyTitle \<mapsto> VString (trimmed s)), alt), x))
      else if name = ''enclosure'' then
        (if attr_value attrs ''type'' = ''application/x-bittorrent''
         then ((article(KeyTorrentURL \<mapsto> VString (attr_value attrs ''url'')), alt), x)
         else if attr_value attrs ''type'' = [] then ((article, attr_value attrs ''url''), x)
         else ((article, alt), x))
      else if name = ''link'' then
        (case readElementText False x of (s, x) \<Rightarrow>
           let text = trimmed s in
           if starts_with_ci text ''magnet:'' then ((article(KeyTorrentURL \<mapsto> VString text), alt), x)
           else ((article(KeyLink \<mapsto> VString text), alt), x))
      else if name = ''description'' then
        (case readElementText True x of (s, x) \<Rightarrow> ((article(KeyDescription \<mapsto> VString s), alt), x))
      else if name = ''pubDate'' then
        (case readElementText False x of (s, x) \<Rightarrow> ((article(KeyDate \<mapsto> VDate (parseDate (trimmed s) fallback)), alt), x))
      else if name = ''author'' then
        (case readElementText False x of (s, x) \<Rightarrow> ((article(KeyAuthor \<mapsto> VString (trimmed s)), alt), x))
      else if name = ''guid'' then
        (case readElementText False x of (s, x) \<Rightarrow> ((article(KeyId \<mapsto> VString (trimmed s)), alt), x))
      else
        (case readElementText True x of (s, x) \<Rightarrow> ((article(name \<mapsto> VString s), alt), x)))"

lemma rss_child_size: "xml_size (snd (rss_child fallback name attrs x st)) \<le> xml_size x"
  by (simp add: rss_child_def Let_def case_prod_beta readElementText_size)

definition rss_article_body ::
  "int option \<Rightarrow> xml_token option \<Rightarrow> article_data \<times> qstring \<Rightarrow> xml \<Rightarrow> bool \<times> (article_data \<times> qstring) \<times> xml" where
  "rss_article_body fallback tok st x =
     (case tok of
        Some (EndElement n) \<Rightarrow> (n = ''item'', st, x)
      | Some (StartElement n attrs) \<Rightarrow> (False, rss_child fallback n attrs x st)
      | _ \<Rightarrow> (False, st, x))"

definition parseRssArticle :: "rss_env \<Rightarrow> rss_parser \<Rightarrow> xml \<Rightarrow> rss_parser \<times> xml" where
  "parseRssArticle e p x =
     (case xml_loop (rss_article_body (p_fallbackDate p)) (Map.empty, []) x of ((article, altTorrentUrl), x) \<Rightarrow>
        (parser_addArticle e
           (if variant_toString e (value_of article KeyTorrentURL) = []
            then article(KeyTorrentURL \<mapsto> VString altTorrentUrl) else article) p, x))"

definition set_title :: "qstring \<Rightarrow> rss_parser \<Rightarrow> rss_parser" where
  "set_title s p = p\<lparr>p_result := (p_result p)\<lparr>pr_title := s\<rparr>\<rparr>"

definition set_buildDate :: "qstring \<Rightarrow> rss_parser \<Rightarrow> rss_parser" where
  "set_buildDate s p = p\<lparr>p_result := (p_result p)\<lparr>pr_lastBuildDate := s\<rparr>\<rparr>"

text \<open>The date of the last change: the loop ends when it is the one of the previous parsing.\<close>

definition build_date_body :: "rss_parser \<Rightarrow> xml \<Rightarrow> bool \<times> rss_parser \<times> xml" where
  "build_date_body p x =
     (case readElementText False x of (lastBuildDate, x) \<Rightarrow>
        if lastBuildDate \<noteq> []
        then if pr_lastBuildDate (p_result p) = lastBuildDate then (True, p, x)
             else (False, set_buildDate lastBuildDate p, x)
        else (False, p, x))"

definition rss_channel_body :: "rss_env \<Rightarrow> xml_token option \<Rightarrow> rss_parser \<Rightarrow> xml \<Rightarrow> bool \<times> rss_parser \<times> xml" where
  "rss_channel_body e tok p x =
     (case tok of
        Some (StartElement n attrs) \<Rightarrow>
          if n = ''title'' then (case readElementText False x of (s, x) \<Rightarrow> (False, set_title s p, x))
          else if n = ''lastBuildDate'' then build_date_body p x
          else if n = ''item'' then (False, parseRssArticle e p x)
          else (False, p, x)
      | _ \<Rightarrow> (False, p, x))"

definition parseRSSChannel :: "rss_env \<Rightarrow> rss_parser \<Rightarrow> xml \<Rightarrow> rss_parser \<times> xml" where
  "parseRSSChannel e p x = xml_loop (rss_channel_body e) p x"

section \<open>Atom\<close>

text \<open>The children of \<^verbatim>\<open>author\<close>.\<close>

function author_loop :: "article_data \<Rightarrow> xml \<Rightarrow> article_data \<times> xml" where
  "author_loop article x =
     (let r = readNextStartElement x; x1 = snd r in
      if \<not> fst r then (article, x1)
      else
        (case x_current x1 of
           Some (StartElement n attrs) \<Rightarrow>
             if n = ''name''
             then author_loop (article(KeyAuthor \<mapsto> VString (trimmed (fst (readElementText False x1))))) (snd (readElementText False x1))
             else author_loop article (skipCurrentElement x1)
         | _ \<Rightarrow> (article, x1)))"
  by pat_completeness auto

termination
  by (relation "measure (\<lambda>(article, x). xml_size x)")
    (auto intro: le_less_trans [OF readElementText_size] le_less_trans [OF skipCurrentElement_size] readNextStartElement_size(2))

declare author_loop.simps [simp del]

text \<open>One child of an \<^verbatim>\<open>entry\<close>; the second part of the state is \<^verbatim>\<open>doubleContent\<close>.\<close>

definition atom_child ::
  "rss_env \<Rightarrow> rss_parser \<Rightarrow> qstring \<Rightarrow> (qstring \<times> qstring) list \<Rightarrow> xml \<Rightarrow> article_data \<times> bool \<Rightarrow> (article_data \<times> bool) \<times> xml" where
  "atom_child e p name attrs x st =
     (case st of (article, doubleContent) \<Rightarrow>
      if name = ''title'' then
        (case readElementText False x of (s, x) \<Rightarrow> ((article(KeyTitle \<mapsto> VString (trimmed s)), doubleContent), x))
      else if name = ''link'' then
        (case (if attrs = [] then (case readElementText False x of (s, x) \<Rightarrow> (trimmed s, x)) else (attr_value attrs ''href'', x)) of
           (link, x) \<Rightarrow>
             if starts_with_ci link ''magnet:'' then ((article(KeyTorrentURL \<mapsto> VString link), doubleContent), x)
             else ((article(KeyLink \<mapsto> VString (if p_baseUrl p = [] then link else p_baseUrl p @ link)), doubleContent), x))
      else if name = ''summary'' \<or> name = ''content'' then
        (if doubleContent then (st, skipCurrentElement x)
         else (case readElementText True x of (s, x) \<Rightarrow>
                 let feedText = trimmed s in
                 if feedText \<noteq> [] then ((article(KeyDescription \<mapsto> VString feedText), True), x) else (st, x)))
      else if name = ''updated'' then
        (case readElementText False x of (s, x) \<Rightarrow>
           let articleDate = isoDate e (trimmed s) in
           ((article(KeyDate \<mapsto> VDate (if articleDate \<noteq> None then articleDate else p_fallbackDate p)), doubleContent), x))
      else if name = ''author'' then (case author_loop article x of (a, x) \<Rightarrow> ((a, doubleContent), x))
      else if name = ''id'' then
        (case readElementText False x of (s, x) \<Rightarrow> ((article(KeyId \<mapsto> VString (trimmed s)), doubleContent), x))
      else
        (case readElementText True x of (s, x) \<Rightarrow> ((article(name \<mapsto> VString s), doubleContent), x)))"

definition atom_article_body ::
  "rss_env \<Rightarrow> rss_parser \<Rightarrow> xml_token option \<Rightarrow> article_data \<times> bool \<Rightarrow> xml \<Rightarrow> bool \<times> (article_data \<times> bool) \<times> xml" where
  "atom_article_body e p tok st x =
     (case tok of
        Some (EndElement n) \<Rightarrow> (n = ''entry'', st, x)
      | Some (StartElement n attrs) \<Rightarrow> (False, atom_child e p n attrs x st)
      | _ \<Rightarrow> (False, st, x))"

definition parseAtomArticle :: "rss_env \<Rightarrow> rss_parser \<Rightarrow> xml \<Rightarrow> rss_parser \<times> xml" where
  "parseAtomArticle e p x =
     (case xml_loop (atom_article_body e p) (Map.empty, False) x of ((article, _), x) \<Rightarrow> (parser_addArticle e article p, x))"

definition atom_channel_body :: "rss_env \<Rightarrow> xml_token option \<Rightarrow> rss_parser \<Rightarrow> xml \<Rightarrow> bool \<times> rss_parser \<times> xml" where
  "atom_channel_body e tok p x =
     (case tok of
        Some (StartElement n attrs) \<Rightarrow>
          if n = ''title'' then (case readElementText False x of (s, x) \<Rightarrow> (False, set_title s p, x))
          else if n = ''updated'' then build_date_body p x
          else if n = ''entry'' then (False, parseAtomArticle e p x)
          else (False, p, x)
      | _ \<Rightarrow> (False, p, x))"

definition parseAtomChannel :: "rss_env \<Rightarrow> (qstring \<times> qstring) list \<Rightarrow> rss_parser \<Rightarrow> xml \<Rightarrow> rss_parser \<times> xml" where
  "parseAtomChannel e attrs p x = xml_loop (atom_channel_body e) (p\<lparr>p_baseUrl := attr_value attrs ''xml:base''\<rparr>) x"

section \<open>The document\<close>

function find_channel :: "xml \<Rightarrow> bool \<times> xml" where
  "find_channel x =
     (let r = readNextStartElement x; x1 = snd r in
      if \<not> fst r then (False, x1)
      else
        (case x_current x1 of
           Some (StartElement n attrs) \<Rightarrow> if n = ''channel'' then (True, x1) else find_channel (skipCurrentElement x1)
         | _ \<Rightarrow> (False, x1)))"
  by pat_completeness auto

termination
  by (relation "measure xml_size")
    (auto intro: le_less_trans [OF skipCurrentElement_size] readNextStartElement_size(2))

declare find_channel.simps [simp del]

function parse_root :: "rss_env \<Rightarrow> rss_parser \<Rightarrow> xml \<Rightarrow> bool \<times> rss_parser \<times> xml" where
  "parse_root e p x =
     (let r = readNextStartElement x; x1 = snd r in
      if \<not> fst r then (False, p, x1)
      else
        (case x_current x1 of
           Some (StartElement n attrs) \<Rightarrow>
             if n = ''rss'' then (case find_channel x1 of (found, x2) \<Rightarrow> if found then (True, parseRSSChannel e p x2) else (False, p, x2))
             else if n = ''feed'' then (True, parseAtomChannel e attrs p x1)
             else parse_root e p (skipCurrentElement x1)
         | _ \<Rightarrow> (False, p, x1)))"
  by pat_completeness auto

termination
  by (relation "measure (\<lambda>(e, p, x). xml_size x)")
    (auto intro: le_less_trans [OF skipCurrentElement_size] readNextStartElement_size(2))

declare parse_root.simps [simp del]

text \<open>
  \<^verbatim>\<open>Parser::parse\<close> at the time \<open>now\<close>; \<open>message\<close> is the text for a malformed document.
\<close>

definition parse_feed :: "rss_env \<Rightarrow> qstring \<Rightarrow> int \<Rightarrow> xml_token list \<Rightarrow> bool \<Rightarrow> rss_parser \<Rightarrow> parsing_result \<times> rss_parser" where
  "parse_feed e message now toks malformed p =
     (case parse_root e (p\<lparr>p_fallbackDate := Some now\<rparr>) (new_xml toks malformed) of (foundChannel, p1, x) \<Rightarrow>
        let result = (if x_error x then (p_result p1)\<lparr>pr_error := message\<rparr>
                      else if \<not> foundChannel then (p_result p1)\<lparr>pr_error := ''Invalid RSS feed.''\<rparr>
                      else p_result p1)
        in (result, p1\<lparr>p_result := result\<lparr>pr_articles := [], pr_error := []\<rparr>, p_articleIDs := {}\<rparr>))"

end
