(* ===== verification/Rss_Feed_Runs.thy ===== *)
theory Rss_Feed_Runs
  imports Rss_Feed_Articles
begin

text \<open>
  A feed over any course of events and over a restart, with a concrete feed for the witnesses.
\<close>

section \<open>A feed over any course of events\<close>

definition data_date :: "rss_env \<Rightarrow> article_data \<Rightarrow> int option" where
  "data_date e a = toDateTime e (value_of a KeyDate)"

text \<open>The serializer delivers articles by date, the parser distinct ones; the limit is not negative.\<close>

definition feed_event_ok :: "rss_env \<Rightarrow> feed_event \<Rightarrow> bool" where
  "feed_event_ok e ev \<longleftrightarrow> (case ev of
       Loaded as \<Rightarrow> sorted_wrt (\<lambda>a b. data_date e b \<le> data_date e a) as
     | ParsingDone now result \<Rightarrow> distinct (map (article_id e) (pr_articles result))
     | MaxArticles n \<Rightarrow> 0 \<le> n
     | _ \<Rightarrow> True)"

definition rss_inv :: "rss_env \<Rightarrow> int \<times> feed \<Rightarrow> bool" where
  "rss_inv e st \<longleftrightarrow> (case st of (n, f) \<Rightarrow>
     0 \<le> n \<and> feed_inv e f \<and> int (length (f_articlesByDate f)) \<le> n \<and> (\<not> f_isInitialized f \<longrightarrow> f_articlesByDate f = []))"

lemma load_one_inv:
  assumes "feed_inv e f" and "\<forall>g \<in> set (f_articlesByDate f). data_date e d \<le> a_date (article_at f g)"
  shows "feed_inv e (load_one e d f)"
    and "set (dated (load_one e d f)) \<subseteq> insert (stamp e d) (set (dated f))"
    and "length (f_articlesByDate (load_one e d f)) \<le> Suc (length (f_articlesByDate f))"
proof -
  define g where "g = article_id e d"
  define a where "a = mkArticle e d"
  have a: "proper e a" "a_guid a = g" "a_date a = data_date e d" "variant_toString e (value_of d KeyId) = g"
    by (simp_all add: a_def proper_def g_def mkArticle_def article_id_def data_date_def)
  have *: "feed_inv e (load_one e d f) \<and> set (dated (load_one e d f)) \<subseteq> insert (stamp e d) (set (dated f))
     \<and> length (f_articlesByDate (load_one e d f)) \<le> Suc (length (f_articlesByDate f))"
  proof (cases "f_articles f g")
    case (Some b)
    then show ?thesis using assms(1) by (auto simp: a(4))
  next
    case None
    then have g: "g \<notin> set (f_articlesByDate f)" using assms(1) by (auto simp: feed_inv_def)
    let ?f = "load_one e d f"
    have f': "f_articles ?f = (f_articles f)(g \<mapsto> a)" "f_articlesByDate ?f = f_articlesByDate f @ [g]"
      "f_unreadCount ?f = f_unreadCount f + (if a_isRead a then 0 else 1)"
      "announced (f_signals ?f) = insert g (announced (f_signals f))"
      using None by (simp_all add: a(4) a(2) Let_def removal_def flip: a_def)
    have at: "article_at ?f h = (if h = g then a else article_at f h)" for h unfolding article_at_def f'(1) by simp
    have "by_date ?f (f_articlesByDate f)" using assms(1) g by_date_cong [of "f_articlesByDate f" ?f f] at by (auto simp: feed_inv_def)
    then have "by_date ?f (f_articlesByDate ?f)"
      unfolding f'(2) using assms(2) g at a(3) by (auto simp: by_date_def sorted_wrt_append)
    then have "feed_inv e ?f"
      by (intro insert_inv [OF assms(1) None a(1,2) f'(1) _ f'(3,4), where n = "length (f_articlesByDate f)"])
        (simp_all only: f'(2) take_all drop_all order_refl)
    moreover have "map (\<lambda>h. (h, a_date (article_at ?f h))) (f_articlesByDate f) = dated f"
      using g at by (auto simp: dated_def)
    then have "set (dated ?f) = insert (stamp e d) (set (dated f))"
      unfolding dated_def f'(2) using a(3) at [of g] by (auto simp: stamp_def g_def data_date_def)
    ultimately show ?thesis using f'(2) by simp
  qed
  then show "feed_inv e (load_one e d f)" "set (dated (load_one e d f)) \<subseteq> insert (stamp e d) (set (dated f))"
    "length (f_articlesByDate (load_one e d f)) \<le> Suc (length (f_articlesByDate f))" by auto
qed

declare load_one.simps [simp del]

lemma load_fold_inv:
  assumes "feed_inv e f" and "sorted_wrt (\<lambda>a b. data_date e b \<le> data_date e a) as"
    and "\<forall>p \<in> set (dated f). \<forall>a \<in> set as. data_date e a \<le> snd p"
  shows "feed_inv e (fold (load_one e) as f) \<and> length (f_articlesByDate (fold (load_one e) as f)) \<le> length (f_articlesByDate f) + length as"
  using assms
proof (induction as arbitrary: f)
  case (Cons a as)
  have "\<forall>g \<in> set (f_articlesByDate f). data_date e a \<le> a_date (article_at f g)"
    using Cons.prems(3) by (auto simp: dated_def)
  note l = load_one_inv [OF Cons.prems(1) this]
  have "\<forall>p \<in> set (dated (load_one e a f)). \<forall>b \<in> set as. data_date e b \<le> snd p"
  proof (intro ballI)
    fix p b
    assume "p \<in> set (dated (load_one e a f))" and b: "b \<in> set as"
    then consider "p = stamp e a" | "p \<in> set (dated f)" using l(2) by blast
    then show "data_date e b \<le> snd p"
      using b Cons.prems(2,3) by cases (auto simp: stamp_def data_date_def)
  qed
  from Cons.IH [OF l(1) _ this] Cons.prems(2) l(3) show ?case by simp
qed simp

lemma loaded_inv:
  assumes "feed_inv e f" and "f_articlesByDate f = []" and "0 \<le> n"
    and "sorted_wrt (\<lambda>a b. data_date e b \<le> data_date e a) as"
  shows "feed_inv e (handleArticleLoadFinished e n as f) \<and> int (length (f_articlesByDate (handleArticleLoadFinished e n as f))) \<le> n"
proof -
  define bs where "bs = (if int (length as) > n then take (nat n) as else as)"
  define f1 where "f1 = fold (load_one e) bs f"
  have bs: "int (length bs) \<le> n" "sorted_wrt (\<lambda>a b. data_date e b \<le> data_date e a) bs"
    using assms(3,4) by (auto simp: bs_def sorted_wrt_take)
  have "feed_inv e f1 \<and> length (f_articlesByDate f1) \<le> length bs"
    using load_fold_inv [OF assms(1) bs(2)] assms(2) by (simp add: f1_def dated_def)
  moreover have "same_articles f1 (handleArticleLoadFinished e n as f)"
    by (simp add: handleArticleLoadFinished_def Let_def same_articles_def refresh_def send_def removal_def flip: bs_def f1_def)
  ultimately show ?thesis using same_articles_inv [of f1 _ e] bs(1) by (auto simp: same_articles_def)
qed

lemma parsed_inv:
  assumes "feed_inv e f" and "int (length (f_articlesByDate f)) \<le> int n" and "sorts (\<lambda>a b. fst b < fst a) srt"
    and "distinct (map (article_id e) (pr_articles result))"
  shows "feed_inv e (handleParsingFinished e srt now (int n) result f)
    \<and> length (f_articlesByDate (handleParsingFinished e srt now (int n) result f)) \<le> n"
proof -
  define f1 where "f1 = f\<lparr>f_hasError := (pr_error result \<noteq> [])\<rparr>"
  define f2 where "f2 = (if pr_title result \<noteq> [] \<and> f_title f1 \<noteq> pr_title result
    then send TitleChanged (f1\<lparr>f_title := pr_title result, f_dirty := True\<rparr>) else f1)"
  define f3 where "f3 = (if pr_lastBuildDate result \<noteq> [] then f2\<lparr>f_lastBuildDate := pr_lastBuildDate result, f_dirty := True\<rparr> else f2)"
  define f4 where "f4 = snd (updateArticles e srt now (int n) (pr_articles result) f3)"
  have s3: "same_articles f f3" by (simp add: f1_def f2_def f3_def same_articles_def removal_def)
  have "int (length (f_articlesByDate f3)) \<le> int n" using s3 assms(2) by (simp add: same_articles_def)
  from updateArticles_top [OF same_articles_inv [OF s3 assms(1)] this assms(3,4) f4_def]
  have f4: "feed_inv e f4" "length (f_articlesByDate f4) \<le> n" by (auto simp: top_of_def dated_def)
  have "handleParsingFinished e srt now (int n) result f = send StateChanged ((feed_store e f4)\<lparr>f_isLoading := False\<rparr>)"
    unfolding handleParsingFinished_def Let_def f4_def f3_def f2_def f1_def ..
  then have "same_articles f4 (handleParsingFinished e srt now (int n) result f)"
    by (simp add: same_articles_def feed_store_def removal_def)
  then show ?thesis using same_articles_inv [of f4 _ e] f4 by (auto simp: same_articles_def)
qed

lemma step_keeps_init:
  "f_isInitialized (handleArticleLoadFinished e n as f)" "f_isInitialized (refresh f) = f_isInitialized f"
  "f_isInitialized (markArticleAsRead g f) = f_isInitialized f" "f_isInitialized (feed_store e f) = f_isInitialized f"
  "f_isInitialized (handleDownloadFinished b f) = f_isInitialized f"
  by (simp_all add: handleArticleLoadFinished_def Let_def refresh_def feed_store_def handleDownloadFinished_def
      markArticleAsRead_def handleArticleRead_def decreaseUnreadCount_def split: option.split)

lemma byDate_read: "f_articlesByDate (markArticleAsRead g f) = f_articlesByDate f"
  by (simp add: markArticleAsRead_def handleArticleRead_def decreaseUnreadCount_def split: option.split)

lemma markAsRead_fold_same:
  "f_articlesByDate (fold markAsRead_one gs f) = f_articlesByDate f \<and> f_isInitialized (fold markAsRead_one gs f) = f_isInitialized f"
  by (induction gs arbitrary: f) (simp_all add: markAsRead_one_def Let_def)

lemma markAsRead_same:
  "f_articlesByDate (markAsRead e f) = f_articlesByDate f" "f_isInitialized (markAsRead e f) = f_isInitialized f"
  using markAsRead_fold_same [of "hashOrder e (f_articlesByDate f)" f]
  by (simp_all add: markAsRead_def Let_def feed_store_def)

lemma max_changed_init:
  "handleMaxArticlesPerFeedChanged n f = Some f' \<Longrightarrow>
     f_isInitialized f' = f_isInitialized f \<and> (f_articlesByDate f = [] \<longrightarrow> f_articlesByDate f' = [])"
proof (induction n f rule: handleMaxArticlesPerFeedChanged.induct)
  case (1 n f)
  have "f_isInitialized (removeOldestArticle f) = f_isInitialized f"
    by (simp add: removeOldestArticle_def Let_def decreaseUnreadCount_def)
  then show ?case using 1 by (subst (asm) (2) handleMaxArticlesPerFeedChanged.simps) (auto split: if_splits)
qed

lemma parsed_init: "f_isInitialized f \<Longrightarrow> f_isInitialized (handleParsingFinished e srt now n result f)"
proof -
  have add: "f_isInitialized (snd (addArticle e n d f)) = f_isInitialized f" for d f
    by (simp add: addArticle_def Let_def increaseUnreadCount_def removeOldestArticle_def decreaseUnreadCount_def)
  have "f_isInitialized (snd (add_item e n i (k, f))) = f_isInitialized f" for i k f
    by (cases i; cases "snd i") (simp_all add: add_item_def add)
  then have "f_isInitialized (snd (fold (add_item e n) items st)) = f_isInitialized (snd st)" for items st
    by (induction items arbitrary: st) (simp_all, metis prod.collapse)
  then have "f_isInitialized (snd (updateArticles e srt now n as f)) = f_isInitialized f" for as f
    by (simp add: updateArticles_def Let_def)
  then show "f_isInitialized f \<Longrightarrow> f_isInitialized (handleParsingFinished e srt now n result f)"
    by (simp add: handleParsingFinished_def Let_def feed_store_def)
qed

lemma feed_step_inv:
  assumes "rss_inv e st" and "feed_event_ok e ev" and "sorts (\<lambda>a b. fst b < fst a) srt" and "\<And>xs. set (hashOrder e xs) = set xs"
  shows "\<exists>st'. feed_step e srt ev st = Some st' \<and> rss_inv e st'"
proof -
  obtain n f where st: "st = (n, f)" by fastforce
  have i: "0 \<le> n" "feed_inv e f" "int (length (f_articlesByDate f)) \<le> n" "\<not> f_isInitialized f \<Longrightarrow> f_articlesByDate f = []"
    using assms(1) by (auto simp: rss_inv_def st)
  have same: "rss_inv e (n, f')" if "same_articles f f'" "f_isInitialized f' = f_isInitialized f" for f'
    using i same_articles_inv [OF that(1)] that by (simp add: rss_inv_def same_articles_def)
  show ?thesis
  proof (cases ev)
    case (Loaded as)
    then show ?thesis using i assms(1,2) loaded_inv [OF i(2) _ i(1), of as] step_keeps_init(1) [of e n as f]
      by (auto simp: st rss_inv_def feed_event_ok_def)
  next
    case (ParsingDone now result)
    then show ?thesis using i assms(1,2) parsed_inv [OF i(2) _ assms(3), of "nat n" result now] parsed_init [of f e srt now n result]
      by (auto simp: st rss_inv_def feed_event_ok_def nat_le_iff)
  next
    case (Reading g)
    then show ?thesis using i markArticle_inv [OF i(2)] by (simp add: st rss_inv_def byDate_read step_keeps_init)
  next
    case ReadingAll
    then show ?thesis using i markAsRead_inv [OF i(2) assms(4)] by (simp add: st rss_inv_def markAsRead_same)
  next
    case (MaxArticles m)
    then have m: "0 \<le> m" using assms(2) by (simp add: feed_event_ok_def)
    then obtain f' where f': "handleMaxArticlesPerFeedChanged m f = Some f'" using max_changed_returns by blast
    then show ?thesis using MaxArticles i m max_changed_inv [OF i(2) f'] max_changed_init [OF f'] by (auto simp: st rss_inv_def)
  qed (use assms(1) same in \<open>auto simp: st same_articles_def refresh_def send_def removal_def handleDownloadFinished_def
      feed_store_def step_keeps_init Let_def\<close>)
qed

lemma feed_run_inv:
  assumes "rss_inv e st" and "\<forall>ev \<in> set evs. feed_event_ok e ev" and "sorts (\<lambda>a b. fst b < fst a) srt" and "\<And>xs. set (hashOrder e xs) = set xs"
  shows "\<exists>st'. feed_run e srt evs st = Some st' \<and> rss_inv e st'"
  using assms(1,2)
proof (induction evs arbitrary: st)
  case (Cons ev evs)
  then obtain st' where "feed_step e srt ev st = Some st'" "rss_inv e st'"
    using feed_step_inv [OF Cons.prems(1) _ assms(3,4), of ev] by (metis list.set_intros(1))
  then show ?case using Cons by simp
qed simp

lemma new_feed_inv: "0 \<le> n \<Longrightarrow> rss_inv e (n, new_feed)"
  by (simp add: rss_inv_def new_feed_def feed_inv_def articles_ok_def by_date_def unread_def announced_def)

text \<open>
  C18. Whatever happens to a feed, in any order, while the limit of articles is never set below zero, what is loaded comes
  by date and what is parsed has no identifier twice: it goes on, its list has each of its articles once and by date,
  as many as the limit allows; the number of unread articles is that of the articles not read; and whoever follows its
  signals knows exactly its articles.
\<close>

theorem feed_stream_invariant:
  assumes "\<forall>ev \<in> set evs. feed_event_ok e ev" and "0 \<le> n"
    and "sorts (\<lambda>a b. fst b < fst a) srt" and "\<forall>xs. set (hashOrder e xs) = set xs"
  shows "\<exists>m f. feed_run e srt evs (n, new_feed) = Some (m, f)
    \<and> distinct (f_articlesByDate f) \<and> set (f_articlesByDate f) = dom (f_articles f)
    \<and> by_date f (f_articlesByDate f) \<and> int (length (f_articlesByDate f)) \<le> m
    \<and> f_unreadCount f = unread f (f_articlesByDate f)
    \<and> announced (f_signals f) = set (f_articlesByDate f)"
proof -
  obtain m f where "feed_run e srt evs (n, new_feed) = Some (m, f)" "rss_inv e (m, f)"
    using feed_run_inv [OF new_feed_inv [OF assms(2)] assms(1,3)] assms(4) by (metis surj_pair)
  then show ?thesis by (auto simp: rss_inv_def feed_inv_def)
qed

section \<open>A feed over a restart\<close>

text \<open>RFC 2822 dates have no fractions of a second.\<close>

definition whole_seconds :: "int \<Rightarrow> int" where
  "whole_seconds t = t div 1000 * 1000"

definition restored :: "article \<Rightarrow> article" where
  "restored a = a\<lparr>a_date := map_option whole_seconds (a_date a),
     a_data := (a_data a)(KeyDate \<mapsto> VDate (map_option whole_seconds (a_date a)))\<rparr>"

lemma restored_article:
  assumes "proper e a" and "\<And>d. rfcDate e (rfcText e d) = map_option whole_seconds d"
  shows "mkArticle e (load_article e (store_article e (a_data a))) = restored a"
    and "article_id e (load_article e (store_article e (a_data a))) = a_guid a"
proof -
  have a: "a = mkArticle e (a_data a)" using assms(1) by (simp add: proper_def)
  have d: "toDateTime e (value_of (a_data a) KeyDate) = a_date a" by (subst (2) a) (simp add: mkArticle_def)
  have g: "variant_toString e (value_of (a_data a) KeyId) = a_guid a" by (subst (2) a) (simp add: mkArticle_def)
  have l: "load_article e (store_article e (a_data a)) = (a_data a)(KeyDate \<mapsto> VDate (map_option whole_seconds (a_date a)))"
    using d by (simp add: load_article_def store_article_def value_of_def assms(2))
  have "mkArticle e ((a_data a)(KeyDate \<mapsto> VDate x)) = (mkArticle e (a_data a))\<lparr>a_date := x, a_data := (a_data a)(KeyDate \<mapsto> VDate x)\<rparr>" for x
    by (simp add: mkArticle_def value_of_def key_defs)
  then show "mkArticle e (load_article e (store_article e (a_data a))) = restored a" by (simp add: l restored_def flip: a)
  show "article_id e (load_article e (store_article e (a_data a))) = a_guid a"
    using g by (simp add: l article_id_def value_of_def key_defs)
qed

lemma map_filter_Some: "List.map_filter id (map Some xs) = xs"
  by (induction xs) (simp_all add: map_filter_simps)

lemma load_fold_articles:
  assumes "distinct (map (article_id e) ads)" and "\<forall>a \<in> set ads. f_articles f (article_id e a) = None"
  shows "f_articles (fold (load_one e) ads f) = f_articles f ++ map_of (map (\<lambda>a. (article_id e a, mkArticle e a)) ads)"
  using assms
proof (induction ads arbitrary: f)
  case (Cons a ads)
  have one: "f_articles (load_one e a f) = (f_articles f)(article_id e a \<mapsto> mkArticle e a)"
    using Cons.prems(2) by (simp add: load_one.simps Let_def article_id_def)
  have "f_articles (fold (load_one e) ads (load_one e a f))
      = f_articles (load_one e a f) ++ map_of (map (\<lambda>a. (article_id e a, mkArticle e a)) ads)"
    using Cons.prems one by (intro Cons.IH) (simp_all, metis imageI)
  moreover have "map_of (map (\<lambda>a. (article_id e a, mkArticle e a)) ads) (article_id e a) = None"
    using Cons.prems(1) by (auto simp: map_of_eq_None_iff image_image)
  ultimately show ?case by (auto simp: one fun_eq_iff map_add_def split: option.split)
qed simp

text \<open>
  C35. What a feed wrote to its file is what it has after the next start: the same articles with the same data, the
  date of each to the second, and the same number of unread ones.
\<close>

theorem feed_survives_restart:
  assumes "feed_inv e f" and "f_dirty f" and "f_file (feed_store e f) = Some file"
    and "int (length (f_articlesByDate f)) \<le> n"
    and "\<forall>d. rfcDate e (rfcText e d) = map_option whole_seconds d"
    and "\<forall>xs. mset (hashOrder e xs) = mset xs"
    and "sorts (\<lambda>a b. data_date e b < data_date e a) srt"
    and "f' = handleArticleLoadFinished e n (loadArticles e srt (map Some file)) new_feed"
  shows "f_articles f' = (\<lambda>g. map_option restored (f_articles f g))
    \<and> f_unreadCount f' = f_unreadCount f \<and> feed_inv e f'"
proof -
  define again where "again = (\<lambda>g. load_article e (store_article e (a_data (article_at f g))))"
  define ads where "ads = loadArticles e srt (map Some file)"
  have known: "f_articles f g = Some (article_at f g)" "proper e (article_at f g)" "a_guid (article_at f g) = g"
    if "g \<in> set (f_articlesByDate f)" for g
    using that assms(1) by (force simp: feed_inv_def articles_ok_def article_at_def)+
  have again: "mkArticle e (again g) = restored (article_at f g)" "article_id e (again g) = g"
    if "g \<in> set (f_articlesByDate f)" for g
    using restored_article [OF known(2)] known(3) that assms(5) by (simp_all add: again_def)
  have dist: "distinct (f_articlesByDate f)" using assms(1) by (simp add: feed_inv_def)
  have ms: "mset ads = image_mset again (mset (f_articlesByDate f))"
    using assms(2,3,6,7) by (auto simp: ads_def loadArticles_def map_filter_Some feed_store_def sorts_def again_def multiset.map_comp comp_def)
  have "mset (map (article_id e) ads) = image_mset (article_id e \<circ> again) (mset (f_articlesByDate f))"
    by (simp add: ms multiset.map_comp)
  also have "\<dots> = mset (f_articlesByDate f)" using again(2) by (auto intro!: image_mset_cong [of _ _ id, simplified])
  finally have ids: "distinct (map (article_id e) ads)" "length ads = length (f_articlesByDate f)"
    using dist by (metis mset_eq_imp_distinct_iff, metis length_map size_mset)
  have set: "set ads = again ` set (f_articlesByDate f)" using arg_cong [OF ms, of set_mset] by simp
  define f1 where "f1 = fold (load_one e) ads new_feed"
  have "sorted_wrt (\<lambda>a b. data_date e b \<le> data_date e a) ads"
    using assms(7) by (simp add: sorts_def ads_def loadArticles_def not_less)
  then have inv: "feed_inv e f'" "feed_inv e new_feed" 
    using loaded_inv [of e new_feed n ads] new_feed_inv [of 0 e] assms(4,8) by (auto simp: rss_inv_def ads_def new_feed_def)
  have same: "same_articles f1 f'"
    using ids(2) assms(4) unfolding assms(8)
    by (simp add: handleArticleLoadFinished_def Let_def same_articles_def send_def removal_def refresh_def flip: ads_def f1_def)
  have m: "f_articles f' = map_of (map (\<lambda>a. (article_id e a, mkArticle e a)) ads)"
    using same load_fold_articles [OF ids(1), of new_feed] by (simp add: same_articles_def f1_def new_feed_def)
  have at: "f_articles f' g = map_option restored (f_articles f g)" for g
  proof (cases "g \<in> set (f_articlesByDate f)")
    case True
    then have "(g, mkArticle e (again g)) \<in> set (map (\<lambda>a. (article_id e a, mkArticle e a)) ads)"
      using again(2) by (force simp: set)
    then have "f_articles f' g = Some (mkArticle e (again g))" using ids(1) unfolding m by (intro map_of_is_SomeI) (simp_all add: comp_def)
    then show ?thesis using True again(1) known(1) by simp
  next
    case False
    then have "f_articles f g = None" using assms(1) by (auto simp: feed_inv_def)
    moreover have "f_articles f' g = None" using False again(2) by (auto simp: m map_of_eq_None_iff image_image set)
    ultimately show ?thesis by simp
  qed
  have "set (f_articlesByDate f') = set (f_articlesByDate f)"
    using inv(1) assms(1) at by (auto simp: feed_inv_def dom_def set_eq_iff)
  then have "mset (f_articlesByDate f') = mset (f_articlesByDate f)"
    using inv(1) dist by (simp add: feed_inv_def set_eq_iff_mset_eq_distinct)
  moreover have "unread f' (f_articlesByDate f) = unread f (f_articlesByDate f)"
  proof (rule unread_cong, rule ballI)
    fix g
    assume "g \<in> set (f_articlesByDate f)"
    then have "f_articles f' g = Some (restored (article_at f g))" using at known(1) by simp
    then show "a_isRead (article_at f' g) = a_isRead (article_at f g)" by (simp add: article_at_def restored_def)
  qed
  ultimately have "f_unreadCount f' = f_unreadCount f" using inv(1) assms(1) by (simp add: feed_inv_def unread_mset)
  then show ?thesis using at inv(1) by auto
qed

section \<open>A concrete feed\<close>

definition seconds_text :: "int option \<Rightarrow> qstring" where
  "seconds_text d = (case d of None \<Rightarrow> [] | Some t \<Rightarrow>
     (if 0 \<le> t div 1000 then CHR ''+'' else CHR ''-'') # replicate (nat \<bar>t div 1000\<bar>) (CHR ''1''))"

definition seconds_date :: "qstring \<Rightarrow> int option" where
  "seconds_date s = (case s of [] \<Rightarrow> None | c # cs \<Rightarrow> Some ((if c = CHR ''+'' then 1 else - 1) * int (length cs) * 1000))"

definition rss_env_ex :: rss_env where
  "rss_env_ex = \<lparr>isoDate = (\<lambda>s. None), isoText = (\<lambda>d. []), rfcDate = seconds_date, rfcText = seconds_text, hashOrder = (\<lambda>xs. xs)\<rparr>"

definition recent_first :: "('a \<Rightarrow> int option) \<Rightarrow> 'a list \<Rightarrow> 'a list" where
  "recent_first d xs = rev (sort_key d xs)"

lemma recent_first_sorts: "sorts (\<lambda>a b. d b < d a) (recent_first d)"
proof -
  have "sorted_wrt (\<lambda>a b. d a \<le> d b) (sort_key d xs)" for xs
    using sorted_sort_key [of d xs] by (simp add: sorted_wrt_map)
  then show ?thesis by (simp add: sorts_def recent_first_def sorted_wrt_rev not_less)
qed

lemma seconds_roundtrip: "seconds_date (seconds_text d) = map_option whole_seconds d"
  by (auto simp: seconds_date_def seconds_text_def whole_seconds_def split: option.split)

definition article_ex :: "qstring \<Rightarrow> int \<Rightarrow> article_data" where
  "article_ex g t = [KeyId \<mapsto> VString g, KeyDate \<mapsto> VDate (Some t)]"

lemma article_ex_simps:
  "article_id rss_env_ex (article_ex g t) = g" "variant_toString rss_env_ex (value_of (article_ex g t) KeyId) = g"
  "toDateTime rss_env_ex (value_of (article_ex g t) KeyDate) = Some t" "value_of (article_ex g t) KeyIsRead = VNull"
  by (simp_all add: article_ex_def article_id_def value_of_def key_defs)

lemma new_feed_ok: "feed_inv e new_feed" "f_articlesByDate new_feed = []" "f_articles new_feed g = None"
  using new_feed_inv [of 0 e] by (simp_all add: rss_inv_def new_feed_def)

definition result_ex :: parsing_result where
  "result_ex = \<lparr>pr_error = [], pr_lastBuildDate = [], pr_title = ''t'', pr_articles = [article_ex ''b'' 1500, article_ex ''a'' 2500]\<rparr>"

theorem newest_articles_kept_witness:
  "top_of snd (int 1) (set (dated new_feed)
       \<union> stamp rss_env_ex ` set (new_articles rss_env_ex new_feed (Some 0) [article_ex ''b'' 1500, article_ex ''a'' 2500]))
     (dated (snd (updateArticles rss_env_ex (recent_first fst) 0 (int 1) [article_ex ''b'' 1500, article_ex ''a'' 2500] new_feed)))"
  by (rule newest_articles_kept [OF new_feed_ok(1) _ recent_first_sorts])
    (simp_all add: new_feed_ok article_ex_simps)

definition feed_events_ex :: "feed_event list" where
  "feed_events_ex = [RefreshAsked, Loaded [], DownloadDone True, ParsingDone 0 result_ex, Reading ''a'', MaxArticles 1]"

lemma feed_event_ok_ex: "\<forall>ev \<in> set feed_events_ex. feed_event_ok rss_env_ex ev"
  by (simp add: feed_events_ex_def feed_event_ok_def result_ex_def article_ex_simps)

theorem feed_stream_invariant_witness:
  "\<exists>m f. feed_run rss_env_ex (recent_first fst) feed_events_ex (50, new_feed) = Some (m, f)
    \<and> distinct (f_articlesByDate f) \<and> set (f_articlesByDate f) = dom (f_articles f)
    \<and> by_date f (f_articlesByDate f) \<and> int (length (f_articlesByDate f)) \<le> m
    \<and> f_unreadCount f = unread f (f_articlesByDate f)
    \<and> announced (f_signals f) = set (f_articlesByDate f)"
  by (rule feed_stream_invariant [OF feed_event_ok_ex _ recent_first_sorts]) (simp_all add: rss_env_ex_def)

definition feed_ex :: feed where
  "feed_ex = snd (addArticle rss_env_ex 50 (article_ex ''b'' 1500) new_feed)"

lemma feed_ex_simps:
  "feed_inv rss_env_ex feed_ex" "f_dirty feed_ex" "f_articlesByDate feed_ex = [''b'']" "f_unreadCount feed_ex = 1"
proof -
  show "feed_inv rss_env_ex feed_ex" unfolding feed_ex_def by (rule addArticle_inv) (simp_all add: new_feed_ok)
  show "f_dirty feed_ex" "f_articlesByDate feed_ex = [''b'']" "f_unreadCount feed_ex = 1"
    by (simp_all add: feed_ex_def addArticle_def Let_def lower_bound_def new_feed_def mkArticle_def article_ex_simps
        increaseUnreadCount_def send_def)
qed

theorem feed_survives_restart_witness:
  "f_unreadCount (handleArticleLoadFinished rss_env_ex 50 (loadArticles rss_env_ex (recent_first (data_date rss_env_ex))
     (map Some (the (f_file (feed_store rss_env_ex feed_ex))))) new_feed) = 1"
proof -
  have "f_file (feed_store rss_env_ex feed_ex) = Some (the (f_file (feed_store rss_env_ex feed_ex)))"
    using feed_ex_simps(2) by (simp add: feed_store_def)
  from feed_survives_restart [OF feed_ex_simps(1,2) this _ _ _ recent_first_sorts refl, of 50]
  show ?thesis using feed_ex_simps(3,4) by (simp add: rss_env_ex_def seconds_roundtrip)
qed

section \<open>Divergences\<close>

text \<open>
  A file that exists but cannot be read is never reported to its feed: whatever follows, the feed downloads nothing
  and shows no article.
\<close>

lemma unreadable_file_stalls:
  assumes "feed_run e srt evs (n, f) = Some (m, f')"
    and "\<forall>ev \<in> set evs. \<forall>x. ev \<noteq> Loaded x" and "\<not> f_isInitialized f" "\<not> f_downloading f" "f_articles f = Map.empty"
    and "f_articlesByDate f = []" and "hashOrder e [] = []"
  shows "\<not> f_isInitialized f' \<and> \<not> f_downloading f' \<and> f_articles f' = Map.empty"
  using assms(1-6)
proof (induction evs arbitrary: n f)
  case (Cons ev evs)
  obtain k f1 where f1: "feed_step e srt ev (n, f) = Some (k, f1)" "feed_run e srt evs (k, f1) = Some (m, f')"
    using Cons.prems(1) by (auto simp: bind_eq_Some_conv)
  have "\<not> f_isInitialized f1 \<and> \<not> f_downloading f1 \<and> f_articles f1 = Map.empty \<and> f_articlesByDate f1 = []"
    using f1(1) Cons.prems(2-6) assms(7)
    by (cases ev) (auto simp: refresh_def markArticleAsRead_def markAsRead_def Let_def feed_store_def
        handleMaxArticlesPerFeedChanged.simps split: if_splits)
  then show ?case using Cons.IH [OF f1(2)] Cons.prems(2) by simp
qed simp

end
