(* ===== verification/Rss_Documents.thy ===== *)
theory Rss_Documents
  imports Rss_Parser Rss_Feed_Runs
begin

text \<open>
  What the parser of \<open>Rss_Parser\<close> makes of documents: any document at all gives articles that can be told apart,
  and a written feed gives its items.
\<close>

section \<open>Reading on\<close>

lemma shrinks_article: "shrinks (rss_article_body fallback)"
  by (auto simp: shrinks_def rss_article_body_def rss_child_size split: option.split xml_token.split)

lemma parseRssArticle_size: "xml_size (snd (parseRssArticle e p x)) \<le> xml_size x"
  by (simp add: parseRssArticle_def case_prod_beta xml_loop_size shrinks_article)

lemma build_date_size: "xml_size (snd (snd (build_date_body p x))) \<le> xml_size x"
  by (simp add: build_date_body_def case_prod_beta readElementText_size)

lemma shrinks_rss_channel: "shrinks (rss_channel_body e)"
  by (auto simp: shrinks_def rss_channel_body_def case_prod_beta readElementText_size build_date_size parseRssArticle_size
      split: option.split xml_token.split)

lemma author_loop_size: "xml_size (snd (author_loop article x)) \<le> xml_size x"
proof (induction article x rule: author_loop.induct)
  case (1 article x)
  let ?r = "readNextStartElement x"
  have le: "xml_size (snd ?r) \<le> xml_size x" by (rule readNextStartElement_size)
  show ?case
  proof (cases "fst ?r \<and> (\<exists>n attrs. x_current (snd ?r) = Some (StartElement n attrs))")
    case True
    then obtain n attrs where c: "fst ?r" "x_current (snd ?r) = Some (StartElement n attrs)" by auto
    show ?thesis
    proof (cases "n = ''name''")
      case True
      then show ?thesis
        using "1.IH"(1) [OF refl refl _ c(2)] c le readElementText_size [of False "snd ?r"]
        by (simp add: author_loop.simps [of article x] Let_def fun_upd_def)
    next
      case False
      then show ?thesis
        using "1.IH"(2) [OF refl refl _ c(2)] c le skipCurrentElement_size [of "snd ?r"]
        by (simp add: author_loop.simps [of article x] Let_def)
    qed
  next
    case False
    then show ?thesis using le
      by (auto simp: author_loop.simps [of article x] Let_def split: option.split xml_token.split)
  qed
qed

lemma atom_child_size: "xml_size (snd (atom_child e p name attrs x st)) \<le> xml_size x"
  by (simp add: atom_child_def Let_def case_prod_beta readElementText_size skipCurrentElement_size author_loop_size)

lemma shrinks_atom_article: "shrinks (atom_article_body e p)"
  by (auto simp: shrinks_def atom_article_body_def atom_child_size split: option.split xml_token.split)

lemma parseAtomArticle_size: "xml_size (snd (parseAtomArticle e p x)) \<le> xml_size x"
  by (simp add: parseAtomArticle_def case_prod_beta xml_loop_size shrinks_atom_article)

lemma shrinks_atom_channel: "shrinks (atom_channel_body e)"
  by (auto simp: shrinks_def atom_channel_body_def case_prod_beta readElementText_size build_date_size parseAtomArticle_size
      split: option.split xml_token.split)

section \<open>Identified articles\<close>

definition identified :: "rss_env \<Rightarrow> article_data \<Rightarrow> bool" where
  "identified e a \<longleftrightarrow> article_id e a \<noteq> []
     \<and> (variant_toString e (value_of a KeyTorrentURL) = [] \<longrightarrow> variant_toString e (value_of a KeyLink) = [])"

definition parser_inv :: "rss_env \<Rightarrow> rss_parser \<Rightarrow> bool" where
  "parser_inv e p \<longleftrightarrow> distinct (map (article_id e) (pr_articles (p_result p)))
     \<and> p_articleIDs p = article_id e ` set (pr_articles (p_result p)) \<and> list_all (identified e) (pr_articles (p_result p))"

lemma identify_identified: "identify e a = Some b \<Longrightarrow> identified e b"
  by (auto simp: identify_def identified_def article_id_def Let_def value_of_def key_defs split: if_splits)

lemma parser_addArticle_inv: "parser_inv e p \<Longrightarrow> parser_inv e (parser_addArticle e a p)"
  by (auto simp: parser_inv_def parser_addArticle_def Let_def article_id_def [symmetric] dest: identify_identified split: option.split)

lemma parser_fields:
  "parser_inv e (set_title s p) = parser_inv e p" "parser_inv e (set_buildDate s p) = parser_inv e p"
  "parser_inv e (p\<lparr>p_baseUrl := u\<rparr>) = parser_inv e p" "parser_inv e (p\<lparr>p_fallbackDate := d\<rparr>) = parser_inv e p"
  by (simp_all add: parser_inv_def set_title_def set_buildDate_def)

lemma parseRssArticle_inv: "parser_inv e p \<Longrightarrow> parser_inv e (fst (parseRssArticle e p x))"
  by (simp add: parseRssArticle_def case_prod_beta parser_addArticle_inv)

lemma parseAtomArticle_inv: "parser_inv e p \<Longrightarrow> parser_inv e (fst (parseAtomArticle e p x))"
  by (simp add: parseAtomArticle_def case_prod_beta parser_addArticle_inv)

lemma build_date_inv: "parser_inv e p \<Longrightarrow> parser_inv e (fst (snd (build_date_body p x)))"
  by (simp add: build_date_body_def case_prod_beta parser_fields)

lemma rss_channel_inv: "parser_inv e p \<Longrightarrow> parser_inv e (fst (parseRSSChannel e p x))"
  unfolding parseRSSChannel_def
  by (rule xml_loop_inv [OF shrinks_rss_channel])
    (auto simp: rss_channel_body_def case_prod_beta parser_fields build_date_inv parseRssArticle_inv split: option.split xml_token.split)

lemma atom_channel_inv: "parser_inv e p \<Longrightarrow> parser_inv e (fst (parseAtomChannel e attrs p x))"
  unfolding parseAtomChannel_def
  by (rule xml_loop_inv [OF shrinks_atom_channel])
    (auto simp: atom_channel_body_def case_prod_beta parser_fields build_date_inv parseAtomArticle_inv split: option.split xml_token.split)

lemma parse_root_inv: "parser_inv e p \<Longrightarrow> parser_inv e (fst (snd (parse_root e p x)))"
proof (induction e p x rule: parse_root.induct)
  case (1 e p x)
  let ?r = "readNextStartElement x"
  show ?case
  proof (cases "fst ?r")
    case True
    have "parser_inv e (fst (snd (parse_root e p (skipCurrentElement (snd ?r)))))"
      if "x_current (snd ?r) = Some (StartElement n attrs)" "n \<noteq> ''rss''" "n \<noteq> ''feed''" for n attrs
      using "1.IH" [OF refl refl] True "1.prems" that by simp
    then show ?thesis using True "1.prems"
      by (auto simp: parse_root.simps [of e p x] Let_def case_prod_beta rss_channel_inv atom_channel_inv
          split: option.split xml_token.split)
  qed (use "1.prems" in \<open>simp add: parse_root.simps [of e p x] Let_def\<close>)
qed

definition ready :: "rss_parser \<Rightarrow> bool" where
  "ready p \<longleftrightarrow> pr_articles (p_result p) = [] \<and> p_articleIDs p = {}"

lemma new_parser_ready: "ready (new_parser d)" by (simp add: ready_def new_parser_def)

lemma parse_inv:
  assumes "ready p"
  shows "ready (snd (parse_feed e msg now toks malformed p))"
    and "distinct (map (article_id e) (pr_articles (fst (parse_feed e msg now toks malformed p))))"
    and "list_all (identified e) (pr_articles (fst (parse_feed e msg now toks malformed p)))"
proof -
  have "parser_inv e (p\<lparr>p_fallbackDate := Some now\<rparr>)" using assms by (simp add: parser_inv_def ready_def)
  from parse_root_inv [OF this, of "new_xml toks malformed"]
  show "distinct (map (article_id e) (pr_articles (fst (parse_feed e msg now toks malformed p))))"
    "list_all (identified e) (pr_articles (fst (parse_feed e msg now toks malformed p)))"
    by (simp_all add: parse_feed_def Let_def case_prod_beta parser_inv_def)
  show "ready (snd (parse_feed e msg now toks malformed p))" by (simp add: parse_feed_def Let_def case_prod_beta ready_def)
qed

text \<open>The results of one document after the other.\<close>

fun parse_all :: "rss_env \<Rightarrow> qstring \<Rightarrow> (int \<times> xml_token list \<times> bool) list \<Rightarrow> rss_parser \<Rightarrow> parsing_result list" where
  "parse_all e msg [] p = []"
| "parse_all e msg ((now, toks, malformed) # docs) p =
     (case parse_feed e msg now toks malformed p of (r, p1) \<Rightarrow> r # parse_all e msg docs p1)"

lemma parse_all_inv:
  "ready p \<Longrightarrow> r \<in> set (parse_all e msg docs p) \<Longrightarrow>
     distinct (map (article_id e) (pr_articles r)) \<and> list_all (identified e) (pr_articles r)"
proof (induction docs arbitrary: p)
  case (Cons doc docs)
  obtain now toks malformed where doc: "doc = (now, toks, malformed)" using prod_cases3 by blast
  show ?case using Cons parse_inv [OF Cons.prems(1), of e msg now toks malformed] by (auto simp: doc case_prod_beta)
qed simp

text \<open>
  C22. Whatever a server sends for a feed, time after time, well-formed or not: the articles parsed from it have distinct
  identifiers that are not empty, and one without a torrent has no link either. So every result may be given to the feed.
\<close>

theorem parsed_articles_identified:
  "list_all (\<lambda>r. distinct (map (article_id e) (pr_articles r)) \<and> list_all (identified e) (pr_articles r)
      \<and> feed_event_ok e (ParsingDone now r))
    (parse_all e msg docs (new_parser d))"
  using parse_all_inv [OF new_parser_ready] by (auto simp: list_all_iff feed_event_ok_def)

section \<open>A written document\<close>

definition reader :: "xml_token option \<Rightarrow> xml_token list \<Rightarrow> bool \<Rightarrow> xml" where
  "reader c ts m = \<lparr>x_current = c, x_rest = ts, x_malformed = m, x_atEnd = False, x_error = False\<rparr>"

lemma readNext_reader: "readNext (reader c (t # ts) m) = reader (Some t) ts m"
  by (simp add: reader_def readNext_def at_end_def)

lemma reader_simps [simp]: "\<not> at_end (reader c ts m)" "x_current (reader c ts m) = c" "x_error (reader c ts m) = False"
  by (simp_all add: reader_def at_end_def)

lemma loop_reader:
  "shrinks body \<Longrightarrow> xml_loop body s (reader c (t # ts) m) =
     (case body (Some t) s (reader (Some t) ts m) of (stop, s', x') \<Rightarrow> if stop then (s', x') else xml_loop body s' x')"
  by (simp add: xml_loop_step readNext_reader)

lemma text_reader:
  "readElementText b (reader (Some (StartElement n a)) (Characters s # EndElement k # ts) m) = (s, reader (Some (EndElement k)) ts m)"
  by (simp add: readElementText_def reader_def)

definition element :: "qstring \<Rightarrow> qstring \<Rightarrow> xml_token list" where
  "element n s = [StartElement n [], Characters s, EndElement n]"

record feed_item =
  i_title :: qstring
  i_guid :: qstring
  i_torrent :: qstring
  i_date :: qstring

definition item_tokens :: "feed_item \<Rightarrow> xml_token list" where
  "item_tokens i = StartElement ''item'' [] # element ''title'' (i_title i) @ element ''guid'' (i_guid i)
     @ [StartElement ''enclosure'' [(''type'', ''application/x-bittorrent''), (''url'', i_torrent i)], EndElement ''enclosure'']
     @ element ''pubDate'' (i_date i) @ [EndElement ''item'']"

definition item_article :: "int \<Rightarrow> feed_item \<Rightarrow> article_data" where
  "item_article now i =
     [KeyTitle \<mapsto> VString (trimmed (i_title i)), KeyId \<mapsto> VString (trimmed (i_guid i)), KeyTorrentURL \<mapsto> VString (i_torrent i),
      KeyDate \<mapsto> VDate (parseDate (trimmed (i_date i)) (Some now))]"

lemma item_loop:
  "xml_loop (rss_article_body fb) st (reader c (tl (item_tokens i) @ ts) m)
    = (case st of (a, alt) \<Rightarrow> ((a(KeyTitle \<mapsto> VString (trimmed (i_title i)), KeyId \<mapsto> VString (trimmed (i_guid i)),
        KeyTorrentURL \<mapsto> VString (i_torrent i), KeyDate \<mapsto> VDate (parseDate (trimmed (i_date i)) fb)), alt), reader (Some (EndElement ''item'')) ts m))"
  by (cases st) (simp add: item_tokens_def element_def loop_reader shrinks_article rss_article_body_def rss_child_def text_reader attr_value_def)

lemma item_parsed:
  assumes "i_torrent i \<noteq> []" and "trimmed (i_guid i) \<noteq> []" and "trimmed (i_guid i) \<notin> p_articleIDs p" and "p_fallbackDate p = Some now"
  shows "parseRssArticle e p (reader c (tl (item_tokens i) @ ts) m) =
    (p\<lparr>p_articleIDs := insert (trimmed (i_guid i)) (p_articleIDs p),
       p_result := (p_result p)\<lparr>pr_articles := item_article now i # pr_articles (p_result p)\<rparr>\<rparr>, reader (Some (EndElement ''item'')) ts m)"
proof -
  have a: "item_article now i KeyId = Some (VString (trimmed (i_guid i)))" "item_article now i KeyTorrentURL = Some (VString (i_torrent i))"
    by (simp_all add: item_article_def key_defs)
  have "identify e (item_article now i) = Some (item_article now i)" using assms(1,2) a by (simp add: identify_def Let_def value_of_def)
  then have "parser_addArticle e (item_article now i) p = p\<lparr>p_articleIDs := insert (trimmed (i_guid i)) (p_articleIDs p),
       p_result := (p_result p)\<lparr>pr_articles := item_article now i # pr_articles (p_result p)\<rparr>\<rparr>"
    using assms(3) a by (simp add: parser_addArticle_def value_of_def)
  then show ?thesis using assms(1,4) a
    by (simp add: parseRssArticle_def item_loop value_of_def flip: item_article_def)
qed

definition channel_tokens :: "qstring \<Rightarrow> feed_item list \<Rightarrow> xml_token list" where
  "channel_tokens title items =
     [StartElement ''rss'' [], StartElement ''channel'' []] @ element ''title'' title @ concat (map item_tokens items)
       @ [EndElement ''channel'', EndElement ''rss'']"

lemma loop_end:
  assumes "shrinks body" and "\<And>s x. body None s x = (False, s, x)"
  shows "xml_loop body s (reader c [] m) = (s, \<lparr>x_current = None, x_rest = [], x_malformed = m, x_atEnd = True, x_error = m\<rparr>)"
proof -
  have "readNext (reader c [] m) = \<lparr>x_current = None, x_rest = [], x_malformed = m, x_atEnd = True, x_error = m\<rparr>"
    by (simp add: reader_def readNext_def at_end_def)
  then show ?thesis by (simp add: xml_loop_step assms) (simp add: xml_loop.simps at_end_def)
qed

lemma channel_item:
  assumes "i_torrent i \<noteq> []" and "trimmed (i_guid i) \<noteq> []" and "trimmed (i_guid i) \<notin> p_articleIDs p" and "p_fallbackDate p = Some now"
  shows "xml_loop (rss_channel_body e) p (reader c (item_tokens i @ ts) m) =
    xml_loop (rss_channel_body e)
      (p\<lparr>p_articleIDs := insert (trimmed (i_guid i)) (p_articleIDs p),
         p_result := (p_result p)\<lparr>pr_articles := item_article now i # pr_articles (p_result p)\<rparr>\<rparr>)
      (reader (Some (EndElement ''item'')) ts m)"
proof -
  have "item_tokens i = StartElement ''item'' [] # tl (item_tokens i)" by (simp add: item_tokens_def)
  then have "reader c (item_tokens i @ ts) m = reader c (StartElement ''item'' [] # tl (item_tokens i) @ ts) m" by (metis append_Cons)
  then show ?thesis using item_parsed [OF assms, of e]
    by (simp add: loop_reader shrinks_rss_channel) (simp add: rss_channel_body_def)
qed

lemma channel_items:
  assumes "\<forall>i \<in> set items. i_torrent i \<noteq> [] \<and> trimmed (i_guid i) \<noteq> []"
    and "distinct (map (\<lambda>i. trimmed (i_guid i)) items)" and "p_fallbackDate p = Some now"
    and "\<forall>i \<in> set items. trimmed (i_guid i) \<notin> p_articleIDs p"
  shows "\<exists>c'. xml_loop (rss_channel_body e) p (reader c (concat (map item_tokens items) @ ts) m) =
    xml_loop (rss_channel_body e)
      (p\<lparr>p_articleIDs := (\<lambda>i. trimmed (i_guid i)) ` set items \<union> p_articleIDs p,
         p_result := (p_result p)\<lparr>pr_articles := rev (map (item_article now) items) @ pr_articles (p_result p)\<rparr>\<rparr>)
      (reader c' ts m)"
  using assms
proof (induction items arbitrary: p c)
  case (Cons i items)
  let ?p = "p\<lparr>p_articleIDs := insert (trimmed (i_guid i)) (p_articleIDs p),
         p_result := (p_result p)\<lparr>pr_articles := item_article now i # pr_articles (p_result p)\<rparr>\<rparr>"
  have "\<forall>j \<in> set items. trimmed (i_guid j) \<notin> p_articleIDs ?p" using Cons.prems(2,4)
    by (auto simp: image_iff)
  then obtain c' where
    "xml_loop (rss_channel_body e) ?p (reader (Some (EndElement ''item'')) (concat (map item_tokens items) @ ts) m) =
      xml_loop (rss_channel_body e)
      (?p\<lparr>p_articleIDs := (\<lambda>i. trimmed (i_guid i)) ` set items \<union> p_articleIDs ?p,
         p_result := (p_result ?p)\<lparr>pr_articles := rev (map (item_article now) items) @ pr_articles (p_result ?p)\<rparr>\<rparr>)
      (reader c' ts m)" using Cons.IH [of ?p "Some (EndElement ''item'')"] Cons.prems(1-3) by auto
  then show ?case using channel_item [of i p now e c "concat (map item_tokens items) @ ts" m] Cons.prems by auto
qed auto

lemma start_reader:
  "readNextStartElement (reader c (StartElement n a # ts) m) = (True, reader (Some (StartElement n a)) ts m)"
  by (simp add: readNextStartElement.simps readNext_reader)

text \<open>
  C32. A feed written as RSS with a title, without a build date, whose items have a title, an identifier, an enclosure and a
  date, the identifiers distinct and not blank and the addresses of the enclosures not empty, is parsed into exactly
  its items, the last one first, each with its texts trimmed of blanks, by a parser that is between two documents.
\<close>

theorem feed_document_roundtrip:
  assumes "\<forall>i \<in> set items. i_torrent i \<noteq> [] \<and> trimmed (i_guid i) \<noteq> []"
    and "distinct (map (\<lambda>i. trimmed (i_guid i)) items)" and "ready p"
  shows "fst (parse_feed e msg now (channel_tokens title items) False p) =
    (p_result p)\<lparr>pr_title := title, pr_articles := rev (map (item_article now) items)\<rparr>"
proof -
  define p1 where "p1 = set_title title (p\<lparr>p_fallbackDate := Some now\<rparr>)"
  define ts where "ts = concat (map item_tokens items) @ [EndElement ''channel'', EndElement ''rss'']"
  have p1: "p_fallbackDate p1 = Some now" "p_articleIDs p1 = {}" "pr_articles (p_result p1) = []"
    "p_result p1 = (p_result p)\<lparr>pr_title := title\<rparr>"
    using assms(3) by (simp_all add: p1_def set_title_def ready_def)
  have "xml_loop (rss_channel_body e) (p\<lparr>p_fallbackDate := Some now\<rparr>)
      (reader (Some (StartElement ''channel'' [])) (element ''title'' title @ ts) False) =
    xml_loop (rss_channel_body e) p1 (reader (Some (EndElement ''title'')) ts False)"
    by (simp add: element_def loop_reader shrinks_rss_channel rss_channel_body_def text_reader p1_def)
  also obtain c' where "\<dots> = xml_loop (rss_channel_body e)
      (p1\<lparr>p_articleIDs := (\<lambda>i. trimmed (i_guid i)) ` set items \<union> p_articleIDs p1,
         p_result := (p_result p1)\<lparr>pr_articles := rev (map (item_article now) items) @ pr_articles (p_result p1)\<rparr>\<rparr>)
      (reader c' [EndElement ''channel'', EndElement ''rss''] False)"
    using channel_items [OF assms(1,2) p1(1), of e "Some (EndElement ''title'')" "[EndElement ''channel'', EndElement ''rss'']" False] p1(2)
    unfolding ts_def by auto
  also have "\<dots> = (p1\<lparr>p_articleIDs := (\<lambda>i. trimmed (i_guid i)) ` set items,
         p_result := (p_result p1)\<lparr>pr_articles := rev (map (item_article now) items)\<rparr>\<rparr>,
       \<lparr>x_current = None, x_rest = [], x_malformed = False, x_atEnd = True, x_error = False\<rparr>)"
    by (simp add: loop_reader shrinks_rss_channel rss_channel_body_def [of _ "Some (EndElement n)" for n] loop_end
        rss_channel_body_def [of _ None] p1(2,3))
  finally have run: "parseRSSChannel e (p\<lparr>p_fallbackDate := Some now\<rparr>)
      (reader (Some (StartElement ''channel'' [])) (element ''title'' title @ ts) False) = \<dots>"
    by (simp add: parseRSSChannel_def)
  have new: "new_xml (channel_tokens title items) False
      = reader None (StartElement ''rss'' [] # StartElement ''channel'' [] # element ''title'' title @ ts) False"
    by (simp add: new_xml_def reader_def channel_tokens_def ts_def)
  show ?thesis
    unfolding parse_feed_def new
    by (subst parse_root.simps) (simp add: start_reader find_channel.simps run p1(4))
qed

definition item_ex :: feed_item where
  "item_ex = \<lparr>i_title = ''Show'', i_guid = ''1'', i_torrent = ''u'', i_date = ''Tue, 03 Jun 2025 09:39:21 +0200''\<rparr>"

theorem feed_document_roundtrip_witness:
  "fst (parse_feed rss_env_ex [] 0 (channel_tokens ''t'' [item_ex]) False (new_parser [])) =
    (p_result (new_parser []))\<lparr>pr_title := ''t'', pr_articles := rev (map (item_article 0) [item_ex])\<rparr>"
proof (rule feed_document_roundtrip)
  have "trimmed ''1'' = ''1''" by code_simp
  then show "\<forall>i \<in> set [item_ex]. i_torrent i \<noteq> [] \<and> trimmed (i_guid i) \<noteq> []" by (simp add: item_ex_def)
qed (simp_all add: new_parser_ready)

section \<open>Divergences\<close>

text \<open>
  The date of the last change is remembered as soon as it is read. When the rest of the document is cut off, the whole
  document is later taken for unchanged, and its articles are never read.
\<close>

definition dated_tokens :: "xml_token list \<Rightarrow> xml_token list" where
  "dated_tokens rest = [StartElement ''rss'' [], StartElement ''channel'' []] @ element ''lastBuildDate'' ''D'' @ rest"

lemma truncated_feed_is_lost:
  assumes "fst (parse_feed e msg now (dated_tokens []) True (new_parser [])) = r1"
    and "snd (parse_feed e msg now (dated_tokens []) True (new_parser [])) = p1"
    and "fst (parse_feed e msg later (dated_tokens rest) malformed p1) = r2"
  shows "pr_error r1 = msg \<and> pr_lastBuildDate r1 = ''D'' \<and> pr_error r2 = [] \<and> pr_articles r2 = []"
proof -
  have new: "new_xml (dated_tokens ts) m = reader None (StartElement ''rss'' [] # StartElement ''channel'' [] # element ''lastBuildDate'' ''D'' @ ts) m" for ts m
    by (simp add: new_xml_def reader_def dated_tokens_def)
  have first: "xml_loop (rss_channel_body e) ((new_parser [])\<lparr>p_fallbackDate := Some now\<rparr>)
      (reader (Some (StartElement ''channel'' [])) (element ''lastBuildDate'' ''D'') True)
    = (set_buildDate ''D'' ((new_parser [])\<lparr>p_fallbackDate := Some now\<rparr>),
       \<lparr>x_current = None, x_rest = [], x_malformed = True, x_atEnd = True, x_error = True\<rparr>)"
    by (simp add: element_def loop_reader shrinks_rss_channel rss_channel_body_def [of _ "Some t" for t] text_reader build_date_body_def
        new_parser_def loop_end rss_channel_body_def [of _ None])
  define q where "q = set_buildDate ''D'' ((new_parser [])\<lparr>p_fallbackDate := Some now\<rparr>)"
  have "parse_feed e msg now (dated_tokens []) True (new_parser []) = ((p_result q)\<lparr>pr_error := msg\<rparr>,
      q\<lparr>p_result := (p_result q)\<lparr>pr_articles := [], pr_error := []\<rparr>, p_articleIDs := {}\<rparr>)"
    unfolding parse_feed_def new
    by (simp add: parse_root.simps [of _ _ "reader c ts m" for c ts m] start_reader find_channel.simps parseRSSChannel_def first flip: q_def)
  then have p1: "pr_lastBuildDate (p_result p1) = ''D''" "pr_articles (p_result p1) = []" "pr_error (p_result p1) = []"
    "pr_error r1 = msg" "pr_lastBuildDate r1 = ''D''"
    using assms(1,2) by (auto simp: q_def set_buildDate_def new_parser_def)
  have "xml_loop (rss_channel_body e) (p1\<lparr>p_fallbackDate := Some later\<rparr>)
      (reader (Some (StartElement ''channel'' [])) (element ''lastBuildDate'' ''D'' @ rest) malformed)
    = (p1\<lparr>p_fallbackDate := Some later\<rparr>, reader (Some (EndElement ''lastBuildDate'')) rest malformed)"
    by (simp add: element_def loop_reader shrinks_rss_channel rss_channel_body_def text_reader build_date_body_def p1)
  then have "r2 = p_result p1"
    using assms(3) unfolding parse_feed_def new
    by (simp add: parse_root.simps [of _ _ "reader c ts m" for c ts m] start_reader find_channel.simps parseRSSChannel_def Let_def)
  then show ?thesis using p1 by simp
qed

text \<open>
  Elements with other names are kept under their name, so a document can set the fields the program keeps for itself: an
  element \<^verbatim>\<open>isRead\<close> makes the article read when it arrives, and one called
  \<^verbatim>\<open>torrentURL\<close> is its torrent.
\<close>

lemma foreign_element_sets_field:
  "a_isRead (mkArticle e (fst (fst (rss_child fb ''isRead'' [] (reader (Some (StartElement ''isRead'' []))
      (Characters ''true'' # EndElement ''isRead'' # ts) m) st))))"
  "a_torrentURL (mkArticle e (fst (fst (rss_child fb ''torrentURL'' [] (reader (Some (StartElement ''torrentURL'' []))
      (Characters u # EndElement ''torrentURL'' # ts) m) st)))) = u"
proof -
  have "to_lower ''true'' = ''true''" by code_simp
  then show "a_isRead (mkArticle e (fst (fst (rss_child fb ''isRead'' [] (reader (Some (StartElement ''isRead'' []))
      (Characters ''true'' # EndElement ''isRead'' # ts) m) st))))"
    by (cases st) (simp add: rss_child_def text_reader mkArticle_def value_of_def key_defs)
  show "a_torrentURL (mkArticle e (fst (fst (rss_child fb ''torrentURL'' [] (reader (Some (StartElement ''torrentURL'' []))
      (Characters u # EndElement ''torrentURL'' # ts) m) st)))) = u"
    by (cases st) (simp add: rss_child_def text_reader mkArticle_def value_of_def key_defs)
qed

end
