(* ===== verification/Add_Params.thy ===== *)
theory Add_Params
  imports Complex_Main Torrent_State Path
begin

text \<open>
  How a torrent is to be added, \<^verbatim>\<open>src/src/base/bittorrent/addtorrentparams.cpp\<close>: the parameters and
  their form in JSON, with the values of \<^verbatim>\<open>QJsonValue\<close> and its conversions. Certificates and keys are their PEM
  texts. Normalising paths, reading keys and the order of a set of tags are parameters.
\<close>

section \<open>JSON\<close>

datatype json =
    JUndefined
  | JNull
  | JBool bool
  | JNumber rat
  | JString qstring
  | JArray "json list"
  | JObject "(qstring \<times> json) list"

type_synonym json_object = "(qstring \<times> json) list"

definition jvalue :: "json_object \<Rightarrow> qstring \<Rightarrow> json" where
  "jvalue obj k = (case map_of obj k of None \<Rightarrow> JUndefined | Some v \<Rightarrow> v)"

fun j_toString :: "json \<Rightarrow> qstring" where
  "j_toString (JString s) = s"
| "j_toString _ = []"

fun j_toBool :: "json \<Rightarrow> bool \<Rightarrow> bool" where
  "j_toBool (JBool b) d = b"
| "j_toBool _ d = d"

definition int_range :: "int \<Rightarrow> bool" where
  "int_range i \<longleftrightarrow> - (2 ^ 31) \<le> i \<and> i < 2 ^ 31"

fun j_toInt :: "json \<Rightarrow> int \<Rightarrow> int" where
  "j_toInt (JNumber r) d = (if of_int \<lfloor>r\<rfloor> = r \<and> int_range \<lfloor>r\<rfloor> then \<lfloor>r\<rfloor> else d)"
| "j_toInt _ d = d"

fun j_toDouble :: "json \<Rightarrow> rat \<Rightarrow> rat" where
  "j_toDouble (JNumber r) d = r"
| "j_toDouble _ d = d"

fun j_toArray :: "json \<Rightarrow> json list" where
  "j_toArray (JArray xs) = xs"
| "j_toArray _ = []"

fun j_toObject :: "json \<Rightarrow> json_object" where
  "j_toObject (JObject m) = m"
| "j_toObject _ = []"

definition j_int :: "int \<Rightarrow> json" where
  "j_int i = JNumber (of_int i)"

definition fromStringList :: "qstring list \<Rightarrow> json" where
  "fromStringList xs = JArray (map JString xs)"

lemma j_int_value [simp]: "int_range i \<Longrightarrow> j_toInt (j_int i) d = i"
  by (simp add: j_int_def)

section \<open>Parameters\<close>

datatype content_layout = Original | Subfolder | NoSubfolder

record add_params =
  ap_name :: qstring
  ap_category :: qstring
  ap_tags :: "tag set"
  ap_savePath :: path
  ap_useDownloadPath :: "bool option"
  ap_downloadPath :: path
  ap_sequential :: bool
  ap_firstLastPiecePriority :: bool
  ap_addForced :: bool
  ap_addToQueueTop :: "bool option"
  ap_addStopped :: "bool option"
  ap_stopCondition :: "stop_condition option"
  ap_filePaths :: "path list"
  ap_filePriorities :: "int list"
  ap_skipChecking :: bool
  ap_contentLayout :: "content_layout option"
  ap_useAutoTMM :: "bool option"
  ap_uploadLimit :: int
  ap_downloadLimit :: int
  ap_seedingTimeLimit :: int
  ap_inactiveSeedingTimeLimit :: int
  ap_ratioLimit :: rat
  ap_shareLimitAction :: share_limit_action
  ap_certificate :: qbytearray
  ap_privateKey :: qbytearray
  ap_dhParams :: qbytearray

definition default_params :: add_params where
  "default_params =
     \<lparr>ap_name = [], ap_category = [], ap_tags = {}, ap_savePath = [], ap_useDownloadPath = None, ap_downloadPath = [],
      ap_sequential = False, ap_firstLastPiecePriority = False, ap_addForced = False, ap_addToQueueTop = None,
      ap_addStopped = None, ap_stopCondition = None, ap_filePaths = [], ap_filePriorities = [], ap_skipChecking = False, ap_contentLayout = None, ap_useAutoTMM = None,
      ap_uploadLimit = - 1, ap_downloadLimit = - 1, ap_seedingTimeLimit = - 2, ap_inactiveSeedingTimeLimit = - 2,
      ap_ratioLimit = - 2, ap_shareLimitAction = Default, ap_certificate = [], ap_privateKey = [], ap_dhParams = []\<rparr>"

record params_env =
  pe_cleanPath :: "qstring \<Rightarrow> qstring"
  pe_tagOrder :: "tag set \<Rightarrow> tag list"
  pe_certificate :: "qbytearray \<Rightarrow> qbytearray"
  pe_privateKey :: "qbytearray \<Rightarrow> qbytearray"

section \<open>Enumerations as text\<close>

fun stop_text :: "stop_condition \<Rightarrow> qstring" where
  "stop_text StopNone = ''None''"
| "stop_text MetadataReceived = ''MetadataReceived''"
| "stop_text FilesChecked = ''FilesChecked''"

fun layout_text :: "content_layout \<Rightarrow> qstring" where
  "layout_text Original = ''Original''"
| "layout_text Subfolder = ''Subfolder''"
| "layout_text NoSubfolder = ''NoSubfolder''"

fun share_action_text :: "share_limit_action \<Rightarrow> qstring" where
  "share_action_text Default = ''Default''"
| "share_action_text Stop = ''Stop''"
| "share_action_text Remove = ''Remove''"
| "share_action_text EnableSuperSeeding = ''EnableSuperSeeding''"
| "share_action_text RemoveWithContent = ''RemoveWithContent''"

fun mode_text :: "operating_mode \<Rightarrow> qstring" where
  "mode_text AutoManaged = ''AutoManaged''"
| "mode_text Forced = ''Forced''"

text \<open>\<^verbatim>\<open>Utils::String::toEnum\<close>: the value with this text among \<open>xs\<close>, or the default.\<close>

definition toEnum :: "('a \<Rightarrow> qstring) \<Rightarrow> 'a list \<Rightarrow> qstring \<Rightarrow> 'a \<Rightarrow> 'a" where
  "toEnum text_of xs s d = (case find (\<lambda>x. text_of x = s) xs of None \<Rightarrow> d | Some x \<Rightarrow> x)"

definition toStop :: "qstring \<Rightarrow> stop_condition \<Rightarrow> stop_condition" where
  "toStop = toEnum stop_text [StopNone, MetadataReceived, FilesChecked]"

definition toLayout :: "qstring \<Rightarrow> content_layout \<Rightarrow> content_layout" where
  "toLayout = toEnum layout_text [Original, Subfolder, NoSubfolder]"

definition toShareAction :: "qstring \<Rightarrow> share_limit_action \<Rightarrow> share_limit_action" where
  "toShareAction = toEnum share_action_text [Default, Stop, Remove, RemoveWithContent, EnableSuperSeeding]"

definition toMode :: "qstring \<Rightarrow> operating_mode \<Rightarrow> operating_mode" where
  "toMode = toEnum mode_text [AutoManaged, Forced]"

lemma toEnum_text [simp]:
  "toStop (stop_text a) d1 = a"
  "toLayout (layout_text b) d2 = b"
  "toShareAction (share_action_text c) d3 = c"
  "toMode (mode_text m) d4 = m"
  by (cases a; cases b; cases c; cases m; simp add: toStop_def toLayout_def toShareAction_def toMode_def toEnum_def)+

section \<open>Reading and writing\<close>

definition getOptionalBool :: "json_object \<Rightarrow> qstring \<Rightarrow> bool option" where
  "getOptionalBool obj key = (case jvalue obj key of JUndefined \<Rightarrow> None | JNull \<Rightarrow> None | v \<Rightarrow> Some (j_toBool v False))"

definition getOptionalEnum :: "(qstring \<Rightarrow> 'a \<Rightarrow> 'a) \<Rightarrow> 'a \<Rightarrow> json_object \<Rightarrow> qstring \<Rightarrow> 'a option" where
  "getOptionalEnum conv zero obj key =
     (case jvalue obj key of JUndefined \<Rightarrow> None | JNull \<Rightarrow> None | v \<Rightarrow> Some (conv (j_toString v) zero))"

definition parseTagSet :: "json list \<Rightarrow> tag set" where
  "parseTagSet arr = set (map (\<lambda>v. mkTag (j_toString v)) arr)"

definition parseAddTorrentParams :: "params_env \<Rightarrow> json_object \<Rightarrow> add_params" where
  "parseAddTorrentParams e obj =
     (let text = (\<lambda>k. j_toString (jvalue obj k)); number = (\<lambda>k d. j_toInt (jvalue obj k) d) in
      \<lparr>ap_name = [],
       ap_category = text ''category'',
       ap_tags = parseTagSet (j_toArray (jvalue obj ''tags'')),
       ap_savePath = path_of_string (pe_cleanPath e) (text ''save_path''),
       ap_useDownloadPath = getOptionalBool obj ''use_download_path'',
       ap_downloadPath = path_of_string (pe_cleanPath e) (text ''download_path''),
       ap_sequential = False,
       ap_firstLastPiecePriority = False,
       ap_addForced = (toMode (text ''operating_mode'') AutoManaged = Forced),
       ap_addToQueueTop = getOptionalBool obj ''add_to_top_of_queue'',
       ap_addStopped = getOptionalBool obj ''stopped'',
       ap_stopCondition = getOptionalEnum toStop StopNone obj ''stop_condition'',
       ap_filePaths = [],
       ap_filePriorities = [],
       ap_skipChecking = j_toBool (jvalue obj ''skip_checking'') False,
       ap_contentLayout = getOptionalEnum toLayout Original obj ''content_layout'',
       ap_useAutoTMM = getOptionalBool obj ''use_auto_tmm'',
       ap_uploadLimit = number ''upload_limit'' (- 1),
       ap_downloadLimit = number ''download_limit'' (- 1),
       ap_seedingTimeLimit = number ''seeding_time_limit'' (- 2),
       ap_inactiveSeedingTimeLimit = number ''inactive_seeding_time_limit'' (- 2),
       ap_ratioLimit = j_toDouble (jvalue obj ''ratio_limit'') (- 2),
       ap_shareLimitAction = toShareAction (text ''share_limit_action'') Default,
       ap_certificate = pe_certificate e (text ''ssl_certificate''),
       ap_privateKey = pe_privateKey e (text ''ssl_private_key''),
       ap_dhParams = text ''ssl_dh_params''\<rparr>)"

definition optional :: "qstring \<Rightarrow> ('a \<Rightarrow> json) \<Rightarrow> 'a option \<Rightarrow> json_object" where
  "optional key conv v = (case v of None \<Rightarrow> [] | Some x \<Rightarrow> [(key, conv x)])"

definition serializeAddTorrentParams :: "params_env \<Rightarrow> add_params \<Rightarrow> json_object" where
  "serializeAddTorrentParams e p =
     [(''category'', JString (ap_category p)),
      (''tags'', fromStringList (pe_tagOrder e (ap_tags p))),
      (''save_path'', JString (ap_savePath p)),
      (''download_path'', JString (ap_downloadPath p)),
      (''operating_mode'', JString (mode_text (if ap_addForced p then Forced else AutoManaged))),
      (''skip_checking'', JBool (ap_skipChecking p)),
      (''upload_limit'', j_int (ap_uploadLimit p)),
      (''download_limit'', j_int (ap_downloadLimit p)),
      (''seeding_time_limit'', j_int (ap_seedingTimeLimit p)),
      (''inactive_seeding_time_limit'', j_int (ap_inactiveSeedingTimeLimit p)),
      (''share_limit_action'', JString (share_action_text (ap_shareLimitAction p))),
      (''ratio_limit'', JNumber (ap_ratioLimit p)),
      (''ssl_certificate'', JString (ap_certificate p)),
      (''ssl_private_key'', JString (ap_privateKey p)),
      (''ssl_dh_params'', JString (ap_dhParams p))]
     @ optional ''add_to_top_of_queue'' JBool (ap_addToQueueTop p)
     @ optional ''stopped'' JBool (ap_addStopped p)
     @ optional ''stop_condition'' (\<lambda>c. JString (stop_text c)) (ap_stopCondition p)
     @ optional ''content_layout'' (\<lambda>l. JString (layout_text l)) (ap_contentLayout p)
     @ optional ''use_auto_tmm'' JBool (ap_useAutoTMM p)
     @ optional ''use_download_path'' JBool (ap_useDownloadPath p)"

text \<open>Values as the program makes them: clean paths and tags, numbers of 32 bits, keys as they are written.\<close>

definition params_ok :: "params_env \<Rightarrow> add_params \<Rightarrow> bool" where
  "params_ok e p \<longleftrightarrow>
     set (pe_tagOrder e (ap_tags p)) = ap_tags p \<and> (\<forall>t \<in> ap_tags p. mkTag t = t)
     \<and> path_of_string (pe_cleanPath e) (ap_savePath p) = ap_savePath p
     \<and> path_of_string (pe_cleanPath e) (ap_downloadPath p) = ap_downloadPath p
     \<and> int_range (ap_uploadLimit p) \<and> int_range (ap_downloadLimit p)
     \<and> int_range (ap_seedingTimeLimit p) \<and> int_range (ap_inactiveSeedingTimeLimit p)
     \<and> pe_certificate e (ap_certificate p) = ap_certificate p \<and> pe_privateKey e (ap_privateKey p) = ap_privateKey p"

lemma map_of_optional: "map_of (optional k conv v @ xs) key = (if key = k \<and> v \<noteq> None then Some (conv (the v)) else map_of xs key)"
  by (simp add: optional_def split: option.split)

lemma map_of_optional_last: "map_of (optional k conv v) key = (if key = k \<and> v \<noteq> None then Some (conv (the v)) else None)"
  by (simp add: optional_def split: option.split)

lemma optional_values:
  "jvalue obj k = (case v of None \<Rightarrow> JUndefined | Some b \<Rightarrow> JBool b) \<Longrightarrow> getOptionalBool obj k = v"
  "jvalue obj k = (case c of None \<Rightarrow> JUndefined | Some x \<Rightarrow> JString (stop_text x)) \<Longrightarrow>
     getOptionalEnum toStop StopNone obj k = c"
  "jvalue obj k = (case l of None \<Rightarrow> JUndefined | Some y \<Rightarrow> JString (layout_text y)) \<Longrightarrow>
     getOptionalEnum toLayout Original obj k = l"
  by (simp_all add: getOptionalBool_def getOptionalEnum_def split: option.splits)

lemma params_roundtrip:
  assumes "params_ok e p"
  shows "parseAddTorrentParams e (serializeAddTorrentParams e p) =
    p\<lparr>ap_name := [], ap_sequential := False, ap_firstLastPiecePriority := False, ap_filePaths := [], ap_filePriorities := []\<rparr>"
proof -
  let ?o = "serializeAddTorrentParams e p"
  note lookup = jvalue_def serializeAddTorrentParams_def map_of_optional map_of_optional_last
  have texts: "jvalue ?o ''category'' = JString (ap_category p)" "jvalue ?o ''tags'' = fromStringList (pe_tagOrder e (ap_tags p))"
    "jvalue ?o ''save_path'' = JString (ap_savePath p)" "jvalue ?o ''download_path'' = JString (ap_downloadPath p)"
    "jvalue ?o ''operating_mode'' = JString (mode_text (if ap_addForced p then Forced else AutoManaged))"
    "jvalue ?o ''skip_checking'' = JBool (ap_skipChecking p)" "jvalue ?o ''upload_limit'' = j_int (ap_uploadLimit p)"
    "jvalue ?o ''download_limit'' = j_int (ap_downloadLimit p)" "jvalue ?o ''seeding_time_limit'' = j_int (ap_seedingTimeLimit p)"
    "jvalue ?o ''inactive_seeding_time_limit'' = j_int (ap_inactiveSeedingTimeLimit p)"
    "jvalue ?o ''share_limit_action'' = JString (share_action_text (ap_shareLimitAction p))"
    "jvalue ?o ''ratio_limit'' = JNumber (ap_ratioLimit p)" "jvalue ?o ''ssl_certificate'' = JString (ap_certificate p)"
    "jvalue ?o ''ssl_private_key'' = JString (ap_privateKey p)" "jvalue ?o ''ssl_dh_params'' = JString (ap_dhParams p)"
    by (simp_all add: lookup del: map_of_append)
  have bools: "getOptionalBool ?o ''add_to_top_of_queue'' = ap_addToQueueTop p" "getOptionalBool ?o ''stopped'' = ap_addStopped p"
    "getOptionalBool ?o ''use_auto_tmm'' = ap_useAutoTMM p" "getOptionalBool ?o ''use_download_path'' = ap_useDownloadPath p"
    by (rule optional_values, simp add: lookup split: option.split del: map_of_append)+
  have enums: "getOptionalEnum toStop StopNone ?o ''stop_condition'' = ap_stopCondition p"
    "getOptionalEnum toLayout Original ?o ''content_layout'' = ap_contentLayout p"
    by (rule optional_values, simp add: lookup split: option.split del: map_of_append)+
  have tags: "parseTagSet (j_toArray (fromStringList (pe_tagOrder e (ap_tags p)))) = ap_tags p"
    using assms by (force simp: parseTagSet_def fromStringList_def params_ok_def)
  show ?thesis using assms
    by (simp add: parseAddTorrentParams_def Let_def texts bools enums tags params_ok_def)
qed

end
