(* ===== verification/Rss_Rule.thy ===== *)
theory Rss_Rule
  imports Add_Params Rss_Feed
begin

text \<open>
  Rules of the RSS auto downloader, \<^verbatim>\<open>src/src/base/rss/rss_autodownloadrule.cpp\<close>. Regular
  expressions are a parameter: what \<^verbatim>\<open>QRegularExpression\<close> captures, the whole match first,
  when it matches at all. Patterns are written with \<^verbatim>\<open>~\<close> for a backslash. The table of compiled
  expressions maps an expression to its pattern. \<^verbatim>\<open>addDays\<close>, \<^verbatim>\<open>toInt\<close>, numbers
  as text and the pattern of a wildcard are parameters too.
\<close>

section \<open>A rule\<close>

type_synonym regex_cache = "qstring \<rightharpoonup> qstring"

record rule =
  ar_name :: qstring
  ar_enabled :: bool
  ar_priority :: int
  ar_mustContain :: "qstring list"
  ar_mustNotContain :: "qstring list"
  ar_episodeFilter :: qstring
  ar_feedURLs :: "qstring list"
  ar_useRegex :: bool
  ar_ignoreDays :: int
  ar_lastMatch :: "int option"
  ar_addTorrentParams :: add_params
  ar_smartFilter :: bool
  ar_previouslyMatched :: "qstring list"
  ar_lastComputed :: "qstring list"
  ar_cachedRegexes :: regex_cache

record rule_env =
  ae_match :: "qstring \<Rightarrow> qstring \<Rightarrow> qstring list option"
  ae_smart :: "qstring \<Rightarrow> qstring list option"
  ae_wildcard :: "qstring \<Rightarrow> qstring"
  ae_toInt :: "qstring \<Rightarrow> int option"
  ae_number :: "int \<Rightarrow> qstring"
  ae_addDays :: "int \<Rightarrow> int option \<Rightarrow> int option"
  ae_repacks :: bool
  ae_rss :: rss_env
  ae_params :: params_env

definition new_rule :: "qstring \<Rightarrow> rule" where
  "new_rule name =
     \<lparr>ar_name = name, ar_enabled = True, ar_priority = 0, ar_mustContain = [], ar_mustNotContain = [], ar_episodeFilter = [],
      ar_feedURLs = [], ar_useRegex = False, ar_ignoreDays = 0, ar_lastMatch = None, ar_addTorrentParams = default_params,
      ar_smartFilter = False, ar_previouslyMatched = [], ar_lastComputed = [], ar_cachedRegexes = Map.empty\<rparr>"

text \<open>\<^verbatim>\<open>operator==\<close>.\<close>

definition rule_equal :: "rule \<Rightarrow> rule \<Rightarrow> bool" where
  "rule_equal l r \<longleftrightarrow>
     ar_name l = ar_name r \<and> ar_enabled l = ar_enabled r \<and> ar_priority l = ar_priority r
     \<and> ar_mustContain l = ar_mustContain r \<and> ar_mustNotContain l = ar_mustNotContain r
     \<and> ar_episodeFilter l = ar_episodeFilter r \<and> ar_feedURLs l = ar_feedURLs r \<and> ar_useRegex l = ar_useRegex r
     \<and> ar_ignoreDays l = ar_ignoreDays r \<and> ar_lastMatch l = ar_lastMatch r \<and> ar_smartFilter l = ar_smartFilter r
     \<and> ar_addTorrentParams l = ar_addTorrentParams r"

definition expression_list :: "bool \<Rightarrow> qstring \<Rightarrow> qstring list" where
  "expression_list regex tokens =
     (let l = (if regex then [tokens] else split_char (CHR ''|'') tokens)
      in if length l = 1 \<and> hd l = [] then [] else l)"

definition setMustContain :: "qstring \<Rightarrow> rule \<Rightarrow> rule" where
  "setMustContain tokens r = r\<lparr>ar_cachedRegexes := Map.empty, ar_mustContain := expression_list (ar_useRegex r) tokens\<rparr>"

definition setMustNotContain :: "qstring \<Rightarrow> rule \<Rightarrow> rule" where
  "setMustNotContain tokens r = r\<lparr>ar_cachedRegexes := Map.empty, ar_mustNotContain := expression_list (ar_useRegex r) tokens\<rparr>"

definition setUseRegex :: "bool \<Rightarrow> rule \<Rightarrow> rule" where
  "setUseRegex enabled r = r\<lparr>ar_useRegex := enabled, ar_cachedRegexes := Map.empty\<rparr>"

definition setEpisodeFilter :: "qstring \<Rightarrow> rule \<Rightarrow> rule" where
  "setEpisodeFilter f r = r\<lparr>ar_episodeFilter := f, ar_cachedRegexes := Map.empty\<rparr>"

definition mustContain :: "rule \<Rightarrow> qstring" where
  "mustContain r = join ''|'' (ar_mustContain r)"

definition mustNotContain :: "rule \<Rightarrow> qstring" where
  "mustNotContain r = join ''|'' (ar_mustNotContain r)"

section \<open>Expressions\<close>

definition rx :: "qstring \<Rightarrow> qstring" where
  "rx s = replace_char (CHR ''~'') (CHR 0x5C) s"

definition cachedRegex :: "rule_env \<Rightarrow> qstring \<Rightarrow> bool \<Rightarrow> regex_cache \<Rightarrow> qstring \<times> regex_cache" where
  "cachedRegex e expression isRegex cache =
     (let regex = (case cache expression of None \<Rightarrow> [] | Some p \<Rightarrow> p);
          pattern = (if regex = [] then (if isRegex then expression else ae_wildcard e expression) else regex)
      in (pattern, cache(expression \<mapsto> pattern)))"

definition match_cached :: "rule_env \<Rightarrow> qstring \<Rightarrow> bool \<Rightarrow> qstring \<Rightarrow> regex_cache \<Rightarrow> qstring list option \<times> regex_cache" where
  "match_cached e expression isRegex subject cache =
     (let (pattern, cache) = cachedRegex e expression isRegex cache in (ae_match e pattern subject, cache))"

text \<open>Loops that stop at the first element that fails, or that succeeds.\<close>

fun all_of :: "('a \<Rightarrow> 'c \<Rightarrow> bool \<times> 'c) \<Rightarrow> 'a list \<Rightarrow> 'c \<Rightarrow> bool \<times> 'c" where
  "all_of f [] c = (True, c)"
| "all_of f (x # xs) c = (let (b, c) = f x c in if b then all_of f xs c else (False, c))"

fun any_of :: "('a \<Rightarrow> 'c \<Rightarrow> bool \<times> 'c) \<Rightarrow> 'a list \<Rightarrow> 'c \<Rightarrow> bool \<times> 'c" where
  "any_of f [] c = (False, c)"
| "any_of f (x # xs) c = (let (b, c) = f x c in if b then (True, c) else any_of f xs c)"

text \<open>\<^verbatim>\<open>split(QRegularExpression("\\s+"), Qt::SkipEmptyParts)\<close>.\<close>

definition regex_space :: "char \<Rightarrow> bool" where
  "regex_space c \<longleftrightarrow> (of_char c :: nat) \<in> {9, 10, 11, 12, 13, 32}"

fun split_spaces :: "qstring \<Rightarrow> qstring list" where
  "split_spaces [] = [[]]"
| "split_spaces (c # cs) =
     (if regex_space c then [] # split_spaces cs
      else (case split_spaces cs of [] \<Rightarrow> [[c]] | w # ws \<Rightarrow> (c # w) # ws))"

definition wildcards_of :: "qstring \<Rightarrow> qstring list" where
  "wildcards_of expression = skip_empty (split_spaces expression)"

definition has_match :: "rule_env \<Rightarrow> bool \<Rightarrow> qstring \<Rightarrow> qstring \<Rightarrow> regex_cache \<Rightarrow> bool \<times> regex_cache" where
  "has_match e isRegex subject expression cache =
     (let (m, cache) = match_cached e expression isRegex subject cache in (m \<noteq> None, cache))"

definition matchesExpression :: "rule_env \<Rightarrow> rule \<Rightarrow> qstring \<Rightarrow> qstring \<Rightarrow> regex_cache \<Rightarrow> bool \<times> regex_cache" where
  "matchesExpression e r articleTitle expression cache =
     (if expression = [] then (True, cache)
      else if ar_useRegex r then has_match e True articleTitle expression cache
      else all_of (has_match e False articleTitle) (wildcards_of expression) cache)"

definition matchesMustContainExpression :: "rule_env \<Rightarrow> rule \<Rightarrow> qstring \<Rightarrow> regex_cache \<Rightarrow> bool \<times> regex_cache" where
  "matchesMustContainExpression e r articleTitle cache =
     (if ar_mustContain r = [] then (True, cache) else any_of (matchesExpression e r articleTitle) (ar_mustContain r) cache)"

definition matchesMustNotContainExpression :: "rule_env \<Rightarrow> rule \<Rightarrow> qstring \<Rightarrow> regex_cache \<Rightarrow> bool \<times> regex_cache" where
  "matchesMustNotContainExpression e r articleTitle cache =
     (if ar_mustNotContain r = [] then (True, cache)
      else (let (b, cache) = any_of (matchesExpression e r articleTitle) (ar_mustNotContain r) cache in (\<not> b, cache)))"

section \<open>The episode filter\<close>

definition filter_pattern :: qstring where
  "filter_pattern = rx ''(^~d{1,4})x(.*;$)''"

definition partialPattern1 :: qstring where
  "partialPattern1 = rx ''~bs0?(~d{1,4})[ -_~.]?e(0?~d{1,4})(?:~D|~b)''"

definition partialPattern2 :: qstring where
  "partialPattern2 = rx ''~b(~d{1,4})x(0?~d{1,4})(?:~D|~b)''"

definition single_pattern :: "qstring \<Rightarrow> qstring \<Rightarrow> qstring" where
  "single_pattern season episode =
     rx ''~b(?:s0?'' @ season @ rx ''[ -_~.]?e0?'' @ episode @ ''|'' @ season @ ''x0?'' @ episode @ rx '')(?:~D|~b)''"

definition number_of :: "rule_env \<Rightarrow> qstring \<Rightarrow> int" where
  "number_of e s = (case ae_toInt e s of None \<Rightarrow> 0 | Some n \<Rightarrow> n)"

definition captured :: "nat \<Rightarrow> qstring list \<Rightarrow> qstring" where
  "captured i m = (if i < length m then m ! i else [])"

fun trim_zeroes :: "qstring \<Rightarrow> qstring" where
  "trim_zeroes (a # b # cs) = (if a = CHR ''0'' then trim_zeroes (b # cs) else a # b # cs)"
| "trim_zeroes cs = cs"

definition article_numbers :: "rule_env \<Rightarrow> qstring \<Rightarrow> regex_cache \<Rightarrow> (int \<times> int) option \<times> regex_cache" where
  "article_numbers e articleTitle cache =
     (let (m, cache) = match_cached e partialPattern1 True articleTitle cache;
          (m, cache) = (if m = None then match_cached e partialPattern2 True articleTitle cache else (m, cache))
      in (map_option (\<lambda>m. (number_of e (captured 1 m), number_of e (captured 2 m))) m, cache))"

text \<open>
  The code asserts that a range splits into two parts (\<^verbatim>\<open>Q_ASSERT(range.size() == 2)\<close>). A release build goes on
  with the first and the last part, as here; a debug build stops, so what is shown of the matching assumes that it does.
\<close>

definition in_range :: "rule_env \<Rightarrow> int \<Rightarrow> qstring \<Rightarrow> int \<times> int \<Rightarrow> bool" where
  "in_range e seasonOurs episode theirs =
     (let (seasonTheirs, episodeTheirs) = theirs in
      if last episode = CHR ''-'' then
        (let episodeOurs = number_of e (butlast episode)
         in (seasonTheirs = seasonOurs \<and> episodeOurs \<le> episodeTheirs) \<or> seasonOurs < seasonTheirs)
      else
        (let range = split_char (CHR ''-'') episode; first = number_of e (hd range); final = number_of e (last range) in
         if final < first then False
         else seasonTheirs = seasonOurs \<and> first \<le> episodeTheirs \<and> episodeTheirs \<le> final))"

definition matches_subrule :: "rule_env \<Rightarrow> qstring \<Rightarrow> qstring \<Rightarrow> qstring \<Rightarrow> regex_cache \<Rightarrow> bool \<times> regex_cache" where
  "matches_subrule e articleTitle season episode cache =
     (if episode = [] then (False, cache)
      else
        (let episode = trim_zeroes episode in
         if CHR ''-'' \<in> set episode then
           (let (theirs, cache) = article_numbers e articleTitle cache
            in (case theirs of None \<Rightarrow> False | Some n \<Rightarrow> in_range e (number_of e season) episode n, cache))
         else has_match e True articleTitle (single_pattern season episode) cache))"

definition matchesEpisodeFilterExpression :: "rule_env \<Rightarrow> rule \<Rightarrow> qstring \<Rightarrow> regex_cache \<Rightarrow> bool \<times> regex_cache" where
  "matchesEpisodeFilterExpression e r articleTitle cache =
     (if ar_episodeFilter r = [] then (True, cache)
      else
        (let (m, cache) = match_cached e filter_pattern True (ar_episodeFilter r) cache in
         case m of None \<Rightarrow> (False, cache)
         | Some m \<Rightarrow> any_of (matches_subrule e articleTitle (captured 1 m)) (split_char (CHR '';'') (captured 2 m)) cache))"

section \<open>The smart filter\<close>

definition episode_part :: "rule_env \<Rightarrow> qstring \<Rightarrow> qstring" where
  "episode_part e cap = (case ae_toInt e cap of None \<Rightarrow> cap | Some x \<Rightarrow> ae_number e x)"

definition computeEpisodeName :: "rule_env \<Rightarrow> qstring \<Rightarrow> qstring" where
  "computeEpisodeName e article =
     (case ae_smart e article of None \<Rightarrow> []
      | Some m \<Rightarrow> join ''x'' (map (episode_part e) (skip_empty (tl m))))"

definition contains_ci :: "qstring \<Rightarrow> qstring \<Rightarrow> bool" where
  "contains_ci s sub \<longleftrightarrow> find_sub (to_lower sub) (to_lower s) \<noteq> None"

definition fullEpisodeStr :: "qstring \<Rightarrow> bool \<Rightarrow> bool \<Rightarrow> qstring" where
  "fullEpisodeStr episodeStr isRepack isProper =
     episodeStr @ (if isRepack then ''-REPACK'' else []) @ (if isProper then ''-PROPER'' else [])"

text \<open>The answer, and what is appended to \<^verbatim>\<open>lastComputedEpisodes\<close>.\<close>

definition matchesSmartEpisodeFilter :: "rule_env \<Rightarrow> rule \<Rightarrow> qstring \<Rightarrow> bool \<times> qstring list" where
  "matchesSmartEpisodeFilter e r articleTitle =
     (if \<not> ar_smartFilter r then (True, [])
      else
        (let episodeStr = computeEpisodeName e articleTitle in
         if episodeStr = [] then (True, [])
         else if episodeStr \<in> set (ar_previouslyMatched r) then
           (let isRepack = contains_ci articleTitle ''REPACK''; isProper = contains_ci articleTitle ''PROPER'';
                full = fullEpisodeStr episodeStr isRepack isProper in
            if \<not> ae_repacks e then (False, [])
            else if \<not> isRepack \<and> \<not> isProper then (False, [])
            else if full \<in> set (ar_previouslyMatched r) then (False, [])
            else (True, full # (if isRepack \<and> isProper then [episodeStr @ ''-REPACK'', episodeStr @ ''-PROPER''] else [])))
         else (True, [episodeStr])))"

section \<open>Matching an article\<close>

text \<open>An invalid date is before every valid one.\<close>

definition article_title :: "rule_env \<Rightarrow> article_data \<Rightarrow> qstring" where
  "article_title e a = variant_toString (ae_rss e) (value_of a KeyTitle)"

definition article_date :: "rule_env \<Rightarrow> article_data \<Rightarrow> int option" where
  "article_date e a = toDateTime (ae_rss e) (value_of a KeyDate)"

definition rule_matches :: "rule_env \<Rightarrow> article_data \<Rightarrow> rule \<Rightarrow> bool \<times> rule" where
  "rule_matches e articleData r =
     (let articleDate = article_date e articleData; articleTitle = article_title e articleData in
      if 0 < ar_ignoreDays r \<and> ar_lastMatch r \<noteq> None \<and> articleDate < ae_addDays e (ar_ignoreDays r) (ar_lastMatch r)
      then (False, r)
      else
        (let (b, cache) = matchesMustContainExpression e r articleTitle (ar_cachedRegexes r) in
         if \<not> b then (False, r\<lparr>ar_cachedRegexes := cache\<rparr>)
         else (let (b, cache) = matchesMustNotContainExpression e r articleTitle cache in
           if \<not> b then (False, r\<lparr>ar_cachedRegexes := cache\<rparr>)
           else (let (b, cache) = matchesEpisodeFilterExpression e r articleTitle cache;
                     r = r\<lparr>ar_cachedRegexes := cache, ar_lastComputed := []\<rparr> in
             if \<not> b then (False, r)
             else (let (b, computed) = matchesSmartEpisodeFilter e r articleTitle
                   in (b, r\<lparr>ar_lastComputed := computed\<rparr>))))))"

definition accepts :: "rule_env \<Rightarrow> article_data \<Rightarrow> rule \<Rightarrow> bool \<times> rule" where
  "accepts e articleData r =
     (let (b, r) = rule_matches e articleData r in
      if \<not> b then (False, r)
      else (let r = r\<lparr>ar_lastMatch := article_date e articleData\<rparr> in
        (True, if ar_lastComputed r = [] then r
               else r\<lparr>ar_previouslyMatched := ar_previouslyMatched r @ ar_lastComputed r, ar_lastComputed := []\<rparr>)))"

end
