(* ===== verification/Rss_Rule_Matching.thy ===== *)
theory Rss_Rule_Matching
  imports Rss_Rule
begin

text \<open>
  What a rule of the auto downloader wants, stated without the table of compiled expressions and
  without its loops, and the proof that the matching of \<open>Rss_Rule\<close> decides just that. Then
  what the smart filter and the days to ignore promise over any stream of articles.
\<close>

section \<open>What a rule wants\<close>

definition found :: "rule_env \<Rightarrow> qstring \<Rightarrow> qstring \<Rightarrow> bool" where
  "found e pattern title \<longleftrightarrow> ae_match e pattern title \<noteq> None"

definition expression_holds :: "rule_env \<Rightarrow> rule \<Rightarrow> qstring \<Rightarrow> qstring \<Rightarrow> bool" where
  "expression_holds e r title x \<longleftrightarrow>
     x = [] \<or> (if ar_useRegex r then found e x title else (\<forall>w \<in> set (wildcards_of x). found e (ae_wildcard e w) title))"

text \<open>
  An entry of an episode filter: one episode, all from one on, or a range. An entry such as \<open>1-2-3\<close> is none of
  these: the code asserts that a range has two parts, though nothing keeps such a filter from being set (the dialog only
  marks filters that do not start well).
\<close>

datatype episodes = NoEpisode | Episode qstring | From int | Between int int | Malformed

definition read_episodes :: "rule_env \<Rightarrow> qstring \<Rightarrow> episodes" where
  "read_episodes e s =
     (let t = trim_zeroes s in
      if s = [] then NoEpisode
      else if CHR ''-'' \<notin> set t then Episode t
      else if last t = CHR ''-'' then From (number_of e (butlast t))
      else (case split_char (CHR ''-'') t of [first, final] \<Rightarrow> Between (number_of e first) (number_of e final) | _ \<Rightarrow> Malformed))"

definition episode_entries :: "rule_env \<Rightarrow> rule \<Rightarrow> qstring list" where
  "episode_entries e r =
     (if ar_episodeFilter r = [] then []
      else (case ae_match e filter_pattern (ar_episodeFilter r) of None \<Rightarrow> []
            | Some m \<Rightarrow> split_char (CHR '';'') (captured 2 m)))"

definition ranges_ok :: "rule_env \<Rightarrow> rule \<Rightarrow> bool" where
  "ranges_ok e r \<longleftrightarrow> list_all (\<lambda>s. read_episodes e s \<noteq> Malformed) (episode_entries e r)"

definition title_numbers :: "rule_env \<Rightarrow> qstring \<Rightarrow> (int \<times> int) option" where
  "title_numbers e title =
     map_option (\<lambda>m. (number_of e (captured 1 m), number_of e (captured 2 m)))
       (case ae_match e partialPattern1 title of None \<Rightarrow> ae_match e partialPattern2 title | Some m \<Rightarrow> Some m)"

fun selects :: "rule_env \<Rightarrow> qstring \<Rightarrow> qstring \<Rightarrow> episodes \<Rightarrow> bool" where
  "selects e title season NoEpisode \<longleftrightarrow> False"
| "selects e title season (Episode n) \<longleftrightarrow> found e (single_pattern season n) title"
| "selects e title season (From n) \<longleftrightarrow>
     (case title_numbers e title of None \<Rightarrow> False
      | Some (s, k) \<Rightarrow> s = number_of e season \<and> n \<le> k \<or> number_of e season < s)"
| "selects e title season (Between m n) \<longleftrightarrow>
     (case title_numbers e title of None \<Rightarrow> False | Some (s, k) \<Rightarrow> s = number_of e season \<and> m \<le> k \<and> k \<le> n)"
| "selects e title season Malformed \<longleftrightarrow> False"

definition episode_wanted :: "rule_env \<Rightarrow> rule \<Rightarrow> qstring \<Rightarrow> bool" where
  "episode_wanted e r title \<longleftrightarrow>
     ar_episodeFilter r = []
     \<or> (case ae_match e filter_pattern (ar_episodeFilter r) of None \<Rightarrow> False
        | Some m \<Rightarrow> \<exists>s \<in> set (split_char (CHR '';'') (captured 2 m)). selects e title (captured 1 m) (read_episodes e s))"

definition rule_wants :: "rule_env \<Rightarrow> article_data \<Rightarrow> rule \<Rightarrow> bool" where
  "rule_wants e a r \<longleftrightarrow>
     (ar_ignoreDays r \<le> 0 \<or> ar_lastMatch r = None \<or> ae_addDays e (ar_ignoreDays r) (ar_lastMatch r) \<le> article_date e a)
     \<and> (ar_mustContain r = [] \<or> (\<exists>x \<in> set (ar_mustContain r). expression_holds e r (article_title e a) x))
     \<and> (\<forall>x \<in> set (ar_mustNotContain r). \<not> expression_holds e r (article_title e a) x)
     \<and> episode_wanted e r (article_title e a)
     \<and> fst (matchesSmartEpisodeFilter e r (article_title e a))"

section \<open>The table of expressions\<close>

definition tokens :: "rule \<Rightarrow> qstring set" where
  "tokens r = \<Union> (set ` wildcards_of ` (set (ar_mustContain r) \<union> set (ar_mustNotContain r)))"

definition pattern_of :: "rule_env \<Rightarrow> rule \<Rightarrow> qstring \<Rightarrow> qstring" where
  "pattern_of e r x = (if \<not> ar_useRegex r \<and> x \<in> tokens r then ae_wildcard e x else x)"

definition cache_ok :: "rule_env \<Rightarrow> rule \<Rightarrow> regex_cache \<Rightarrow> bool" where
  "cache_ok e r cache \<longleftrightarrow> (\<forall>x p. cache x = Some p \<longrightarrow> p = pattern_of e r x)"

text \<open>No wildcard is spelt like an expression of the episode filter.\<close>

definition plain_tokens :: "rule \<Rightarrow> bool" where
  "plain_tokens r \<longleftrightarrow> filter_pattern \<notin> tokens r \<and> partialPattern2 \<notin> tokens r"

definition answers :: "('c \<Rightarrow> bool) \<Rightarrow> ('c \<Rightarrow> 'a \<times> 'c) \<Rightarrow> 'a \<Rightarrow> bool" where
  "answers J f v \<longleftrightarrow> (\<forall>c. J c \<longrightarrow> fst (f c) = v \<and> J (snd (f c)))"

lemma answersD: "answers J f v \<Longrightarrow> J c \<Longrightarrow> fst (f c) = v" "answers J f v \<Longrightarrow> J c \<Longrightarrow> J (snd (f c))"
  by (simp_all add: answers_def)

lemma answersE:
  assumes "answers J f v" "J c"
  obtains c' where "f c = (v, c')" "J c'"
  using that [of "snd (f c)"] answersD [OF assms] by (simp add: prod_eq_iff)

lemma any_of_answers:
  assumes "\<And>x. x \<in> set xs \<Longrightarrow> answers J (f x) (P x)"
  shows "answers J (any_of f xs) (\<exists>x \<in> set xs. P x)"
  using assms
proof (induction xs)
  case (Cons x xs)
  then show ?case
    by (auto simp: answers_def case_prod_beta)
qed (simp add: answers_def)

lemma all_of_answers:
  assumes "\<And>x. x \<in> set xs \<Longrightarrow> answers J (f x) (P x)"
  shows "answers J (all_of f xs) (\<forall>x \<in> set xs. P x)"
  using assms
proof (induction xs)
  case (Cons x xs)
  then show ?case
    by (auto simp: answers_def case_prod_beta)
qed (simp add: answers_def)

lemma match_cached_answers:
  assumes "pattern_of e r x = (if b then x else ae_wildcard e x)"
  shows "answers (cache_ok e r) (match_cached e x b s) (ae_match e (pattern_of e r x) s)"
proof -
  have "fst (cachedRegex e x b c) = pattern_of e r x" if "cache_ok e r c" for c
    using that assms by (auto simp: cachedRegex_def cache_ok_def Let_def split: option.split)
  moreover have "cache_ok e r (snd (cachedRegex e x b c))" if "cache_ok e r c" for c
    using that assms by (auto simp: cachedRegex_def cache_ok_def Let_def split: option.splits)
  ultimately show ?thesis
    by (simp add: answers_def match_cached_def case_prod_beta)
qed

lemma has_match_answers:
  assumes "pattern_of e r x = (if b then x else ae_wildcard e x)"
  shows "answers (cache_ok e r) (has_match e b s x) (found e (pattern_of e r x) s)"
  using match_cached_answers [OF assms, of s] by (simp add: answers_def has_match_def case_prod_beta found_def)

section \<open>Wildcards have no spaces\<close>

lemma split_spaces_free: "\<forall>w \<in> set (split_spaces s). \<forall>c \<in> set w. \<not> regex_space c"
  by (induction s) (auto split: list.splits)

lemma spaced_not_token: "CHR '' '' \<in> set x \<Longrightarrow> x \<notin> tokens r"
  using split_spaces_free
  by (fastforce simp: tokens_def wildcards_of_def skip_empty_def regex_space_def)

lemma spaced_patterns: "CHR '' '' \<in> set partialPattern1" "CHR '' '' \<in> set (single_pattern season episode)"
  by (simp_all add: partialPattern1_def single_pattern_def rx_def replace_char_def)

lemma spaced_pattern_of [simp]:
  "pattern_of e r partialPattern1 = partialPattern1"
  "pattern_of e r (single_pattern season episode) = single_pattern season episode"
  by (simp_all add: pattern_of_def spaced_not_token spaced_patterns)

lemma plain_pattern_of:
  assumes "plain_tokens r"
  shows "pattern_of e r filter_pattern = filter_pattern" "pattern_of e r partialPattern2 = partialPattern2"
  using assms by (simp_all add: pattern_of_def plain_tokens_def)

section \<open>The matching decides what the rule wants\<close>

lemma matchesExpression_answers:
  assumes "x \<in> set (ar_mustContain r) \<union> set (ar_mustNotContain r)"
  shows "answers (cache_ok e r) (matchesExpression e r title x) (expression_holds e r title x)"
proof -
  have token: "answers (cache_ok e r) (has_match e False title w) (found e (ae_wildcard e w) title)"
    if "\<not> ar_useRegex r" "w \<in> set (wildcards_of x)" for w
  proof -
    have p: "pattern_of e r w = ae_wildcard e w" using that assms by (auto simp: pattern_of_def tokens_def)
    with has_match_answers [of e r w False title] show ?thesis by simp
  qed
  have regex: "answers (cache_ok e r) (has_match e True title x) (found e x title)" if "ar_useRegex r"
    using has_match_answers [of e r x True title] that by (simp add: pattern_of_def)
  have words: "answers (cache_ok e r) (all_of (has_match e False title) (wildcards_of x))
      (\<forall>w \<in> set (wildcards_of x). found e (ae_wildcard e w) title)" if "\<not> ar_useRegex r"
    using token [OF that] by (rule all_of_answers)
  show ?thesis
  proof (cases "x = []")
    case True
    then show ?thesis by (simp add: answers_def matchesExpression_def expression_holds_def)
  next
    case False
    then show ?thesis using regex words
      by (cases "ar_useRegex r") (simp_all add: answers_def matchesExpression_def expression_holds_def)
  qed
qed

lemma mustContain_answers:
  "answers (cache_ok e r) (matchesMustContainExpression e r title)
     (ar_mustContain r = [] \<or> (\<exists>x \<in> set (ar_mustContain r). expression_holds e r title x))"
  using any_of_answers [of "ar_mustContain r" "cache_ok e r" "matchesExpression e r title" "expression_holds e r title"]
    matchesExpression_answers [of _ r e title]
  by (auto simp: answers_def matchesMustContainExpression_def)

lemma mustNotContain_answers:
  "answers (cache_ok e r) (matchesMustNotContainExpression e r title)
     (\<forall>x \<in> set (ar_mustNotContain r). \<not> expression_holds e r title x)"
  using any_of_answers [of "ar_mustNotContain r" "cache_ok e r" "matchesExpression e r title" "expression_holds e r title"]
    matchesExpression_answers [of _ r e title]
  by (auto simp: answers_def matchesMustNotContainExpression_def case_prod_beta)

lemma article_numbers_answers:
  assumes "plain_tokens r"
  shows "answers (cache_ok e r) (article_numbers e title) (title_numbers e title)"
proof -
  have "answers (cache_ok e r) (match_cached e partialPattern1 True title) (ae_match e partialPattern1 title)"
    using match_cached_answers [of e r partialPattern1 True title] by simp
  moreover have "answers (cache_ok e r) (match_cached e partialPattern2 True title) (ae_match e partialPattern2 title)"
    using match_cached_answers [of e r partialPattern2 True title] plain_pattern_of [OF assms, of e] by simp
  ultimately show ?thesis
    by (auto simp: answers_def article_numbers_def title_numbers_def case_prod_beta Let_def split: option.split)
qed

lemma matches_subrule_answers:
  assumes "plain_tokens r" "read_episodes e s \<noteq> Malformed"
  shows "answers (cache_ok e r) (matches_subrule e title season s) (selects e title season (read_episodes e s))"
proof -
  let ?t = "trim_zeroes s"
  have single: "answers (cache_ok e r) (has_match e True title (single_pattern season ?t)) (found e (single_pattern season ?t) title)"
    using has_match_answers [of e r "single_pattern season ?t" True title] by simp
  have numbers: "answers (cache_ok e r) (article_numbers e title) (title_numbers e title)"
    by (rule article_numbers_answers [OF assms(1)])
  have range: "selects e title season (read_episodes e s) =
      (case title_numbers e title of None \<Rightarrow> False | Some n \<Rightarrow> in_range e (number_of e season) ?t n)"
    if "s \<noteq> []" "CHR ''-'' \<in> set ?t"
    using that assms(2)
    by (auto simp: read_episodes_def in_range_def Let_def split: option.split list.splits if_splits)
  show ?thesis
  proof (cases "s = []")
    case True
    then show ?thesis by (simp add: answers_def matches_subrule_def read_episodes_def Let_def)
  next
    case False
    then show ?thesis using single numbers range
      by (cases "CHR ''-'' \<in> set ?t")
        (auto simp: answers_def matches_subrule_def Let_def case_prod_beta read_episodes_def)
  qed
qed

lemma episodeFilter_answers:
  assumes "plain_tokens r" "ranges_ok e r"
  shows "answers (cache_ok e r) (matchesEpisodeFilterExpression e r title) (episode_wanted e r title)"
proof -
  have "answers (cache_ok e r) (match_cached e filter_pattern True (ar_episodeFilter r)) (ae_match e filter_pattern (ar_episodeFilter r))"
    using match_cached_answers [of e r filter_pattern True "ar_episodeFilter r"] plain_pattern_of [OF assms(1), of e] by simp
  moreover have "answers (cache_ok e r) (any_of (matches_subrule e title season) (episode_entries e r))
      (\<exists>s \<in> set (episode_entries e r). selects e title season (read_episodes e s))" for season
    by (rule any_of_answers, rule matches_subrule_answers [OF assms(1)]) (use assms(2) in \<open>auto simp: ranges_ok_def list_all_iff\<close>)
  ultimately show ?thesis
    by (auto simp: answers_def matchesEpisodeFilterExpression_def episode_wanted_def episode_entries_def case_prod_beta
        split: option.split)
qed

lemma matchesExpression_frame [simp]: "matchesExpression e (r\<lparr>ar_cachedRegexes := c\<rparr>) = matchesExpression e r"
  by (simp add: fun_eq_iff matchesExpression_def)

lemma rule_frame [simp]:
  "matchesMustContainExpression e (r\<lparr>ar_cachedRegexes := c\<rparr>) = matchesMustContainExpression e r"
  "matchesSmartEpisodeFilter e (r\<lparr>ar_cachedRegexes := c, ar_lastComputed := l\<rparr>) = matchesSmartEpisodeFilter e r"
  "cache_ok e (r\<lparr>ar_cachedRegexes := c\<rparr>) = cache_ok e r" "cache_ok e (r\<lparr>ar_lastComputed := l\<rparr>) = cache_ok e r"
  by (auto simp: fun_eq_iff matchesMustContainExpression_def matchesSmartEpisodeFilter_def
      cache_ok_def pattern_of_def tokens_def Let_def)

lemma rule_matching_exact:
  assumes "cache_ok e r (ar_cachedRegexes r)" "plain_tokens r" "ranges_ok e r"
  shows "fst (rule_matches e a r) = rule_wants e a r \<and> cache_ok e r (ar_cachedRegexes (snd (rule_matches e a r)))"
proof -
  let ?t = "article_title e a"
  obtain c1 where 1: "matchesMustContainExpression e r ?t (ar_cachedRegexes r) =
      (ar_mustContain r = [] \<or> (\<exists>x \<in> set (ar_mustContain r). expression_holds e r ?t x), c1)" "cache_ok e r c1"
    by (rule answersE [where J = "cache_ok e r", OF mustContain_answers assms(1)])
  obtain c2 where 2: "matchesMustNotContainExpression e r ?t c1 =
      (\<forall>x \<in> set (ar_mustNotContain r). \<not> expression_holds e r ?t x, c2)" "cache_ok e r c2"
    by (rule answersE [where J = "cache_ok e r", OF mustNotContain_answers 1(2)])
  obtain c3 where 3: "matchesEpisodeFilterExpression e r ?t c2 = (episode_wanted e r ?t, c3)" "cache_ok e r c3"
    by (rule answersE [where J = "cache_ok e r", OF episodeFilter_answers [OF assms(2,3)] 2(2)])
  have "fst (rule_matches e a r) = rule_wants e a r"
    using 1(1) 2(1) 3(1) by (auto simp: rule_matches_def rule_wants_def Let_def case_prod_beta not_less)
  moreover have "cache_ok e r (ar_cachedRegexes (snd (rule_matches e a r)))"
    using 1 2 3 assms(1) by (simp add: rule_matches_def Let_def case_prod_beta)
  ultimately show ?thesis by simp
qed

text \<open>
  C16. Matching an article, with the table of compiled expressions and the loops that stop early, decides exactly what the
  rule wants, and leaves the table consistent; for a rule whose table is consistent before (\<open>cache_ok\<close>, as every
  setter leaves it), none of whose wildcards is spelt like an expression of the episode filter (they share the table), and
  whose episode filter has no range of other than two parts (the code asserts that).
\<close>

theorem rule_matches_decides:
  assumes "cache_ok e r (ar_cachedRegexes r)" "plain_tokens r" "ranges_ok e r"
  shows "fst (rule_matches e a r) = rule_wants e a r \<and> cache_ok e r (ar_cachedRegexes (snd (rule_matches e a r)))"
  using rule_matching_exact [OF assms] .

section \<open>A concrete rule\<close>

text \<open>Here a pattern matches the texts it is a part of, and an episode is the first three characters of a title.\<close>

definition rss_dates_ex :: rss_env where
  "rss_dates_ex = \<lparr>isoDate = (\<lambda>s. None), isoText = (\<lambda>d. []), rfcDate = (\<lambda>s. if s = [] then None else Some (int (length s))),
     rfcText = (\<lambda>d. case d of None \<Rightarrow> [] | Some t \<Rightarrow> replicate (nat t) (CHR ''1'')), hashOrder = (\<lambda>xs. xs)\<rparr>"

definition params_env_ex :: params_env where
  "params_env_ex = \<lparr>pe_cleanPath = (\<lambda>s. s), pe_tagOrder = (\<lambda>T. if T = {''hd''} then [''hd''] else []),
     pe_certificate = (\<lambda>s. s), pe_privateKey = (\<lambda>s. s)\<rparr>"

definition rule_env_ex :: rule_env where
  "rule_env_ex = \<lparr>ae_match = (\<lambda>p s. if find_sub p s = None then None else Some [p]), ae_smart = (\<lambda>s. Some [s, take 3 s]),
     ae_wildcard = (\<lambda>s. s), ae_toInt = (\<lambda>s. None), ae_number = (\<lambda>n. []),
     ae_addDays = (\<lambda>n. map_option (\<lambda>t. t + n * 86400000)), ae_repacks = True, ae_rss = rss_dates_ex, ae_params = params_env_ex\<rparr>"

definition title_ex :: "qstring \<Rightarrow> int \<Rightarrow> article_data" where
  "title_ex s t = [KeyTitle \<mapsto> VString s, KeyDate \<mapsto> VDate (Some t)]"

lemma title_ex_simps [simp]: "article_title rule_env_ex (title_ex s t) = s" "article_date rule_env_ex (title_ex s t) = Some t"
  by (simp_all add: article_title_def article_date_def title_ex_def rule_env_ex_def value_of_def KeyTitle_def KeyDate_def)

definition rule_ex :: rule where
  "rule_ex = (setMustContain ''a b|c'' (new_rule ''r''))\<lparr>ar_smartFilter := True\<rparr>"

lemma rule_ex_ok: "cache_ok rule_env_ex rule_ex (ar_cachedRegexes rule_ex)" "plain_tokens rule_ex"
  "ranges_ok rule_env_ex rule_ex"
  by (simp_all add: ranges_ok_def episode_entries_def rule_ex_def setMustContain_def new_rule_def cache_ok_def plain_tokens_def tokens_def expression_list_def
      wildcards_of_def skip_empty_def regex_space_def filter_pattern_def partialPattern2_def rx_def replace_char_def)

theorem rule_matches_decides_witness:
  "fst (rule_matches rule_env_ex (title_ex ''s01 b a'' 5) rule_ex) = rule_wants rule_env_ex (title_ex ''s01 b a'' 5) rule_ex
    \<and> cache_ok rule_env_ex rule_ex (ar_cachedRegexes (snd (rule_matches rule_env_ex (title_ex ''s01 b a'' 5) rule_ex)))"
  by (rule rule_matches_decides [OF rule_ex_ok])

end
