(* ===== verification/Rss_Rule_Streams.thy ===== *)
theory Rss_Rule_Streams
  imports Rss_Rule_Matching
begin

text \<open>
  What the smart filter and the days to ignore of a rule promise over any stream of articles, and
  where the smart filter does not keep its word.
\<close>

section \<open>A stream of articles\<close>

definition episode_of :: "rule_env \<Rightarrow> article_data \<Rightarrow> qstring" where
  "episode_of e a = computeEpisodeName e (article_title e a)"

fun offer :: "rule_env \<Rightarrow> article_data list \<Rightarrow> rule \<Rightarrow> article_data list \<times> rule" where
  "offer e [] r = ([], r)"
| "offer e (a # xs) r =
     (let (b, r) = accepts e a r; (taken, r) = offer e xs r in (if b then a # taken else taken, r))"

lemma accepts_result:
  assumes "accepts e a r = (b, r')"
  shows "ar_smartFilter r' = ar_smartFilter r" "ar_ignoreDays r' = ar_ignoreDays r"
    and "\<not> b \<Longrightarrow> ar_previouslyMatched r' = ar_previouslyMatched r \<and> ar_lastMatch r' = ar_lastMatch r"
    and "b \<Longrightarrow> ar_lastMatch r' = article_date e a
      \<and> fst (matchesSmartEpisodeFilter e r (article_title e a))
      \<and> ar_previouslyMatched r' = ar_previouslyMatched r @ snd (matchesSmartEpisodeFilter e r (article_title e a))
      \<and> (ar_ignoreDays r \<le> 0 \<or> ar_lastMatch r = None \<or> ae_addDays e (ar_ignoreDays r) (ar_lastMatch r) \<le> article_date e a)"
  using assms by (auto simp: accepts_def rule_matches_def Let_def case_prod_beta not_less split: if_splits)

section \<open>The days to ignore\<close>

definition pause_over :: "rule_env \<Rightarrow> int \<Rightarrow> int option \<Rightarrow> article_data \<Rightarrow> bool" where
  "pause_over e days d a \<longleftrightarrow> d = None \<or> ae_addDays e days d \<le> article_date e a"

lemma offer_gaps:
  assumes "0 < ar_ignoreDays r"
  shows "successively (\<lambda>a b. pause_over e (ar_ignoreDays r) (article_date e a) b) (fst (offer e xs r))
    \<and> (fst (offer e xs r) \<noteq> [] \<longrightarrow> pause_over e (ar_ignoreDays r) (ar_lastMatch r) (hd (fst (offer e xs r))))"
  using assms
proof (induction xs arbitrary: r)
  case Nil
  then show ?case by simp
next
  case (Cons a xs)
  obtain b r' where acc: "accepts e a r = (b, r')" by fastforce
  note res = accepts_result [OF acc]
  from Cons.IH [of r'] Cons.prems res(2) show ?case
    using res(3,4) by (cases b) (auto simp: acc case_prod_beta successively_Cons pause_over_def)
qed

section \<open>The smart filter\<close>

definition episode_keys :: "qstring \<Rightarrow> qstring set" where
  "episode_keys s = {s, s @ ''-REPACK'', s @ ''-PROPER'', s @ ''-REPACK-PROPER''}"

definition chances :: "bool \<Rightarrow> qstring \<Rightarrow> rule \<Rightarrow> nat" where
  "chances repacks s r =
     (if repacks then card (episode_keys s - set (ar_previouslyMatched r))
      else if s \<in> set (ar_previouslyMatched r) then 0 else 1)"

lemma fullEpisodeStr_key: "fullEpisodeStr s a b \<in> episode_keys s" "s \<in> episode_keys s"
  by (simp_all add: fullEpisodeStr_def episode_keys_def)

lemma smart_filter_uses_key:
  assumes "matchesSmartEpisodeFilter e r title = (True, computed)" "ar_smartFilter r" "computeEpisodeName e title \<noteq> []"
  shows "computed \<noteq> [] \<and> hd computed \<in> episode_keys (computeEpisodeName e title) \<and> hd computed \<notin> set (ar_previouslyMatched r)"
    and "\<not> ae_repacks e \<Longrightarrow> computeEpisodeName e title \<notin> set (ar_previouslyMatched r) \<and> computeEpisodeName e title \<in> set computed"
  using assms fullEpisodeStr_key by (auto simp: matchesSmartEpisodeFilter_def Let_def split: if_splits)

lemma chances_mono: "set (ar_previouslyMatched r) \<subseteq> set (ar_previouslyMatched r') \<Longrightarrow> chances p s r' \<le> chances p s r"
  by (auto simp: chances_def episode_keys_def intro!: card_mono)

lemma chances_drop:
  assumes "accepts e a r = (True, r')" "ar_smartFilter r" "episode_of e a \<noteq> []"
  shows "chances (ae_repacks e) (episode_of e a) r' < chances (ae_repacks e) (episode_of e a) r"
proof -
  let ?s = "episode_of e a" and ?p = "set (ar_previouslyMatched r)" and ?q = "set (ar_previouslyMatched r')"
  obtain computed where m: "matchesSmartEpisodeFilter e r (article_title e a) = (True, computed)"
    and q: "?q = ?p \<union> set computed"
    using accepts_result(4) [OF assms(1)] by (auto simp: prod_eq_iff)
  note uses = smart_filter_uses_key [OF m assms(2) assms(3) [unfolded episode_of_def], folded episode_of_def]
  obtain k where k: "k \<in> episode_keys ?s" "k \<notin> ?p" "k \<in> ?q"
    using uses(1) q hd_in_set [of computed] by blast
  have "card (episode_keys ?s - ?q) < card (episode_keys ?s - ?p)"
    by (rule psubset_card_mono) (use k q in \<open>auto simp: episode_keys_def\<close>)
  with uses(2) q show ?thesis by (auto simp: chances_def)
qed

lemma offer_chances:
  assumes "ar_smartFilter r" "s \<noteq> []"
  shows "length (filter (\<lambda>a. episode_of e a = s) (fst (offer e xs r))) \<le> chances (ae_repacks e) s r"
  using assms(1)
proof (induction xs arbitrary: r)
  case Nil
  then show ?case by simp
next
  case (Cons a xs)
  obtain b r' where acc: "accepts e a r = (b, r')" by fastforce
  note res = accepts_result [OF acc]
  have le: "chances (ae_repacks e) s r' \<le> chances (ae_repacks e) s r"
    by (rule chances_mono) (use res(3,4) in \<open>cases b; auto\<close>)
  have less: "chances (ae_repacks e) s r' < chances (ae_repacks e) s r" if b "episode_of e a = s"
    using chances_drop [of e a r r'] acc that Cons.prems assms(2) by simp
  have "length (filter (\<lambda>a. episode_of e a = s) (fst (offer e xs r'))) \<le> chances (ae_repacks e) s r'"
    using Cons res(1) by simp
  with le less show ?case by (fastforce simp: acc case_prod_beta)
qed

lemma chances_bound: "chances p s r \<le> (if p then 4 else if s \<in> set (ar_previouslyMatched r) then 0 else 1)"
proof -
  have "card (episode_keys s - set (ar_previouslyMatched r)) \<le> card (episode_keys s)"
    by (rule card_mono) (auto simp: episode_keys_def)
  also have "\<dots> = 4" by (simp add: episode_keys_def)
  finally show ?thesis by (simp add: chances_def)
qed

text \<open>
  C12. With the smart filter on, whatever articles a rule is offered, those it accepts of any one episode are at most one, or
  four when repacks and propers are wanted; and of an episode recorded as downloaded none when they are not.
\<close>

theorem smart_filter_bounds_downloads:
  assumes "ar_smartFilter r" and "s \<noteq> []"
  shows "length (filter (\<lambda>a. episode_of e a = s) (fst (offer e xs r))) \<le> (if ae_repacks e then 4 else if s \<in> set (ar_previouslyMatched r) then 0 else 1)"
  using le_trans [OF offer_chances chances_bound] assms by blast

text \<open>
  A rule with days to ignore never accepts an article dated before the end of the pause that the one accepted before it
  began, invalid dates aside.
\<close>

theorem ignored_days_pass:
  assumes "0 < ar_ignoreDays r"
  shows "successively (\<lambda>a b. article_date e a = None \<or> ae_addDays e (ar_ignoreDays r) (article_date e a) \<le> article_date e b)
    (fst (offer e xs r))"
  using offer_gaps [OF assms, of e xs] by (simp add: pause_over_def)

theorem smart_filter_bounds_downloads_witness:
  "length (filter (\<lambda>a. episode_of rule_env_ex a = ''s01'')
     (fst (offer rule_env_ex [title_ex ''s01 a b'' 1, title_ex ''s01 a b REPACK'' 2] rule_ex)))
   \<le> (if ae_repacks rule_env_ex then 4 else if ''s01'' \<in> set (ar_previouslyMatched rule_ex) then 0 else 1)"
  by (rule smart_filter_bounds_downloads) (simp_all add: rule_ex_def setMustContain_def new_rule_def)

theorem ignored_days_pass_witness:
  "successively (\<lambda>a b. article_date rule_env_ex a = None
       \<or> ae_addDays rule_env_ex (ar_ignoreDays (rule_ex\<lparr>ar_ignoreDays := 1\<rparr>)) (article_date rule_env_ex a) \<le> article_date rule_env_ex b)
     (fst (offer rule_env_ex [title_ex ''s01 a b'' 1, title_ex ''s02 a b'' 2] (rule_ex\<lparr>ar_ignoreDays := 1\<rparr>)))"
  by (rule ignored_days_pass) simp

section \<open>The first repack is taken twice\<close>

text \<open>Only the episode is recorded when its first article is itself a repack, so the same article is accepted once more.\<close>

lemma first_repack_taken_twice:
  "map (article_title rule_env_ex)
     (fst (offer rule_env_ex [title_ex ''s01 REPACK'' 1, title_ex ''s01 REPACK'' 1, title_ex ''s01 REPACK'' 1]
        ((new_rule ''r'')\<lparr>ar_smartFilter := True\<rparr>)))
   = [''s01 REPACK'', ''s01 REPACK'']"
proof -
  have name: "computeEpisodeName rule_env_ex ''s01 REPACK'' = ''s01''"
    by (simp add: computeEpisodeName_def rule_env_ex_def skip_empty_def episode_part_def)
  have ci: "contains_ci ''s01 REPACK'' ''REPACK''" "\<not> contains_ci ''s01 REPACK'' ''PROPER''"
    by code_simp+
  have repacks: "ae_repacks rule_env_ex" by (simp add: rule_env_ex_def)
  show ?thesis
    by (simp add: accepts_def rule_matches_def Let_def name ci repacks new_rule_def matchesMustContainExpression_def
        matchesMustNotContainExpression_def matchesEpisodeFilterExpression_def matchesSmartEpisodeFilter_def fullEpisodeStr_def)
qed

end
