(* ===== verification/Rss_Rule_Json.thy ===== *)
theory Rss_Rule_Json
  imports Rss_Rule_Matching
begin

text \<open>
  The form of a rule of the auto downloader in JSON: \<^verbatim>\<open>toJsonObject\<close> and \<^verbatim>\<open>fromJsonObject\<close>
  of \<^verbatim>\<open>rss_autodownloadrule.cpp\<close>, the fields of earlier versions included.
\<close>

section \<open>Optional values\<close>

definition toOptionalBool :: "json \<Rightarrow> bool option" where
  "toOptionalBool v = (case v of JBool b \<Rightarrow> Some b | _ \<Rightarrow> None)"

definition toJsonValue :: "bool option \<Rightarrow> json" where
  "toJsonValue v = (case v of None \<Rightarrow> JNull | Some b \<Rightarrow> JBool b)"

definition jsonValueToContentLayout :: "json \<Rightarrow> content_layout option" where
  "jsonValueToContentLayout v = (let str = j_toString v in if str = [] then None else Some (toLayout str Original))"

definition contentLayoutToJsonValue :: "content_layout option \<Rightarrow> json" where
  "contentLayoutToJsonValue l = (case l of None \<Rightarrow> JNull | Some x \<Rightarrow> JString (layout_text x))"

text \<open>A list of strings, or a single one.\<close>

definition string_list :: "json \<Rightarrow> qstring list" where
  "string_list v = (case v of JString s \<Rightarrow> [s] | _ \<Rightarrow> map j_toString (j_toArray v))"

section \<open>A rule as JSON\<close>

definition toJsonObject :: "rule_env \<Rightarrow> rule \<Rightarrow> json_object" where
  "toJsonObject e r =
     (let p = ar_addTorrentParams r in
      [(''enabled'', JBool (ar_enabled r)), (''priority'', j_int (ar_priority r)), (''useRegex'', JBool (ar_useRegex r)),
       (''mustContain'', JString (mustContain r)), (''mustNotContain'', JString (mustNotContain r)),
       (''episodeFilter'', JString (ar_episodeFilter r)), (''affectedFeeds'', fromStringList (ar_feedURLs r)),
       (''lastMatch'', JString (rfcText (ae_rss e) (ar_lastMatch r))), (''ignoreDays'', j_int (ar_ignoreDays r)),
       (''smartFilter'', JBool (ar_smartFilter r)), (''previouslyMatchedEpisodes'', fromStringList (ar_previouslyMatched r)),
       (''addPaused'', toJsonValue (ap_addStopped p)), (''torrentContentLayout'', contentLayoutToJsonValue (ap_contentLayout p)),
       (''savePath'', JString (ap_savePath p)), (''assignedCategory'', JString (ap_category p)),
       (''torrentParams'', JObject (serializeAddTorrentParams (ae_params e) p))])"

definition legacy_params :: "params_env \<Rightarrow> json_object \<Rightarrow> add_params" where
  "legacy_params e obj =
     (let savePath = path_of_string (pe_cleanPath e) (j_toString (jvalue obj ''savePath''));
          p = default_params\<lparr>ap_savePath := savePath, ap_category := j_toString (jvalue obj ''assignedCategory''),
                ap_addStopped := toOptionalBool (jvalue obj ''addPaused'')\<rparr>;
          p = (if path_isEmpty savePath then p else p\<lparr>ap_useAutoTMM := Some False\<rparr>)
      in if ''torrentContentLayout'' \<in> fst ` set obj
         then p\<lparr>ap_contentLayout := jsonValueToContentLayout (jvalue obj ''torrentContentLayout'')\<rparr>
         else p\<lparr>ap_contentLayout := map_option (\<lambda>b. if b then Original else NoSubfolder)
                  (toOptionalBool (jvalue obj ''createSubfolder''))\<rparr>)"

definition fromJsonObject :: "rule_env \<Rightarrow> json_object \<Rightarrow> qstring \<Rightarrow> rule" where
  "fromJsonObject e obj name =
     (let r = new_rule (if name = [] then j_toString (jvalue obj ''name'') else name);
          r = r\<lparr>ar_enabled := j_toBool (jvalue obj ''enabled'') True, ar_priority := j_toInt (jvalue obj ''priority'') 0\<rparr>;
          r = setUseRegex (j_toBool (jvalue obj ''useRegex'') False) r;
          r = setMustContain (j_toString (jvalue obj ''mustContain'')) r;
          r = setMustNotContain (j_toString (jvalue obj ''mustNotContain'')) r;
          r = setEpisodeFilter (j_toString (jvalue obj ''episodeFilter'')) r
      in r\<lparr>ar_lastMatch := rfcDate (ae_rss e) (j_toString (jvalue obj ''lastMatch'')),
           ar_ignoreDays := j_toInt (jvalue obj ''ignoreDays'') 0,
           ar_smartFilter := j_toBool (jvalue obj ''smartFilter'') False,
           ar_feedURLs := string_list (jvalue obj ''affectedFeeds''),
           ar_previouslyMatched := string_list (jvalue obj ''previouslyMatchedEpisodes''),
           ar_addTorrentParams :=
             (case map_of obj ''torrentParams'' of None \<Rightarrow> legacy_params (ae_params e) obj
              | Some v \<Rightarrow> parseAddTorrentParams (ae_params e) (j_toObject v))\<rparr>)"

section \<open>A rule survives being written\<close>

text \<open>
  A rule as its setters leave it: numbers of 32 bits, each list of expressions as its text is split under the rule's own
  setting for regular expressions, clean parameters.
\<close>

definition rule_ok :: "rule_env \<Rightarrow> rule \<Rightarrow> bool" where
  "rule_ok e r \<longleftrightarrow>
     int_range (ar_priority r) \<and> int_range (ar_ignoreDays r)
     \<and> expression_list (ar_useRegex r) (mustContain r) = ar_mustContain r
     \<and> expression_list (ar_useRegex r) (mustNotContain r) = ar_mustNotContain r
     \<and> params_ok (ae_params e) (ar_addTorrentParams r)"

definition written_params :: "add_params \<Rightarrow> add_params" where
  "written_params p =
     p\<lparr>ap_name := [], ap_sequential := False, ap_firstLastPiecePriority := False, ap_filePaths := [], ap_filePriorities := []\<rparr>"

lemma expression_list_stable:
  "expression_list b (join ''|'' (expression_list b t)) = expression_list b t"
  by (cases b) (auto simp: expression_list_def Let_def)

lemma setters_keep_rule_ok:
  assumes "rule_ok e r"
  shows "rule_ok e (setMustContain t r)" "rule_ok e (setMustNotContain t r)" "rule_ok e (setEpisodeFilter t r)"
  using assms expression_list_stable
  by (simp_all add: rule_ok_def setMustContain_def setMustNotContain_def setEpisodeFilter_def mustContain_def mustNotContain_def)

lemma string_list_fromStringList [simp]: "string_list (fromStringList xs) = xs"
  by (simp add: string_list_def fromStringList_def map_idI)

text \<open>
  The rule that comes back: the date of its last match is what its text in RFC 2822 gives, which has whole seconds only,
  parameters that are never written have their defaults, and what is computed on demand is empty.
\<close>

definition restored_rule :: "rule_env \<Rightarrow> rule \<Rightarrow> rule" where
  "restored_rule e r =
     r\<lparr>ar_lastMatch := rfcDate (ae_rss e) (rfcText (ae_rss e) (ar_lastMatch r)), ar_addTorrentParams := written_params (ar_addTorrentParams r), ar_lastComputed := [], ar_cachedRegexes := Map.empty\<rparr>"

lemma rule_json_restores:
  assumes "rule_ok e r"
  shows "fromJsonObject e (toJsonObject e r) (ar_name r) = restored_rule e r"
  using assms params_roundtrip [of "ae_params e" "ar_addTorrentParams r"]
  by (simp add: restored_rule_def fromJsonObject_def toJsonObject_def Let_def jvalue_def rule_ok_def new_rule_def setUseRegex_def
      setMustContain_def setMustNotContain_def setEpisodeFilter_def mustContain_def mustNotContain_def written_params_def)

text \<open>
  A rule read from the JSON it is written as is the rule itself, up to the fraction of a second of its last match, the
  parameters that are never written and the table of compiled expressions.
\<close>

theorem rule_json_roundtrip:
  assumes "rule_ok e r"
  shows "fromJsonObject e (toJsonObject e r) (ar_name r) =
    r\<lparr>ar_lastMatch := rfcDate (ae_rss e) (rfcText (ae_rss e) (ar_lastMatch r)),
      ar_addTorrentParams := written_params (ar_addTorrentParams r), ar_lastComputed := [], ar_cachedRegexes := Map.empty\<rparr>"
  using rule_json_restores [OF assms] by (simp add: restored_rule_def)

lemma rule_ex_json_ok: "rule_ok rule_env_ex rule_ex"
  by (simp add: rule_ok_def rule_ex_def setMustContain_def new_rule_def int_range_def mustContain_def mustNotContain_def
      expression_list_def params_ok_def default_params_def rule_env_ex_def params_env_ex_def rss_dates_ex_def
      path_of_string_def cleanPath_def)

theorem rule_json_roundtrip_witness:
  "fromJsonObject rule_env_ex (toJsonObject rule_env_ex rule_ex) (ar_name rule_ex) =
    rule_ex\<lparr>ar_lastMatch := rfcDate (ae_rss rule_env_ex) (rfcText (ae_rss rule_env_ex) (ar_lastMatch rule_ex)),
      ar_addTorrentParams := written_params (ar_addTorrentParams rule_ex), ar_lastComputed := [],
      ar_cachedRegexes := Map.empty\<rparr>"
  by (rule rule_json_roundtrip [OF rule_ex_json_ok])

end
