(* ===== verification/Rss_Downloader.thy ===== *)
theory Rss_Downloader
  imports Rss_Rule_Json Qt_Containers
begin

text \<open>
  The RSS auto downloader, \<^verbatim>\<open>src/src/base/rss/rss_autodownloader.cpp\<close>: its rules in the order of
  their priority and their index by name, the queue of articles to process, the jobs that wait for
  their torrent, and its file. Feeds are those of \<open>Rss_Feed\<close>, found by URL. What the session's root
  folder lists as articles, how \<^verbatim>\<open>std::sort\<close> orders equal elements and which URLs name a torrent
  by themselves are parameters. The rules of the old settings file are not modelled.
\<close>

section \<open>State\<close>

record processing_job =
  pj_feedURL :: qstring
  pj_articleData :: article_data

datatype downloader_signal =
    RuleAdded qstring
  | RuleChanged qstring
  | RuleRenamed qstring qstring
  | RuleAboutToBeRemoved qstring
  | ProcessingStateChanged bool

record downloader =
  ad_rules :: "rule list"
  ad_rulesByName :: "qstring \<rightharpoonup> nat"
  ad_queue :: "processing_job list"
  ad_waitingJobs :: "qstring \<rightharpoonup> processing_job"
  ad_processing :: bool
  ad_listening :: bool
  ad_timer :: bool
  ad_dirty :: bool
  ad_saving :: bool
  ad_file :: "json option"
  ad_feeds :: "qstring \<rightharpoonup> feed"
  ad_added :: "(qstring \<times> add_params) list"
  ad_signals :: "downloader_signal list"

record downloader_env =
  de_rule :: rule_env
  de_sort :: "rule list \<Rightarrow> rule list"
  de_parses :: "qstring \<Rightarrow> bool"

text \<open>An article of the root folder, with the URL of its feed.\<close>

type_synonym listed_article = "qstring \<times> article"

definition new_downloader :: "bool \<Rightarrow> (qstring \<rightharpoonup> feed) \<Rightarrow> downloader" where
  "new_downloader processing feeds =
     \<lparr>ad_rules = [], ad_rulesByName = Map.empty, ad_queue = [], ad_waitingJobs = Map.empty, ad_processing = processing,
      ad_listening = False, ad_timer = False, ad_dirty = False, ad_saving = False, ad_file = None, ad_feeds = feeds,
      ad_added = [], ad_signals = []\<rparr>"

definition emit_signal :: "downloader_signal \<Rightarrow> downloader \<Rightarrow> downloader" where
  "emit_signal x d = d\<lparr>ad_signals := ad_signals d @ [x]\<rparr>"

section \<open>Storing the rules\<close>

definition rules_json :: "rule_env \<Rightarrow> rule list \<Rightarrow> json" where
  "rules_json e rules =
     JObject (map (\<lambda>(n, obj). (n, JObject obj)) (fold (\<lambda>r m. qmap_insert (ar_name r) (toJsonObject e r) m) rules []))"

definition ad_store :: "downloader_env \<Rightarrow> downloader \<Rightarrow> downloader" where
  "ad_store e d =
     (if \<not> ad_dirty d then d
      else d\<lparr>ad_dirty := False, ad_saving := False, ad_file := Some (rules_json (de_rule e) (ad_rules d))\<rparr>)"

definition storeDeferred :: "downloader \<Rightarrow> downloader" where
  "storeDeferred d = d\<lparr>ad_saving := True\<rparr>"

section \<open>Rules\<close>

definition hasRule :: "qstring \<Rightarrow> downloader \<Rightarrow> bool" where
  "hasRule n d \<longleftrightarrow> ad_rulesByName d n \<noteq> None"

definition ruleByName :: "qstring \<Rightarrow> downloader \<Rightarrow> rule" where
  "ruleByName n d =
     (case ad_rulesByName d n of None \<Rightarrow> new_rule ''Unknown Rule''
      | Some i \<Rightarrow> if i < length (ad_rules d) then ad_rules d ! i else new_rule ''Unknown Rule'')"

definition renumber :: "nat \<Rightarrow> rule list \<Rightarrow> (qstring \<rightharpoonup> nat) \<Rightarrow> (qstring \<rightharpoonup> nat)" where
  "renumber k rules m = fold (\<lambda>i m. m(ar_name (rules ! i) \<mapsto> i)) [k ..< length rules] m"

definition setRule_impl :: "rule \<Rightarrow> downloader \<Rightarrow> downloader" where
  "setRule_impl r d =
     (case ad_rulesByName d (ar_name r) of
        None \<Rightarrow> d\<lparr>ad_rules := ad_rules d @ [r],
                  ad_rulesByName := (ad_rulesByName d)(ar_name r \<mapsto> length (ad_rules d @ [r]) - 1)\<rparr>
      | Some index \<Rightarrow> d\<lparr>ad_rules := (ad_rules d)[index := r]\<rparr>)"

definition sortRules :: "downloader_env \<Rightarrow> downloader \<Rightarrow> downloader" where
  "sortRules e d =
     (let rules = de_sort e (ad_rules d)
      in d\<lparr>ad_rules := rules, ad_rulesByName := renumber 0 rules (ad_rulesByName d)\<rparr>)"

definition addJobForArticle :: "listed_article \<Rightarrow> downloader \<Rightarrow> downloader" where
  "addJobForArticle ua d =
     (if ad_waitingJobs d (torrentUrl (snd ua)) \<noteq> None then d
      else d\<lparr>ad_queue := ad_queue d @ [\<lparr>pj_feedURL = fst ua, pj_articleData = a_data (snd ua)\<rparr>], ad_timer := True\<rparr>)"

definition handleNewArticle :: "listed_article \<Rightarrow> downloader \<Rightarrow> downloader" where
  "handleNewArticle ua d = (if \<not> a_isRead (snd ua) \<and> torrentUrl (snd ua) \<noteq> [] then addJobForArticle ua d else d)"

text \<open>The body of the loop is that of \<open>handleNewArticle\<close>.\<close>

definition resetProcessingQueue :: "listed_article list \<Rightarrow> downloader \<Rightarrow> downloader" where
  "resetProcessingQueue arts d =
     (let d = d\<lparr>ad_queue := []\<rparr> in if \<not> ad_processing d then d else fold handleNewArticle arts d)"

definition setRule :: "downloader_env \<Rightarrow> listed_article list \<Rightarrow> rule \<Rightarrow> downloader \<Rightarrow> downloader" where
  "setRule e arts r d =
     (if \<not> hasRule (ar_name r) d then
        (let d = (sortRules e (setRule_impl r d))\<lparr>ad_dirty := True\<rparr>;
             d = emit_signal (RuleAdded (ar_name r)) (ad_store e d)
         in resetProcessingQueue arts d)
      else if \<not> rule_equal (ruleByName (ar_name r) d) r then
        (let d = (sortRules e (setRule_impl r d))\<lparr>ad_dirty := True\<rparr>;
             d = emit_signal (RuleChanged (ar_name r)) (storeDeferred d)
         in resetProcessingQueue arts d)
      else d)"

definition renameRule :: "downloader_env \<Rightarrow> qstring \<Rightarrow> qstring \<Rightarrow> downloader \<Rightarrow> bool \<times> downloader" where
  "renameRule e ruleName newRuleName d =
     (if \<not> hasRule ruleName d \<or> hasRule newRuleName d then (False, d)
      else
        (let index = the (ad_rulesByName d ruleName);
             d = d\<lparr>ad_rules := (ad_rules d)[index := (ad_rules d ! index)\<lparr>ar_name := newRuleName\<rparr>],
                   ad_rulesByName := ((ad_rulesByName d)(ruleName := None))(newRuleName \<mapsto> index), ad_dirty := True\<rparr>
         in (True, emit_signal (RuleRenamed newRuleName ruleName) (ad_store e d))))"

definition removeRule :: "downloader_env \<Rightarrow> qstring \<Rightarrow> downloader \<Rightarrow> downloader" where
  "removeRule e ruleName d =
     (if \<not> hasRule ruleName d then d
      else
        (let d = emit_signal (RuleAboutToBeRemoved ruleName) d;
             index = the (ad_rulesByName d ruleName);
             rules = take index (ad_rules d) @ drop (Suc index) (ad_rules d)
         in ad_store e (d\<lparr>ad_rules := rules,
              ad_rulesByName := renumber index rules ((ad_rulesByName d)(ruleName := None)), ad_dirty := True\<rparr>)))"

section \<open>Processing articles\<close>

definition mark_read :: "processing_job \<Rightarrow> downloader_env \<Rightarrow> downloader \<Rightarrow> downloader" where
  "mark_read job e d =
     (case ad_feeds d (pj_feedURL job) of None \<Rightarrow> d
      | Some f \<Rightarrow> d\<lparr>ad_feeds := (ad_feeds d)(pj_feedURL job \<mapsto>
          markArticleAsRead (variant_toString (ae_rss (de_rule e)) (value_of (pj_articleData job) KeyId)) f)\<rparr>)"

text \<open>The loop over the rules, each of which may change, up to the one that accepts.\<close>

fun offer_to_rules :: "rule_env \<Rightarrow> processing_job \<Rightarrow> rule list \<Rightarrow> rule list \<times> rule option" where
  "offer_to_rules e job [] = ([], None)"
| "offer_to_rules e job (r # rs) =
     (if \<not> ar_enabled r \<or> pj_feedURL job \<notin> set (ar_feedURLs r) then
        (let (rs, hit) = offer_to_rules e job rs in (r # rs, hit))
      else
        (let (b, r) = accepts e (pj_articleData job) r in
         if b then (r # rs, Some r) else (let (rs, hit) = offer_to_rules e job rs in (r # rs, hit))))"

definition processJob :: "downloader_env \<Rightarrow> processing_job \<Rightarrow> downloader \<Rightarrow> downloader" where
  "processJob e job d =
     (let (rules, hit) = offer_to_rules (de_rule e) job (ad_rules d); d = d\<lparr>ad_rules := rules\<rparr> in
      case hit of None \<Rightarrow> d
      | Some r \<Rightarrow>
          (let d = storeDeferred (d\<lparr>ad_dirty := True\<rparr>);
               torrentURL = variant_toString (ae_rss (de_rule e)) (value_of (pj_articleData job) KeyTorrentURL);
               d = d\<lparr>ad_added := ad_added d @ [(torrentURL, ar_addTorrentParams r)]\<rparr>
           in if de_parses e torrentURL then mark_read job e d
              else d\<lparr>ad_waitingJobs := (ad_waitingJobs d)(torrentURL \<mapsto> job)\<rparr>))"

definition ad_process :: "downloader_env \<Rightarrow> downloader \<Rightarrow> downloader" where
  "ad_process e d =
     (case ad_queue d of [] \<Rightarrow> d\<lparr>ad_timer := False\<rparr>
      | job # jobs \<Rightarrow>
          (let d = processJob e job (d\<lparr>ad_queue := jobs, ad_timer := False\<rparr>)
           in if ad_queue d \<noteq> [] then d\<lparr>ad_timer := True\<rparr> else d))"

definition handleTorrentAdded :: "downloader_env \<Rightarrow> qstring \<Rightarrow> downloader \<Rightarrow> downloader" where
  "handleTorrentAdded e source d =
     (case ad_waitingJobs d source of None \<Rightarrow> d
      | Some job \<Rightarrow> mark_read job e (d\<lparr>ad_waitingJobs := (ad_waitingJobs d)(source := None)\<rparr>))"

definition handleAddTorrentFailed :: "downloader_env \<Rightarrow> qstring \<Rightarrow> bool \<Rightarrow> downloader \<Rightarrow> downloader" where
  "handleAddTorrentFailed e source duplicate d =
     (case ad_waitingJobs d source of None \<Rightarrow> d
      | Some job \<Rightarrow>
          (let d = d\<lparr>ad_waitingJobs := (ad_waitingJobs d)(source := None)\<rparr> in if duplicate then mark_read job e d else d))"

definition job_url :: "qstring \<Rightarrow> qstring \<Rightarrow> processing_job \<Rightarrow> processing_job" where
  "job_url old new job = (if pj_feedURL job = old then job\<lparr>pj_feedURL := new\<rparr> else job)"

definition rule_url :: "qstring \<Rightarrow> qstring \<Rightarrow> rule \<Rightarrow> rule" where
  "rule_url old new r =
     (case index_of old (ar_feedURLs r) of None \<Rightarrow> r | Some i \<Rightarrow> r\<lparr>ar_feedURLs := (ar_feedURLs r)[i := new]\<rparr>)"

text \<open>The feed itself has moved to its new URL before.\<close>

definition handleFeedURLChanged :: "downloader_env \<Rightarrow> qstring \<Rightarrow> qstring \<Rightarrow> downloader \<Rightarrow> downloader" where
  "handleFeedURLChanged e old new d =
     ad_store e (d\<lparr>ad_rules := map (rule_url old new) (ad_rules d),
       ad_dirty := (ad_dirty d \<or> (\<exists>r \<in> set (ad_rules d). old \<in> set (ar_feedURLs r))),
       ad_queue := map (job_url old new) (ad_queue d),
       ad_waitingJobs := (\<lambda>k. map_option (job_url old new) (ad_waitingJobs d k))\<rparr>)"

section \<open>Starting, stopping and loading\<close>

definition startProcessing :: "listed_article list \<Rightarrow> downloader \<Rightarrow> downloader" where
  "startProcessing arts d = (fold handleNewArticle arts (resetProcessingQueue arts d))\<lparr>ad_listening := True\<rparr>"

definition setProcessingEnabled :: "bool \<Rightarrow> listed_article list \<Rightarrow> bool \<Rightarrow> downloader \<Rightarrow> downloader" where
  "setProcessingEnabled restored arts enabled d =
     (if ad_processing d = enabled then d
      else emit_signal (ProcessingStateChanged enabled)
        (let d = d\<lparr>ad_processing := enabled\<rparr> in
         if enabled then (if restored then startProcessing arts d else d)
         else d\<lparr>ad_queue := [], ad_listening := False\<rparr>))"

datatype parsing_error = InvalidJson | InvalidFormat

fun rules_of_object :: "rule_env \<Rightarrow> json_object \<Rightarrow> parsing_error + rule list" where
  "rules_of_object e [] = Inr []"
| "rules_of_object e ((key, val) # xs) =
     (case val of
        JObject obj \<Rightarrow>
          (case rules_of_object e xs of Inl err \<Rightarrow> Inl err | Inr rules \<Rightarrow> Inr (fromJsonObject e obj key # rules))
      | _ \<Rightarrow> Inl InvalidFormat)"

text \<open>The document is \<open>None\<close> when the bytes are not JSON.\<close>

definition rulesFromJSON :: "rule_env \<Rightarrow> json option \<Rightarrow> parsing_error + rule list" where
  "rulesFromJSON e doc =
     (case doc of None \<Rightarrow> Inl InvalidJson
      | Some (JObject obj) \<Rightarrow> rules_of_object e obj
      | Some _ \<Rightarrow> Inl InvalidFormat)"

definition loadRules :: "downloader_env \<Rightarrow> json option \<Rightarrow> downloader \<Rightarrow> downloader" where
  "loadRules e doc d =
     (case rulesFromJSON (de_rule e) doc of Inl err \<Rightarrow> d | Inr rules \<Rightarrow> sortRules e (fold setRule_impl rules d))"

definition importRulesFromJSONFormat ::
  "downloader_env \<Rightarrow> listed_article list \<Rightarrow> json option \<Rightarrow> downloader \<Rightarrow> parsing_error + downloader" where
  "importRulesFromJSONFormat e arts doc d =
     (case rulesFromJSON (de_rule e) doc of Inl err \<Rightarrow> Inl err | Inr rules \<Rightarrow> Inr (fold (setRule e arts) rules d))"

section \<open>Runs\<close>

datatype downloader_event =
    SetRule "listed_article list" rule
  | RenameRule qstring qstring
  | RemoveRule qstring
  | ImportRules "listed_article list" "json option"
  | ArticleArrived listed_article
  | ProcessTimer
  | TorrentAdded qstring
  | AddTorrentFailed qstring bool
  | FeedURLChanged qstring qstring "qstring \<rightharpoonup> feed"
  | SetProcessingEnabled bool "listed_article list" bool
  | SaveRules

fun downloader_step :: "downloader_env \<Rightarrow> downloader_event \<Rightarrow> downloader \<Rightarrow> downloader" where
  "downloader_step e (SetRule arts r) d = setRule e arts r d"
| "downloader_step e (RenameRule a b) d = snd (renameRule e a b d)"
| "downloader_step e (RemoveRule n) d = removeRule e n d"
| "downloader_step e (ImportRules arts doc) d =
     (case importRulesFromJSONFormat e arts doc d of Inl err \<Rightarrow> d | Inr d \<Rightarrow> d)"
| "downloader_step e (ArticleArrived ua) d = (if ad_listening d then handleNewArticle ua d else d)"
| "downloader_step e ProcessTimer d = (if ad_timer d then ad_process e d else d)"
| "downloader_step e (TorrentAdded s) d = handleTorrentAdded e s d"
| "downloader_step e (AddTorrentFailed s b) d = handleAddTorrentFailed e s b d"
| "downloader_step e (FeedURLChanged old new feeds) d = handleFeedURLChanged e old new (d\<lparr>ad_feeds := feeds\<rparr>)"
| "downloader_step e (SetProcessingEnabled restored arts b) d = setProcessingEnabled restored arts b d"
| "downloader_step e SaveRules d = ad_store e d"

end
