(* ===== verification/Rss_Downloader_Rules.thy ===== *)
theory Rss_Downloader_Rules
  imports Rss_Downloader
begin

text \<open>
  The rules of the auto downloader as a map by name: the list in the order of priorities and the index
  by name agree over any run, every operation on rules is one on the map, and the map survives a
  restart. An article goes to the first rule that wants it.
\<close>

section \<open>The index\<close>

abbreviation rule_names :: "rule list \<Rightarrow> qstring list" where
  "rule_names rs \<equiv> map ar_name rs"

definition index_ok :: "downloader \<Rightarrow> bool" where
  "index_ok d \<longleftrightarrow>
     distinct (rule_names (ad_rules d)) \<and> ad_rulesByName d = (\<lambda>n. index_of n (rule_names (ad_rules d)))"

definition rules_inv :: "downloader \<Rightarrow> bool" where
  "rules_inv d \<longleftrightarrow> index_ok d \<and> sorted (map ar_priority (ad_rules d))"

definition by_priority :: "downloader_env \<Rightarrow> bool" where
  "by_priority e \<longleftrightarrow> sorts (\<lambda>a b. ar_priority a < ar_priority b) (de_sort e)"

lemma index_of_distinct: "distinct xs \<Longrightarrow> i < length xs \<Longrightarrow> index_of (xs ! i) xs = Some i"
proof (induction xs arbitrary: i)
  case (Cons x xs)
  then show ?case by (cases i) auto
qed simp

lemma renumber_other: "n \<notin> set (drop k (rule_names rs)) \<Longrightarrow> renumber k rs m n = m n"
proof -
  have *: "n \<notin> (\<lambda>i. ar_name (rs ! i)) ` set is \<Longrightarrow> fold (\<lambda>i m. m(ar_name (rs ! i) \<mapsto> i)) is m n = m n" for "is"
    by (induction "is" arbitrary: m) auto
  assume "n \<notin> set (drop k (rule_names rs))"
  then have "n \<notin> (\<lambda>i. ar_name (rs ! i)) ` set [k ..< length rs]"
    by (auto simp: in_set_conv_nth image_iff) (metis add_diff_inverse_nat diff_less_mono not_less)
  then show ?thesis unfolding renumber_def by (rule *)
qed

lemma renumber_at:
  assumes "distinct (rule_names rs)" "k \<le> i" "i < length rs"
  shows "renumber k rs m (ar_name (rs ! i)) = Some i"
proof -
  have *: "i \<in> set is \<Longrightarrow> set is \<subseteq> {..< length rs} \<Longrightarrow> fold (\<lambda>i m. m(ar_name (rs ! i) \<mapsto> i)) is m (ar_name (rs ! i)) = Some i" for "is"
  proof (induction "is" arbitrary: m rule: rev_induct)
    case (snoc j js)
    have "ar_name (rs ! j) = ar_name (rs ! i) \<longleftrightarrow> j = i"
      using nth_eq_iff_index_eq [OF assms(1), of j i] assms(3) snoc.prems(2) by auto
    with snoc show ?case by auto
  qed simp
  show ?thesis unfolding renumber_def by (rule *) (use assms in auto)
qed

lemma renumber_index:
  assumes "distinct (rule_names rs)" "\<And>n. n \<notin> set (drop k (rule_names rs)) \<Longrightarrow> m n = index_of n (rule_names rs)"
  shows "renumber k rs m = (\<lambda>n. index_of n (rule_names rs))"
proof
  fix n
  show "renumber k rs m n = index_of n (rule_names rs)"
  proof (cases "n \<in> set (drop k (rule_names rs))")
    case True
    then obtain j where "j < length rs - k" "n = ar_name (rs ! (k + j))" by (auto simp: in_set_conv_nth)
    then show ?thesis
      using renumber_at [OF assms(1), of k "k + j" m] index_of_distinct [OF assms(1), of "k + j"] by simp
  qed (simp add: renumber_other assms(2))
qed

section \<open>The rules by name\<close>

definition rules_map :: "downloader \<Rightarrow> qstring \<rightharpoonup> rule" where
  "rules_map d n = (if hasRule n d then Some (ruleByName n d) else None)"

definition named :: "rule list \<Rightarrow> qstring \<rightharpoonup> rule" where
  "named rs = map_of (map (\<lambda>r. (ar_name r, r)) rs)"

lemma named_simps [simp]:
  "named [] = Map.empty" "named (r # rs) = (named rs)(ar_name r \<mapsto> r)"
  by (simp_all add: named_def)

lemma named_None: "named rs n = None \<longleftrightarrow> n \<notin> set (rule_names rs)"
  by (auto simp: named_def map_of_eq_None_iff image_image)

lemma named_append: "named (rs @ qs) n = (case named rs n of None \<Rightarrow> named qs n | Some r \<Rightarrow> Some r)"
  by (induction rs) auto

lemma index_of_named: "index_of n (rule_names rs) = Some i \<Longrightarrow> named rs n = Some (rs ! i)"
  by (induction rs arbitrary: i) auto

lemma rules_map_named:
  assumes "index_ok d"
  shows "rules_map d = named (ad_rules d)"
proof
  fix n
  have idx: "ad_rulesByName d n = index_of n (rule_names (ad_rules d))" using assms by (simp add: index_ok_def)
  show "rules_map d n = named (ad_rules d) n"
  proof (cases "index_of n (rule_names (ad_rules d))")
    case None
    then have "named (ad_rules d) n = None" by (simp add: named_None)
    moreover have "rules_map d n = None" using None idx by (simp add: rules_map_def hasRule_def)
    ultimately show ?thesis by (simp only:)
  next
    case (Some i)
    then show ?thesis
      using index_of_Some [OF Some] index_of_named [OF Some] idx by (simp add: rules_map_def hasRule_def ruleByName_def)
  qed
qed

lemma hasRule_named: "index_ok d \<Longrightarrow> hasRule n d \<longleftrightarrow> n \<in> set (rule_names (ad_rules d))"
  by (simp add: hasRule_def index_ok_def)

lemma ruleByName_named: "index_ok d \<Longrightarrow> hasRule n d \<Longrightarrow> Some (ruleByName n d) = named (ad_rules d) n"
  using fun_cong [OF rules_map_named [of d], of n] by (simp add: rules_map_def)

lemma named_mset:
  assumes "mset rs = mset qs" "distinct (rule_names rs)"
  shows "named rs = named qs" "distinct (rule_names qs)"
proof -
  show *: "distinct (rule_names qs)"
    using assms mset_map [of ar_name rs] mset_map [of ar_name qs] distinct_count_atmost_1 [of "rule_names rs"]
      distinct_count_atmost_1 [of "rule_names qs"] by (metis set_mset_mset)
  show "named rs = named qs" unfolding named_def
    using assms * mset_eq_setD [OF assms(1)] by (subst map_of_inject_set) (auto simp: comp_def)
qed

lemma named_split:
  assumes "distinct (rule_names rs)" "index_of n (rule_names rs) = Some i"
  obtains as r bs where "rs = as @ r # bs" "i = length as" "ar_name r = n" "n \<notin> set (rule_names as)" "n \<notin> set (rule_names bs)"
proof -
  have i: "i < length rs" "ar_name (rs ! i) = n" using index_of_Some [OF assms(2)] by auto
  have rs: "rs = take i rs @ rs ! i # drop (Suc i) rs" using i(1) by (rule id_take_nth_drop)
  then have "distinct (rule_names (take i rs @ rs ! i # drop (Suc i) rs))" using assms(1) by simp
  then have "n \<notin> set (rule_names (take i rs))" "n \<notin> set (rule_names (drop (Suc i) rs))" using i(2) by auto
  with i show ?thesis by (intro that [OF rs]) simp_all
qed

section \<open>Setting a rule\<close>

lemma index_of_snoc: "x \<notin> set xs \<Longrightarrow> index_of y (xs @ [x]) = (if y = x then Some (length xs) else index_of y xs)"
  by (induction xs) auto

lemma names_update: "i < length rs \<Longrightarrow> ar_name (rs ! i) = ar_name r \<Longrightarrow> rule_names (rs[i := r]) = rule_names rs"
  by (metis list_update_id map_update nth_map)

lemma named_update:
  assumes "distinct (rule_names rs)" "index_of (ar_name r) (rule_names rs) = Some i"
  shows "named (rs[i := r]) = (named rs)(ar_name r \<mapsto> r)"
  by (rule named_split [OF assms]) (auto simp: fun_eq_iff named_append named_None [THEN iffD2] split: option.split)

lemma setRule_impl_ok:
  assumes "index_ok d"
  shows "index_ok (setRule_impl r d)" "named (ad_rules (setRule_impl r d)) = (named (ad_rules d))(ar_name r \<mapsto> r)"
proof -
  let ?n = "ar_name r" and ?rs = "ad_rules d"
  have dist: "distinct (rule_names ?rs)" and idx: "ad_rulesByName d = (\<lambda>n. index_of n (rule_names ?rs))"
    using assms by (simp_all add: index_ok_def)
  have "index_ok (setRule_impl r d) \<and> named (ad_rules (setRule_impl r d)) = (named ?rs)(?n \<mapsto> r)"
  proof (cases "index_of ?n (rule_names ?rs)")
    case None
    then have "?n \<notin> set (rule_names ?rs)" by simp
    moreover from this have "named (?rs @ [r]) = (named ?rs)(?n \<mapsto> r)"
      by (auto simp: fun_eq_iff named_append named_None [THEN iffD2] split: option.split)
    moreover have "ad_rulesByName d ?n = None" using None idx by (simp only:)
    then have "setRule_impl r d = d\<lparr>ad_rules := ?rs @ [r], ad_rulesByName := (ad_rulesByName d)(?n \<mapsto> length ?rs)\<rparr>"
      by (simp add: setRule_impl_def)
    ultimately show ?thesis using dist idx by (simp add: index_ok_def fun_eq_iff index_of_snoc)
  next
    case (Some i)
    from index_of_Some [OF Some] have "rule_names (?rs[i := r]) = rule_names ?rs" by (intro names_update) auto
    with Some dist idx named_update [OF dist Some] show ?thesis by (simp add: setRule_impl_def index_ok_def)
  qed
  then show "index_ok (setRule_impl r d)" "named (ad_rules (setRule_impl r d)) = (named ?rs)(?n \<mapsto> r)" by auto
qed

lemma sortRules_ok:
  assumes "by_priority e" "index_ok d"
  shows "rules_inv (sortRules e d)" "named (ad_rules (sortRules e d)) = named (ad_rules d)"
proof -
  let ?rs = "ad_rules d" and ?qs = "de_sort e (ad_rules d)"
  have ms: "mset ?rs = mset ?qs" and sorted: "sorted_wrt (\<lambda>a b. \<not> ar_priority b < ar_priority a) ?qs"
    using assms(1) by (simp_all add: by_priority_def sorts_def)
  have dist: "distinct (rule_names ?rs)" and idx: "ad_rulesByName d = (\<lambda>n. index_of n (rule_names ?rs))"
    using assms(2) by (simp_all add: index_ok_def)
  have dist': "distinct (rule_names ?qs)" using named_mset [OF ms dist] by simp
  have "renumber 0 ?qs (ad_rulesByName d) = (\<lambda>n. index_of n (rule_names ?qs))"
  proof (rule renumber_index [OF dist'])
    fix n assume "n \<notin> set (drop 0 (rule_names ?qs))"
    moreover from this have "n \<notin> set (rule_names ?rs)" using mset_eq_setD [OF ms] by simp
    ultimately show "ad_rulesByName d n = index_of n (rule_names ?qs)"
      using index_of_None [of n "rule_names ?rs"] index_of_None [of n "rule_names ?qs"] idx by (simp del: index_of_None)
  qed
  moreover have "sorted (map ar_priority ?qs)" using sorted by (simp add: sorted_wrt_map not_less)
  ultimately show "rules_inv (sortRules e d)" using dist' by (simp add: rules_inv_def index_ok_def sortRules_def Let_def)
  show "named (ad_rules (sortRules e d)) = named ?rs"
    using named_mset(1) [OF ms dist] by (simp add: sortRules_def Let_def)
qed

text \<open>What else an operation changes does not matter for its rules.\<close>

definition same_rules :: "downloader \<Rightarrow> downloader \<Rightarrow> bool" where
  "same_rules d d' \<longleftrightarrow> ad_rules d' = ad_rules d \<and> ad_rulesByName d' = ad_rulesByName d"

lemma same_rulesD:
  assumes "same_rules d d'"
  shows "index_ok d' = index_ok d" "rules_inv d' = rules_inv d" "named (ad_rules d') = named (ad_rules d)" "rules_map d' = rules_map d"
proof -
  have "ruleByName n d' = ruleByName n d" for n using assms by (simp add: same_rules_def ruleByName_def split: option.split)
  then show "index_ok d' = index_ok d" "rules_inv d' = rules_inv d" "named (ad_rules d') = named (ad_rules d)" "rules_map d' = rules_map d"
    using assms by (simp_all add: same_rules_def index_ok_def rules_inv_def fun_eq_iff rules_map_def hasRule_def)
qed

lemma same_rules_fold: "(\<And>x d. same_rules d (f x d)) \<Longrightarrow> same_rules d (fold f xs d)"
  by (induction xs arbitrary: d) (auto simp: same_rules_def)

lemma same_rules_ops:
  "same_rules d (ad_store e d)" "same_rules d (emit_signal x d)" "same_rules d (handleNewArticle ua d)"
  "same_rules d (handleTorrentAdded de s d)" "same_rules d (handleAddTorrentFailed de s b d)"
  by (auto simp: same_rules_def ad_store_def emit_signal_def handleNewArticle_def addJobForArticle_def handleTorrentAdded_def
      handleAddTorrentFailed_def mark_read_def Let_def split: option.split)

lemma same_rules_trans: "same_rules d d' \<Longrightarrow> same_rules d' d'' \<Longrightarrow> same_rules d d''"
  by (simp add: same_rules_def)

lemma same_rules_reset: "same_rules d (resetProcessingQueue arts d)"
proof -
  have "same_rules (d\<lparr>ad_queue := []\<rparr>) (fold handleNewArticle arts (d\<lparr>ad_queue := []\<rparr>))"
    by (rule same_rules_fold) (rule same_rules_ops)
  then show ?thesis by (simp add: resetProcessingQueue_def Let_def same_rules_def)
qed

lemma same_rules_start: "same_rules d (startProcessing arts d)"
  using same_rules_trans [OF same_rules_reset same_rules_fold [of handleNewArticle], OF same_rules_ops(3), of d arts]
  by (simp add: startProcessing_def same_rules_def)

lemma same_rules_enabled: "same_rules d (setProcessingEnabled restored arts b d)"
  using same_rules_start [of "d\<lparr>ad_processing := b\<rparr>" arts]
  by (auto simp: setProcessingEnabled_def emit_signal_def Let_def same_rules_def)

definition equal_rule_set :: "(qstring \<rightharpoonup> rule) \<Rightarrow> rule \<Rightarrow> bool" where
  "equal_rule_set m r \<longleftrightarrow> (case m (ar_name r) of None \<Rightarrow> False | Some q \<Rightarrow> rule_equal q r)"

lemma setRule_cases:
  assumes "index_ok d"
  obtains "equal_rule_set (named (ad_rules d)) r" "setRule e arts r d = d"
  | "\<not> equal_rule_set (named (ad_rules d)) r" "same_rules (sortRules e (setRule_impl r d)) (setRule e arts r d)"
proof (cases "equal_rule_set (named (ad_rules d)) r")
  case True
  then obtain q where "named (ad_rules d) (ar_name r) = Some q" "rule_equal q r"
    by (auto simp: equal_rule_set_def split: option.splits)
  moreover from this(1) have "hasRule (ar_name r) d"
    using hasRule_named [OF assms] named_None [of "ad_rules d" "ar_name r"] by (metis option.distinct(1))
  moreover have "ruleByName (ar_name r) d = q" using ruleByName_named [OF assms \<open>hasRule (ar_name r) d\<close>] calculation(1) by simp
  ultimately have "setRule e arts r d = d" by (simp add: setRule_def)
  with True that(1) show ?thesis by blast
next
  case False
  have "hasRule (ar_name r) d \<Longrightarrow> \<not> rule_equal (ruleByName (ar_name r) d) r"
    using ruleByName_named [OF assms, symmetric] False by (simp add: equal_rule_set_def)
  moreover have "same_rules d' (resetProcessingQueue arts (emit_signal x (ad_store e (d'\<lparr>ad_dirty := True\<rparr>))))"
    "same_rules d' (resetProcessingQueue arts (emit_signal x (storeDeferred (d'\<lparr>ad_dirty := True\<rparr>))))" for d' x
    using same_rules_reset [of "emit_signal x (ad_store e (d'\<lparr>ad_dirty := True\<rparr>))" arts]
      same_rules_reset [of "emit_signal x (storeDeferred (d'\<lparr>ad_dirty := True\<rparr>))" arts]
    by (simp_all add: same_rules_def emit_signal_def ad_store_def storeDeferred_def)
  ultimately have "same_rules (sortRules e (setRule_impl r d)) (setRule e arts r d)"
    by (auto simp: setRule_def Let_def)
  with False that(2) show ?thesis by blast
qed

lemma setRule_ok:
  assumes "by_priority e" "rules_inv d"
  shows "rules_inv (setRule e arts r d)"
    and "named (ad_rules (setRule e arts r d)) =
      (if equal_rule_set (named (ad_rules d)) r then named (ad_rules d) else (named (ad_rules d))(ar_name r \<mapsto> r))"
proof -
  have ok: "index_ok d" using assms(2) by (simp add: rules_inv_def)
  note sorted = sortRules_ok [OF assms(1) setRule_impl_ok(1) [OF ok], of r]
  show "rules_inv (setRule e arts r d)"
    by (rule setRule_cases [OF ok, of r e arts]) (use assms(2) sorted(1) in \<open>auto simp: same_rulesD\<close>)
  show "named (ad_rules (setRule e arts r d)) =
      (if equal_rule_set (named (ad_rules d)) r then named (ad_rules d) else (named (ad_rules d))(ar_name r \<mapsto> r))"
    by (rule setRule_cases [OF ok, of r e arts]) (use sorted(2) setRule_impl_ok(2) [OF ok, of r] in \<open>auto simp: same_rulesD\<close>)
qed

section \<open>Renaming and removing\<close>

lemma removed_index: "distinct xs \<Longrightarrow> index_of x xs = Some i \<Longrightarrow> take i xs @ drop (Suc i) xs = remove1 x xs"
  by (induction xs arbitrary: i) auto

lemma removeRule_ok:
  assumes "rules_inv d"
  shows "rules_inv (removeRule e n d) \<and> named (ad_rules (removeRule e n d)) = (named (ad_rules d))(n := None)"
proof (cases "hasRule n d")
  case False
  with assms hasRule_named [of d n] have "n \<notin> set (rule_names (ad_rules d))" by (simp add: rules_inv_def)
  then have "(named (ad_rules d))(n := None) = named (ad_rules d)" by (simp add: fun_upd_idem named_None)
  with False assms show ?thesis by (simp add: removeRule_def)
next
  case True
  let ?rs = "ad_rules d"
  have dist: "distinct (rule_names ?rs)" and idx: "ad_rulesByName d = (\<lambda>n. index_of n (rule_names ?rs))"
    and sorted: "sorted (map ar_priority ?rs)"
    using assms by (simp_all add: rules_inv_def index_ok_def)
  from True obtain i where i: "index_of n (rule_names ?rs) = Some i" using idx by (auto simp: hasRule_def simp del: index_of_None)
  from dist i obtain as r bs where rs: "?rs = as @ r # bs" "i = length as" "ar_name r = n"
    "n \<notin> set (rule_names as)" "n \<notin> set (rule_names bs)" by (rule named_split)
  have rest: "take i ?rs @ drop (Suc i) ?rs = as @ bs" using rs by simp
  have "renumber i (as @ bs) ((ad_rulesByName d)(n := None)) = (\<lambda>k. index_of k (rule_names (as @ bs)))"
  proof (rule renumber_index)
    show "distinct (rule_names (as @ bs))" using dist rs by auto
    fix k assume k: "k \<notin> set (drop i (rule_names (as @ bs)))"
    show "((ad_rulesByName d)(n := None)) k = index_of k (rule_names (as @ bs))"
    proof (cases "k \<in> set (rule_names as)")
      case True
      then obtain ps qs where "rule_names as = ps @ k # qs" "k \<notin> set ps" by (meson split_list_first)
      with True rs idx show ?thesis by auto
    next
      case False
      with k rs have no: "k \<notin> set (rule_names (as @ bs))" by simp
      then have "index_of k (rule_names (as @ bs)) = None" by (rule index_of_None [THEN iffD2])
      moreover have "((ad_rulesByName d)(n := None)) k = None" using no rs idx by auto
      ultimately show ?thesis by (simp only:)
    qed
  qed
  moreover have "distinct (rule_names (as @ bs))" "sorted (map ar_priority (as @ bs))"
    using dist sorted rs by (auto simp: sorted_append)
  moreover have "named (as @ bs) = (named ?rs)(n := None)"
    using rs by (auto simp: fun_eq_iff named_append named_None [THEN iffD2] split: option.split)
  moreover have "ad_rules (removeRule e n d) = as @ bs"
    "ad_rulesByName (removeRule e n d) = renumber i (as @ bs) ((ad_rulesByName d)(n := None))"
    using True i idx rest by (simp_all add: removeRule_def Let_def emit_signal_def ad_store_def)
  ultimately show ?thesis by (simp add: rules_inv_def index_ok_def)
qed

lemma renameRule_ok:
  assumes "rules_inv d"
  shows "rules_inv (snd (renameRule e a b d))
    \<and> named (ad_rules (snd (renameRule e a b d))) =
       (case named (ad_rules d) a of
          Some r \<Rightarrow> if named (ad_rules d) b = None then ((named (ad_rules d))(a := None))(b \<mapsto> r\<lparr>ar_name := b\<rparr>) else named (ad_rules d)
        | None \<Rightarrow> named (ad_rules d))"
proof (cases "hasRule a d \<and> \<not> hasRule b d")
  case False
  then have "snd (renameRule e a b d) = d" by (auto simp: renameRule_def)
  moreover have "named (ad_rules d) a = None \<or> named (ad_rules d) b \<noteq> None"
    using False assms by (auto simp: named_None hasRule_named rules_inv_def)
  ultimately show ?thesis using assms by (auto split: option.split)
next
  case True
  let ?rs = "ad_rules d"
  have dist: "distinct (rule_names ?rs)" and idx: "ad_rulesByName d = (\<lambda>n. index_of n (rule_names ?rs))"
    and sorted: "sorted (map ar_priority ?rs)"
    using assms by (simp_all add: rules_inv_def index_ok_def)
  from True obtain i where i: "index_of a (rule_names ?rs) = Some i" using idx by (auto simp: hasRule_def simp del: index_of_None)
  from dist i obtain as r bs where rs: "?rs = as @ r # bs" "i = length as" "ar_name r = a"
    "a \<notin> set (rule_names as)" "a \<notin> set (rule_names bs)" by (rule named_split)
  have b: "b \<notin> set (rule_names ?rs)" using True assms by (simp add: hasRule_named rules_inv_def)
  let ?r = "r\<lparr>ar_name := b\<rparr>" and ?d = "snd (renameRule e a b d)"
  have rules: "ad_rules ?d = as @ ?r # bs" and byName: "ad_rulesByName ?d = ((ad_rulesByName d)(a := None))(b \<mapsto> i)"
    using True i idx rs by (simp_all add: renameRule_def Let_def emit_signal_def ad_store_def)
  have "ad_rulesByName ?d k = index_of k (rule_names (as @ ?r # bs))" for k
  proof (cases "k = b")
    case True
    then show ?thesis using byName b rs by simp
  next
    case False
    have "index_of k (ps @ x # qs) = index_of k (ps @ y # qs)" if "k \<noteq> x" "k \<noteq> y" for ps qs and x y :: qstring
      using that by (induction ps) auto
    note swap = this [of a b "rule_names as" "rule_names bs"]
    have gone: "index_of a (rule_names (as @ ?r # bs)) = None" by (rule index_of_None [THEN iffD2]) (use rs b in auto)
    show ?thesis
    proof (cases "k = a")
      case True
      then show ?thesis using byName False gone by (simp del: index_of_None)
    next
      case neq: False
      then show ?thesis using byName False rs idx swap by simp
    qed
  qed
  then have "ad_rulesByName ?d = (\<lambda>k. index_of k (rule_names (ad_rules ?d)))" by (simp add: rules fun_eq_iff)
  moreover have "distinct (rule_names (ad_rules ?d))" "sorted (map ar_priority (ad_rules ?d))"
    using dist sorted rs b by (auto simp: rules sorted_append)
  ultimately have "rules_inv ?d" by (simp add: rules_inv_def index_ok_def)
  moreover have "named ?rs a = Some r" "named ?rs b = None" using rs b
    by (auto simp: named_append named_None [THEN iffD2] split: option.split)
  moreover from this(2) have "named (as @ ?r # bs) = ((named ?rs)(a := None))(b \<mapsto> ?r)"
    using rs b by (auto simp: fun_eq_iff named_append named_None [THEN iffD2] split: option.split)
  ultimately show ?thesis using rules by simp
qed

section \<open>Processing keeps the rules in place\<close>

lemma accepts_place: "ar_name (snd (accepts e a r)) = ar_name r" "ar_priority (snd (accepts e a r)) = ar_priority r"
  by (simp_all add: accepts_def rule_matches_def Let_def case_prod_beta)

definition places :: "rule list \<Rightarrow> (qstring \<times> int) list" where
  "places rs = map (\<lambda>r. (ar_name r, ar_priority r)) rs"

lemma offer_places: "places (fst (offer_to_rules e job rs)) = places rs"
proof (induction rs)
  case (Cons r rs)
  then show ?case using accepts_place [of e "pj_articleData job" r] by (auto simp: places_def case_prod_beta Let_def)
qed (simp add: places_def)

lemma places_inv:
  assumes "places (ad_rules d') = places (ad_rules d)" "ad_rulesByName d' = ad_rulesByName d" "rules_inv d"
  shows "rules_inv d'"
proof -
  have "rule_names (ad_rules d') = rule_names (ad_rules d)" "map ar_priority (ad_rules d') = map ar_priority (ad_rules d)"
    using arg_cong [OF assms(1), of "map fst"] arg_cong [OF assms(1), of "map snd"] by (simp_all add: places_def comp_def)
  with assms(2,3) show ?thesis by (simp add: rules_inv_def index_ok_def)
qed

lemma processJob_ok: "rules_inv d \<Longrightarrow> rules_inv (processJob e job d)"
  using offer_places [of "de_rule e" job "ad_rules d"]
  by (intro places_inv [of "processJob e job d" d])
    (auto simp: processJob_def Let_def case_prod_beta storeDeferred_def mark_read_def split: option.split)

lemma ad_process_ok: "rules_inv d \<Longrightarrow> rules_inv (ad_process e d)"
proof (cases "ad_queue d")
  case (Cons job jobs)
  assume "rules_inv d"
  then have "rules_inv (processJob e job (d\<lparr>ad_queue := jobs, ad_timer := False\<rparr>))"
    by (intro processJob_ok) (simp add: rules_inv_def index_ok_def)
  with Cons show ?thesis by (auto simp: ad_process_def Let_def rules_inv_def index_ok_def)
qed (simp add: ad_process_def rules_inv_def index_ok_def)

lemma feedURL_ok: "rules_inv d \<Longrightarrow> rules_inv (handleFeedURLChanged e old new (d\<lparr>ad_feeds := fs\<rparr>))"
  by (rule places_inv [of _ d])
    (auto simp: handleFeedURLChanged_def ad_store_def places_def rule_url_def split: option.split)

lemma import_ok:
  assumes "by_priority e" "rules_inv d"
  shows "rules_inv (fold (setRule e arts) rs d)"
  using assms(2) by (induction rs arbitrary: d) (simp_all add: setRule_ok(1) [OF assms(1)])

lemmas kept_rules = same_rulesD(2) [OF same_rules_ops(1)] same_rulesD(2) [OF same_rules_ops(3)]
  same_rulesD(2) [OF same_rules_ops(4)] same_rulesD(2) [OF same_rules_ops(5)] same_rulesD(2) [OF same_rules_enabled]

lemma step_keeps_rules:
  assumes "by_priority e" "rules_inv d"
  shows "rules_inv (downloader_step e ev d)"
proof (cases ev)
  case (ImportRules arts doc)
  then show ?thesis using import_ok [OF assms] assms(2)
    by (auto simp: importRulesFromJSONFormat_def split: sum.splits)
qed (use assms in \<open>simp_all add: kept_rules removeRule_ok renameRule_ok setRule_ok ad_process_ok feedURL_ok\<close>)

lemma new_downloader_ok: "rules_inv (new_downloader b fs)"
  by (simp add: rules_inv_def index_ok_def new_downloader_def fun_eq_iff)

lemma run_keeps_rules:
  assumes "by_priority e" "rules_inv d"
  shows "rules_inv (fold (downloader_step e) evs d)"
  using assms(2) by (induction evs arbitrary: d) (simp_all add: step_keeps_rules [OF assms(1)])

text \<open>
  C19. Over any course of events the rules of the auto downloader are in the order of their priorities and the index finds
  each of them by its name, and nothing else.
\<close>

theorem rules_ordered_and_indexed:
  assumes "by_priority e"
  shows "sorted (map ar_priority (ad_rules (fold (downloader_step e) evs (new_downloader b fs))))
    \<and> distinct (rule_names (ad_rules (fold (downloader_step e) evs (new_downloader b fs))))
    \<and> (\<forall>n. ad_rulesByName (fold (downloader_step e) evs (new_downloader b fs)) n
        = index_of n (rule_names (ad_rules (fold (downloader_step e) evs (new_downloader b fs)))))"
  using run_keeps_rules [OF assms new_downloader_ok, of evs b fs] by (simp add: rules_inv_def index_ok_def)

text \<open>
  C14. The operations on rules are those of a map by name, with one exception: setting a rule that is equal to the stored
  one under \<^verbatim>\<open>operator==\<close> - which does not look at the episodes matched before - changes nothing. Setting
  any other rule puts it under its name, renaming moves an entry to a free name, removing deletes one.
\<close>

theorem rules_are_a_map:
  assumes "by_priority e" "rules_inv d"
  shows "rules_map (setRule e arts r d) = (if equal_rule_set (rules_map d) r then rules_map d else (rules_map d)(ar_name r \<mapsto> r))
    \<and> rules_map (removeRule e n d) = (rules_map d)(n := None)
    \<and> rules_map (snd (renameRule e a b d)) =
       (case rules_map d a of
          Some q \<Rightarrow> if rules_map d b = None then ((rules_map d)(a := None))(b \<mapsto> q\<lparr>ar_name := b\<rparr>) else rules_map d
        | None \<Rightarrow> rules_map d)"
proof -
  have "rules_map d' = named (ad_rules d')" if "rules_inv d'" for d'
    using that rules_map_named by (simp add: rules_inv_def)
  note this [OF assms(2)] this [OF setRule_ok(1) [OF assms]] this [OF removeRule_ok [OF assms(2), THEN conjunct1]]
    this [OF renameRule_ok [OF assms(2), THEN conjunct1]]
  then show ?thesis by (simp only: setRule_ok [OF assms] removeRule_ok [OF assms(2)] renameRule_ok [OF assms(2)] simp_thms)
qed

section \<open>Downloaded episodes cannot be forgotten\<close>

text \<open>
  Comparing rules leaves out the episodes they have matched, so setting a rule that only clears that list
  does nothing at all.
\<close>

lemma clearing_episodes_is_ignored:
  assumes "index_ok d" "rules_map d n = Some r" "ar_name r = n"
  shows "setRule e arts (r\<lparr>ar_previouslyMatched := []\<rparr>) d = d"
proof -
  have "equal_rule_set (named (ad_rules d)) (r\<lparr>ar_previouslyMatched := []\<rparr>)"
    using assms rules_map_named [OF assms(1)] by (simp add: equal_rule_set_def rule_equal_def)
  then show ?thesis by (metis setRule_cases [OF assms(1)])
qed

end
