(* ===== verification/Rss_Downloader_Runs.thy ===== *)
theory Rss_Downloader_Runs
  imports Rss_Downloader_Rules
begin

text \<open>
  The rules of the auto downloader across a restart, which rule an article goes to, and the queue that
  holds every article twice after processing is switched on.
\<close>

section \<open>The rules survive a restart\<close>

lemma stored_rules:
  assumes "distinct (rule_names rs)"
  shows "qmap_lookup (fold (\<lambda>r m. qmap_insert (ar_name r) (f r) m) rs m) n =
     (case named rs n of None \<Rightarrow> qmap_lookup m n | Some r \<Rightarrow> Some (f r))"
  using assms
proof (induction rs arbitrary: m)
  case (Cons r rs)
  then have "named rs (ar_name r) = None" by (simp add: named_None)
  with Cons show ?case by (auto split: option.split)
qed simp

lemma stored_rules_inv: "qmap_inv m \<Longrightarrow> qmap_inv (fold (\<lambda>r m. qmap_insert (ar_name r) (f r) m) rs m)"
  by (induction rs arbitrary: m) simp_all

lemma read_rules: "rules_of_object e (map (\<lambda>(n, obj). (n, JObject obj)) m) = Inr (map (\<lambda>(n, obj). fromJsonObject e obj n) m)"
  by (induction m) auto

lemma set_all_rules:
  assumes "index_ok d"
  shows "index_ok (fold setRule_impl rs d)"
    and "distinct (rule_names rs) \<Longrightarrow> named (ad_rules (fold setRule_impl rs d)) n =
      (case named rs n of None \<Rightarrow> named (ad_rules d) n | Some r \<Rightarrow> Some r)"
proof -
  show "index_ok (fold setRule_impl rs d)"
    using assms by (induction rs arbitrary: d) (simp_all add: setRule_impl_ok)
  show "named (ad_rules (fold setRule_impl rs d)) n = (case named rs n of None \<Rightarrow> named (ad_rules d) n | Some r \<Rightarrow> Some r)"
    if "distinct (rule_names rs)" using assms that
  proof (induction rs arbitrary: d)
    case (Cons r rs)
    then have "named rs (ar_name r) = None" by (simp add: named_None)
    with Cons setRule_impl_ok [OF Cons.prems(1), of r] show ?case by (auto split: option.split)
  qed simp
qed

lemma named_of_map:
  assumes "\<And>k obj. (k, obj) \<in> set m \<Longrightarrow> ar_name (g k obj) = k"
  shows "rule_names (map (\<lambda>(k, obj). g k obj) m) = map fst m"
    and "named (map (\<lambda>(k, obj). g k obj) m) n = map_option (g n) (map_of m n)"
  using assms by (induction m) auto

text \<open>
  C23. When rules with changes to store are stored and loaded by a new auto downloader, there is a rule of each name
  exactly when there was one before, and it is that rule with every field as it was, except that the date of its last
  match is what its text of RFC 2822 reads back as (the fraction of a second is lost), that the parameters which are never
  written - a torrent's name, sequential order, first and last pieces first, file paths and priorities - have their
  defaults, and that what is computed on demand is empty; the order of priorities and the index are established again.
  This is for rules as the setters leave them (\<open>rule_ok\<close>): numbers of 32 bits, each list of expressions as its
  text is split under the rule's own setting for regular expressions, clean parameters.
\<close>

theorem rules_survive_restart:
  assumes "by_priority e" "rules_inv d" "ad_dirty d" and "list_all (rule_ok (de_rule e)) (ad_rules d)"
  shows "rules_map (loadRules e (ad_file (ad_store e d)) (new_downloader b fs)) = map_option (restored_rule (de_rule e)) \<circ> rules_map d
    \<and> rules_inv (loadRules e (ad_file (ad_store e d)) (new_downloader b fs))"
proof -
  let ?e = "de_rule e" and ?rs = "ad_rules d" and ?d = "new_downloader b fs"
  define m where "m = fold (\<lambda>r m. qmap_insert (ar_name r) (toJsonObject ?e r) m) ?rs []"
  define qs where "qs = map (\<lambda>(n, obj). fromJsonObject ?e obj n) m"
  have dist: "distinct (rule_names ?rs)" and ok: "index_ok d" using assms(2) by (simp_all add: rules_inv_def index_ok_def)
  have m: "map_of m n = map_option (toJsonObject ?e) (named ?rs n)" for n
    using stored_rules [OF dist, of "toJsonObject ?e" "[]" n] by (auto simp: m_def qmap_lookup_def split: option.split)
  have inv: "qmap_inv m" unfolding m_def by (rule stored_rules_inv) simp
  have restores: "fromJsonObject ?e (toJsonObject ?e r) n = restored_rule ?e r" if "named ?rs n = Some r" for n r
  proof -
    from that have "r \<in> set ?rs" "ar_name r = n" by (auto simp: named_def dest!: map_of_SomeD)
    with assms(4) rule_json_restores [of ?e r] show ?thesis by (auto simp: list_all_iff)
  qed
  have name: "ar_name (fromJsonObject ?e obj k) = k" if "(k, obj) \<in> set m" for k obj
  proof -
    from that qmap_lookup_set [OF inv] have "map_of m k = Some obj" by (simp add: qmap_lookup_def)
    then obtain r where r: "named ?rs k = Some r" "obj = toJsonObject ?e r" by (auto simp: m)
    moreover from r(1) have "ar_name r = k" by (auto simp: named_def dest!: map_of_SomeD)
    ultimately show ?thesis using restores [OF r(1)] by (simp add: restored_rule_def)
  qed
  have qs: "rule_names qs = map fst m" "named qs n = map_option (\<lambda>obj. fromJsonObject ?e obj n) (map_of m n)" for n
    unfolding qs_def using named_of_map [of m "\<lambda>k obj. fromJsonObject ?e obj k"] name by auto
  have dist': "distinct (rule_names qs)" using inv by (simp add: qs(1) qmap_inv_def strict_sorted_iff)
  have new: "index_ok ?d" using new_downloader_ok by (simp add: rules_inv_def)
  have load: "loadRules e (ad_file (ad_store e d)) ?d = sortRules e (fold setRule_impl qs ?d)"
    using assms(3) by (simp add: ad_store_def loadRules_def rulesFromJSON_def rules_json_def read_rules qs_def m_def)
  note sorted = sortRules_ok [OF assms(1) set_all_rules(1) [OF new, of qs]]
  have "named (ad_rules (fold setRule_impl qs ?d)) n = map_option (restored_rule ?e) (named ?rs n)" for n
    using set_all_rules(2) [OF new dist', of n] restores [of n]
    by (auto simp: qs m new_downloader_def split: option.split)
  with sorted load rules_map_named [OF ok] rules_map_named [of "sortRules e (fold setRule_impl qs ?d)"]
  show ?thesis by (simp add: fun_eq_iff rules_inv_def)
qed

section \<open>An article goes to the first rule that wants it\<close>

definition takes :: "rule_env \<Rightarrow> processing_job \<Rightarrow> rule \<Rightarrow> bool" where
  "takes e job r \<longleftrightarrow> ar_enabled r \<and> pj_feedURL job \<in> set (ar_feedURLs r) \<and> rule_wants e (pj_articleData job) r"

text \<open>
  A rule whose table of expressions is consistent and that the matching is meant for. Rules come in that are like
  this - a setter empties the table, and so does reading a rule from JSON - and stay like this whatever happens.
\<close>

definition rule_fits :: "rule_env \<Rightarrow> rule \<Rightarrow> bool" where
  "rule_fits e r \<longleftrightarrow> cache_ok e r (ar_cachedRegexes r) \<and> plain_tokens r \<and> ranges_ok e r"

definition rules_fit :: "downloader_env \<Rightarrow> downloader \<Rightarrow> bool" where
  "rules_fit e d \<longleftrightarrow> rules_inv d \<and> (\<forall>r \<in> set (ad_rules d). rule_fits (de_rule e) r)"

definition document_fits :: "rule_env \<Rightarrow> json option \<Rightarrow> bool" where
  "document_fits e doc \<longleftrightarrow> (case rulesFromJSON e doc of Inl err \<Rightarrow> True | Inr rs \<Rightarrow> list_all (rule_fits e) rs)"

fun event_fits :: "rule_env \<Rightarrow> downloader_event \<Rightarrow> bool" where
  "event_fits e (SetRule arts r) \<longleftrightarrow> rule_fits e r"
| "event_fits e (ImportRules arts doc) \<longleftrightarrow> document_fits e doc"
| "event_fits e ev \<longleftrightarrow> True"

lemma rule_fits_fields:
  assumes "ar_useRegex q = ar_useRegex r" "ar_mustContain q = ar_mustContain r" "ar_mustNotContain q = ar_mustNotContain r"
    "ar_episodeFilter q = ar_episodeFilter r"
  shows "cache_ok e q = cache_ok e r" "plain_tokens q = plain_tokens r" "ranges_ok e q = ranges_ok e r"
  using assms
  by (auto simp: fun_eq_iff cache_ok_def pattern_of_def tokens_def plain_tokens_def ranges_ok_def episode_entries_def)

lemma rule_fits_kept [simp]:
  "rule_fits e (r\<lparr>ar_name := n\<rparr>) = rule_fits e r" "rule_fits e (r\<lparr>ar_feedURLs := us\<rparr>) = rule_fits e r"
  using rule_fits_fields [of "r\<lparr>ar_name := n\<rparr>" r] rule_fits_fields [of "r\<lparr>ar_feedURLs := us\<rparr>" r]
  by (simp_all add: rule_fits_def)

lemma fromJsonObject_cache: "ar_cachedRegexes (fromJsonObject e obj name) = Map.empty"
  by (simp add: fromJsonObject_def setUseRegex_def setMustContain_def setMustNotContain_def setEpisodeFilter_def Let_def)

lemma accepts_wants:
  assumes "rule_fits e r"
  shows "fst (accepts e a r) = rule_wants e a r" "ar_addTorrentParams (snd (accepts e a r)) = ar_addTorrentParams r"
    "rule_fits e (snd (accepts e a r))"
proof -
  let ?q = "snd (rule_matches e a r)"
  have exact: "fst (rule_matches e a r) = rule_wants e a r" "cache_ok e r (ar_cachedRegexes ?q)"
    using rule_matching_exact [of e r a] assms by (simp_all add: rule_fits_def)
  show "fst (accepts e a r) = rule_wants e a r" "ar_addTorrentParams (snd (accepts e a r)) = ar_addTorrentParams r"
    using exact(1) by (simp_all add: accepts_def Let_def case_prod_beta rule_matches_def)
  have cache: "ar_cachedRegexes (snd (accepts e a r)) = ar_cachedRegexes ?q"
    by (simp add: accepts_def Let_def case_prod_beta)
  have "ar_useRegex (snd (accepts e a r)) = ar_useRegex r" "ar_mustContain (snd (accepts e a r)) = ar_mustContain r"
    "ar_mustNotContain (snd (accepts e a r)) = ar_mustNotContain r" "ar_episodeFilter (snd (accepts e a r)) = ar_episodeFilter r"
    by (simp_all add: accepts_def rule_matches_def Let_def case_prod_beta)
  from rule_fits_fields [OF this] show "rule_fits e (snd (accepts e a r))"
    using assms exact(2) cache by (simp add: rule_fits_def)
qed

lemma offer_first:
  assumes "\<forall>r \<in> set rs. rule_fits e r"
  shows "map_option ar_addTorrentParams (snd (offer_to_rules e job rs)) = map_option ar_addTorrentParams (find (takes e job) rs)"
    and "\<forall>r \<in> set (fst (offer_to_rules e job rs)). rule_fits e r"
  using assms
proof (induction rs)
  case (Cons r rs)
  { case 1
    then show ?case using Cons accepts_wants [of e r "pj_articleData job"]
      by (auto simp: takes_def case_prod_beta Let_def)
  next
    case 2
    then show ?case using Cons accepts_wants [of e r "pj_articleData job"]
      by (auto simp: takes_def case_prod_beta Let_def) }
qed simp_all

section \<open>Every rule goes on fitting\<close>

lemma rules_fitI:
  assumes "rules_inv d'" "rules_fit e d" "\<And>r. r \<in> set (ad_rules d') \<Longrightarrow> r \<in> set (ad_rules d) \<or> rule_fits (de_rule e) r"
  shows "rules_fit e d'"
  using assms by (auto simp: rules_fit_def)

lemma sortRules_set: "by_priority e \<Longrightarrow> set (ad_rules (sortRules e d)) = set (ad_rules d)"
  by (simp add: sortRules_def Let_def by_priority_def sorts_def) (metis mset_eq_setD)

lemma setRule_impl_set: "set (ad_rules (setRule_impl r d)) \<subseteq> insert r (set (ad_rules d))"
  using set_update_subset_insert [of "ad_rules d" _ r] by (simp add: setRule_impl_def split: option.split)

lemma setRule_fits:
  assumes "by_priority e" "rules_fit e d" "rule_fits (de_rule e) r"
  shows "rules_fit e (setRule e arts r d)"
proof -
  have inv: "rules_inv d" using assms(2) by (simp add: rules_fit_def)
  then have ok: "index_ok d" by (simp add: rules_inv_def)
  have "set (ad_rules (setRule e arts r d)) \<subseteq> insert r (set (ad_rules d))"
  proof (rule setRule_cases [OF ok, of r e arts])
    assume "setRule e arts r d = d"
    then show ?thesis by (simp only: subset_insertI)
  next
    assume "same_rules (sortRules e (setRule_impl r d)) (setRule e arts r d)"
    then show ?thesis using setRule_impl_set [of r d] sortRules_set [OF assms(1), of "setRule_impl r d"]
      by (simp only: same_rules_def)
  qed
  with assms(3) have "q \<in> set (ad_rules d) \<or> rule_fits (de_rule e) q" if "q \<in> set (ad_rules (setRule e arts r d))" for q
    using that by blast
  then show ?thesis by (rule rules_fitI [OF setRule_ok(1) [OF assms(1) inv] assms(2)])
qed

lemma import_fits:
  assumes "by_priority e" "rules_fit e d" "list_all (rule_fits (de_rule e)) rs"
  shows "rules_fit e (fold (setRule e arts) rs d)"
  using assms(2,3) by (induction rs arbitrary: d) (simp_all add: setRule_fits [OF assms(1)])

lemma load_fits:
  assumes "by_priority e" "document_fits (de_rule e) doc"
  shows "rules_fit e (loadRules e doc (new_downloader b fs))"
proof (cases "rulesFromJSON (de_rule e) doc")
  case (Inl err)
  then show ?thesis using new_downloader_ok by (simp add: loadRules_def rules_fit_def new_downloader_def)
next
  case (Inr rs)
  have new: "index_ok (new_downloader b fs)" using new_downloader_ok by (simp add: rules_inv_def)
  have "set (ad_rules (fold setRule_impl rs d)) \<subseteq> set rs \<union> set (ad_rules d)" for d
  proof (induction rs arbitrary: d)
    case (Cons r rs)
    then show ?case using setRule_impl_set [of r d] by fastforce
  qed simp
  from this [of "new_downloader b fs"] have "set (ad_rules (fold setRule_impl rs (new_downloader b fs))) \<subseteq> set rs"
    by (simp add: new_downloader_def)
  with Inr assms(2) sortRules_ok(1) [OF assms(1) set_all_rules(1) [OF new, of rs]] sortRules_set [OF assms(1)]
  show ?thesis by (auto simp: loadRules_def rules_fit_def document_fits_def list_all_iff)
qed

lemma processJob_fits:
  assumes "rules_fit e d"
  shows "rules_fit e (processJob e job d)"
proof -
  have "ad_rules (processJob e job d) = fst (offer_to_rules (de_rule e) job (ad_rules d))"
    by (simp add: processJob_def Let_def case_prod_beta storeDeferred_def mark_read_def split: option.split)
  with assms offer_first(2) [of "ad_rules d" "de_rule e" job] processJob_ok [of d e job]
  show ?thesis by (simp add: rules_fit_def)
qed

lemma ad_process_fits:
  assumes "rules_fit e d"
  shows "rules_fit e (ad_process e d)"
proof (cases "ad_queue d")
  case (Cons job jobs)
  have "rules_fit e (processJob e job (d\<lparr>ad_queue := jobs, ad_timer := False\<rparr>))"
    using assms by (intro processJob_fits) (simp add: rules_fit_def rules_inv_def index_ok_def)
  with Cons show ?thesis by (auto simp: ad_process_def Let_def rules_fit_def rules_inv_def index_ok_def)
qed (use assms in \<open>simp add: ad_process_def rules_fit_def rules_inv_def index_ok_def\<close>)

lemma same_rules_fit: "same_rules d d' \<Longrightarrow> rules_fit e d \<Longrightarrow> rules_fit e d'"
  using same_rulesD(2) [of d d'] by (auto simp: rules_fit_def same_rules_def)

lemma removeRule_fits:
  assumes "rules_fit e d"
  shows "rules_fit e (removeRule e n d)"
proof (rule rules_fitI [of _ e d])
  show "rules_inv (removeRule e n d)" using removeRule_ok [of d e n] assms by (simp add: rules_fit_def)
qed (use assms in \<open>auto simp: removeRule_def Let_def ad_store_def emit_signal_def dest: in_set_takeD in_set_dropD split: if_splits\<close>)

lemma renameRule_fits:
  assumes "rules_fit e d"
  shows "rules_fit e (snd (renameRule e a b d))"
proof (rule rules_fitI [of _ e d])
  show "rules_inv (snd (renameRule e a b d))" using renameRule_ok [of d e a b] assms by (simp add: rules_fit_def)
  fix r assume r: "r \<in> set (ad_rules (snd (renameRule e a b d)))"
  show "r \<in> set (ad_rules d) \<or> rule_fits (de_rule e) r"
  proof (cases "\<not> hasRule a d \<or> hasRule b d")
    case True
    with r show ?thesis by (simp add: renameRule_def)
  next
    case False
    have idx: "ad_rulesByName d a = index_of a (rule_names (ad_rules d))"
      using assms by (simp add: rules_fit_def rules_inv_def index_ok_def)
    from False obtain i where i: "ad_rulesByName d a = Some i" by (auto simp: hasRule_def)
    with idx have "i < length (ad_rules d)" using index_of_Some [of a "rule_names (ad_rules d)" i] by simp
    then have "ad_rules d ! i \<in> set (ad_rules d)" by simp
    moreover have "r \<in> insert ((ad_rules d ! i)\<lparr>ar_name := b\<rparr>) (set (ad_rules d))"
      using r False i by (auto simp: renameRule_def Let_def ad_store_def emit_signal_def dest: set_update_subset_insert [THEN subsetD])
    ultimately show ?thesis using assms by (auto simp: rules_fit_def)
  qed
qed (use assms in simp)

lemma feedURL_fits:
  assumes "rules_fit e d"
  shows "rules_fit e (handleFeedURLChanged e old new (d\<lparr>ad_feeds := fs\<rparr>))"
proof (rule rules_fitI [of _ e d])
  show "rules_inv (handleFeedURLChanged e old new (d\<lparr>ad_feeds := fs\<rparr>))" using feedURL_ok assms by (simp add: rules_fit_def)
qed (use assms in \<open>auto simp: handleFeedURLChanged_def ad_store_def rules_fit_def rule_url_def split: if_splits option.splits\<close>)

lemma step_fits:
  assumes "by_priority e" "rules_fit e d" "event_fits (de_rule e) ev"
  shows "rules_fit e (downloader_step e ev d)"
proof (cases ev)
  case (ImportRules arts doc)
  with assms import_fits [OF assms(1,2)] show ?thesis
    by (auto simp: importRulesFromJSONFormat_def document_fits_def split: sum.splits)
qed (use assms in \<open>simp_all add: setRule_fits renameRule_fits removeRule_fits ad_process_fits feedURL_fits
    same_rules_fit [OF same_rules_ops(1)] same_rules_fit [OF same_rules_ops(3)] same_rules_fit [OF same_rules_ops(4)]
    same_rules_fit [OF same_rules_ops(5)] same_rules_fit [OF same_rules_enabled]\<close>)

lemma run_fits:
  assumes "by_priority e" "rules_fit e d" "list_all (event_fits (de_rule e)) evs"
  shows "rules_fit e (fold (downloader_step e) evs d)"
  using assms(2,3) by (induction evs arbitrary: d) (simp_all add: step_fits [OF assms(1)])

lemma processJob_adds:
  assumes "\<forall>r \<in> set (ad_rules d). rule_fits (de_rule e) r"
  shows "ad_added (processJob e job d) = ad_added d @
    (case find (takes (de_rule e) job) (ad_rules d) of None \<Rightarrow> []
     | Some r \<Rightarrow> [(variant_toString (ae_rss (de_rule e)) (value_of (pj_articleData job) KeyTorrentURL), ar_addTorrentParams r)])"
  using offer_first(1) [OF assms, of job]
  by (cases "find (takes (de_rule e) job) (ad_rules d)"; cases "snd (offer_to_rules (de_rule e) job (ad_rules d))";
      simp add: processJob_def Let_def case_prod_beta storeDeferred_def mark_read_def split: option.split)

text \<open>
  C17. Whatever has happened to the auto downloader since it loaded its file, processing an article adds a torrent for the
  first rule, in the order of priorities, that is enabled, covers the article's feed and wants the article; none when there
  is no such rule, and never more than one. This is for rules that fit when they come in - from the file, set or imported -
  as of C16: with a consistent table of compiled expressions, no wildcard spelt like an expression of the episode filter,
  and no range of other than two parts; they are shown to go on fitting over every course of events.
\<close>

theorem article_goes_to_first_rule:
  assumes "by_priority e" "document_fits (de_rule e) file" "list_all (event_fits (de_rule e)) evs"
    and "d = fold (downloader_step e) evs (loadRules e file (new_downloader b fs))"
  shows "sorted (map ar_priority (ad_rules d)) \<and> ad_added (processJob e job d) = ad_added d @
    (case find (takes (de_rule e) job) (ad_rules d) of None \<Rightarrow> []
     | Some r \<Rightarrow> [(variant_toString (ae_rss (de_rule e)) (value_of (pj_articleData job) KeyTorrentURL), ar_addTorrentParams r)])"
proof -
  have "rules_fit e d" unfolding assms(4) by (rule run_fits [OF assms(1) load_fits [OF assms(1,2)] assms(3)])
  then show ?thesis using processJob_adds [of d e job] by (simp add: rules_fit_def rules_inv_def)
qed

section \<open>Every article is queued twice\<close>

text \<open>
  Switching processing on fills the queue from all articles, then hands every article over once more as if
  it were new; nothing but a rule's own memory keeps the second from being downloaded again.
\<close>

definition candidate :: "listed_article \<Rightarrow> bool" where
  "candidate ua \<longleftrightarrow> \<not> a_isRead (snd ua) \<and> torrentUrl (snd ua) \<noteq> []"

definition job_of :: "listed_article \<Rightarrow> processing_job" where
  "job_of ua = \<lparr>pj_feedURL = fst ua, pj_articleData = a_data (snd ua)\<rparr>"

lemma queue_articles:
  "ad_waitingJobs d = Map.empty \<Longrightarrow>
     ad_queue (fold handleNewArticle arts d) = ad_queue d @ map job_of (filter candidate arts)
     \<and> ad_waitingJobs (fold handleNewArticle arts d) = Map.empty"
  by (induction arts arbitrary: d) (auto simp: handleNewArticle_def addJobForArticle_def candidate_def job_of_def)

lemma articles_queued_twice:
  assumes "ad_waitingJobs d = Map.empty" "ad_processing d"
  shows "ad_queue (startProcessing arts d) = map job_of (filter candidate arts) @ map job_of (filter candidate arts)"
  using queue_articles [of "d\<lparr>ad_queue := []\<rparr>" arts] assms
    queue_articles [of "fold handleNewArticle arts (d\<lparr>ad_queue := []\<rparr>)" arts]
  by (simp add: startProcessing_def resetProcessingQueue_def Let_def)

lemma plain_rule_accepts_again:
  assumes "ar_enabled r" "pj_feedURL job \<in> set (ar_feedURLs r)" "ar_mustContain r = []" "ar_mustNotContain r = []"
    "ar_episodeFilter r = []" "\<not> ar_smartFilter r" "ar_ignoreDays r = 0" "ad_rules d = [r]"
    "\<not> de_parses e (variant_toString (ae_rss (de_rule e)) (value_of (pj_articleData job) KeyTorrentURL))"
  shows "length (ad_added (processJob e job (processJob e job d))) = length (ad_added d) + 2"
  using assms
  by (simp add: processJob_def accepts_def rule_matches_def Let_def matchesMustContainExpression_def
      matchesMustNotContainExpression_def matchesEpisodeFilterExpression_def matchesSmartEpisodeFilter_def storeDeferred_def)

section \<open>A concrete downloader\<close>

definition downloader_env_ex :: downloader_env where
  "downloader_env_ex = \<lparr>de_rule = rule_env_ex, de_sort = sort_key ar_priority, de_parses = (\<lambda>s. False)\<rparr>"

lemma by_priority_ex: "by_priority downloader_env_ex"
proof -
  have "sorted_wrt (\<lambda>a b. ar_priority a \<le> ar_priority b) (sort_key ar_priority rs)" for rs :: "rule list"
    using sorted_sort_key [of ar_priority rs] by (simp add: sorted_wrt_map)
  then show ?thesis by (simp add: by_priority_def sorts_def downloader_env_ex_def not_less)
qed

definition downloader_ex :: downloader where
  "downloader_ex = (new_downloader False Map.empty)\<lparr>ad_rules := [rule_ex], ad_rulesByName := [''r'' \<mapsto> 0], ad_dirty := True\<rparr>"

lemma downloader_ex_ok:
  "rules_inv downloader_ex" "ad_dirty downloader_ex" "list_all (rule_ok (de_rule downloader_env_ex)) (ad_rules downloader_ex)"
  using rule_ex_json_ok
  by (auto simp: downloader_ex_def rules_inv_def index_ok_def downloader_env_ex_def fun_eq_iff rule_ex_def setMustContain_def new_rule_def)

theorem rules_survive_restart_witness:
  "rules_map (loadRules downloader_env_ex (ad_file (ad_store downloader_env_ex downloader_ex)) (new_downloader False Map.empty))
     = map_option (restored_rule (de_rule downloader_env_ex)) \<circ> rules_map downloader_ex
   \<and> rules_inv (loadRules downloader_env_ex (ad_file (ad_store downloader_env_ex downloader_ex)) (new_downloader False Map.empty))"
  by (rule rules_survive_restart [OF by_priority_ex downloader_ex_ok(1-3)])

definition job_ex :: processing_job where
  "job_ex = \<lparr>pj_feedURL = ''u'', pj_articleData = title_ex ''s01 a b'' 3\<rparr>"

definition downloader_run_ex :: downloader where
  "downloader_run_ex =
     fold (downloader_step downloader_env_ex) [SetRule [] rule_ex, RenameRule ''r'' ''q''] (loadRules downloader_env_ex None (new_downloader False Map.empty))"

lemma rule_ex_fits: "rule_fits (de_rule downloader_env_ex) rule_ex"
  using rule_ex_ok by (simp add: rule_fits_def downloader_env_ex_def)

theorem article_goes_to_first_rule_witness:
  "sorted (map ar_priority (ad_rules downloader_run_ex)) \<and> ad_added (processJob downloader_env_ex job_ex downloader_run_ex) = ad_added downloader_run_ex @
    (case find (takes (de_rule downloader_env_ex) job_ex) (ad_rules downloader_run_ex) of None \<Rightarrow> []
     | Some r \<Rightarrow> [(variant_toString (ae_rss (de_rule downloader_env_ex)) (value_of (pj_articleData job_ex) KeyTorrentURL), ar_addTorrentParams r)])"
  by (rule article_goes_to_first_rule [OF by_priority_ex _ _ downloader_run_ex_def])
    (simp_all add: document_fits_def rulesFromJSON_def rule_ex_fits)

theorem rules_ordered_and_indexed_witness:
  "sorted (map ar_priority (ad_rules (fold (downloader_step downloader_env_ex) [SetRule [] rule_ex, RemoveRule ''r''] (new_downloader False Map.empty))))
    \<and> distinct (rule_names (ad_rules (fold (downloader_step downloader_env_ex) [SetRule [] rule_ex, RemoveRule ''r''] (new_downloader False Map.empty))))
    \<and> (\<forall>n. ad_rulesByName (fold (downloader_step downloader_env_ex) [SetRule [] rule_ex, RemoveRule ''r''] (new_downloader False Map.empty)) n
        = index_of n (rule_names (ad_rules (fold (downloader_step downloader_env_ex) [SetRule [] rule_ex, RemoveRule ''r''] (new_downloader False Map.empty)))))"
  by (rule rules_ordered_and_indexed [OF by_priority_ex])

theorem rules_are_a_map_witness:
  "rules_map (setRule downloader_env_ex [] (new_rule ''q'') downloader_ex) =
      (if equal_rule_set (rules_map downloader_ex) (new_rule ''q'') then rules_map downloader_ex
       else (rules_map downloader_ex)(ar_name (new_rule ''q'') \<mapsto> new_rule ''q''))
    \<and> rules_map (removeRule downloader_env_ex ''r'' downloader_ex) = (rules_map downloader_ex)(''r'' := None)
    \<and> rules_map (snd (renameRule downloader_env_ex ''r'' ''s'' downloader_ex)) =
       (case rules_map downloader_ex ''r'' of
          Some q \<Rightarrow> if rules_map downloader_ex ''s'' = None then ((rules_map downloader_ex)(''r'' := None))(''s'' \<mapsto> q\<lparr>ar_name := ''s''\<rparr>)
             else rules_map downloader_ex
        | None \<Rightarrow> rules_map downloader_ex)"
  by (rule rules_are_a_map [OF by_priority_ex downloader_ex_ok(1)])

end
