(* ===== verification/Rss_Session.thy ===== *)
theory Rss_Session
  imports Rss_Rule "HOL-Library.AList"
begin

text \<open>
  The tree of RSS feeds and folders, \<^verbatim>\<open>src/src/base/rss/rss_session.cpp\<close> with \<^verbatim>\<open>rss_folder.cpp\<close> and
  \<^verbatim>\<open>rss_item.cpp\<close>. Items are objects with an identity; the session finds them by path, feeds by URL and
  by UID as well, and a folder lists its items. An operation gives an error, a new state, or nothing
  (\<open>None\<close>) where the code follows a null pointer. The articles of a feed are in \<open>Rss_Feed\<close>; the file is
  that of \<^verbatim>\<open>Folder::toJsonValue\<close>.
\<close>

section \<open>Paths\<close>

definition path_sep :: char where
  "path_sep = CHR 0x5C"

definition item_isValidPath :: "qstring \<Rightarrow> bool" where
  "item_isValidPath p \<longleftrightarrow> list_all (\<lambda>c. c \<noteq> []) (split_char path_sep p)"

definition item_joinPath :: "qstring \<Rightarrow> qstring \<Rightarrow> qstring" where
  "item_joinPath path1 path2 = (if path1 = [] then path2 else path1 @ [path_sep] @ path2)"

definition item_parentPath :: "qstring \<Rightarrow> qstring" where
  "item_parentPath p = (case last_index_of path_sep p of None \<Rightarrow> [] | Some pos \<Rightarrow> take pos p)"

definition item_relativeName :: "qstring \<Rightarrow> qstring" where
  "item_relativeName p = (case last_index_of path_sep p of None \<Rightarrow> p | Some pos \<Rightarrow> drop (pos + 1) p)"

section \<open>Items\<close>

datatype item_kind =
    FolderItem "nat list"
  | FeedItem qstring qstring qstring

record rss_item =
  ri_path :: qstring
  ri_kind :: item_kind

datatype session_signal =
    ItemAdded nat
  | ItemAboutToBeRemoved nat
  | ItemPathChanged nat
  | FeedURLMoved nat qstring
  | FeedRefreshed nat

record rss_session =
  rs_items :: "nat \<rightharpoonup> rss_item"
  rs_next :: nat
  rs_itemsByPath :: "qstring \<rightharpoonup> nat"
  rs_feedsByURL :: "qstring \<rightharpoonup> nat"
  rs_feedsByUID :: "qstring \<rightharpoonup> nat"
  rs_processing :: bool
  rs_file :: "json option"
  rs_signals :: "session_signal list"

datatype session_error =
    FeedExists qstring
  | IncorrectPath qstring
  | ItemExists qstring
  | NoParentFolder qstring
  | NoFeed qstring
  | IsRoot
  | NoItem qstring
  | IntoItself

definition new_session :: "bool \<Rightarrow> rss_session" where
  "new_session processing =
     \<lparr>rs_items = [0 \<mapsto> \<lparr>ri_path = [], ri_kind = FolderItem []\<rparr>], rs_next = 1, rs_itemsByPath = [[] \<mapsto> 0],
      rs_feedsByURL = Map.empty, rs_feedsByUID = Map.empty, rs_processing = processing, rs_file = None, rs_signals = []\<rparr>"

definition notify_session :: "session_signal \<Rightarrow> rss_session \<Rightarrow> rss_session" where
  "notify_session x s = s\<lparr>rs_signals := rs_signals s @ [x]\<rparr>"

fun kind_children :: "item_kind \<Rightarrow> nat list" where
  "kind_children (FolderItem xs) = xs"
| "kind_children (FeedItem uid url title) = []"

definition item_children :: "rss_session \<Rightarrow> nat \<Rightarrow> nat list" where
  "item_children s i = (case rs_items s i of None \<Rightarrow> [] | Some it \<Rightarrow> kind_children (ri_kind it))"

definition is_folder :: "rss_session \<Rightarrow> nat \<Rightarrow> bool" where
  "is_folder s i = (case rs_items s i of None \<Rightarrow> False
     | Some it \<Rightarrow> (case ri_kind it of FolderItem xs \<Rightarrow> True | FeedItem _ _ _ \<Rightarrow> False))"

definition set_kind :: "nat \<Rightarrow> item_kind \<Rightarrow> rss_session \<Rightarrow> rss_session" where
  "set_kind i k s = s\<lparr>rs_items := (rs_items s)(i := map_option (\<lambda>it. it\<lparr>ri_kind := k\<rparr>) (rs_items s i))\<rparr>"

section \<open>The file\<close>

text \<open>
  \<^verbatim>\<open>Folder::toJsonValue\<close> goes down the tree; the number of items bounds its depth. An object keeps
  the last value of a key.
\<close>

fun item_json :: "nat \<Rightarrow> rss_session \<Rightarrow> nat \<Rightarrow> json" where
  "item_json 0 s i = JNull"
| "item_json (Suc n) s i =
     (case rs_items s i of None \<Rightarrow> JNull
      | Some it \<Rightarrow>
          (case ri_kind it of
             FeedItem uid url title \<Rightarrow> JObject [(''uid'', JString uid), (''url'', JString url)]
           | FolderItem xs \<Rightarrow>
               JObject (fold (\<lambda>c m. AList.update (case rs_items s c of None \<Rightarrow> [] | Some ct \<Rightarrow> item_relativeName (ri_path ct))
                 (item_json n s c) m) xs [])))"

definition session_store :: "rss_session \<Rightarrow> rss_session" where
  "session_store s = s\<lparr>rs_file := Some (item_json (rs_next s) s 0)\<rparr>"

section \<open>Adding\<close>

definition prepareItemDest :: "qstring \<Rightarrow> rss_session \<Rightarrow> session_error + nat" where
  "prepareItemDest path s =
     (if \<not> item_isValidPath path then Inl (IncorrectPath path)
      else if rs_itemsByPath s path \<noteq> None then Inl (ItemExists path)
      else (case rs_itemsByPath s (item_parentPath path) of
              None \<Rightarrow> Inl (NoParentFolder (item_parentPath path))
            | Some k \<Rightarrow> if is_folder s k then Inr k else Inl (NoParentFolder (item_parentPath path))))"

definition folder_addItem :: "nat \<Rightarrow> nat \<Rightarrow> rss_session \<Rightarrow> rss_session" where
  "folder_addItem k i s = set_kind k (FolderItem (item_children s k @ [i])) s"

definition folder_removeItem :: "nat \<Rightarrow> nat \<Rightarrow> rss_session \<Rightarrow> rss_session" where
  "folder_removeItem k i s = set_kind k (FolderItem (remove1 i (item_children s k))) s"

definition session_addItem :: "rss_item \<Rightarrow> nat \<Rightarrow> rss_session \<Rightarrow> nat \<times> rss_session" where
  "session_addItem it destFolder s =
     (let i = rs_next s;
          s = s\<lparr>rs_items := (rs_items s)(i \<mapsto> it), rs_next := Suc i\<rparr>;
          s = (case ri_kind it of FolderItem xs \<Rightarrow> s
               | FeedItem uid url title \<Rightarrow>
                   s\<lparr>rs_feedsByUID := (rs_feedsByUID s)(uid \<mapsto> i), rs_feedsByURL := (rs_feedsByURL s)(url \<mapsto> i)\<rparr>);
          s = s\<lparr>rs_itemsByPath := (rs_itemsByPath s)(ri_path it \<mapsto> i)\<rparr>
      in (i, notify_session (ItemAdded i) (folder_addItem destFolder i s)))"

definition addFolder :: "qstring \<Rightarrow> rss_session \<Rightarrow> session_error + rss_session" where
  "addFolder path s =
     (case prepareItemDest path s of Inl err \<Rightarrow> Inl err
      | Inr k \<Rightarrow> Inr (session_store (snd (session_addItem \<lparr>ri_path = path, ri_kind = FolderItem []\<rparr> k s))))"

definition refresh_feed :: "nat \<Rightarrow> rss_session \<Rightarrow> rss_session" where
  "refresh_feed i s = (if rs_processing s then notify_session (FeedRefreshed i) s else s)"

text \<open>The UID is that of \<^verbatim>\<open>generateUID\<close>, which is not in use.\<close>

definition addFeed :: "qstring \<Rightarrow> qstring \<Rightarrow> qstring \<Rightarrow> rss_session \<Rightarrow> session_error + rss_session" where
  "addFeed uid url path s =
     (if rs_feedsByURL s url \<noteq> None then Inl (FeedExists url)
      else (case prepareItemDest path s of Inl err \<Rightarrow> Inl err
            | Inr k \<Rightarrow> (let (i, s) = session_addItem \<lparr>ri_path = path, ri_kind = FeedItem uid url []\<rparr> k s
                         in Inr (refresh_feed i (session_store s)))))"

section \<open>Moving and removing\<close>

definition setPath :: "nat \<Rightarrow> qstring \<Rightarrow> rss_session \<Rightarrow> rss_session" where
  "setPath i path s =
     (case rs_items s i of None \<Rightarrow> s
      | Some it \<Rightarrow> if path = ri_path it then s
          else notify_session (ItemPathChanged i) (s\<lparr>rs_items := (rs_items s)(i \<mapsto> it\<lparr>ri_path := path\<rparr>)\<rparr>))"

definition move_item :: "nat \<Rightarrow> qstring \<Rightarrow> rss_session \<Rightarrow> (session_error + rss_session) option" where
  "move_item i destPath s =
     (case prepareItemDest destPath s of Inl err \<Rightarrow> Some (Inl err)
      | Inr destFolder \<Rightarrow>
          if destFolder = i then Some (Inl IntoItself)
          else
            (case rs_items s i of None \<Rightarrow> None
             | Some it \<Rightarrow>
                 (let srcFolder = rs_itemsByPath s (item_parentPath (ri_path it)) in
                  if srcFolder \<noteq> Some destFolder \<and> (srcFolder = None \<or> \<not> is_folder s (the srcFolder)) then None
                  else
                    (let s1 = (if srcFolder \<noteq> Some destFolder
                               then folder_addItem destFolder i (folder_removeItem (the srcFolder) i s) else s);
                         byPath = rs_itemsByPath s1;
                         s2 = s1\<lparr>rs_itemsByPath := (byPath(ri_path it := None))(destPath := byPath (ri_path it))\<rparr>
                     in Some (Inr (session_store (setPath i destPath s2)))))))"

definition moveItem :: "qstring \<Rightarrow> qstring \<Rightarrow> rss_session \<Rightarrow> (session_error + rss_session) option" where
  "moveItem itemPath destPath s =
     (if itemPath = [] then Some (Inl IsRoot)
      else (case rs_itemsByPath s itemPath of None \<Rightarrow> Some (Inl (NoItem itemPath))
            | Some i \<Rightarrow> move_item i destPath s))"

text \<open>
  The slots that rename a feed ignore an error. Both rename a feed that is still called by its URL.
\<close>

definition rename_feed :: "nat \<Rightarrow> qstring \<Rightarrow> rss_session \<Rightarrow> rss_session option" where
  "rename_feed i name s =
     (case rs_items s i of None \<Rightarrow> None
      | Some it \<Rightarrow>
          (case move_item i (item_joinPath (item_parentPath (ri_path it)) name) s of None \<Rightarrow> None
           | Some (Inl err) \<Rightarrow> Some s
           | Some (Inr s) \<Rightarrow> Some s))"

definition handleFeedTitleChanged :: "nat \<Rightarrow> qstring \<Rightarrow> rss_session \<Rightarrow> rss_session option" where
  "handleFeedTitleChanged i title s =
     (case rs_items s i of None \<Rightarrow> None
      | Some it \<Rightarrow>
          (case ri_kind it of FolderItem xs \<Rightarrow> None
           | FeedItem uid url old \<Rightarrow>
               (let s = set_kind i (FeedItem uid url title) s in
                if item_relativeName (ri_path it) = url then rename_feed i title s else Some s)))"

definition setFeedURL :: "qstring \<Rightarrow> qstring \<Rightarrow> rss_session \<Rightarrow> (session_error + rss_session) option" where
  "setFeedURL path url s =
     (case rs_itemsByPath s path of None \<Rightarrow> Some (Inl (NoFeed path))
      | Some i \<Rightarrow>
          (case map_option ri_kind (rs_items s i) of
             Some (FeedItem uid old title) \<Rightarrow>
               if url = old then Some (Inr s)
               else if rs_feedsByURL s url \<noteq> None then Some (Inl (FeedExists url))
               else
                 (let s1 = set_kind i (FeedItem uid url title)
                        (s\<lparr>rs_feedsByURL := ((rs_feedsByURL s)(old := None))(url := rs_feedsByURL s old)\<rparr>);
                      s2 = (if item_relativeName path = old then rename_feed i url s1 else Some s1)
                  in map_option (\<lambda>s. Inr (refresh_feed i (session_store (notify_session (FeedURLMoved i old) s)))) s2)
           | _ \<Rightarrow> Some (Inl (NoFeed path))))"

text \<open>\<^verbatim>\<open>handleItemAboutToBeDestroyed\<close>, and the object is gone.\<close>

definition item_destroyed :: "nat \<Rightarrow> rss_session \<Rightarrow> rss_session" where
  "item_destroyed i s =
     (case rs_items s i of None \<Rightarrow> s
      | Some it \<Rightarrow>
          (let s = s\<lparr>rs_itemsByPath := (rs_itemsByPath s)(ri_path it := None)\<rparr>;
               s = (case ri_kind it of FolderItem xs \<Rightarrow> s
                    | FeedItem uid url title \<Rightarrow>
                        s\<lparr>rs_feedsByUID := (rs_feedsByUID s)(uid := None), rs_feedsByURL := (rs_feedsByURL s)(url := None)\<rparr>)
           in s\<lparr>rs_items := (rs_items s)(i := None)\<rparr>))"

text \<open>Deleting a folder announces it, then deletes its items; the number of items bounds the depth.\<close>

fun item_subtree :: "nat \<Rightarrow> rss_session \<Rightarrow> nat \<Rightarrow> nat list" where
  "item_subtree 0 s i = []"
| "item_subtree (Suc n) s i = i # concat (map (item_subtree n s) (item_children s i))"

definition delete_item :: "nat \<Rightarrow> rss_session \<Rightarrow> rss_session" where
  "delete_item i s = fold item_destroyed (item_subtree (rs_next s) s i) s"

definition session_removeItem :: "qstring \<Rightarrow> rss_session \<Rightarrow> (session_error + rss_session) option" where
  "session_removeItem itemPath s =
     (if itemPath = [] then Some (Inl IsRoot)
      else (case rs_itemsByPath s itemPath of None \<Rightarrow> Some (Inl (NoItem itemPath))
            | Some i \<Rightarrow>
                (case rs_items s i of None \<Rightarrow> None
                 | Some it \<Rightarrow>
                     (case rs_itemsByPath s (item_parentPath (ri_path it)) of None \<Rightarrow> None
                      | Some k \<Rightarrow>
                          if \<not> is_folder s k then None
                          else Some (Inr (session_store (delete_item i (folder_removeItem k i
                                 (notify_session (ItemAboutToBeRemoved i) s)))))))))"

end
