(* ===== verification/Rss_Session_Tree.thy ===== *)
theory Rss_Session_Tree
  imports Rss_Session
begin

text \<open>
  The tree of feeds and folders and the session's tables agree, whatever is added, moved and removed, as long as only
  feeds and empty folders are moved; then an operation never follows a null pointer, and the session is a map from
  paths to what is there. A folder with items breaks both when it is moved.
\<close>

section \<open>Paths\<close>

lemma item_parentPath_join: "path_sep \<notin> set name \<Longrightarrow> item_parentPath (p @ path_sep # name) = p"
  by (simp add: item_parentPath_def)

lemma split_char_append_sep: "split_char c (xs @ c # ys) = split_char c xs @ split_char c ys"
proof (induction xs)
  case (Cons x xs)
  then show ?case by (cases "split_char c xs") auto
qed simp

lemma split_path:
  assumes "item_isValidPath p"
  obtains "path_sep \<notin> set p" "p \<noteq> []" "item_parentPath p = []"
  | name where "p = item_parentPath p @ path_sep # name" "path_sep \<notin> set name" "name \<noteq> []" "item_parentPath p \<noteq> []"
proof (cases "last_index_of path_sep p")
  case None
  then have "path_sep \<notin> set p" by simp
  moreover from this have "p \<noteq> []" using assms by (auto simp: item_isValidPath_def split_char_id)
  ultimately show ?thesis using that(1) None by (simp add: item_parentPath_def)
next
  case (Some pos)
  then have pos: "pos < length p" "p ! pos = path_sep" "path_sep \<notin> set (drop (Suc pos) p)" using last_index_of_Some [OF Some] by auto
  then have p: "p = take pos p @ path_sep # drop (Suc pos) p" by (metis id_take_nth_drop)
  have "list_all (\<lambda>c. c \<noteq> []) (split_char path_sep (take pos p @ path_sep # drop (Suc pos) p))"
    using assms p by (simp add: item_isValidPath_def)
  then have "list_all (\<lambda>c. c \<noteq> []) (split_char path_sep (take pos p) @ split_char path_sep (drop (Suc pos) p))"
    by (simp add: split_char_append_sep)
  then have parts: "list_all (\<lambda>c. c \<noteq> []) (split_char path_sep (take pos p))"
    "list_all (\<lambda>c. c \<noteq> []) (split_char path_sep (drop (Suc pos) p))" by simp_all
  have nonempty: "list_all (\<lambda>c. c \<noteq> []) (split_char path_sep x) \<Longrightarrow> x \<noteq> []" for x by auto
  from parts [THEN nonempty]
  show ?thesis using that(2) [of "drop (Suc pos) p"] p pos(3) Some by (simp add: item_parentPath_def)
qed

lemma parent_shorter: "item_isValidPath p \<Longrightarrow> length (item_parentPath p) < length p"
  by (rule split_path) (auto, metis add_Suc_right length_Cons length_append less_add_Suc1)

definition below_path :: "qstring \<Rightarrow> qstring \<Rightarrow> bool" where
  "below_path p q \<longleftrightarrow> prefix (p @ [path_sep]) q"

lemma under_parent:
  assumes "item_isValidPath q" "p \<noteq> []"
  shows "below_path p q \<longleftrightarrow> item_parentPath q = p \<or> below_path p (item_parentPath q)"
  using assms(1)
proof (rule split_path)
  assume "path_sep \<notin> set q" "item_parentPath q = []"
  then show ?thesis using assms(2) by (auto simp: below_path_def prefix_def)
next
  fix name assume q: "q = item_parentPath q @ path_sep # name" "path_sep \<notin> set name"
  let ?q = "item_parentPath q"
  have "prefix (p @ [path_sep]) (?q @ path_sep # name) \<longleftrightarrow> ?q = p \<or> prefix (p @ [path_sep]) ?q"
  proof
    assume "prefix (p @ [path_sep]) (?q @ path_sep # name)"
    then obtain zs where "?q @ path_sep # name = p @ path_sep # zs" by (auto simp: prefix_def)
    then obtain us where us: "?q = p @ us \<and> us @ path_sep # name = path_sep # zs \<or> ?q @ us = p \<and> path_sep # name = us @ path_sep # zs"
      by (auto simp: append_eq_append_conv2)
    show "?q = p \<or> prefix (p @ [path_sep]) ?q" using us q(2) by (cases us) auto
  qed auto
  then show ?thesis using q(1) by (metis below_path_def)
qed

section \<open>The invariant\<close>

definition path_of :: "rss_session \<Rightarrow> nat \<Rightarrow> qstring option" where
  "path_of s i = map_option ri_path (rs_items s i)"

definition kind_of :: "rss_session \<Rightarrow> nat \<Rightarrow> item_kind option" where
  "kind_of s i = map_option ri_kind (rs_items s i)"

definition parent_of :: "rss_session \<Rightarrow> nat \<Rightarrow> nat option" where
  "parent_of s i = (case path_of s i of None \<Rightarrow> None | Some p \<Rightarrow> rs_itemsByPath s (item_parentPath p))"

text \<open>The items by themselves: what is where.\<close>

definition tree_items_ok :: "rss_session \<Rightarrow> bool" where
  "tree_items_ok s \<longleftrightarrow>
     path_of s 0 = Some [] \<and> is_folder s 0
     \<and> (\<forall>p i. rs_itemsByPath s p = Some i \<longleftrightarrow> path_of s i = Some p)
     \<and> (\<forall>i p. path_of s i = Some p \<longrightarrow> i < rs_next s \<and> (i = 0 \<or> item_isValidPath p \<and> (\<exists>k. parent_of s i = Some k \<and> is_folder s k)))"

definition lists_ok :: "rss_session \<Rightarrow> bool" where
  "lists_ok s \<longleftrightarrow>
     (\<forall>k. distinct (item_children s k))
     \<and> (\<forall>k c. c \<in> set (item_children s k) \<longleftrightarrow> c \<noteq> 0 \<and> parent_of s c = Some k)"

definition feeds_ok :: "rss_session \<Rightarrow> bool" where
  "feeds_ok s \<longleftrightarrow>
     (\<forall>url i. rs_feedsByURL s url = Some i \<longleftrightarrow> (\<exists>uid title. kind_of s i = Some (FeedItem uid url title)))
     \<and> (\<forall>uid i. rs_feedsByUID s uid = Some i \<longleftrightarrow> (\<exists>url title. kind_of s i = Some (FeedItem uid url title)))"

definition tree_ok :: "rss_session \<Rightarrow> bool" where
  "tree_ok s \<longleftrightarrow> tree_items_ok s \<and> lists_ok s \<and> feeds_ok s"

text \<open>What the rest of the program sees.\<close>

datatype entry = Folder | Feed qstring qstring

fun entry_of :: "item_kind \<Rightarrow> entry" where
  "entry_of (FolderItem xs) = Folder"
| "entry_of (FeedItem uid url title) = Feed uid url"

definition contents :: "rss_session \<Rightarrow> qstring \<rightharpoonup> entry" where
  "contents s p = (case rs_itemsByPath s p of None \<Rightarrow> None | Some i \<Rightarrow> map_option entry_of (kind_of s i))"

lemma tree_by_path: "tree_ok s \<Longrightarrow> rs_itemsByPath s p = Some i \<longleftrightarrow> path_of s i = Some p"
  by (simp add: tree_ok_def tree_items_ok_def)

lemma tree_item:
  assumes "tree_ok s" "path_of s i = Some p" "i \<noteq> 0"
  shows "item_isValidPath p" "i < rs_next s" "\<exists>k. parent_of s i = Some k \<and> is_folder s k"
  using assms by (auto simp: tree_ok_def tree_items_ok_def)

lemma path_kind: "path_of s i = None \<longleftrightarrow> rs_items s i = None" "kind_of s i = None \<longleftrightarrow> rs_items s i = None"
  by (simp_all add: path_of_def kind_of_def)

lemma is_folder_kind: "is_folder s i \<longleftrightarrow> (\<exists>xs. kind_of s i = Some (FolderItem xs))"
  by (auto simp: is_folder_def kind_of_def split: option.split item_kind.split)

lemma children_kind: "item_children s i = (case kind_of s i of None \<Rightarrow> [] | Some k \<Rightarrow> kind_children k)"
  by (simp add: item_children_def kind_of_def split: option.split)

lemma new_session_ok: "tree_ok (new_session b)"
  by (auto simp: tree_ok_def tree_items_ok_def lists_ok_def feeds_ok_def new_session_def path_of_def kind_of_def parent_of_def
      is_folder_def item_children_def item_parentPath_def split: if_splits)

text \<open>Signals, the file and the switch for processing are not part of the tree.\<close>

definition same_tree :: "rss_session \<Rightarrow> rss_session \<Rightarrow> bool" where
  "same_tree s t \<longleftrightarrow> rs_items t = rs_items s \<and> rs_next t = rs_next s \<and> rs_itemsByPath t = rs_itemsByPath s
     \<and> rs_feedsByURL t = rs_feedsByURL s \<and> rs_feedsByUID t = rs_feedsByUID s"

lemma same_treeD:
  assumes "same_tree s t"
  shows "path_of t = path_of s" "kind_of t = kind_of s" "parent_of t = parent_of s" "is_folder t = is_folder s"
    "item_children t = item_children s"
  using assms by (auto simp: fun_eq_iff same_tree_def path_of_def kind_of_def parent_of_def is_folder_def item_children_def
      split: option.split)

lemma same_tree_ok: "same_tree s t \<Longrightarrow> tree_ok t = tree_ok s" "same_tree s t \<Longrightarrow> contents t = contents s"
  using same_treeD [of s t]
  by (simp_all add: same_tree_def tree_ok_def tree_items_ok_def lists_ok_def feeds_ok_def contents_def fun_eq_iff split: option.split)

lemma same_tree_ops: "same_tree s (session_store s)" "same_tree s (notify_session x s)" "same_tree s (refresh_feed i s)"
  by (simp_all add: same_tree_def session_store_def notify_session_def refresh_feed_def)

lemma same_tree_trans: "same_tree s t \<Longrightarrow> same_tree t u \<Longrightarrow> same_tree s u"
  by (simp add: same_tree_def)

section \<open>Adding\<close>

lemma prepare_dest:
  assumes "tree_ok s" "prepareItemDest path s = Inr k"
  shows "item_isValidPath path" "rs_itemsByPath s path = None" "path_of s k = Some (item_parentPath path)" "is_folder s k"
  using assms(2) tree_by_path [OF assms(1), of "item_parentPath path" k]
  by (auto simp: prepareItemDest_def split: if_splits option.splits)

lemma prepare_dest_iff:
  assumes "tree_ok s"
  shows "(\<exists>k. prepareItemDest path s = Inr k) \<longleftrightarrow>
    item_isValidPath path \<and> contents s path = None \<and> contents s (item_parentPath path) = Some Folder"
proof -
  have known: "\<exists>x. kind_of s i = Some x" if "rs_itemsByPath s p = Some i" for p i
    using that tree_by_path [OF assms] path_kind [of s i] by (metis not_None_eq)
  have "contents s path = None \<longleftrightarrow> rs_itemsByPath s path = None"
    by (cases "rs_itemsByPath s path") (auto simp: contents_def dest: known)
  moreover have "contents s p = Some Folder \<longleftrightarrow> (\<exists>k. rs_itemsByPath s p = Some k \<and> is_folder s k)" for p
    by (auto simp: contents_def is_folder_kind split: option.split elim!: entry_of.elims)
  ultimately show ?thesis by (auto simp: prepareItemDest_def split: option.split)
qed

lemma parent_path: "path_of s i = Some p \<Longrightarrow> parent_of s i = rs_itemsByPath s (item_parentPath p)"
  by (simp add: parent_of_def)

lemma new_id:
  assumes "tree_ok s"
  shows "path_of s (rs_next s) = None" "kind_of s (rs_next s) = None" "rs_next s \<noteq> 0"
proof -
  show n: "path_of s (rs_next s) = None" using assms by (fastforce simp: tree_ok_def tree_items_ok_def)
  show "kind_of s (rs_next s) = None" using n by (simp add: path_kind)
  show "rs_next s \<noteq> 0" using assms by (auto simp: tree_ok_def tree_items_ok_def)
qed

lemma root_item: "tree_ok s \<Longrightarrow> path_of s 0 = Some [] \<and> is_folder s 0"
  by (simp add: tree_ok_def tree_items_ok_def)

definition fresh_feed :: "item_kind \<Rightarrow> rss_session \<Rightarrow> bool" where
  "fresh_feed kind s \<longleftrightarrow>
     (case kind of FolderItem xs \<Rightarrow> xs = []
      | FeedItem uid url title \<Rightarrow> rs_feedsByURL s url = None \<and> rs_feedsByUID s uid = None)"

lemma session_addItem_facts:
  assumes "session_addItem \<lparr>ri_path = path, ri_kind = kind\<rparr> k s = (i, t)" "tree_ok s" "path_of s k \<noteq> None"
  shows "i = rs_next s" "path_of t = (path_of s)(i \<mapsto> path)"
    "kind_of t = (kind_of s)(i \<mapsto> kind, k \<mapsto> FolderItem (item_children s k @ [i]))"
    "rs_itemsByPath t = (rs_itemsByPath s)(path \<mapsto> i)" "rs_next t = Suc i"
    "rs_feedsByURL t = (case kind of FolderItem xs \<Rightarrow> rs_feedsByURL s | FeedItem uid url title \<Rightarrow> (rs_feedsByURL s)(url \<mapsto> i))"
    "rs_feedsByUID t = (case kind of FolderItem xs \<Rightarrow> rs_feedsByUID s | FeedItem uid url title \<Rightarrow> (rs_feedsByUID s)(uid \<mapsto> i))"
proof -
  have k: "k \<noteq> rs_next s" using assms(3) new_id [OF assms(2)] by auto
  then obtain it where "rs_items s k = Some it" using assms(3) by (auto simp: path_of_def)
  with assms(1) k show "i = rs_next s" "path_of t = (path_of s)(i \<mapsto> path)"
    "kind_of t = (kind_of s)(i \<mapsto> kind, k \<mapsto> FolderItem (item_children s k @ [i]))"
    "rs_itemsByPath t = (rs_itemsByPath s)(path \<mapsto> i)" "rs_next t = Suc i"
    "rs_feedsByURL t = (case kind of FolderItem xs \<Rightarrow> rs_feedsByURL s | FeedItem uid url title \<Rightarrow> (rs_feedsByURL s)(url \<mapsto> i))"
    "rs_feedsByUID t = (case kind of FolderItem xs \<Rightarrow> rs_feedsByUID s | FeedItem uid url title \<Rightarrow> (rs_feedsByUID s)(uid \<mapsto> i))"
    by (auto simp: session_addItem_def Let_def fun_eq_iff path_of_def kind_of_def notify_session_def folder_addItem_def set_kind_def
        item_children_def split: item_kind.splits)
qed

lemma session_addItem_ok:
  assumes ok: "tree_ok s" and dest: "prepareItemDest path s = Inr k" and fresh: "fresh_feed kind s"
    and add: "session_addItem \<lparr>ri_path = path, ri_kind = kind\<rparr> k s = (i, t)"
  shows "tree_ok t" "contents t = (contents s)(path \<mapsto> entry_of kind)"
proof -
  note d = prepare_dest [OF ok dest]
  have pk: "path_of s k \<noteq> None" using d(3) by simp
  note f = session_addItem_facts [OF add ok pk]
  note n = new_id [OF ok, folded f(1)]
  have ik: "i \<noteq> k" using n(1) d(3) by auto
  have short: "item_parentPath path \<noteq> path" "path \<noteq> []" using parent_shorter [OF d(1)] by auto
  obtain xs where xs: "kind_of s k = Some (FolderItem xs)" using d(4) by (auto simp: is_folder_kind)
  have nokids: "kind_children kind = []" using fresh by (auto simp: fresh_feed_def split: item_kind.splits)
  have folder: "is_folder t j \<longleftrightarrow> is_folder s j \<or> j = i \<and> (\<exists>ys. kind = FolderItem ys)" for j
    using xs n(2) ik by (auto simp: is_folder_kind f(3))
  have kids: "item_children t j = (if j = k then item_children s k @ [i] else item_children s j)" for j
    using xs n(2) ik nokids by (auto simp: children_kind f(3))
  have parent_i: "parent_of t i = Some k"
    using short tree_by_path [OF ok] d(3) by (simp add: parent_of_def f)
  have parent_j: "parent_of t j = parent_of s j" if "path_of s j = Some p" for j p
  proof -
    have "item_parentPath p \<noteq> path"
    proof (cases "j = 0")
      case True
      then show ?thesis using that root_item [OF ok] short(2) by (simp add: item_parentPath_def)
    next
      case False
      then show ?thesis using tree_item(3) [OF ok that] parent_path [OF that] d(2) by auto
    qed
    moreover have "j \<noteq> i" using that n(1) by auto
    ultimately show ?thesis using that by (simp add: parent_of_def f)
  qed
  have "tree_items_ok t" unfolding tree_items_ok_def
  proof (intro conjI allI impI)
    show "path_of t 0 = Some []" "is_folder t 0" using root_item [OF ok] n(3) by (auto simp: f(2) folder)
    fix p j
    show "rs_itemsByPath t p = Some j \<longleftrightarrow> path_of t j = Some p"
      using tree_by_path [OF ok, of p j] tree_by_path [OF ok, of path j] d(2) n(1) by (auto simp: f(2,4))
  next
    fix j p assume j: "path_of t j = Some p"
    show "j < rs_next t" using j tree_item(2) [OF ok, of j] f(1) by (cases "j = i"; cases "j = 0") (auto simp: f(2,5) less_Suc_eq)
    show "j = 0 \<or> item_isValidPath p \<and> (\<exists>k. parent_of t j = Some k \<and> is_folder t k)"
    proof (cases "j = i")
      case True
      then show ?thesis using j d parent_i folder by (auto simp: f(2))
    next
      case False
      then have j': "path_of s j = Some p" using j by (simp add: f(2))
      show ?thesis using tree_item [OF ok j'] parent_j [OF j'] folder by auto
    qed
  qed
  moreover have "lists_ok t" unfolding lists_ok_def
  proof (intro conjI allI)
    have l: "distinct (item_children s j)" "c \<in> set (item_children s j) \<longleftrightarrow> c \<noteq> 0 \<and> parent_of s c = Some j" for c j
      using ok by (auto simp: tree_ok_def lists_ok_def)
    have no: "parent_of s i = None" using n(1) by (simp add: parent_of_def)
    fix j
    show "distinct (item_children t j)" using l(1) l(2) [of i k] no by (simp add: kids)
    fix c
    show "c \<in> set (item_children t j) \<longleftrightarrow> c \<noteq> 0 \<and> parent_of t c = Some j"
    proof (cases "c = i")
      case True
      then show ?thesis using l(2) [of i j] no parent_i n(3) by (auto simp: kids)
    next
      case False
      have "parent_of t c = parent_of s c"
        using parent_j [of c] False by (cases "path_of s c") (simp_all add: parent_of_def f(2))
      then show ?thesis using False l(2) by (auto simp: kids)
    qed
  qed
  moreover have "feeds_ok t"
  proof (cases kind)
    case (FolderItem ys)
    then show ?thesis using ok n(2) xs ik by (auto simp: tree_ok_def feeds_ok_def f(3,6,7))
  next
    case (FeedItem u v w)
    have feeds: "rs_feedsByURL s url = Some j \<longleftrightarrow> (\<exists>uid title. kind_of s j = Some (FeedItem uid url title))"
      "rs_feedsByUID s uid = Some j \<longleftrightarrow> (\<exists>url title. kind_of s j = Some (FeedItem uid url title))" for uid url j
      using ok by (simp_all add: tree_ok_def feeds_ok_def)
    have new: "kind_of s j \<noteq> Some (FeedItem a v b)" "kind_of s j \<noteq> Some (FeedItem u a b)" for j a b
      using fresh FeedItem feeds(1) [of v j] feeds(2) [of u j] by (auto simp: fresh_feed_def)
    show ?thesis using feeds new n(2) xs ik FeedItem by (auto simp: feeds_ok_def f(3,6,7))
  qed
  ultimately show "tree_ok t" by (simp add: tree_ok_def)
  have same: "map_option entry_of (kind_of t j) = map_option entry_of (kind_of s j)" if "j \<noteq> i" for j
    using that xs ik by (auto simp: f(3))
  have old: "rs_itemsByPath s x \<noteq> Some i" for x using tree_by_path [OF ok, of x i] n(1) by simp
  show "contents t = (contents s)(path \<mapsto> entry_of kind)"
  proof
    fix x
    show "contents t x = ((contents s)(path \<mapsto> entry_of kind)) x"
      using old [of x] same ik by (cases "rs_itemsByPath s x") (auto simp: contents_def f(3,4))
  qed
qed

section \<open>Moving\<close>

lemma move_item_facts:
  assumes ok: "tree_ok s" and p: "path_of s i = Some p" "i \<noteq> 0" and dest: "prepareItemDest dest s = Inr d" "d \<noteq> i"
  obtains k t where "parent_of s i = Some k" "is_folder s k" "k \<noteq> i" "move_item i dest s = Some (Inr t)"
    "path_of t = (path_of s)(i \<mapsto> dest)"
    "kind_of t = (if k = d then kind_of s
       else (kind_of s)(k \<mapsto> FolderItem (remove1 i (item_children s k)), d \<mapsto> FolderItem (item_children s d @ [i])))"
    "rs_itemsByPath t = (rs_itemsByPath s)(p := None, dest \<mapsto> i)" "rs_next t = rs_next s"
    "rs_feedsByURL t = rs_feedsByURL s" "rs_feedsByUID t = rs_feedsByUID s"
proof -
  note q = prepare_dest [OF ok dest(1)]
  obtain k where k: "parent_of s i = Some k" "is_folder s k" using tree_item(3) [OF ok p] by auto
  have byp: "rs_itemsByPath s (item_parentPath p) = Some k" using k(1) p(1) by (simp add: parent_of_def)
  have "path_of s k = Some (item_parentPath p)" using byp tree_by_path [OF ok] by simp
  then have ki: "k \<noteq> i" using p(1) parent_shorter [OF tree_item(1) [OF ok p]] by auto
  obtain it where it: "rs_items s i = Some it" "ri_path it = p" using p(1) by (auto simp: path_of_def)
  have self: "rs_itemsByPath s p = Some i" using tree_by_path [OF ok] p(1) by simp
  have dp: "dest \<noteq> p" using q(2) self by auto
  obtain kit dit where kd: "rs_items s k = Some kit" "rs_items s d = Some dit"
    using k(2) q(4) by (auto simp: is_folder_def split: option.splits)
  define s1 where "s1 = (if k \<noteq> d then folder_addItem d i (folder_removeItem k i s) else s)"
  define t where "t = session_store (setPath i dest (s1\<lparr>rs_itemsByPath := ((rs_itemsByPath s1)(p := None))(dest := rs_itemsByPath s1 p)\<rparr>))"
  have moved: "move_item i dest s = Some (Inr t)"
    using dest it byp k(2) by (auto simp: move_item_def t_def s1_def Let_def)
  have s1: "rs_items s1 i = Some it" "rs_itemsByPath s1 = rs_itemsByPath s" "rs_next s1 = rs_next s"
    "rs_feedsByURL s1 = rs_feedsByURL s" "rs_feedsByUID s1 = rs_feedsByUID s" "path_of s1 = path_of s"
    "kind_of s1 = (if k = d then kind_of s
       else (kind_of s)(k \<mapsto> FolderItem (remove1 i (item_children s k)), d \<mapsto> FolderItem (item_children s d @ [i])))"
    using it ki dest(2) kd by (auto simp: s1_def folder_addItem_def folder_removeItem_def set_kind_def fun_eq_iff path_of_def kind_of_def
        item_children_def)
  have "path_of t = (path_of s1)(i \<mapsto> dest)" "kind_of t = kind_of s1"
    using s1(1) it by (auto simp: t_def setPath_def session_store_def notify_session_def fun_eq_iff path_of_def kind_of_def)
  moreover have "rs_itemsByPath t = (rs_itemsByPath s)(p := None, dest \<mapsto> i)" "rs_next t = rs_next s"
    "rs_feedsByURL t = rs_feedsByURL s" "rs_feedsByUID t = rs_feedsByUID s"
    using s1(1-5) it dp self by (auto simp: t_def setPath_def session_store_def notify_session_def)
  ultimately show ?thesis using that [OF k ki moved] s1(6,7) by simp
qed

lemma move_item_ok:
  assumes ok: "tree_ok s" and p: "path_of s i = Some p" "i \<noteq> 0" and leaf: "item_children s i = []"
    and dest: "prepareItemDest dest s = Inr d" "d \<noteq> i"
  shows "\<exists>t. move_item i dest s = Some (Inr t) \<and> tree_ok t \<and> contents t = (contents s)(p := None, dest := contents s p)"
proof -
  note q = prepare_dest [OF ok dest(1)]
  obtain k t where k: "parent_of s i = Some k" "is_folder s k" "k \<noteq> i" and moved: "move_item i dest s = Some (Inr t)"
    and f: "path_of t = (path_of s)(i \<mapsto> dest)"
    "kind_of t = (if k = d then kind_of s
       else (kind_of s)(k \<mapsto> FolderItem (remove1 i (item_children s k)), d \<mapsto> FolderItem (item_children s d @ [i])))"
    "rs_itemsByPath t = (rs_itemsByPath s)(p := None, dest \<mapsto> i)" "rs_next t = rs_next s"
    "rs_feedsByURL t = rs_feedsByURL s" "rs_feedsByUID t = rs_feedsByUID s"
    by (rule move_item_facts [OF ok p dest])
  have self: "rs_itemsByPath s p = Some i" using tree_by_path [OF ok] p(1) by simp
  have dp: "dest \<noteq> p" using q(2) self by auto
  have short: "item_parentPath dest \<noteq> dest" "dest \<noteq> []" using parent_shorter [OF q(1)] by auto
  obtain xs ys where fk: "kind_of s k = Some (FolderItem xs)" "kind_of s d = Some (FolderItem ys)"
    using k(2) q(4) by (auto simp: is_folder_kind)
  have l: "distinct (item_children s j)" "c \<in> set (item_children s j) \<longleftrightarrow> c \<noteq> 0 \<and> parent_of s c = Some j" for c j
    using ok by (auto simp: tree_ok_def lists_ok_def)
  have folder: "is_folder t j = is_folder s j" for j using fk by (auto simp: is_folder_kind f(2))
  have kids: "item_children t j = (if k = d then item_children s j else if j = d then item_children s d @ [i]
      else if j = k then remove1 i (item_children s k) else item_children s j)" for j
    using fk by (auto simp: children_kind f(2))
  have "item_parentPath dest \<noteq> p" using q(3) p(1) dest(2) tree_by_path [OF ok] self by (metis option.inject)
  then have parent_i: "parent_of t i = Some d"
    using short tree_by_path [OF ok] q(3) by (simp add: parent_of_def f)
  have parent_j: "parent_of t j = parent_of s j" if j: "path_of s j = Some r" "j \<noteq> i" "j \<noteq> 0" for j r
  proof -
    obtain m where m: "parent_of s j = Some m" using tree_item(3) [OF ok j(1,3)] by auto
    have "m \<noteq> i" using m l(2) [of j i] leaf j(3) by auto
    then have "item_parentPath r \<noteq> p" using m parent_path [OF j(1)] self by auto
    moreover have "item_parentPath r \<noteq> dest" using m parent_path [OF j(1)] q(2) by auto
    ultimately show ?thesis using j by (simp add: parent_of_def f)
  qed
  have none: "parent_of t j = None" if "path_of s j = None" "j \<noteq> i" for j using that by (simp add: parent_of_def f)
  have "tree_items_ok t" unfolding tree_items_ok_def
  proof (intro conjI allI impI)
    show "path_of t 0 = Some []" "is_folder t 0" using root_item [OF ok] p(2) by (auto simp: f(1) folder)
    fix r j
    show "rs_itemsByPath t r = Some j \<longleftrightarrow> path_of t j = Some r"
      using tree_by_path [OF ok, of r j] tree_by_path [OF ok, of dest j] tree_by_path [OF ok, of r i] q(2) p(1) dp
      by (auto simp: f(1,3))
  next
    fix j r assume j: "path_of t j = Some r"
    show "j < rs_next t" using j p tree_item(2) [OF ok, of j] tree_item(2) [OF ok p] ok
      by (cases "j = i"; cases "j = 0") (auto simp: f(1,4) tree_ok_def tree_items_ok_def)
    show "j = 0 \<or> item_isValidPath r \<and> (\<exists>k. parent_of t j = Some k \<and> is_folder t k)"
    proof (cases "j = i")
      case True
      then show ?thesis using j q parent_i folder by (auto simp: f(1))
    next
      case False
      then have j': "path_of s j = Some r" using j by (simp add: f(1))
      show ?thesis using tree_item [OF ok j'] parent_j [OF j' False] folder by auto
    qed
  qed
  moreover have "lists_ok t" unfolding lists_ok_def
  proof (intro conjI allI)
    fix j c
    show "distinct (item_children t j)"
      using l(1) [of j] l(1) [of d] l(1) [of k] l(2) [of i d] k(1) by (auto simp: kids)
    show "c \<in> set (item_children t j) \<longleftrightarrow> c \<noteq> 0 \<and> parent_of t c = Some j"
    proof (cases "c = i")
      case True
      then show ?thesis using l(1) [of k] l(2) [of i j] k(1) parent_i p(2) by (auto simp: kids)
    next
      case False
      have "c \<noteq> 0 \<Longrightarrow> parent_of t c = parent_of s c"
        using parent_j [of c] none [of c] False by (cases "path_of s c") (simp_all add: parent_of_def)
      then show ?thesis using False l(1) [of k] l(2) [of c j] by (auto simp: kids)
    qed
  qed
  moreover have feed: "kind_of t j = Some (FeedItem uid url title) \<longleftrightarrow> kind_of s j = Some (FeedItem uid url title)" for j uid url title
    using fk by (auto simp: f(2))
  then have "feeds_ok t" using ok by (simp add: tree_ok_def feeds_ok_def f(5,6))
  ultimately have "tree_ok t" by (simp add: tree_ok_def)
  moreover have "map_option entry_of (kind_of t j) = map_option entry_of (kind_of s j)" for j using fk by (auto simp: f(2))
  then have "contents t = (contents s)(p := None, dest := contents s p)"
    using dp self by (auto simp: fun_eq_iff contents_def f(3) split: option.split)
  ultimately show ?thesis using moved by blast
qed

end
