(* ===== verification/Rss_Session_Remove.thy ===== *)
theory Rss_Session_Remove
  imports Rss_Session_Tree
begin

text \<open>
  Removing an item removes all that is below it, and leaves the tree and the tables of the session in agreement.
  The session as a map from paths, and the two ways in which moving a folder that has items breaks it.
\<close>

section \<open>What is below an item\<close>

lemma child_path:
  assumes "tree_ok s" "c \<in> set (item_children s i)" "path_of s i = Some p"
  shows "c \<noteq> 0" "\<exists>q. path_of s c = Some q \<and> item_isValidPath q \<and> item_parentPath q = p"
proof -
  have c: "c \<noteq> 0" "parent_of s c = Some i" using assms(1,2) by (auto simp: tree_ok_def lists_ok_def)
  then obtain q where q: "path_of s c = Some q" by (auto simp: parent_of_def split: option.splits)
  then have "rs_itemsByPath s (item_parentPath q) = Some i" using c(2) by (simp add: parent_of_def)
  then have "item_parentPath q = p" using tree_by_path [OF assms(1)] assms(3) by simp
  with q tree_item(1) [OF assms(1) q c(1)] c(1) show "c \<noteq> 0" "\<exists>q. path_of s c = Some q \<and> item_isValidPath q \<and> item_parentPath q = p"
    by auto
qed

definition deeper :: "rss_session \<Rightarrow> qstring \<Rightarrow> nat" where
  "deeper s p = card {j. j < rs_next s \<and> (\<exists>q. path_of s j = Some q \<and> length p < length q)}"

lemma deeper_child:
  assumes "tree_ok s" "path_of s c = Some q" "length p < length q"
  shows "deeper s q < deeper s p"
  unfolding deeper_def
proof (rule psubset_card_mono)
  have "c < rs_next s" using assms(1,2) by (auto simp: tree_ok_def tree_items_ok_def)
  with assms(2,3) have "c \<in> {j. j < rs_next s \<and> (\<exists>r. path_of s j = Some r \<and> length p < length r)}"
    "c \<notin> {j. j < rs_next s \<and> (\<exists>r. path_of s j = Some r \<and> length q < length r)}" by auto
  moreover have "{j. j < rs_next s \<and> (\<exists>r. path_of s j = Some r \<and> length q < length r)}
      \<subseteq> {j. j < rs_next s \<and> (\<exists>r. path_of s j = Some r \<and> length p < length r)}" using assms(3) by auto
  ultimately show "{j. j < rs_next s \<and> (\<exists>r. path_of s j = Some r \<and> length q < length r)}
      \<subset> {j. j < rs_next s \<and> (\<exists>r. path_of s j = Some r \<and> length p < length r)}" by blast
qed simp

lemma deeper_bound:
  assumes "tree_ok s" "path_of s i = Some p"
  shows "deeper s p < rs_next s"
proof -
  have i: "i < rs_next s" using assms by (auto simp: tree_ok_def tree_items_ok_def)
  have "deeper s p \<le> card ({..< rs_next s} - {i})" unfolding deeper_def by (rule card_mono) (use assms(2) in auto)
  also have "\<dots> < rs_next s" using i by simp
  finally show ?thesis .
qed

lemma subtree_self: "0 < n \<Longrightarrow> i \<in> set (item_subtree n s i)"
  by (cases n) auto

lemma subtree_closed:
  assumes "tree_ok s" "path_of s i = Some p" "deeper s p < n" "k \<in> set (item_subtree n s i)" "c \<in> set (item_children s k)"
  shows "c \<in> set (item_subtree n s i)"
  using assms(2-5)
proof (induction n arbitrary: i p)
  case (Suc n)
  have smaller: "\<exists>q. path_of s b = Some q \<and> deeper s q < n" if b: "b \<in> set (item_children s i)" for b
  proof -
    obtain q where q: "path_of s b = Some q" "item_isValidPath q" "item_parentPath q = p"
      using child_path(2) [OF assms(1) b Suc.prems(1)] by blast
    then show ?thesis using deeper_child [OF assms(1) q(1), of p] parent_shorter [OF q(2)] Suc.prems(2) by auto
  qed
  show ?case
  proof (cases "k = i")
    case True
    with smaller [of c] Suc.prems(4) subtree_self [of n c s] have "c \<in> set (item_subtree n s c)" by fastforce
    then show ?thesis using True Suc.prems(4) by auto
  next
    case False
    then obtain b where b: "b \<in> set (item_children s i)" "k \<in> set (item_subtree n s b)" using Suc.prems(3) by auto
    then show ?thesis using smaller [OF b(1)] Suc.IH [of b] Suc.prems(4) by auto
  qed
qed simp

lemma under_trans: "below_path p q \<Longrightarrow> below_path q r \<Longrightarrow> below_path p r"
  by (auto simp: below_path_def prefix_def)

lemma subtree_under:
  assumes "tree_ok s" "path_of s i = Some p" "p \<noteq> []" "k \<in> set (item_subtree n s i)"
  shows "\<exists>q. path_of s k = Some q \<and> (q = p \<or> below_path p q)"
  using assms(2-4)
proof (induction n arbitrary: i p)
  case (Suc n)
  show ?case
  proof (cases "k = i")
    case False
    then obtain c where c: "c \<in> set (item_children s i)" "k \<in> set (item_subtree n s c)" using Suc.prems(3) by auto
    obtain q where q: "path_of s c = Some q" "item_isValidPath q" "item_parentPath q = p"
      using child_path(2) [OF assms(1) c(1) Suc.prems(1)] by blast
    have pq: "below_path p q" using under_parent [OF q(2) Suc.prems(2)] q(3) by simp
    then have "q \<noteq> []" by (auto simp: below_path_def)
    from Suc.IH [OF q(1) this c(2)] under_trans [OF pq] pq show ?thesis by blast
  qed (use Suc.prems in simp)
qed simp

lemma under_in_subtree:
  assumes ok: "tree_ok s" and i: "path_of s i = Some p" "p \<noteq> []" and n: "deeper s p < n"
    and k: "path_of s k = Some q" "q = p \<or> below_path p q"
  shows "k \<in> set (item_subtree n s i)"
  using k
proof (induction "length q" arbitrary: k q rule: less_induct)
  case less
  show ?case
  proof (cases "q = p")
    case True
    then have "k = i" using less.prems(1) i(1) tree_by_path [OF ok, of p] by (metis option.inject)
    then show ?thesis using n subtree_self [of n k s] by simp
  next
    case False
    then have u: "below_path p q" using less.prems(2) by simp
    then have "q \<noteq> []" by (auto simp: below_path_def)
    then have "k \<noteq> 0" using less.prems(1) root_item [OF ok] by (cases "k = 0") auto
    from tree_item [OF ok less.prems(1) this] obtain l where v: "item_isValidPath q" and l: "parent_of s k = Some l" by auto
    have pl: "path_of s l = Some (item_parentPath q)" using l less.prems(1) tree_by_path [OF ok] by (simp add: parent_of_def)
    have "item_parentPath q = p \<or> below_path p (item_parentPath q)" using u under_parent [OF v i(2)] by simp
    from less.hyps [OF parent_shorter [OF v] pl this] have "l \<in> set (item_subtree n s i)" .
    moreover have "k \<in> set (item_children s l)" using ok l \<open>k \<noteq> 0\<close> by (auto simp: tree_ok_def lists_ok_def)
    ultimately show ?thesis by (rule subtree_closed [OF ok i(1) n])
  qed
qed

lemma subtree_set:
  assumes "tree_ok s" "path_of s i = Some p" "p \<noteq> []"
  shows "k \<in> set (item_subtree (rs_next s) s i) \<longleftrightarrow> (\<exists>q. path_of s k = Some q \<and> (q = p \<or> below_path p q))"
  using subtree_under [OF assms] under_in_subtree [OF assms deeper_bound [OF assms(1,2)]] by blast

lemma subtree_cong:
  "(\<And>j. j \<in> set (item_subtree n s i) \<Longrightarrow> item_children t j = item_children s j) \<Longrightarrow> item_subtree n t i = item_subtree n s i"
proof (induction n arbitrary: i)
  case (Suc n)
  have "item_children t i = item_children s i" using Suc.prems by simp
  moreover have "item_subtree n t c = item_subtree n s c" if "c \<in> set (item_children s i)" for c
    using that Suc.prems by (intro Suc.IH) auto
  ultimately show ?case by (simp cong: map_cong)
qed simp

section \<open>Deleting\<close>

lemma destroyed_facts:
  "path_of (item_destroyed i s) j = (if j = i then None else path_of s j)"
  "kind_of (item_destroyed i s) j = (if j = i then None else kind_of s j)"
  "rs_itemsByPath (item_destroyed i s) x = (if path_of s i = Some x then None else rs_itemsByPath s x)"
  "rs_feedsByURL (item_destroyed i s) url = (if \<exists>uid title. kind_of s i = Some (FeedItem uid url title) then None else rs_feedsByURL s url)"
  "rs_feedsByUID (item_destroyed i s) uid = (if \<exists>url title. kind_of s i = Some (FeedItem uid url title) then None else rs_feedsByUID s uid)"
  "rs_next (item_destroyed i s) = rs_next s"
  by (auto simp: item_destroyed_def path_of_def kind_of_def Let_def split: option.split item_kind.split)

lemma delete_facts:
  "path_of (fold item_destroyed is s) j = (if j \<in> set is then None else path_of s j)"
  "kind_of (fold item_destroyed is s) j = (if j \<in> set is then None else kind_of s j)"
  "rs_itemsByPath (fold item_destroyed is s) x = (if \<exists>j \<in> set is. path_of s j = Some x then None else rs_itemsByPath s x)"
  "rs_feedsByURL (fold item_destroyed is s) url =
     (if \<exists>j \<in> set is. \<exists>uid title. kind_of s j = Some (FeedItem uid url title) then None else rs_feedsByURL s url)"
  "rs_feedsByUID (fold item_destroyed is s) uid =
     (if \<exists>j \<in> set is. \<exists>url title. kind_of s j = Some (FeedItem uid url title) then None else rs_feedsByUID s uid)"
  "rs_next (fold item_destroyed is s) = rs_next s"
  by (induction "is" arbitrary: s) (simp_all add: destroyed_facts, auto)

section \<open>Removing an item\<close>

lemma remove_item_facts:
  assumes ok: "tree_ok s" and i: "path_of s i = Some p" "i \<noteq> 0"
  obtains k t where "parent_of s i = Some k" "is_folder s k" "session_removeItem p s = Some (Inr t)"
    "\<forall>j. path_of t j = (if \<exists>q. path_of s j = Some q \<and> (q = p \<or> below_path p q) then None else path_of s j)"
    "\<forall>j. kind_of t j = (if \<exists>q. path_of s j = Some q \<and> (q = p \<or> below_path p q) then None
       else if j = k then Some (FolderItem (remove1 i (item_children s k))) else kind_of s j)"
    "\<forall>x. rs_itemsByPath t x = (if x = p \<or> below_path p x then None else rs_itemsByPath s x)"
    "rs_next t = rs_next s"
    "\<forall>url j. rs_feedsByURL t url = Some j \<longleftrightarrow> (\<exists>uid title. kind_of t j = Some (FeedItem uid url title))"
    "\<forall>uid j. rs_feedsByUID t uid = Some j \<longleftrightarrow> (\<exists>url title. kind_of t j = Some (FeedItem uid url title))"
proof -
  obtain k where k: "parent_of s i = Some k" "is_folder s k" using tree_item(3) [OF ok i] by auto
  have p: "item_isValidPath p" "p \<noteq> []" using tree_item(1) [OF ok i] by (auto simp: item_isValidPath_def)
  have byp: "rs_itemsByPath s (item_parentPath p) = Some k" using k(1) i(1) by (simp add: parent_of_def)
  then have pk: "path_of s k = Some (item_parentPath p)" using tree_by_path [OF ok] by simp
  have self: "rs_itemsByPath s p = Some i" using tree_by_path [OF ok] i(1) by simp
  obtain it where it: "rs_items s i = Some it" "ri_path it = p" using i(1) by (auto simp: path_of_def)
  define D where "D = item_subtree (rs_next s) s i"
  have D: "j \<in> set D \<longleftrightarrow> (\<exists>q. path_of s j = Some q \<and> (q = p \<or> below_path p q))" for j
    unfolding D_def by (rule subtree_set [OF ok i(1) p(2)])
  have "k \<notin> set D"
  proof
    assume "k \<in> set D"
    then have "item_parentPath p = p \<or> below_path p (item_parentPath p)" using D pk by simp
    then show False using parent_shorter [OF p(1)] by (auto simp: below_path_def dest: prefix_length_le)
  qed
  define s0 where "s0 = folder_removeItem k i (notify_session (ItemAboutToBeRemoved i) s)"
  obtain ys where ys: "kind_of s k = Some (FolderItem ys)" using k(2) by (auto simp: is_folder_kind)
  have s0: "path_of s0 = path_of s" "kind_of s0 = (kind_of s)(k \<mapsto> FolderItem (remove1 i (item_children s k)))"
    "rs_itemsByPath s0 = rs_itemsByPath s" "rs_next s0 = rs_next s" "rs_feedsByURL s0 = rs_feedsByURL s" "rs_feedsByUID s0 = rs_feedsByUID s"
    using ys by (auto simp: s0_def folder_removeItem_def notify_session_def set_kind_def fun_eq_iff path_of_def kind_of_def item_children_def)
  have "item_subtree (rs_next s) s0 i = D" unfolding D_def
    by (rule subtree_cong) (use \<open>k \<notin> set D\<close> in \<open>auto simp: children_kind s0(2) D_def\<close>)
  then have removed: "session_removeItem p s = Some (Inr (session_store (fold item_destroyed D s0)))"
    using p(2) self it byp k(2) s0(4) by (simp add: session_removeItem_def delete_item_def s0_def [symmetric])
  let ?t = "session_store (fold item_destroyed D s0)"
  have st: "path_of ?t = path_of (fold item_destroyed D s0)" "kind_of ?t = kind_of (fold item_destroyed D s0)"
    using same_treeD [OF same_tree_ops(1)] by auto
  have sf: "rs_feedsByURL ?t = rs_feedsByURL (fold item_destroyed D s0)" "rs_feedsByUID ?t = rs_feedsByUID (fold item_destroyed D s0)"
    by (simp_all add: session_store_def)
  have path: "path_of ?t j = (if \<exists>q. path_of s j = Some q \<and> (q = p \<or> below_path p q) then None else path_of s j)" for j
    by (auto simp: st delete_facts s0 D)
  have kind: "kind_of ?t j = (if \<exists>q. path_of s j = Some q \<and> (q = p \<or> below_path p q) then None
       else if j = k then Some (FolderItem (remove1 i (item_children s k))) else kind_of s j)" for j
    using \<open>k \<notin> set D\<close> by (auto simp: st delete_facts s0 D)
  have byPath: "rs_itemsByPath ?t x = (if x = p \<or> below_path p x then None else rs_itemsByPath s x)" for x
  proof -
    have "(\<exists>j \<in> set D. path_of s j = Some x) \<longleftrightarrow> rs_itemsByPath s x \<noteq> None \<and> (x = p \<or> below_path p x)"
      using tree_by_path [OF ok, of x] D by (cases "rs_itemsByPath s x") auto
    then show ?thesis by (auto simp: session_store_def delete_facts s0)
  qed
  have feeds: "rs_feedsByURL s url = Some j \<longleftrightarrow> (\<exists>uid title. kind_of s j = Some (FeedItem uid url title))"
    "rs_feedsByUID s uid = Some j \<longleftrightarrow> (\<exists>url title. kind_of s j = Some (FeedItem uid url title))" for url uid j
    using ok by (simp_all add: tree_ok_def feeds_ok_def)
  have kind0: "kind_of s0 j = Some (FeedItem uid url title) \<longleftrightarrow> kind_of s j = Some (FeedItem uid url title)" for j uid url title
    using ys by (auto simp: s0)
  have unique: "j = j'" if "kind_of s j = Some (FeedItem a url b)" "kind_of s j' = Some (FeedItem c url d)" for j j' a b c d url
    using that feeds(1) [of url j] feeds(1) [of url j'] by auto
  have unique': "j = j'" if "kind_of s j = Some (FeedItem uid a b)" "kind_of s j' = Some (FeedItem uid c d)" for j j' a b c d uid
    using that feeds(2) [of uid j] feeds(2) [of uid j'] by auto
  have url: "rs_feedsByURL ?t url = Some j \<longleftrightarrow> (\<exists>uid title. kind_of ?t j = Some (FeedItem uid url title))" for url j
    using feeds(1) [of url] ys by (cases "rs_feedsByURL s url") (auto simp: st sf delete_facts s0(5) kind0 dest: unique)
  have uid: "rs_feedsByUID ?t uid = Some j \<longleftrightarrow> (\<exists>url title. kind_of ?t j = Some (FeedItem uid url title))" for uid j
    using feeds(2) [of uid] ys by (cases "rs_feedsByUID s uid") (auto simp: st sf delete_facts s0(6) kind0 dest: unique')
  have "rs_next ?t = rs_next s" by (simp add: session_store_def delete_facts s0)
  with that [OF k removed _ _ _ _ _ _] path kind byPath url uid show ?thesis by simp
qed

lemma remove_item_ok:
  assumes ok: "tree_ok s" and i: "path_of s i = Some p" "i \<noteq> 0"
  shows "\<exists>t. session_removeItem p s = Some (Inr t) \<and> tree_ok t \<and> contents t = (\<lambda>x. if x = p \<or> below_path p x then None else contents s x)"
proof -
  obtain k t where k: "parent_of s i = Some k" "is_folder s k" and removed: "session_removeItem p s = Some (Inr t)"
    and path: "\<forall>j. path_of t j = (if \<exists>q. path_of s j = Some q \<and> (q = p \<or> below_path p q) then None else path_of s j)"
    and kind: "\<forall>j. kind_of t j = (if \<exists>q. path_of s j = Some q \<and> (q = p \<or> below_path p q) then None
       else if j = k then Some (FolderItem (remove1 i (item_children s k))) else kind_of s j)"
    and byPath: "\<forall>x. rs_itemsByPath t x = (if x = p \<or> below_path p x then None else rs_itemsByPath s x)"
    and nxt: "rs_next t = rs_next s"
    and feeds: "\<forall>url j. rs_feedsByURL t url = Some j \<longleftrightarrow> (\<exists>uid title. kind_of t j = Some (FeedItem uid url title))"
    "\<forall>uid j. rs_feedsByUID t uid = Some j \<longleftrightarrow> (\<exists>url title. kind_of t j = Some (FeedItem uid url title))"
    by (rule remove_item_facts [OF ok i])
  note path = path [rule_format] and kind = kind [rule_format] and byPath = byPath [rule_format] and feeds = feeds [rule_format]
  define gone where "gone j \<longleftrightarrow> (\<exists>q. path_of s j = Some q \<and> (q = p \<or> below_path p q))" for j
  have p: "item_isValidPath p" "p \<noteq> []" using tree_item(1) [OF ok i] by (auto simp: item_isValidPath_def)
  have path': "path_of t j = (if gone j then None else path_of s j)" for j by (simp add: path gone_def)
  obtain ys where ys: "kind_of s k = Some (FolderItem ys)" using k(2) by (auto simp: is_folder_kind)
  have folder: "is_folder t j \<longleftrightarrow> is_folder s j \<and> \<not> gone j" for j using ys by (auto simp: is_folder_kind kind gone_def [symmetric])
  have kids: "item_children t j = (if gone j then [] else if j = k then remove1 i (item_children s k) else item_children s j)" for j
    by (auto simp: children_kind kind gone_def [symmetric])
  have up: "gone m" if "path_of s m = Some x" "x = p \<or> below_path p x" for m x using that by (auto simp: gone_def)
  have parent: "parent_of t j = parent_of s j \<and> (\<forall>m. parent_of s j = Some m \<longrightarrow> \<not> gone m)" if j: "path_of s j = Some r" "\<not> gone j" for j r
  proof (cases "j = 0")
    case True
    then have "r = []" using root_item [OF ok] j(1) by simp
    then have "\<not> (item_parentPath r = p \<or> below_path p (item_parentPath r))" using p(2) by (simp add: item_parentPath_def below_path_def)
    with j show ?thesis using tree_by_path [OF ok] by (auto simp: parent_of_def path' byPath gone_def)
  next
    case False
    then have "item_isValidPath r" using tree_item(1) [OF ok j(1)] by simp
    then have "\<not> (item_parentPath r = p \<or> below_path p (item_parentPath r))" using under_parent [of r p] p(2) j by (auto simp: gone_def)
    with j show ?thesis using tree_by_path [OF ok] by (auto simp: parent_of_def path' byPath gone_def)
  qed
  have l: "distinct (item_children s j)" "c \<in> set (item_children s j) \<longleftrightarrow> c \<noteq> 0 \<and> parent_of s c = Some j" for c j
    using ok by (auto simp: tree_ok_def lists_ok_def)
  have "gone i" using i(1) by (simp add: gone_def)
  have down: "gone c \<Longrightarrow> c = i \<or> gone j" if c: "c \<noteq> 0" "parent_of s c = Some j" for c j
  proof -
    obtain r where r: "path_of s c = Some r" using c(2) by (auto simp: parent_of_def split: option.splits)
    then have pj: "path_of s j = Some (item_parentPath r)" using c(2) tree_by_path [OF ok] by (simp add: parent_of_def)
    assume "gone c"
    then consider "r = p" | "below_path p r" using r by (auto simp: gone_def)
    then show "c = i \<or> gone j"
    proof cases
      case 1
      then show ?thesis using r i(1) tree_by_path [OF ok, of p] by (metis option.inject)
    next
      case 2
      then show ?thesis using under_parent [OF tree_item(1) [OF ok r c(1)] p(2)] up [OF pj] by simp
    qed
  qed
  have "tree_items_ok t" unfolding tree_items_ok_def
  proof (intro conjI allI impI)
    have "\<not> gone 0" using root_item [OF ok] p(2) by (auto simp: gone_def below_path_def)
    then show "path_of t 0 = Some []" "is_folder t 0" using root_item [OF ok] by (simp_all add: path' folder)
    fix r j
    show "rs_itemsByPath t r = Some j \<longleftrightarrow> path_of t j = Some r"
      using tree_by_path [OF ok, of r j] by (auto simp: byPath path' gone_def)
  next
    fix j r assume j: "path_of t j = Some r"
    then have j': "path_of s j = Some r" "\<not> gone j" by (auto simp: path' split: if_splits)
    show "j < rs_next t" using j' ok by (auto simp: nxt tree_ok_def tree_items_ok_def)
    show "j = 0 \<or> item_isValidPath r \<and> (\<exists>k. parent_of t j = Some k \<and> is_folder t k)"
      using tree_item(1,3) [OF ok j'(1)] parent [OF j'] folder by auto
  qed
  moreover have "lists_ok t" unfolding lists_ok_def
  proof (intro conjI allI)
    fix j c
    show "distinct (item_children t j)" using l(1) by (simp add: kids)
    show "c \<in> set (item_children t j) \<longleftrightarrow> c \<noteq> 0 \<and> parent_of t c = Some j"
    proof (cases "gone c \<or> path_of s c = None")
      case True
      then have "parent_of t c = None" by (auto simp: parent_of_def path')
      moreover have "c \<notin> set (item_children t j)"
        using True l(1) [of k] l(2) [of c j] l(2) [of c k] down [of c j] down [of c k] k(1) l(2) [of i j]
        by (auto simp: kids parent_of_def)
      ultimately show ?thesis by simp
    next
      case False
      then obtain r where r: "path_of s c = Some r" "\<not> gone c" by auto
      then have "c \<noteq> i" using \<open>gone i\<close> by auto
      then show ?thesis using parent [OF r] l(2) [of c j] by (auto simp: kids)
    qed
  qed
  moreover have "feeds_ok t" using feeds by (simp add: feeds_ok_def)
  ultimately have "tree_ok t" by (simp add: tree_ok_def)
  moreover have "contents t x = (if x = p \<or> below_path p x then None else contents s x)" for x
  proof (cases "rs_itemsByPath s x")
    case (Some j)
    then have "path_of s j = Some x" using tree_by_path [OF ok] by simp
    then show ?thesis using Some ys by (auto simp: contents_def byPath kind gone_def [symmetric] dest: up)
  qed (simp add: contents_def byPath)
  ultimately show ?thesis using removed by auto
qed

end
