(* ===== verification/Rss_Session_Runs.thy ===== *)
theory Rss_Session_Runs
  imports Rss_Session_Remove
begin

text \<open>
  Runs of the RSS session: adding, moving, removing, new titles and URLs keep the tree in order and never follow a
  null pointer while only feeds and empty folders are moved. The session as a map from paths, and the two ways in which
  moving a folder that has items breaks it.
\<close>

section \<open>Changing a feed\<close>

lemma set_feed_facts:
  assumes "kind_of s i = Some (FeedItem uid url title)"
  shows "path_of (set_kind i (FeedItem a b c) s) = path_of s"
    "kind_of (set_kind i (FeedItem a b c) s) = (kind_of s)(i \<mapsto> FeedItem a b c)"
    "is_folder (set_kind i (FeedItem a b c) s) = is_folder s" "item_children (set_kind i (FeedItem a b c) s) = item_children s"
proof -
  show p: "path_of (set_kind i (FeedItem a b c) s) = path_of s"
    by (cases "rs_items s i") (auto simp: fun_eq_iff path_of_def set_kind_def)
  show k: "kind_of (set_kind i (FeedItem a b c) s) = (kind_of s)(i \<mapsto> FeedItem a b c)"
    using assms by (auto simp: fun_eq_iff kind_of_def set_kind_def)
  show "is_folder (set_kind i (FeedItem a b c) s) = is_folder s" "item_children (set_kind i (FeedItem a b c) s) = item_children s"
    using assms by (auto simp: fun_eq_iff is_folder_kind children_kind k)
qed

lemma set_feed_ok:
  assumes ok: "tree_ok s" and feed: "kind_of s i = Some (FeedItem uid old title)"
    and url: "url = old \<or> rs_feedsByURL s url = None"
    and t: "t = set_kind i (FeedItem uid url title') (s\<lparr>rs_feedsByURL := ((rs_feedsByURL s)(old := None))(url := rs_feedsByURL s old)\<rparr>)"
  shows "tree_ok t" "path_of t = path_of s" "kind_of t = (kind_of s)(i \<mapsto> FeedItem uid url title')" "item_children t = item_children s"
proof -
  let ?s = "s\<lparr>rs_feedsByURL := ((rs_feedsByURL s)(old := None))(url := rs_feedsByURL s old)\<rparr>"
  have same: "path_of ?s = path_of s" "kind_of ?s = kind_of s" "is_folder ?s = is_folder s" "item_children ?s = item_children s"
    by (auto simp: fun_eq_iff path_of_def kind_of_def is_folder_def item_children_def)
  have "kind_of ?s i = Some (FeedItem uid old title)" using feed same by simp
  note f = set_feed_facts [OF this, of uid url title', folded t, unfolded same]
  show "path_of t = path_of s" "kind_of t = (kind_of s)(i \<mapsto> FeedItem uid url title')" "item_children t = item_children s"
    using f by simp_all
  have byPath: "rs_itemsByPath t = rs_itemsByPath s" "rs_next t = rs_next s" "rs_feedsByUID t = rs_feedsByUID s"
    "rs_feedsByURL t = ((rs_feedsByURL s)(old := None))(url := rs_feedsByURL s old)"
    by (simp_all add: t set_kind_def)
  have "parent_of t = parent_of s" by (auto simp: fun_eq_iff parent_of_def f byPath split: option.split)
  then have "tree_items_ok t \<and> lists_ok t" using ok f byPath by (simp add: tree_ok_def tree_items_ok_def lists_ok_def)
  moreover have "feeds_ok t"
  proof -
    have feeds: "rs_feedsByURL s u = Some j \<longleftrightarrow> (\<exists>uid title. kind_of s j = Some (FeedItem uid u title))"
      "rs_feedsByUID s v = Some j \<longleftrightarrow> (\<exists>url title. kind_of s j = Some (FeedItem v url title))" for u v j
      using ok by (simp_all add: tree_ok_def feeds_ok_def)
    have own: "rs_feedsByURL s old = Some i" "rs_feedsByUID s uid = Some i" using feeds feed by auto
    have other: "kind_of s j = Some (FeedItem a old b) \<Longrightarrow> j = i" "kind_of s j = Some (FeedItem uid a b) \<Longrightarrow> j = i" for j a b
      using feeds(1) [of old j] feeds(2) [of uid j] own by auto
    have free: "kind_of s j = Some (FeedItem a url b) \<Longrightarrow> j = i" for j a b
      using url feeds(1) [of url j] other(1) by auto
    have kind: "kind_of t j = Some (FeedItem a u b) \<longleftrightarrow> j = i \<and> a = uid \<and> u = url \<and> b = title' \<or> j \<noteq> i \<and> kind_of s j = Some (FeedItem a u b)" for j a u b
      by (auto simp: f(2))
    have moved: "rs_feedsByURL t u = (if u = url then Some i else if u = old then None else rs_feedsByURL s u)" for u
      using own by (simp add: byPath)
    have "rs_feedsByURL t u = Some j \<longleftrightarrow> (\<exists>a b. kind_of t j = Some (FeedItem a u b))" for u j
    proof (cases "j = i")
      case True
      then show ?thesis using feeds(1) [of u i] feed by (auto simp: moved kind)
    next
      case False
      then show ?thesis using feeds(1) [of u j] other(1) [of j] free [of j] by (auto simp: moved kind)
    qed
    moreover have "rs_feedsByUID t v = Some j \<longleftrightarrow> (\<exists>a b. kind_of t j = Some (FeedItem v a b))" for v j
    proof (cases "j = i")
      case True
      then show ?thesis using feeds(2) [of v i] feed by (auto simp: byPath kind)
    next
      case False
      then show ?thesis using feeds(2) [of v j] by (simp add: byPath kind)
    qed
    ultimately show ?thesis by (simp add: feeds_ok_def)
  qed
  ultimately show "tree_ok t" by (simp add: tree_ok_def)
qed

lemma move_leaf:
  assumes "tree_ok s" "path_of s i = Some p" "i \<noteq> 0" "item_children s i = []"
  shows "(\<exists>err. move_item i dest s = Some (Inl err)) \<or> (\<exists>t. move_item i dest s = Some (Inr t) \<and> tree_ok t)"
proof (cases "prepareItemDest dest s")
  case (Inl err)
  then show ?thesis by (simp add: move_item_def)
next
  case (Inr d)
  show ?thesis
  proof (cases "d = i")
    case True
    then show ?thesis using Inr by (simp add: move_item_def)
  next
    case False
    then show ?thesis using move_item_ok [OF assms Inr] by blast
  qed
qed

lemma feed_is_leaf:
  assumes "tree_ok s" "kind_of s i = Some (FeedItem uid url title)"
  shows "i \<noteq> 0" "item_children s i = []" "\<exists>p. path_of s i = Some p"
  using assms root_item [OF assms(1)] path_kind [of s i]
  by (cases "i = 0"; auto simp: is_folder_kind children_kind path_of_def)+

lemma rename_feed_ok:
  assumes "tree_ok s" "kind_of s i = Some (FeedItem uid url title)"
  shows "\<exists>t. rename_feed i name s = Some t \<and> tree_ok t"
proof -
  obtain p where p: "path_of s i = Some p" using feed_is_leaf [OF assms] by auto
  then obtain it where "rs_items s i = Some it" by (auto simp: path_of_def)
  with move_leaf [OF assms(1) p feed_is_leaf(1,2) [OF assms]] assms(1) show ?thesis
    by (auto simp: rename_feed_def split: option.split sum.split) (metis Inl_Inr_False option.inject sum.inject(2))+
qed

section \<open>Runs\<close>

datatype session_event =
    AddFolder qstring
  | AddFeed qstring qstring qstring
  | MoveItem qstring qstring
  | RemoveItem qstring
  | SetFeedURL qstring qstring
  | TitleChanged nat qstring

definition kept :: "rss_session \<Rightarrow> (session_error + rss_session) option \<Rightarrow> rss_session option" where
  "kept s r = (case r of None \<Rightarrow> None | Some (Inl err) \<Rightarrow> Some s | Some (Inr t) \<Rightarrow> Some t)"

fun session_step :: "session_event \<Rightarrow> rss_session \<Rightarrow> rss_session option" where
  "session_step (AddFolder p) s = kept s (Some (addFolder p s))"
| "session_step (AddFeed uid url p) s = kept s (Some (addFeed uid url p s))"
| "session_step (MoveItem p q) s = kept s (moveItem p q s)"
| "session_step (RemoveItem p) s = kept s (session_removeItem p s)"
| "session_step (SetFeedURL p url) s = kept s (setFeedURL p url s)"
| "session_step (TitleChanged i t) s =
     (case kind_of s i of Some (FeedItem uid url title) \<Rightarrow> handleFeedTitleChanged i t s | _ \<Rightarrow> Some s)"

text \<open>UIDs are new, and what is moved has no items.\<close>

fun gentle :: "session_event \<Rightarrow> rss_session \<Rightarrow> bool" where
  "gentle (AddFeed uid url p) s \<longleftrightarrow> rs_feedsByUID s uid = None"
| "gentle (MoveItem p q) s \<longleftrightarrow> (case rs_itemsByPath s p of None \<Rightarrow> True | Some i \<Rightarrow> item_children s i = [])"
| "gentle ev s \<longleftrightarrow> True"

fun session_run :: "session_event list \<Rightarrow> rss_session \<Rightarrow> rss_session option" where
  "session_run [] s = Some s"
| "session_run (ev # evs) s = (case session_step ev s of None \<Rightarrow> None | Some t \<Rightarrow> session_run evs t)"

fun gentle_run :: "session_event list \<Rightarrow> rss_session \<Rightarrow> bool" where
  "gentle_run [] s \<longleftrightarrow> True"
| "gentle_run (ev # evs) s \<longleftrightarrow> gentle ev s \<and> (case session_step ev s of None \<Rightarrow> True | Some t \<Rightarrow> gentle_run evs t)"

lemma add_ok:
  assumes "tree_ok s" "prepareItemDest path s = Inr k" "fresh_feed kind s"
  shows "tree_ok (snd (session_addItem \<lparr>ri_path = path, ri_kind = kind\<rparr> k s))"
    "contents (snd (session_addItem \<lparr>ri_path = path, ri_kind = kind\<rparr> k s)) = (contents s)(path \<mapsto> entry_of kind)"
  using session_addItem_ok [OF assms prod.collapse [symmetric]] by simp_all

lemma addFolder_ok:
  assumes "tree_ok s"
  shows "addFolder path s = Inr t \<Longrightarrow> tree_ok t \<and> contents t = (contents s)(path \<mapsto> Folder)"
  using add_ok [OF assms, of path _ "FolderItem []"] same_tree_ok [OF same_tree_ops(1)]
  by (auto simp: addFolder_def fresh_feed_def split: sum.splits)

lemma addFeed_ok:
  assumes "tree_ok s" "rs_feedsByUID s uid = None" "addFeed uid url path s = Inr t"
  shows "tree_ok t \<and> contents t = (contents s)(path \<mapsto> Feed uid url)"
proof -
  from assms(3) obtain k where k: "prepareItemDest path s = Inr k" "rs_feedsByURL s url = None"
    and t: "same_tree (snd (session_addItem \<lparr>ri_path = path, ri_kind = FeedItem uid url []\<rparr> k s)) t"
    using same_tree_trans [OF same_tree_ops(1) same_tree_ops(3)]
    by (auto simp: addFeed_def case_prod_beta split: if_splits sum.splits)
  have "fresh_feed (FeedItem uid url []) s" using assms(2) k(2) by (simp add: fresh_feed_def)
  with add_ok [OF assms(1) k(1)] same_tree_ok [OF t] show ?thesis by simp
qed

lemma step_keeps_tree:
  assumes ok: "tree_ok s" and ev: "gentle ev s"
  shows "\<exists>t. session_step ev s = Some t \<and> tree_ok t"
proof (cases ev)
  case (AddFolder p)
  then show ?thesis using addFolder_ok [OF ok, of p] ok by (auto simp: kept_def split: sum.split)
next
  case (AddFeed uid url p)
  then show ?thesis using addFeed_ok [OF ok, of uid url p] ok ev by (auto simp: kept_def split: sum.split)
next
  case (MoveItem p q)
  show ?thesis
  proof (cases "p = [] \<or> rs_itemsByPath s p = None")
    case True
    then show ?thesis using MoveItem ok by (auto simp: moveItem_def kept_def)
  next
    case False
    then obtain i where i: "rs_itemsByPath s p = Some i" by auto
    then have pi: "path_of s i = Some p" using tree_by_path [OF ok] by simp
    then have "i \<noteq> 0" using root_item [OF ok] False by (cases "i = 0") auto
    moreover have "item_children s i = []" using ev MoveItem i by simp
    ultimately show ?thesis using move_leaf [OF ok pi, of q] MoveItem i False ok by (auto simp: moveItem_def kept_def)
  qed
next
  case (RemoveItem p)
  show ?thesis
  proof (cases "p = [] \<or> rs_itemsByPath s p = None")
    case True
    then show ?thesis using RemoveItem ok by (auto simp: session_removeItem_def kept_def)
  next
    case False
    then obtain i where "rs_itemsByPath s p = Some i" by auto
    then have pi: "path_of s i = Some p" using tree_by_path [OF ok] by simp
    then have "i \<noteq> 0" using root_item [OF ok] False by (cases "i = 0") auto
    then show ?thesis using remove_item_ok [OF ok pi] RemoveItem by (auto simp: kept_def)
  qed
next
  case (SetFeedURL p url)
  show ?thesis
  proof (cases "\<exists>i uid old title. rs_itemsByPath s p = Some i \<and> kind_of s i = Some (FeedItem uid old title) \<and> url \<noteq> old \<and> rs_feedsByURL s url = None")
    case True
    then obtain i uid old title where i: "rs_itemsByPath s p = Some i" "kind_of s i = Some (FeedItem uid old title)"
      "url \<noteq> old" "rs_feedsByURL s url = None" by blast
    define s1 where "s1 = set_kind i (FeedItem uid url title) (s\<lparr>rs_feedsByURL := ((rs_feedsByURL s)(old := None))(url := rs_feedsByURL s old)\<rparr>)"
    note f = set_feed_ok [OF ok i(2) disjI2 [OF i(4)] s1_def]
    obtain t where t: "rename_feed i url s1 = Some t" "tree_ok t" using rename_feed_ok [OF f(1), of i] f(3) by auto
    have last: "tree_ok (refresh_feed i (session_store (notify_session x u))) = tree_ok u" for x u
      using same_tree_ok(1) [OF same_tree_trans [OF same_tree_ops(2) same_tree_trans [OF same_tree_ops(1) same_tree_ops(3)]]] by blast
    have kind: "map_option ri_kind (rs_items s i) = Some (FeedItem uid old title)" using i(2) by (simp add: kind_of_def)
    show ?thesis using SetFeedURL i t f(1) last by (simp add: setFeedURL_def kind kept_def s1_def [symmetric])
  next
    case False
    then have "setFeedURL p url s = Some (Inr s) \<or> (\<exists>err. setFeedURL p url s = Some (Inl err))"
      by (auto simp: setFeedURL_def kind_of_def split: option.split item_kind.split)
    then show ?thesis using SetFeedURL ok by (auto simp: kept_def)
  qed
next
  case (TitleChanged i title)
  show ?thesis
  proof (cases "\<exists>uid url old. kind_of s i = Some (FeedItem uid url old)")
    case True
    then obtain uid url old where k: "kind_of s i = Some (FeedItem uid url old)" by blast
    define s1 where "s1 = set_kind i (FeedItem uid url title) s"
    have s1: "s1 = set_kind i (FeedItem uid url title) (s\<lparr>rs_feedsByURL := ((rs_feedsByURL s)(url := None))(url := rs_feedsByURL s url)\<rparr>)"
      by (simp add: s1_def)
    note f = set_feed_ok [OF ok k disjI1 [OF refl] s1]
    obtain it where it: "rs_items s i = Some it" "ri_kind it = FeedItem uid url old" using k by (auto simp: kind_of_def)
    obtain t where t: "rename_feed i title s1 = Some t" "tree_ok t" using rename_feed_ok [OF f(1), of i] f(3) by auto
    then show ?thesis using TitleChanged k it f(1) by (simp add: handleFeedTitleChanged_def Let_def s1_def [symmetric])
  next
    case False
    then show ?thesis using TitleChanged ok by (auto split: option.split item_kind.split)
  qed
qed

lemma run_keeps_tree:
  "tree_ok s \<Longrightarrow> gentle_run evs s \<Longrightarrow> \<exists>t. session_run evs s = Some t \<and> tree_ok t"
proof (induction evs arbitrary: s)
  case (Cons ev evs)
  then obtain t where "session_step ev s = Some t" "tree_ok t" using step_keeps_tree [of s ev] by auto
  with Cons show ?case by simp
qed simp

text \<open>
  C13. While only feeds and empty folders are moved, no course of events on the RSS session follows a null pointer, and
  afterwards the tables by path, URL and UID and the lists of the folders agree.
\<close>

theorem session_tables_agree:
  assumes "gentle_run evs (new_session b)"
  shows "\<exists>t. session_run evs (new_session b) = Some t \<and> tree_items_ok t \<and> lists_ok t \<and> feeds_ok t"
  using run_keeps_tree [OF new_session_ok assms] by (simp add: tree_ok_def)

section \<open>A map from paths\<close>










section \<open>Moving a folder that has items\<close>

text \<open>
  Only the folder itself gets its new path. Its items keep theirs, cannot be found below the new one, and removing one of
  them looks for a parent that is gone and follows a null pointer.
\<close>

definition joined :: "qstring \<Rightarrow> qstring \<Rightarrow> qstring" where
  "joined a b = a @ [path_sep] @ b"

lemma moved_folder_strands_items:
  "map_option (\<lambda>t. (rs_itemsByPath t (joined ''B'' ''f''), rs_itemsByPath t (joined ''A'' ''f'')))
     (session_run [AddFolder ''A'', AddFeed ''1'' ''u'' (joined ''A'' ''f''), MoveItem ''A'' ''B''] (new_session False)) = Some (None, Some 2)"
  "session_run [AddFolder ''A'', AddFeed ''1'' ''u'' (joined ''A'' ''f''), MoveItem ''A'' ''B'', RemoveItem (joined ''A'' ''f'')]
     (new_session False) = None"
  by code_simp+

text \<open>
  Only the folder itself is refused as its own destination. Moved below itself a folder leaves the tree with all its
  feeds, and the file that is written holds nothing any more.
\<close>

lemma folder_moved_below_itself_is_lost:
  "map_option (\<lambda>t. (item_children t 0, rs_file t))
     (session_run [AddFolder ''A'', AddFolder (joined ''A'' ''B''), AddFeed ''1'' ''u'' (joined ''A'' ''f''),
        MoveItem ''A'' (joined (joined ''A'' ''B'') ''C'')] (new_session False)) = Some ([], Some (JObject []))"
  by code_simp

section \<open>A concrete run\<close>

definition session_events_ex :: "session_event list" where
  "session_events_ex = [AddFolder ''A'', AddFeed ''1'' ''u'' (joined ''A'' ''f''), AddFolder ''B'',
     MoveItem (joined ''A'' ''f'') (joined ''B'' ''g''), RemoveItem ''B'']"

lemma gentle_ex: "gentle_run session_events_ex (new_session False)"
  by code_simp

theorem session_tables_agree_witness:
  "\<exists>t. session_run session_events_ex (new_session False) = Some t \<and> tree_items_ok t \<and> lists_ok t \<and> feeds_ok t"
  by (rule session_tables_agree [OF gentle_ex])


end
