(* ===== verification/Spec2Isabelle.thy ===== *)
theory Spec2Isabelle
  imports Utils_ByteArray Utils_String Digest32 Http_Request Http_Connection Filter_Parser Tracker Path
    Monitors Torrent_State Move_Storage Categories Web_Sync Web_Access Settings_Storage GeoIP_Format Smtp_Mail Download_Queue Rss_Documents Rss_Rule_Streams Rss_Downloader_Runs Rss_Session_Runs
begin

text \<open>
  Verification of the core of qBittorrent 5.1.4, the sources under \<^verbatim>\<open>src/src\<close>.

  \<^bold>\<open>The program.\<close> qBittorrent is a BitTorrent client. A session (\<^verbatim>\<open>base/bittorrent\<close>) wraps
  libtorrent and keeps what the user sees of each torrent: its state, category, tags, paths, limits. Around it stand
  an embedded HTTP server (\<^verbatim>\<open>base/http\<close>) that serves both the embedded tracker and the Web UI
  (\<^verbatim>\<open>webui\<close>), readers for files from outside (IP filters, MaxMind databases, feeds), clients for
  services outside (mail, downloads over HTTP), and the settings on disk. The parts meet in few places, and these are
  where the theorems span several theories: the connection runs on the request parser; the tracker and the Web UI are
  request handlers of the connection; storage moves, categories and torrent states share one session.

  \<^bold>\<open>Theories, sources and what is shown.\<close> Definitions keep the names of the code. Records are its
  classes, with the fields the modelled operations use; datatypes are its enumerations; errors are values (an option, a
  sum, or an error datatype of the component).

  \<^item> \<open>Prelude\<close>, \<open>Qt_Containers\<close>: strings, byte arrays, lists and \<^verbatim>\<open>QMap\<close> as the
    sources use them; \<^verbatim>\<open>QMap\<close> is the interpretation of the locale \<open>dictionary\<close> that other
    theories rest on.
  \<^item> \<open>Utils_ByteArray\<close>, \<open>Utils_String\<close>, \<open>Utils_Password\<close>, \<open>Digest32\<close>,
    \<open>Path\<close> (\<^verbatim>\<open>base/utils\<close>, \<^verbatim>\<open>base/digest32.h\<close>,
    \<^verbatim>\<open>base/path.cpp\<close>): splitting, Base32, quoting, natural order, versions, salted passwords,
    hexadecimal digests, paths. Mostly round trips and equivalences with reference definitions.
  \<^item> \<open>Http_Request\<close> (\<^verbatim>\<open>base/http/requestparser.cpp\<close>): the verdict of the parser depends on
    the first frame of the buffer only (\<open>parse_framing\<close>), printed requests are parsed back, parsed header names
    are lower case.
  \<^item> \<open>Http_Connection\<close> (\<^verbatim>\<open>base/http/connection.cpp\<close>,
    \<^verbatim>\<open>responsegenerator.cpp\<close>, \<^verbatim>\<open>responsebuilder.cpp\<close>,
    \<^verbatim>\<open>httperror.cpp\<close>): against the locale of a frame parser, which the request parser interprets,
    the answers do not depend on how the bytes were cut into segments, pipelined requests are all answered, the length
    written is that of the body.
  \<^item> \<open>Filter_Parser\<close> (\<^verbatim>\<open>base/bittorrent/filterparserthread.cpp\<close>): reading block by block
    gives what reading the whole file gives; the binary format is read back as written.
  \<^item> \<open>Tracker\<close> (\<^verbatim>\<open>base/bittorrent/tracker.cpp\<close>): over any stream of requests the counters
    agree with the peers and the tables stay within their bounds; an announce other than stopped registers its peer;
    the whole reply, the peers it lists included, is truthful.
  \<^item> \<open>Monitors\<close> (\<^verbatim>\<open>base/logger.cpp\<close>, \<^verbatim>\<open>speedmonitor.cpp\<close>,
    \<^verbatim>\<open>bandwidthscheduler.cpp\<close>): bounded logs, running sums, the schedule of alternative limits.
  \<^item> \<open>Torrent_State\<close> (\<^verbatim>\<open>torrentimpl.cpp\<close>, \<^verbatim>\<open>torrentfilter.cpp\<close>, share
    limits of \<^verbatim>\<open>sessionimpl.cpp\<close>): which states a torrent shows, stopping and starting, filters, the
    one action a share limit takes.
  \<^item> \<open>Move_Storage\<close> (\<^verbatim>\<open>sessionimpl.cpp\<close>, \<^verbatim>\<open>torrentimpl.cpp\<close>): the
    queue of storage moves never has two moves at libtorrent and drains under alerts, reloading of torrents with missing
    files included; a call on an invalid handle raises, as libtorrent does. The runs leave out two courses that queue a job
    under a handle about to be given up: a move of a torrent with missing files while its only job waits, after which the
    queue can stick (\<open>missing_files_wedge_queue\<close>), and a reload of a torrent with a queued move.
  \<^item> \<open>Categories\<close> (\<^verbatim>\<open>sessionimpl.cpp\<close>, \<^verbatim>\<open>torrentimpl.cpp\<close>,
    \<^verbatim>\<open>categoryoptions.cpp\<close>): categories and their file, subcategories turned on and off, the session's
    own paths, tags and where all of them put a torrent; every torrent's category stays one of the session's.
  \<^item> \<open>Web_Sync\<close> (\<^verbatim>\<open>webui/api/synccontroller.cpp\<close>): a client that applies the differences
    holds what the server holds, null fields being the same as none; a field that is unset without a null stays with the
    client (\<open>unset_path_stays\<close>).
  \<^item> \<open>Web_App\<close>, \<open>Web_Files\<close>, \<open>Web_Access\<close>
    (\<^verbatim>\<open>webui/webapplication.cpp\<close>, \<^verbatim>\<open>api/authcontroller.cpp\<close>): the whole
    request path: outsiders get nothing, failed logins are bounded by the ban, a login opens a session, files served stay
    in their folders.
  \<^item> \<open>Settings_Storage\<close> (\<^verbatim>\<open>base/settingsstorage.cpp\<close>): settings survive a stop at any
    point of a save; how failed saves lose them.
  \<^item> \<open>GeoIP\<close>, \<open>GeoIP_Format\<close> (\<^verbatim>\<open>base/net/geoipdatabase.cpp\<close>): a loaded database
    is well typed, its walk stays in bounds, its lookups follow the tree of networks a writer put in.
  \<^item> \<open>Smtp\<close>, \<open>Smtp_Dialogue\<close>, \<open>Smtp_Mail\<close> (\<^verbatim>\<open>base/net/smtp.cpp\<close>): each
    command follows a consenting reply, a mail is delivered, header folding, HMAC, and where the dialogue goes wrong.
  \<^item> \<open>Download_Manager\<close>, \<open>Download_Queue\<close> (\<^verbatim>\<open>base/net/downloadmanager.cpp\<close>,
    \<^verbatim>\<open>downloadhandlerimpl.cpp\<close>): a sequential service has one request at a time and its queue drains.
  \<^item> \<open>Rss_Feed\<close>, \<open>Rss_Feed_Articles\<close>, \<open>Rss_Feed_Runs\<close>
    (\<^verbatim>\<open>base/rss/rss_feed.cpp\<close>, \<^verbatim>\<open>rss_article.cpp\<close>,
    \<^verbatim>\<open>feed_serializer.cpp\<close>): a feed keeps its most recent articles, its list, table, count and
    signals agree over any course of events, and it survives a restart.
  \<^item> \<open>Rss_Dates\<close>, \<open>Rss_Parser\<close>, \<open>Rss_Documents\<close>
    (\<^verbatim>\<open>base/rss/rss_parser.cpp\<close>): RFC 822 dates in their full numeric form are read as the moments they name; any document gives
    articles with distinct identifiers, which is what the feed relies on; a written feed gives its items.
  \<^item> \<open>Add_Params\<close>, \<open>Rss_Rule\<close>, \<open>Rss_Rule_Matching\<close>, \<open>Rss_Rule_Streams\<close>, \<open>Rss_Rule_Json\<close>
    (\<^verbatim>\<open>base/bittorrent/addtorrentparams.cpp\<close>, \<^verbatim>\<open>base/rss/rss_autodownloadrule.cpp\<close>): matching with its table of
    compiled expressions decides what the rule wants, stated without loops or table, for filters whose ranges have two
    parts as the code asserts (\<open>ranges_ok\<close>); the smart filter bounds what is
    accepted of an episode, the days to ignore keep articles apart; a rule and its parameters survive their JSON form.
  \<^item> \<open>Rss_Downloader\<close>, \<open>Rss_Downloader_Rules\<close>, \<open>Rss_Downloader_Runs\<close>
    (\<^verbatim>\<open>base/rss/rss_autodownloader.cpp\<close>): the ordered rules and their index are a map by name over any course
    of events, which survives a restart up to what the file does not keep (\<open>restored_rule\<close>); over any course of
    events an article goes to the first rule that wants it.
  \<^item> \<open>Rss_Session\<close>, \<open>Rss_Session_Tree\<close>, \<open>Rss_Session_Remove\<close>, \<open>Rss_Session_Runs\<close>
    (\<^verbatim>\<open>base/rss/rss_session.cpp\<close>, \<^verbatim>\<open>rss_folder.cpp\<close>, \<^verbatim>\<open>rss_item.cpp\<close>): items are objects, an operation gives
    \<open>None\<close> where the code follows a null pointer. While only feeds and empty folders are moved that never happens,
    the tables by path, URL and UID and the folders' lists agree, and the session is a map from paths. The number of
    items bounds the depth of the tree, which is enough fuel for deleting a subtree (\<open>deeper_bound\<close>).

  \<^bold>\<open>Parameters.\<close> What is not in the sources is an argument: Qt's conversions (UTF-8, URLs, numbers,
  regular expressions, dates), libtorrent, OpenSSL, gzip, the clock, the file system, the order of hash containers.
  They come as arguments or as the fields of a record per component (\<open>web_ext\<close>, \<open>tracker_env\<close>,
  \<open>dm_env\<close> and others), and what a theorem needs of them is one of its hypotheses.

  \<^bold>\<open>Loops and bounds.\<close> Loops are total functions with a measure (the unread bytes, the remaining lines, the
  unfinished handlers). Two have an explicit limit in their place. The reader of MaxMind data nests maps and arrays as
  deep as the file says; its fuel is the length of the file, and since a value takes at least a byte of it a nesting
  that outruns the fuel outruns the file (\<open>GeoIP\<close>). The mail client reads the fourth character of a line
  without a look at its length; that step has the outcome of a read beyond the end (\<open>Smtp\<close>). Integers of the
  binary formats are words or carry their wrap-around; counters that would take more than two thousand million steps to
  overflow are unbounded.

  \<^bold>\<open>Not modelled.\<close> The graphical interface (\<^verbatim>\<open>gui\<close>), the pages and scripts of the Web
  UI (\<^verbatim>\<open>webui/www\<close>) and the start of the process (\<^verbatim>\<open>app\<close>) present or start
  what is modelled. The vendored libtorrent (\<^verbatim>\<open>src/deps\<close>) is third-party code: its alerts, handles and
  statuses are values of the model. Of the session and the torrents the settings that are passed on to libtorrent, the
  alerts that only log, trackers and peers of a torrent and resume data on disk are left out; of the Web API the
  controllers that translate requests to calls of the session; of RSS the reading of the list of feeds, the rules of
  versions before 4.1 and the merged list of a folder's articles. Watched folders, torrent creation, the search plugins
  and the helpers that call the system, zlib or OpenSSL run files, processes or libraries the model cannot see. Character sets beyond Latin-1 appear only where a
  conversion is a parameter. Locks, signals to the interface and log messages are left out, save where a component's
  contract is about them.
\<close>

end
